(* ===== verification/Go_Base.thy ===== *)
theory Go_Base
  imports Main "HOL-Library.Sublist"
begin

text \<open>
  Prelude of the development: what the program uses of Go's \<^verbatim>\<open>strings\<close> and
  \<^verbatim>\<open>strconv\<close> packages, as functions on \<^typ>\<open>string\<close>. A Go string is a sequence of bytes
  and a \<^typ>\<open>char\<close> is a byte, so lengths and indices are byte counts, as in the source.
  The theory also holds the generic lemmas on lists, association lists and decimal
  numerals that the component theories share.

  \<^item> \<open>split_char\<close> / \<open>join_char\<close>: \<^verbatim>\<open>strings.Split\<close> and \<^verbatim>\<open>strings.Join\<close> with a one-byte separator;
  \<^item> \<open>index_char\<close>, \<open>index_sub\<close>, \<open>has_prefix\<close>, \<open>has_suffix\<close>, \<open>contains_sub\<close>, \<open>trim_prefix\<close>,
    \<open>trim_suffix\<close>: the functions of the same names;
  \<^item> \<open>trim_space\<close>: \<^verbatim>\<open>strings.TrimSpace\<close>, over all UTF-8 encodings of Unicode white space;
  \<^item> \<open>to_lower\<close>: \<^verbatim>\<open>strings.ToLower\<close> on the ASCII range (bytes from 128 on are kept);
  \<^item> \<open>format_int\<close>, \<open>format_nat\<close>: \<^verbatim>\<open>strconv.FormatInt\<close> in base 10.
\<close>

named_theorems go_simps \<open>unfolding rules of the library functions\<close>

section \<open>Prefixes, suffixes, substrings\<close>

definition has_prefix :: "string \<Rightarrow> string \<Rightarrow> bool" where
  "has_prefix s p \<longleftrightarrow> take (length p) s = p"

definition has_suffix :: "string \<Rightarrow> string \<Rightarrow> bool" where
  "has_suffix s p \<longleftrightarrow> length p \<le> length s \<and> drop (length s - length p) s = p"

definition trim_prefix :: "string \<Rightarrow> string \<Rightarrow> string" where
  "trim_prefix s p = (if has_prefix s p then drop (length p) s else s)"

definition trim_suffix :: "string \<Rightarrow> string \<Rightarrow> string" where
  "trim_suffix s p = (if has_suffix s p then take (length s - length p) s else s)"

fun contains_sub :: "string \<Rightarrow> string \<Rightarrow> bool" where
  "contains_sub [] p = (p = [])"
| "contains_sub (c # s) p = (has_prefix (c # s) p \<or> contains_sub s p)"

text \<open>\<^verbatim>\<open>strings.Index\<close>; \<^const>\<open>None\<close> stands for -1.\<close>

fun index_sub :: "string \<Rightarrow> string \<Rightarrow> nat option" where
  "index_sub [] p = (if p = [] then Some 0 else None)"
| "index_sub (c # s) p = (if has_prefix (c # s) p then Some 0 else map_option Suc (index_sub s p))"

fun index_char :: "char \<Rightarrow> string \<Rightarrow> nat option" where
  "index_char c [] = None"
| "index_char c (d # s) = (if d = c then Some 0 else map_option Suc (index_char c s))"

text \<open>\<^verbatim>\<open>strings.LastIndexByte\<close>.\<close>

fun last_index_char :: "char \<Rightarrow> string \<Rightarrow> nat option" where
  "last_index_char c [] = None"
| "last_index_char c (d # s) =
     (case last_index_char c s of Some i \<Rightarrow> Some (Suc i) | None \<Rightarrow> if d = c then Some 0 else None)"

section \<open>Split and join\<close>

fun split_char :: "char \<Rightarrow> string \<Rightarrow> string list" where
  "split_char c [] = [[]]"
| "split_char c (d # s) =
     (if d = c then [] # split_char c s
      else (case split_char c s of [] \<Rightarrow> [[d]] | w # ws \<Rightarrow> (d # w) # ws))"

fun join_char :: "char \<Rightarrow> string list \<Rightarrow> string" where
  "join_char c [] = []"
| "join_char c [w] = w"
| "join_char c (w # v # ws) = w @ [c] @ join_char c (v # ws)"

section \<open>White space, case\<close>

definition space_seqs :: "string list" where
  "space_seqs =
     map (\<lambda>n. [char_of (n::nat)]) [9, 10, 11, 12, 13, 32] @
     map (\<lambda>n. [char_of (194::nat), char_of (n::nat)]) [133, 160] @
     [[char_of (225::nat), char_of (154::nat), char_of (128::nat)]] @
     map (\<lambda>n. [char_of (226::nat), char_of (128::nat), char_of (n::nat)])
       [128, 129, 130, 131, 132, 133, 134, 135, 136, 137, 138, 168, 169, 175] @
     [[char_of (226::nat), char_of (129::nat), char_of (159::nat)],
      [char_of (227::nat), char_of (128::nat), char_of (128::nat)]]"

lemma space_seqs_nonempty: "w \<in> set space_seqs \<Longrightarrow> w \<noteq> []"
  by (auto simp: space_seqs_def)

function trim_front :: "string list \<Rightarrow> string \<Rightarrow> string" where
  "trim_front ws s =
     (case find (\<lambda>w. w \<noteq> [] \<and> has_prefix s w) ws of None \<Rightarrow> s
      | Some w \<Rightarrow> trim_front ws (drop (length w) s))"
  by pat_completeness auto
termination
proof (relation "measure (\<lambda>(ws, s). length s)")
  fix ws s w
  assume "find (\<lambda>w. w \<noteq> [] \<and> has_prefix s w) ws = Some w"
  then have "w \<noteq> []" "has_prefix s w" by (auto simp: find_Some_iff)
  then have "s \<noteq> []" by (auto simp: has_prefix_def)
  with \<open>w \<noteq> []\<close> show "((ws, drop (length w) s), (ws, s)) \<in> measure (\<lambda>(ws, s). length s)"
    by (cases s; cases w) auto
qed simp

declare trim_front.simps [simp del]

definition trim_left_space :: "string \<Rightarrow> string" where
  "trim_left_space s = trim_front space_seqs s"

definition trim_right_space :: "string \<Rightarrow> string" where
  "trim_right_space s = rev (trim_front (map rev space_seqs) (rev s))"

definition trim_space :: "string \<Rightarrow> string" where
  "trim_space s = trim_right_space (trim_left_space s)"

text \<open>\<^verbatim>\<open>strings.TrimRight(s, cutset)\<close> and \<^verbatim>\<open>strings.Trim\<close> with a one-byte cutset.\<close>

definition trim_right_char :: "char \<Rightarrow> string \<Rightarrow> string" where
  "trim_right_char c s = rev (dropWhile (\<lambda>d. d = c) (rev s))"

definition trim_char :: "char \<Rightarrow> string \<Rightarrow> string" where
  "trim_char c s = trim_right_char c (dropWhile (\<lambda>d. d = c) s)"

definition lower_char :: "char \<Rightarrow> char" where
  "lower_char c = (let n = of_char c :: nat in if 65 \<le> n \<and> n \<le> 90 then char_of (n + 32) else c)"

definition to_lower :: "string \<Rightarrow> string" where
  "to_lower s = map lower_char s"

section \<open>Decimal numerals\<close>

definition digit_char :: "nat \<Rightarrow> char" where
  "digit_char d = char_of (48 + d)"

definition is_digit :: "char \<Rightarrow> bool" where
  "is_digit c \<longleftrightarrow> (let n = of_char c :: nat in 48 \<le> n \<and> n \<le> 57)"

definition digit_val :: "char \<Rightarrow> nat" where
  "digit_val c = of_char c - 48"

fun format_nat :: "nat \<Rightarrow> string" where
  "format_nat n = (if n < 10 then [digit_char n] else format_nat (n div 10) @ [digit_char (n mod 10)])"

declare format_nat.simps [simp del]

definition format_int :: "int \<Rightarrow> string" where
  "format_int i = (if i < 0 then CHR ''-'' # format_nat (nat (- i)) else format_nat (nat i))"

fun digits_val :: "nat \<Rightarrow> string \<Rightarrow> nat" where
  "digits_val acc [] = acc"
| "digits_val acc (c # s) = digits_val (acc * 10 + digit_val c) s"

section \<open>Lemmas: prefixes and suffixes\<close>

lemma has_prefix_append [simp]: "has_prefix (p @ s) p"
  by (simp add: has_prefix_def)

lemma has_prefix_iff: "has_prefix s p \<longleftrightarrow> (\<exists>r. s = p @ r)"
  by (metis append_take_drop_id append_eq_conv_conj has_prefix_def)

lemma has_prefix_Cons_Cons [simp]: "has_prefix (c # s) (d # p) \<longleftrightarrow> c = d \<and> has_prefix s p"
  by (auto simp: has_prefix_def)

lemma has_prefix_Nil [simp]: "has_prefix s []"
  by (simp add: has_prefix_def)

lemma has_prefix_Nil_Cons [simp]: "\<not> has_prefix [] (c # p)"
  by (simp add: has_prefix_def)

lemma has_suffix_iff: "has_suffix s p \<longleftrightarrow> (\<exists>r. s = r @ p)"
proof
  assume "has_suffix s p"
  then have "s = take (length s - length p) s @ p"
    by (metis append_take_drop_id has_suffix_def)
  then show "\<exists>r. s = r @ p" by blast
qed (auto simp: has_suffix_def)

lemma trim_prefix_append [simp]: "trim_prefix (p @ s) p = s"
  by (simp add: trim_prefix_def)

lemma trim_suffix_append [simp]: "trim_suffix (s @ p) p = s"
  by (simp add: trim_suffix_def has_suffix_def)

lemma contains_sub_iff: "contains_sub s p \<longleftrightarrow> (\<exists>a b. s = a @ p @ b)"
proof (induction s)
  case (Cons c s)
  show ?case
  proof
    assume "contains_sub (c # s) p"
    then consider "has_prefix (c # s) p" | "contains_sub s p" by auto
    then show "\<exists>a b. c # s = a @ p @ b"
      by cases (metis append_Nil has_prefix_iff, metis Cons.IH append_Cons)
  next
    assume "\<exists>a b. c # s = a @ p @ b"
    then obtain a b where "c # s = a @ p @ b" by blast
    then have "has_prefix (c # s) p \<or> contains_sub s p"
      using Cons.IH by (cases a) (auto simp: has_prefix_iff)
    then show "contains_sub (c # s) p" by simp
  qed
qed auto

lemma index_char_None_iff [simp]: "index_char c s = None \<longleftrightarrow> c \<notin> set s"
  by (induction s) auto

lemma index_char_append: "c \<notin> set a \<Longrightarrow> index_char c (a @ c # b) = Some (length a)"
  by (induction a) auto

lemma index_char_SomeD:
  "index_char c s = Some i \<Longrightarrow> i < length s \<and> s ! i = c \<and> c \<notin> set (take i s)"
  by (induction s arbitrary: i) (auto split: if_splits)

section \<open>Lemmas: split and join\<close>

lemma split_char_not_Nil [simp]: "split_char c s \<noteq> []"
  by (induction s) (auto split: list.splits)

lemma split_char_no_sep: "c \<notin> set s \<Longrightarrow> split_char c s = [s]"
  by (induction s) auto

lemma split_char_append_sep: "c \<notin> set a \<Longrightarrow> split_char c (a @ c # s) = a # split_char c s"
  by (induction a) auto

lemma join_char_Cons: "ws \<noteq> [] \<Longrightarrow> join_char c (w # ws) = w @ c # join_char c ws"
  by (cases ws) auto

lemma join_split_char [simp]: "join_char c (split_char c s) = s"
proof (induction s)
  case (Cons d s)
  have hd: "join_char c ((d # w) # ws) = d # join_char c (w # ws)" for w ws
    by (cases ws) auto
  show ?case
    using Cons hd by (cases "split_char c s") (auto simp: join_char_Cons)
qed simp

lemma split_join_char:
  "ws \<noteq> [] \<Longrightarrow> (\<forall>w \<in> set ws. c \<notin> set w) \<Longrightarrow> split_char c (join_char c ws) = ws"
proof (induction ws)
  case (Cons w ws)
  then show ?case
    by (cases ws) (auto simp: split_char_no_sep split_char_append_sep)
qed simp

lemma split_char_no_sep_elem: "w \<in> set (split_char c s) \<Longrightarrow> c \<notin> set w"
proof (induction s arbitrary: w)
  case (Cons d s)
  then show ?case
    by (cases "split_char c s") (auto split: if_splits)
qed simp

lemma set_join_char: "set (join_char c ws) \<subseteq> insert c (\<Union> (set ` set ws))"
  by (induction c ws rule: join_char.induct) auto

lemma join_char_inj:
  assumes "join_char c ws = join_char c vs" "ws \<noteq> []" "vs \<noteq> []"
    "\<forall>w \<in> set ws. c \<notin> set w" "\<forall>w \<in> set vs. c \<notin> set w"
  shows "ws = vs"
  using assms by (metis split_join_char)

section \<open>Lemmas: decimal numerals\<close>

lemma digit_char_is_digit [simp]: "d < 10 \<Longrightarrow> is_digit (digit_char d)"
  by (simp add: is_digit_def digit_char_def Let_def)

lemma digit_val_char [simp]: "d < 10 \<Longrightarrow> digit_val (digit_char d) = d"
  by (simp add: digit_val_def digit_char_def)

lemma digits_val_append: "digits_val acc (s @ [c]) = digits_val acc s * 10 + digit_val c"
  by (induction acc s rule: digits_val.induct) auto

lemma digits_val_format_nat [simp]: "digits_val 0 (format_nat n) = n"
proof (induction n rule: format_nat.induct)
  case (1 n)
  then show ?case
    by (subst format_nat.simps) (auto simp: digits_val_append)
qed

lemma format_nat_digits: "c \<in> set (format_nat n) \<Longrightarrow> is_digit c"
proof (induction n rule: format_nat.induct)
  case (1 n)
  from "1.prems" show ?case
    by (subst (asm) format_nat.simps) (auto split: if_splits intro: "1.IH")
qed

lemma format_nat_not_Nil [simp]: "format_nat n \<noteq> []"
  by (subst format_nat.simps) simp

lemma format_nat_inj: "format_nat m = format_nat n \<Longrightarrow> m = n"
  by (metis digits_val_format_nat)

lemma is_digit_plain: "is_digit c \<Longrightarrow> 48 \<le> (of_char c :: nat) \<and> (of_char c :: nat) \<le> 57"
  by (simp add: is_digit_def Let_def)

lemma not_digit [simp]: "\<not> is_digit (CHR ''-'')" "\<not> is_digit (CHR ''/'')" "\<not> is_digit (CHR '' '')"
  by (simp_all add: is_digit_def)

lemma format_int_inj: "format_int i = format_int j \<Longrightarrow> i = j"
proof -
  assume e: "format_int i = format_int j"
  have hd: "hd (format_nat n) \<noteq> CHR ''-''" for n
    using format_nat_digits [of "hd (format_nat n)" n] by auto
  consider "i < 0" "j < 0" | "0 \<le> i" "0 \<le> j" | "i < 0" "0 \<le> j" | "0 \<le> i" "j < 0" by linarith
  then show ?thesis
  proof cases
    case 1
    with e have "nat (- i) = nat (- j)" by (auto simp: format_int_def dest: format_nat_inj)
    with 1 show ?thesis by simp
  next
    case 2
    with e have "nat i = nat j" by (auto simp: format_int_def dest: format_nat_inj)
    with 2 show ?thesis by simp
  next
    case 3
    with e hd [of "nat j"] show ?thesis by (auto simp: format_int_def dest: sym)
  next
    case 4
    with e hd [of "nat i"] show ?thesis by (auto simp: format_int_def)
  qed
qed

lemma format_int_not_Nil [simp]: "format_int i \<noteq> []"
  by (simp add: format_int_def)

lemma format_int_no_slash [simp]: "CHR ''/'' \<notin> set (format_int i)"
  by (auto simp: format_int_def dest: format_nat_digits)

section \<open>Lemmas: trimming\<close>

lemma trim_front_id: "(\<forall>w \<in> set ws. w \<noteq> [] \<longrightarrow> \<not> has_prefix s w) \<Longrightarrow> trim_front ws s = s"
  by (subst trim_front.simps) (auto split: option.splits simp: find_Some_iff)

lemma trim_front_step:
  "w \<in> set ws \<Longrightarrow> w \<noteq> [] \<Longrightarrow> (\<forall>v \<in> set ws. v \<noteq> [] \<longrightarrow> has_prefix (w @ s) v \<longrightarrow> v = w) \<Longrightarrow>
   trim_front ws (w @ s) = trim_front ws s"
proof (subst trim_front.simps)
  assume w: "w \<in> set ws" "w \<noteq> []"
    and u: "\<forall>v \<in> set ws. v \<noteq> [] \<longrightarrow> has_prefix (w @ s) v \<longrightarrow> v = w"
  have "find (\<lambda>v. v \<noteq> [] \<and> has_prefix (w @ s) v) ws \<noteq> None"
    using w by (simp add: find_None_iff) (blast intro: has_prefix_append)
  then obtain v where f: "find (\<lambda>v. v \<noteq> [] \<and> has_prefix (w @ s) v) ws = Some v" by blast
  then have "v \<in> set ws" "v \<noteq> []" "has_prefix (w @ s) v"
    by (auto simp: find_Some_iff)
  with u have "v = w" by blast
  with f show "(case find (\<lambda>v. v \<noteq> [] \<and> has_prefix (w @ s) v) ws of None \<Rightarrow> w @ s
      | Some v \<Rightarrow> trim_front ws (drop (length v) (w @ s))) = trim_front ws s" by simp
qed

lemma trim_front_suffix: "\<exists>r. s = r @ trim_front ws s"
proof (induction ws s rule: trim_front.induct)
  case (1 ws s)
  show ?case
  proof (cases "find (\<lambda>w. w \<noteq> [] \<and> has_prefix s w) ws")
    case None
    then show ?thesis by (subst trim_front.simps) simp
  next
    case (Some w)
    with 1 obtain r where "drop (length w) s = r @ trim_front ws (drop (length w) s)" by blast
    then have "s = (take (length w) s @ r) @ trim_front ws (drop (length w) s)"
      by (metis append_assoc append_take_drop_id)
    with Some show ?thesis by (subst trim_front.simps) (auto intro: exI [of _ "take (length w) s @ r"])
  qed
qed

text \<open>A byte that can neither start nor end an encoded space: an ASCII byte that is no ASCII space.\<close>

definition plain_char :: "char \<Rightarrow> bool" where
  "plain_char c \<longleftrightarrow> (let n = of_char c :: nat in 32 < n \<and> n < 128)"

lemma space_seqs_ends:
  "w \<in> set space_seqs \<Longrightarrow> \<not> plain_char (hd w) \<and> \<not> plain_char (last w)"
  by (auto simp: space_seqs_def plain_char_def Let_def)

lemma trim_left_plain: "s = [] \<or> plain_char (hd s) \<Longrightarrow> trim_left_space s = s"
  unfolding trim_left_space_def
proof (rule trim_front_id, intro ballI impI notI)
  fix w assume s: "s = [] \<or> plain_char (hd s)" and w: "w \<in> set space_seqs" "w \<noteq> []" "has_prefix s w"
  then obtain r where "s = w @ r" by (auto simp: has_prefix_iff)
  with w s space_seqs_ends [OF w(1)] show False by auto
qed

lemma trim_right_plain: "s = [] \<or> plain_char (last s) \<Longrightarrow> trim_right_space s = s"
proof -
  assume s: "s = [] \<or> plain_char (last s)"
  have "trim_front (map rev space_seqs) (rev s) = rev s"
  proof (rule trim_front_id, intro ballI impI notI)
    fix w assume w: "w \<in> set (map rev space_seqs)" "w \<noteq> []" "has_prefix (rev s) w"
    then obtain v where v: "v \<in> set space_seqs" "w = rev v" by auto
    from w obtain r where "rev s = w @ r" by (auto simp: has_prefix_iff)
    then have "s = rev r @ v" using v by (metis rev_append rev_rev_ident)
    with s w v space_seqs_ends [OF v(1)] show False by auto
  qed
  then show ?thesis by (simp add: trim_right_space_def)
qed

lemma trim_space_plain:
  "s = [] \<or> (plain_char (hd s) \<and> plain_char (last s)) \<Longrightarrow> trim_space s = s"
  by (metis trim_left_plain trim_right_plain trim_space_def)

lemma trim_right_space_prefix: "\<exists>r. s = trim_right_space s @ r"
proof -
  obtain r where "rev s = r @ trim_front (map rev space_seqs) (rev s)"
    using trim_front_suffix by blast
  then have "s = rev (trim_front (map rev space_seqs) (rev s)) @ rev r"
    by (metis rev_append rev_rev_ident)
  then show ?thesis unfolding trim_right_space_def by blast
qed

lemma trim_space_set: "set (trim_space s) \<subseteq> set s"
proof -
  have "set (trim_left_space s) \<subseteq> set s"
    unfolding trim_left_space_def by (metis Un_upper2 set_append trim_front_suffix)
  moreover have "set (trim_space s) \<subseteq> set (trim_left_space s)"
    unfolding trim_space_def by (metis Un_upper1 set_append trim_right_space_prefix)
  ultimately show ?thesis by blast
qed

section \<open>Runs of calls\<close>

text \<open>A component that is driven by calls: \<^const>\<open>None\<close> is a call that has not returned. The locale
  is the contract of one call, an invariant and how a state may develop; a whole run then keeps it.\<close>

fun run_calls :: "('c \<Rightarrow> 's \<Rightarrow> 's option) \<Rightarrow> 'c list \<Rightarrow> 's \<Rightarrow> 's option" where
  "run_calls exec [] s = Some s"
| "run_calls exec (c # cs) s = (case exec c s of None \<Rightarrow> None | Some t \<Rightarrow> run_calls exec cs t)"

lemma run_calls_append:
  "run_calls exec (xs @ ys) s = (case run_calls exec xs s of None \<Rightarrow> None | Some t \<Rightarrow> run_calls exec ys t)"
  by (induction xs arbitrary: s) (simp_all split: option.split)

locale call_contract =
  fixes exec :: "'c \<Rightarrow> 's \<Rightarrow> 's option" and inv :: "'s \<Rightarrow> bool" and dev :: "'s \<Rightarrow> 's \<Rightarrow> bool"
  assumes dev_refl: "dev s s"
    and dev_trans: "dev s t \<Longrightarrow> dev t u \<Longrightarrow> dev s u"
    and call_keeps: "inv s \<Longrightarrow> exec c s = Some t \<Longrightarrow> inv t \<and> dev s t"
begin

lemma run_keeps: "inv s \<Longrightarrow> run_calls exec cs s = Some t \<Longrightarrow> inv t \<and> dev s t"
proof (induction cs arbitrary: s)
  case (Cons c cs)
  then obtain u where u: "exec c s = Some u" "run_calls exec cs u = Some t" by (auto split: option.splits)
  from call_keeps [OF Cons.prems(1) u(1)] Cons.IH [of u] u(2) show ?case using dev_trans by blast
qed (simp add: dev_refl)

end

text \<open>Services whose calls always return: so does every sequence of them.\<close>

locale total_contract = call_contract +
  assumes call_returns: "inv s \<Longrightarrow> \<exists>t. exec c s = Some t"
begin

lemma run_returns: "inv s \<Longrightarrow> \<exists>t. run_calls exec cs s = Some t"
proof (induction cs arbitrary: s)
  case (Cons c cs)
  then obtain u where "exec c s = Some u" using call_returns by blast
  then show ?case using call_keeps [OF Cons.prems] Cons.IH by simp
qed simp

end

end
