(* ===== verification/Database.thy ===== *)
theory Database
  imports Go_Base "HOL-Library.Char_ord" "HOL-Library.List_Lexorder" "HOL-Library.Product_Lexorder"
begin

text \<open>
  The relational store, src/internal/db/models.go and the schema of
  src/internal/db/migrations: one record per row type with the columns the program reads and
  writes, and one record for the whole database. A nullable column is an option. A table is the
  list of its rows in rowid order, which is the order in which SQLite scans it; an AUTOINCREMENT
  key is drawn from a per-table counter that never goes back.

  The DSN of src/internal/db/db.go turns foreign keys on and the write pool has one connection,
  so every statement is atomic and the constraints of the schema are checked by it: UNIQUE, CHECK
  and REFERENCES failures are the values of \<open>sql_err\<close>, as is the failure of \<^verbatim>\<open>Scan\<close> on a NULL
  column read into a Go string. Failures of the engine itself (disk, cancelled context) are not
  modelled.
\<close>

section \<open>Rows\<close>

record channel =
  c_id :: int
  c_slug :: string
  c_name :: string
  c_auth_mode :: string
  c_description :: string
  c_created_at :: int

record view =
  v_id :: int
  v_slug :: string
  v_name :: string
  v_channel_id :: int
  v_mode :: string
  v_writable :: bool
  v_sort_order :: int
  v_created_at :: int

record node =
  n_id :: int
  n_view_id :: int
  n_parent_id :: "int option"
  n_name :: string
  n_node_type :: string
  n_file_id :: "int option"
  n_rule_config :: "string option"
  n_sort_order :: int
  n_status :: string
  n_created_at :: int

record project =
  p_id :: int
  p_name :: string
  p_display_name :: string
  p_source_type :: string
  p_source_url :: string
  p_config :: string
  p_latest_version :: string
  p_last_crawled_at :: "int option"
  p_created_at :: int
  p_enabled :: bool
  p_storage_subdir :: string

record file_row =
  f_id :: int
  f_project_id :: int
  f_version :: string
  f_filename :: string
  f_os :: string
  f_arch :: string
  f_ext :: string
  f_size_bytes :: int
  f_download_url :: string
  f_local_path :: string
  f_checksum :: string
  f_status :: string
  f_error_message :: string
  f_created_at :: int
  f_retry_count :: int
  f_last_attempt_at :: "int option"
  f_source_type :: "string option"
  f_category :: "string option"
  f_storage_subdir :: "string option"
  f_public_token :: "string option"

record audit_entry =
  a_id :: int
  a_admin_user :: string
  a_action :: string
  a_entity_type :: string
  a_entity_id :: int
  a_entity_name :: string
  a_diff_json :: string
  a_created_at :: int

record share_link =
  sl_token :: string
  sl_file_id :: int
  sl_expires_at :: "int option"
  sl_max_downloads :: int
  sl_download_count :: int
  sl_note :: string
  sl_created_at :: int

record path_row =
  pr_view_id :: int
  pr_node_id :: int
  pr_full_path :: string

section \<open>The database\<close>

record database =
  t_channels :: "channel list"
  t_views :: "view list"
  t_nodes :: "node list"
  t_projects :: "project list"
  t_files :: "file_row list"
  t_paths :: "path_row list"
  t_rule_entries :: "(int \<times> int) list"
  t_checkpoints :: "(int \<times> string) list"
  t_share_links :: "share_link list"
  t_audit :: "audit_entry list"
  seq_channels :: int
  seq_views :: int
  seq_nodes :: int
  seq_projects :: int
  seq_files :: int
  seq_audit :: int
  sql_now :: int

definition empty_db :: "int \<Rightarrow> database" where
  "empty_db now = \<lparr>t_channels = [], t_views = [], t_nodes = [], t_projects = [], t_files = [], t_paths = [],
     t_rule_entries = [], t_checkpoints = [], t_share_links = [], t_audit = [],
     seq_channels = 0, seq_views = 0, seq_nodes = 0, seq_projects = 0, seq_files = 0, seq_audit = 0,
     sql_now = now\<rparr>"

datatype sql_err = UniqueViolation string | CheckViolation string | ForeignKey string | NullScan string

text \<open>\<^verbatim>\<open>SELECT ... WHERE key = ?\<close>: the first row with the key, and \<^verbatim>\<open>UPDATE ... WHERE key = ?\<close>.\<close>

definition row_by :: "('a \<Rightarrow> 'k) \<Rightarrow> 'a list \<Rightarrow> 'k \<Rightarrow> 'a option" where
  "row_by key rows k = List.find (\<lambda>r. key r = k) rows"

definition has_row :: "('a \<Rightarrow> 'k) \<Rightarrow> 'a list \<Rightarrow> 'k \<Rightarrow> bool" where
  "has_row key rows k \<longleftrightarrow> k \<in> set (map key rows)"

definition upd_row :: "('a \<Rightarrow> 'k) \<Rightarrow> 'k \<Rightarrow> ('a \<Rightarrow> 'a) \<Rightarrow> 'a list \<Rightarrow> 'a list" where
  "upd_row key k f rows = map (\<lambda>r. if key r = k then f r else r) rows"

text \<open>A nullable reference is satisfied when it is NULL or the row exists.\<close>

definition ref_ok :: "('a \<Rightarrow> 'k) \<Rightarrow> 'a list \<Rightarrow> 'k option \<Rightarrow> bool" where
  "ref_ok key rows r \<longleftrightarrow> (case r of None \<Rightarrow> True | Some k \<Rightarrow> has_row key rows k)"

section \<open>Facts on tables\<close>

lemma row_by_Nil [simp]: "row_by key [] k = None"
  by (simp add: row_by_def)

lemma row_by_Cons [simp]: "row_by key (r # rs) k = (if key r = k then Some r else row_by key rs k)"
  by (simp add: row_by_def)

lemma row_by_append [simp]:
  "row_by key (xs @ ys) k = (case row_by key xs k of None \<Rightarrow> row_by key ys k | Some r \<Rightarrow> Some r)"
  by (induction xs) auto

lemma row_by_SomeD: "row_by key rows k = Some r \<Longrightarrow> r \<in> set rows \<and> key r = k"
  by (induction rows) (auto split: if_splits)

lemma row_by_None_iff: "row_by key rows k = None \<longleftrightarrow> k \<notin> key ` set rows"
  by (induction rows) auto

lemma row_by_eq_Some_iff:
  "distinct (map key rows) \<Longrightarrow> row_by key rows k = Some r \<longleftrightarrow> r \<in> set rows \<and> key r = k"
  by (induction rows) force+

lemma has_row_iff [simp]: "has_row key rows k \<longleftrightarrow> k \<in> key ` set rows"
  by (simp add: has_row_def)

lemma has_row_row_by: "has_row key rows k \<longleftrightarrow> row_by key rows k \<noteq> None"
  by (simp add: row_by_None_iff)

lemma ref_ok_simps [simp]:
  "ref_ok key rows None" "ref_ok key rows (Some k) = has_row key rows k"
  by (simp_all add: ref_ok_def)

lemma map_key_upd_row [simp]:
  "(\<And>r. key' (f r) = key' r) \<Longrightarrow> map key' (upd_row key k f rows) = map key' rows"
  by (induction rows) (auto simp: upd_row_def)

lemma set_upd_row:
  "x \<in> set (upd_row key k f rows) \<longleftrightarrow>
     (\<exists>r \<in> set rows. x = (if key r = k then f r else r))"
  by (simp only: upd_row_def set_map image_iff)

lemma upd_row_Nil [simp]: "upd_row key k f [] = []"
  by (simp add: upd_row_def)

lemma upd_row_Cons [simp]:
  "upd_row key k f (r # rs) = (if key r = k then f r else r) # upd_row key k f rs"
  by (simp add: upd_row_def)

lemma upd_row_append [simp]: "upd_row key k f (xs @ ys) = upd_row key k f xs @ upd_row key k f ys"
  by (simp add: upd_row_def)

lemma row_by_upd_row:
  "(\<And>r. key (f r) = key r) \<Longrightarrow>
   row_by key (upd_row key k f rows) l = map_option (\<lambda>r. if key r = k then f r else r) (row_by key rows l)"
  by (induction rows) auto

lemma upd_row_absent: "k \<notin> key ` set rows \<Longrightarrow> upd_row key k f rows = rows"
  by (induction rows) auto

lemma image_upd_row [simp]:
  "(\<And>r. key' (f r) = key' r) \<Longrightarrow> key' ` set (upd_row key k f rows) = key' ` set rows"
  by (metis list.set_map map_key_upd_row)

lemma length_upd_row [simp]: "length (upd_row key k f rows) = length rows"
  by (simp add: upd_row_def)

lemma distinct_upd_unique:
  assumes "distinct (map s rows)" "distinct (map key rows)" "\<And>r. s (f r) = x"
    and "\<forall>r \<in> set rows. key r \<noteq> k \<longrightarrow> s r \<noteq> x"
  shows "distinct (map s (upd_row key k f rows))"
  using assms
proof (induction rows)
  case (Cons r rows)
  show ?case
  proof (cases "key r = k")
    case True
    then have "upd_row key k f rows = rows" using Cons.prems by (intro upd_row_absent) auto
    moreover have "x \<notin> s ` set rows" using Cons.prems(2,4) True by (force simp: image_iff)
    ultimately show ?thesis using Cons.prems True by auto
  next
    case False
    then have "s r \<notin> s ` set (upd_row key k f rows)" using Cons.prems by (auto simp: set_upd_row split: if_splits)
    then show ?thesis using Cons False by auto
  qed
qed simp

text \<open>A fresh key stays fresh: rows are keyed below the counter.\<close>

definition keyed :: "('a \<Rightarrow> int) \<Rightarrow> 'a list \<Rightarrow> int \<Rightarrow> bool" where
  "keyed key rows sq \<longleftrightarrow> distinct (map key rows) \<and> (\<forall>i \<in> key ` set rows. 0 < i \<and> i \<le> sq)"

lemma keyed_append: "keyed key rows sq \<Longrightarrow> 0 \<le> sq \<Longrightarrow> key r = sq + 1 \<Longrightarrow> keyed key (rows @ [r]) (sq + 1)"
  by (force simp: keyed_def)

lemma keyed_upd_row [simp]: "(\<And>r. key (f r) = key r) \<Longrightarrow> keyed key (upd_row k' i f rows) sq = keyed key rows sq"
  by (simp only: keyed_def map_key_upd_row image_upd_row)

lemma keyed_filter: "keyed key rows sq \<Longrightarrow> keyed key (filter P rows) sq"
  by (auto simp: keyed_def distinct_map_filter)

lemma keyed_fresh: "keyed key rows sq \<Longrightarrow> row_by key rows (sq + 1) = None"
  by (force simp: keyed_def row_by_None_iff)

lemma find_SomeD: "List.find P xs = Some x \<Longrightarrow> x \<in> set xs \<and> P x"
  by (induction xs) (auto split: if_splits)

definition first_of :: "'a list \<Rightarrow> 'a option" where
  "first_of xs = (case xs of [] \<Rightarrow> None | x # _ \<Rightarrow> Some x)"

lemma find_first_of: "List.find P xs = first_of (filter P xs)"
  by (induction xs) (auto simp: first_of_def)

end
