(* ===== verification/Token.thy ===== *)
theory Token
  imports Database
begin

text \<open>
  Public tokens, src/internal/service/token.go: the base58 encoding, the random draw and the
  generation of a token that is not in use. Bytes are natural numbers below 256. The bytes that
  \<^verbatim>\<open>crypto/rand\<close> delivers are an input, the list of the 16-byte draws still to come; a loop
  that has used up the list without returning has the result \<^const>\<open>None\<close>.

  \<open>base58Encode\<close> follows the code: a buffer of fixed size, filled by one pass per input byte from
  its right end. \<open>base58_bound\<close> shows that the size of the buffer always suffices, so the carry
  that leaves the buffer at its left end is zero and nothing is lost.
\<close>

section \<open>Encoding\<close>

definition base58Alphabet :: string where
  "base58Alphabet = ''123456789ABCDEFGHJKLMNPQRSTUVWXYZabcdefghijkmnopqrstuvwxyz''"

definition publicTokenLength :: nat where
  "publicTokenLength = 22"

definition maxTokenRetries :: nat where
  "maxTokenRetries = 5"

text \<open>One pass over the buffer, from its last position to its first; the rest is the last carry.\<close>

fun b58_pass :: "nat list \<Rightarrow> nat \<Rightarrow> nat list \<times> nat" where
  "b58_pass [] carry = ([], carry)"
| "b58_pass (x # xs) carry =
     (let (ys, c) = b58_pass xs carry; t = c + x * 256 in ((t mod 58) # ys, t div 58))"

definition base58Encode :: "nat list \<Rightarrow> string" where
  "base58Encode input =
     (let zeros = length (takeWhile (\<lambda>b. b = 0) input);
          n = (length input - zeros) * 138 div 100 + 1;
          buffer = fold (\<lambda>b buf. fst (b58_pass buf b)) (drop zeros input) (replicate n 0)
      in replicate zeros (base58Alphabet ! 0) @ map (\<lambda>x. base58Alphabet ! x) (dropWhile (\<lambda>x. x = 0) buffer))"

section \<open>Generation\<close>

fun randomToken :: "nat list list \<Rightarrow> (string \<times> nat list list) option" where
  "randomToken [] = None"
| "randomToken (buf # draws) =
     (let encoded = base58Encode buf in
      if publicTokenLength \<le> length encoded then Some (take publicTokenLength encoded, draws)
      else randomToken draws)"

definition TokenExists :: "database \<Rightarrow> string \<Rightarrow> bool" where
  "TokenExists d token \<longleftrightarrow> (\<exists>f \<in> set (t_files d). f_public_token f = Some token)"

datatype token_err = NoUniqueToken

fun token_attempts :: "nat \<Rightarrow> (string \<Rightarrow> bool) \<Rightarrow> nat list list \<Rightarrow> ((token_err + string) \<times> nat list list) option" where
  "token_attempts 0 exists draws = Some (Inl NoUniqueToken, draws)"
| "token_attempts (Suc k) exists draws =
     (case randomToken draws of
        None \<Rightarrow> None
      | Some (token, rest) \<Rightarrow> if exists token then token_attempts k exists rest else Some (Inr token, rest))"

definition GeneratePublicToken :: "(string \<Rightarrow> bool) \<Rightarrow> nat list list \<Rightarrow> ((token_err + string) \<times> nat list list) option" where
  "GeneratePublicToken exists draws = token_attempts maxTokenRetries exists draws"

section \<open>Positional numbers\<close>

definition pos_val :: "nat \<Rightarrow> nat list \<Rightarrow> nat" where
  "pos_val b xs = foldl (\<lambda>a x. a * b + x) 0 xs"

lemma foldl_pos: "foldl (\<lambda>a x. a * b + x) a xs = a * b ^ length xs + pos_val b xs"
proof (induction xs arbitrary: a)
  case (Cons x xs)
  have "pos_val b (x # xs) = x * b ^ length xs + pos_val b xs" using Cons.IH [of x] by (simp add: pos_val_def)
  moreover have "foldl (\<lambda>a x. a * b + x) (a * b + x) xs = (a * b + x) * b ^ length xs + pos_val b xs" by (rule Cons.IH)
  ultimately show ?case by (simp add: add_mult_distrib mult.assoc)
qed (simp add: pos_val_def)

lemma pos_val_Cons: "pos_val b (x # xs) = x * b ^ length xs + pos_val b xs"
  using foldl_pos [of b x xs] by (simp add: pos_val_def)

lemma pos_val_Nil [simp]: "pos_val b [] = 0"
  by (simp add: pos_val_def)

lemma pos_val_snoc: "pos_val b (xs @ [x]) = pos_val b xs * b + x"
  by (simp add: pos_val_def)

lemma pos_val_bound: "\<forall>x \<in> set xs. x < b \<Longrightarrow> pos_val b xs < b ^ length xs"
proof (induction xs)
  case (Cons x xs)
  then have "x * b ^ length xs + pos_val b xs < x * b ^ length xs + b ^ length xs" by simp
  also have "\<dots> = Suc x * b ^ length xs" by simp
  also have "\<dots> \<le> b * b ^ length xs" using Cons.prems by (intro mult_right_mono) auto
  finally show ?case by (simp add: pos_val_Cons)
qed simp

lemma pos_val_zeros: "pos_val b (replicate n 0 @ xs) = pos_val b xs"
  by (induction n) (simp_all add: pos_val_Cons)

lemma pos_val_dropWhile: "pos_val b (dropWhile (\<lambda>x. x = 0) xs) = pos_val b xs"
  by (induction xs) (simp_all add: pos_val_Cons)

text \<open>A number without leading zeros has one representation.\<close>

lemma pos_val_low: "xs \<noteq> [] \<Longrightarrow> hd xs \<noteq> 0 \<Longrightarrow> b ^ (length xs - 1) \<le> pos_val b xs"
  by (cases xs) (simp_all add: pos_val_Cons trans_le_add1)

lemma pos_val_inj:
  "length xs = length ys \<Longrightarrow> \<forall>x \<in> set xs \<union> set ys. x < b \<Longrightarrow> pos_val b xs = pos_val b ys \<Longrightarrow> xs = ys"
proof (induction xs ys rule: list_induct2)
  case (Cons x xs y ys)
  have bound: "pos_val b xs < b ^ length xs" "pos_val b ys < b ^ length xs"
    using pos_val_bound [of xs b] pos_val_bound [of ys b] Cons by auto
  have "x * b ^ length xs + pos_val b xs = y * b ^ length xs + pos_val b ys"
    using Cons.prems Cons.hyps by (simp add: pos_val_Cons)
  then have "(x * b ^ length xs + pos_val b xs) div b ^ length xs = (y * b ^ length xs + pos_val b ys) div b ^ length xs"
    "(x * b ^ length xs + pos_val b xs) mod b ^ length xs = (y * b ^ length xs + pos_val b ys) mod b ^ length xs" by simp_all
  moreover have "0 < b ^ length xs" using bound(1) by (rule le_less_trans [OF le0])
  ultimately have "x = y" "pos_val b xs = pos_val b ys" using bound by simp_all
  then show ?case using Cons by auto
qed simp

lemma canonical_inj:
  assumes "\<forall>x \<in> set xs \<union> set ys. x < b" "1 < b" "xs = [] \<or> hd xs \<noteq> 0" "ys = [] \<or> hd ys \<noteq> 0" "pos_val b xs = pos_val b ys"
  shows "xs = ys"
proof -
  have lt: "length us \<le> length ws"
    if "us = [] \<or> hd us \<noteq> 0" "\<forall>x \<in> set ws. x < b" "pos_val b us = pos_val b ws" for us ws
  proof (cases us)
    case (Cons u us')
    then have "b ^ (length us - 1) < b ^ length ws"
      using pos_val_low [of us b] pos_val_bound [of ws b] that by auto
    then have "length us - 1 < length ws" using assms(2) power_less_imp_less_exp by blast
    then show ?thesis by simp
  qed simp
  have "length xs = length ys" using lt [of xs ys] lt [of ys xs] assms by auto
  then show ?thesis using assms pos_val_inj by blast
qed

section \<open>The buffer\<close>

lemma b58_pass_val:
  "pos_val 58 (fst (b58_pass xs c)) + snd (b58_pass xs c) * 58 ^ length xs = pos_val 58 xs * 256 + c \<and>
   length (fst (b58_pass xs c)) = length xs"
proof (induction xs)
  case (Cons x xs)
  obtain ys d where p: "b58_pass xs c = (ys, d)" by fastforce
  have IH: "pos_val 58 ys + d * 58 ^ length xs = pos_val 58 xs * 256 + c" "length ys = length xs" using Cons p by simp_all
  let ?t = "d + x * 256"
  have "?t mod 58 * B + p + ?t div 58 * (58 * B) = ?t * B + p" for B p
  proof -
    have "?t * B = (?t mod 58 + ?t div 58 * 58) * B" by simp
    also have "\<dots> = ?t mod 58 * B + ?t div 58 * (58 * B)" by (simp only: add_mult_distrib mult.assoc)
    finally show ?thesis by simp
  qed
  then have "?t mod 58 * 58 ^ length xs + pos_val 58 ys + ?t div 58 * (58 * 58 ^ length xs) = ?t * 58 ^ length xs + pos_val 58 ys" .
  also have "\<dots> = x * 256 * 58 ^ length xs + (pos_val 58 xs * 256 + c)" using IH(1) by (simp add: algebra_simps)
  finally show ?case using IH(2) by (simp add: p pos_val_Cons Let_def algebra_simps)
qed simp

lemma b58_pass_digits: "\<forall>y \<in> set (fst (b58_pass xs c)). y < 58"
  by (induction xs) (auto simp: Let_def split: prod.splits)

text \<open>The carry stays below 256, so the arithmetic of the loop stays far below any machine width.\<close>

lemma b58_pass_carry: "c < 256 \<Longrightarrow> \<forall>x \<in> set xs. x < 58 \<Longrightarrow> snd (b58_pass xs c) < 256"
  by (induction xs) (auto simp: Let_def split: prod.splits)

lemma base58_bound: "256 ^ n \<le> (58 :: nat) ^ (n * 138 div 100 + 1)"
proof -
  let ?k = "n * 138 div 100"
  have step: "(256 :: nat) ^ 100 \<le> 58 ^ 138" by simp
  have up: "m \<le> (m div 100 + 1) * 100" for m :: nat
    using div_mult_mod_eq [of m 100] mod_less_divisor [of 100 m] by simp
  have "(256 ^ n) ^ 100 = ((256 :: nat) ^ 100) ^ n" by (simp only: power_mult [symmetric] mult.commute)
  also have "\<dots> \<le> (58 ^ 138) ^ n" using step by (rule power_mono) simp
  also have "\<dots> = 58 ^ (n * 138)" by (simp only: power_mult [symmetric] mult.commute)
  also have "\<dots> \<le> 58 ^ ((?k + 1) * 100)" by (rule power_increasing [OF up]) simp
  also have "\<dots> = (58 ^ (?k + 1)) ^ 100" by (simp only: power_mult)
  finally show ?thesis by (rule power_le_imp_le_base [of _ 99, simplified]) simp
qed

lemma b58_fold_val:
  assumes "pos_val 58 buf * 256 ^ length input + pos_val 256 input < 58 ^ length buf" "\<forall>x \<in> set buf. x < 58"
  shows "pos_val 58 (fold (\<lambda>b buf. fst (b58_pass buf b)) input buf) = pos_val 58 buf * 256 ^ length input + pos_val 256 input \<and>
    (\<forall>x \<in> set (fold (\<lambda>b buf. fst (b58_pass buf b)) input buf). x < 58)"
  using assms
proof (induction input arbitrary: buf)
  case (Cons b input)
  let ?buf = "fst (b58_pass buf b)" and ?v = "pos_val 58 buf * 256 + b"
  have total: "?v * 256 ^ length input + pos_val 256 input = pos_val 58 buf * 256 ^ length (b # input) + pos_val 256 (b # input)"
    by (simp add: pos_val_Cons algebra_simps)
  have "?v * 1 \<le> ?v * 256 ^ length input" by (rule mult_le_mono2) simp
  then have "?v \<le> ?v * 256 ^ length input + pos_val 256 input" by (simp only: mult_1_right trans_le_add1)
  also have "\<dots> < 58 ^ length buf" using Cons.prems(1) by (simp only: total)
  finally have "?v < 58 ^ length buf" .
  then have "pos_val 58 ?buf + snd (b58_pass buf b) * 58 ^ length buf < 58 ^ length buf"
    using b58_pass_val [of buf b] by simp
  moreover have "p + c * B < B \<Longrightarrow> c = 0" for p c B :: nat by (cases c) auto
  ultimately have "snd (b58_pass buf b) = 0" by blast
  then have v: "pos_val 58 ?buf = ?v" "length ?buf = length buf" using b58_pass_val [of buf b] by simp_all
  then show ?case using Cons.IH [of ?buf] Cons.prems(1) total b58_pass_digits [of buf b] by simp
qed simp

lemma alphabet_facts: "length base58Alphabet = 58" "distinct base58Alphabet"
  by code_simp+

lemma alphabet_inj: "i < 58 \<Longrightarrow> j < 58 \<Longrightarrow> base58Alphabet ! i = base58Alphabet ! j \<longleftrightarrow> i = j"
  using alphabet_facts by (simp add: nth_eq_iff_index_eq)

lemma hd_dropWhile_nonzero: "dropWhile (\<lambda>x. x = (0 :: nat)) xs = [] \<or> hd (dropWhile (\<lambda>x. x = 0) xs) \<noteq> 0"
  by (induction xs) auto

text \<open>What the encoder computes: a character per leading zero byte, then the canonical base 58 digits.\<close>

lemma base58Encode_digits:
  assumes "\<forall>x \<in> set input. x < 256"
  obtains ds where "base58Encode input = replicate (length (takeWhile (\<lambda>b. b = 0) input)) (base58Alphabet ! 0) @ map (\<lambda>x. base58Alphabet ! x) ds"
    "\<forall>x \<in> set ds. x < 58" "ds = [] \<or> hd ds \<noteq> 0" "pos_val 58 ds = pos_val 256 input"
proof -
  let ?z = "length (takeWhile (\<lambda>b. b = 0) input)"
  let ?rest = "drop ?z input"
  let ?n = "(length input - ?z) * 138 div 100 + 1"
  let ?buf = "fold (\<lambda>b buf. fst (b58_pass buf b)) ?rest (replicate ?n 0)"
  have rest: "?rest = dropWhile (\<lambda>b. b = 0) input" by (simp add: dropWhile_eq_drop)
  have "pos_val 256 ?rest < 256 ^ length ?rest" using assms by (intro pos_val_bound) (auto dest: in_set_dropD)
  also have "\<dots> \<le> 58 ^ ?n" using base58_bound [of "length ?rest"] by simp
  finally have small: "pos_val 256 ?rest < 58 ^ ?n" .
  have z: "pos_val 58 (replicate ?n 0) = 0" using pos_val_zeros [of 58 ?n "[]"] by simp
  have v: "pos_val 58 ?buf = pos_val 256 ?rest" "\<forall>x \<in> set ?buf. x < 58"
    using b58_fold_val [of "replicate ?n 0" ?rest] small z by (simp_all del: replicate_Suc add: set_replicate_conv_if)
  show ?thesis
  proof (rule that [of "dropWhile (\<lambda>x. x = 0) ?buf"])
    show "pos_val 58 (dropWhile (\<lambda>x. x = 0) ?buf) = pos_val 256 input"
      using v(1) by (simp only: pos_val_dropWhile rest)
    show "\<forall>x \<in> set (dropWhile (\<lambda>x. x = 0) ?buf). x < 58" using v(2) by (meson set_dropWhileD)
    show "dropWhile (\<lambda>x. x = 0) ?buf = [] \<or> hd (dropWhile (\<lambda>x. x = 0) ?buf) \<noteq> 0" by (rule hd_dropWhile_nonzero)
  qed (simp only: base58Encode_def Let_def)
qed

lemma encode_split:
  assumes "\<forall>x \<in> set ds. x < 58" "ds = [] \<or> hd ds \<noteq> 0"
  shows "takeWhile (\<lambda>c. c = base58Alphabet ! 0) (replicate z (base58Alphabet ! 0) @ map (\<lambda>x. base58Alphabet ! x) ds) =
    replicate z (base58Alphabet ! 0)"
proof (cases ds)
  case (Cons d ds')
  then have "base58Alphabet ! d \<noteq> base58Alphabet ! 0" using assms alphabet_inj [of d 0] by auto
  then show ?thesis using Cons by (induction z) simp_all
next
  case Nil
  then show ?thesis by (induction z) simp_all
qed

lemma base58Encode_eqD:
  assumes "\<forall>x \<in> set xs. x < 256" "\<forall>x \<in> set ys. x < 256" "base58Encode xs = base58Encode ys"
  shows "xs = ys"
proof -
  let ?z = "\<lambda>xs. length (takeWhile (\<lambda>b. b = (0 :: nat)) xs)"
  obtain ds where ds: "base58Encode xs = replicate (?z xs) (base58Alphabet ! 0) @ map (\<lambda>x. base58Alphabet ! x) ds"
    "\<forall>x \<in> set ds. x < 58" "ds = [] \<or> hd ds \<noteq> 0" "pos_val 58 ds = pos_val 256 xs" using base58Encode_digits [OF assms(1)] .
  obtain es where es: "base58Encode ys = replicate (?z ys) (base58Alphabet ! 0) @ map (\<lambda>x. base58Alphabet ! x) es"
    "\<forall>x \<in> set es. x < 58" "es = [] \<or> hd es \<noteq> 0" "pos_val 58 es = pos_val 256 ys" using base58Encode_digits [OF assms(2)] .
  have "replicate (?z xs) (base58Alphabet ! 0) = replicate (?z ys) (base58Alphabet ! 0)"
    using encode_split [OF ds(2,3), of "?z xs"] encode_split [OF es(2,3), of "?z ys"] assms(3) ds(1) es(1) by simp
  then have z: "?z xs = ?z ys" by (simp add: replicate_eq_replicate)
  then have "map (\<lambda>x. base58Alphabet ! x) ds = map (\<lambda>x. base58Alphabet ! x) es" using assms(3) ds(1) es(1) by simp
  then have "ds = es" using ds(2) es(2) by (intro map_inj_on [of _ ds es]) (auto simp: inj_on_def alphabet_inj)
  then have "pos_val 256 (dropWhile (\<lambda>b. b = 0) xs) = pos_val 256 (dropWhile (\<lambda>b. b = 0) ys)"
    using ds(4) es(4) by (simp add: pos_val_dropWhile)
  then have "dropWhile (\<lambda>b. b = 0) xs = dropWhile (\<lambda>b. b = 0) ys"
    using assms(1,2) hd_dropWhile_nonzero by (intro canonical_inj [of _ _ 256]) (auto dest: set_dropWhileD)
  moreover have "takeWhile (\<lambda>b. b = 0) us = replicate (?z us) 0" for us :: "nat list"
    by (induction us) auto
  ultimately show ?thesis using z by (metis takeWhile_dropWhile_id)
qed

text \<open>Sixteen bytes never need more than 22 characters.\<close>

lemma base58Encode_16:
  assumes "\<forall>x \<in> set xs. x < 256" "length xs = 16"
  shows "length (base58Encode xs) \<le> 22"
proof -
  let ?z = "length (takeWhile (\<lambda>b. b = 0) xs)"
  obtain ds where ds: "base58Encode xs = replicate ?z (base58Alphabet ! 0) @ map (\<lambda>x. base58Alphabet ! x) ds"
    "\<forall>x \<in> set ds. x < 58" "ds = [] \<or> hd ds \<noteq> 0" "pos_val 58 ds = pos_val 256 xs" using base58Encode_digits [OF assms(1)] .
  have z: "?z \<le> 16" using assms(2) length_takeWhile_le [of "\<lambda>b. b = 0" xs] by simp
  have "pos_val 256 xs = pos_val 256 (dropWhile (\<lambda>b. b = 0) xs)" by (simp add: pos_val_dropWhile)
  also have "\<dots> < 256 ^ length (dropWhile (\<lambda>b. b = 0) xs)" using assms(1) by (intro pos_val_bound) (auto dest: set_dropWhileD)
  also have "length (dropWhile (\<lambda>b. b = 0) xs) = 16 - ?z" using assms(2) by (simp add: dropWhile_eq_drop)
  finally have up: "pos_val 256 xs < 256 ^ (16 - ?z)" .
  have tab: "(256 :: nat) ^ (16 - z) \<le> 58 ^ (22 - z)" if "z \<le> 16" for z
  proof -
    have "(256 :: nat) ^ (16 - z) * 58 ^ z \<le> 256 ^ (16 - z) * 256 ^ z" by (simp add: power_mono)
    also have "\<dots> = 256 ^ 16" using that by (simp only: power_add [symmetric]) simp
    also have "\<dots> \<le> (58 :: nat) ^ 22" by simp
    also have "\<dots> = 58 ^ (22 - z) * 58 ^ z" using that by (simp only: power_add [symmetric]) simp
    finally show ?thesis by simp
  qed
  show ?thesis
  proof (cases ds)
    case (Cons d ds')
    have "58 ^ (length ds - 1) \<le> pos_val 58 ds" using Cons ds(3) by (intro pos_val_low) auto
    also have "\<dots> < 256 ^ (16 - ?z)" using up by (simp only: ds(4))
    also have "\<dots> \<le> 58 ^ (22 - ?z)" by (rule tab [OF z])
    finally have "58 ^ (length ds - 1) < (58 :: nat) ^ (22 - ?z)" .
    then have "length ds - 1 < 22 - ?z" by (rule power_less_imp_less_exp [rotated]) simp
    then show ?thesis using z by (simp add: ds(1))
  qed (use z ds(1) in simp)
qed

section \<open>Properties\<close>

text \<open>
  C8: The base58 encoder. For every byte string the encoding is one character per leading zero
  byte followed by the base 58 digits, without leading zeros, of the number the bytes stand for;
  the fixed buffer never overflows; and two byte strings have the same encoding only if they are
  equal.
\<close>
theorem base58Encode_correct:
  assumes "\<forall>x \<in> set xs. x < 256"
  shows "(\<exists>ds. base58Encode xs = replicate (length (takeWhile (\<lambda>b. b = 0) xs)) CHR ''1'' @ map (\<lambda>x. base58Alphabet ! x) ds \<and>
      (\<forall>x \<in> set ds. x < 58) \<and> (ds = [] \<or> hd ds \<noteq> 0) \<and> pos_val 58 ds = pos_val 256 xs) \<and>
    (\<forall>ys. (\<forall>y \<in> set ys. y < 256) \<longrightarrow> base58Encode xs = base58Encode ys \<longrightarrow> xs = ys)"
proof -
  have one: "base58Alphabet ! 0 = CHR ''1''" by (simp add: base58Alphabet_def)
  obtain ds where "base58Encode xs = replicate (length (takeWhile (\<lambda>b. b = 0) xs)) (base58Alphabet ! 0) @ map (\<lambda>x. base58Alphabet ! x) ds"
    "\<forall>x \<in> set ds. x < 58" "ds = [] \<or> hd ds \<noteq> 0" "pos_val 58 ds = pos_val 256 xs" using base58Encode_digits [OF assms] .
  then show ?thesis using base58Encode_eqD [OF assms] unfolding one by blast
qed

theorem base58Encode_correct_witness:
  "list_all (\<lambda>x. x < 256) [0, 1, 255 :: nat] \<and> base58Encode [0, 1, 255] = ''19p'' \<and>
   (\<exists>ds. ''19p'' = replicate 1 CHR ''1'' @ map (\<lambda>x. base58Alphabet ! x) ds \<and> pos_val 58 ds = 511)"
proof -
  have e: "base58Encode [0, 1, 255] = ''19p''" by code_simp
  have b: "\<forall>x \<in> set [0, 1, 255 :: nat]. x < 256" "pos_val 256 [0, 1, 255] = 511" by (simp_all add: pos_val_def)
  from base58Encode_correct [OF b(1)] obtain ds where "base58Encode [0, 1, 255] = replicate 1 CHR ''1'' @ map (\<lambda>x. base58Alphabet ! x) ds"
    "pos_val 58 ds = 511" unfolding b(2) by auto
  then show ?thesis unfolding e by auto
qed

lemma randomToken_SomeD:
  "randomToken draws = Some (t, rest) \<Longrightarrow>
   \<exists>pre buf. draws = pre @ buf # rest \<and> (\<forall>b \<in> set pre. length (base58Encode b) < 22) \<and>
     22 \<le> length (base58Encode buf) \<and> t = take 22 (base58Encode buf)"
proof (induction draws)
  case (Cons buf draws)
  show ?case
  proof (cases "22 \<le> length (base58Encode buf)")
    case True
    then show ?thesis using Cons.prems by (intro exI [of _ "[]"] exI [of _ buf]) (auto simp: publicTokenLength_def)
  next
    case False
    then obtain pre b where "draws = pre @ b # rest" "\<forall>b \<in> set pre. length (base58Encode b) < 22"
      "22 \<le> length (base58Encode b)" "t = take 22 (base58Encode b)" using Cons by (auto simp: publicTokenLength_def)
    then show ?thesis using False by (intro exI [of _ "buf # pre"] exI [of _ b]) auto
  qed
qed simp

definition byte_draws :: "nat list list \<Rightarrow> bool" where
  "byte_draws draws \<longleftrightarrow> (\<forall>b \<in> set draws. length b = 16 \<and> (\<forall>x \<in> set b. x < 256))"

lemma token_attempts_spec:
  "token_attempts k ex draws = Some (r, rest) \<Longrightarrow>
   (\<exists>pre. draws = pre @ rest) \<and> (\<forall>t. r = Inr t \<longrightarrow> \<not> ex t \<and> (\<exists>buf \<in> set draws. 22 \<le> length (base58Encode buf) \<and> t = take 22 (base58Encode buf)))"
proof (induction k arbitrary: draws)
  case (Suc k)
  then obtain t rest' where t: "randomToken draws = Some (t, rest')" by (auto split: option.splits)
  from randomToken_SomeD [OF t] obtain pre buf where p: "draws = pre @ buf # rest'" "22 \<le> length (base58Encode buf)"
    "t = take 22 (base58Encode buf)" by blast
  show ?case
  proof (cases "ex t")
    case True
    then have "token_attempts k ex rest' = Some (r, rest)" using Suc.prems t by simp
    from Suc.IH [OF this] obtain pre' where q: "rest' = pre' @ rest"
      "\<forall>t. r = Inr t \<longrightarrow> \<not> ex t \<and> (\<exists>buf \<in> set rest'. 22 \<le> length (base58Encode buf) \<and> t = take 22 (base58Encode buf))" by blast
    have "draws = (pre @ buf # pre') @ rest" using p(1) q(1) by simp
    then show ?thesis using q(2) p(1) by (intro conjI exI) auto
  next
    case False
    then show ?thesis using Suc.prems t p by auto
  qed
qed auto

text \<open>
  Token generation. A token that GeneratePublicToken returns has exactly 22 characters, all
  from the alphabet, is the whole encoding of one of the 16-byte draws, so distinct draws give
  distinct tokens, and is not in use according to the check.
\<close>
theorem GeneratePublicToken_correct:
  assumes "byte_draws draws" "GeneratePublicToken ex draws = Some (Inr t, rest)"
  shows "length t = 22 \<and> set t \<subseteq> set base58Alphabet \<and> \<not> ex t \<and> (\<exists>buf \<in> set draws. t = base58Encode buf)"
proof -
  from token_attempts_spec [OF assms(2) [unfolded GeneratePublicToken_def]]
  obtain buf where buf: "\<not> ex t" "buf \<in> set draws" "22 \<le> length (base58Encode buf)" "t = take 22 (base58Encode buf)" by blast
  have b: "length buf = 16" "\<forall>x \<in> set buf. x < 256" using assms(1) buf(2) by (auto simp: byte_draws_def)
  then have t: "t = base58Encode buf" "length t = 22" using base58Encode_16 [OF b(2,1)] buf by simp_all
  obtain ds where "base58Encode buf = replicate (length (takeWhile (\<lambda>b. b = 0) buf)) (base58Alphabet ! 0) @ map (\<lambda>x. base58Alphabet ! x) ds"
    "\<forall>x \<in> set ds. x < 58" using base58Encode_digits [OF b(2)] .
  then have "set (base58Encode buf) \<subseteq> set base58Alphabet" using alphabet_facts(1) by (auto simp: set_replicate_conv_if)
  then show ?thesis using t buf by blast
qed

lemma rep22: "replicate 22 (0 :: nat) = [0, 0, 0, 0, 0, 0, 0, 0, 0, 0, 0, 0, 0, 0, 0, 0, 0, 0, 0, 0, 0, 0]"
  by (simp add: numeral_eq_Suc)

lemma enc_ones: "length (base58Encode [255, 255, 255, 255, 255, 255, 255, 255, 255, 255, 255, 255, 255, 255, 255, 255]) = 22"
  by (simp add: base58Encode_def Let_def rep22)

lemma enc_short: "length (base58Encode [1, 0, 0, 0, 0, 0, 0, 0, 0, 0, 0, 0, 0, 0, 0, 0]) = 21"
  by (simp add: base58Encode_def Let_def rep22)

definition long_draw :: "nat list" where
  "long_draw = [255, 255, 255, 255, 255, 255, 255, 255, 255, 255, 255, 255, 255, 255, 255, 255]"

definition short_draw :: "nat list" where
  "short_draw = [1, 0, 0, 0, 0, 0, 0, 0, 0, 0, 0, 0, 0, 0, 0, 0]"

lemma draw_lengths: "length (base58Encode long_draw) = 22" "length (base58Encode short_draw) = 21"
  by (simp_all only: long_draw_def short_draw_def enc_ones enc_short)

theorem GeneratePublicToken_correct_witness:
  "byte_draws [short_draw, long_draw] \<and>
   (\<exists>t. GeneratePublicToken (\<lambda>_. False) [short_draw, long_draw] = Some (Inr t, []) \<and> length t = 22 \<and> set t \<subseteq> set base58Alphabet)"
proof -
  have b: "byte_draws [short_draw, long_draw]" by (simp add: byte_draws_def long_draw_def short_draw_def)
  have t: "GeneratePublicToken (\<lambda>_. False) [short_draw, long_draw] = Some (Inr (take 22 (base58Encode long_draw)), [])"
  proof -
    have m: "maxTokenRetries = Suc 4" by (simp add: maxTokenRetries_def)
    have r: "randomToken [short_draw, long_draw] = Some (take 22 (base58Encode long_draw), [])"
      by (simp add: publicTokenLength_def draw_lengths Let_def)
    show ?thesis unfolding GeneratePublicToken_def m token_attempts.simps(2) r by simp
  qed
  from GeneratePublicToken_correct [OF b t] t b show ?thesis by blast
qed

end
