(* ===== verification/Go_Path.thy ===== *)
theory Go_Path
  imports Go_Base
begin

text \<open>
  What the program uses of Go's \<^verbatim>\<open>path\<close> and \<^verbatim>\<open>path/filepath\<close> packages on Unix, where the
  two agree: \<open>path_clean\<close>, \<open>path_join\<close>, \<open>path_base\<close>, \<open>path_dir\<close> and \<open>path_rel\<close>
  (\<^verbatim>\<open>filepath.Rel\<close>). A path is cleaned element by element over a stack, which is the
  lexical algorithm of \<^verbatim>\<open>path.Clean\<close>: empty and \<^verbatim>\<open>.\<close> elements vanish, \<^verbatim>\<open>..\<close> pops the
  element before it, is kept at the front of a relative path and is dropped at the root.

  The lemmas give the normal form of cleaned paths, that cleaning is idempotent, how it
  distributes over a join, and the containment predicate \<open>path_within\<close> that the path
  guards of the program are judged by.
\<close>

abbreviation slash :: char where
  "slash \<equiv> CHR ''/''"

abbreviation dotdot :: string where
  "dotdot \<equiv> ''..''"

definition rooted :: "string \<Rightarrow> bool" where
  "rooted p \<longleftrightarrow> has_prefix p ''/''"

fun clean_stack :: "bool \<Rightarrow> string list \<Rightarrow> string list \<Rightarrow> string list" where
  "clean_stack r st [] = rev st"
| "clean_stack r st (e # es) =
     (if e = [] \<or> e = ''.'' then clean_stack r st es
      else if e = dotdot then
        (case st of
           t # ts \<Rightarrow> if t \<noteq> dotdot then clean_stack r ts es else clean_stack r (dotdot # st) es
         | [] \<Rightarrow> if r then clean_stack r [] es else clean_stack r [dotdot] es)
      else clean_stack r (e # st) es)"

definition clean_list :: "string \<Rightarrow> string list" where
  "clean_list p = clean_stack (rooted p) [] (split_char slash p)"

definition render_path :: "bool \<Rightarrow> string list \<Rightarrow> string" where
  "render_path r es =
     (if r then slash # join_char slash es else if es = [] then ''.'' else join_char slash es)"

definition path_clean :: "string \<Rightarrow> string" where
  "path_clean p = render_path (rooted p) (clean_list p)"

definition path_join :: "string list \<Rightarrow> string" where
  "path_join ps =
     (let qs = filter (\<lambda>p. p \<noteq> []) ps in if qs = [] then [] else path_clean (join_char slash qs))"

definition after_last_slash :: "string \<Rightarrow> string" where
  "after_last_slash p =
     (case last_index_char slash p of Some i \<Rightarrow> drop (Suc i) p | None \<Rightarrow> p)"

definition upto_last_slash :: "string \<Rightarrow> string" where
  "upto_last_slash p =
     (case last_index_char slash p of Some i \<Rightarrow> take (Suc i) p | None \<Rightarrow> [])"

definition path_base :: "string \<Rightarrow> string" where
  "path_base p =
     (if p = [] then ''.''
      else (let b = after_last_slash (trim_right_char slash p) in if b = [] then ''/'' else b))"

definition path_dir :: "string \<Rightarrow> string" where
  "path_dir p = path_clean (upto_last_slash p)"

fun strip_common :: "string list \<Rightarrow> string list \<Rightarrow> string list \<times> string list" where
  "strip_common (x # xs) (y # ys) = (if x = y then strip_common xs ys else (x # xs, y # ys))"
| "strip_common xs ys = (xs, ys)"

definition path_rel :: "string \<Rightarrow> string \<Rightarrow> string option" where
  "path_rel base targ =
     (let b = path_clean base; t = path_clean targ in
      if t = b then Some ''.''
      else if rooted b \<noteq> rooted t then None
      else
        (let (bs, ts) = strip_common (clean_list b) (if t = ''.'' then [''.''] else clean_list t) in
         if bs \<noteq> [] \<and> ts \<noteq> [] \<and> hd bs = dotdot then None
         else Some (join_char slash (replicate (length bs) dotdot @ ts))))"

text \<open>
  \<open>path_within base p\<close>: the cleaned \<open>p\<close> is the cleaned \<open>base\<close> or lies below it, without
  stepping up anywhere after it.
\<close>

definition path_within :: "string \<Rightarrow> string \<Rightarrow> bool" where
  "path_within base p \<longleftrightarrow>
     rooted p = rooted base \<and>
     (let b = clean_list base; c = clean_list p in
      take (length b) c = b \<and> dotdot \<notin> set (drop (length b) c))"

section \<open>The normal form\<close>

definition clean_form :: "bool \<Rightarrow> string list \<Rightarrow> bool" where
  "clean_form r es \<longleftrightarrow>
     (\<forall>e \<in> set es. e \<noteq> [] \<and> e \<noteq> ''.'' \<and> slash \<notin> set e) \<and>
     dotdot \<notin> set (dropWhile (\<lambda>e. e = dotdot) es) \<and>
     (r \<longrightarrow> dotdot \<notin> set es)"

lemma clean_form_Nil [simp]: "clean_form r []"
  by (simp add: clean_form_def)

lemma dropWhile_all [simp]: "(\<forall>x \<in> set es. P x) \<Longrightarrow> dropWhile P es = []"
  by (simp add: dropWhile_eq_Nil_conv)

lemma dropWhile_snoc_dd:
  "dropWhile P (es @ [e]) =
     (if \<forall>x \<in> set es. P x then (if P e then [] else [e]) else dropWhile P es @ [e])"
  by (induction es) auto

lemma clean_form_snoc_real:
  assumes "clean_form r es" "e \<noteq> []" "e \<noteq> ''.''" "e \<noteq> dotdot" "slash \<notin> set e"
  shows "clean_form r (es @ [e])"
  using assms unfolding clean_form_def by (auto simp: dropWhile_snoc_dd)

lemma clean_form_snoc_dd:
  assumes "clean_form False es" "es = [] \<or> last es = dotdot"
  shows "clean_form False (es @ [dotdot])"
proof -
  have "\<forall>x \<in> set es. x = dotdot"
  proof (rule ccontr)
    assume "\<not> (\<forall>x \<in> set es. x = dotdot)"
    then have ne: "dropWhile (\<lambda>e. e = dotdot) es \<noteq> []" by (simp add: dropWhile_eq_Nil_conv)
    then have "last (dropWhile (\<lambda>e. e = dotdot) es) = last es"
      by (metis append_Nil2 last_appendR takeWhile_dropWhile_id)
    with ne assms have "dotdot \<in> set (dropWhile (\<lambda>e. e = dotdot) es)"
      by (metis dropWhile.simps(1) last_in_set)
    with assms show False by (simp add: clean_form_def)
  qed
  with assms show ?thesis unfolding clean_form_def by (auto simp: dropWhile_snoc_dd)
qed

lemma clean_form_butlast: "clean_form r (es @ [e]) \<Longrightarrow> clean_form r es"
  unfolding clean_form_def by (auto simp: dropWhile_snoc_dd dropWhile_eq_Nil_conv split: if_splits)

lemma clean_form_rooted_last: "clean_form r (es @ [dotdot]) \<Longrightarrow> \<not> r"
  by (auto simp: clean_form_def)

lemma clean_stack_form:
  assumes "clean_form r (rev st)" "\<forall>e \<in> set es. slash \<notin> set e"
  shows "clean_form r (clean_stack r st es)"
  using assms
proof (induction r st es rule: clean_stack.induct)
  case (2 r st e es)
  show ?case
  proof (cases "e = [] \<or> e = ''.''")
    case True
    with 2 show ?thesis by simp
  next
    case False
    show ?thesis
    proof (cases "e = dotdot")
      case real: False
      with False 2 have "clean_form r (rev (e # st))" by (auto intro: clean_form_snoc_real)
      with False real 2 show ?thesis by auto
    next
      case dd: True
      show ?thesis
      proof (cases st)
        case Nil
        have "clean_form False [dotdot]" by (simp add: clean_form_def)
        with Nil dd 2 show ?thesis by (cases r) auto
      next
        case (Cons t ts)
        with 2 have pre: "clean_form r (rev ts @ [t])" by simp
        show ?thesis
        proof (cases "t = dotdot")
          case True
          with pre have "\<not> r" by (auto dest: clean_form_rooted_last)
          with pre True have "clean_form r ((rev ts @ [t]) @ [dotdot])"
            by (cases r) (auto intro!: clean_form_snoc_dd simp del: append_assoc)
          with Cons True dd 2 show ?thesis by simp
        next
          case False
          with Cons dd 2 clean_form_butlast [OF pre] show ?thesis by auto
        qed
      qed
    qed
  qed
qed simp

lemma clean_list_form: "clean_form (rooted p) (clean_list p)"
  unfolding clean_list_def
  by (rule clean_stack_form) (auto dest: split_char_no_sep_elem)

text \<open>A list in normal form is left alone by the stack.\<close>

lemma clean_stack_real:
  "(\<forall>e \<in> set es. e \<noteq> [] \<and> e \<noteq> ''.'' \<and> e \<noteq> dotdot) \<Longrightarrow> clean_stack r st es = rev st @ es"
  by (induction r st es rule: clean_stack.induct) auto

lemma clean_stack_replicate_dd:
  "clean_stack False (replicate m dotdot) (replicate n dotdot @ es) =
   clean_stack False (replicate (n + m) dotdot) es"
proof (induction n arbitrary: m)
  case (Suc n)
  have "clean_stack False (replicate m dotdot) (replicate (Suc n) dotdot @ es) =
      clean_stack False (replicate (Suc m) dotdot) (replicate n dotdot @ es)"
    by (cases m) auto
  with Suc [of "Suc m"] show ?case by simp
qed simp

lemma clean_stack_form_id:
  assumes "clean_form r es" shows "clean_stack r [] es = es"
proof (cases r)
  case True
  with assms show ?thesis by (subst clean_stack_real) (auto simp: clean_form_def)
next
  case False
  let ?ds = "takeWhile (\<lambda>e. e = dotdot) es" and ?rs = "dropWhile (\<lambda>e. e = dotdot) es"
  have ds: "?ds = replicate (length ?ds) dotdot"
    by (rule replicate_eqI) (auto dest: set_takeWhileD)
  have "clean_stack r [] es = clean_stack False (replicate 0 dotdot) (?ds @ ?rs)" using False by simp
  also have "\<dots> = clean_stack False (replicate (length ?ds) dotdot) ?rs"
    using clean_stack_replicate_dd [of 0 "length ?ds" ?rs] ds by simp
  also have "\<dots> = rev (replicate (length ?ds) dotdot) @ ?rs"
  proof (rule clean_stack_real)
    show "\<forall>e \<in> set ?rs. e \<noteq> [] \<and> e \<noteq> ''.'' \<and> e \<noteq> dotdot"
      using assms by (auto simp: clean_form_def dest: set_dropWhileD)
  qed
  also have "rev (replicate (length ?ds) dotdot) = ?ds" using ds by (metis rev_replicate)
  finally show ?thesis by simp
qed

section \<open>Cleaning a rendered path\<close>

lemma rooted_Cons [simp]: "rooted (c # s) \<longleftrightarrow> c = slash"
  by (simp add: rooted_def)

lemma rooted_Nil [simp]: "\<not> rooted []"
  by (simp add: rooted_def)

lemma rooted_append: "a \<noteq> [] \<Longrightarrow> rooted (a @ b) = rooted a"
  by (cases a) auto

lemma clean_form_join_not_rooted: "clean_form r es \<Longrightarrow> \<not> rooted (join_char slash es)"
proof (cases es)
  case (Cons e es')
  assume "clean_form r es"
  with Cons have e: "e \<noteq> []" "slash \<notin> set e" by (auto simp: clean_form_def)
  then have "\<not> rooted e" by (cases e) auto
  with e Cons show ?thesis by (cases es') (auto simp: rooted_append)
qed simp

lemma clean_list_render: "clean_form r es \<Longrightarrow> clean_list (render_path r es) = es"
proof -
  assume f: "clean_form r es"
  have sp: "es \<noteq> [] \<Longrightarrow> split_char slash (join_char slash es) = es"
    using f by (intro split_join_char) (auto simp: clean_form_def)
  show ?thesis
  proof (cases r)
    case True
    then show ?thesis
      using f sp clean_stack_form_id [OF f]
      by (cases "es = []") (auto simp: clean_list_def render_path_def)
  next
    case False
    then show ?thesis
      using f sp clean_stack_form_id [OF f] clean_form_join_not_rooted [OF f]
      by (cases "es = []") (auto simp: clean_list_def render_path_def)
  qed
qed

lemma rooted_render [simp]: "clean_form r es \<Longrightarrow> rooted (render_path r es) = r"
  using clean_form_join_not_rooted by (auto simp: render_path_def)

lemma clean_list_path_clean [simp]: "clean_list (path_clean p) = clean_list p"
  by (simp add: path_clean_def clean_list_render clean_list_form)

lemma rooted_path_clean [simp]: "rooted (path_clean p) = rooted p"
  by (simp add: path_clean_def clean_list_form)

lemma path_clean_idem [simp]: "path_clean (path_clean p) = path_clean p"
  by (simp add: path_clean_def clean_list_render clean_list_form)

lemma path_clean_eq_iff: "path_clean p = path_clean q \<longleftrightarrow> rooted p = rooted q \<and> clean_list p = clean_list q"
proof
  assume "path_clean p = path_clean q"
  then have "rooted (path_clean p) = rooted (path_clean q)"
    "clean_list (path_clean p) = clean_list (path_clean q)" by simp_all
  then show "rooted p = rooted q \<and> clean_list p = clean_list q" by simp
qed (simp add: path_clean_def)

section \<open>Containment\<close>

lemma path_within_refl [simp]: "path_within p p"
  by (simp add: path_within_def)

lemma path_within_clean [simp]:
  "path_within (path_clean b) p = path_within b p" "path_within b (path_clean p) = path_within b p"
  by (simp_all add: path_within_def)

section \<open>Joining\<close>

lemma clean_stack_append:
  "clean_stack r st (xs @ ys) = clean_stack r (rev (clean_stack r st xs)) ys"
proof (induction xs arbitrary: st)
  case (Cons x xs)
  then show ?case by (cases st; cases r) simp_all
qed simp

lemma clean_stack_keeps_dd:
  "dotdot \<in> set st \<Longrightarrow> dotdot \<in> set (clean_stack False st es)"
proof (induction es arbitrary: st)
  case (Cons e es)
  then show ?case by (cases st) auto
qed simp

lemma clean_stack_above:
  "dotdot \<notin> set (clean_stack False t es) \<Longrightarrow> dotdot \<notin> set t \<Longrightarrow>
   clean_stack r (t @ st) es = rev st @ clean_stack False t es"
proof (induction es arbitrary: t)
  case (Cons e es)
  show ?case
  proof (cases "e = dotdot")
    case True
    show ?thesis
    proof (cases t)
      case Nil
      with True Cons.prems show ?thesis
        using clean_stack_keeps_dd [of "[dotdot]" es] by simp
    next
      case (Cons a as)
      then show ?thesis using True Cons.prems Cons.IH [of as] by auto
    qed
  next
    case False
    then show ?thesis using Cons.prems Cons.IH [of "e # t"] Cons.IH [of t] by auto
  qed
qed simp

lemma split_char_append_slash: "split_char c (a @ c # b) = split_char c a @ split_char c b"
proof (induction a)
  case (Cons d a)
  then show ?case by (cases "split_char c a") auto
qed simp

lemma clean_list_append_slash:
  "a \<noteq> [] \<Longrightarrow> clean_list (a @ slash # b) =
     clean_stack (rooted a) (rev (clean_list a)) (split_char slash b)"
  by (simp add: clean_list_def split_char_append_slash clean_stack_append rooted_append)

text \<open>Joining a path that does not step up stays below the base.\<close>

lemma path_join2_within_gen:
  assumes "a \<noteq> [] \<or> \<not> rooted b" "dotdot \<notin> set (clean_stack False [] (split_char slash b))"
  shows "path_within a (path_join [a, b])"
proof -
  let ?es = "clean_stack False [] (split_char slash b)"
  have "clean_list (a @ slash # b) = clean_list a @ ?es" if "a \<noteq> []"
    using clean_stack_above [of "[]" "split_char slash b" "rooted a" "rev (clean_list a)"] assms that
    by (simp add: clean_list_append_slash)
  then have A: "path_within a (a @ slash # b)" if "a \<noteq> []"
    using assms that by (simp add: path_within_def rooted_append)
  have B: "path_within [] b" if "a = []"
    using assms that by (simp add: path_within_def clean_list_def)
  show ?thesis
    using A B by (cases "a = []"; cases "b = []") (simp_all add: path_join_def)
qed

lemma path_join2_elems:
  assumes "\<not> rooted b" "dotdot \<notin> set (clean_list b)"
  shows "clean_list (path_join [a, b]) = clean_list a @ clean_list b"
proof -
  have "clean_list (a @ slash # b) = clean_list a @ clean_list b" if "a \<noteq> []"
    using clean_stack_above [of "[]" "split_char slash b" "rooted a" "rev (clean_list a)"] assms that
    by (simp add: clean_list_append_slash) (simp add: clean_list_def)
  moreover have "clean_list [] = []" by (simp add: clean_list_def)
  ultimately show ?thesis by (cases "a = []"; cases "b = []") (simp_all add: path_join_def)
qed

lemma path_join2_within:
  "\<not> rooted b \<Longrightarrow> dotdot \<notin> set (clean_list b) \<Longrightarrow> path_within a (path_join [a, b])"
  by (rule path_join2_within_gen) (simp_all add: clean_list_def)

lemma path_within_trans:
  assumes "path_within a b" "path_within b c" shows "path_within a c"
proof -
  let ?a = "clean_list a" and ?b = "clean_list b" and ?c = "clean_list c"
  have b: "?b = ?a @ drop (length ?a) ?b" and c: "?c = ?b @ drop (length ?b) ?c"
    using assms unfolding path_within_def Let_def by (metis append_take_drop_id)+
  from b c have "?c = ?a @ (drop (length ?a) ?b @ drop (length ?b) ?c)" by (metis append_assoc)
  then have "take (length ?a) ?c = ?a"
    "drop (length ?a) ?c = drop (length ?a) ?b @ drop (length ?b) ?c"
    by (metis append_eq_conv_conj)+
  with assms show ?thesis by (auto simp: path_within_def Let_def)
qed

lemma clean_form_tail_dd:
  assumes "clean_form r (bs @ ts)" "dotdot \<in> set ts" shows "hd ts = dotdot"
proof (rule ccontr)
  assume h: "hd ts \<noteq> dotdot"
  from assms(2) have "ts \<noteq> []" by auto
  with h have "dropWhile (\<lambda>e. e = dotdot) (bs @ ts) = dropWhile (\<lambda>e. e = dotdot) bs @ ts"
    by (induction bs) (auto simp: dropWhile_eq_self_iff)
  with assms show False by (auto simp: clean_form_def)
qed

lemma strip_common_prefix:
  "strip_common xs ys = (bs, ts) \<Longrightarrow> \<exists>c. xs = c @ bs \<and> ys = c @ ts"
proof (induction xs ys arbitrary: bs ts rule: strip_common.induct)
  case (1 x xs y ys)
  show ?case
  proof (cases "x = y")
    case True
    with 1 obtain c where "xs = c @ bs" "ys = c @ ts" by auto
    with True show ?thesis by (intro exI [of _ "x # c"]) simp
  qed (use 1 in auto)
qed auto

section \<open>Paths given by their elements\<close>

definition seg_ok :: "string \<Rightarrow> bool" where
  "seg_ok e \<longleftrightarrow> e \<noteq> [] \<and> slash \<notin> set e \<and> e \<noteq> ''.'' \<and> e \<noteq> dotdot"

lemma join_char_append: "xs \<noteq> [] \<Longrightarrow> ys \<noteq> [] \<Longrightarrow> join_char c (xs @ ys) = join_char c xs @ c # join_char c ys"
proof (induction xs)
  case (Cons x xs)
  then show ?case by (cases xs) (simp_all add: join_char_Cons)
qed simp

lemma last_index_char_None: "c \<notin> set b \<Longrightarrow> last_index_char c b = None"
  by (induction b) auto

lemma last_index_char_append: "c \<notin> set b \<Longrightarrow> last_index_char c (a @ c # b) = Some (length a)"
proof (induction a)
  case Nil
  have "last_index_char c b = None" if "c \<notin> set b" for b using that by (induction b) auto
  then show ?case using Nil by simp
qed simp

lemma join_char_eq_Nil: "(\<forall>e \<in> set es. e \<noteq> []) \<Longrightarrow> join_char c es = [] \<longleftrightarrow> es = []"
  by (cases es; cases "tl es") auto

lemma clean_elems:
  assumes "e \<in> set (clean_list (slash # name))"
  shows "e \<noteq> []" "slash \<notin> set e" "e \<noteq> ''.''" "e \<noteq> dotdot"
  using clean_list_form [of "slash # name"] assms by (auto simp: clean_form_def)

lemma clean_form_segs: "list_all seg_ok segs \<Longrightarrow> clean_form r segs"
  by (auto simp: clean_form_def seg_ok_def list_all_iff dest: set_dropWhileD)

lemma clean_list_join:
  assumes "list_all seg_ok segs" shows "clean_list (join_char slash segs) = segs" "\<not> rooted (join_char slash segs)"
proof -
  note f = clean_form_segs [OF assms, of False]
  show "\<not> rooted (join_char slash segs)" by (rule clean_form_join_not_rooted [OF f])
  show "clean_list (join_char slash segs) = segs"
    using clean_list_render [OF f] by (cases "segs = []") (simp_all add: render_path_def clean_list_def)
qed

lemma path_clean_join:
  assumes "list_all seg_ok segs" "segs \<noteq> []" shows "path_clean (join_char slash segs) = join_char slash segs"
  using clean_list_join [OF assms(1)] assms(2) by (simp add: path_clean_def render_path_def)

lemma seg_ok_no_dotdot: "list_all seg_ok segs \<Longrightarrow> dotdot \<notin> set segs"
  by (auto simp: list_all_iff seg_ok_def)

lemma path_base_join:
  assumes "seg_ok e" shows "path_base (join_char slash (segs @ [e])) = e"
proof -
  have e: "e \<noteq> []" "slash \<notin> set e" using assms by (simp_all add: seg_ok_def)
  have j: "join_char slash (segs @ [e]) = (if segs = [] then e else join_char slash segs @ slash # e)" by (simp add: join_char_append)
  have "last (join_char slash (segs @ [e])) \<noteq> slash" unfolding j using e by (auto simp: last_append) (metis last_in_set)+
  then have "trim_right_char slash (join_char slash (segs @ [e])) = join_char slash (segs @ [e])"
    unfolding trim_right_char_def by (cases "rev (join_char slash (segs @ [e]))") (auto simp: last_rev)
  then show ?thesis using e by (simp add: path_base_def after_last_slash_def j last_index_char_append last_index_char_None)
qed

lemma path_dir_join:
  assumes "list_all seg_ok segs" "seg_ok e"
  shows "path_dir (join_char slash (segs @ [e])) = (if segs = [] then ''.'' else join_char slash segs)"
proof -
  have e: "e \<noteq> []" "slash \<notin> set e" using assms by (simp_all add: seg_ok_def)
  have j: "join_char slash (segs @ [e]) = (if segs = [] then e else join_char slash segs @ slash # e)" by (simp add: join_char_append)
  show ?thesis
  proof (cases "segs = []")
    case True
    then show ?thesis using e by (simp add: path_dir_def upto_last_slash_def last_index_char_None path_clean_def clean_list_def render_path_def)
  next
    case False
    then have ne: "join_char slash segs \<noteq> []" using assms by (subst join_char_eq_Nil) (auto simp: list_all_iff seg_ok_def)
    have "upto_last_slash (join_char slash (segs @ [e])) = join_char slash segs @ [slash]"
      using False e by (simp add: j upto_last_slash_def last_index_char_append)
    moreover have "path_clean (join_char slash segs @ [slash]) = path_clean (join_char slash segs)"
      unfolding path_clean_eq_iff using clean_list_append_slash [OF ne, of "[]"] ne by (simp add: rooted_append)
    ultimately show ?thesis using False path_clean_join [OF assms(1)] by (simp add: path_dir_def)
  qed
qed

end
