(* ===== verification/File_Repo.thy ===== *)
theory File_Repo
  imports Database Go_Path "HOL-Library.Multiset"
begin

text \<open>
  The repository of collected files, src/internal/db/repo_file.go, and of projects,
  src/internal/db/repo_project.go. Reading a row fails when the column source_type is NULL,
  because the code scans it into a Go string; a list method then fails as a whole.

  What the disk holds is a parameter of ResetZombieDownloads: \<open>stat p\<close> is the size of the file at
  path \<open>p\<close>, if it exists. The encoding of project settings as JSON and the extraction of a
  storage subdirectory from it are parameters as well.

  \<open>sort_key_desc\<close> is ORDER BY ... DESC as a stable sort; \<open>sql_like\<close> is LIKE on ASCII text.
\<close>

section \<open>SQL helpers\<close>

definition sort_key_desc :: "('a \<Rightarrow> 'k :: linorder) \<Rightarrow> 'a list \<Rightarrow> 'a list" where
  "sort_key_desc f xs = rev (sort_key f (rev xs))"

text \<open>LIMIT and OFFSET; a negative limit is no limit, a negative offset is 0.\<close>

definition sql_page :: "int \<Rightarrow> int \<Rightarrow> 'a list \<Rightarrow> 'a list" where
  "sql_page limit offset xs =
     (let ys = drop (nat offset) xs in if limit < 0 then ys else take (nat limit) ys)"

fun sql_like :: "string \<Rightarrow> string \<Rightarrow> bool" where
  "sql_like [] s = (s = [])"
| "sql_like (p # ps) [] = (p = CHR ''%'' \<and> sql_like ps [])"
| "sql_like (p # ps) (c # cs) =
     (if p = CHR ''%'' then sql_like ps (c # cs) \<or> sql_like (p # ps) cs
      else if p = CHR ''_'' then sql_like ps cs
      else lower_char p = lower_char c \<and> sql_like ps cs)"

text \<open>NULL sorts before every value.\<close>

definition null_first :: "int option \<Rightarrow> int \<times> int" where
  "null_first x = (case x of None \<Rightarrow> (0, 0) | Some t \<Rightarrow> (1, t))"

section \<open>Files\<close>

definition file_statuses :: "string list" where
  "file_statuses = [''pending'', ''downloading'', ''complete'', ''error'', ''imported'', ''failed_permanent'']"

definition scanFile :: "file_row \<Rightarrow> sql_err + file_row" where
  "scanFile f = (case f_source_type f of None \<Rightarrow> Inl (NullScan ''source_type'') | Some _ \<Rightarrow> Inr f)"

fun scan_files :: "file_row list \<Rightarrow> sql_err + file_row list" where
  "scan_files [] = Inr []"
| "scan_files (f # fs) = (case scanFile f of Inl e \<Rightarrow> Inl e
     | Inr g \<Rightarrow> (case scan_files fs of Inl e \<Rightarrow> Inl e | Inr gs \<Rightarrow> Inr (g # gs)))"

definition scan_opt :: "file_row option \<Rightarrow> sql_err + file_row option" where
  "scan_opt r = (case r of None \<Rightarrow> Inr None | Some f \<Rightarrow> (case scanFile f of Inl e \<Rightarrow> Inl e | Inr g \<Rightarrow> Inr (Some g)))"

definition file_Create :: "file_row \<Rightarrow> database \<Rightarrow> database \<times> (sql_err + int)" where
  "file_Create f d =
     (if f_status f \<notin> set file_statuses then (d, Inl (CheckViolation ''files.status''))
      else if \<not> has_row p_id (t_projects d) (f_project_id f) then (d, Inl (ForeignKey ''files.project_id''))
      else let i = seq_files d + 1 in
        (d\<lparr>t_files := t_files d @ [f\<lparr>f_id := i, f_error_message := [], f_created_at := sql_now d, f_retry_count := 0,
             f_last_attempt_at := None, f_category := None, f_storage_subdir := None, f_public_token := None\<rparr>],
           seq_files := i\<rparr>, Inr i))"

definition file_GetByID :: "int \<Rightarrow> database \<Rightarrow> sql_err + file_row option" where
  "file_GetByID i d = scan_opt (row_by f_id (t_files d) i)"

definition by_version_desc :: "file_row list \<Rightarrow> file_row list" where
  "by_version_desc fs = sort_key_desc f_version (sort_key f_filename fs)"

definition file_ListByProject :: "int \<Rightarrow> database \<Rightarrow> sql_err + file_row list" where
  "file_ListByProject p d = scan_files (by_version_desc (filter (\<lambda>f. f_project_id f = p) (t_files d)))"

definition file_ListComplete :: "int \<Rightarrow> database \<Rightarrow> sql_err + file_row list" where
  "file_ListComplete p d = scan_files (sort_key f_filename
     (filter (\<lambda>f. f_status f = ''complete'' \<and> (p > 0 \<longrightarrow> f_project_id f = p)) (t_files d)))"

definition file_ListByProjectPaginated :: "int \<Rightarrow> int \<Rightarrow> int \<Rightarrow> database \<Rightarrow> sql_err + (file_row list \<times> int)" where
  "file_ListByProjectPaginated p limit offset d =
     (let fs = filter (\<lambda>f. f_project_id f = p) (t_files d); total = int (length fs) in
      case scan_files (sql_page limit offset (by_version_desc fs)) of Inl e \<Rightarrow> Inl e | Inr gs \<Rightarrow> Inr (gs, total))"

definition file_FindExisting :: "int \<Rightarrow> string \<Rightarrow> database \<Rightarrow> sql_err + file_row option" where
  "file_FindExisting p filename d = scan_opt (List.find (\<lambda>f. f_project_id f = p \<and> f_filename f = filename) (t_files d))"

text \<open>UPDATE files SET ... WHERE id = ?, with the CHECK on the new status.\<close>

definition update_file :: "int \<Rightarrow> (file_row \<Rightarrow> file_row) \<Rightarrow> database \<Rightarrow> database \<times> (sql_err + unit)" where
  "update_file i g d =
     (if \<exists>f \<in> set (t_files d). f_id f = i \<and> f_status (g f) \<notin> set file_statuses then (d, Inl (CheckViolation ''files.status''))
      else (d\<lparr>t_files := upd_row f_id i g (t_files d)\<rparr>, Inr ()))"

definition file_UpdateStatus :: "int \<Rightarrow> string \<Rightarrow> string \<Rightarrow> database \<Rightarrow> database \<times> (sql_err + unit)" where
  "file_UpdateStatus i status errorMsg = update_file i (\<lambda>f. f\<lparr>f_status := status, f_error_message := errorMsg\<rparr>)"

definition file_CountByProject :: "int \<Rightarrow> database \<Rightarrow> int" where
  "file_CountByProject p d = int (length (filter (\<lambda>f. f_project_id f = p) (t_files d)))"

definition file_CountByProjects :: "database \<Rightarrow> (int \<times> int) list" where
  "file_CountByProjects d = map (\<lambda>p. (p, file_CountByProject p d)) (remdups (map f_project_id (t_files d)))"

definition file_SearchByFilename :: "string \<Rightarrow> database \<Rightarrow> sql_err + file_row list" where
  "file_SearchByFilename pattern d =
     scan_files (take 100 (sort_key f_filename (filter (\<lambda>f. sql_like pattern (f_filename f)) (t_files d))))"

definition file_CountAll :: "database \<Rightarrow> int" where
  "file_CountAll d = int (length (t_files d))"

definition file_ListQueue :: "database \<Rightarrow> sql_err + file_row list" where
  "file_ListQueue d = scan_files (take 50 (sort_key f_created_at
     (filter (\<lambda>f. f_status f = ''pending'' \<or> f_status f = ''downloading'') (t_files d))))"

text \<open>The loop of ResetZombieDownloads over the ids and paths read first; \<open>removed\<close> collects the
  temporary files it deletes.\<close>

fun reset_zombies :: "(string \<Rightarrow> int option) \<Rightarrow> (int \<times> string) list \<Rightarrow> database \<Rightarrow> database \<times> int \<times> string list" where
  "reset_zombies stat [] d = (d, 0, [])"
| "reset_zombies stat ((i, p) # zs) d =
     (let found = (case stat p of Some sz \<Rightarrow> sz > 0 | None \<Rightarrow> False);
          removed = (if found then [] else [path_join [path_dir p, ''.download-'' @ path_base p]]);
          (d1, r) = (if found
            then update_file i (\<lambda>f. f\<lparr>f_status := ''complete'', f_error_message := [], f_size_bytes := the (stat p)\<rparr>) d
            else update_file i (\<lambda>f. f\<lparr>f_status := ''pending'', f_error_message := [], f_retry_count := 0\<rparr>) d);
          (d2, n, rs) = reset_zombies stat zs d1
      in (d2, (if isl r then n else n + 1), removed @ rs))"

definition file_ResetZombieDownloads :: "(string \<Rightarrow> int option) \<Rightarrow> database \<Rightarrow> database \<times> int \<times> string list" where
  "file_ResetZombieDownloads stat d =
     reset_zombies stat (map (\<lambda>f. (f_id f, f_local_path f)) (filter (\<lambda>f. f_status f = ''downloading'') (t_files d))) d"

text \<open>\<^const>\<open>None\<close>: no row with this id, so reading the count back finds no rows.\<close>

definition file_IncrementRetryCount :: "int \<Rightarrow> string \<Rightarrow> database \<Rightarrow> database \<times> int option" where
  "file_IncrementRetryCount i lastError d =
     (let d1 = d\<lparr>t_files := upd_row f_id i (\<lambda>f. f\<lparr>f_retry_count := f_retry_count f + 1, f_status := ''error'',
            f_error_message := lastError, f_last_attempt_at := Some (sql_now d)\<rparr>) (t_files d)\<rparr>
      in (d1, map_option f_retry_count (row_by f_id (t_files d1) i)))"

definition file_MarkFailedPermanent :: "int \<Rightarrow> database \<Rightarrow> database \<times> (sql_err + unit)" where
  "file_MarkFailedPermanent i =
     update_file i (\<lambda>f. f\<lparr>f_status := ''failed_permanent'', f_error_message := ''exceeded max retry limit''\<rparr>)"

definition file_ResetRetry :: "int \<Rightarrow> database \<Rightarrow> database \<times> (sql_err + unit)" where
  "file_ResetRetry i = update_file i (\<lambda>f. f\<lparr>f_status := ''pending'', f_retry_count := 0, f_error_message := []\<rparr>)"

definition file_ListRetryable :: "int \<Rightarrow> database \<Rightarrow> sql_err + file_row list" where
  "file_ListRetryable maxRetries d =
     scan_files (take 20 (sort_key (\<lambda>f. ((if f_status f = ''pending'' then 0 else 1) :: int, null_first (f_last_attempt_at f)))
       (filter (\<lambda>f. (f_status f = ''pending'' \<or> f_status f = ''error'') \<and> f_retry_count f < maxRetries) (t_files d))))"

record queue_stats =
  qs_pending :: int
  qs_downloading :: int
  qs_complete :: int
  qs_error :: int
  qs_failed_permanent :: int

definition status_count :: "string \<Rightarrow> database \<Rightarrow> int" where
  "status_count st d = int (length (filter (\<lambda>f. f_status f = st) (t_files d)))"

definition file_GetQueueStats :: "database \<Rightarrow> queue_stats" where
  "file_GetQueueStats d = \<lparr>qs_pending = status_count ''pending'' d, qs_downloading = status_count ''downloading'' d,
     qs_complete = status_count ''complete'' d, qs_error = status_count ''error'' d,
     qs_failed_permanent = status_count ''failed_permanent'' d\<rparr>"

definition file_UpdateLocalPath :: "int \<Rightarrow> string \<Rightarrow> database \<Rightarrow> database" where
  "file_UpdateLocalPath i newPath d = d\<lparr>t_files := upd_row f_id i (\<lambda>f. f\<lparr>f_local_path := newPath\<rparr>) (t_files d)\<rparr>"

definition file_FindByLocalPath :: "string \<Rightarrow> database \<Rightarrow> sql_err + file_row option" where
  "file_FindByLocalPath p d = scan_opt (row_by f_local_path (t_files d) p)"

section \<open>The filtered listing\<close>

record file_filters =
  ff_ProjectID :: "int option"
  ff_ProjectName :: string
  ff_Version :: string
  ff_OS :: string
  ff_Arch :: string
  ff_Category :: string
  ff_SourceType :: string
  ff_Keyword :: string

text \<open>The conjunction of the WHERE clauses, each present only for a non-empty filter.\<close>

definition file_matches :: "database \<Rightarrow> file_filters \<Rightarrow> file_row \<Rightarrow> bool" where
  "file_matches d q f \<longleftrightarrow>
     (case ff_ProjectID q of
        Some p \<Rightarrow> f_project_id f = p
      | None \<Rightarrow> ff_ProjectName q \<noteq> [] \<longrightarrow>
          (\<exists>p \<in> set (t_projects d). p_id p = f_project_id f \<and> sql_like (''%'' @ ff_ProjectName q @ ''%'') (p_name p))) \<and>
     (ff_Version q \<noteq> [] \<longrightarrow> f_version f = ff_Version q) \<and>
     (ff_OS q \<noteq> [] \<longrightarrow> f_os f = ff_OS q) \<and>
     (ff_Arch q \<noteq> [] \<longrightarrow> f_arch f = ff_Arch q) \<and>
     (ff_Category q \<noteq> [] \<longrightarrow> f_category f = Some (ff_Category q)) \<and>
     (ff_SourceType q \<noteq> [] \<longrightarrow> f_source_type f = Some (ff_SourceType q)) \<and>
     (ff_Keyword q \<noteq> [] \<longrightarrow> sql_like (''%'' @ ff_Keyword q @ ''%'') (f_filename f) \<or> sql_like (''%'' @ ff_Keyword q @ ''%'') (f_version f))"

definition no_filters :: "file_filters \<Rightarrow> bool" where
  "no_filters q \<longleftrightarrow> ff_ProjectID q = None \<and> ff_ProjectName q = [] \<and> ff_Version q = [] \<and> ff_OS q = [] \<and> ff_Arch q = [] \<and>
     ff_Category q = [] \<and> ff_SourceType q = [] \<and> ff_Keyword q = []"

definition order_files :: "string \<Rightarrow> string \<Rightarrow> file_row list \<Rightarrow> file_row list" where
  "order_files sortField sortOrder fs =
     (let asc = (sortOrder = ''asc'') in
      if sortField = ''filename'' then (if asc then sort_key f_filename fs else sort_key_desc f_filename fs)
      else if sortField = ''version'' then (if asc then sort_key f_version fs else sort_key_desc f_version fs)
      else if sortField = ''size_bytes'' then (if asc then sort_key f_size_bytes fs else sort_key_desc f_size_bytes fs)
      else if sortField = ''status'' then (if asc then sort_key f_status fs else sort_key_desc f_status fs)
      else (if asc then sort_key f_created_at fs else sort_key_desc f_created_at fs))"

text \<open>The cached row count: its value and when it was read (\<^const>\<open>None\<close> is the zero time).\<close>

record count_cache =
  countCached :: int
  countCachedAt :: "int option"

definition cachedFileCount :: "int \<Rightarrow> database \<Rightarrow> count_cache \<Rightarrow> count_cache \<times> int" where
  "cachedFileCount now d c =
     (case countCachedAt c of
        Some t \<Rightarrow> if now - t < 30 then (c, countCached c)
                  else (\<lparr>countCached = file_CountAll d, countCachedAt = Some now\<rparr>, file_CountAll d)
      | None \<Rightarrow> (\<lparr>countCached = file_CountAll d, countCachedAt = Some now\<rparr>, file_CountAll d))"

text \<open>The listing reads nullable columns through COALESCE, so no row makes it fail.\<close>

definition ListFilesCrossProject ::
  "int \<Rightarrow> file_filters \<Rightarrow> string \<Rightarrow> string \<Rightarrow> int \<Rightarrow> int \<Rightarrow> database \<Rightarrow> count_cache \<Rightarrow> count_cache \<times> file_row list \<times> int" where
  "ListFilesCrossProject now q sortField sortOrder limit offset d c =
     (let fs = filter (file_matches d q) (t_files d);
          (c', total) = (if no_filters q then cachedFileCount now d c else (c, int (length fs)))
      in (c', sql_page limit offset (order_files sortField sortOrder fs), total))"

section \<open>Projects\<close>

text \<open>\<open>subdir cfg\<close> is the storage subdirectory in the JSON config, if it can be decoded.\<close>

definition scanProject :: "(string \<Rightarrow> string option) \<Rightarrow> project \<Rightarrow> project" where
  "scanProject subdir p = p\<lparr>p_storage_subdir :=
     (if p_config p \<noteq> [] then (case subdir (p_config p) of None \<Rightarrow> [] | Some s \<Rightarrow> s) else [])\<rparr>"

definition insert_project :: "project \<Rightarrow> database \<Rightarrow> database \<times> (sql_err + int)" where
  "insert_project p d =
     (if has_row p_name (t_projects d) (p_name p) then (d, Inl (UniqueViolation ''projects.name''))
      else let i = seq_projects d + 1 in
        (d\<lparr>t_projects := t_projects d @ [p\<lparr>p_id := i, p_created_at := sql_now d\<rparr>], seq_projects := i\<rparr>, Inr i))"

definition project_GetByID :: "(string \<Rightarrow> string option) \<Rightarrow> int \<Rightarrow> database \<Rightarrow> project option" where
  "project_GetByID subdir i d = map_option (scanProject subdir) (row_by p_id (t_projects d) i)"

definition project_GetByName :: "(string \<Rightarrow> string option) \<Rightarrow> string \<Rightarrow> database \<Rightarrow> project option" where
  "project_GetByName subdir name d = map_option (scanProject subdir) (row_by p_name (t_projects d) name)"

definition new_project :: "string \<Rightarrow> string \<Rightarrow> string \<Rightarrow> string \<Rightarrow> string \<Rightarrow> project" where
  "new_project name displayName sourceType sourceURL cfg =
     \<lparr>p_id = 0, p_name = name, p_display_name = displayName, p_source_type = sourceType, p_source_url = sourceURL, p_config = cfg,
      p_latest_version = [], p_last_crawled_at = None, p_created_at = 0, p_enabled = True, p_storage_subdir = []\<rparr>"

definition project_Create ::
  "(string \<Rightarrow> string option) \<Rightarrow> string \<Rightarrow> string \<Rightarrow> string \<Rightarrow> string \<Rightarrow> database \<Rightarrow> database \<times> (sql_err + project option)" where
  "project_Create subdir name displayName sourceType sourceURL d =
     (case insert_project (new_project name displayName sourceType sourceURL ''{}'') d of
        (d', Inl e) \<Rightarrow> (d', Inl e)
      | (d', Inr i) \<Rightarrow> (d', Inr (project_GetByID subdir i d')))"

definition project_CreateWithSettings ::
  "(string \<Rightarrow> string option) \<Rightarrow> string \<Rightarrow> string \<Rightarrow> string \<Rightarrow> string \<Rightarrow> string \<Rightarrow> database \<Rightarrow> database \<times> (sql_err + project option)" where
  "project_CreateWithSettings subdir name displayName sourceType sourceURL configJSON d =
     (case insert_project (new_project name displayName sourceType sourceURL configJSON) d of
        (d', Inl e) \<Rightarrow> (d', Inl e)
      | (d', Inr i) \<Rightarrow> (d', Inr (project_GetByID subdir i d')))"

definition project_List :: "(string \<Rightarrow> string option) \<Rightarrow> database \<Rightarrow> project list" where
  "project_List subdir d = map (scanProject subdir) (sort_key p_name (t_projects d))"

definition project_ListEnabled :: "(string \<Rightarrow> string option) \<Rightarrow> database \<Rightarrow> project list" where
  "project_ListEnabled subdir d = map (scanProject subdir) (sort_key p_name (filter p_enabled (t_projects d)))"

definition project_UpdateLatestVersion :: "int \<Rightarrow> string \<Rightarrow> database \<Rightarrow> database" where
  "project_UpdateLatestVersion i version d = d\<lparr>t_projects := upd_row p_id i (\<lambda>p. p\<lparr>p_latest_version := version\<rparr>) (t_projects d)\<rparr>"

definition project_UpdateLastCrawledAt :: "int \<Rightarrow> database \<Rightarrow> database" where
  "project_UpdateLastCrawledAt i d =
     d\<lparr>t_projects := upd_row p_id i (\<lambda>p. p\<lparr>p_last_crawled_at := Some (sql_now d)\<rparr>) (t_projects d)\<rparr>"

definition project_UpdateProject :: "int \<Rightarrow> string \<Rightarrow> string \<Rightarrow> string \<Rightarrow> string \<Rightarrow> string \<Rightarrow> database \<Rightarrow> database \<times> (sql_err + unit)" where
  "project_UpdateProject i name displayName sourceType sourceURL configJSON d =
     (if has_row p_id (t_projects d) i \<and> (\<exists>p \<in> set (t_projects d). p_id p \<noteq> i \<and> p_name p = name)
      then (d, Inl (UniqueViolation ''projects.name''))
      else (d\<lparr>t_projects := upd_row p_id i (\<lambda>p. p\<lparr>p_name := name, p_display_name := displayName, p_source_type := sourceType,
              p_source_url := sourceURL, p_config := configJSON\<rparr>) (t_projects d)\<rparr>, Inr ()))"

definition project_SetEnabled :: "int \<Rightarrow> bool \<Rightarrow> database \<Rightarrow> database" where
  "project_SetEnabled i enabled d = d\<lparr>t_projects := upd_row p_id i (\<lambda>p. p\<lparr>p_enabled := enabled\<rparr>) (t_projects d)\<rparr>"

text \<open>
  One transaction: the deletion of the files fails, and everything is rolled back, when a node, a
  rule entry or a share link still refers to one of them. (The log tables are not modelled.)
\<close>

definition file_referenced :: "database \<Rightarrow> int \<Rightarrow> bool" where
  "file_referenced d i \<longleftrightarrow> (\<exists>n \<in> set (t_nodes d). n_file_id n = Some i) \<or> i \<in> snd ` set (t_rule_entries d) \<or>
     (\<exists>l \<in> set (t_share_links d). sl_file_id l = i)"

definition project_Delete :: "int \<Rightarrow> database \<Rightarrow> database \<times> (sql_err + unit)" where
  "project_Delete i d =
     (if \<exists>f \<in> set (t_files d). f_project_id f = i \<and> file_referenced d (f_id f) then (d, Inl (ForeignKey ''files.id''))
      else (d\<lparr>t_files := filter (\<lambda>f. f_project_id f \<noteq> i) (t_files d), t_projects := filter (\<lambda>p. p_id p \<noteq> i) (t_projects d)\<rparr>, Inr ()))"

section \<open>Facts on the helpers\<close>

lemma scan_files_ok: "\<forall>f \<in> set fs. f_source_type f \<noteq> None \<Longrightarrow> scan_files fs = Inr fs"
  by (induction fs) (auto simp: scanFile_def)

lemma scan_files_InrD: "scan_files fs = Inr gs \<Longrightarrow> gs = fs"
  by (induction fs arbitrary: gs) (auto simp: scanFile_def split: option.splits sum.splits)

lemma set_sort_key_desc [simp]: "set (sort_key_desc f xs) = set xs"
  by (simp add: sort_key_desc_def)

lemma length_sort_key_desc [simp]: "length (sort_key_desc f xs) = length xs"
  by (simp add: sort_key_desc_def)

lemma sort_key_desc_sorted: "sorted_wrt (\<lambda>x y. f y \<le> f x) (sort_key_desc f xs)"
  using sorted_sort_key [of f "rev xs"]
  by (simp add: sort_key_desc_def sorted_wrt_rev sorted_map)

text \<open>Consecutive pages of a positive size put the list together again.\<close>

lemma pages_concat:
  "0 < n \<Longrightarrow> concat (map (\<lambda>k. sql_page (int n) (int (k * n)) xs) [0..<m]) = take (m * n) xs"
proof (induction m)
  case (Suc m)
  have "take (m * n) xs @ take n (drop (m * n) xs) = take (m * n + n) xs" by (simp add: take_add)
  with Suc show ?case by (simp add: sql_page_def Let_def add.commute nat_mult_distrib)
qed simp

lemma like_percent: "sql_like (CHR ''%'' # ps) s \<longleftrightarrow> (\<exists>k \<le> length s. sql_like ps (drop k s))"
proof (induction s)
  case (Cons c s)
  have "(\<exists>k \<le> length (c # s). sql_like ps (drop k (c # s))) \<longleftrightarrow>
      sql_like ps (c # s) \<or> (\<exists>k \<le> length s. sql_like ps (drop k s))"
    by (metis Suc_le_mono drop0 drop_Suc_Cons le0 length_Cons not0_implies_Suc)
  with Cons show ?case by simp
qed simp

lemma like_plain:
  "\<forall>c \<in> set w. c \<noteq> CHR ''%'' \<and> c \<noteq> CHR ''_'' \<Longrightarrow>
   sql_like (w @ ''%'') s \<longleftrightarrow> has_prefix (to_lower s) (to_lower w)"
proof (induction w arbitrary: s)
  case Nil
  have "sql_like ''%'' s" by (induction s) auto
  then show ?case by (simp add: has_prefix_def to_lower_def)
next
  case (Cons c w)
  show ?case
  proof (cases s)
    case Nil
    with Cons.prems show ?thesis by (simp add: has_prefix_def to_lower_def)
  next
    case s: (Cons e t)
    have "has_prefix (to_lower s) (to_lower (c # w)) \<longleftrightarrow> lower_char c = lower_char e \<and> has_prefix (to_lower t) (to_lower w)"
      by (simp only: s has_prefix_def to_lower_def list.map length_Cons take_Suc_Cons list.inject eq_commute [of "lower_char e"])
    with Cons.prems Cons.IH [of t] show ?thesis by (simp only: s append_Cons sql_like.simps) simp
  qed
qed

lemma contains_sub_drop: "contains_sub s p \<longleftrightarrow> (\<exists>k \<le> length s. has_prefix (drop k s) p)"
proof (induction s)
  case (Cons c s)
  have "(\<exists>k \<le> length (c # s). has_prefix (drop k (c # s)) p) \<longleftrightarrow>
      has_prefix (c # s) p \<or> (\<exists>k \<le> length s. has_prefix (drop k s) p)"
    by (metis Suc_le_mono drop0 drop_Suc_Cons le0 length_Cons not0_implies_Suc)
  with Cons show ?case by simp
qed (auto simp: has_prefix_def)

lemma like_contains:
  assumes "\<forall>c \<in> set w. c \<noteq> CHR ''%'' \<and> c \<noteq> CHR ''_''"
  shows "sql_like (''%'' @ w @ ''%'') s \<longleftrightarrow> contains_sub (to_lower s) (to_lower w)"
  using like_plain [OF assms]
  by (simp add: like_percent contains_sub_drop) (simp add: to_lower_def drop_map)

section \<open>The invariant of the file table\<close>

definition files_ok :: "database \<Rightarrow> bool" where
  "files_ok d \<longleftrightarrow> 0 \<le> seq_files d \<and> keyed f_id (t_files d) (seq_files d) \<and>
     0 \<le> seq_projects d \<and> keyed p_id (t_projects d) (seq_projects d) \<and>
     (\<forall>f \<in> set (t_files d). f_status f \<in> set file_statuses \<and> has_row p_id (t_projects d) (f_project_id f))"

lemma files_ok_map_file:
  assumes "files_ok d" "\<And>f. f_id (g f) = f_id f" "\<And>f. f_project_id (g f) = f_project_id f"
    "\<forall>f \<in> set (t_files d). f_id f = i \<longrightarrow> f_status (g f) \<in> set file_statuses"
  shows "files_ok (d\<lparr>t_files := upd_row f_id i g (t_files d)\<rparr>)"
  using assms by (auto simp: files_ok_def set_upd_row)

lemma update_file_ok:
  assumes "files_ok d" "\<And>f. f_id (g f) = f_id f" "\<And>f. f_project_id (g f) = f_project_id f"
  shows "files_ok (fst (update_file i g d))"
  using assms by (auto simp: update_file_def intro!: files_ok_map_file)

lemma files_ok_projects:
  assumes "files_ok d" "\<And>p. p_id (g p) = p_id p"
  shows "files_ok (d\<lparr>t_projects := upd_row p_id i g (t_projects d)\<rparr>)"
  using assms by (simp add: files_ok_def)

lemma insert_project_ok: "files_ok d \<Longrightarrow> files_ok (fst (insert_project p d))"
  by (auto simp: files_ok_def insert_project_def Let_def intro!: keyed_append)

lemma file_Create_ok: "files_ok d \<Longrightarrow> files_ok (fst (file_Create f d))"
  by (auto simp: files_ok_def file_Create_def Let_def intro!: keyed_append)

lemma project_Delete_ok: "files_ok d \<Longrightarrow> files_ok (fst (project_Delete i d))"
  by (auto simp: files_ok_def project_Delete_def keyed_filter)

lemma reset_zombies_ok: "files_ok d \<Longrightarrow> files_ok (fst (reset_zombies stat zs d))"
proof (induction zs arbitrary: d)
  case (Cons z zs)
  obtain i p where z: "z = (i, p)" by fastforce
  let ?found = "case stat p of Some sz \<Rightarrow> sz > 0 | None \<Rightarrow> False"
  let ?d = "fst (if ?found
      then update_file i (\<lambda>f. f\<lparr>f_status := ''complete'', f_error_message := [], f_size_bytes := the (stat p)\<rparr>) d
      else update_file i (\<lambda>f. f\<lparr>f_status := ''pending'', f_error_message := [], f_retry_count := 0\<rparr>) d)"
  have "files_ok ?d" using Cons.prems by (auto simp: update_file_ok)
  then have "files_ok (fst (reset_zombies stat zs ?d))" by (rule Cons.IH)
  then show ?case by (simp add: z Let_def split_beta)
qed simp

datatype file_call =
    FCreate file_row | FUpdateStatus int string string | FResetZombies "string \<Rightarrow> int option" | FIncrementRetry int string
  | FMarkFailed int | FResetRetry int | FUpdateLocalPath int string | PCreate string string string string string
  | PUpdate int string string string string string | PLatest int string | PCrawled int | PEnabled int bool | PDelete int

fun file_exec :: "file_call \<Rightarrow> database \<Rightarrow> database" where
  "file_exec (FCreate f) d = fst (file_Create f d)"
| "file_exec (FUpdateStatus i st msg) d = fst (file_UpdateStatus i st msg d)"
| "file_exec (FResetZombies stat) d = fst (file_ResetZombieDownloads stat d)"
| "file_exec (FIncrementRetry i msg) d = fst (file_IncrementRetryCount i msg d)"
| "file_exec (FMarkFailed i) d = fst (file_MarkFailedPermanent i d)"
| "file_exec (FResetRetry i) d = fst (file_ResetRetry i d)"
| "file_exec (FUpdateLocalPath i p) d = file_UpdateLocalPath i p d"
| "file_exec (PCreate n dn st u c) d = fst (project_CreateWithSettings (\<lambda>_. None) n dn st u c d)"
| "file_exec (PUpdate i n dn st u c) d = fst (project_UpdateProject i n dn st u c d)"
| "file_exec (PLatest i v) d = project_UpdateLatestVersion i v d"
| "file_exec (PCrawled i) d = project_UpdateLastCrawledAt i d"
| "file_exec (PEnabled i b) d = project_SetEnabled i b d"
| "file_exec (PDelete i) d = fst (project_Delete i d)"

lemma file_exec_ok: "files_ok d \<Longrightarrow> files_ok (file_exec c d)"
proof (cases c)
  case (PCreate n dn st u cfg)
  assume "files_ok d"
  from insert_project_ok [OF this, of "new_project n dn st u cfg"] PCreate show ?thesis
    by (auto simp: project_CreateWithSettings_def split: prod.splits sum.splits)
next
  case (FIncrementRetry i msg)
  assume "files_ok d"
  then show ?thesis using FIncrementRetry
    by (auto simp: file_IncrementRetryCount_def Let_def file_statuses_def intro!: files_ok_map_file)
next
  case (FUpdateLocalPath i p)
  assume "files_ok d"
  moreover from this have "\<forall>f \<in> set (t_files d). f_status f \<in> set file_statuses" by (simp add: files_ok_def)
  ultimately show ?thesis using FUpdateLocalPath by (auto simp: file_UpdateLocalPath_def intro!: files_ok_map_file)
qed (auto simp: file_Create_ok file_UpdateStatus_def file_ResetZombieDownloads_def file_MarkFailedPermanent_def file_ResetRetry_def
    update_file_ok reset_zombies_ok project_UpdateProject_def project_UpdateLatestVersion_def project_UpdateLastCrawledAt_def
    project_SetEnabled_def files_ok_projects project_Delete_ok)













lemma fold_file_exec_ok: "files_ok d \<Longrightarrow> files_ok (fold file_exec cs d)"
  by (induction cs arbitrary: d) (simp_all add: file_exec_ok)






lemma upd_row_commute_set:
  "(\<And>r. key (g r) = key r) \<Longrightarrow> x \<in> set (upd_row key i g rows) \<Longrightarrow> key x \<noteq> i \<Longrightarrow> x \<in> set rows"
  by (auto simp: set_upd_row split: if_splits)

text \<open>One step of the recovery, as a function on rows.\<close>

definition recover :: "(string \<Rightarrow> int option) \<Rightarrow> file_row \<Rightarrow> file_row" where
  "recover stat f = (case stat (f_local_path f) of
     Some sz \<Rightarrow> if sz > 0 then f\<lparr>f_status := ''complete'', f_error_message := [], f_size_bytes := sz\<rparr>
                else f\<lparr>f_status := ''pending'', f_error_message := [], f_retry_count := 0\<rparr>
   | None \<Rightarrow> f\<lparr>f_status := ''pending'', f_error_message := [], f_retry_count := 0\<rparr>)"

lemma upd_row_cong: "(\<And>r. r \<in> set rows \<Longrightarrow> key r = i \<Longrightarrow> g r = h r) \<Longrightarrow> upd_row key i g rows = upd_row key i h rows"
  by (auto simp: upd_row_def)

lemma reset_zombies_spec:
  assumes "distinct (map f_id (t_files d))" "distinct (map fst zs)"
    "\<forall>(i, p) \<in> set zs. \<exists>f \<in> set (t_files d). f_id f = i \<and> f_local_path f = p"
  shows "fst (reset_zombies stat zs d) =
      d\<lparr>t_files := map (\<lambda>f. if f_id f \<in> fst ` set zs then recover stat f else f) (t_files d)\<rparr> \<and>
    fst (snd (reset_zombies stat zs d)) = int (length zs)"
  using assms
proof (induction zs arbitrary: d)
  case (Cons z zs)
  obtain i p where z: "z = (i, p)" by fastforce
  let ?found = "case stat p of Some sz \<Rightarrow> sz > 0 | None \<Rightarrow> False"
  let ?g = "\<lambda>f. if ?found then f\<lparr>f_status := ''complete'', f_error_message := [], f_size_bytes := the (stat p)\<rparr>
      else f\<lparr>f_status := ''pending'', f_error_message := [], f_retry_count := 0\<rparr>"
  let ?d = "d\<lparr>t_files := upd_row f_id i (recover stat) (t_files d)\<rparr>"
  have path: "f_local_path f = p" if "f \<in> set (t_files d)" "f_id f = i" for f
    using that Cons.prems(1,3) z by (auto simp: distinct_map inj_on_def)
  have "upd_row f_id i ?g (t_files d) = upd_row f_id i (recover stat) (t_files d)"
    by (rule upd_row_cong) (auto simp: path recover_def split: option.splits)
  then have upd: "update_file i ?g d = (?d, Inr ())" by (simp add: update_file_def file_statuses_def)
  have rf: "f_id (recover stat f) = f_id f" "f_local_path (recover stat f) = f_local_path f" for f
    by (simp_all add: recover_def split: option.split)
  have step: "reset_zombies stat (z # zs) d = (let (d2, n, rs) = reset_zombies stat zs ?d in
      (d2, n + 1, (if ?found then [] else [path_join [path_dir p, ''.download-'' @ path_base p]]) @ rs))"
    using upd by (cases ?found) (simp_all add: z Let_def split_beta)
  have "\<forall>(j, q) \<in> set zs. \<exists>f \<in> set (t_files ?d). f_id f = j \<and> f_local_path f = q"
  proof (clarify)
    fix j q assume "(j, q) \<in> set zs"
    then obtain f where "f \<in> set (t_files d)" "f_id f = j" "f_local_path f = q" using Cons.prems(3) by auto
    then show "\<exists>f \<in> set (t_files ?d). f_id f = j \<and> f_local_path f = q"
      by (intro bexI [of _ "if f_id f = i then recover stat f else f"]) (auto simp: rf set_upd_row)
  qed
  then have IH: "fst (reset_zombies stat zs ?d) = ?d\<lparr>t_files := map (\<lambda>f. if f_id f \<in> fst ` set zs then recover stat f else f) (t_files ?d)\<rparr>"
    "fst (snd (reset_zombies stat zs ?d)) = int (length zs)"
    using Cons.IH [of ?d] Cons.prems(1,2) rf by simp_all
  have "i \<notin> fst ` set zs" using Cons.prems(2) z by simp
  then have "map (\<lambda>f. if f_id f \<in> fst ` set zs then recover stat f else f) (t_files ?d) =
      map (\<lambda>f. if f_id f \<in> fst ` set (z # zs) then recover stat f else f) (t_files d)"
    by (simp add: upd_row_def z) (auto simp: rf)
  then show ?case using IH by (simp add: step Let_def split_beta)
qed simp

section \<open>Properties\<close>




text \<open>
  C10: Recovery after a crash. ResetZombieDownloads rewrites exactly the files in state downloading:
  a file that is on disk with content becomes complete with its size on disk, any other becomes
  pending with its retry counter cleared; it counts exactly these files, no file is downloading
  afterwards, and nothing else changes.
\<close>
theorem ResetZombieDownloads_exact:
  assumes "files_ok d"
  shows "let r = file_ResetZombieDownloads stat d in
    fst r = d\<lparr>t_files := map (\<lambda>f. if f_status f = ''downloading'' then recover stat f else f) (t_files d)\<rparr> \<and>
    fst (snd r) = status_count ''downloading'' d \<and> status_count ''downloading'' (fst r) = 0"
proof -
  let ?zf = "filter (\<lambda>f. f_status f = ''downloading'') (t_files d)"
  let ?zs = "map (\<lambda>f. (f_id f, f_local_path f)) ?zf"
  have d: "distinct (map f_id (t_files d))" using assms by (simp add: files_ok_def keyed_def)
  have dz: "distinct (map fst ?zs)" using d by (simp add: distinct_map_filter comp_def)
  have "\<forall>(i, p) \<in> set ?zs. \<exists>f \<in> set (t_files d). f_id f = i \<and> f_local_path f = p" by auto
  note R = reset_zombies_spec [OF d dz this, of stat]
  have mem: "f_id f \<in> fst ` set ?zs \<longleftrightarrow> f_status f = ''downloading''" if "f \<in> set (t_files d)" for f
    using that d by (auto simp: distinct_map inj_on_def image_iff)
  have eq: "map (\<lambda>f. if f_id f \<in> fst ` set ?zs then recover stat f else f) (t_files d) =
      map (\<lambda>f. if f_status f = ''downloading'' then recover stat f else f) (t_files d)"
    by (rule map_cong [OF refl]) (simp only: mem)
  have "f_status (recover stat f) \<noteq> ''downloading''" for f by (simp add: recover_def split: option.split)
  then have "filter (\<lambda>f. f_status f = ''downloading'') (map (\<lambda>f. if f_status f = ''downloading'' then recover stat f else f) (t_files d)) = []"
    by (auto simp: filter_empty_conv)
  then show ?thesis using R unfolding eq by (simp add: file_ResetZombieDownloads_def Let_def status_count_def)
qed

definition demo_files :: database where
  "demo_files = fold file_exec
     [PCreate ''p'' ''P'' ''github'' [] ''{}'',
      FCreate \<lparr>f_id = 0, f_project_id = 1, f_version = ''1.0'', f_filename = ''a.tgz'', f_os = [], f_arch = [], f_ext = [], f_size_bytes = 0,
        f_download_url = ''u'', f_local_path = ''/d/a.tgz'', f_checksum = [], f_status = ''downloading'', f_error_message = [], f_created_at = 0,
        f_retry_count = 0, f_last_attempt_at = None, f_source_type = Some ''github'', f_category = None, f_storage_subdir = None,
        f_public_token = None\<rparr>] (empty_db 5)"

lemma demo_files_ok: "files_ok demo_files"
  unfolding demo_files_def by (rule fold_file_exec_ok) (simp add: files_ok_def empty_db_def keyed_def)

theorem ResetZombieDownloads_exact_witness:
  "files_ok demo_files \<and> status_count ''downloading'' demo_files = 1 \<and>
   fst (snd (file_ResetZombieDownloads (\<lambda>_. None) demo_files)) = 1 \<and>
   status_count ''downloading'' (fst (file_ResetZombieDownloads (\<lambda>_. None) demo_files)) = 0"
proof -
  have "status_count ''downloading'' demo_files = 1" by code_simp
  then show ?thesis using ResetZombieDownloads_exact [OF demo_files_ok, of "\<lambda>_. None"] demo_files_ok unfolding Let_def by metis
qed

text \<open>
  The filtered file listing. Reading the listing page by page, with any page size, sort field
  and direction, and any filters, returns every matching file exactly once, in the order of the
  whole list; with filters present the reported total is the number of matching files; and an
  unfiltered total is at most 30 seconds old.
\<close>
theorem ListFilesCrossProject_pages:
  assumes "0 < n" "length (filter (file_matches d q) (t_files d)) \<le> m * n"
  shows "concat (map (\<lambda>k. fst (snd (ListFilesCrossProject now q fld ord (int n) (int (k * n)) d c))) [0..<m]) =
      order_files fld ord (filter (file_matches d q) (t_files d)) \<and>
    mset (order_files fld ord (filter (file_matches d q) (t_files d))) = mset (filter (file_matches d q) (t_files d)) \<and>
    (\<not> no_filters q \<longrightarrow> snd (snd (ListFilesCrossProject now q fld ord limit off d c)) = int (length (filter (file_matches d q) (t_files d)))) \<and>
    (no_filters q \<longrightarrow> (case countCachedAt c of Some t \<Rightarrow> 30 \<le> now - t | None \<Rightarrow> True) \<longrightarrow>
       snd (snd (ListFilesCrossProject now q fld ord limit off d c)) = int (length (t_files d)))"
proof -
  let ?fs = "filter (file_matches d q) (t_files d)"
  have ms: "mset (order_files fld ord fs) = mset fs" for fs
    by (simp add: order_files_def sort_key_desc_def Let_def)
  have "length (order_files fld ord ?fs) = length ?fs" using ms [of ?fs] by (metis size_mset)
  then have "take (m * n) (order_files fld ord ?fs) = order_files fld ord ?fs" using assms(2) by simp
  moreover have "fst (snd (ListFilesCrossProject now q fld ord (int n) (int (k * n)) d c)) =
      sql_page (int n) (int (k * n)) (order_files fld ord ?fs)" for k
    by (simp add: ListFilesCrossProject_def Let_def split_beta)
  ultimately show ?thesis using pages_concat [OF assms(1), of "order_files fld ord ?fs" m] ms
    by (auto simp: ListFilesCrossProject_def Let_def cachedFileCount_def file_CountAll_def split: option.splits)
qed

definition all_files :: file_filters where
  "all_files = \<lparr>ff_ProjectID = None, ff_ProjectName = [], ff_Version = [], ff_OS = [], ff_Arch = [], ff_Category = [],
     ff_SourceType = [], ff_Keyword = []\<rparr>"

theorem ListFilesCrossProject_pages_witness:
  "concat (map (\<lambda>k. fst (snd (ListFilesCrossProject 0 all_files ''filename'' ''asc'' (int 1) (int (k * 1)) demo_files
       \<lparr>countCached = 0, countCachedAt = None\<rparr>))) [0..<2]) = t_files demo_files \<and> length (t_files demo_files) = 1"
proof -
  have l: "length (filter (file_matches demo_files all_files) (t_files demo_files)) \<le> 2 * 1" by code_simp
  have "order_files ''filename'' ''asc'' (filter (file_matches demo_files all_files) (t_files demo_files)) = t_files demo_files"
    "length (t_files demo_files) = 1" by code_simp+
  then show ?thesis using ListFilesCrossProject_pages [OF zero_less_one l] by metis
qed

text \<open>
  A keyword without wildcard characters matches exactly the file names that contain it,
  ignoring the case of ASCII letters.
\<close>
theorem keyword_search_exact:
  assumes "\<forall>c \<in> set w. c \<noteq> CHR ''%'' \<and> c \<noteq> CHR ''_''" "\<forall>f \<in> set (t_files d). f_source_type f \<noteq> None"
    "length (filter (\<lambda>f. contains_sub (to_lower (f_filename f)) (to_lower w)) (t_files d)) \<le> 100"
  shows "\<exists>fs. file_SearchByFilename (''%'' @ w @ ''%'') d = Inr fs \<and>
    set fs = {f \<in> set (t_files d). contains_sub (to_lower (f_filename f)) (to_lower w)}"
proof -
  have "file_SearchByFilename (''%'' @ w @ ''%'') d =
      scan_files (take 100 (sort_key f_filename (filter (\<lambda>f. contains_sub (to_lower (f_filename f)) (to_lower w)) (t_files d))))"
    unfolding file_SearchByFilename_def like_contains [OF assms(1)] ..
  also have "\<dots> = Inr (sort_key f_filename (filter (\<lambda>f. contains_sub (to_lower (f_filename f)) (to_lower w)) (t_files d)))"
    using assms(2,3) by (simp add: scan_files_ok)
  finally show ?thesis by (intro exI conjI) auto
qed

theorem keyword_search_exact_witness:
  "\<exists>fs. file_SearchByFilename (''%'' @ ''TGZ'' @ ''%'') demo_files = Inr fs \<and> map f_filename fs = [''a.tgz'']"
proof -
  have h: "\<forall>c \<in> set ''TGZ''. c \<noteq> CHR ''%'' \<and> c \<noteq> CHR ''_''" "\<forall>f \<in> set (t_files demo_files). f_source_type f \<noteq> None"
    "length (filter (\<lambda>f. contains_sub (to_lower (f_filename f)) (to_lower ''TGZ'')) (t_files demo_files)) \<le> 100" by code_simp+
  from keyword_search_exact [OF h] obtain fs where fs: "file_SearchByFilename (''%'' @ ''TGZ'' @ ''%'') demo_files = Inr fs" by blast
  have "map_sum (\<lambda>e. e) (map f_filename) (file_SearchByFilename (''%'' @ ''TGZ'' @ ''%'') demo_files) = Inr [''a.tgz'']" by code_simp
  with fs show ?thesis by simp
qed

end
