(* ===== verification/Event_Bus.thy ===== *)
theory Event_Bus
  imports Go_Base
begin

text \<open>
  The in-process event bus, src/internal/eventbus/eventbus.go.

  A Go channel is an address into a heap of channel records (buffer and closed flag); the bus
  keeps, per tag, the list of the addresses of its subscribers. \<open>NewBus\<close>, \<open>Subscribe\<close>,
  \<open>Publish\<close> and \<open>Close\<close> are the methods of \<^verbatim>\<open>Bus\<close>, run to completion; \<open>receive\<close> is the
  subscriber's channel receive and \<open>worker_step\<close> one round of the goroutine of StartWorker.
  A send on a closed channel and a second close are panics of the Go runtime: the outcome
  \<open>Panic\<close>.

  The second half models the same code at the granularity at which goroutines interleave: the
  atomic load of the closed flag, the read of the subscriber list under the read lock, and one
  send per step outside of any lock, against Close, which swaps the flag and then closes the
  channels under the write lock. The step relation is \<open>bus_step\<close>.
\<close>

section \<open>Events, channels, the bus\<close>

datatype event =
    FilePublished int
  | FileRemoved int
  | FileMetadataChanged int
  | RuleFolderCreated int
  | RuleFolderUpdated int
  | NodeTreeChanged int
  | ChannelChanged int

fun eventTagOf :: "event \<Rightarrow> string" where
  "eventTagOf (FilePublished _) = ''file.published''"
| "eventTagOf (FileRemoved _) = ''file.removed''"
| "eventTagOf (FileMetadataChanged _) = ''file.metadata_changed''"
| "eventTagOf (RuleFolderCreated _) = ''rule.folder_created''"
| "eventTagOf (RuleFolderUpdated _) = ''rule.folder_updated''"
| "eventTagOf (NodeTreeChanged _) = ''node.tree_changed''"
| "eventTagOf (ChannelChanged _) = ''channel.changed''"

record chan =
  buf :: "event list"
  ch_closed :: bool

record bus =
  subscribers :: "(string \<times> nat list) list"
  bufferSize :: nat
  chans :: "chan list"
  closed :: bool

datatype outcome = Done | Panic

definition subs_of :: "bus \<Rightarrow> string \<Rightarrow> nat list" where
  "subs_of b tag = (case map_of (subscribers b) tag of None \<Rightarrow> [] | Some cs \<Rightarrow> cs)"

fun assoc_upd :: "'k \<Rightarrow> 'v \<Rightarrow> ('k \<times> 'v) list \<Rightarrow> ('k \<times> 'v) list" where
  "assoc_upd k v [] = [(k, v)]"
| "assoc_upd k v ((l, w) # xs) = (if l = k then (k, v) # xs else (l, w) # assoc_upd k v xs)"

section \<open>The methods\<close>

definition NewBus :: "int \<Rightarrow> bus" where
  "NewBus n = \<lparr>subscribers = [], bufferSize = nat (if n < 1 then 1 else n), chans = [], closed = False\<rparr>"

definition Subscribe :: "bus \<Rightarrow> string \<Rightarrow> bus \<times> nat" where
  "Subscribe b tag =
     (let ch = length (chans b) in
      if closed b then (b\<lparr>chans := chans b @ [\<lparr>buf = [], ch_closed = True\<rparr>]\<rparr>, ch)
      else (b\<lparr>chans := chans b @ [\<lparr>buf = [], ch_closed = False\<rparr>],
              subscribers := assoc_upd tag (subs_of b tag @ [ch]) (subscribers b)\<rparr>, ch))"

text \<open>
  The loop of Publish. \<open>done\<close> says whether the context is cancelled; Go's select picks any of
  the ready cases, so \<open>pick i\<close> says whether, with the context cancelled, the i-th select takes
  the cancellation although the send is ready too. The default branch (drop the event) is
  taken only when neither is ready.
\<close>

fun publish_loop :: "bool \<Rightarrow> (nat \<Rightarrow> bool) \<Rightarrow> nat \<Rightarrow> nat \<Rightarrow> event \<Rightarrow> nat list \<Rightarrow> chan list \<Rightarrow> outcome \<times> chan list" where
  "publish_loop done pick sz i e [] h = (Done, h)"
| "publish_loop done pick sz i e (c # cs) h =
     (if done \<and> pick i then (Done, h)
      else if ch_closed (h ! c) then (Panic, h)
      else if length (buf (h ! c)) < sz then
        publish_loop done pick sz (Suc i) e cs (h[c := (h ! c)\<lparr>buf := buf (h ! c) @ [e]\<rparr>])
      else if done then (Done, h)
      else publish_loop done pick sz (Suc i) e cs h)"

definition Publish :: "bool \<Rightarrow> (nat \<Rightarrow> bool) \<Rightarrow> bus \<Rightarrow> event \<Rightarrow> outcome \<times> bus" where
  "Publish done pick b e =
     (if closed b then (Done, b)
      else (case publish_loop done pick (bufferSize b) 0 e (subs_of b (eventTagOf e)) (chans b) of
              (r, h) \<Rightarrow> (r, b\<lparr>chans := h\<rparr>)))"

fun close_all :: "nat list \<Rightarrow> chan list \<Rightarrow> outcome \<times> chan list" where
  "close_all [] h = (Done, h)"
| "close_all (c # cs) h =
     (if ch_closed (h ! c) then (Panic, h) else close_all cs (h[c := (h ! c)\<lparr>ch_closed := True\<rparr>]))"

definition Close :: "bus \<Rightarrow> outcome \<times> bus" where
  "Close b =
     (if closed b then (Done, b)
      else (case close_all (concat (map snd (subscribers b))) (chans b) of
              (Done, h) \<Rightarrow> (Done, b\<lparr>closed := True, chans := h, subscribers := []\<rparr>)
            | (Panic, h) \<Rightarrow> (Panic, b\<lparr>closed := True, chans := h\<rparr>)))"

datatype recv = Blocked | Got event | ChanClosed

definition receive :: "bus \<Rightarrow> nat \<Rightarrow> bus \<times> recv" where
  "receive b c =
     (case buf (chans b ! c) of
        e # es \<Rightarrow> (b\<lparr>chans := (chans b)[c := (chans b ! c)\<lparr>buf := es\<rparr>]\<rparr>, Got e)
      | [] \<Rightarrow> (b, if ch_closed (chans b ! c) then ChanClosed else Blocked))"

text \<open>
  One round of the goroutine of StartWorker on its channel: \<open>None\<close> when it exits, otherwise the
  bus and the handler's state afterwards (\<open>handler\<close> is the worker's callback; \<open>cancel\<close> says
  whether the select takes the cancelled context).
\<close>

definition worker_step :: "('s \<Rightarrow> event \<Rightarrow> 's) \<Rightarrow> bool \<Rightarrow> nat \<Rightarrow> bus \<times> 's \<Rightarrow> (bus \<times> 's) option" where
  "worker_step handler cancel c bs =
     (if cancel then None
      else (case receive (fst bs) c of
              (b, Got e) \<Rightarrow> Some (b, handler (snd bs) e)
            | (b, ChanClosed) \<Rightarrow> None
            | (b, Blocked) \<Rightarrow> Some bs))"

section \<open>The invariant\<close>

definition all_subs :: "bus \<Rightarrow> nat list" where
  "all_subs b = concat (map snd (subscribers b))"

definition bus_ok :: "bus \<Rightarrow> bool" where
  "bus_ok b \<longleftrightarrow>
     0 < bufferSize b \<and> distinct (map fst (subscribers b)) \<and> distinct (all_subs b) \<and>
     (\<forall>c \<in> set (all_subs b). c < length (chans b) \<and> \<not> ch_closed (chans b ! c)) \<and>
     (\<forall>ch \<in> set (chans b). length (buf ch) \<le> bufferSize b) \<and>
     (closed b \<longrightarrow> subscribers b = [])"

lemma map_of_assoc_upd [simp]: "map_of (assoc_upd k v xs) = (map_of xs)(k \<mapsto> v)"
  by (induction xs) (auto simp: fun_upd_twist)

lemma assoc_upd_subset: "set (assoc_upd k v xs) \<subseteq> insert (k, v) (set xs)"
  by (induction k v xs rule: assoc_upd.induct) auto

lemma fst_assoc_upd: "fst ` set (assoc_upd k v xs) = insert k (fst ` set xs)"
  by (induction k v xs rule: assoc_upd.induct) auto

lemma distinct_assoc_upd: "distinct (map fst xs) \<Longrightarrow> distinct (map fst (assoc_upd k v xs))"
  by (induction xs) (auto simp: fst_assoc_upd)

lemma map_of_concat: "map_of xs k = Some v \<Longrightarrow> set v \<subseteq> set (concat (map snd xs))"
  by (force dest: map_of_SomeD)

lemma subs_of_subset: "set (subs_of b tag) \<subseteq> set (all_subs b)"
  by (cases "map_of (subscribers b) tag")
    (use map_of_concat [of "subscribers b" tag] in \<open>auto simp: subs_of_def all_subs_def\<close>)

lemma distinct_concat_elem: "distinct (concat xss) \<Longrightarrow> xs \<in> set xss \<Longrightarrow> distinct xs"
  by (induction xss) auto

lemma distinct_subs_of: "bus_ok b \<Longrightarrow> distinct (subs_of b tag)"
  by (force simp: subs_of_def bus_ok_def all_subs_def split: option.splits dest!: map_of_SomeD
      intro: distinct_concat_elem [of "map snd (subscribers b)"])

text \<open>Adding a fresh address to one tag keeps the flattened list duplicate free.\<close>

lemma concat_assoc_upd:
  "set (concat (map snd (assoc_upd k (the_default @ [c]) xs))) \<subseteq>
      insert c (set the_default \<union> set (concat (map snd xs)))"
  using assoc_upd_subset [of k "the_default @ [c]" xs] by fastforce

lemma distinct_concat_assoc_upd:
  assumes "distinct (map fst xs)" "distinct (concat (map snd xs))" "c \<notin> set (concat (map snd xs))"
  shows "distinct (concat (map snd
      (assoc_upd k ((case map_of xs k of None \<Rightarrow> [] | Some cs \<Rightarrow> cs) @ [c]) xs)))"
  using assms
proof (induction xs)
  case (Cons x xs)
  obtain l w where x: "x = (l, w)" by fastforce
  show ?case
  proof (cases "l = k")
    case True
    with Cons.prems x show ?thesis by auto
  next
    case False
    let ?d = "case map_of xs k of None \<Rightarrow> [] | Some cs \<Rightarrow> cs"
    have "set ?d \<subseteq> set (concat (map snd xs))"
      using map_of_concat [of xs k] by (cases "map_of xs k") auto
    then have "set (concat (map snd (assoc_upd k (?d @ [c]) xs))) \<subseteq> insert c (set (concat (map snd xs)))"
      using concat_assoc_upd [of k ?d c xs] by blast
    moreover have "set w \<inter> set (concat (map snd xs)) = {}" "c \<notin> set w" "distinct w"
      using Cons.prems x by auto
    ultimately have "set w \<inter> set (concat (map snd (assoc_upd k (?d @ [c]) xs))) = {}" by blast
    moreover have "distinct (concat (map snd (assoc_upd k (?d @ [c]) xs)))"
      using Cons x by auto
    ultimately show ?thesis using \<open>distinct w\<close> False x by (simp del: set_concat)
  qed
qed simp

lemma NewBus_ok: "bus_ok (NewBus n)"
  by (simp add: bus_ok_def NewBus_def all_subs_def)

lemma Subscribe_ok: "bus_ok b \<Longrightarrow> bus_ok (fst (Subscribe b tag))"
proof -
  assume ok: "bus_ok b"
  show ?thesis
  proof (cases "closed b")
    case True
    with ok show ?thesis by (auto simp: bus_ok_def Subscribe_def all_subs_def)
  next
    case False
    let ?c = "length (chans b)" and ?s = "subscribers b"
    have fresh: "?c \<notin> set (concat (map snd ?s))"
      using ok by (auto simp: bus_ok_def all_subs_def)
    have sub: "set (concat (map snd (assoc_upd tag (subs_of b tag @ [?c]) ?s))) \<subseteq> insert ?c (set (all_subs b))"
      using concat_assoc_upd [of tag "subs_of b tag" ?c ?s] subs_of_subset [of b tag] ok
      by (auto simp: bus_ok_def all_subs_def)
    have dis: "distinct (concat (map snd (assoc_upd tag (subs_of b tag @ [?c]) ?s)))"
      unfolding subs_of_def using ok fresh
      by (intro distinct_concat_assoc_upd) (auto simp: bus_ok_def all_subs_def)
    have sub': "x = ?c \<or> x \<in> set (all_subs b)"
      if "x \<in> set (concat (map snd (assoc_upd tag (subs_of b tag @ [?c]) ?s)))" for x
      using that sub by blast
    from False ok sub' dis show ?thesis
      unfolding bus_ok_def Subscribe_def Let_def
      by (fastforce simp: all_subs_def distinct_assoc_upd nth_append less_Suc_eq)
  qed
qed

section \<open>What Publish delivers\<close>

definition deliver :: "nat \<Rightarrow> event \<Rightarrow> chan \<Rightarrow> chan" where
  "deliver sz e ch = (if length (buf ch) < sz then ch\<lparr>buf := buf ch @ [e]\<rparr> else ch)"

lemma publish_loop_delivers:
  assumes "distinct cs" "\<forall>c \<in> set cs. c < length h \<and> \<not> ch_closed (h ! c)"
  shows "publish_loop False pick sz i e cs h =
    (Done, map (\<lambda>c. if c \<in> set cs then deliver sz e (h ! c) else h ! c) [0..<length h])"
  using assms
proof (induction cs arbitrary: i h)
  case Nil
  then show ?case by (simp add: map_nth)
next
  case (Cons c cs)
  let ?h = "h[c := deliver sz e (h ! c)]"
  have "publish_loop False pick sz i e (c # cs) h = publish_loop False pick sz (Suc i) e cs ?h"
    using Cons.prems by (auto simp: deliver_def list_update_beyond)
  also have "\<dots> = (Done, map (\<lambda>d. if d \<in> set cs then deliver sz e (?h ! d) else ?h ! d) [0..<length ?h])"
    using Cons.prems by (intro Cons.IH) (auto simp: nth_list_update)
  also have "map (\<lambda>d. if d \<in> set cs then deliver sz e (?h ! d) else ?h ! d) [0..<length ?h] =
      map (\<lambda>d. if d \<in> set (c # cs) then deliver sz e (h ! d) else h ! d) [0..<length h]"
    using Cons.prems by (auto simp: nth_list_update intro!: map_cong)
  finally show ?case .
qed

lemma upd_nth_closed: "ch_closed (h[c := (h ! c)\<lparr>buf := x\<rparr>] ! d) = ch_closed (h ! d)"
proof (cases "c = d \<and> c < length h")
  case False
  then have "h[c := (h ! c)\<lparr>buf := x\<rparr>] ! d = h ! d"
    by (cases "c = d") (auto simp: list_update_beyond)
  then show ?thesis by simp
qed auto

lemma publish_loop_frame:
  assumes "publish_loop dn pick sz i e cs h = (r, h')"
  shows "length h' = length h \<and>
    (\<forall>c. ch_closed (h' ! c) = ch_closed (h ! c)) \<and>
    (\<forall>c. c \<notin> set cs \<longrightarrow> h' ! c = h ! c) \<and>
    ((\<forall>ch \<in> set h. length (buf ch) \<le> sz) \<longrightarrow> (\<forall>ch \<in> set h'. length (buf ch) \<le> sz))"
  using assms
proof (induction cs arbitrary: i h)
  case (Cons c cs)
  show ?case
  proof (cases "length (buf (h ! c)) < sz \<and> \<not> ch_closed (h ! c) \<and> \<not> (dn \<and> pick i)")
    case True
    let ?h = "h[c := (h ! c)\<lparr>buf := buf (h ! c) @ [e]\<rparr>]"
    have "publish_loop dn pick sz (Suc i) e cs ?h = (r, h')" using True Cons.prems by auto
    from Cons.IH [OF this] have ih: "length h' = length ?h"
      "\<forall>d. ch_closed (h' ! d) = ch_closed (?h ! d)" "\<forall>d. d \<notin> set cs \<longrightarrow> h' ! d = ?h ! d"
      "(\<forall>ch \<in> set ?h. length (buf ch) \<le> sz) \<longrightarrow> (\<forall>ch \<in> set h'. length (buf ch) \<le> sz)"
      by blast+
    have "\<forall>d. ch_closed (?h ! d) = ch_closed (h ! d)"
      by (simp add: upd_nth_closed)
    then have cl: "\<forall>d. ch_closed (h' ! d) = ch_closed (h ! d)" using ih(2) by metis
    have "(\<forall>ch \<in> set h. length (buf ch) \<le> sz) \<longrightarrow> (\<forall>ch \<in> set ?h. length (buf ch) \<le> sz)"
      using True by (auto dest!: set_update_subset_insert [THEN subsetD])
    then have "(\<forall>ch \<in> set h. length (buf ch) \<le> sz) \<longrightarrow> (\<forall>ch \<in> set h'. length (buf ch) \<le> sz)"
      using ih(4) by blast
    moreover have "length h' = length h" using ih(1) by (simp only: length_list_update)
    moreover have "\<forall>d. d \<notin> set (c # cs) \<longrightarrow> h' ! d = h ! d" using ih(3) by simp
    ultimately show ?thesis using cl by blast
  next
    case False
    with Cons show ?thesis by (auto split: if_splits)
  qed
qed simp

lemma publish_loop_Done:
  "\<forall>c \<in> set cs. c < length h \<and> \<not> ch_closed (h ! c) \<Longrightarrow> fst (publish_loop dn pick sz i e cs h) = Done"
proof (induction cs arbitrary: i h)
  case (Cons c cs)
  have "\<forall>d \<in> set cs. d < length (h[c := (h ! c)\<lparr>buf := buf (h ! c) @ [e]\<rparr>]) \<and>
      \<not> ch_closed (h[c := (h ! c)\<lparr>buf := buf (h ! c) @ [e]\<rparr>] ! d)"
    using Cons.prems by (auto simp: nth_list_update)
  with Cons show ?case by auto
qed simp

lemma Publish_ok: "bus_ok b \<Longrightarrow> fst (Publish dn pick b e) = Done \<and> bus_ok (snd (Publish dn pick b e))"
proof (cases "closed b")
  case False
  assume ok: "bus_ok b"
  obtain r h where l: "publish_loop dn pick (bufferSize b) 0 e (subs_of b (eventTagOf e)) (chans b) = (r, h)"
    by fastforce
  have "\<forall>c \<in> set (subs_of b (eventTagOf e)). c < length (chans b) \<and> \<not> ch_closed (chans b ! c)"
    using ok subs_of_subset [of b "eventTagOf e"] by (auto simp: bus_ok_def)
  from publish_loop_Done [OF this] l have "r = Done" by (metis fst_conv)
  with l publish_loop_frame [OF l] ok False show ?thesis
    by (auto simp: Publish_def bus_ok_def all_subs_def)
qed (simp add: Publish_def)

section \<open>What Close does\<close>

lemma close_all_Done:
  assumes "distinct cs" "\<forall>c \<in> set cs. c < length h \<and> \<not> ch_closed (h ! c)"
  shows "close_all cs h =
    (Done, map (\<lambda>c. if c \<in> set cs then (h ! c)\<lparr>ch_closed := True\<rparr> else h ! c) [0..<length h])"
  using assms
proof (induction cs arbitrary: h)
  case Nil
  then show ?case by (simp add: map_nth)
next
  case (Cons c cs)
  let ?h = "h[c := (h ! c)\<lparr>ch_closed := True\<rparr>]"
  have "close_all (c # cs) h = close_all cs ?h" using Cons.prems by simp
  also have "\<dots> = (Done, map (\<lambda>d. if d \<in> set cs then (?h ! d)\<lparr>ch_closed := True\<rparr> else ?h ! d) [0..<length ?h])"
    using Cons.prems by (intro Cons.IH) (auto simp: nth_list_update)
  also have "map (\<lambda>d. if d \<in> set cs then (?h ! d)\<lparr>ch_closed := True\<rparr> else ?h ! d) [0..<length ?h] =
      map (\<lambda>d. if d \<in> set (c # cs) then (h ! d)\<lparr>ch_closed := True\<rparr> else h ! d) [0..<length h]"
    using Cons.prems by (auto simp: nth_list_update intro!: map_cong)
  finally show ?case .
qed

lemma Close_spec:
  assumes "bus_ok b" "\<not> closed b"
  shows "Close b = (Done, b\<lparr>closed := True, subscribers := [],
     chans := map (\<lambda>c. if c \<in> set (all_subs b) then (chans b ! c)\<lparr>ch_closed := True\<rparr> else chans b ! c)
       [0..<length (chans b)]\<rparr>)"
  using close_all_Done [of "all_subs b" "chans b"] assms
  by (auto simp: Close_def bus_ok_def all_subs_def)

lemma Close_ok: "bus_ok b \<Longrightarrow> fst (Close b) = Done \<and> bus_ok (snd (Close b))"
proof (cases "closed b")
  case False
  assume ok: "bus_ok b"
  have "\<forall>i < length (chans b). length (buf (chans b ! i)) \<le> bufferSize b"
    using ok by (auto simp: bus_ok_def)
  with ok False show ?thesis
    by (simp add: Close_spec) (auto simp: bus_ok_def all_subs_def)
qed (simp add: Close_def)

lemma receive_ok: "bus_ok b \<Longrightarrow> c < length (chans b) \<Longrightarrow> bus_ok (fst (receive b c))"
proof (cases "buf (chans b ! c)")
  case (Cons e es)
  assume ok: "bus_ok b" and c: "c < length (chans b)"
  have "length (buf (chans b ! c)) \<le> bufferSize b" using ok c by (auto simp: bus_ok_def)
  with Cons ok c show ?thesis
    by (auto simp: bus_ok_def receive_def all_subs_def nth_list_update
        dest!: set_update_subset_insert [THEN subsetD])
qed (simp add: receive_def)

section \<open>Runs of completed calls\<close>

datatype bus_op = OSub string | OPub bool "nat \<Rightarrow> bool" event | OClose | ORecv nat

definition bus_op_step :: "bus \<Rightarrow> bus_op \<Rightarrow> outcome \<times> bus" where
  "bus_op_step b op =
     (case op of
        OSub tag \<Rightarrow> (Done, fst (Subscribe b tag))
      | OPub dn pick e \<Rightarrow> Publish dn pick b e
      | OClose \<Rightarrow> Close b
      | ORecv c \<Rightarrow> (Done, if c < length (chans b) then fst (receive b c) else b))"

fun bus_run :: "bus \<Rightarrow> bus_op list \<Rightarrow> outcome \<times> bus" where
  "bus_run b [] = (Done, b)"
| "bus_run b (op # ops) =
     (case bus_op_step b op of (Done, b') \<Rightarrow> bus_run b' ops | (Panic, b') \<Rightarrow> (Panic, b'))"

lemma bus_op_step_ok: "bus_ok b \<Longrightarrow> fst (bus_op_step b op) = Done \<and> bus_ok (snd (bus_op_step b op))"
  by (cases op) (auto simp: bus_op_step_def Subscribe_ok Publish_ok Close_ok receive_ok)

lemma bus_run_ok: "bus_ok b \<Longrightarrow> fst (bus_run b ops) = Done \<and> bus_ok (snd (bus_run b ops))"
proof (induction ops arbitrary: b)
  case (Cons op ops)
  obtain r b' where "bus_op_step b op = (r, b')" by fastforce
  with bus_op_step_ok [OF Cons.prems, of op] Cons.IH [of b'] show ?case by auto
qed simp

section \<open>Interleaved calls\<close>

datatype pub_pc = PStart event | PLoaded event | PLoop event "nat list" | PDone | PPanic

datatype close_pc = CStart | CSwapped | CLoop "nat list" | CDone | CPanic

record sys =
  sbus :: bus
  pubs :: "nat \<Rightarrow> pub_pc"
  closer :: close_pc

definition write_locked :: "sys \<Rightarrow> bool" where
  "write_locked s \<longleftrightarrow> (case closer s of CLoop _ \<Rightarrow> True | _ \<Rightarrow> False)"

definition set_chan :: "sys \<Rightarrow> nat \<Rightarrow> chan \<Rightarrow> sys" where
  "set_chan s c ch = s\<lparr>sbus := (sbus s)\<lparr>chans := (chans (sbus s))[c := ch]\<rparr>\<rparr>"

inductive bus_step :: "sys \<Rightarrow> sys \<Rightarrow> bool" where
  pub_closed: "pubs s i = PStart e \<Longrightarrow> closed (sbus s) \<Longrightarrow> bus_step s (s\<lparr>pubs := (pubs s)(i := PDone)\<rparr>)"
| pub_open: "pubs s i = PStart e \<Longrightarrow> \<not> closed (sbus s) \<Longrightarrow> bus_step s (s\<lparr>pubs := (pubs s)(i := PLoaded e)\<rparr>)"
| pub_read: "pubs s i = PLoaded e \<Longrightarrow> \<not> write_locked s \<Longrightarrow>
    bus_step s (s\<lparr>pubs := (pubs s)(i := PLoop e (subs_of (sbus s) (eventTagOf e)))\<rparr>)"
| pub_send: "pubs s i = PLoop e (c # cs) \<Longrightarrow> ch = chans (sbus s) ! c \<Longrightarrow> \<not> ch_closed ch \<Longrightarrow>
    length (buf ch) < bufferSize (sbus s) \<Longrightarrow>
    bus_step s (set_chan (s\<lparr>pubs := (pubs s)(i := PLoop e cs)\<rparr>) c (ch\<lparr>buf := buf ch @ [e]\<rparr>))"
| pub_drop: "pubs s i = PLoop e (c # cs) \<Longrightarrow> ch = chans (sbus s) ! c \<Longrightarrow> \<not> ch_closed ch \<Longrightarrow>
    \<not> length (buf ch) < bufferSize (sbus s) \<Longrightarrow> bus_step s (s\<lparr>pubs := (pubs s)(i := PLoop e cs)\<rparr>)"
| pub_panic: "pubs s i = PLoop e (c # cs) \<Longrightarrow> ch_closed (chans (sbus s) ! c) \<Longrightarrow>
    bus_step s (s\<lparr>pubs := (pubs s)(i := PPanic)\<rparr>)"
| pub_cancel: "pubs s i = PLoop e (c # cs) \<Longrightarrow> bus_step s (s\<lparr>pubs := (pubs s)(i := PDone)\<rparr>)"
| pub_end: "pubs s i = PLoop e [] \<Longrightarrow> bus_step s (s\<lparr>pubs := (pubs s)(i := PDone)\<rparr>)"
| recv: "c < length (chans (sbus s)) \<Longrightarrow> bus_step s (s\<lparr>sbus := fst (receive (sbus s) c)\<rparr>)"
| subscribe: "\<not> write_locked s \<Longrightarrow> bus_step s (s\<lparr>sbus := fst (Subscribe (sbus s) tag)\<rparr>)"
| close_swap: "closer s = CStart \<Longrightarrow> \<not> closed (sbus s) \<Longrightarrow>
    bus_step s (s\<lparr>closer := CSwapped, sbus := (sbus s)\<lparr>closed := True\<rparr>\<rparr>)"
| close_lock: "closer s = CSwapped \<Longrightarrow> bus_step s (s\<lparr>closer := CLoop (all_subs (sbus s))\<rparr>)"
| close_one: "closer s = CLoop (c # cs) \<Longrightarrow> ch = chans (sbus s) ! c \<Longrightarrow> \<not> ch_closed ch \<Longrightarrow>
    bus_step s (set_chan (s\<lparr>closer := CLoop cs\<rparr>) c (ch\<lparr>ch_closed := True\<rparr>))"
| close_panic: "closer s = CLoop (c # cs) \<Longrightarrow> ch_closed (chans (sbus s) ! c) \<Longrightarrow>
    bus_step s (s\<lparr>closer := CPanic\<rparr>)"
| close_end: "closer s = CLoop [] \<Longrightarrow>
    bus_step s (s\<lparr>closer := CDone, sbus := (sbus s)\<lparr>subscribers := []\<rparr>\<rparr>)"

inductive bus_reach :: "int \<Rightarrow> (nat \<Rightarrow> event) \<Rightarrow> sys \<Rightarrow> bool" for n evs where
  init: "bus_reach n evs \<lparr>sbus = NewBus n, pubs = (\<lambda>i. PStart (evs i)), closer = CStart\<rparr>"
| step: "bus_reach n evs s \<Longrightarrow> bus_step s t \<Longrightarrow> bus_reach n evs t"

text \<open>What the interleavings keep: the first conjuncts are about the heap, the rest about Close.\<close>

definition heap_ok :: "sys \<Rightarrow> bool" where
  "heap_ok s \<longleftrightarrow> 0 < bufferSize (sbus s) \<and> (\<forall>ch \<in> set (chans (sbus s)). length (buf ch) \<le> bufferSize (sbus s))"

definition subs_ok :: "bus \<Rightarrow> bool" where
  "subs_ok b \<longleftrightarrow> distinct (map fst (subscribers b)) \<and> distinct (all_subs b) \<and>
     (\<forall>c \<in> set (all_subs b). c < length (chans b))"

definition close_ok :: "sys \<Rightarrow> bool" where
  "close_ok s \<longleftrightarrow>
     (case closer s of
        CStart \<Rightarrow> \<not> closed (sbus s) \<and> (\<forall>c \<in> set (all_subs (sbus s)). \<not> ch_closed (chans (sbus s) ! c))
      | CSwapped \<Rightarrow> closed (sbus s) \<and> (\<forall>c \<in> set (all_subs (sbus s)). \<not> ch_closed (chans (sbus s) ! c))
      | CLoop cs \<Rightarrow> closed (sbus s) \<and> distinct cs \<and>
          (\<forall>c \<in> set cs. c < length (chans (sbus s)) \<and> \<not> ch_closed (chans (sbus s) ! c))
      | CDone \<Rightarrow> closed (sbus s)
      | CPanic \<Rightarrow> False)"

definition panic_ok :: "sys \<Rightarrow> bool" where
  "panic_ok s \<longleftrightarrow> (\<forall>i. pubs s i = PPanic \<longrightarrow> closed (sbus s)) \<and>
     (\<not> closed (sbus s) \<longrightarrow> (\<forall>i e cs. pubs s i = PLoop e cs \<longrightarrow>
        (\<forall>c \<in> set cs. c < length (chans (sbus s)) \<and> \<not> ch_closed (chans (sbus s) ! c))))"

definition conc_inv :: "sys \<Rightarrow> bool" where
  "conc_inv s \<longleftrightarrow> heap_ok s \<and> subs_ok (sbus s) \<and> close_ok s \<and> panic_ok s"

lemma Subscribe_frame [simp]:
  "closed (fst (Subscribe b tag)) = closed b"
  "bufferSize (fst (Subscribe b tag)) = bufferSize b"
  "chans (fst (Subscribe b tag)) = chans b @ [\<lparr>buf = [], ch_closed = closed b\<rparr>]"
  by (simp_all add: Subscribe_def Let_def)

lemma all_subs_Subscribe:
  "c \<in> set (all_subs (fst (Subscribe b tag))) \<Longrightarrow>
   (c = length (chans b) \<and> \<not> closed b) \<or> c \<in> set (all_subs b)"
  using concat_assoc_upd [of tag "subs_of b tag" "length (chans b)" "subscribers b"] subs_of_subset [of b tag]
  by (cases "closed b") (auto simp: Subscribe_def Let_def all_subs_def)

lemma subs_ok_Subscribe: "subs_ok b \<Longrightarrow> subs_ok (fst (Subscribe b tag))"
proof -
  assume ok: "subs_ok b"
  then have "distinct (all_subs (fst (Subscribe b tag)))"
    using distinct_concat_assoc_upd [of "subscribers b" "length (chans b)" tag]
    by (cases "closed b") (force simp: subs_ok_def Subscribe_def Let_def all_subs_def subs_of_def)+
  moreover have "distinct (map fst (subscribers (fst (Subscribe b tag))))"
    using ok by (auto simp: subs_ok_def Subscribe_def Let_def distinct_assoc_upd)
  ultimately show ?thesis using ok by (fastforce simp: subs_ok_def dest: all_subs_Subscribe)
qed

lemma receive_frame [simp]:
  "closed (fst (receive b c)) = closed b"
  "bufferSize (fst (receive b c)) = bufferSize b"
  "subscribers (fst (receive b c)) = subscribers b"
  "length (chans (fst (receive b c))) = length (chans b)"
  "ch_closed (chans (fst (receive b c)) ! d) = ch_closed (chans b ! d)"
  by (simp_all add: receive_def upd_nth_closed split: list.split)

lemma all_subs_simps [simp]:
  "all_subs (fst (receive b c)) = all_subs b"
  "all_subs (b\<lparr>chans := h\<rparr>) = all_subs b" "all_subs (b\<lparr>closed := x\<rparr>) = all_subs b"
  "all_subs (b\<lparr>subscribers := []\<rparr>) = []"
  by (simp_all add: all_subs_def)

lemma heap_ok_step: "bus_step s t \<Longrightarrow> heap_ok s \<Longrightarrow> heap_ok t"
proof (induction rule: bus_step.induct)
  case (recv c s)
  have "buf (chans (sbus s) ! c) = e # es \<Longrightarrow> length (e # es) \<le> bufferSize (sbus s)" for e es
    using recv by (metis heap_ok_def nth_mem)
  with recv show ?case
    by (auto simp: heap_ok_def receive_def split: list.splits dest!: set_update_subset_insert [THEN subsetD])
next
  case (close_one s c cs ch)
  show ?case
  proof (cases "c < length (chans (sbus s))")
    case True
    then have "length (buf (chans (sbus s) ! c)) \<le> bufferSize (sbus s)" using close_one.prems by (auto simp: heap_ok_def)
    with close_one show ?thesis
      by (auto simp: heap_ok_def set_chan_def dest!: set_update_subset_insert [THEN subsetD])
  next
    case False
    with close_one show ?thesis by (simp add: heap_ok_def set_chan_def list_update_beyond)
  qed
qed (auto simp: heap_ok_def set_chan_def dest!: set_update_subset_insert [THEN subsetD])

lemma subs_ok_step: "bus_step s t \<Longrightarrow> subs_ok (sbus s) \<Longrightarrow> subs_ok (sbus t)"
  by (induction rule: bus_step.induct)
    (auto simp: subs_ok_Subscribe set_chan_def, auto simp: subs_ok_def)

lemma close_ok_step: "bus_step s t \<Longrightarrow> subs_ok (sbus s) \<Longrightarrow> close_ok s \<Longrightarrow> close_ok t"
proof (induction rule: bus_step.induct)
  case (subscribe s tag)
  have nth: "c < length (chans (sbus s)) \<Longrightarrow> chans (fst (Subscribe (sbus s) tag)) ! c = chans (sbus s) ! c" for c
    by (simp add: nth_append)
  from subscribe show ?case
    by (cases "closer s")
      (auto simp: close_ok_def write_locked_def subs_ok_def nth nth_append dest!: all_subs_Subscribe)
next
  case (close_one s c cs ch)
  then show ?case by (auto simp: close_ok_def set_chan_def nth_list_update)
qed (auto simp: close_ok_def set_chan_def upd_nth_closed subs_ok_def split: close_pc.splits)

lemma panic_ok_step: "bus_step s t \<Longrightarrow> subs_ok (sbus s) \<Longrightarrow> close_ok s \<Longrightarrow> panic_ok s \<Longrightarrow> panic_ok t"
proof (induction rule: bus_step.induct)
  case (pub_read s i e)
  have "\<not> closed (sbus s) \<Longrightarrow> \<forall>c \<in> set (all_subs (sbus s)). c < length (chans (sbus s)) \<and> \<not> ch_closed (chans (sbus s) ! c)"
    using pub_read.prems by (auto simp: close_ok_def subs_ok_def split: close_pc.splits)
  with pub_read show ?case
    using subs_of_subset [of "sbus s" "eventTagOf e"] by (auto simp: panic_ok_def)
next
  case (pub_panic s i e c cs)
  then show ?case by (auto simp: panic_ok_def)
next
  case (subscribe s tag)
  then show ?case by (fastforce simp: panic_ok_def nth_append)
next
  case (pub_send s i e c cs ch)
  then show ?case by (auto simp: panic_ok_def set_chan_def upd_nth_closed)
next
  case (pub_drop s i e c cs ch)
  then show ?case by (auto simp: panic_ok_def)
next
  case (close_one s c cs ch)
  then show ?case by (auto simp: panic_ok_def close_ok_def set_chan_def)
qed (auto simp: panic_ok_def)

lemma conc_inv_reach: "bus_reach n evs s \<Longrightarrow> conc_inv s"
proof (induction rule: bus_reach.induct)
  case init
  show ?case
    by (simp add: conc_inv_def heap_ok_def subs_ok_def close_ok_def panic_ok_def NewBus_def all_subs_def)
next
  case (step s t)
  then show ?case
    by (auto simp: conc_inv_def intro: heap_ok_step subs_ok_step close_ok_step panic_ok_step)
qed

section \<open>Properties\<close>

text \<open>
  C1: Publish on an open bus, with a context that is not cancelled, appends the event to the
  buffer of every subscriber of the event's tag that has room, leaves the buffers that are
  full and the channels of all other tags as they are, and never panics.
\<close>

theorem Publish_delivers:
  assumes "bus_ok b" "\<not> closed b"
  shows "Publish False pick b e =
    (Done, b\<lparr>chans := map (\<lambda>c. if c \<in> set (subs_of b (eventTagOf e))
        then deliver (bufferSize b) e (chans b ! c) else chans b ! c) [0..<length (chans b)]\<rparr>)"
proof -
  have "\<forall>c \<in> set (subs_of b (eventTagOf e)). c < length (chans b) \<and> \<not> ch_closed (chans b ! c)"
    using assms subs_of_subset [of b "eventTagOf e"] by (auto simp: bus_ok_def)
  with publish_loop_delivers [OF distinct_subs_of [OF assms(1)]] assms show ?thesis
    by (simp add: Publish_def)
qed

theorem Publish_delivers_witness:
  "bus_ok (fst (Subscribe (NewBus 1) ''file.removed'')) \<and>
   \<not> closed (fst (Subscribe (NewBus 1) ''file.removed'')) \<and>
   chans (snd (Publish False (\<lambda>_. False) (fst (Subscribe (NewBus 1) ''file.removed'')) (FileRemoved 7))) =
     [\<lparr>buf = [FileRemoved 7], ch_closed = False\<rparr>]"
proof -
  let ?b = "fst (Subscribe (NewBus 1) ''file.removed'')"
  have h: "bus_ok ?b" "\<not> closed ?b" by (simp_all add: Subscribe_ok NewBus_ok, simp add: NewBus_def)
  have c: "chans ?b = [\<lparr>buf = [], ch_closed = False\<rparr>]" "bufferSize ?b = 1"
    "subs_of ?b ''file.removed'' = [0]"
    by (simp_all add: NewBus_def) (simp add: Subscribe_def subs_of_def)
  from h c show ?thesis
    by (simp add: Publish_delivers [OF h, of "\<lambda>_. False" "FileRemoved 7"] deliver_def)
qed

text \<open>
  in any sequence of completed Subscribe, Publish, Close and receive calls on a new bus no
  call panics, every buffer stays within the configured size (at least 1), and every registered
  channel is open.
\<close>

theorem bus_run_safe:
  "fst (bus_run (NewBus n) ops) = Done \<and> bus_ok (snd (bus_run (NewBus n) ops))"
  by (rule bus_run_ok [OF NewBus_ok])

text \<open>
  C2: under every interleaving of concurrent publishers, subscribers, receivers and one Close, all
  buffers stay within the configured size, Close never closes a channel twice, and a publisher
  can only have panicked once the bus is closed.
\<close>

theorem bus_concurrent_safe:
  assumes "bus_reach n evs s"
  shows "(\<forall>ch \<in> set (chans (sbus s)). length (buf ch) \<le> bufferSize (sbus s)) \<and> closer s \<noteq> CPanic \<and>
    (\<forall>i. pubs s i = PPanic \<longrightarrow> closed (sbus s))"
  using conc_inv_reach [OF assms]
  by (auto simp: conc_inv_def heap_ok_def close_ok_def panic_ok_def split: close_pc.splits)

lemma publish_close_race_run:
  "\<exists>s. bus_reach 1 (\<lambda>_. FilePublished 1) s \<and> pubs s 0 = PPanic \<and>
     chans (sbus s) = [\<lparr>buf = [], ch_closed = True\<rparr>]"
proof -
  let ?tag = "''file.published''" and ?e = "FilePublished 1"
  let ?R = "bus_reach 1 (\<lambda>_. ?e)"
  let ?b1 = "fst (Subscribe (NewBus 1) ?tag)"
  have b1: "chans ?b1 = [\<lparr>buf = [], ch_closed = False\<rparr>]" "\<not> closed ?b1"
    "subs_of ?b1 ?tag = [0]" "all_subs ?b1 = [0]"
    by (simp_all add: NewBus_def) (simp_all add: Subscribe_def subs_of_def all_subs_def)
  let ?s1 = "\<lparr>sbus = ?b1, pubs = (\<lambda>i. PStart ?e), closer = CStart\<rparr>"
  have 1: "?R ?s1"
    using bus_reach.step [OF bus_reach.init bus_step.subscribe [of _ ?tag], of 1 "\<lambda>_. ?e"]
    by (simp add: write_locked_def)
  let ?p2 = "(\<lambda>i. PStart ?e)(0 := PLoaded ?e)"
  have 2: "?R (?s1\<lparr>pubs := ?p2\<rparr>)"
    using bus_reach.step [OF 1 bus_step.pub_open [of ?s1 0 ?e]] b1 by simp
  let ?p3 = "?p2(0 := PLoop ?e [0])"
  have 3: "?R (?s1\<lparr>pubs := ?p3\<rparr>)"
    using bus_reach.step [OF 2 bus_step.pub_read [of _ 0 ?e]] b1 by (simp add: write_locked_def)
  let ?s4 = "?s1\<lparr>pubs := ?p3, closer := CSwapped, sbus := ?b1\<lparr>closed := True\<rparr>\<rparr>"
  have 4: "?R ?s4" using bus_reach.step [OF 3 bus_step.close_swap] b1 by simp
  let ?s5 = "?s4\<lparr>closer := CLoop [0]\<rparr>"
  have 5: "?R ?s5" using bus_reach.step [OF 4 bus_step.close_lock] b1 by simp
  let ?s6 = "set_chan (?s5\<lparr>closer := CLoop []\<rparr>) 0 \<lparr>buf = [], ch_closed = True\<rparr>"
  have 6: "?R ?s6" using bus_reach.step [OF 5 bus_step.close_one [of ?s5 0 "[]"]] b1 by simp
  have "?R (?s6\<lparr>pubs := (pubs ?s6)(0 := PPanic)\<rparr>)"
    by (rule bus_reach.step [OF 6 bus_step.pub_panic [of _ 0 ?e 0 "[]"]]) (simp_all add: set_chan_def b1)
  then show ?thesis by (intro exI conjI, assumption) (simp_all add: set_chan_def NewBus_def)
qed

theorem bus_concurrent_safe_witness:
  "\<exists>s. bus_reach 1 (\<lambda>_. FilePublished 1) s \<and> closer s \<noteq> CPanic \<and> closed (sbus s)"
  using publish_close_race_run bus_concurrent_safe [of 1 "\<lambda>_. FilePublished 1"] by blast

text \<open>
  Publish and Close race. Publish loads the closed flag and reads the subscriber list before
  it sends, and the sends are outside of the lock; a Close that runs in between closes the
  channel, and the send then panics. There is a run in which a publisher panics.
\<close>

theorem publish_close_race:
  "\<exists>n evs s i. bus_reach n evs s \<and> pubs s i = PPanic"
  using publish_close_race_run by blast

end
