(* ===== verification/File_Registry.thy ===== *)
theory File_Registry
  imports Token File_Repo Event_Bus
begin

text \<open>
  The file registry, src/internal/service/file_registry.go, the backfill of public tokens,
  src/internal/service/token.go, and the share links, src/internal/service/share_link.go.

  The state of a registry call is the database, the bus (possibly nil) and the random draws still
  to come; \<^const>\<open>None\<close> means that the draws given are not enough for the call to return. The
  constraints of the tables are those of the migrations: in particular the CHECK on files.status
  has no value 'deleted'.
\<close>

section \<open>Registration\<close>

record registry =
  rg_db :: database
  rg_bus :: "bus option"
  rg_draws :: "nat list list"

datatype reg_err = EmptyLocalPath | EmptySourceType | EmptyCategory | RToken token_err | RSql sql_err | FileNotFound int | BusPanic

definition rg_publish :: "event \<Rightarrow> registry \<Rightarrow> registry \<times> outcome" where
  "rg_publish e s = (case rg_bus s of None \<Rightarrow> (s, Done)
     | Some b \<Rightarrow> (case Publish False (\<lambda>_. False) b e of (r, b') \<Rightarrow> (s\<lparr>rg_bus := Some b'\<rparr>, r)))"

definition insert_file :: "file_row \<Rightarrow> database \<Rightarrow> database \<times> (sql_err + int)" where
  "insert_file f d =
     (if f_status f \<notin> set file_statuses then (d, Inl (CheckViolation ''files.status''))
      else if (case f_public_token f of None \<Rightarrow> False | Some t \<Rightarrow> TokenExists d t) then (d, Inl (UniqueViolation ''files.public_token''))
      else if \<not> has_row p_id (t_projects d) (f_project_id f) then (d, Inl (ForeignKey ''files.project_id''))
      else let i = seq_files d + 1 in (d\<lparr>t_files := t_files d @ [f\<lparr>f_id := i\<rparr>], seq_files := i\<rparr>, Inr i))"

definition RegisterFile ::
  "string \<Rightarrow> string \<Rightarrow> string \<Rightarrow> string \<Rightarrow> int \<Rightarrow> string \<Rightarrow> string \<Rightarrow> int \<Rightarrow> string \<Rightarrow> registry \<Rightarrow> (registry \<times> (reg_err + int)) option" where
  "RegisterFile sourceType category storageSubdir localPath projectID filename version sizeBytes checksum s =
     (if localPath = [] then Some (s, Inl EmptyLocalPath)
      else if sourceType = [] then Some (s, Inl EmptySourceType)
      else if category = [] then Some (s, Inl EmptyCategory)
      else case row_by f_local_path (t_files (rg_db s)) localPath of
        Some f \<Rightarrow> Some (s, Inr (f_id f))
      | None \<Rightarrow>
          (case GeneratePublicToken (TokenExists (rg_db s)) (rg_draws s) of
             None \<Rightarrow> None
           | Some (Inl e, rest) \<Rightarrow> Some (s\<lparr>rg_draws := rest\<rparr>, Inl (RToken e))
           | Some (Inr token, rest) \<Rightarrow>
               (case insert_file
                  \<lparr>f_id = 0, f_project_id = projectID, f_version = version, f_filename = filename, f_os = [], f_arch = [], f_ext = [],
                   f_size_bytes = sizeBytes, f_download_url = [], f_local_path = localPath, f_checksum = checksum, f_status = ''complete'',
                   f_error_message = [], f_created_at = sql_now (rg_db s), f_retry_count = 0, f_last_attempt_at = None,
                   f_source_type = Some sourceType, f_category = Some category, f_storage_subdir = Some storageSubdir,
                   f_public_token = Some token\<rparr> (rg_db s) of
                  (d, Inl e) \<Rightarrow> Some (s\<lparr>rg_draws := rest, rg_db := d\<rparr>, Inl (RSql e))
                | (d, Inr newID) \<Rightarrow>
                    (case rg_publish (FilePublished newID) (s\<lparr>rg_draws := rest, rg_db := d\<rparr>) of
                       (t, Done) \<Rightarrow> Some (t, Inr newID)
                     | (t, Panic) \<Rightarrow> Some (t, Inl BusPanic)))))"

definition SoftDelete :: "int \<Rightarrow> registry \<Rightarrow> registry \<times> (reg_err + unit)" where
  "SoftDelete fileID s =
     (case update_file fileID (\<lambda>f. f\<lparr>f_status := ''deleted''\<rparr>) (rg_db s) of
        (d, Inl e) \<Rightarrow> (s\<lparr>rg_db := d\<rparr>, Inl (RSql e))
      | (d, Inr u) \<Rightarrow>
          if \<not> has_row f_id (t_files (rg_db s)) fileID then (s\<lparr>rg_db := d\<rparr>, Inl (FileNotFound fileID))
          else (case rg_publish (FileRemoved fileID) (s\<lparr>rg_db := d\<rparr>) of
                  (t, Done) \<Rightarrow> (t, Inr ()) | (t, Panic) \<Rightarrow> (t, Inl BusPanic)))"

section \<open>Backfill of public tokens\<close>

definition backfillBatchSize :: nat where
  "backfillBatchSize = 500"

text \<open>A token that the checker does not know and that this batch has not used; every turn of the
  loop uses up at least one draw, so the number of draws bounds the turns.\<close>

fun unused_token :: "nat \<Rightarrow> string list \<Rightarrow> (string \<Rightarrow> bool) \<Rightarrow> nat list list \<Rightarrow> ((token_err + string) \<times> nat list list) option" where
  "unused_token 0 used ex draws = None"
| "unused_token (Suc k) used ex draws =
     (case GeneratePublicToken ex draws of
        None \<Rightarrow> None
      | Some (Inl e, rest) \<Rightarrow> Some (Inl e, rest)
      | Some (Inr token, rest) \<Rightarrow> if token \<in> set used then unused_token k used ex rest else Some (Inr token, rest))"

fun backfill_batch :: "int list \<Rightarrow> string list \<Rightarrow> database \<Rightarrow> nat list list \<Rightarrow> (database \<times> nat list list \<times> (reg_err + unit)) option" where
  "backfill_batch [] used d draws = Some (d, draws, Inr ())"
| "backfill_batch (i # ids) used d draws =
     (case unused_token (Suc (length draws)) used (TokenExists d) draws of
        None \<Rightarrow> None
      | Some (Inl e, rest) \<Rightarrow> Some (d, rest, Inl (RToken e))
      | Some (Inr token, rest) \<Rightarrow>
          if \<exists>f \<in> set (t_files d). f_id f \<noteq> i \<and> f_public_token f = Some token
          then Some (d, rest, Inl (RSql (UniqueViolation ''files.public_token'')))
          else backfill_batch ids (token # used) (d\<lparr>t_files := upd_row f_id i (\<lambda>f. f\<lparr>f_public_token := Some token\<rparr>) (t_files d)\<rparr>) rest)"

definition null_token_ids :: "database \<Rightarrow> int list" where
  "null_token_ids d = map f_id (filter (\<lambda>f. f_public_token f = None) (t_files d))"

text \<open>Batches until no NULL is left; a failed batch is rolled back. Each batch fills at least one
  row, so the number of rows bounds the batches.\<close>

fun backfill_loop :: "nat \<Rightarrow> database \<Rightarrow> nat list list \<Rightarrow> (database \<times> nat list list \<times> (reg_err + unit)) option" where
  "backfill_loop 0 d draws = None"
| "backfill_loop (Suc k) d draws =
     (let ids = take backfillBatchSize (null_token_ids d) in
      if ids = [] then Some (d, draws, Inr ())
      else case backfill_batch ids [] d draws of
        None \<Rightarrow> None
      | Some (d', rest, Inl e) \<Rightarrow> Some (d, rest, Inl e)
      | Some (d', rest, Inr u) \<Rightarrow> backfill_loop k d' rest)"

definition BackfillPublicTokens :: "database \<Rightarrow> nat list list \<Rightarrow> (database \<times> nat list list \<times> (reg_err + unit)) option" where
  "BackfillPublicTokens d draws = backfill_loop (Suc (length (t_files d))) d draws"

section \<open>Share links\<close>

datatype share_err = ShareNotFound | ShareExpired | ShareExhausted | NoShareToken | ShareSql sql_err

fun randomShareToken :: "nat list list \<Rightarrow> (string \<times> nat list list) option" where
  "randomShareToken [] = None"
| "randomShareToken (bytes # draws) =
     (let encoded = base58Encode bytes in Some (if 22 < length encoded then take 22 encoded else encoded, draws))"

fun share_attempts :: "nat \<Rightarrow> database \<Rightarrow> nat list list \<Rightarrow> ((share_err + string) \<times> nat list list) option" where
  "share_attempts 0 d draws = Some (Inl NoShareToken, draws)"
| "share_attempts (Suc k) d draws =
     (case randomShareToken draws of
        None \<Rightarrow> None
      | Some (token, rest) \<Rightarrow> if has_row sl_token (t_share_links d) token then share_attempts k d rest else Some (Inr token, rest))"

definition generateShareToken :: "database \<Rightarrow> nat list list \<Rightarrow> ((share_err + string) \<times> nat list list) option" where
  "generateShareToken d draws = share_attempts 5 d draws"

definition share_Create ::
  "int \<Rightarrow> int \<Rightarrow> int option \<Rightarrow> int \<Rightarrow> string \<Rightarrow> database \<Rightarrow> nat list list \<Rightarrow> (database \<times> nat list list \<times> (share_err + share_link)) option" where
  "share_Create now fileID expiresAt maxDownloads note d draws =
     (case generateShareToken d draws of
        None \<Rightarrow> None
      | Some (Inl e, rest) \<Rightarrow> Some (d, rest, Inl e)
      | Some (Inr token, rest) \<Rightarrow>
          (let l = \<lparr>sl_token = token, sl_file_id = fileID, sl_expires_at = expiresAt, sl_max_downloads = maxDownloads,
                    sl_download_count = 0, sl_note = note, sl_created_at = now\<rparr> in
           if has_row sl_token (t_share_links d) token then Some (d, rest, Inl (ShareSql (UniqueViolation ''share_links.token'')))
           else if \<not> has_row f_id (t_files d) fileID then Some (d, rest, Inl (ShareSql (ForeignKey ''share_links.file_id'')))
           else Some (d\<lparr>t_share_links := t_share_links d @ [l]\<rparr>, rest, Inr l)))"

definition share_Validate :: "int \<Rightarrow> string \<Rightarrow> database \<Rightarrow> database \<times> (share_err + int)" where
  "share_Validate now token d =
     (case row_by sl_token (t_share_links d) token of
        None \<Rightarrow> (d, Inl ShareNotFound)
      | Some l \<Rightarrow>
          if (case sl_expires_at l of None \<Rightarrow> False | Some t \<Rightarrow> t < now) then (d, Inl ShareExpired)
          else if sl_max_downloads l > 0 \<and> sl_download_count l \<ge> sl_max_downloads l then (d, Inl ShareExhausted)
          else (d\<lparr>t_share_links := upd_row sl_token token (\<lambda>l. l\<lparr>sl_download_count := sl_download_count l + 1\<rparr>) (t_share_links d)\<rparr>,
                Inr (sl_file_id l)))"

definition share_Revoke :: "string \<Rightarrow> database \<Rightarrow> database \<times> (share_err + unit)" where
  "share_Revoke token d =
     (d\<lparr>t_share_links := filter (\<lambda>l. sl_token l \<noteq> token) (t_share_links d)\<rparr>,
      if has_row sl_token (t_share_links d) token then Inr () else Inl ShareNotFound)"

definition share_List :: "database \<Rightarrow> share_link list" where
  "share_List d = sort_key_desc sl_created_at (t_share_links d)"

definition share_GetByToken :: "string \<Rightarrow> database \<Rightarrow> share_err + share_link" where
  "share_GetByToken token d = (case row_by sl_token (t_share_links d) token of None \<Rightarrow> Inl ShareNotFound | Some l \<Rightarrow> Inr l)"

section \<open>Registration: lemmas\<close>

lemma TokenExists_iff: "TokenExists d t \<longleftrightarrow> Some t \<in> f_public_token ` set (t_files d)"
  by (force simp: TokenExists_def)

definition tokens_ok :: "database \<Rightarrow> bool" where
  "tokens_ok d \<longleftrightarrow> distinct (filter (\<lambda>t. t \<noteq> None) (map f_public_token (t_files d)))"

lemma SoftDelete_unchanged: "fst (SoftDelete i s) = s \<and> (\<exists>e. snd (SoftDelete i s) = Inl e \<and> e \<noteq> BusPanic)"
proof (cases "has_row f_id (t_files (rg_db s)) i")
  case True
  then show ?thesis by (auto simp: SoftDelete_def update_file_def file_statuses_def)
next
  case False
  then show ?thesis by (auto simp: SoftDelete_def update_file_def upd_row_absent)
qed

text \<open>
  SoftDelete never succeeds. The status it writes is not allowed by the table, so for an
  existing file the statement fails, for a missing one the call reports it; the database is
  unchanged and no event is published in either case.
\<close>
theorem SoftDelete_never_succeeds:
  "fst (SoftDelete i s) = s \<and> (\<exists>e. snd (SoftDelete i s) = Inl e)"
  using SoftDelete_unchanged by blast

lemma row_by_snoc_new: "row_by key rows k = None \<Longrightarrow> key r = k \<Longrightarrow> row_by key (rows @ [r]) k = Some r"
  by simp

lemma rg_publish_db [simp]: "rg_db (fst (rg_publish e s)) = rg_db s" "rg_draws (fst (rg_publish e s)) = rg_draws s"
  by (auto simp: rg_publish_def split: option.splits prod.splits)

lemma insert_file_InrD:
  "insert_file f d = (d', Inr i) \<Longrightarrow> t_files d' = t_files d @ [f\<lparr>f_id := i\<rparr>] \<and> i = seq_files d + 1 \<and>
   seq_files d' = i \<and> (\<forall>t. f_public_token f = Some t \<longrightarrow> \<not> TokenExists d t)"
  by (auto simp: insert_file_def Let_def split: if_splits option.splits)

lemma insert_file_db:
  "insert_file f d = (d', r) \<Longrightarrow> d' = d \<or> (\<exists>row i. d' = d\<lparr>t_files := t_files d @ [row], seq_files := i\<rparr>)"
  by (auto simp: insert_file_def Let_def split: if_splits option.splits)

lemma RegisterFile_db:
  assumes "RegisterFile st cat sub lp pid fn v sz ck s = Some (t, r)"
  shows "rg_db t = rg_db s \<or> (\<exists>row i. rg_db t = (rg_db s)\<lparr>t_files := t_files (rg_db s) @ [row], seq_files := i\<rparr>)"
proof -
  have pub: "rg_db u = d" if "rg_publish e (x\<lparr>rg_draws := rest, rg_db := d\<rparr>) = (u, o')" for e x rest d u o'
    using rg_publish_db(1) [of e "x\<lparr>rg_draws := rest, rg_db := d\<rparr>"] that by simp
  show ?thesis using assms unfolding RegisterFile_def
    by (auto split: if_splits option.splits sum.splits prod.splits outcome.splits dest!: insert_file_db pub; blast)
qed

definition registered_row :: "string \<Rightarrow> string \<Rightarrow> string \<Rightarrow> string \<Rightarrow> int \<Rightarrow> string \<Rightarrow> string \<Rightarrow> int \<Rightarrow> string \<Rightarrow> string \<Rightarrow> database \<Rightarrow> file_row" where
  "registered_row st cat sub lp pid fn v sz ck token d =
     \<lparr>f_id = seq_files d + 1, f_project_id = pid, f_version = v, f_filename = fn, f_os = [], f_arch = [], f_ext = [],
      f_size_bytes = sz, f_download_url = [], f_local_path = lp, f_checksum = ck, f_status = ''complete'',
      f_error_message = [], f_created_at = sql_now d, f_retry_count = 0, f_last_attempt_at = None,
      f_source_type = Some st, f_category = Some cat, f_storage_subdir = Some sub, f_public_token = Some token\<rparr>"

lemma RegisterFile_new:
  assumes "lp \<noteq> []" "st \<noteq> []" "cat \<noteq> []" "row_by f_local_path (t_files (rg_db s)) lp = None"
    and g: "GeneratePublicToken (TokenExists (rg_db s)) (rg_draws s) = Some (Inr token, rest)" "\<not> TokenExists (rg_db s) token"
    and pid: "has_row p_id (t_projects (rg_db s)) pid"
    and bus: "\<forall>b. rg_bus s = Some b \<longrightarrow> bus_ok b"
  shows "\<exists>t. RegisterFile st cat sub lp pid fn v sz ck s = Some (t, Inr (seq_files (rg_db s) + 1)) \<and>
    rg_db t = (rg_db s)\<lparr>t_files := t_files (rg_db s) @ [registered_row st cat sub lp pid fn v sz ck token (rg_db s)], seq_files := seq_files (rg_db s) + 1\<rparr>"
proof -
  have pub: "snd (rg_publish e u) = Done" if "rg_bus u = rg_bus s" for e u
    using bus that Publish_ok by (auto simp: rg_publish_def split: option.splits prod.splits) (metis fst_conv)
  let ?d = "(rg_db s)\<lparr>t_files := t_files (rg_db s) @ [registered_row st cat sub lp pid fn v sz ck token (rg_db s)], seq_files := seq_files (rg_db s) + 1\<rparr>"
  let ?u = "s\<lparr>rg_draws := rest, rg_db := ?d\<rparr>"
  have "snd (rg_publish (FilePublished (seq_files (rg_db s) + 1)) ?u) = Done" by (rule pub) simp
  then obtain t where t: "rg_publish (FilePublished (seq_files (rg_db s) + 1)) ?u = (t, Done)"
    by (cases "rg_publish (FilePublished (seq_files (rg_db s) + 1)) ?u") simp
  have "rg_db t = ?d" using rg_publish_db(1) [of "FilePublished (seq_files (rg_db s) + 1)" ?u] t by simp
  moreover have "RegisterFile st cat sub lp pid fn v sz ck s = Some (t, Inr (seq_files (rg_db s) + 1))"
    using assms(1-4) g pid t by (simp add: RegisterFile_def insert_file_def file_statuses_def registered_row_def Let_def)
  ultimately show ?thesis by blast
qed

text \<open>
  Registration is idempotent. Whenever RegisterFile returns an id, a file with this id and the
  given path is in the table; if the path was registered before, nothing has changed, otherwise
  exactly one complete row was added, with a token no other file has; and calling it again with the
  same arguments returns the same id and changes nothing.
\<close>
theorem RegisterFile_idempotent:
  assumes "RegisterFile st cat sub lp pid fn v sz ck s = Some (t, Inr i)"
  shows "(\<exists>f \<in> set (t_files (rg_db t)). f_id f = i \<and> f_local_path f = lp) \<and>
    (has_row f_local_path (t_files (rg_db s)) lp \<longrightarrow> t = s) \<and>
    (\<not> has_row f_local_path (t_files (rg_db s)) lp \<longrightarrow>
      (\<exists>f token. t_files (rg_db t) = t_files (rg_db s) @ [f] \<and> f_status f = ''complete'' \<and> f_public_token f = Some token \<and>
         \<not> TokenExists (rg_db s) token \<and> f_id f = seq_files (rg_db s) + 1)) \<and>
    RegisterFile st cat sub lp pid fn v sz ck t = Some (t, Inr i)"
proof -
  have ne: "lp \<noteq> []" "st \<noteq> []" "cat \<noteq> []" using assms by (auto simp: RegisterFile_def split: if_splits)
  have again: "RegisterFile st cat sub lp pid fn v sz ck u = Some (u, Inr (f_id f))"
    if "row_by f_local_path (t_files (rg_db u)) lp = Some f" for u f
    using that ne by (simp add: RegisterFile_def)
  show ?thesis
  proof (cases "row_by f_local_path (t_files (rg_db s)) lp")
    case (Some f)
    then have "t = s" "i = f_id f" using assms ne by (auto simp: RegisterFile_def)
    then show ?thesis using Some again [OF Some] row_by_SomeD [OF Some] by (auto simp: image_iff)
  next
    case None
    then obtain token rest where g: "GeneratePublicToken (TokenExists (rg_db s)) (rg_draws s) = Some (Inr token, rest)"
      using assms ne by (auto simp: RegisterFile_def split: option.splits sum.splits)
    define row where "row = \<lparr>f_id = 0, f_project_id = pid, f_version = v, f_filename = fn, f_os = [], f_arch = [], f_ext = [],
                   f_size_bytes = sz, f_download_url = [], f_local_path = lp, f_checksum = ck, f_status = ''complete'',
                   f_error_message = [], f_created_at = sql_now (rg_db s), f_retry_count = 0, f_last_attempt_at = None,
                   f_source_type = Some st, f_category = Some cat, f_storage_subdir = Some sub, f_public_token = Some token\<rparr>"
    obtain d where d: "insert_file row (rg_db s) = (d, Inr i)" "rg_db t = d"
    proof -
      have "RegisterFile st cat sub lp pid fn v sz ck s = (case insert_file row (rg_db s) of
          (d, Inl e) \<Rightarrow> Some (s\<lparr>rg_draws := rest, rg_db := d\<rparr>, Inl (RSql e))
        | (d, Inr newID) \<Rightarrow> (case rg_publish (FilePublished newID) (s\<lparr>rg_draws := rest, rg_db := d\<rparr>) of
            (t, Done) \<Rightarrow> Some (t, Inr newID) | (t, Panic) \<Rightarrow> Some (t, Inl BusPanic)))"
        using ne None g unfolding RegisterFile_def row_def by simp
      then obtain d x where "insert_file row (rg_db s) = (d, Inr i)" "rg_publish (FilePublished i) (s\<lparr>rg_draws := rest, rg_db := d\<rparr>) = (t, Done)"
        using assms by (auto split: prod.splits sum.splits outcome.splits)
      then show ?thesis using that rg_publish_db(1) [of "FilePublished i" "s\<lparr>rg_draws := rest, rg_db := d\<rparr>"] by simp
    qed
    then have new: "t_files (rg_db t) = t_files (rg_db s) @ [row\<lparr>f_id := i\<rparr>]" "i = seq_files (rg_db s) + 1" "\<not> TokenExists (rg_db s) token"
      using insert_file_InrD [OF d(1)] by (simp_all add: row_def)
    have "row_by f_local_path (t_files (rg_db t)) lp = Some (row\<lparr>f_id := i\<rparr>)"
      unfolding new(1) using None by (simp add: row_def)
    from again [OF this] show ?thesis using new None by (auto simp: row_def row_by_None_iff)
  qed
qed

text \<open>A project and a registry over it, for the witnesses.\<close>

definition demo_registry :: registry where
  "demo_registry = \<lparr>rg_db = (empty_db 3)\<lparr>t_projects := [new_project ''m'' ''M'' ''manual_upload'' [] ''{}'' \<lparr>p_id := 1\<rparr>], seq_projects := 1\<rparr>,
     rg_bus = Some (NewBus 4), rg_draws = [short_draw, long_draw]\<rparr>"

lemma demo_token: "GeneratePublicToken (TokenExists (rg_db demo_registry)) [short_draw, long_draw] = Some (Inr (take 22 (base58Encode long_draw)), [])"
proof -
  have m: "maxTokenRetries = Suc 4" by (simp add: maxTokenRetries_def)
  have r: "randomToken [short_draw, long_draw] = Some (take 22 (base58Encode long_draw), [])"
    by (simp add: publicTokenLength_def draw_lengths Let_def)
  have e: "\<not> TokenExists (rg_db demo_registry) t" for t by (simp add: TokenExists_def demo_registry_def empty_db_def)
  show ?thesis unfolding GeneratePublicToken_def m token_attempts.simps(2) r using e by simp
qed

theorem RegisterFile_idempotent_witness:
  "\<exists>t. RegisterFile ''manual_upload'' ''manual'' ''webdav'' ''up/a'' 1 ''a'' [] 9 [] demo_registry = Some (t, Inr 1) \<and>
     RegisterFile ''manual_upload'' ''manual'' ''webdav'' ''up/a'' 1 ''a'' [] 9 [] t = Some (t, Inr 1)"
proof -
  have "rg_draws demo_registry = [short_draw, long_draw]" "t_files (rg_db demo_registry) = []" "seq_files (rg_db demo_registry) = 0"
    "p_id ` set (t_projects (rg_db demo_registry)) = {1}" "rg_bus demo_registry = Some (NewBus 4)"
    by (simp_all add: demo_registry_def empty_db_def new_project_def)
  then have "\<exists>t. RegisterFile ''manual_upload'' ''manual'' ''webdav'' ''up/a'' 1 ''a'' [] 9 [] demo_registry = Some (t, Inr 1)"
    using demo_token by (simp add: RegisterFile_def insert_file_def TokenExists_def file_statuses_def rg_publish_def Publish_def NewBus_def subs_of_def Let_def)
  then obtain t where t: "RegisterFile ''manual_upload'' ''manual'' ''webdav'' ''up/a'' 1 ''a'' [] 9 [] demo_registry = Some (t, Inr 1)" by blast
  from RegisterFile_idempotent [OF t] t show ?thesis by blast
qed

section \<open>Share links: lemmas\<close>

text \<open>Consecutive validations of one token, at the given times; the flags say which succeeded.\<close>

fun validate_run :: "string \<Rightarrow> int list \<Rightarrow> database \<Rightarrow> database \<times> bool list" where
  "validate_run token [] d = (d, [])"
| "validate_run token (now # ts) d =
     (let (d1, r) = share_Validate now token d; (d2, rs) = validate_run token ts d1 in (d2, (\<not> isl r) # rs))"

definition not_expired :: "share_link \<Rightarrow> int \<Rightarrow> bool" where
  "not_expired l now \<longleftrightarrow> (case sl_expires_at l of None \<Rightarrow> True | Some t \<Rightarrow> now \<le> t)"

lemma Validate_cases:
  assumes "row_by sl_token (t_share_links d) token = Some l"
  shows "share_Validate now token d =
    (if \<not> not_expired l now then (d, Inl ShareExpired)
     else if sl_max_downloads l > 0 \<and> sl_download_count l \<ge> sl_max_downloads l then (d, Inl ShareExhausted)
     else (d\<lparr>t_share_links := upd_row sl_token token (\<lambda>l. l\<lparr>sl_download_count := sl_download_count l + 1\<rparr>) (t_share_links d)\<rparr>,
           Inr (sl_file_id l)))"
  using assms by (auto simp: share_Validate_def not_expired_def not_less split: option.splits)

lemma Validate_row:
  assumes "row_by sl_token (t_share_links d) token = Some l" "\<not> isl (snd (share_Validate now token d))"
  shows "row_by sl_token (t_share_links (fst (share_Validate now token d))) token = Some (l\<lparr>sl_download_count := sl_download_count l + 1\<rparr>)"
  using assms row_by_SomeD [OF assms(1)] by (auto simp: Validate_cases row_by_upd_row split: if_splits)

lemma validate_run_count:
  assumes "row_by sl_token (t_share_links d) token = Some l"
  shows "row_by sl_token (t_share_links (fst (validate_run token ts d))) token =
      Some (l\<lparr>sl_download_count := sl_download_count l + int (length (filter (\<lambda>b. b) (snd (validate_run token ts d))))\<rparr>) \<and>
    (0 < sl_max_downloads l \<longrightarrow> sl_download_count l \<le> sl_max_downloads l \<longrightarrow>
      sl_download_count l + int (length (filter (\<lambda>b. b) (snd (validate_run token ts d)))) \<le> sl_max_downloads l) \<and>
    ((\<forall>t \<in> set ts. not_expired l t) \<longrightarrow> length (filter (\<lambda>b. b) (snd (validate_run token ts d))) =
      (if 0 < sl_max_downloads l then min (length ts) (nat (sl_max_downloads l - sl_download_count l)) else length ts)) \<and>
    (\<forall>k < length ts. snd (validate_run token ts d) ! k \<longrightarrow> not_expired l (ts ! k))"
  using assms
proof (induction ts arbitrary: d l)
  case (Cons now ts)
  let ?v = "share_Validate now token d"
  show ?case
  proof (cases "isl (snd ?v)")
    case True
    then have "fst ?v = d" and bad: "\<not> not_expired l now \<or> (sl_max_downloads l > 0 \<and> sl_download_count l \<ge> sl_max_downloads l)"
      using Validate_cases [OF Cons.prems, of now] by (auto split: if_splits)
    then have run: "validate_run token (now # ts) d = (fst (validate_run token ts d), False # snd (validate_run token ts d))"
      using True by (simp add: Let_def split_beta)
    note IH = Cons.IH [OF Cons.prems]
    have len: "(\<forall>t \<in> set (now # ts). not_expired l t) \<longrightarrow> length (filter (\<lambda>b. b) (snd (validate_run token ts d))) =
      (if 0 < sl_max_downloads l then min (length (now # ts)) (nat (sl_max_downloads l - sl_download_count l)) else length (now # ts))"
      using IH bad by auto
    have nth: "\<forall>k < length (now # ts). (False # snd (validate_run token ts d)) ! k \<longrightarrow> not_expired l ((now # ts) ! k)"
      using IH by (auto simp: nth_Cons split: nat.splits)
    show ?thesis unfolding run using IH len nth by auto
  next
    case False
    let ?l = "l\<lparr>sl_download_count := sl_download_count l + 1\<rparr>"
    have good: "not_expired l now" "\<not> (sl_max_downloads l > 0 \<and> sl_download_count l \<ge> sl_max_downloads l)"
      using False Validate_cases [OF Cons.prems, of now] by (auto split: if_splits)
    have run: "validate_run token (now # ts) d = (fst (validate_run token ts (fst ?v)), True # snd (validate_run token ts (fst ?v)))"
      using False by (simp add: Let_def split_beta)
    have ne: "not_expired ?l t = not_expired l t" for t by (simp add: not_expired_def)
    note IH = Cons.IH [OF Validate_row [OF Cons.prems False], unfolded ne]
    have len: "(\<forall>t \<in> set (now # ts). not_expired l t) \<longrightarrow> Suc (length (filter (\<lambda>b. b) (snd (validate_run token ts (fst ?v))))) =
      (if 0 < sl_max_downloads l then min (length (now # ts)) (nat (sl_max_downloads l - sl_download_count l)) else length (now # ts))"
    proof -
      have "nat (sl_max_downloads l - sl_download_count l) = Suc (nat (sl_max_downloads l - (sl_download_count l + 1)))"
        if "0 < sl_max_downloads l" using that good(2) by (simp add: Suc_nat_eq_nat_zadd1)
      then show ?thesis using IH by auto
    qed
    have nth: "\<forall>k < length (now # ts). (True # snd (validate_run token ts (fst ?v))) ! k \<longrightarrow> not_expired l ((now # ts) ! k)"
      using IH good(1) by (auto simp: nth_Cons split: nat.splits)
    have row: "row_by sl_token (t_share_links (fst (validate_run token ts (fst ?v)))) token =
      Some (l\<lparr>sl_download_count := sl_download_count l + int (Suc (length (filter (\<lambda>b. b) (snd (validate_run token ts (fst ?v))))))\<rparr>)"
      using IH by (simp add: add.commute add.left_commute)
    have max: "0 < sl_max_downloads l \<longrightarrow> sl_download_count l \<le> sl_max_downloads l \<longrightarrow>
      sl_download_count l + int (Suc (length (filter (\<lambda>b. b) (snd (validate_run token ts (fst ?v)))))) \<le> sl_max_downloads l"
      using IH good(2) by auto
    show ?thesis unfolding run using row max len nth by simp
  qed
qed simp

text \<open>
  C11: Share links. Among any validations of a link with a download limit, at any times, no more
  succeed than the limit leaves, and none succeeds after the expiry; before the expiry exactly the
  first ones up to the limit succeed (all of them without a limit); and the stored counter counts
  the successes.
\<close>
theorem share_link_limit:
  assumes "row_by sl_token (t_share_links d) token = Some l"
  shows "let ok = snd (validate_run token ts d); n = length (filter (\<lambda>b. b) ok) in
    row_by sl_token (t_share_links (fst (validate_run token ts d))) token = Some (l\<lparr>sl_download_count := sl_download_count l + int n\<rparr>) \<and>
    (0 < sl_max_downloads l \<and> sl_download_count l \<le> sl_max_downloads l \<longrightarrow> sl_download_count l + int n \<le> sl_max_downloads l) \<and>
    ((\<forall>t \<in> set ts. not_expired l t) \<longrightarrow>
       n = (if 0 < sl_max_downloads l then min (length ts) (nat (sl_max_downloads l - sl_download_count l)) else length ts)) \<and>
    (\<forall>k < length ts. ok ! k \<longrightarrow> not_expired l (ts ! k))"
  using validate_run_count [OF assms, of ts] unfolding Let_def by blast

definition demo_link :: share_link where
  "demo_link = \<lparr>sl_token = ''tok'', sl_file_id = 1, sl_expires_at = Some 10, sl_max_downloads = 2, sl_download_count = 0, sl_note = [], sl_created_at = 0\<rparr>"

theorem share_link_limit_witness:
  "row_by sl_token (t_share_links ((empty_db 0)\<lparr>t_share_links := [demo_link]\<rparr>)) ''tok'' = Some demo_link \<and>
   snd (validate_run ''tok'' [1, 2, 3, 11] ((empty_db 0)\<lparr>t_share_links := [demo_link]\<rparr>)) = [True, True, False, False] \<and>
   not_expired demo_link 2"
proof -
  have r: "row_by sl_token (t_share_links ((empty_db 0)\<lparr>t_share_links := [demo_link]\<rparr>)) ''tok'' = Some demo_link" by code_simp
  have v: "snd (validate_run ''tok'' [1, 2, 3, 11] ((empty_db 0)\<lparr>t_share_links := [demo_link]\<rparr>)) = [True, True, False, False]" by code_simp
  have "\<forall>k < length [1, 2, 3, 11 :: int]. [True, True, False, False] ! k \<longrightarrow> not_expired demo_link ([1, 2, 3, 11] ! k)"
    using share_link_limit [OF r, of "[1, 2, 3, 11]"] unfolding v Let_def by blast
  then have "not_expired demo_link 2" by (drule_tac spec [of _ 1]) simp
  then show ?thesis using r v by blast
qed

text \<open>
  A share token may be shorter than the 22 characters its documentation promises: the draw is
  encoded once and not repeated when its encoding is short, as it is for public tokens.
\<close>
theorem short_share_token:
  "\<exists>b t. length b = 16 \<and> set b \<subseteq> {..<256} \<and> generateShareToken (empty_db 0) [b] = Some (Inr t, []) \<and> length t = 21"
proof (intro exI conjI)
  show "length short_draw = 16" "set short_draw \<subseteq> {..<256}" by (simp_all add: short_draw_def)
  have "share_attempts (Suc 4) (empty_db 0) [short_draw] = Some (Inr (base58Encode short_draw), [])"
    unfolding share_attempts.simps(2) by (simp add: draw_lengths Let_def empty_db_def)
  then show "generateShareToken (empty_db 0) [short_draw] = Some (Inr (base58Encode short_draw), [])"
    by (simp add: generateShareToken_def)
qed (rule draw_lengths)

section \<open>Backfill: lemmas\<close>

text \<open>Two stages of the table: the same rows but for tokens that were NULL before.\<close>

definition filled :: "file_row \<Rightarrow> file_row \<Rightarrow> bool" where
  "filled f g \<longleftrightarrow> g = f\<lparr>f_public_token := f_public_token g\<rparr> \<and> (f_public_token f \<noteq> None \<longrightarrow> g = f)"

definition table_filled :: "database \<Rightarrow> database \<Rightarrow> bool" where
  "table_filled d d' \<longleftrightarrow> d' = d\<lparr>t_files := t_files d'\<rparr> \<and> list_all2 filled (t_files d) (t_files d')"

lemma filled_refl [simp]: "filled f f"
  by (simp add: filled_def)

lemma filled_trans: "filled f g \<Longrightarrow> filled g h \<Longrightarrow> filled f h"
  by (cases f; cases g; cases h) (auto simp: filled_def)

lemma table_filled_refl: "table_filled d d"
  by (simp add: table_filled_def list.rel_refl)

lemma table_filled_trans:
  assumes "table_filled d e" "table_filled e g"
  shows "table_filled d g"
proof -
  have "list_all2 filled (t_files d) (t_files g)"
    using assms list_all2_trans [of filled filled filled "t_files d" "t_files e" "t_files g"] filled_trans
    by (auto simp: table_filled_def)
  moreover have "g = d\<lparr>t_files := t_files g\<rparr>" using assms by (cases d; cases e; cases g) (simp add: table_filled_def)
  ultimately show ?thesis by (simp add: table_filled_def)
qed

lemma table_filled_ids: "table_filled d e \<Longrightarrow> map f_id (t_files e) = map f_id (t_files d)"
proof -
  assume "table_filled d e"
  then have "list_all2 filled (t_files d) (t_files e)" by (simp add: table_filled_def)
  then show ?thesis
    by (induction rule: list_all2_induct) (auto simp: filled_def, metis file_row.select_convs(1) file_row.surjective file_row.update_convs(20))
qed

definition set_token :: "int \<Rightarrow> string \<Rightarrow> database \<Rightarrow> database" where
  "set_token i token d = d\<lparr>t_files := upd_row f_id i (\<lambda>f. f\<lparr>f_public_token := Some token\<rparr>) (t_files d)\<rparr>"

lemma set_token_filled:
  assumes "\<forall>f \<in> set (t_files d). f_id f = i \<longrightarrow> f_public_token f = None"
  shows "table_filled d (set_token i t d)"
proof -
  have "list_all2 filled xs (upd_row f_id i (\<lambda>f. f\<lparr>f_public_token := Some t\<rparr>) xs)"
    if "\<forall>f \<in> set xs. f_id f = i \<longrightarrow> f_public_token f = None" for xs
    using that by (induction xs) (auto simp: filled_def)
  then show ?thesis using assms by (simp add: table_filled_def set_token_def)
qed

lemma distinct_set_token:
  assumes "distinct (map f_id fs)" "distinct (filter (\<lambda>t. t \<noteq> None) (map f_public_token fs))" "Some t \<notin> f_public_token ` set fs"
  shows "distinct (filter (\<lambda>t. t \<noteq> None) (map f_public_token (upd_row f_id i (\<lambda>f. f\<lparr>f_public_token := Some t\<rparr>) fs)))"
  using assms
proof (induction fs)
  case (Cons f fs)
  let ?u = "upd_row f_id i (\<lambda>f. f\<lparr>f_public_token := Some t\<rparr>) fs"
  show ?case
  proof (cases "f_id f = i")
    case True
    then have "?u = fs" using Cons.prems(1) by (intro upd_row_absent) auto
    then show ?thesis using Cons.prems True by (auto split: if_splits)
  next
    case False
    have "f_public_token ` set ?u \<subseteq> insert (Some t) (f_public_token ` set fs)" by (auto simp: set_upd_row split: if_splits)
    moreover have "f_public_token f \<noteq> Some t" using Cons.prems(3) by auto
    moreover have "f_public_token f \<noteq> None \<longrightarrow> f_public_token f \<notin> f_public_token ` set fs" using Cons.prems(2) by (auto split: if_splits)
    ultimately have "f_public_token f \<noteq> None \<longrightarrow> f_public_token f \<notin> f_public_token ` set ?u" by blast
    then show ?thesis using Cons False by (auto split: if_splits)
  qed
qed simp

lemma null_ids_set_token:
  "null_token_ids (set_token i t d) = filter (\<lambda>j. j \<noteq> i) (null_token_ids d)"
proof -
  have "map f_id (filter (\<lambda>f. f_public_token f = None) (upd_row f_id i (\<lambda>f. f\<lparr>f_public_token := Some t\<rparr>) xs)) =
      filter (\<lambda>j. j \<noteq> i) (map f_id (filter (\<lambda>f. f_public_token f = None) xs))" for xs
    by (induction xs) auto
  then show ?thesis by (simp add: null_token_ids_def set_token_def)
qed

lemma null_tokenD:
  assumes "distinct (map f_id (t_files d))" "i \<in> set (null_token_ids d)" "f \<in> set (t_files d)" "f_id f = i"
  shows "f_public_token f = None"
  using assms by (auto simp: null_token_ids_def distinct_map inj_on_def)

lemma backfill_batch_spec:
  assumes "backfill_batch ids used d draws = Some (d', rest, Inr ())" "distinct ids" "set ids \<subseteq> set (null_token_ids d)"
    "distinct (map f_id (t_files d))" "tokens_ok d"
  shows "table_filled d d' \<and> tokens_ok d' \<and> null_token_ids d' = filter (\<lambda>j. j \<notin> set ids) (null_token_ids d)"
  using assms
proof (induction ids used d draws rule: backfill_batch.induct)
  case (1 used d draws)
  then show ?case by (simp add: table_filled_refl)
next
  case (2 i ids used d draws)
  obtain token rest' where u: "unused_token (Suc (length draws)) used (TokenExists d) draws = Some (Inr token, rest')"
    and free: "\<not> (\<exists>f \<in> set (t_files d). f_id f \<noteq> i \<and> f_public_token f = Some token)"
    and rec: "backfill_batch ids (token # used) (set_token i token d) rest' = Some (d', rest, Inr ())"
    using 2(2) by (auto simp: set_token_def simp del: unused_token.simps split: option.splits sum.splits if_splits)
  have null: "\<forall>f \<in> set (t_files d). f_id f = i \<longrightarrow> f_public_token f = None" using 2(4,5) null_tokenD by auto
  let ?d = "set_token i token d"
  have fl: "table_filled d ?d" by (rule set_token_filled [OF null])
  have "Some token \<notin> f_public_token ` set (t_files d)" using free null by force
  then have tok: "tokens_ok ?d" using distinct_set_token [OF 2(5)] 2(6) by (simp add: tokens_ok_def set_token_def)
  have ids: "set ids \<subseteq> set (null_token_ids ?d)" using 2(3,4) by (auto simp: null_ids_set_token)
  have "table_filled ?d d' \<and> tokens_ok d' \<and> null_token_ids d' = filter (\<lambda>j. j \<notin> set ids) (null_token_ids ?d)"
    using 2(1) [OF u refl refl free] rec 2(3) ids table_filled_ids [OF fl] 2(5) tok by (simp add: set_token_def)
  then show ?case using fl table_filled_trans by (auto simp: null_ids_set_token)
qed

lemma backfill_loop_spec:
  assumes "backfill_loop k d draws = Some (d', rest, r)" "distinct (map f_id (t_files d))" "tokens_ok d"
  shows "table_filled d d' \<and> tokens_ok d' \<and> (r = Inr () \<longrightarrow> null_token_ids d' = [])"
  using assms
proof (induction k d draws rule: backfill_loop.induct)
  case (2 k d draws)
  let ?ids = "take backfillBatchSize (null_token_ids d)"
  show ?case
  proof (cases "?ids = []")
    case True
    then show ?thesis using 2 by (auto simp: table_filled_refl backfillBatchSize_def)
  next
    case False
    obtain d1 r1 x where b: "backfill_batch ?ids [] d draws = Some (d1, r1, x)"
      using 2(2) False by (auto simp: Let_def split: option.splits)
    show ?thesis
    proof (cases x)
      case (Inl e)
      then have "d' = d" "r = Inl e" using 2(2) False b by (simp_all add: Let_def)
      then show ?thesis using 2(4) by (simp add: table_filled_refl)
    next
      case (Inr u)
      have "distinct (null_token_ids d)" using 2(3) by (simp add: null_token_ids_def distinct_map_filter)
      then have s: "table_filled d d1" "tokens_ok d1"
        using backfill_batch_spec [of ?ids "[]" d draws d1 r1] b Inr 2(3,4) by (auto dest: in_set_takeD)
      have "backfill_loop k d1 r1 = Some (d', rest, r)" using 2(2) False b Inr by (simp add: Let_def)
      then have "table_filled d1 d' \<and> tokens_ok d' \<and> (r = Inr () \<longrightarrow> null_token_ids d' = [])"
        using 2(1) [OF refl False b refl refl, of u] Inr s table_filled_ids [OF s(1)] 2(3) by simp
      then show ?thesis using s(1) table_filled_trans by blast
    qed
  qed
qed simp

text \<open>With random draws that are long enough, distinct and unused, every step succeeds.\<close>

definition good_draws :: "database \<Rightarrow> string list \<Rightarrow> nat list list \<Rightarrow> bool" where
  "good_draws d used draws \<longleftrightarrow> byte_draws draws \<and> distinct draws \<and>
     (\<forall>b \<in> set draws. length (base58Encode b) = 22 \<and> base58Encode b \<notin> set used \<and> \<not> TokenExists d (base58Encode b))"

lemma unused_token_good:
  assumes "good_draws d used (b # bs)"
  shows "unused_token (Suc k) used (TokenExists d) (b # bs) = Some (Inr (base58Encode b), bs)"
proof -
  have m: "maxTokenRetries = Suc 4" by (simp add: maxTokenRetries_def)
  have r: "randomToken (b # bs) = Some (base58Encode b, bs)" using assms by (simp add: good_draws_def publicTokenLength_def Let_def)
  have g: "GeneratePublicToken (TokenExists d) (b # bs) = Some (Inr (base58Encode b), bs)"
    unfolding GeneratePublicToken_def m token_attempts.simps(2) r using assms by (simp add: good_draws_def)
  show ?thesis unfolding unused_token.simps g using assms by (simp add: good_draws_def)
qed

lemma good_draws_step:
  assumes "good_draws d used (b # bs)"
  shows "good_draws (set_token i (base58Encode b) d) (base58Encode b # used) bs"
proof -
  have ne: "base58Encode c \<noteq> base58Encode b" if "c \<in> set bs" for c
    using assms that base58Encode_eqD [of c b] by (auto simp: good_draws_def byte_draws_def)
  have "\<not> TokenExists (set_token i (base58Encode b) d) (base58Encode c)" if "c \<in> set bs" for c
    using assms that ne [OF that] by (auto simp: good_draws_def TokenExists_def set_token_def set_upd_row split: if_splits)
  then show ?thesis using assms ne by (auto simp: good_draws_def byte_draws_def)
qed

lemma backfill_batch_good:
  assumes "good_draws d used draws" "length ids \<le> length draws"
  shows "\<exists>d'. backfill_batch ids used d draws = Some (d', drop (length ids) draws, Inr ()) \<and> (\<exists>used'. good_draws d' used' (drop (length ids) draws))"
  using assms
proof (induction ids arbitrary: used d draws)
  case (Cons i ids)
  then obtain b bs where b: "draws = b # bs" by (cases draws) auto
  have "\<not> TokenExists d (base58Encode b)" using Cons.prems(1) b by (simp add: good_draws_def)
  then have free: "\<not> (\<exists>f \<in> set (t_files d). f_id f \<noteq> i \<and> f_public_token f = Some (base58Encode b))" by (auto simp: TokenExists_def)
  have "backfill_batch (i # ids) used d draws = backfill_batch ids (base58Encode b # used) (set_token i (base58Encode b) d) bs"
  proof -
    have "unused_token (Suc (length draws)) used (TokenExists d) draws = Some (Inr (base58Encode b), bs)"
      using unused_token_good Cons.prems(1) unfolding b .
    then show ?thesis using free by (simp only: backfill_batch.simps option.case prod.case sum.case if_False set_token_def)
  qed
  then show ?case using Cons.IH [OF good_draws_step [of d used b bs i]] Cons.prems b by simp
qed auto

lemma good_draws_used: "good_draws d used draws \<Longrightarrow> good_draws d [] draws"
  by (simp add: good_draws_def)

lemma backfill_loop_good:
  assumes "good_draws d [] draws" "length (null_token_ids d) \<le> length draws" "length (null_token_ids d) < k"
    "distinct (map f_id (t_files d))" "tokens_ok d"
  shows "\<exists>d' rest. backfill_loop k d draws = Some (d', rest, Inr ())"
  using assms
proof (induction k arbitrary: d draws)
  case (Suc k)
  let ?ids = "take backfillBatchSize (null_token_ids d)"
  show ?case
  proof (cases "?ids = []")
    case True
    then show ?thesis by simp
  next
    case False
    obtain d1 used where b: "backfill_batch ?ids [] d draws = Some (d1, drop (length ?ids) draws, Inr ())"
      "good_draws d1 used (drop (length ?ids) draws)"
    proof -
      have "length ?ids \<le> length draws" using Suc.prems(2) by simp
      from backfill_batch_good [OF Suc.prems(1) this] show ?thesis using that by blast
    qed
    have dn: "distinct (null_token_ids d)" using Suc.prems(4) by (simp add: null_token_ids_def distinct_map_filter)
    have s: "table_filled d d1" "tokens_ok d1" "null_token_ids d1 = filter (\<lambda>j. j \<notin> set ?ids) (null_token_ids d)"
      using backfill_batch_spec [OF b(1)] dn Suc.prems(4,5) by (auto dest: in_set_takeD)
    have "null_token_ids d1 = drop backfillBatchSize (null_token_ids d)"
      unfolding s(3) using dn append_take_drop_id [of backfillBatchSize "null_token_ids d"]
      by (metis (no_types, lifting) distinct_append disjoint_iff filter_False filter_True filter_append self_append_conv2)
    moreover have "0 < length ?ids" using False by simp
    ultimately have n: "length (null_token_ids d1) + length ?ids = length (null_token_ids d)" "0 < length ?ids" by auto
    have "\<exists>d' rest. backfill_loop k d1 (drop (length ?ids) draws) = Some (d', rest, Inr ())"
    proof (rule Suc.IH)
      show "length (null_token_ids d1) \<le> length (drop (length ?ids) draws)" using n(1) Suc.prems(2) by (simp only: length_drop)
      show "length (null_token_ids d1) < k" using n Suc.prems(3) by linarith
      show "distinct (map f_id (t_files d1))" using Suc.prems(4) by (simp only: table_filled_ids [OF s(1)])
    qed (use s(2) good_draws_used [OF b(2)] in simp_all)
    then show ?thesis using False b(1) by (simp add: Let_def)
  qed
qed simp

text \<open>
  C12: The backfill. Whatever the random source delivers, when BackfillPublicTokens returns, rows
  differ from before only in tokens that were NULL, no token occurs twice, and if it returns
  without an error no NULL token is left; given enough draws that are distinct, of full length and
  not in use, it does return without an error.
\<close>
theorem BackfillPublicTokens_correct:
  assumes "distinct (map f_id (t_files d))" "tokens_ok d"
  shows "(\<forall>d' rest r. BackfillPublicTokens d draws = Some (d', rest, r) \<longrightarrow>
      table_filled d d' \<and> tokens_ok d' \<and> (r = Inr () \<longrightarrow> (\<forall>f \<in> set (t_files d'). f_public_token f \<noteq> None))) \<and>
    (good_draws d [] draws \<and> length (null_token_ids d) \<le> length draws \<longrightarrow>
      (\<exists>d' rest. BackfillPublicTokens d draws = Some (d', rest, Inr ())))"
proof -
  have "length (null_token_ids d) < Suc (length (t_files d))"
    by (simp add: null_token_ids_def less_Suc_eq_le)
  then have "good_draws d [] draws \<Longrightarrow> length (null_token_ids d) \<le> length draws \<Longrightarrow> \<exists>d' rest. BackfillPublicTokens d draws = Some (d', rest, Inr ())"
    unfolding BackfillPublicTokens_def using assms by (intro backfill_loop_good)
  moreover have "null_token_ids e = [] \<longleftrightarrow> (\<forall>f \<in> set (t_files e). f_public_token f \<noteq> None)" for e
    by (auto simp: null_token_ids_def filter_empty_conv)
  ultimately show ?thesis using backfill_loop_spec [OF _ assms] unfolding BackfillPublicTokens_def by blast
qed

theorem BackfillPublicTokens_correct_witness:
  "\<exists>d' rest. BackfillPublicTokens demo_files [long_draw] = Some (d', rest, Inr ()) \<and> list_all (\<lambda>f. f_public_token f \<noteq> None) (t_files d')"
proof -
  have d: "distinct (map f_id (t_files demo_files))" using demo_files_ok by (simp add: files_ok_def keyed_def)
  have n: "map f_public_token (t_files demo_files) = [None]" "length (null_token_ids demo_files) = 1" by code_simp+
  then have t: "tokens_ok demo_files" "\<not> TokenExists demo_files x" for x
    by (simp_all add: tokens_ok_def TokenExists_iff flip: list.set_map)
  have "good_draws demo_files [] [long_draw]"
    using t(2) draw_lengths by (simp add: good_draws_def byte_draws_def) (simp add: long_draw_def)
  then obtain d' rest where r: "BackfillPublicTokens demo_files [long_draw] = Some (d', rest, Inr ())"
    using BackfillPublicTokens_correct [OF d t(1), of "[long_draw]"] n by auto
  then have "\<forall>f \<in> set (t_files d'). f_public_token f \<noteq> None"
    using BackfillPublicTokens_correct [OF d t(1), of "[long_draw]"] by blast
  then show ?thesis using r by (auto simp: list_all_iff)
qed

end
