(* ===== verification/Virtual_Repo.thy ===== *)
theory Virtual_Repo
  imports Database "HOL-Library.Multiset"
begin

text \<open>
  The repository of the virtual index, src/internal/db/repo_virtual.go, and the audit log,
  src/internal/db/repo_audit.go. Every method is one definition with the prefix \<open>repo_\<close>; a
  method that writes returns the new database and either the constraint that failed or its
  result. \<open>schema_ok\<close> collects the constraints of migration 023 and is kept by every method.

  \<open>collect_bfs\<close> is the breadth-first loop of collectSubtreeIDs. It terminates because the
  parent relation of a forest is well founded, so it is a \<open>partial_function\<close> whose result is
  proved to exist on every acyclic store; on a cyclic one the Go loop would not end.
\<close>

section \<open>Channels\<close>

definition repo_CreateChannel :: "channel \<Rightarrow> database \<Rightarrow> database \<times> (sql_err + int)" where
  "repo_CreateChannel c d =
     (if has_row c_slug (t_channels d) (c_slug c) then (d, Inl (UniqueViolation ''channels.slug''))
      else let i = seq_channels d + 1 in
        (d\<lparr>t_channels := t_channels d @ [c\<lparr>c_id := i, c_created_at := sql_now d\<rparr>], seq_channels := i\<rparr>, Inr i))"

definition repo_GetChannel :: "int \<Rightarrow> database \<Rightarrow> channel option" where
  "repo_GetChannel i d = row_by c_id (t_channels d) i"

definition repo_GetChannelBySlug :: "string \<Rightarrow> database \<Rightarrow> channel option" where
  "repo_GetChannelBySlug slug d = row_by c_slug (t_channels d) slug"

definition repo_ListChannels :: "database \<Rightarrow> channel list" where
  "repo_ListChannels d = sort_key c_name (t_channels d)"

definition repo_UpdateChannel :: "channel \<Rightarrow> database \<Rightarrow> database \<times> (sql_err + unit)" where
  "repo_UpdateChannel c d =
     (if has_row c_id (t_channels d) (c_id c) \<and>
         (\<exists>r \<in> set (t_channels d). c_id r \<noteq> c_id c \<and> c_slug r = c_slug c)
      then (d, Inl (UniqueViolation ''channels.slug''))
      else (d\<lparr>t_channels := upd_row c_id (c_id c)
              (\<lambda>r. r\<lparr>c_slug := c_slug c, c_name := c_name c, c_auth_mode := c_auth_mode c,
                     c_description := c_description c\<rparr>) (t_channels d)\<rparr>, Inr ()))"

definition repo_DeleteChannel :: "int \<Rightarrow> database \<Rightarrow> database \<times> (sql_err + unit)" where
  "repo_DeleteChannel i d =
     (if has_row c_id (t_channels d) i \<and> (\<exists>v \<in> set (t_views d). v_channel_id v = i)
      then (d, Inl (ForeignKey ''virtual_views.channel_id''))
      else (d\<lparr>t_channels := filter (\<lambda>r. c_id r \<noteq> i) (t_channels d)\<rparr>, Inr ()))"

section \<open>Views\<close>

definition view_modes :: "string list" where
  "view_modes = [''rule'', ''curated'', ''hybrid'']"

definition repo_CreateView :: "view \<Rightarrow> database \<Rightarrow> database \<times> (sql_err + int)" where
  "repo_CreateView v d =
     (if v_mode v \<notin> set view_modes then (d, Inl (CheckViolation ''virtual_views.mode''))
      else if has_row v_slug (t_views d) (v_slug v) then (d, Inl (UniqueViolation ''virtual_views.slug''))
      else if \<not> has_row c_id (t_channels d) (v_channel_id v) then (d, Inl (ForeignKey ''virtual_views.channel_id''))
      else let i = seq_views d + 1 in
        (d\<lparr>t_views := t_views d @ [v\<lparr>v_id := i, v_created_at := sql_now d\<rparr>], seq_views := i\<rparr>, Inr i))"

definition repo_GetView :: "int \<Rightarrow> database \<Rightarrow> view option" where
  "repo_GetView i d = row_by v_id (t_views d) i"

definition repo_ListViewsByChannel :: "int \<Rightarrow> database \<Rightarrow> view list" where
  "repo_ListViewsByChannel i d =
     sort_key (\<lambda>v. (v_sort_order v, v_name v)) (filter (\<lambda>v. v_channel_id v = i) (t_views d))"

definition repo_UpdateView :: "view \<Rightarrow> database \<Rightarrow> database \<times> (sql_err + unit)" where
  "repo_UpdateView v d =
     (if \<not> has_row v_id (t_views d) (v_id v) then (d, Inr ())
      else if v_mode v \<notin> set view_modes then (d, Inl (CheckViolation ''virtual_views.mode''))
      else if \<exists>r \<in> set (t_views d). v_id r \<noteq> v_id v \<and> v_slug r = v_slug v
        then (d, Inl (UniqueViolation ''virtual_views.slug''))
      else if \<not> has_row c_id (t_channels d) (v_channel_id v) then (d, Inl (ForeignKey ''virtual_views.channel_id''))
      else (d\<lparr>t_views := upd_row v_id (v_id v)
              (\<lambda>r. r\<lparr>v_slug := v_slug v, v_name := v_name v, v_channel_id := v_channel_id v, v_mode := v_mode v,
                     v_writable := v_writable v, v_sort_order := v_sort_order v\<rparr>) (t_views d)\<rparr>, Inr ()))"

definition repo_DeleteView :: "int \<Rightarrow> database \<Rightarrow> database \<times> (sql_err + unit)" where
  "repo_DeleteView i d =
     (if has_row v_id (t_views d) i \<and> (\<exists>n \<in> set (t_nodes d). n_view_id n = i)
      then (d, Inl (ForeignKey ''virtual_nodes.view_id''))
      else (d\<lparr>t_views := filter (\<lambda>r. v_id r \<noteq> i) (t_views d)\<rparr>, Inr ()))"

section \<open>Nodes\<close>

definition node_types :: "string list" where
  "node_types = [''folder'', ''file_ref'', ''rule_folder'']"

definition node_statuses :: "string list" where
  "node_statuses = [''visible'', ''hidden'']"

definition repo_CreateNode :: "node \<Rightarrow> database \<Rightarrow> database \<times> (sql_err + int)" where
  "repo_CreateNode n d =
     (if n_node_type n \<notin> set node_types then (d, Inl (CheckViolation ''virtual_nodes.node_type''))
      else if n_status n \<notin> set node_statuses then (d, Inl (CheckViolation ''virtual_nodes.status''))
      else let i = seq_nodes d + 1 in
        if \<not> has_row v_id (t_views d) (n_view_id n) then (d, Inl (ForeignKey ''virtual_nodes.view_id''))
        else if n_parent_id n \<noteq> Some i \<and> \<not> ref_ok n_id (t_nodes d) (n_parent_id n)
          then (d, Inl (ForeignKey ''virtual_nodes.parent_id''))
        else if \<not> ref_ok f_id (t_files d) (n_file_id n) then (d, Inl (ForeignKey ''virtual_nodes.file_id''))
        else (d\<lparr>t_nodes := t_nodes d @ [n\<lparr>n_id := i, n_created_at := sql_now d\<rparr>], seq_nodes := i\<rparr>, Inr i))"

definition repo_GetNode :: "int \<Rightarrow> database \<Rightarrow> node option" where
  "repo_GetNode i d = row_by n_id (t_nodes d) i"

text \<open>\<^const>\<open>None\<close> is the error \<^verbatim>\<open>node not found\<close>; \<open>Some None\<close> is a root.\<close>

definition repo_GetNodeParent :: "int \<Rightarrow> database \<Rightarrow> int option option" where
  "repo_GetNodeParent i d = map_option n_parent_id (row_by n_id (t_nodes d) i)"

definition node_order :: "node \<Rightarrow> int \<times> string" where
  "node_order n = (n_sort_order n, n_name n)"

definition repo_ListNodesByView :: "int \<Rightarrow> database \<Rightarrow> node list" where
  "repo_ListNodesByView v d = sort_key node_order (filter (\<lambda>n. n_view_id n = v) (t_nodes d))"

definition repo_ListNodesByParent :: "int \<Rightarrow> int option \<Rightarrow> database \<Rightarrow> node list" where
  "repo_ListNodesByParent v p d =
     sort_key node_order (filter (\<lambda>n. n_view_id n = v \<and> n_parent_id n = p) (t_nodes d))"

definition repo_UpdateNode :: "node \<Rightarrow> database \<Rightarrow> database \<times> (sql_err + unit)" where
  "repo_UpdateNode n d =
     (if \<not> has_row n_id (t_nodes d) (n_id n) then (d, Inr ())
      else if n_node_type n \<notin> set node_types then (d, Inl (CheckViolation ''virtual_nodes.node_type''))
      else if \<not> ref_ok f_id (t_files d) (n_file_id n) then (d, Inl (ForeignKey ''virtual_nodes.file_id''))
      else (d\<lparr>t_nodes := upd_row n_id (n_id n)
              (\<lambda>r. r\<lparr>n_name := n_name n, n_node_type := n_node_type n, n_file_id := n_file_id n,
                     n_rule_config := n_rule_config n, n_sort_order := n_sort_order n\<rparr>) (t_nodes d)\<rparr>, Inr ()))"

definition repo_SetNodeParent :: "int \<Rightarrow> int option \<Rightarrow> database \<Rightarrow> database \<times> (sql_err + unit)" where
  "repo_SetNodeParent i p d =
     (if has_row n_id (t_nodes d) i \<and> \<not> ref_ok n_id (t_nodes d) p
      then (d, Inl (ForeignKey ''virtual_nodes.parent_id''))
      else (d\<lparr>t_nodes := upd_row n_id i (\<lambda>r. r\<lparr>n_parent_id := p\<rparr>) (t_nodes d)\<rparr>, Inr ()))"

definition child_ids :: "database \<Rightarrow> int \<Rightarrow> int list" where
  "child_ids d cur = map n_id (filter (\<lambda>n. n_parent_id n = Some cur) (t_nodes d))"

partial_function (option) collect_bfs :: "database \<Rightarrow> int list \<Rightarrow> int list \<Rightarrow> int list option" where
  "collect_bfs d queue ids =
     (case queue of [] \<Rightarrow> Some ids
      | cur # q \<Rightarrow> collect_bfs d (q @ child_ids d cur) (ids @ [cur]))"

declare collect_bfs.simps [code]

definition collectSubtreeIDs :: "int \<Rightarrow> database \<Rightarrow> int list option" where
  "collectSubtreeIDs root d = collect_bfs d [root] []"

definition hide_node :: "int \<Rightarrow> database \<Rightarrow> database" where
  "hide_node i d = d\<lparr>t_nodes := upd_row n_id i (\<lambda>r. r\<lparr>n_status := ''hidden''\<rparr>) (t_nodes d)\<rparr>"

definition repo_SoftDeleteNodeCascade :: "int \<Rightarrow> database \<Rightarrow> database option" where
  "repo_SoftDeleteNodeCascade i d =
     (case collectSubtreeIDs i d of None \<Rightarrow> None | Some ids \<Rightarrow> Some (fold hide_node ids d))"

section \<open>The audit log\<close>

definition audit_Log :: "audit_entry \<Rightarrow> database \<Rightarrow> database" where
  "audit_Log e d = (let i = seq_audit d + 1 in
     d\<lparr>t_audit := t_audit d @ [e\<lparr>a_id := i, a_created_at := sql_now d\<rparr>], seq_audit := i\<rparr>)"

definition audit_List :: "string \<Rightarrow> int \<Rightarrow> database \<Rightarrow> audit_entry list" where
  "audit_List entityType limit d =
     (let lim = (if limit \<le> 0 \<or> limit > 200 then 50 else limit) in
      take (nat lim) (sort_key (\<lambda>e. - a_created_at e)
        (filter (\<lambda>e. entityType = [] \<or> a_entity_type e = entityType) (t_audit d))))"

section \<open>The invariant of the schema\<close>

definition view_ok :: "database \<Rightarrow> view \<Rightarrow> bool" where
  "view_ok d v \<longleftrightarrow> v_mode v \<in> set view_modes \<and> has_row c_id (t_channels d) (v_channel_id v)"

definition node_ok :: "database \<Rightarrow> node \<Rightarrow> bool" where
  "node_ok d n \<longleftrightarrow> n_node_type n \<in> set node_types \<and> n_status n \<in> set node_statuses \<and>
     has_row v_id (t_views d) (n_view_id n) \<and> ref_ok n_id (t_nodes d) (n_parent_id n) \<and>
     ref_ok f_id (t_files d) (n_file_id n)"

definition keys_ok :: "database \<Rightarrow> bool" where
  "keys_ok d \<longleftrightarrow> 0 \<le> seq_channels d \<and> 0 \<le> seq_views d \<and> 0 \<le> seq_nodes d \<and>
     keyed c_id (t_channels d) (seq_channels d) \<and> keyed v_id (t_views d) (seq_views d) \<and>
     keyed n_id (t_nodes d) (seq_nodes d) \<and>
     distinct (map c_slug (t_channels d)) \<and> distinct (map v_slug (t_views d))"

definition schema_ok :: "database \<Rightarrow> bool" where
  "schema_ok d \<longleftrightarrow> keys_ok d \<and> (\<forall>v \<in> set (t_views d). view_ok d v) \<and> (\<forall>n \<in> set (t_nodes d). node_ok d n)"

text \<open>The parent relation, child first, and the requirement that it is a forest.\<close>

definition parent_rel :: "node list \<Rightarrow> (int \<times> int) set" where
  "parent_rel ns = {(n_id n, p) |n p. n \<in> set ns \<and> n_parent_id n = Some p}"

definition forest :: "database \<Rightarrow> bool" where
  "forest d \<longleftrightarrow> acyclic (parent_rel (t_nodes d))"


lemma parent_rel_iff: "(c, p) \<in> parent_rel ns \<longleftrightarrow> (\<exists>n \<in> set ns. n_id n = c \<and> n_parent_id n = Some p)"
  by (auto simp: parent_rel_def)

lemma finite_parent_rel: "finite (parent_rel ns)"
proof -
  have "parent_rel ns \<subseteq> (\<lambda>n. (n_id n, the (n_parent_id n))) ` set ns" by (force simp: parent_rel_def)
  then show ?thesis by (rule finite_subset) simp
qed

lemma wf_parent_rel: "forest d \<Longrightarrow> wf (parent_rel (t_nodes d))"
  by (simp add: forest_def finite_acyclic_wf finite_parent_rel)

lemma child_ids_iff [simp]: "c \<in> set (child_ids d p) \<longleftrightarrow> (c, p) \<in> parent_rel (t_nodes d)"
  by (auto simp: child_ids_def parent_rel_def)

text \<open>A node has one parent, because ids are unique.\<close>

lemma parent_rel_functional:
  assumes "distinct (map n_id ns)" "(c, p) \<in> parent_rel ns" "(c, q) \<in> parent_rel ns"
  shows "p = q"
proof -
  obtain m n where "m \<in> set ns" "n \<in> set ns" "n_id m = n_id n" "n_parent_id m = Some p" "n_parent_id n = Some q"
    using assms(2,3) by (auto simp: parent_rel_iff)
  then show ?thesis using assms(1) by (metis distinct_map inj_on_def option.inject)
qed

section \<open>The breadth-first walk\<close>

abbreviation subtree :: "database \<Rightarrow> int \<Rightarrow> int set" where
  "subtree d root \<equiv> {x. (x, root) \<in> (parent_rel (t_nodes d))\<^sup>*}"

text \<open>
  The invariant of the loop: nothing is visited twice, everything seen lies below the root and,
  apart from the root, has its parent among the finished ids, whose children have all been seen.
\<close>

definition bfs_inv :: "database \<Rightarrow> int \<Rightarrow> int list \<Rightarrow> int list \<Rightarrow> bool" where
  "bfs_inv d root queue ids \<longleftrightarrow>
     distinct (ids @ queue) \<and> root \<in> set (ids @ queue) \<and> set (ids @ queue) \<subseteq> subtree d root \<and>
     (\<forall>x \<in> set (ids @ queue). x = root \<or> (\<exists>p \<in> set ids. (x, p) \<in> parent_rel (t_nodes d))) \<and>
     (\<forall>p \<in> set ids. set (child_ids d p) \<subseteq> set (ids @ queue))"

lemma distinct_child_ids: "distinct (map n_id (t_nodes d)) \<Longrightarrow> distinct (child_ids d p)"
  by (simp add: child_ids_def distinct_map_filter)

lemma bfs_inv_step:
  assumes inv: "bfs_inv d root (cur # q) ids" and ok: "distinct (map n_id (t_nodes d))" "forest d"
  shows "bfs_inv d root (q @ child_ids d cur) (ids @ [cur])"
proof -
  let ?R = "parent_rel (t_nodes d)"
  have fresh: "c \<notin> set (ids @ cur # q)" if c: "(c, cur) \<in> ?R" for c
  proof
    assume mem: "c \<in> set (ids @ cur # q)"
    have "(cur, root) \<in> ?R\<^sup>*" using inv by (auto simp: bfs_inv_def)
    with c have "c \<noteq> root" using ok(2) by (metis acyclic_def forest_def rtrancl_into_trancl2)
    with mem inv obtain p where "p \<in> set ids" "(c, p) \<in> ?R" by (auto simp: bfs_inv_def)
    with c parent_rel_functional [OF ok(1)] have "cur \<in> set ids" by blast
    with inv show False by (simp add: bfs_inv_def)
  qed
  have "set (child_ids d cur) \<inter> set (ids @ cur # q) = {}" using fresh by auto
  moreover have "set (child_ids d cur) \<subseteq> subtree d root"
    using inv by (auto simp: bfs_inv_def intro: converse_rtrancl_into_rtrancl)
  ultimately show ?thesis
    using inv distinct_child_ids [OF ok(1), of cur] by (auto simp: bfs_inv_def)
qed

lemma bfs_returns:
  assumes "distinct (map n_id (t_nodes d))" "forest d" "bfs_inv d root queue ids"
  shows "\<exists>r. collect_bfs d queue ids = Some r \<and> bfs_inv d root [] r"
  using assms(3)
proof (induction "mset queue" arbitrary: queue ids rule: wf_induct_rule [OF wf_mult [OF wf_parent_rel [OF assms(2)]]])
  case 1
  note IH = 1(1) and inv = 1(2)
  show ?case
  proof (cases queue)
    case Nil
    then show ?thesis using inv by (subst collect_bfs.simps) simp
  next
    case (Cons cur q)
    have "(mset q + mset (child_ids d cur), mset q + {#cur#}) \<in> mult (parent_rel (t_nodes d))"
      by (rule one_step_implies_mult) auto
    then have "(mset (q @ child_ids d cur), mset queue) \<in> mult (parent_rel (t_nodes d))"
      using Cons by simp
    from IH [OF this bfs_inv_step] inv assms Cons
    have "\<exists>r. collect_bfs d (q @ child_ids d cur) (ids @ [cur]) = Some r \<and> bfs_inv d root [] r" by blast
    then show ?thesis using Cons by (subst collect_bfs.simps) simp
  qed
qed

lemma bfs_inv_final: "bfs_inv d root [] r \<Longrightarrow> distinct r \<and> set r = subtree d root"
proof -
  assume inv: "bfs_inv d root [] r"
  have "x \<in> set r" if "(x, root) \<in> (parent_rel (t_nodes d))\<^sup>*" for x
    using that
  proof (induction rule: converse_rtrancl_induct)
    case (step y z)
    then have "y \<in> set (child_ids d z)" by simp
    with step inv show ?case unfolding bfs_inv_def by fastforce
  qed (use inv in \<open>simp add: bfs_inv_def\<close>)
  then show ?thesis using inv by (auto simp: bfs_inv_def)
qed

lemma collect_exact:
  assumes "schema_ok d" "forest d"
  obtains ids where "collectSubtreeIDs root d = Some ids" "distinct ids" "set ids = subtree d root"
proof -
  have "distinct (map n_id (t_nodes d))" using assms by (simp add: schema_ok_def keys_ok_def keyed_def)
  moreover have "bfs_inv d root [root] []" by (simp add: bfs_inv_def)
  ultimately show ?thesis
    using bfs_returns [of d root "[root]" "[]"] assms that bfs_inv_final by (auto simp: collectSubtreeIDs_def)
qed

text \<open>Below a cycle the loop does not end.\<close>

lemma bfs_diverges:
  assumes "collect_bfs d queue ids = Some r" and "x \<in> set queue"
  shows "(x, x) \<notin> (parent_rel (t_nodes d))\<^sup>+"
proof -
  have "\<forall>x \<in> set queue. (x, x) \<notin> (parent_rel (t_nodes d))\<^sup>+"
  proof (rule collect_bfs.raw_induct [OF _ assms(1)])
    fix rec d queue ids r
    assume IH: "\<And>d queue ids r. rec d queue ids = Some r \<Longrightarrow> \<forall>x \<in> set queue. (x, x) \<notin> (parent_rel (t_nodes d))\<^sup>+"
      and body: "(case queue of [] \<Rightarrow> Some ids | cur # q \<Rightarrow> rec d (q @ child_ids d cur) (ids @ [cur])) = Some r"
    show "\<forall>x \<in> set queue. (x, x) \<notin> (parent_rel (t_nodes d))\<^sup>+"
    proof (cases queue)
      case (Cons cur q)
      with body IH have rest: "\<forall>x \<in> set (q @ child_ids d cur). (x, x) \<notin> (parent_rel (t_nodes d))\<^sup>+" by fastforce
      have "(cur, cur) \<notin> (parent_rel (t_nodes d))\<^sup>+"
      proof
        assume "(cur, cur) \<in> (parent_rel (t_nodes d))\<^sup>+"
        then obtain y where "(cur, y) \<in> (parent_rel (t_nodes d))\<^sup>*" "(y, cur) \<in> parent_rel (t_nodes d)"
          by (meson tranclD2)
        then show False using rest by (fastforce intro: rtrancl_into_trancl2)
      qed
      then show ?thesis using rest Cons by simp
    qed simp
  qed
  then show ?thesis using assms(2) by blast
qed

lemma collect_cyclic: "(root, root) \<in> (parent_rel (t_nodes d))\<^sup>+ \<Longrightarrow> collectSubtreeIDs root d = None"
  using bfs_diverges [of d "[root]" "[]" _ root] by (cases "collectSubtreeIDs root d") (auto simp: collectSubtreeIDs_def)

section \<open>Soft deletion\<close>

lemma fold_hide_nodes:
  "fold hide_node ids d = d\<lparr>t_nodes :=
     map (\<lambda>n. if n_id n \<in> set ids then n\<lparr>n_status := ''hidden''\<rparr> else n) (t_nodes d)\<rparr>"
proof (induction ids arbitrary: d)
  case (Cons i ids)
  then show ?case by (auto simp: hide_node_def upd_row_def)
qed simp

lemma SoftDeleteNodeCascade_spec:
  assumes "schema_ok d" "forest d"
  shows "repo_SoftDeleteNodeCascade i d = Some (d\<lparr>t_nodes :=
     map (\<lambda>n. if n_id n \<in> subtree d i then n\<lparr>n_status := ''hidden''\<rparr> else n) (t_nodes d)\<rparr>)"
proof -
  obtain ids where "collectSubtreeIDs i d = Some ids" "set ids = subtree d i"
    using collect_exact [OF assms, of i] .
  then show ?thesis by (simp add: repo_SoftDeleteNodeCascade_def fold_hide_nodes)
qed

section \<open>Every method keeps the invariant\<close>

lemmas schema_defs = schema_ok_def keys_ok_def view_ok_def node_ok_def

lemma CreateChannel_ok: "schema_ok d \<Longrightarrow> schema_ok (fst (repo_CreateChannel c d))"
  by (auto simp: schema_defs repo_CreateChannel_def Let_def intro!: keyed_append)

lemma UpdateChannel_ok: "schema_ok d \<Longrightarrow> schema_ok (fst (repo_UpdateChannel c d))"
proof -
  assume ok: "schema_ok d"
  let ?f = "\<lambda>r. r\<lparr>c_slug := c_slug c, c_name := c_name c, c_auth_mode := c_auth_mode c, c_description := c_description c\<rparr>"
  have "fst (repo_UpdateChannel c d) = d" if "\<not> has_row c_id (t_channels d) (c_id c)"
    using that by (simp add: repo_UpdateChannel_def upd_row_absent)
  moreover have "schema_ok (fst (repo_UpdateChannel c d))"
    if "has_row c_id (t_channels d) (c_id c)" "fst (repo_UpdateChannel c d) \<noteq> d"
  proof -
    from that have eq: "fst (repo_UpdateChannel c d) = d\<lparr>t_channels := upd_row c_id (c_id c) ?f (t_channels d)\<rparr>"
      and uniq: "\<forall>r \<in> set (t_channels d). c_id r \<noteq> c_id c \<longrightarrow> c_slug r \<noteq> c_slug c"
      by (auto simp: repo_UpdateChannel_def split: if_splits)
    have "distinct (map c_slug (upd_row c_id (c_id c) ?f (t_channels d)))"
      using ok uniq by (intro distinct_upd_unique) (auto simp: schema_defs keyed_def)
    with eq ok show ?thesis by (simp add: schema_defs)
  qed
  ultimately show ?thesis using ok by metis
qed

lemma image_filter_other [simp]:
  "k \<in> key ` {r. key r \<noteq> i \<and> r \<in> set rows} \<longleftrightarrow> k \<in> key ` set rows \<and> k \<noteq> i"
  "k \<in> key ` {r \<in> set rows. key r \<noteq> i} \<longleftrightarrow> k \<in> key ` set rows \<and> k \<noteq> i"
  by auto

lemma DeleteChannel_ok: "schema_ok d \<Longrightarrow> schema_ok (fst (repo_DeleteChannel i d))"
  by (auto simp: schema_defs repo_DeleteChannel_def keyed_filter distinct_map_filter simp del: image_iff)

lemma CreateView_ok: "schema_ok d \<Longrightarrow> schema_ok (fst (repo_CreateView v d))"
  by (auto simp: schema_defs repo_CreateView_def Let_def intro!: keyed_append)

lemma UpdateView_ok: "schema_ok d \<Longrightarrow> schema_ok (fst (repo_UpdateView v d))"
proof -
  assume ok: "schema_ok d"
  let ?f = "\<lambda>r. r\<lparr>v_slug := v_slug v, v_name := v_name v, v_channel_id := v_channel_id v, v_mode := v_mode v,
                     v_writable := v_writable v, v_sort_order := v_sort_order v\<rparr>"
  show ?thesis
  proof (cases "fst (repo_UpdateView v d) = d")
    case False
    then have eq: "fst (repo_UpdateView v d) = d\<lparr>t_views := upd_row v_id (v_id v) ?f (t_views d)\<rparr>"
      and uniq: "\<forall>r \<in> set (t_views d). v_id r \<noteq> v_id v \<longrightarrow> v_slug r \<noteq> v_slug v"
      and chk: "v_mode v \<in> set view_modes" "has_row c_id (t_channels d) (v_channel_id v)"
      by (auto simp: repo_UpdateView_def split: if_splits)
    have "distinct (map v_slug (upd_row v_id (v_id v) ?f (t_views d)))"
      using ok uniq by (intro distinct_upd_unique) (auto simp: schema_defs keyed_def)
    with eq ok chk show ?thesis by (auto simp: schema_defs set_upd_row)
  qed (use ok in simp)
qed

lemma DeleteView_ok: "schema_ok d \<Longrightarrow> schema_ok (fst (repo_DeleteView i d))"
  by (auto simp: schema_defs repo_DeleteView_def keyed_filter distinct_map_filter)

lemma CreateNode_ok: "schema_ok d \<Longrightarrow> schema_ok (fst (repo_CreateNode n d))"
proof -
  assume ok: "schema_ok d"
  show ?thesis
  proof (cases "fst (repo_CreateNode n d) = d")
    case False
    let ?n = "n\<lparr>n_id := seq_nodes d + 1, n_created_at := sql_now d\<rparr>"
    let ?d = "d\<lparr>t_nodes := t_nodes d @ [?n], seq_nodes := seq_nodes d + 1\<rparr>"
    from False have eq: "fst (repo_CreateNode n d) = ?d"
      and new: "node_ok ?d ?n"
      by (auto simp: repo_CreateNode_def Let_def node_ok_def ref_ok_def split: if_splits option.splits)
    have old: "node_ok ?d m" if "m \<in> set (t_nodes d)" for m
      using ok that by (fastforce simp: schema_ok_def node_ok_def ref_ok_def split: option.splits)
    have "keys_ok ?d" "\<forall>v \<in> set (t_views ?d). view_ok ?d v" using ok by (auto simp: schema_defs keyed_append)
    with new old eq show ?thesis by (auto simp: schema_ok_def)
  qed (use ok in simp)
qed

text \<open>Rewriting rows of the node table in a way that keeps ids and stays within the constraints.\<close>

lemma schema_ok_map_nodes:
  assumes "schema_ok d" "\<And>n. n_id (f n) = n_id n"
    and "\<And>n. n \<in> set (t_nodes d) \<Longrightarrow> node_ok d n \<Longrightarrow> node_ok d (f n)"
  shows "schema_ok (d\<lparr>t_nodes := map f (t_nodes d)\<rparr>)"
proof -
  have ids: "map n_id (map f (t_nodes d)) = map n_id (t_nodes d)" using assms(2) by simp
  then have img: "n_id ` set (map f (t_nodes d)) = n_id ` set (t_nodes d)" by (metis list.set_map)
  have ref: "ref_ok n_id (map f (t_nodes d)) = ref_ok n_id (t_nodes d)"
    by (rule ext) (simp only: ref_ok_def has_row_iff img)
  have "keyed n_id (map f (t_nodes d)) (seq_nodes d)"
    using assms(1) unfolding keyed_def ids img schema_ok_def keys_ok_def by blast
  then show ?thesis using assms(1,3) by (auto simp: schema_defs ref)
qed

lemma UpdateNode_ok: "schema_ok d \<Longrightarrow> schema_ok (fst (repo_UpdateNode n d))"
  by (cases "fst (repo_UpdateNode n d) = d")
    (auto simp: repo_UpdateNode_def upd_row_def node_ok_def split: if_splits intro!: schema_ok_map_nodes)

lemma SetNodeParent_ok: "schema_ok d \<Longrightarrow> schema_ok (fst (repo_SetNodeParent i p d))"
  by (auto simp: repo_SetNodeParent_def upd_row_def node_ok_def intro!: schema_ok_map_nodes)

lemma hide_nodes_ok: "schema_ok d \<Longrightarrow> schema_ok (fold hide_node ids d)"
  by (auto simp: fold_hide_nodes node_ok_def node_statuses_def intro!: schema_ok_map_nodes)

lemma audit_Log_ok [simp]: "schema_ok (audit_Log e d) = schema_ok d"
  by (simp add: audit_Log_def Let_def schema_defs)

lemma audit_Log_tables [simp]:
  "t_nodes (audit_Log e d) = t_nodes d" "t_views (audit_Log e d) = t_views d"
  "t_channels (audit_Log e d) = t_channels d" "t_files (audit_Log e d) = t_files d"
  "t_paths (audit_Log e d) = t_paths d" "seq_nodes (audit_Log e d) = seq_nodes d"
  by (simp_all add: audit_Log_def Let_def)

lemmas repo_keeps_schema = CreateChannel_ok UpdateChannel_ok DeleteChannel_ok CreateView_ok UpdateView_ok
  DeleteView_ok CreateNode_ok UpdateNode_ok SetNodeParent_ok hide_nodes_ok

lemma empty_db_ok: "schema_ok (empty_db now)"
  by (simp add: schema_defs empty_db_def keyed_def)

end
