(* ===== verification/Path_Guard.thy ===== *)
theory Path_Guard
  imports Go_Path
begin

text \<open>
  The path guards of the program: the checks a path from outside passes before the program
  touches the file system.

  \<^item> \<open>ValidatePhysicalPath\<close>, \<open>RejectVirtualPathTraversal\<close>: src/internal/middleware/pathguard.go;
  \<^item> \<open>withinStorage\<close>: the check of VirtualFS.OpenFile, src/internal/webdav/vfs.go;
  \<^item> \<open>validateScriptPath\<close>, \<open>resolvePath\<close>: src/internal/service/script_service.go;
  \<^item> \<open>validateFilename\<close>: src/internal/service/iso_downloader.go.

  They share one contract, the locale \<open>path_guard\<close>: a request that is accepted resolves to
  a path inside the base directory. It is interpreted on each of the guards.
\<close>

datatype guard_error =
    RelFailed
  | Traversal string string
  | ErrPermission
  | ValidationError string

section \<open>The guards\<close>

definition ValidatePhysicalPath :: "string \<Rightarrow> string \<Rightarrow> guard_error + unit" where
  "ValidatePhysicalPath physicalPath basePath =
     (let cleanPath = path_clean physicalPath; cleanBase = path_clean basePath in
      case path_rel cleanBase cleanPath of
        None \<Rightarrow> Inl RelFailed
      | Some rel \<Rightarrow>
          if has_prefix rel ''..'' \<or> rooted rel then Inl (Traversal physicalPath basePath)
          else Inr ())"

definition RejectVirtualPathTraversal :: "string \<Rightarrow> guard_error + unit" where
  "RejectVirtualPathTraversal virtualPath =
     (if list_ex (\<lambda>elem. elem = dotdot) (split_char slash virtualPath) then Inl ErrPermission
      else if contains_sub virtualPath ''/..'' \<or> has_prefix virtualPath ''../'' then Inl ErrPermission
      else Inr ())"

definition withinStorage :: "string \<Rightarrow> string \<Rightarrow> bool" where
  "withinStorage storagePath fullPath =
     (let root = path_clean storagePath; clean = path_clean fullPath in
      clean = root \<or> has_prefix clean (root @ ''/''))"

definition validateScriptPath :: "string \<Rightarrow> guard_error + unit" where
  "validateScriptPath p =
     (if p = [] then Inl (ValidationError ''script_path is required'')
      else if rooted p \<or> has_prefix p ''/'' \<or> has_prefix p [char_of (92::nat)] then
        Inl (ValidationError ''script_path must be relative to the scripts directory'')
      else (let clean = path_clean p in
        if clean = ''.'' \<or> has_prefix clean ''../'' \<or> clean = ''..'' then
          Inl (ValidationError ''script_path must not escape the scripts directory'')
        else if \<not> has_suffix p ''.sh'' then Inl (ValidationError ''script_path must end with .sh'')
        else Inr ()))"

definition resolvePath :: "string \<Rightarrow> string \<Rightarrow> string" where
  "resolvePath scriptsDir rel = path_join [scriptsDir, rel]"

definition validateFilename :: "string \<Rightarrow> guard_error + unit" where
  "validateFilename filename =
     (if filename = [] then Inl (ValidationError ''filename is empty'')
      else if contains_sub filename ''..'' \<or> slash \<in> set filename \<or> char_of (92::nat) \<in> set filename
      then Inl (ValidationError ''path separators not allowed'')
      else Inr ())"

section \<open>The contract of a guard\<close>

locale path_guard =
  fixes base_ok :: "string \<Rightarrow> bool"
    and accept :: "string \<Rightarrow> string \<Rightarrow> bool"
    and resolve :: "string \<Rightarrow> string \<Rightarrow> string"
  assumes sound: "base_ok b \<Longrightarrow> accept b r \<Longrightarrow> path_within b (resolve b r)"
begin

lemma accepted_elems:
  "base_ok b \<Longrightarrow> accept b r \<Longrightarrow>
   \<exists>rest. clean_list (resolve b r) = clean_list b @ rest \<and> dotdot \<notin> set rest"
  using sound [of b r] by (metis append_take_drop_id path_within_def)

lemma accepted_nested:
  "base_ok b \<Longrightarrow> accept b r \<Longrightarrow> path_within a b \<Longrightarrow> path_within a (resolve b r)"
  using sound path_within_trans by blast

lemma escape_rejected:
  "base_ok b \<Longrightarrow> \<not> path_within b (resolve b r) \<Longrightarrow> \<not> accept b r"
  using sound by blast

end

section \<open>Rel-based guard\<close>

lemma has_prefix_join_dd:
  assumes "ts \<noteq> []" shows "has_prefix (join_char slash (dotdot # ts)) ''..''"
  using assms by (simp add: join_char_Cons)

lemma path_rel_cases:
  assumes "path_clean p \<noteq> path_clean b" "rooted p = rooted b"
    "strip_common (clean_list b) (if path_clean p = ''.'' then [''.''] else clean_list p) = (bs, ts)"
  shows "path_rel (path_clean b) (path_clean p) =
    (if bs \<noteq> [] \<and> ts \<noteq> [] \<and> hd bs = dotdot then None
     else Some (join_char slash (replicate (length bs) dotdot @ ts)))"
  using assms by (simp add: path_rel_def Let_def cong: if_cong)

lemma join_replicate_dd_prefix:
  "0 < n \<Longrightarrow> has_prefix (join_char slash (replicate n dotdot @ ts)) ''..''"
  by (cases n; cases "replicate (n - 1) dotdot @ ts") (auto simp: has_prefix_def)

lemma hd_join_char: "hd ts \<noteq> [] \<Longrightarrow> ts \<noteq> [] \<Longrightarrow> \<exists>r. join_char c ts = hd ts @ r"
  by (cases ts; cases "tl ts") auto

text \<open>The elements of the path below the base.\<close>

definition below :: "string \<Rightarrow> string \<Rightarrow> string list" where
  "below b p = drop (length (clean_list b)) (clean_list p)"

lemma path_within_split:
  "path_within b p \<longleftrightarrow> rooted p = rooted b \<and> clean_list p = clean_list b @ below b p \<and> dotdot \<notin> set (below b p)"
  by (metis (no_types, lifting) append_eq_conv_conj append_take_drop_id below_def path_within_def)

lemma clean_list_Nil_dot: "path_clean p = ''.'' \<longleftrightarrow> \<not> rooted p \<and> clean_list p = []"
proof
  assume "path_clean p = ''.''"
  then have "rooted (path_clean p) = rooted ''.''" "clean_list (path_clean p) = clean_list ''.''" by simp_all
  moreover have "clean_list ''.'' = []" by (simp add: clean_list_def)
  ultimately show "\<not> rooted p \<and> clean_list p = []" by simp
qed (simp add: path_clean_def render_path_def)

lemma strip_common_append: "strip_common xs (xs @ ys) = ([], ys)"
  by (induction xs) (cases ys; auto)+

lemma join_not_rooted: "ts \<noteq> [] \<Longrightarrow> hd ts \<noteq> [] \<Longrightarrow> slash \<notin> set (hd ts) \<Longrightarrow> \<not> rooted (join_char slash ts)"
  using hd_join_char [of ts slash] by (cases "hd ts") auto

lemma has_prefix_dd_join:
  assumes "ts \<noteq> []" "hd ts \<noteq> []" "slash \<notin> set (hd ts)" "hd ts \<noteq> ''.''"
  shows "has_prefix (join_char slash ts) ''..'' = has_prefix (hd ts) ''..''"
proof (cases ts)
  case (Cons t us)
  show ?thesis
  proof (cases us)
    case Nil with Cons show ?thesis by simp
  next
    case (Cons u vs)
    then have j: "join_char slash ts = t @ slash # join_char slash us" using \<open>ts = t # us\<close> by simp
    with assms \<open>ts = t # us\<close> show ?thesis
      by (cases t; cases "tl t") auto
  qed
qed (use assms in simp)

lemma ValidatePhysicalPath_accepts:
  assumes "path_within b p"
  shows "ValidatePhysicalPath p b = Inr () \<longleftrightarrow> \<not> (below b p \<noteq> [] \<and> has_prefix (hd (below b p)) ''..'')"
proof -
  have w: "rooted p = rooted b" "clean_list p = clean_list b @ below b p" "dotdot \<notin> set (below b p)"
    using assms by (auto simp: path_within_split)
  show ?thesis
  proof (cases "below b p = []")
    case True
    with w have "path_clean p = path_clean b" by (simp add: path_clean_eq_iff)
    with True show ?thesis by (simp add: ValidatePhysicalPath_def path_rel_def)
  next
    case False
    with w have ne: "path_clean p \<noteq> path_clean b" "path_clean p \<noteq> ''.''"
      by (auto simp: path_clean_eq_iff clean_list_Nil_dot)
    have form: "clean_form (rooted p) (clean_list b @ below b p)" using clean_list_form [of p] w by simp
    then have h: "hd (below b p) \<noteq> []" "slash \<notin> set (hd (below b p))" "hd (below b p) \<noteq> ''.''"
      using False by (cases "below b p"; auto simp: clean_form_def)+
    have "path_rel (path_clean b) (path_clean p) = Some (join_char slash (below b p))"
      using path_rel_cases [OF ne(1) w(1), of "[]" "below b p"] ne w
      by (simp add: strip_common_append)
    with False h show ?thesis
      by (simp add: ValidatePhysicalPath_def has_prefix_dd_join join_not_rooted)
  qed
qed

lemma ValidatePhysicalPath_within:
  assumes "ValidatePhysicalPath p b = Inr ()"
  shows "path_within b p"
proof (cases "path_clean p = path_clean b")
  case True
  then show ?thesis by (simp add: path_clean_eq_iff path_within_def)
next
  case False
  from assms have r: "rooted p = rooted b"
    by (auto simp: ValidatePhysicalPath_def path_rel_def False Let_def split: if_splits)
  let ?t = "if path_clean p = ''.'' then [''.''] else clean_list p"
  obtain bs ts where st: "strip_common (clean_list b) ?t = (bs, ts)" by fastforce
  note rel = path_rel_cases [OF False r st]
  have bs: "bs = []"
    using assms join_replicate_dd_prefix [of "length bs" ts]
    by (cases "bs = []") (auto simp: ValidatePhysicalPath_def rel split: if_splits)
  obtain c where c: "clean_list b = c @ bs" "?t = c @ ts" using strip_common_prefix [OF st] by blast
  have nd: "path_clean p \<noteq> ''.''"
  proof
    assume dot: "path_clean p = ''.''"
    with c bs have "clean_list b @ ts = [''.'']" by simp
    moreover have "''.'' \<notin> set (clean_list b)" using clean_list_form [of b] by (auto simp: clean_form_def)
    ultimately have "clean_list b = []" by (cases "clean_list b") auto
    with dot r False show False by (simp add: clean_list_Nil_dot path_clean_eq_iff)
  qed
  with c bs have p: "clean_list p = clean_list b @ ts" by simp
  have "dotdot \<notin> set ts"
  proof
    assume "dotdot \<in> set ts"
    then have "hd ts = dotdot" "ts \<noteq> []"
      using clean_form_tail_dd [of "rooted p" "clean_list b" ts] clean_list_form [of p] p by auto
    then have "has_prefix (join_char slash ts) ''..''" by (cases ts; cases "tl ts") (auto simp: has_prefix_def)
    with assms bs show False by (simp add: ValidatePhysicalPath_def rel)
  qed
  with p r show ?thesis by (simp add: path_within_def)
qed

section \<open>Prefix-based guard\<close>

text \<open>A storage root that does not end in a step up: every absolute root is one.\<close>

definition root_ok :: "string \<Rightarrow> bool" where
  "root_ok b \<longleftrightarrow> clean_list b = [] \<or> last (clean_list b) \<noteq> dotdot"

lemma root_ok_rooted: "rooted b \<Longrightarrow> root_ok b"
  using clean_list_form [of b] by (metis clean_form_def last_in_set root_ok_def)

lemma split_path_clean:
  "clean_list p \<noteq> [] \<Longrightarrow>
   split_char slash (path_clean p) = (if rooted p then [] # clean_list p else clean_list p)"
  using clean_list_form [of p]
  by (auto simp: path_clean_def render_path_def clean_form_def split_join_char)

lemma path_clean_not_Nil: "path_clean b \<noteq> []"
proof (cases "clean_list b")
  case (Cons e es)
  then have "e \<noteq> []" using clean_list_form [of b] by (auto simp: clean_form_def)
  with Cons show ?thesis by (cases es) (auto simp: path_clean_def render_path_def)
qed (simp add: path_clean_def render_path_def)

lemma withinStorage_within:
  assumes "root_ok b" "withinStorage b p"
  shows "path_within b p"
proof (cases "path_clean p = path_clean b")
  case True
  then show ?thesis by (simp add: path_clean_eq_iff path_within_def)
next
  case False
  with assms obtain rest where pc: "path_clean p = path_clean b @ slash # rest"
    by (auto simp: withinStorage_def has_prefix_iff)
  note bne = path_clean_not_Nil [of b]
  have r: "rooted p = rooted b"
    using pc bne by (metis rooted_append rooted_path_clean)
  have sp: "split_char slash (path_clean p) = split_char slash (path_clean b) @ split_char slash rest"
    unfolding pc by (rule split_char_append_slash)
  have pne: "clean_list p \<noteq> []"
  proof
    assume "clean_list p = []"
    then have "path_clean p = (if rooted p then ''/'' else ''.'')" by (simp add: path_clean_def render_path_def)
    with pc bne show False by (cases "path_clean b") (auto split: if_splits)
  qed
  have bn: "clean_list b \<noteq> []"
  proof
    assume e: "clean_list b = []"
    show False
    proof (cases "rooted b")
      case True
      with e have "path_clean b = ''/''" by (simp add: path_clean_def render_path_def)
      with sp pne r True have "clean_list p = [] # split_char slash rest" by (simp add: split_path_clean)
      then show False using clean_list_form [of p] by (auto simp: clean_form_def)
    next
      case False
      with e have "path_clean b = ''.''" by (simp add: path_clean_def render_path_def)
      with sp pne r False have "clean_list p = ''.'' # split_char slash rest" by (simp add: split_path_clean)
      then show False using clean_list_form [of p] by (auto simp: clean_form_def)
    qed
  qed
  have p: "clean_list p = clean_list b @ split_char slash rest"
    using sp pne bn r by (auto simp: split_path_clean split: if_splits)
  have "dotdot \<notin> set (split_char slash rest)"
  proof
    assume dd: "dotdot \<in> set (split_char slash rest)"
    have form: "clean_form (rooted p) (clean_list b @ split_char slash rest)"
      using clean_list_form [of p] p by simp
    have "clean_list b = butlast (clean_list b) @ [last (clean_list b)]" using bn by simp
    with form have "clean_form (rooted p) (butlast (clean_list b) @ (last (clean_list b) # split_char slash rest))"
      by (metis append.assoc append_Cons append_Nil)
    from clean_form_tail_dd [OF this] dd have "last (clean_list b) = dotdot" by simp
    with assms(1) bn show False by (simp add: root_ok_def)
  qed
  with p r show ?thesis by (simp add: path_within_def)
qed

section \<open>Element-wise guards\<close>

lemma clean_stack_no_dd:
  "dotdot \<notin> set es \<Longrightarrow> dotdot \<notin> set st \<Longrightarrow> dotdot \<notin> set (clean_stack r st es)"
  by (induction es arbitrary: st) auto

lemma RejectVirtualPathTraversal_elems:
  "RejectVirtualPathTraversal vp = Inr () \<Longrightarrow> dotdot \<notin> set (split_char slash vp)"
  by (auto simp: RejectVirtualPathTraversal_def list_ex_iff split: if_splits)

lemma validateScriptPath_no_dd:
  assumes "validateScriptPath p = Inr ()"
  shows "\<not> rooted p \<and> dotdot \<notin> set (clean_list p)"
proof -
  have a: "\<not> rooted p" "\<not> has_prefix (path_clean p) ''../''" "path_clean p \<noteq> ''..''"
    using assms by (auto simp: validateScriptPath_def Let_def split: if_splits)
  have "dotdot \<notin> set (clean_list p)"
  proof
    assume dd: "dotdot \<in> set (clean_list p)"
    then have "hd (clean_list p) = dotdot" using clean_form_tail_dd [of "rooted p" "[]"] clean_list_form [of p] by simp
    with dd obtain es where es: "clean_list p = dotdot # es" by (cases "clean_list p") auto
    with a show False by (cases es) (auto simp: path_clean_def render_path_def)
  qed
  with a show ?thesis by simp
qed

lemma validateFilename_single:
  assumes "validateFilename f = Inr ()"
  shows "\<not> rooted f \<and> dotdot \<notin> set (clean_list f)"
proof -
  have f: "slash \<notin> set f" "\<not> contains_sub f ''..''" "f \<noteq> []"
    using assms by (auto simp: validateFilename_def split: if_splits)
  then have "\<not> rooted f" by (cases f) auto
  moreover have "f \<noteq> dotdot" using f by auto
  ultimately show ?thesis using f by (auto simp: clean_list_def split_char_no_sep)
qed

section \<open>Interpretations\<close>

interpretation physical: path_guard "\<lambda>_. True" "\<lambda>b p. ValidatePhysicalPath p b = Inr ()" "\<lambda>b p. p"
  by unfold_locales (rule ValidatePhysicalPath_within)

interpretation storage: path_guard root_ok
    "\<lambda>sp lp. withinStorage sp (path_join [sp, lp])" "\<lambda>sp lp. path_join [sp, lp]"
  by unfold_locales (rule withinStorage_within)

interpretation script: path_guard "\<lambda>_. True" "\<lambda>_ p. validateScriptPath p = Inr ()" resolvePath
  by unfold_locales (simp add: resolvePath_def path_join2_within validateScriptPath_no_dd)

interpretation iso: path_guard "\<lambda>_. True" "\<lambda>_ f. validateFilename f = Inr ()" "\<lambda>d f. path_join [d, f]"
  by unfold_locales (simp add: path_join2_within validateFilename_single)

interpretation vpath: path_guard "\<lambda>b. b \<noteq> []" "\<lambda>_ vp. RejectVirtualPathTraversal vp = Inr ()"
    "\<lambda>b vp. path_join [b, vp]"
  by unfold_locales
    (simp add: path_join2_within_gen clean_stack_no_dd RejectVirtualPathTraversal_elems)

section \<open>Properties\<close>

text \<open>
  ValidatePhysicalPath accepts exactly the paths that lie inside the base directory and
  whose first element below the base does not begin with two dots. So nothing outside the base
  is ever accepted, and the only paths inside it that are refused are entries whose own name
  starts with \<^verbatim>\<open>..\<close>.
\<close>

theorem ValidatePhysicalPath_exact:
  "ValidatePhysicalPath p b = Inr () \<longleftrightarrow>
     path_within b p \<and> \<not> (below b p \<noteq> [] \<and> has_prefix (hd (below b p)) ''..'')"
  using ValidatePhysicalPath_accepts physical.sound by blast

text \<open>
  a script path that passes validateScriptPath resolves, through resolvePath, to a file
  inside the scripts directory, whatever that directory is, and is not the directory itself.
\<close>

theorem script_path_confined:
  assumes "validateScriptPath p = Inr ()"
  shows "path_within dir (resolvePath dir p) \<and> path_clean (resolvePath dir p) \<noteq> path_clean dir"
proof
  show "path_within dir (resolvePath dir p)" using script.sound assms by simp
  have p: "\<not> rooted p" "dotdot \<notin> set (clean_list p)" "p \<noteq> []" "path_clean p \<noteq> ''.''"
    using validateScriptPath_no_dd [OF assms] assms
    by (auto simp: validateScriptPath_def Let_def split: if_splits)
  then have "clean_list p \<noteq> []" by (simp add: clean_list_Nil_dot)
  moreover have "clean_list (resolvePath dir p) = clean_list dir @ clean_list p"
    using p path_join2_elems [of p dir] by (simp add: resolvePath_def)
  ultimately show "path_clean (resolvePath dir p) \<noteq> path_clean dir"
    by (simp add: path_clean_eq_iff)
qed

theorem script_path_confined_witness:
  "validateScriptPath ''jobs/../a.sh'' = Inr () \<and>
   path_within ''/data/scripts'' (resolvePath ''/data/scripts'' ''jobs/../a.sh'')"
proof -
  have h: "validateScriptPath ''jobs/../a.sh'' = Inr ()" by code_simp
  from script_path_confined [OF h, of "''/data/scripts''"] h show ?thesis by simp
qed

text \<open>
  withinStorage keeps a joined local path inside the storage root whenever the cleaned root
  does not end in a step up (every absolute root qualifies); with the root \<^verbatim>\<open>..\<close> it accepts a path
  outside of it, and with the roots \<^verbatim>\<open>.\<close> and \<^verbatim>\<open>/\<close> it refuses files that are inside.
\<close>

theorem withinStorage_bounds:
  "(\<forall>sp lp. root_ok sp \<and> withinStorage sp (path_join [sp, lp]) \<longrightarrow> path_within sp (path_join [sp, lp])) \<and>
   (\<forall>sp. rooted sp \<longrightarrow> root_ok sp) \<and>
   withinStorage ''..'' (path_join [''..'', ''..'']) \<and> \<not> path_within ''..'' (path_join [''..'', ''..'']) \<and>
   \<not> withinStorage ''.'' (path_join [''.'', ''a'']) \<and> path_within ''.'' (path_join [''.'', ''a'']) \<and>
   \<not> withinStorage ''/'' (path_join [''/'', ''a'']) \<and> path_within ''/'' (path_join [''/'', ''a''])"
proof -
  have 1: "\<forall>sp lp. root_ok sp \<and> withinStorage sp (path_join [sp, lp]) \<longrightarrow> path_within sp (path_join [sp, lp])"
    using storage.sound by blast
  have 2: "\<forall>sp. rooted sp \<longrightarrow> root_ok sp" by (simp add: root_ok_rooted)
  have 3: "withinStorage ''..'' (path_join [''..'', ''..'']) \<and> \<not> path_within ''..'' (path_join [''..'', ''..''])"
    by code_simp
  have 4: "\<not> withinStorage ''.'' (path_join [''.'', ''a'']) \<and> path_within ''.'' (path_join [''.'', ''a''])"
    by code_simp
  have 5: "\<not> withinStorage ''/'' (path_join [''/'', ''a'']) \<and> path_within ''/'' (path_join [''/'', ''a''])"
    by code_simp
  from 1 2 3 4 5 show ?thesis by blast
qed

theorem withinStorage_bounds_witness:
  "root_ok ''/data'' \<and> withinStorage ''/data'' (path_join [''/data'', ''iso/a.iso'']) \<and>
   path_within ''/data'' (path_join [''/data'', ''iso/a.iso''])"
proof -
  have h: "root_ok ''/data'' \<and> withinStorage ''/data'' (path_join [''/data'', ''iso/a.iso''])" by code_simp
  from h withinStorage_bounds show ?thesis by blast
qed

end
