(* ===== verification/Virtual_FS.thy ===== *)
theory Virtual_FS
  imports File_Registry Virtual_Repo Path_Guard
begin

text \<open>
  The WebDAV front end, src/internal/webdav: the virtual file system of vfs.go (paths resolved by
  node name through channel, view and tree; reads of the underlying files; writes on writable views
  delegated to the upload directory, registered in the files table and reflected in the tree).
  \<^verbatim>\<open>webdav.Dir\<close> and the disk are parameters: a record of operations on an opaque disk.
  Here are the definitions and the facts on resolution and reading; \<open>VFS_Writes\<close> has
  those on writing.
\<close>

section \<open>State\<close>

datatype vfs_err = ErrNotExist | ErrPerm | ErrInvalid | ErrEOF | VfsSql sql_err | OSErr string | VfsPanic

text \<open>The operations of \<^verbatim>\<open>webdav.Dir\<close> (root directory first) and of the \<^verbatim>\<open>os\<close> package
  that the file system calls; an open file is a number.\<close>

record 'w disk_ops =
  dk_Mkdir :: "string \<Rightarrow> string \<Rightarrow> int \<Rightarrow> 'w \<Rightarrow> 'w \<times> (string + unit)"
  dk_RemoveAll :: "string \<Rightarrow> string \<Rightarrow> 'w \<Rightarrow> 'w \<times> (string + unit)"
  dk_Rename :: "string \<Rightarrow> string \<Rightarrow> string \<Rightarrow> 'w \<Rightarrow> 'w \<times> (string + unit)"
  dk_OpenFile :: "string \<Rightarrow> string \<Rightarrow> int \<Rightarrow> int \<Rightarrow> 'w \<Rightarrow> 'w \<times> (string + nat)"
  dk_Close :: "nat \<Rightarrow> 'w \<Rightarrow> 'w \<times> (string + unit)"
  dk_Open :: "string \<Rightarrow> 'w \<Rightarrow> string + nat"
  dk_Stat :: "string \<Rightarrow> 'w \<Rightarrow> int option"

record 'w vfs =
  vf_storagePath :: string
  vf_reg :: registry
  vf_disk :: 'w

abbreviation vf_db :: "'w vfs \<Rightarrow> database" where
  "vf_db s \<equiv> rg_db (vf_reg s)"

definition set_db :: "database \<Rightarrow> 'w vfs \<Rightarrow> 'w vfs" where
  "set_db d s = s\<lparr>vf_reg := (vf_reg s)\<lparr>rg_db := d\<rparr>\<rparr>"

datatype file_mode = ModeDir_0755 | Mode_0644

record virtualFileInfo =
  fi_name :: string
  fi_size :: int
  fi_mode :: file_mode
  fi_modTime :: int

record virtualDir =
  vd_view :: view
  vd_node :: "node option"
  vd_children :: "virtualFileInfo list"
  vd_err :: "vfs_err option"
  vd_pos :: nat

record manualUploadFile =
  mu_File :: nat
  mu_view :: view
  mu_localPath :: string
  mu_registered :: bool

datatype vfs_file = VirtualFile nat string | VirtualDir virtualDir | ManualUpload manualUploadFile

definition manualUploadsSubdir :: string where
  "manualUploadsSubdir = ''webdav/manual_uploads''"

definition upload_root :: "'w vfs \<Rightarrow> string" where
  "upload_root s = path_join [vf_storagePath s, manualUploadsSubdir]"

definition getOrCreateManualProject :: "database \<Rightarrow> database \<times> (sql_err + int)" where
  "getOrCreateManualProject d =
     (case row_by p_source_type (t_projects d) ''manual_upload'' of
        Some p \<Rightarrow> (d, Inr (p_id p))
      | None \<Rightarrow> insert_project (new_project ''manual_uploads'' ''Manual Uploads'' ''manual_upload'' [] ''{}'') d)"

section \<open>Path resolution\<close>

definition findViewBySlug :: "int \<Rightarrow> string \<Rightarrow> database \<Rightarrow> view option" where
  "findViewBySlug channelID slug d = List.find (\<lambda>v. v_slug v = slug) (repo_ListViewsByChannel channelID d)"

definition path_parts :: "string \<Rightarrow> string list" where
  "path_parts name = split_char slash (trim_prefix (path_clean (slash # name)) ''/'')"

definition resolveView :: "string \<Rightarrow> database \<Rightarrow> vfs_err + (view \<times> string)" where
  "resolveView name d =
     (case path_parts name of
        ch # vs # rest \<Rightarrow>
          if ch = [] \<or> vs = [] then Inl ErrNotExist
          else (case repo_GetChannelBySlug ch d of
                  None \<Rightarrow> Inl ErrNotExist
                | Some c \<Rightarrow> (case findViewBySlug (c_id c) vs d of
                    None \<Rightarrow> Inl ErrNotExist
                  | Some v \<Rightarrow> Inr (v, join_char slash rest)))
      | _ \<Rightarrow> Inl ErrNotExist)"

text \<open>The first visible child of a node (of the view root for \<^const>\<open>None\<close>) with the name.\<close>

definition visible_child :: "int \<Rightarrow> int option \<Rightarrow> string \<Rightarrow> database \<Rightarrow> node option" where
  "visible_child viewID parentID seg d =
     List.find (\<lambda>c. n_status c = ''visible'' \<and> n_name c = seg) (repo_ListNodesByParent viewID parentID d)"

text \<open>The walk by names: \<^const>\<open>None\<close> when a segment is not found, otherwise the node reached.\<close>

fun walk_names :: "int \<Rightarrow> string list \<Rightarrow> node option \<Rightarrow> database \<Rightarrow> node option option" where
  "walk_names viewID [] node d = Some node"
| "walk_names viewID (seg # segs) node d =
     (if seg = [] then walk_names viewID segs node d
      else case visible_child viewID (map_option n_id node) seg d of
             None \<Rightarrow> None
           | Some found \<Rightarrow> walk_names viewID segs (Some found) d)"

definition resolveNode :: "string \<Rightarrow> database \<Rightarrow> vfs_err + (view \<times> node option)" where
  "resolveNode name d =
     (case resolveView name d of
        Inl e \<Rightarrow> Inl e
      | Inr (v, rest) \<Rightarrow>
          if rest = [] then Inr (v, None)
          else (case walk_names (v_id v) (split_char slash rest) None d of
                  None \<Rightarrow> Inl ErrNotExist
                | Some node \<Rightarrow> Inr (v, node)))"

definition checkWritable :: "string \<Rightarrow> database \<Rightarrow> bool" where
  "checkWritable name d = (case resolveView name d of Inl e \<Rightarrow> False | Inr (v, _) \<Rightarrow> v_writable v)"

section \<open>Reading\<close>

text \<open>The row is scanned into strings, so a NULL in a text column is an error.\<close>

definition getFile :: "int \<Rightarrow> database \<Rightarrow> vfs_err + file_row option" where
  "getFile fileID d =
     (case row_by f_id (t_files d) fileID of
        None \<Rightarrow> Inr None
      | Some f \<Rightarrow>
          if f_source_type f = None then Inl (VfsSql (NullScan ''source_type''))
          else if f_category f = None then Inl (VfsSql (NullScan ''category''))
          else if f_storage_subdir f = None then Inl (VfsSql (NullScan ''storage_subdir''))
          else if f_public_token f = None then Inl (VfsSql (NullScan ''public_token''))
          else if f_status f = ''deleted'' then Inr None
          else Inr (Some f))"

definition dir_info :: "string \<Rightarrow> int \<Rightarrow> virtualFileInfo" where
  "dir_info name t = \<lparr>fi_name = name, fi_size = 0, fi_mode = ModeDir_0755, fi_modTime = t\<rparr>"

definition file_info :: "string \<Rightarrow> file_row \<Rightarrow> virtualFileInfo" where
  "file_info name f = \<lparr>fi_name = name, fi_size = f_size_bytes f, fi_mode = Mode_0644, fi_modTime = f_created_at f\<rparr>"

definition Stat :: "string \<Rightarrow> database \<Rightarrow> vfs_err + virtualFileInfo" where
  "Stat name d =
     (case resolveNode name d of
        Inl e \<Rightarrow> Inl e
      | Inr (v, None) \<Rightarrow> Inr (dir_info (v_slug v) (v_created_at v))
      | Inr (v, Some n) \<Rightarrow>
          if n_node_type n \<in> {''folder'', ''rule_folder''} then Inr (dir_info (n_name n) (n_created_at n))
          else if n_node_type n = ''file_ref'' then
            (case n_file_id n of
               None \<Rightarrow> Inl ErrNotExist
             | Some i \<Rightarrow> (case getFile i d of
                 Inl e \<Rightarrow> Inl e
               | Inr None \<Rightarrow> Inl ErrNotExist
               | Inr (Some f) \<Rightarrow> Inr (file_info (n_name n) f)))
          else Inl ErrNotExist)"

definition listRuleEntries :: "int \<Rightarrow> database \<Rightarrow> virtualFileInfo list" where
  "listRuleEntries ruleNodeID d =
     map (\<lambda>f. file_info (f_filename f) f)
       (concat (map (\<lambda>(r, i). filter (\<lambda>f. r = ruleNodeID \<and> f_id f = i \<and> f_status f \<noteq> ''deleted'') (t_files d)) (t_rule_entries d)))"

fun child_infos :: "node list \<Rightarrow> database \<Rightarrow> vfs_err + virtualFileInfo list" where
  "child_infos [] d = Inr []"
| "child_infos (n # ns) d =
     (let add = (\<lambda>info. case child_infos ns d of Inl e \<Rightarrow> Inl e | Inr infos \<Rightarrow> Inr (info @ infos)) in
      if n_status n \<noteq> ''visible'' then child_infos ns d
      else if n_node_type n \<in> {''folder'', ''rule_folder''} then add [dir_info (n_name n) (n_created_at n)]
      else if n_node_type n = ''file_ref'' then
        (case n_file_id n of
           None \<Rightarrow> child_infos ns d
         | Some i \<Rightarrow> (case getFile i d of
             Inl e \<Rightarrow> Inl e
           | Inr None \<Rightarrow> child_infos ns d
           | Inr (Some f) \<Rightarrow> add [file_info (n_name n) f]))
      else child_infos ns d)"

definition listChildren :: "view \<Rightarrow> node option \<Rightarrow> database \<Rightarrow> vfs_err + virtualFileInfo list" where
  "listChildren v node d =
     (case child_infos (repo_ListNodesByParent (v_id v) (map_option n_id node) d) d of
        Inl e \<Rightarrow> Inl e
      | Inr infos \<Rightarrow>
          (case node of
             Some n \<Rightarrow> if n_node_type n = ''rule_folder'' then Inr (infos @ listRuleEntries (n_id n) d) else Inr infos
           | None \<Rightarrow> Inr infos))"

definition openDir :: "view \<Rightarrow> node option \<Rightarrow> database \<Rightarrow> virtualDir" where
  "openDir v node d =
     (case listChildren v node d of
        Inl e \<Rightarrow> \<lparr>vd_view = v, vd_node = node, vd_children = [], vd_err = Some e, vd_pos = 0\<rparr>
      | Inr infos \<Rightarrow> \<lparr>vd_view = v, vd_node = node, vd_children = infos, vd_err = None, vd_pos = 0\<rparr>)"

definition virtualDir_Stat :: "virtualDir \<Rightarrow> virtualFileInfo" where
  "virtualDir_Stat d =
     (case vd_node d of
        None \<Rightarrow> dir_info (v_slug (vd_view d)) (v_created_at (vd_view d))
      | Some n \<Rightarrow> dir_info (n_name n) (n_created_at n))"

definition virtualDir_Readdir :: "int \<Rightarrow> virtualDir \<Rightarrow> virtualDir \<times> (vfs_err + virtualFileInfo list)" where
  "virtualDir_Readdir cnt d =
     (case vd_err d of
        Some e \<Rightarrow> (d, Inl e)
      | None \<Rightarrow>
          if length (vd_children d) \<le> vd_pos d then (d, if cnt > 0 then Inl ErrEOF else Inr [])
          else if cnt > 0 then
            (let end' = min (vd_pos d + nat cnt) (length (vd_children d)) in
             (d\<lparr>vd_pos := end'\<rparr>, Inr (take (end' - vd_pos d) (drop (vd_pos d) (vd_children d)))))
          else (d\<lparr>vd_pos := length (vd_children d)\<rparr>, Inr (drop (vd_pos d) (vd_children d))))"

section \<open>Writing\<close>

definition openWrite :: "'w disk_ops \<Rightarrow> string \<Rightarrow> int \<Rightarrow> int \<Rightarrow> 'w vfs \<Rightarrow> 'w vfs \<times> (vfs_err + vfs_file)" where
  "openWrite D name flag perm s =
     (case resolveView name (vf_db s) of
        Inl e \<Rightarrow> (s, Inl e)
      | Inr (v, rest) \<Rightarrow>
          if \<not> v_writable v then (s, Inl ErrPerm)
          else if rest = [] then (s, Inl ErrInvalid)
          else (case dk_OpenFile D (upload_root s) rest flag perm (vf_disk s) of
                  (w, Inl e) \<Rightarrow> (s\<lparr>vf_disk := w\<rparr>, Inl (OSErr e))
                | (w, Inr h) \<Rightarrow>
                    (s\<lparr>vf_disk := w\<rparr>,
                     Inr (ManualUpload \<lparr>mu_File = h, mu_view = v, mu_localPath = path_join [manualUploadsSubdir, rest], mu_registered = False\<rparr>))))"

text \<open>\<^verbatim>\<open>flag & (O_WRONLY | O_RDWR)\<close> on Linux reads the two low bits of the flag.\<close>

definition OpenFile :: "'w disk_ops \<Rightarrow> string \<Rightarrow> int \<Rightarrow> int \<Rightarrow> 'w vfs \<Rightarrow> 'w vfs \<times> (vfs_err + vfs_file)" where
  "OpenFile D name flag perm s =
     (if flag mod 4 \<noteq> 0 then openWrite D name flag perm s
      else (s,
        case resolveNode name (vf_db s) of
          Inl e \<Rightarrow> Inl e
        | Inr (v, None) \<Rightarrow> Inr (VirtualDir (openDir v None (vf_db s)))
        | Inr (v, Some n) \<Rightarrow>
            if n_node_type n \<in> {''folder'', ''rule_folder''} then Inr (VirtualDir (openDir v (Some n) (vf_db s)))
            else if n_node_type n = ''file_ref'' then
              (case n_file_id n of
                 None \<Rightarrow> Inl ErrNotExist
               | Some i \<Rightarrow> (case getFile i (vf_db s) of
                   Inl e \<Rightarrow> Inl e
                 | Inr None \<Rightarrow> Inl ErrNotExist
                 | Inr (Some f) \<Rightarrow>
                     (let fullPath = path_join [vf_storagePath s, f_local_path f] in
                      if \<not> withinStorage (vf_storagePath s) fullPath then Inl ErrNotExist
                      else (case dk_Open D fullPath (vf_disk s) of
                              Inl e \<Rightarrow> Inl (OSErr e)
                            | Inr h \<Rightarrow> Inr (VirtualFile h (n_name n))))))
            else Inl ErrNotExist))"

definition resolveParentNode :: "view \<Rightarrow> string \<Rightarrow> database \<Rightarrow> int option" where
  "resolveParentNode v dirPath d =
     (if dirPath \<in> {[], ''.'', ''/''} then None
      else (case walk_names (v_id v) (split_char slash (path_clean dirPath)) None d of
              None \<Rightarrow> None
            | Some node \<Rightarrow> map_option n_id node))"

definition nodeExists :: "int \<Rightarrow> int option \<Rightarrow> string \<Rightarrow> database \<Rightarrow> bool" where
  "nodeExists viewID parentID name d = (visible_child viewID parentID name d \<noteq> None)"

definition new_node :: "int \<Rightarrow> int option \<Rightarrow> string \<Rightarrow> string \<Rightarrow> int option \<Rightarrow> node" where
  "new_node viewID parent name typ fileID =
     \<lparr>n_id = 0, n_view_id = viewID, n_parent_id = parent, n_name = name, n_node_type = typ, n_file_id = fileID,
      n_rule_config = None, n_sort_order = 0, n_status = ''visible'', n_created_at = 0\<rparr>"

definition createFolderNode :: "view \<Rightarrow> string \<Rightarrow> database \<Rightarrow> database \<times> (sql_err + unit)" where
  "createFolderNode v rest d =
     (let parent = resolveParentNode v (path_dir rest) d; name = path_base rest in
      if nodeExists (v_id v) parent name d then (d, Inr ())
      else (case repo_CreateNode (new_node (v_id v) parent name ''folder'' None) d of
              (d', Inl e) \<Rightarrow> (d', Inl e) | (d', Inr i) \<Rightarrow> (d', Inr ())))"

definition createFileRefNode :: "view \<Rightarrow> string \<Rightarrow> int \<Rightarrow> database \<Rightarrow> database \<times> (sql_err + unit)" where
  "createFileRefNode v rest fileID d =
     (let parent = resolveParentNode v (path_dir rest) d; name = path_base rest in
      if nodeExists (v_id v) parent name d then (d, Inr ())
      else (case repo_CreateNode (new_node (v_id v) parent name ''file_ref'' (Some fileID)) d of
              (d', Inl e) \<Rightarrow> (d', Inl e) | (d', Inr i) \<Rightarrow> (d', Inr ())))"

definition Mkdir :: "'w disk_ops \<Rightarrow> string \<Rightarrow> int \<Rightarrow> 'w vfs \<Rightarrow> 'w vfs \<times> (vfs_err + unit)" where
  "Mkdir D name perm s =
     (case resolveView name (vf_db s) of
        Inl e \<Rightarrow> (s, Inl e)
      | Inr (v, rest) \<Rightarrow>
          if \<not> v_writable v then (s, Inl ErrPerm)
          else if rest = [] then (s, Inl ErrInvalid)
          else (case dk_Mkdir D (upload_root s) rest perm (vf_disk s) of
                  (w, Inl e) \<Rightarrow> (s\<lparr>vf_disk := w\<rparr>, Inl (OSErr e))
                | (w, Inr u) \<Rightarrow> (set_db (fst (createFolderNode v rest (vf_db s))) (s\<lparr>vf_disk := w\<rparr>), Inr ())))"

definition RemoveAll :: "'w disk_ops \<Rightarrow> string \<Rightarrow> 'w vfs \<Rightarrow> 'w vfs \<times> (vfs_err + unit)" where
  "RemoveAll D name s =
     (case resolveView name (vf_db s) of
        Inl e \<Rightarrow> (s, Inl e)
      | Inr (v, rest) \<Rightarrow>
          if \<not> v_writable v then (s, Inl ErrPerm)
          else if rest = [] then (s, Inl ErrInvalid)
          else (case dk_RemoveAll D (upload_root s) rest (vf_disk s) of
                  (w, Inl e) \<Rightarrow> (s\<lparr>vf_disk := w\<rparr>, Inl (OSErr e))
                | (w, Inr u) \<Rightarrow>
                    (let s1 = s\<lparr>vf_disk := w\<rparr> in
                     case resolveNode name (vf_db s) of
                       Inr (_, Some n) \<Rightarrow>
                         if n_node_type n = ''file_ref'' then
                           (case n_file_id n of
                              None \<Rightarrow> (s1, Inr ())
                            | Some i \<Rightarrow> (case SoftDelete i (vf_reg s) of
                                (r, Inl BusPanic) \<Rightarrow> (s1\<lparr>vf_reg := r\<rparr>, Inl VfsPanic)
                              | (r, _) \<Rightarrow> (s1\<lparr>vf_reg := r\<rparr>, Inr ())))
                         else (s1, Inr ())
                     | _ \<Rightarrow> (s1, Inr ()))))"

definition Rename :: "'w disk_ops \<Rightarrow> string \<Rightarrow> string \<Rightarrow> 'w vfs \<Rightarrow> 'w vfs \<times> (vfs_err + unit)" where
  "Rename D oldName newName s =
     (case resolveView oldName (vf_db s) of
        Inl e \<Rightarrow> (s, Inl e)
      | Inr (v, oldRest) \<Rightarrow>
          if \<not> v_writable v then (s, Inl ErrPerm)
          else (case resolveView newName (vf_db s) of
            Inl e \<Rightarrow> (s, Inl e)
          | Inr (_, newRest) \<Rightarrow>
              if oldRest = [] \<or> newRest = [] then (s, Inl ErrInvalid)
              else (case dk_Rename D (upload_root s) oldRest newRest (vf_disk s) of
                      (w, Inl e) \<Rightarrow> (s\<lparr>vf_disk := w\<rparr>, Inl (OSErr e))
                    | (w, Inr u) \<Rightarrow>
                        (case resolveNode oldName (vf_db s) of
                           Inr (_, Some n) \<Rightarrow>
                             (set_db (fst (repo_UpdateNode (n\<lparr>n_name := path_base newRest\<rparr>) (vf_db s))) (s\<lparr>vf_disk := w\<rparr>), Inr ())
                         | _ \<Rightarrow> (s\<lparr>vf_disk := w\<rparr>, Inr ())))))"

text \<open>Closing an upload. \<^const>\<open>None\<close>: the random source has not answered yet. Errors of the
  registration are logged only.\<close>

definition register_upload :: "manualUploadFile \<Rightarrow> int \<Rightarrow> 'w vfs \<Rightarrow> ('w vfs \<times> (vfs_err + unit)) option" where
  "register_upload f sz s =
     (case getOrCreateManualProject (vf_db s) of
        (d, Inl e) \<Rightarrow> Some (set_db d s, Inr ())
      | (d, Inr projectID) \<Rightarrow>
          (case RegisterFile ''manual_upload'' ''manual'' ''webdav'' (mu_localPath f) projectID (path_base (mu_localPath f)) [] sz []
                  (vf_reg (set_db d s)) of
             None \<Rightarrow> None
           | Some (r, Inl BusPanic) \<Rightarrow> Some (s\<lparr>vf_reg := r\<rparr>, Inl VfsPanic)
           | Some (r, Inl e) \<Rightarrow> Some (s\<lparr>vf_reg := r\<rparr>, Inr ())
           | Some (r, Inr fileID) \<Rightarrow>
               Some (set_db (fst (createFileRefNode (mu_view f) (trim_prefix (mu_localPath f) (manualUploadsSubdir @ ''/'')) fileID (rg_db r)))
                       (s\<lparr>vf_reg := r\<rparr>), Inr ())))"

definition manualUploadFile_Close ::
  "'w disk_ops \<Rightarrow> manualUploadFile \<Rightarrow> 'w vfs \<Rightarrow> (manualUploadFile \<times> 'w vfs \<times> (vfs_err + unit)) option" where
  "manualUploadFile_Close D f s =
     (case dk_Close D (mu_File f) (vf_disk s) of
        (w, Inl e) \<Rightarrow> Some (f, s\<lparr>vf_disk := w\<rparr>, Inl (OSErr e))
      | (w, Inr u) \<Rightarrow>
          if mu_registered f then Some (f, s\<lparr>vf_disk := w\<rparr>, Inr ())
          else (let f' = f\<lparr>mu_registered := True\<rparr> in
            case dk_Stat D (path_join [vf_storagePath s, mu_localPath f]) w of
              None \<Rightarrow> Some (f', s\<lparr>vf_disk := w\<rparr>, Inr ())
            | Some sz \<Rightarrow> map_option (Pair f') (register_upload f sz (s\<lparr>vf_disk := w\<rparr>))))"

section \<open>Facts on resolution\<close>

lemma path_parts_eq: "path_parts name = (if clean_list (slash # name) = [] then [[]] else clean_list (slash # name))"
proof -
  have "path_parts name = split_char slash (join_char slash (clean_list (slash # name)))"
    by (simp add: path_parts_def path_clean_def render_path_def trim_prefix_def has_prefix_def)
  then show ?thesis using clean_elems(2) [of _ name] by (auto intro: split_join_char)
qed

text \<open>A path in the form the clients send it.\<close>

definition url_path :: "string list \<Rightarrow> string" where
  "url_path segs = slash # join_char slash segs"

lemma clean_list_url_path [simp]:
  assumes "list_all seg_ok segs" shows "clean_list (slash # url_path segs) = segs"
proof (cases segs)
  case Nil
  then show ?thesis by (simp add: url_path_def clean_list_def)
next
  case (Cons e es)
  have "split_char slash (join_char slash segs) = segs"
    using assms Cons by (intro split_join_char) (auto simp: seg_ok_def list_all_iff)
  then show ?thesis using clean_stack_form_id [OF clean_form_segs [OF assms, of True]]
    by (simp add: url_path_def clean_list_def)
qed

definition find_view :: "string \<Rightarrow> string \<Rightarrow> database \<Rightarrow> view option" where
  "find_view ch vs d = (case repo_GetChannelBySlug ch d of None \<Rightarrow> None | Some c \<Rightarrow> findViewBySlug (c_id c) vs d)"

lemma resolveView_eq:
  "resolveView name d =
     (case clean_list (slash # name) of
        ch # vs # rest \<Rightarrow> (case find_view ch vs d of None \<Rightarrow> Inl ErrNotExist | Some v \<Rightarrow> Inr (v, join_char slash rest))
      | _ \<Rightarrow> Inl ErrNotExist)"
  using clean_elems(1) [of _ name]
  by (auto simp: resolveView_def path_parts_eq find_view_def split: list.split option.split)

lemma walk_names_append:
  "walk_names v (xs @ ys) node d = (case walk_names v xs node d of None \<Rightarrow> None | Some n \<Rightarrow> walk_names v ys n d)"
  by (induction xs arbitrary: node) (auto split: option.split)

lemma resolveNode_eq:
  "resolveNode name d =
     (case clean_list (slash # name) of
        ch # vs # rest \<Rightarrow>
          (case find_view ch vs d of
             None \<Rightarrow> Inl ErrNotExist
           | Some v \<Rightarrow> (case walk_names (v_id v) rest None d of None \<Rightarrow> Inl ErrNotExist | Some node \<Rightarrow> Inr (v, node)))
      | _ \<Rightarrow> Inl ErrNotExist)"
proof -
  have "join_char slash rest = [] \<longleftrightarrow> rest = []" "rest \<noteq> [] \<Longrightarrow> split_char slash (join_char slash rest) = rest"
    if "clean_list (slash # name) = ch # vs # rest" for ch vs rest
    using clean_elems [of _ name] that by (auto intro!: split_join_char simp: join_char_eq_Nil)
  then show ?thesis by (auto simp: resolveNode_def resolveView_eq split: list.split option.split)
qed

lemma visible_child_SomeD:
  "visible_child v p seg d = Some n \<Longrightarrow>
   n \<in> set (t_nodes d) \<and> n_view_id n = v \<and> n_parent_id n = p \<and> n_status n = ''visible'' \<and> n_name n = seg"
  by (auto simp: visible_child_def repo_ListNodesByParent_def dest!: find_SomeD)

lemma visible_child_None_iff:
  "visible_child v p seg d = None \<longleftrightarrow>
   \<not> (\<exists>n \<in> set (t_nodes d). n_view_id n = v \<and> n_parent_id n = p \<and> n_status n = ''visible'' \<and> n_name n = seg)"
  by (auto simp: visible_child_def repo_ListNodesByParent_def find_None_iff)

text \<open>The nodes a path names: visible, each below the one before it.\<close>

fun chain :: "database \<Rightarrow> int \<Rightarrow> int option \<Rightarrow> string list \<Rightarrow> node list \<Rightarrow> bool" where
  "chain d v p [] ns \<longleftrightarrow> ns = []"
| "chain d v p (seg # segs) ns \<longleftrightarrow> (\<exists>n ms. ns = n # ms \<and> n \<in> set (t_nodes d) \<and> n_view_id n = v \<and> n_parent_id n = p \<and>
     n_status n = ''visible'' \<and> n_name n = seg \<and> chain d v (Some (n_id n)) segs ms)"

lemma chain_last:
  "chain d v p segs ns \<Longrightarrow> ns \<noteq> [] \<Longrightarrow> last ns \<in> set (t_nodes d) \<and> n_view_id (last ns) = v \<and> n_status (last ns) = ''visible''"
proof (induction segs arbitrary: p ns)
  case (Cons seg segs)
  then obtain n ms where n: "ns = n # ms" "n \<in> set (t_nodes d)" "n_view_id n = v" "n_status n = ''visible''"
    "chain d v (Some (n_id n)) segs ms" by auto
  show ?case using n Cons.IH [OF n(5)] by (cases "ms = []") simp_all
qed simp

definition unique_names :: "database \<Rightarrow> bool" where
  "unique_names d \<longleftrightarrow> (\<forall>m \<in> set (t_nodes d). \<forall>n \<in> set (t_nodes d).
     n_view_id m = n_view_id n \<and> n_parent_id m = n_parent_id n \<and> n_name m = n_name n \<and>
     n_status m = ''visible'' \<and> n_status n = ''visible'' \<longrightarrow> m = n)"

lemma walk_names_chain:
  assumes "\<forall>e \<in> set segs. e \<noteq> []" "walk_names v segs node d = Some r"
  shows "\<exists>ns. chain d v (map_option n_id node) segs ns \<and> r = (if ns = [] then node else Some (last ns))"
  using assms
proof (induction segs arbitrary: node)
  case (Cons seg segs)
  then obtain n where n: "visible_child v (map_option n_id node) seg d = Some n" "walk_names v segs (Some n) d = Some r"
    by (auto split: option.splits)
  then obtain ms where "chain d v (Some (n_id n)) segs ms" "r = (if ms = [] then Some n else Some (last ms))"
    using Cons.IH [of "Some n"] Cons.prems by auto
  then show ?case using visible_child_SomeD [OF n(1)] by (intro exI [of _ "n # ms"]) auto
qed simp

lemma chain_walk_names:
  assumes "\<forall>e \<in> set segs. e \<noteq> []" "unique_names d" "chain d v (map_option n_id node) segs ns"
  shows "walk_names v segs node d = Some (if ns = [] then node else Some (last ns))"
  using assms
proof (induction segs arbitrary: node ns)
  case (Cons seg segs)
  then obtain n ms where n: "ns = n # ms" "n \<in> set (t_nodes d)" "n_view_id n = v" "n_parent_id n = map_option n_id node"
    "n_status n = ''visible''" "n_name n = seg" "chain d v (map_option n_id (Some n)) segs ms" by auto
  obtain m where m: "visible_child v (map_option n_id node) seg d = Some m"
    using n visible_child_None_iff [of v "map_option n_id node" seg d] by (cases "visible_child v (map_option n_id node) seg d") auto
  then have "m = n" using visible_child_SomeD [OF m] n Cons.prems(2) unfolding unique_names_def by metis
  then show ?case using m n Cons.IH [of "Some n" ms] Cons.prems by simp
qed simp

lemma find_view_iff:
  assumes "schema_ok d"
  shows "find_view ch vs d = Some v \<longleftrightarrow>
    (\<exists>c \<in> set (t_channels d). c_slug c = ch \<and> v \<in> set (t_views d) \<and> v_channel_id v = c_id c \<and> v_slug v = vs)"
proof -
  have D: "distinct (map c_slug (t_channels d))" "distinct (map v_slug (t_views d))"
    using assms by (simp_all add: schema_ok_def keys_ok_def)
  have L: "set (repo_ListViewsByChannel i d) = {v \<in> set (t_views d). v_channel_id v = i}" for i
    by (auto simp: repo_ListViewsByChannel_def)
  have F: "findViewBySlug i vs d = Some v \<longleftrightarrow> v \<in> set (t_views d) \<and> v_channel_id v = i \<and> v_slug v = vs" for i
  proof
    assume "findViewBySlug i vs d = Some v"
    then show "v \<in> set (t_views d) \<and> v_channel_id v = i \<and> v_slug v = vs"
      using L [of i] by (auto simp: findViewBySlug_def dest!: find_SomeD)
  next
    assume v: "v \<in> set (t_views d) \<and> v_channel_id v = i \<and> v_slug v = vs"
    then obtain w where w: "findViewBySlug i vs d = Some w"
      using L [of i] by (cases "findViewBySlug i vs d") (auto simp: findViewBySlug_def find_None_iff)
    then have "w \<in> set (t_views d)" "v_slug w = vs" using L [of i] by (auto simp: findViewBySlug_def dest!: find_SomeD)
    then show "findViewBySlug i vs d = Some v" using w v D(2) by (auto simp: distinct_map inj_on_def)
  qed
  have C: "c = c'" if "c \<in> set (t_channels d)" "c' \<in> set (t_channels d)" "c_slug c = c_slug c'" for c c'
    using that D(1) by (auto simp: distinct_map inj_on_def)
  show ?thesis
    using D(1) by (auto dest: C simp: find_view_def F repo_GetChannelBySlug_def row_by_eq_Some_iff row_by_None_iff split: option.split)
qed


lemma resolveView_in_views: "resolveView name d = Inr (v, rest) \<Longrightarrow> v \<in> set (t_views d)"
  by (auto simp: resolveView_eq find_view_def findViewBySlug_def repo_ListViewsByChannel_def
      dest!: find_SomeD split: list.splits option.splits)

lemma resolveNode_in_nodes:
  assumes "resolveNode name d = Inr (v, Some n)"
  shows "n \<in> set (t_nodes d) \<and> n_view_id n = v_id v \<and> n_status n = ''visible'' \<and> (\<exists>rest. resolveView name d = Inr (v, rest))"
proof -
  obtain segs where w: "walk_names (v_id v) segs None d = Some (Some n)" "\<forall>e \<in> set segs. e \<noteq> []"
    using assms clean_elems(1) [of _ name] by (auto simp: resolveNode_eq split: list.splits option.splits)
  then obtain ns where "chain d (v_id v) None segs ns" "n = last ns" "ns \<noteq> []"
    using walk_names_chain [OF w(2,1)] by (auto split: if_splits)
  moreover have "\<exists>rest. resolveView name d = Inr (v, rest)"
    using assms by (auto simp: resolveNode_def split: sum.splits prod.splits if_splits option.splits)
  ultimately show ?thesis using chain_last by blast
qed

section \<open>Properties\<close>

text \<open>
  C14: Paths resolve to exactly the nodes they name. When sibling names are unique, a request path
  resolves to a view and a node if and only if its elements, after cleaning, are the slug of a
  channel, the slug of a view of that channel, and the names of a chain of visible nodes that starts
  at a root of the view; the node is the last one of the chain, none when the chain is empty.
\<close>
theorem resolveNode_exact:
  assumes "schema_ok d" "unique_names d"
  shows "resolveNode name d = Inr (v, node) \<longleftrightarrow>
    (\<exists>c segs ns. clean_list (slash # name) = c_slug c # v_slug v # segs \<and> c \<in> set (t_channels d) \<and>
       v \<in> set (t_views d) \<and> v_channel_id v = c_id c \<and>
       chain d (v_id v) None segs ns \<and> node = (if ns = [] then None else Some (last ns)))"
    (is "?l \<longleftrightarrow> ?r")
proof
  assume ?l
  then obtain ch vs segs where p: "clean_list (slash # name) = ch # vs # segs" "find_view ch vs d = Some v"
    "walk_names (v_id v) segs None d = Some node"
    by (auto simp: resolveNode_eq split: list.splits option.splits)
  have "\<forall>e \<in> set segs. e \<noteq> []" using clean_elems(1) [of _ name] p(1) by auto
  from walk_names_chain [OF this p(3)] p find_view_iff [OF assms(1), of ch vs v] show ?r by auto
next
  assume ?r
  then obtain c segs ns where r: "clean_list (slash # name) = c_slug c # v_slug v # segs" "c \<in> set (t_channels d)"
    "v \<in> set (t_views d)" "v_channel_id v = c_id c" "chain d (v_id v) None segs ns" "node = (if ns = [] then None else Some (last ns))"
    by blast
  have "find_view (c_slug c) (v_slug v) d = Some v" using find_view_iff [OF assms(1)] r by blast
  moreover have "walk_names (v_id v) segs None d = Some node"
    using chain_walk_names [OF _ assms(2), of segs "v_id v" None ns] clean_elems(1) [of _ name] r by auto
  ultimately show ?l using r(1) by (simp add: resolveNode_eq)
qed

text \<open>
  Reads stay inside the storage. A read-only open that yields a file changes nothing, goes
  through a visible file reference of the resolved view, and opens the path of the referenced row of
  the files table, which lies inside the storage directory (for storage directories that do not end
  in a step up).
\<close>
theorem OpenFile_confined:
  assumes "root_ok (vf_storagePath s)" "OpenFile D name flag perm s = (s', Inr (VirtualFile h nm))"
  shows "s' = s \<and> (\<exists>v n f. resolveNode name (vf_db s) = Inr (v, Some n) \<and> n_status n = ''visible'' \<and> n_view_id n = v_id v \<and>
    n_name n = nm \<and> n_file_id n = Some (f_id f) \<and> f \<in> set (t_files (vf_db s)) \<and>
    dk_Open D (path_join [vf_storagePath s, f_local_path f]) (vf_disk s) = Inr h \<and>
    path_within (vf_storagePath s) (path_join [vf_storagePath s, f_local_path f]))"
proof -
  have ro: "flag mod 4 = 0"
    using assms(2) by (auto simp: OpenFile_def openWrite_def split: if_splits sum.splits prod.splits)
  from assms(2) ro obtain v n i f where o: "s' = s" "resolveNode name (vf_db s) = Inr (v, Some n)" "n_name n = nm" "n_file_id n = Some i"
    "getFile i (vf_db s) = Inr (Some f)" "withinStorage (vf_storagePath s) (path_join [vf_storagePath s, f_local_path f])"
    "dk_Open D (path_join [vf_storagePath s, f_local_path f]) (vf_disk s) = Inr h"
    by (auto simp: OpenFile_def Let_def split: if_splits sum.splits prod.splits option.splits)
  have f: "f \<in> set (t_files (vf_db s))" "f_id f = i"
    using o(5) by (auto simp: getFile_def dest!: row_by_SomeD split: option.splits if_splits)
  show ?thesis using resolveNode_in_nodes [OF o(2)] o f withinStorage_within [OF assms(1) o(6)] by auto
qed

section \<open>A concrete file system\<close>

text \<open>A disk that is the list of the paths with a file, and a database with a channel, a writable and
  a read-only view, a folder and a file in it.\<close>

definition list_disk :: "string list disk_ops" where
  "list_disk = \<lparr>dk_Mkdir = \<lambda>root name perm w. (w, Inr ()),
     dk_RemoveAll = \<lambda>root name w. (filter (\<lambda>p. p \<noteq> path_join [root, name]) w, Inr ()),
     dk_Rename = \<lambda>root a b w. (map (\<lambda>p. if p = path_join [root, a] then path_join [root, b] else p) w, Inr ()),
     dk_OpenFile = \<lambda>root name flag perm w. (path_join [root, name] # w, Inr 3),
     dk_Close = \<lambda>h w. (w, Inr ()),
     dk_Open = \<lambda>p w. if p \<in> set w then Inr 7 else Inl ''no such file'',
     dk_Stat = \<lambda>p w. if p \<in> set w then Some 5 else None\<rparr>"

definition demo_view :: "int \<Rightarrow> string \<Rightarrow> bool \<Rightarrow> view" where
  "demo_view i slug w = \<lparr>v_id = i, v_slug = slug, v_name = slug, v_channel_id = 1, v_mode = ''curated'', v_writable = w, v_sort_order = 0, v_created_at = 0\<rparr>"

definition demo_node :: "int \<Rightarrow> int option \<Rightarrow> string \<Rightarrow> string \<Rightarrow> int option \<Rightarrow> node" where
  "demo_node i p name ty fid = (new_node 1 p name ty fid)\<lparr>n_id := i\<rparr>"

definition demo_row :: file_row where
  "demo_row = registered_row ''manual_upload'' ''manual'' ''webdav'' ''webdav/manual_uploads/docs/a'' 1 ''a'' [] 5 [] ''tok'' (empty_db 0)"

definition demo_db :: database where
  "demo_db = (empty_db 9)\<lparr>
     t_channels := [\<lparr>c_id = 1, c_slug = ''pub'', c_name = ''pub'', c_auth_mode = ''none'', c_description = [], c_created_at = 0\<rparr>],
     t_views := [demo_view 1 ''up'' True, demo_view 2 ''ro'' False],
     t_nodes := [demo_node 1 None ''docs'' ''folder'' None, demo_node 2 (Some 1) ''a'' ''file_ref'' (Some 1)],
     t_projects := [new_project ''m'' ''M'' ''manual_upload'' [] ''{}'' \<lparr>p_id := 1\<rparr>], t_files := [demo_row],
     seq_channels := 1, seq_views := 2, seq_nodes := 2, seq_projects := 1, seq_files := 1\<rparr>"

definition demo_vfs :: "string list vfs" where
  "demo_vfs = \<lparr>vf_storagePath = ''data'', vf_reg = \<lparr>rg_db = demo_db, rg_bus = None, rg_draws = [long_draw]\<rparr>,
     vf_disk = [''data/webdav/manual_uploads/docs/a'']\<rparr>"

lemma demo_db_ok: "schema_ok demo_db" "unique_names demo_db"
  by code_simp+

theorem resolveNode_exact_witness:
  "schema_ok demo_db \<and> unique_names demo_db \<and> resolveNode ''/pub/up/docs/a'' demo_db = Inr (demo_view 1 ''up'' True, Some (demo_node 2 (Some 1) ''a'' ''file_ref'' (Some 1))) \<and>
   (\<exists>ns. chain demo_db 1 None [''docs'', ''a''] ns \<and> last ns = demo_node 2 (Some 1) ''a'' ''file_ref'' (Some 1))"
proof -
  have r: "resolveNode ''/pub/up/docs/a'' demo_db = Inr (demo_view 1 ''up'' True, Some (demo_node 2 (Some 1) ''a'' ''file_ref'' (Some 1)))" by code_simp
  have c: "clean_list (slash # ''/pub/up/docs/a'') = [''pub'', ''up'', ''docs'', ''a'']" by code_simp
  have v: "v_id (demo_view 1 ''up'' True) = 1" by (simp add: demo_view_def)
  from resolveNode_exact [OF demo_db_ok(1,2)] r c v obtain ns where
    ns: "chain demo_db 1 None [''docs'', ''a''] ns" "Some (demo_node 2 (Some 1) ''a'' ''file_ref'' (Some 1)) = (if ns = [] then None else Some (last ns))"
    by auto
  then have "last ns = demo_node 2 (Some 1) ''a'' ''file_ref'' (Some 1)" by (cases "ns = []") simp_all
  then show ?thesis using r demo_db_ok ns(1) by blast
qed

theorem OpenFile_confined_witness:
  "root_ok (vf_storagePath demo_vfs) \<and> OpenFile list_disk ''/pub/up/docs/a'' 0 0 demo_vfs = (demo_vfs, Inr (VirtualFile 7 ''a'')) \<and>
   path_within ''data'' (path_join [''data'', ''webdav/manual_uploads/docs/a''])"
proof -
  have r: "root_ok (vf_storagePath demo_vfs)" by code_simp
  have o: "OpenFile list_disk ''/pub/up/docs/a'' 0 0 demo_vfs = (demo_vfs, Inr (VirtualFile 7 ''a''))" by code_simp
  have d: "set (t_files (vf_db demo_vfs)) = {demo_row}" "vf_storagePath demo_vfs = ''data''" "f_local_path demo_row = ''webdav/manual_uploads/docs/a''"
    by (simp_all add: demo_vfs_def demo_db_def demo_row_def registered_row_def)
  from OpenFile_confined [OF r o] d show ?thesis using r o by auto
qed

end
