(* ===== verification/VFS_Writes.thy ===== *)
theory VFS_Writes
  imports Virtual_FS
begin

text \<open>
  What the write operations of the virtual file system (\<open>Virtual_FS\<close>) do to the tree and the
  files table: they stay within writable views, an upload becomes visible and readable under its
  path, a rename leaves the path of the file behind.
\<close>

section \<open>What the file system may change\<close>

text \<open>The rows of views that are not writable, and how a state may extend another: channels, views
  and the nodes of other views stay as they are, rows of the files table are only added.\<close>

definition writable_view :: "database \<Rightarrow> int \<Rightarrow> bool" where
  "writable_view d i \<longleftrightarrow> (\<exists>v \<in> set (t_views d). v_id v = i \<and> v_writable v)"

definition protected_nodes :: "database \<Rightarrow> node list" where
  "protected_nodes d = filter (\<lambda>n. \<not> writable_view d (n_view_id n)) (t_nodes d)"

definition vfs_extends :: "database \<Rightarrow> database \<Rightarrow> bool" where
  "vfs_extends d d' \<longleftrightarrow> t_channels d' = t_channels d \<and> t_views d' = t_views d \<and> protected_nodes d' = protected_nodes d \<and>
     t_share_links d' = t_share_links d \<and> t_rule_entries d' = t_rule_entries d \<and> t_paths d' = t_paths d \<and>
     (\<exists>new. t_files d' = t_files d @ new)"

definition nodes_keyed :: "database \<Rightarrow> bool" where
  "nodes_keyed d \<longleftrightarrow> 0 \<le> seq_nodes d \<and> keyed n_id (t_nodes d) (seq_nodes d)"

lemma vfs_extends_refl [simp]: "vfs_extends d d"
  by (simp add: vfs_extends_def)

lemma vfs_extends_trans: "vfs_extends a b \<Longrightarrow> vfs_extends b c \<Longrightarrow> vfs_extends a c"
  by (auto simp: vfs_extends_def)

lemma vfs_extends_files: "vfs_extends d (d\<lparr>t_files := t_files d @ [row], seq_files := i\<rparr>)"
  by (simp add: vfs_extends_def protected_nodes_def writable_view_def)

lemma nodes_keyed_frame [simp]:
  "nodes_keyed (d\<lparr>t_files := fs, seq_files := i\<rparr>) = nodes_keyed d" "nodes_keyed (d\<lparr>t_projects := ps, seq_projects := i\<rparr>) = nodes_keyed d"
  by (simp_all add: nodes_keyed_def)

lemma CreateNode_ext:
  assumes "writable_view d (n_view_id n)" "nodes_keyed d"
  shows "vfs_extends d (fst (repo_CreateNode n d)) \<and> nodes_keyed (fst (repo_CreateNode n d))"
  using assms by (auto simp: repo_CreateNode_def Let_def vfs_extends_def protected_nodes_def writable_view_def nodes_keyed_def intro: keyed_append)

lemma fst_drop_id: "fst (case p of (d, Inl e) \<Rightarrow> (d, Inl e) | (d, Inr i) \<Rightarrow> (d, Inr ())) = fst p"
  by (simp split: prod.split sum.split)

lemma create_nodes_ext:
  assumes "writable_view d (v_id v)" "nodes_keyed d"
  shows "vfs_extends d (fst (createFolderNode v rest d)) \<and> nodes_keyed (fst (createFolderNode v rest d))"
    "vfs_extends d (fst (createFileRefNode v rest i d)) \<and> nodes_keyed (fst (createFileRefNode v rest i d))"
proof -
  have "n_view_id (new_node (v_id v) p nm ty fid) = v_id v" for p nm ty fid by (simp add: new_node_def)
  then have "vfs_extends d (fst (repo_CreateNode (new_node (v_id v) p nm ty fid) d)) \<and> nodes_keyed (fst (repo_CreateNode (new_node (v_id v) p nm ty fid) d))" for p nm ty fid
    using CreateNode_ext assms by simp
  then show "vfs_extends d (fst (createFolderNode v rest d)) \<and> nodes_keyed (fst (createFolderNode v rest d))"
    "vfs_extends d (fst (createFileRefNode v rest i d)) \<and> nodes_keyed (fst (createFileRefNode v rest i d))"
    using assms by (simp_all add: createFolderNode_def createFileRefNode_def Let_def fst_drop_id)
qed

lemma UpdateNode_ext:
  assumes "n \<in> set (t_nodes d)" "writable_view d (n_view_id n)" "nodes_keyed d"
  shows "vfs_extends d (fst (repo_UpdateNode (n\<lparr>n_name := nm\<rparr>) d)) \<and> nodes_keyed (fst (repo_UpdateNode (n\<lparr>n_name := nm\<rparr>) d))"
proof -
  let ?f = "\<lambda>r. r\<lparr>n_name := nm, n_node_type := n_node_type n, n_file_id := n_file_id n, n_rule_config := n_rule_config n, n_sort_order := n_sort_order n\<rparr>"
  have inj: "m = n" if "m \<in> set (t_nodes d)" "n_id m = n_id n" for m
    using that assms(1,3) by (auto simp: nodes_keyed_def keyed_def distinct_map inj_on_def)
  have "filter (\<lambda>n. \<not> writable_view d (n_view_id n)) (upd_row n_id (n_id n) ?f ns) = filter (\<lambda>n. \<not> writable_view d (n_view_id n)) ns"
    if "set ns \<subseteq> set (t_nodes d)" for ns using that inj assms(2) by (induction ns) auto
  then have "protected_nodes (d\<lparr>t_nodes := upd_row n_id (n_id n) ?f (t_nodes d)\<rparr>) = protected_nodes d"
    by (simp add: protected_nodes_def writable_view_def)
  then show ?thesis using assms by (auto simp: repo_UpdateNode_def vfs_extends_def nodes_keyed_def)
qed

text \<open>Calls of clients; uploads are closed through the handles that opening them gave out.\<close>

datatype vfs_call = VMkdir string int | VRemoveAll string | VRename string string | VOpen string int int | VClose nat

fun vfs_exec :: "'w disk_ops \<Rightarrow> vfs_call \<Rightarrow> 'w vfs \<times> manualUploadFile list \<Rightarrow> ('w vfs \<times> manualUploadFile list) option" where
  "vfs_exec D (VMkdir name perm) (s, hs) = Some (fst (Mkdir D name perm s), hs)"
| "vfs_exec D (VRemoveAll name) (s, hs) = Some (fst (RemoveAll D name s), hs)"
| "vfs_exec D (VRename a b) (s, hs) = Some (fst (Rename D a b s), hs)"
| "vfs_exec D (VOpen name flag perm) (s, hs) =
     (case OpenFile D name flag perm s of
        (s', Inr (ManualUpload f)) \<Rightarrow> Some (s', hs @ [f]) | (s', _) \<Rightarrow> Some (s', hs))"
| "vfs_exec D (VClose k) (s, hs) =
     (if k < length hs then (case manualUploadFile_Close D (hs ! k) s of None \<Rightarrow> None | Some (f, s', r) \<Rightarrow> Some (s', hs[k := f]))
      else Some (s, hs))"

definition handles_ok :: "database \<Rightarrow> manualUploadFile list \<Rightarrow> bool" where
  "handles_ok d hs \<longleftrightarrow> (\<forall>f \<in> set hs. mu_view f \<in> set (t_views d) \<and> v_writable (mu_view f))"

lemma set_db_simps [simp]:
  "vf_db (set_db d s) = d" "vf_disk (set_db d s) = vf_disk s" "vf_storagePath (set_db d s) = vf_storagePath s"
  "rg_draws (vf_reg (set_db d s)) = rg_draws (vf_reg s)" "rg_bus (vf_reg (set_db d s)) = rg_bus (vf_reg s)"
  by (simp_all add: set_db_def)

lemma Mkdir_ext:
  assumes "nodes_keyed (vf_db s)"
  shows "vfs_extends (vf_db s) (vf_db (fst (Mkdir D name perm s))) \<and> nodes_keyed (vf_db (fst (Mkdir D name perm s)))"
proof -
  have "vfs_extends (vf_db s) (fst (createFolderNode v rest (vf_db s))) \<and> nodes_keyed (fst (createFolderNode v rest (vf_db s)))"
    if "resolveView name (vf_db s) = Inr (v, rest)" "v_writable v" for v rest
    using that resolveView_in_views assms by (intro create_nodes_ext) (auto simp: writable_view_def)
  then show ?thesis using assms by (auto simp: Mkdir_def split: sum.splits prod.splits)
qed

lemma RemoveAll_ext: "vf_reg (fst (RemoveAll D name s)) = vf_reg s"
proof -
  have "fst (SoftDelete i (vf_reg s)) = vf_reg s" for i using SoftDelete_unchanged by blast
  then show ?thesis unfolding RemoveAll_def Let_def
    by (auto split: sum.splits prod.splits option.splits reg_err.splits) (metis fst_conv)+
qed

lemma Rename_ext:
  assumes "nodes_keyed (vf_db s)"
  shows "vfs_extends (vf_db s) (vf_db (fst (Rename D a b s))) \<and> nodes_keyed (vf_db (fst (Rename D a b s)))"
proof -
  have "vfs_extends (vf_db s) (fst (repo_UpdateNode (n\<lparr>n_name := nm\<rparr>) (vf_db s))) \<and> nodes_keyed (fst (repo_UpdateNode (n\<lparr>n_name := nm\<rparr>) (vf_db s)))"
    if "resolveView a (vf_db s) = Inr (v, rest)" "v_writable v" "resolveNode a (vf_db s) = Inr (v', Some n)" for v rest v' n nm
    using resolveNode_in_nodes [OF that(3)] that resolveView_in_views [OF that(1)] assms
    by (intro UpdateNode_ext) (auto simp: writable_view_def)
  then show ?thesis using assms by (auto simp: Rename_def split: sum.splits prod.splits option.splits)
qed

lemma register_upload_ext:
  assumes "nodes_keyed (vf_db s)" "mu_view f \<in> set (t_views (vf_db s))" "v_writable (mu_view f)" "register_upload f sz s = Some (s', r)"
  shows "vfs_extends (vf_db s) (vf_db s') \<and> nodes_keyed (vf_db s')"
proof -
  obtain d p where p: "getOrCreateManualProject (vf_db s) = (d, p)" by fastforce
  then have d: "vfs_extends (vf_db s) d" "nodes_keyed d"
    using assms(1) by (auto simp: getOrCreateManualProject_def insert_project_def Let_def vfs_extends_def protected_nodes_def writable_view_def
        split: option.splits if_splits)
  show ?thesis
  proof (cases p)
    case (Inl e)
    then show ?thesis using assms(4) p d by (auto simp: register_upload_def)
  next
    case (Inr pid)
    then obtain t q where t: "RegisterFile ''manual_upload'' ''manual'' ''webdav'' (mu_localPath f) pid (path_base (mu_localPath f)) [] sz [] (vf_reg (set_db d s)) = Some (t, q)"
      using assms(4) p by (auto simp: register_upload_def split: option.splits)
    have "rg_db t = d \<or> (\<exists>row i. rg_db t = d\<lparr>t_files := t_files d @ [row], seq_files := i\<rparr>)" using RegisterFile_db [OF t] by simp
    then have e: "vfs_extends d (rg_db t)" "nodes_keyed (rg_db t)" using vfs_extends_files d(2) by (metis vfs_extends_refl, metis nodes_keyed_frame(1))
    have "t_views (rg_db t) = t_views (vf_db s)" using d(1) e(1) by (simp add: vfs_extends_def)
    then have "writable_view (rg_db t) (v_id (mu_view f))" using assms(2,3) by (auto simp: writable_view_def)
    note c = create_nodes_ext(2) [OF this e(2)]
    have "vf_db s' = rg_db t \<or> (\<exists>rest i. vf_db s' = fst (createFileRefNode (mu_view f) rest i (rg_db t)))"
      using assms(4) p Inr t by (auto simp: register_upload_def split: sum.splits reg_err.splits; blast)
    then show ?thesis using c e d vfs_extends_trans by metis
  qed
qed

lemma vfs_exec_ext:
  assumes "nodes_keyed (vf_db s)" "handles_ok (vf_db s) hs" "vfs_exec D c (s, hs) = Some (s', hs')"
  shows "vfs_extends (vf_db s) (vf_db s') \<and> nodes_keyed (vf_db s') \<and> handles_ok (vf_db s') hs'"
proof -
  have keep: "handles_ok d' hs" if "vfs_extends (vf_db s) d'" for d' using that assms(2) by (auto simp: vfs_extends_def handles_ok_def)
  show ?thesis
  proof (cases c)
    case (VMkdir name perm)
    then show ?thesis using Mkdir_ext [OF assms(1), of D name perm] keep assms(3) by auto
  next
    case (VRemoveAll name)
    then show ?thesis using RemoveAll_ext [of D name s] assms keep [of "vf_db s"] by auto
  next
    case (VRename a b)
    then show ?thesis using Rename_ext [OF assms(1), of D a b] keep assms(3) by auto
  next
    case (VOpen name flag perm)
    have reg: "vf_reg (fst (OpenFile D name flag perm s)) = vf_reg s"
      by (auto simp: OpenFile_def openWrite_def split: sum.splits prod.splits)
    have "mu_view f \<in> set (t_views (vf_db s)) \<and> v_writable (mu_view f)" if "snd (OpenFile D name flag perm s) = Inr (ManualUpload f)" for f
      using that by (auto simp: OpenFile_def openWrite_def Let_def dest!: resolveView_in_views split: sum.splits prod.splits if_splits option.splits)
    then have "vf_reg s' = vf_reg s \<and> handles_ok (vf_db s) hs'"
      using reg assms VOpen by (cases "OpenFile D name flag perm s") (auto simp: handles_ok_def split: sum.splits vfs_file.splits)
    then show ?thesis using assms(1) by simp
  next
    case (VClose k)
    show ?thesis
    proof (cases "k < length hs")
      case True
      then obtain f r where f: "manualUploadFile_Close D (hs ! k) s = Some (f, s', r)" "hs' = hs[k := f]"
        using assms(3) VClose by (auto split: option.splits)
      have k: "mu_view (hs ! k) \<in> set (t_views (vf_db s))" "v_writable (mu_view (hs ! k))" using assms(2) True by (auto simp: handles_ok_def)
      have "mu_view f = mu_view (hs ! k) \<and> (vf_db s' = vf_db s \<or> (\<exists>sz w. register_upload (hs ! k) sz (s\<lparr>vf_disk := w\<rparr>) = Some (s', r)))"
        using f(1) by (auto simp: manualUploadFile_Close_def Let_def split: prod.splits sum.splits if_splits option.splits)
      then have e: "mu_view f = mu_view (hs ! k)" "vfs_extends (vf_db s) (vf_db s') \<and> nodes_keyed (vf_db s')"
        using register_upload_ext [of "s\<lparr>vf_disk := w\<rparr>" "hs ! k" sz s' r for w sz] assms(1) k by auto
      have "handles_ok (vf_db s') hs'" unfolding f(2) handles_ok_def
        using keep [of "vf_db s'"] e k by (auto simp: handles_ok_def vfs_extends_def dest!: set_update_subset_insert [THEN subsetD])
      then show ?thesis using e by blast
    next
      case False
      then show ?thesis using assms VClose by auto
    qed
  qed
qed

interpretation vfs_calls: call_contract "vfs_exec D" "\<lambda>(s, hs). nodes_keyed (vf_db s) \<and> handles_ok (vf_db s) hs"
  "\<lambda>(s, _) (t, _). vfs_extends (vf_db s) (vf_db t)" for D
  by unfold_locales (auto intro: vfs_extends_trans dest: vfs_exec_ext)

section \<open>Facts on upload paths\<close>

lemma path_join_segs:
  assumes "list_all seg_ok segs" "segs \<noteq> []"
  shows "path_join [manualUploadsSubdir, join_char slash segs] = manualUploadsSubdir @ slash # join_char slash segs"
proof -
  have m: "manualUploadsSubdir = join_char slash [''webdav'', ''manual_uploads'']" by (simp add: manualUploadsSubdir_def)
  have ok: "list_all seg_ok ([''webdav'', ''manual_uploads''] @ segs)" using assms(1) by (simp add: seg_ok_def)
  have ne: "join_char slash segs \<noteq> []" using assms by (subst join_char_eq_Nil) (auto simp: list_all_iff seg_ok_def)
  have j: "join_char slash ([''webdav'', ''manual_uploads''] @ segs) = manualUploadsSubdir @ slash # join_char slash segs"
    unfolding m by (rule join_char_append) (use assms(2) in simp_all)
  have "manualUploadsSubdir \<noteq> []" by (simp add: manualUploadsSubdir_def)
  then have "path_join [manualUploadsSubdir, join_char slash segs] = path_clean (join_char slash ([''webdav'', ''manual_uploads''] @ segs))"
    unfolding j using ne by (simp add: path_join_def)
  also have "\<dots> = join_char slash ([''webdav'', ''manual_uploads''] @ segs)" by (rule path_clean_join [OF ok]) simp
  also have "\<dots> = manualUploadsSubdir @ slash # join_char slash segs" by (rule j)
  finally show ?thesis .
qed

lemma path_join_assoc:
  assumes "list_all seg_ok segs" "segs \<noteq> []"
  shows "path_join [sp, path_join [manualUploadsSubdir, join_char slash segs]] = path_join [path_join [sp, manualUploadsSubdir], join_char slash segs]"
proof -
  let ?r = "join_char slash segs" and ?m = manualUploadsSubdir
  have m: "clean_list ?m = [''webdav'', ''manual_uploads'']" "\<not> rooted ?m" by (simp_all add: manualUploadsSubdir_def clean_list_def)
  have cl: "clean_list (path_join [?m, ?r]) = [''webdav'', ''manual_uploads''] @ segs" "\<not> rooted (path_join [?m, ?r])"
    using path_join2_elems [of ?r ?m] clean_list_join [OF assms(1)] seg_ok_no_dotdot [OF assms(1)] m path_join_segs [OF assms]
    by (simp_all add: rooted_append manualUploadsSubdir_def)
  have c1: "clean_list (path_join [sp, path_join [?m, ?r]]) = clean_list sp @ [''webdav'', ''manual_uploads''] @ segs"
    using path_join2_elems [of "path_join [?m, ?r]" sp] cl seg_ok_no_dotdot [OF assms(1)] by simp
  have c2: "clean_list (path_join [path_join [sp, ?m], ?r]) = clean_list sp @ [''webdav'', ''manual_uploads''] @ segs"
    using path_join2_elems [of ?r "path_join [sp, ?m]"] path_join2_elems [of ?m sp] clean_list_join [OF assms(1)] seg_ok_no_dotdot [OF assms(1)] m by simp
  have ne: "?r \<noteq> []" using assms by (subst join_char_eq_Nil) (auto simp: list_all_iff seg_ok_def)
  have root: "rooted (path_join [a, b]) = (if a = [] then rooted b else rooted a)" if "b \<noteq> []" for a b
    using that by (simp add: path_join_def rooted_append)
  have fix_clean: "path_clean (path_join [a, b]) = path_join [a, b]" if "b \<noteq> []" for a b using that by (simp add: path_join_def)
  have nn: "?m \<noteq> []" "path_join [sp, ?m] \<noteq> []" "path_join [?m, ?r] \<noteq> []"
    using path_clean_not_Nil by (simp_all add: path_join_def manualUploadsSubdir_def)
  have "path_clean (path_join [sp, path_join [?m, ?r]]) = path_clean (path_join [path_join [sp, ?m], ?r])"
    unfolding path_clean_eq_iff c1 c2 using root [of "path_join [?m, ?r]" sp] root [of ?m sp] root [of ?r "path_join [sp, ?m]"] m(2) ne cl(2) nn
    by simp
  then show ?thesis using fix_clean [of ?r "path_join [sp, ?m]"] fix_clean [of "path_join [?m, ?r]" sp] ne nn by simp
qed

lemma resolveParentNode_join:
  assumes "list_all seg_ok segs" "seg_ok e" "walk_names (v_id v) segs None d = Some parent"
  shows "resolveParentNode v (path_dir (join_char slash (segs @ [e]))) d = map_option n_id parent"
proof (cases "segs = []")
  case True
  then show ?thesis unfolding path_dir_join [OF assms(1,2)] using assms(3) by (simp add: resolveParentNode_def)
next
  case False
  have sp: "split_char slash (join_char slash segs) = segs"
    using assms(1) False by (intro split_join_char) (auto simp: list_all_iff seg_ok_def)
  have "join_char slash segs \<notin> {[], ''.'', ''/''}"
  proof
    assume "join_char slash segs \<in> {[], ''.'', ''/''}"
    then have "split_char slash (join_char slash segs) \<in> {[[]], [''.''], [[], []]}" by auto
    then show False using sp assms(1) by (auto simp: seg_ok_def)
  qed
  then show ?thesis unfolding path_dir_join [OF assms(1,2)] using assms False sp by (simp add: resolveParentNode_def path_clean_join)
qed

section \<open>Facts on a new node\<close>

definition is_child :: "int \<Rightarrow> int option \<Rightarrow> string \<Rightarrow> node \<Rightarrow> bool" where
  "is_child v p seg n \<longleftrightarrow> n_view_id n = v \<and> n_parent_id n = p \<and> n_status n = ''visible'' \<and> n_name n = seg"

lemma visible_child_sort: "visible_child v p seg d = first_of (sort_key node_order (filter (is_child v p seg) (t_nodes d)))"
  by (simp add: visible_child_def repo_ListNodesByParent_def find_first_of filter_sort is_child_def [abs_def] conj_assoc)

lemma visible_child_cong: "t_nodes d' = t_nodes d \<Longrightarrow> visible_child v p seg d' = visible_child v p seg d"
  by (simp add: visible_child_sort)

lemma walk_names_cong: "t_nodes d' = t_nodes d \<Longrightarrow> walk_names v segs node d' = walk_names v segs node d"
  by (induction segs arbitrary: node) (auto simp: visible_child_cong [of d' d] split: option.split)

lemma visible_child_snoc_other:
  "t_nodes d' = t_nodes d @ [n] \<Longrightarrow> \<not> is_child v p seg n \<Longrightarrow> visible_child v p seg d' = visible_child v p seg d"
  by (simp add: visible_child_sort)

lemma visible_child_snoc_new:
  assumes "t_nodes d' = t_nodes d @ [n]" "is_child v p seg n" "visible_child v p seg d = None"
  shows "visible_child v p seg d' = Some n"
proof -
  have "filter (is_child v p seg) (t_nodes d) = []"
    using assms(3) by (auto simp: visible_child_None_iff is_child_def filter_empty_conv)
  then show ?thesis using assms(1,2) by (simp add: visible_child_sort first_of_def)
qed

lemma walk_names_snoc:
  assumes "t_nodes d' = t_nodes d @ [n]" "is_child v p e n" "visible_child v p e d = None" "walk_names v segs node d = Some r"
  shows "walk_names v segs node d' = Some r"
  using assms(4)
proof (induction segs arbitrary: node)
  case (Cons seg segs)
  show ?case
  proof (cases "seg = []")
    case False
    then obtain m where m: "visible_child v (map_option n_id node) seg d = Some m" "walk_names v segs (Some m) d = Some r"
      using Cons.prems by (auto split: option.splits)
    have "\<not> is_child v (map_option n_id node) seg n" using m(1) assms(2,3) by (auto simp: is_child_def)
    then have "visible_child v (map_option n_id node) seg d' = Some m" using visible_child_snoc_other [OF assms(1)] m(1) by simp
    then show ?thesis using False Cons.IH [OF m(2)] by simp
  qed (use Cons in simp)
qed simp

lemma withinStorage_join:
  assumes "clean_list sp \<noteq> []" "list_all seg_ok segs" "segs \<noteq> []"
  shows "withinStorage sp (path_join [sp, path_join [manualUploadsSubdir, join_char slash segs]])"
proof -
  let ?lp = "path_join [manualUploadsSubdir, join_char slash segs]"
  let ?ls = "[''webdav'', ''manual_uploads''] @ segs"
  have ok: "list_all seg_ok ?ls" using assms(2) by (simp add: seg_ok_def)
  have lp: "?lp = join_char slash ?ls"
    unfolding path_join_segs [OF assms(2,3)] using join_char_append [of "[''webdav'', ''manual_uploads'']" segs slash] assms(3)
    by (simp add: manualUploadsSubdir_def)
  have sp: "sp \<noteq> []" using assms(1) by (auto simp: clean_list_def)
  have cl: "clean_list (path_join [sp, ?lp]) = clean_list sp @ ?ls"
    unfolding lp using path_join2_elems [of "join_char slash ?ls" sp] clean_list_join [OF ok] seg_ok_no_dotdot [OF ok] by simp
  have r: "rooted (path_join [sp, ?lp]) = rooted sp" using sp by (simp add: path_join_def rooted_append)
  have "path_clean (path_join [sp, ?lp]) = path_clean sp @ slash # join_char slash ?ls"
    unfolding path_clean_def cl r render_path_def using join_char_append [OF assms(1), of ?ls slash] assms(1) by simp
  then show ?thesis unfolding withinStorage_def Let_def by (simp add: has_prefix_iff)
qed

text \<open>A place for a new file: the folder of a writable view that the segments lead to, without a
  visible node of the name.\<close>

definition upload_target :: "database \<Rightarrow> string \<Rightarrow> string \<Rightarrow> string list \<Rightarrow> string \<Rightarrow> view \<Rightarrow> node option \<Rightarrow> bool" where
  "upload_target d ch vs segs e v parent \<longleftrightarrow> list_all seg_ok (ch # vs # segs @ [e]) \<and> find_view ch vs d = Some v \<and> v_writable v \<and>
     walk_names (v_id v) segs None d = Some parent \<and> visible_child (v_id v) (map_option n_id parent) e d = None"

lemma find_view_cong: "t_channels d' = t_channels d \<Longrightarrow> t_views d' = t_views d \<Longrightarrow> find_view ch vs d' = find_view ch vs d"
  by (simp add: find_view_def findViewBySlug_def repo_GetChannelBySlug_def repo_ListViewsByChannel_def split: option.split)

lemma createFileRefNode_new:
  assumes "upload_target d ch vs segs e v parent" "t_nodes d' = t_nodes d" "t_views d' = t_views d" "has_row f_id (t_files d') i"
  shows "\<exists>n. fst (createFileRefNode v (join_char slash (segs @ [e])) i d') = d'\<lparr>t_nodes := t_nodes d @ [n], seq_nodes := seq_nodes d' + 1\<rparr> \<and>
    is_child (v_id v) (map_option n_id parent) e n \<and> n_node_type n = ''file_ref'' \<and> n_file_id n = Some i"
proof -
  have ok: "list_all seg_ok segs" "seg_ok e" using assms(1) by (simp_all add: upload_target_def)
  have w: "walk_names (v_id v) segs None d' = Some parent" "walk_names (v_id v) segs None d = Some parent"
    using assms(1) walk_names_cong [OF assms(2)] by (simp_all add: upload_target_def)
  have p: "resolveParentNode v (path_dir (join_char slash (segs @ [e]))) d' = map_option n_id parent"
    by (rule resolveParentNode_join [OF ok w(1)])
  have b: "path_base (join_char slash (segs @ [e])) = e" by (rule path_base_join [OF ok(2)])
  have nx: "\<not> nodeExists (v_id v) (map_option n_id parent) e d'"
    using assms(1) visible_child_cong [OF assms(2)] by (simp add: nodeExists_def upload_target_def)
  have v: "v_id v \<in> v_id ` set (t_views d')"
    using assms(1,3) by (auto simp: upload_target_def find_view_def findViewBySlug_def repo_ListViewsByChannel_def dest!: find_SomeD split: option.splits)
  have pr: "ref_ok n_id (t_nodes d') (map_option n_id parent)"
  proof (cases parent)
    case (Some q)
    have "\<forall>x \<in> set segs. x \<noteq> []" using ok(1) by (auto simp: list_all_iff seg_ok_def)
    from walk_names_chain [OF this w(2)] Some obtain ns where "chain d (v_id v) None segs ns" "ns \<noteq> []" "q = last ns" by (auto split: if_splits)
    then show ?thesis using chain_last Some assms(2) by auto
  qed simp
  let ?n = "(new_node (v_id v) (map_option n_id parent) e ''file_ref'' (Some i))\<lparr>n_id := seq_nodes d' + 1, n_created_at := sql_now d'\<rparr>"
  have "fst (createFileRefNode v (join_char slash (segs @ [e])) i d') = d'\<lparr>t_nodes := t_nodes d @ [?n], seq_nodes := seq_nodes d' + 1\<rparr>"
    unfolding createFileRefNode_def p b Let_def fst_drop_id
    using nx v pr assms(2,4) by (simp add: fst_drop_id repo_CreateNode_def new_node_def node_types_def node_statuses_def Let_def)
  then show ?thesis by (intro exI [of _ ?n]) (simp add: is_child_def new_node_def)
qed

lemma resolveNode_new_child:
  assumes tgt: "upload_target d ch vs segs e v parent" and cl: "clean_list (slash # name) = ch # vs # segs @ [e]"
    and d': "t_nodes d' = t_nodes d @ [n]" "t_channels d' = t_channels d" "t_views d' = t_views d"
    and n: "is_child (v_id v) (map_option n_id parent) e n"
  shows "resolveNode name d' = Inr (v, Some n)"
proof -
  have vc: "visible_child (v_id v) (map_option n_id parent) e d = None" "walk_names (v_id v) segs None d = Some parent" "e \<noteq> []"
    using tgt by (simp_all add: upload_target_def seg_ok_def)
  have "walk_names (v_id v) (segs @ [e]) None d' = Some (Some n)"
    using walk_names_snoc [OF d'(1) n vc(1,2)] visible_child_snoc_new [OF d'(1) n vc(1)] vc(3) by (simp add: walk_names_append)
  moreover have "find_view ch vs d' = Some v" using find_view_cong [OF d'(2,3)] tgt by (simp add: upload_target_def)
  ultimately show ?thesis using cl by (simp add: resolveNode_eq)
qed

lemma register_upload_new:
  assumes tgt: "upload_target (vf_db s) ch vs segs e v parent" and cl: "clean_list (slash # name) = ch # vs # segs @ [e]"
    and f: "mu_view f = v \<and> mu_localPath f = path_join [manualUploadsSubdir, rest]" and rest: "rest = join_char slash (segs @ [e])"
    and fresh: "row_by f_local_path (t_files (vf_db s)) (path_join [manualUploadsSubdir, rest]) = None"
    and files: "keyed f_id (t_files (vf_db s)) (seq_files (vf_db s))"
    and project: "row_by p_source_type (t_projects (vf_db s)) ''manual_upload'' = Some p"
    and token: "GeneratePublicToken (TokenExists (vf_db s)) (rg_draws (vf_reg s)) = Some (Inr tok, draws)"
    and bus: "\<forall>b. rg_bus (vf_reg s) = Some b \<longrightarrow> bus_ok b"
  shows "\<exists>s2 n row. register_upload f sz s = Some (s2, Inr ()) \<and> vf_disk s2 = vf_disk s \<and> vf_storagePath s2 = vf_storagePath s \<and>
    resolveNode name (vf_db s2) = Inr (v, Some n) \<and> n_node_type n = ''file_ref'' \<and> n_file_id n = Some (f_id row) \<and> n_name n = e \<and>
    getFile (f_id row) (vf_db s2) = Inr (Some row) \<and> f_size_bytes row = sz \<and> f_created_at row = sql_now (vf_db s) \<and>
    f_local_path row = path_join [manualUploadsSubdir, rest]"
proof -
  let ?d = "vf_db s" and ?lp = "path_join [manualUploadsSubdir, rest]" and ?i = "seq_files (vf_db s) + 1"
  have ok: "list_all seg_ok (segs @ [e])" and ne: "segs @ [e] \<noteq> []" using tgt by (simp_all add: upload_target_def)
  have lp: "?lp = manualUploadsSubdir @ slash # rest" using path_join_segs [OF ok ne] by (simp add: rest)
  have tk: "\<not> TokenExists ?d tok" using token_attempts_spec [OF token [unfolded GeneratePublicToken_def]] by blast
  have pid: "has_row p_id (t_projects ?d) (p_id p)" using row_by_SomeD [OF project] by auto
  let ?row = "registered_row ''manual_upload'' ''manual'' ''webdav'' ?lp (p_id p) (path_base ?lp) [] sz [] tok ?d"
  have lpne: "?lp \<noteq> []" using lp by simp
  obtain t where t: "RegisterFile ''manual_upload'' ''manual'' ''webdav'' ?lp (p_id p) (path_base ?lp) [] sz [] (vf_reg s) = Some (t, Inr ?i)"
    "rg_db t = ?d\<lparr>t_files := t_files ?d @ [?row], seq_files := ?i\<rparr>"
    using RegisterFile_new [where s = "vf_reg s" and lp = ?lp and token = tok and rest = draws and pid = "p_id p" and st = "''manual_upload''"
        and cat = "''manual''" and sub = "''webdav''" and fn = "path_base ?lp" and v = "[]" and sz = sz and ck = "[]"]
      lpne fresh token tk pid bus by auto
  have fi: "has_row f_id (t_files (rg_db t)) ?i" by (simp add: t(2) registered_row_def)
  obtain n where n: "fst (createFileRefNode v rest ?i (rg_db t)) = (rg_db t)\<lparr>t_nodes := t_nodes ?d @ [n], seq_nodes := seq_nodes (rg_db t) + 1\<rparr>"
    "is_child (v_id v) (map_option n_id parent) e n" "n_node_type n = ''file_ref''" "n_file_id n = Some ?i"
    using createFileRefNode_new [OF tgt, of "rg_db t" ?i] t(2) fi unfolding rest by auto
  let ?d3 = "(rg_db t)\<lparr>t_nodes := t_nodes ?d @ [n], seq_nodes := seq_nodes (rg_db t) + 1\<rparr>"
  let ?s2 = "set_db ?d3 (s\<lparr>vf_reg := t\<rparr>)"
  have "trim_prefix ?lp (manualUploadsSubdir @ ''/'') = rest"
    unfolding lp using trim_prefix_append [of "manualUploadsSubdir @ ''/''" rest] by simp
  then have reg: "register_upload f sz s = Some (?s2, Inr ())"
    using project f t(1) n(1) by (simp add: register_upload_def getOrCreateManualProject_def set_db_def)
  have "resolveNode name ?d3 = Inr (v, Some n)" using resolveNode_new_child [OF tgt cl _ _ _ n(2), of ?d3] t(2) by simp
  moreover have "getFile ?i ?d3 = Inr (Some ?row)" using keyed_fresh [OF files] t(2) by (simp add: getFile_def registered_row_def)
  moreover have "n_name n = e" using n(2) by (simp add: is_child_def)
  ultimately show ?thesis using reg n(3,4) by (intro exI [of _ ?s2] exI [of _ n] exI [of _ ?row]) (simp add: registered_row_def)
qed

text \<open>An upload onto a path that has a row: the row keeps the size and the time of the first upload.\<close>

lemma createFileRefNode_files: "t_files (fst (createFileRefNode v rest i d)) = t_files d"
  by (simp add: createFileRefNode_def repo_CreateNode_def Let_def split: prod.split sum.split)

lemma overwrite_keeps_rows:
  assumes "row_by f_local_path (t_files (vf_db s)) (mu_localPath f) = Some row" "mu_localPath f \<noteq> []"
    and "row_by p_source_type (t_projects (vf_db s)) ''manual_upload'' = Some p"
  shows "\<exists>s2. register_upload f sz s = Some (s2, Inr ()) \<and> t_files (vf_db s2) = t_files (vf_db s)"
  using assms by (simp add: register_upload_def getOrCreateManualProject_def RegisterFile_def set_db_def createFileRefNode_files)

section \<open>Properties\<close>

text \<open>
  C15: A new upload can be read back. Suppose that the path lies below visible folders of a writable view, that no visible node
  and no row of the files table has it yet, that the project of manual uploads exists and that a token can be drawn. A client
  that opens the path for writing and closes it (with any writes in between, as long as the physical calls succeed) makes
  the path stat as a plain file of the uploaded size, and opening the path for reading opens the
  very physical path the upload was written to. (An upload onto a path that has a row already is
  another matter: see \<open>overwrite_keeps_rows\<close>.)
\<close>
theorem upload_then_read:
  assumes tgt: "upload_target (vf_db s) ch vs segs e v parent" and name: "name = url_path (ch # vs # segs @ [e])"
    and rest: "rest = join_char slash (segs @ [e])" and flag: "flag mod 4 \<noteq> 0"
    and opened: "dk_OpenFile D (upload_root s) rest flag perm (vf_disk s) = (w1, Inr h)"
    and closed: "dk_Close D h w2 = (w3, Inr ())" and stat: "dk_Stat D (path_join [upload_root s, rest]) w3 = Some sz"
    and storage: "clean_list (vf_storagePath s) \<noteq> []"
    and fresh: "row_by f_local_path (t_files (vf_db s)) (path_join [manualUploadsSubdir, rest]) = None"
    and files: "keyed f_id (t_files (vf_db s)) (seq_files (vf_db s))"
    and project: "row_by p_source_type (t_projects (vf_db s)) ''manual_upload'' = Some p"
    and token: "GeneratePublicToken (TokenExists (vf_db s)) (rg_draws (vf_reg s)) = Some (Inr tok, draws)"
    and bus: "\<forall>b. rg_bus (vf_reg s) = Some b \<longrightarrow> bus_ok b"
  shows "\<exists>f f' s2. OpenFile D name flag perm s = (s\<lparr>vf_disk := w1\<rparr>, Inr (ManualUpload f)) \<and>
    manualUploadFile_Close D f (s\<lparr>vf_disk := w2\<rparr>) = Some (f', s2, Inr ()) \<and>
    Stat name (vf_db s2) = Inr \<lparr>fi_name = e, fi_size = sz, fi_mode = Mode_0644, fi_modTime = sql_now (vf_db s)\<rparr> \<and>
    OpenFile D name 0 perm s2 =
      (s2, case dk_Open D (path_join [upload_root s, rest]) w3 of Inl err \<Rightarrow> Inl (OSErr err) | Inr k \<Rightarrow> Inr (VirtualFile k e))"
proof -
  have ok: "list_all seg_ok (ch # vs # segs @ [e])" "list_all seg_ok (segs @ [e])" and ne: "segs @ [e] \<noteq> []"
    and view: "find_view ch vs (vf_db s) = Some v" "v_writable v" using tgt by (simp_all add: upload_target_def)
  have cl: "clean_list (slash # name) = ch # vs # segs @ [e]" unfolding name by (rule clean_list_url_path [OF ok(1)])
  have rv: "resolveView name (vf_db s) = Inr (v, rest)" using cl view by (simp add: resolveView_eq rest)
  have restne: "rest \<noteq> []" unfolding rest using ok(2) ne by (subst join_char_eq_Nil) (auto simp: list_all_iff seg_ok_def)
  let ?f = "\<lparr>mu_File = h, mu_view = v, mu_localPath = path_join [manualUploadsSubdir, rest], mu_registered = False\<rparr>"
  have o: "OpenFile D name flag perm s = (s\<lparr>vf_disk := w1\<rparr>, Inr (ManualUpload ?f))"
    using flag rv view restne opened by (simp add: OpenFile_def openWrite_def)
  have lp: "path_join [vf_storagePath s, path_join [manualUploadsSubdir, rest]] = path_join [upload_root s, rest]"
    using path_join_assoc [OF ok(2) ne] by (simp add: rest upload_root_def)
  obtain s2 n row where r: "register_upload ?f sz (s\<lparr>vf_disk := w3\<rparr>) = Some (s2, Inr ())" "vf_disk s2 = w3" "vf_storagePath s2 = vf_storagePath s"
    and rn: "resolveNode name (vf_db s2) = Inr (v, Some n)" "n_node_type n = ''file_ref''" "n_file_id n = Some (f_id row)" "n_name n = e"
    and gf: "getFile (f_id row) (vf_db s2) = Inr (Some row)" "f_size_bytes row = sz" "f_created_at row = sql_now (vf_db s)"
      "f_local_path row = path_join [manualUploadsSubdir, rest]"
    using register_upload_new [where f = ?f and s = "s\<lparr>vf_disk := w3\<rparr>" and sz = sz and tok = tok and draws = draws and p = p and v = v and parent = parent, OF _ cl _ rest] tgt fresh files project token bus
    by auto
  have c: "manualUploadFile_Close D ?f (s\<lparr>vf_disk := w2\<rparr>) = Some (?f\<lparr>mu_registered := True\<rparr>, s2, Inr ())"
    using closed stat r(1) by (simp add: manualUploadFile_Close_def lp Let_def)
  have st: "Stat name (vf_db s2) = Inr \<lparr>fi_name = e, fi_size = sz, fi_mode = Mode_0644, fi_modTime = sql_now (vf_db s)\<rparr>"
    using rn gf by (simp add: Stat_def file_info_def)
  have "withinStorage (vf_storagePath s) (path_join [upload_root s, rest])"
    using withinStorage_join [OF storage ok(2) ne, folded rest] by (simp only: lp)
  then have "OpenFile D name 0 perm s2 = (s2, case dk_Open D (path_join [upload_root s, rest]) w3 of Inl err \<Rightarrow> Inl (OSErr err) | Inr k \<Rightarrow> Inr (VirtualFile k e))"
    using rn gf r(2,3) by (simp add: OpenFile_def Let_def lp split: sum.split)
  then show ?thesis using o c st by blast
qed

text \<open>
  C16: Writes respect the views. Whatever sequence of calls the clients make, channels, views and the
  nodes of views that are not writable stay as they are, and no row of the files table is changed or
  removed. A Mkdir, RemoveAll, opening for writing or Rename of a path that does not lead into a writable view fails and changes
  neither the database nor the disk. (The second path of Rename is not tested: it may lead into a view that is not
  writable, and the node is then renamed within its own view.)
\<close>
theorem vfs_writes_confined:
  "(nodes_keyed (vf_db s) \<longrightarrow> run_calls (vfs_exec D) cs (s, []) = Some (s', hs) \<longrightarrow> vfs_extends (vf_db s) (vf_db s')) \<and>
   (\<not> checkWritable name (vf_db s) \<longrightarrow> flag mod 4 \<noteq> 0 \<longrightarrow>
     fst (Mkdir D name perm s) = s \<and> isl (snd (Mkdir D name perm s)) \<and>
     fst (RemoveAll D name s) = s \<and> isl (snd (RemoveAll D name s)) \<and>
     fst (Rename D name newName s) = s \<and> isl (snd (Rename D name newName s)) \<and>
     fst (OpenFile D name flag perm s) = s \<and> isl (snd (OpenFile D name flag perm s)))"
proof -
  have "vfs_extends (vf_db s) (vf_db s')" if "nodes_keyed (vf_db s)" "run_calls (vfs_exec D) cs (s, []) = Some (s', hs)"
    using vfs_calls.run_keeps [of "(s, [])" D cs "(s', hs)"] that by (simp add: handles_ok_def)
  moreover have "(\<exists>e. resolveView name (vf_db s) = Inl e) \<or> (\<exists>v rest. resolveView name (vf_db s) = Inr (v, rest) \<and> \<not> v_writable v)"
    if "\<not> checkWritable name (vf_db s)" using that by (auto simp: checkWritable_def split: sum.splits)
  ultimately show ?thesis by (auto simp: Mkdir_def RemoveAll_def Rename_def OpenFile_def openWrite_def)
qed

text \<open>
  Renaming an uploaded file loses its content. A successful Rename of a file reference gives the
  node its new name but leaves the path of the file in the files table: if, as a rename does, the
  physical operation leaves nothing at the old path, then no name under which the node is reached
  afterwards can be opened for reading.
\<close>
theorem Rename_loses_file:
  assumes keyed: "nodes_keyed (vf_db s)" and node: "resolveNode oldName (vf_db s) = Inr (v, Some n)" "n_node_type n = ''file_ref''" "n_file_id n = Some i"
    and ref: "getFile i (vf_db s) = Inr (Some f)"
    and ren: "resolveView newName (vf_db s) = Inr (v', newRest)" "Rename D oldName newName s = (s', Inr ())"
    and gone: "dk_Open D (path_join [vf_storagePath s, f_local_path f]) (vf_disk s') = Inl err"
    and after: "resolveNode name (vf_db s') = Inr (v'', Some m)" "n_id m = n_id n"
  shows "n_name m = path_base newRest \<and> (\<exists>e. OpenFile D name 0 perm s' = (s', Inl e))"
proof -
  let ?d = "vf_db s" and ?n = "n\<lparr>n_name := path_base newRest\<rparr>"
  have n: "n \<in> set (t_nodes ?d)" using resolveNode_in_nodes [OF node(1)] by blast
  have inj: "k = n" if "k \<in> set (t_nodes ?d)" "n_id k = n_id n" for k
    using that n keyed by (auto simp: nodes_keyed_def keyed_def distinct_map inj_on_def)
  have fr: "has_row f_id (t_files ?d) i" using ref by (auto simp: getFile_def dest!: row_by_SomeD split: option.splits if_splits)
  have upd: "fst (repo_UpdateNode ?n ?d) = ?d\<lparr>t_nodes := upd_row n_id (n_id n)
      (\<lambda>r. r\<lparr>n_name := path_base newRest, n_node_type := n_node_type n, n_file_id := n_file_id n, n_rule_config := n_rule_config n, n_sort_order := n_sort_order n\<rparr>) (t_nodes ?d)\<rparr>"
    using n node fr by (auto simp: repo_UpdateNode_def node_types_def)
  have s': "vf_db s' = fst (repo_UpdateNode ?n ?d)" "vf_storagePath s' = vf_storagePath s"
    using ren node(1) by (auto simp: Rename_def split: sum.splits prod.splits if_splits)
  have "m \<in> set (t_nodes (vf_db s'))" using resolveNode_in_nodes [OF after(1)] by blast
  then obtain k where k: "k \<in> set (t_nodes ?d)" "m = (if n_id k = n_id n then k\<lparr>n_name := path_base newRest, n_node_type := n_node_type n,
      n_file_id := n_file_id n, n_rule_config := n_rule_config n, n_sort_order := n_sort_order n\<rparr> else k)"
    unfolding s'(1) upd by (auto simp: set_upd_row)
  then have "n_id k = n_id n" using after(2) by (auto split: if_splits)
  then have m: "n_name m = path_base newRest" "n_node_type m = ''file_ref''" "n_file_id m = Some i" using k(2) node(2,3) by simp_all
  have "getFile i (vf_db s') = Inr (Some f)" using ref unfolding s'(1) upd by (simp add: getFile_def)
  then have "\<exists>e. OpenFile D name 0 perm s' = (s', Inl e)" using after(1) m gone s'(2) by (simp add: OpenFile_def Let_def)
  then show ?thesis using m(1) by blast
qed

lemma demo_nodes_keyed: "nodes_keyed demo_db"
  by code_simp

theorem upload_then_read_witness:
  "upload_target demo_db ''pub'' ''up'' [''docs''] ''b'' (demo_view 1 ''up'' True) (Some (demo_node 1 None ''docs'' ''folder'' None)) \<and>
   (\<exists>f f' s2. manualUploadFile_Close list_disk f (demo_vfs\<lparr>vf_disk := [''data/webdav/manual_uploads/docs/b'']\<rparr>) = Some (f', s2, Inr ()) \<and>
      Stat ''/pub/up/docs/b'' (vf_db s2) = Inr \<lparr>fi_name = ''b'', fi_size = 5, fi_mode = Mode_0644, fi_modTime = 9\<rparr> \<and>
      OpenFile list_disk ''/pub/up/docs/b'' 0 0 s2 = (s2, Inr (VirtualFile 7 ''b'')))"
proof -
  have t: "upload_target (vf_db demo_vfs) ''pub'' ''up'' [''docs''] ''b'' (demo_view 1 ''up'' True) (Some (demo_node 1 None ''docs'' ''folder'' None))" by code_simp
  let ?w = "[''data/webdav/manual_uploads/docs/b'']"
  have n: "''/pub/up/docs/b'' = url_path (''pub'' # ''up'' # [''docs''] @ [''b''])" "''docs/b'' = join_char slash ([''docs''] @ [''b''])" by code_simp+
  have o: "dk_OpenFile list_disk (upload_root demo_vfs) ''docs/b'' 1 0 (vf_disk demo_vfs) = (?w @ vf_disk demo_vfs, Inr 3)" by code_simp
  have c: "dk_Close list_disk 3 ?w = (?w, Inr ())" "dk_Stat list_disk (path_join [upload_root demo_vfs, ''docs/b'']) ?w = Some 5"
    "dk_Open list_disk (path_join [upload_root demo_vfs, ''docs/b'']) ?w = Inr 7" by code_simp+
  have f: "clean_list (vf_storagePath demo_vfs) \<noteq> []" "row_by f_local_path (t_files (vf_db demo_vfs)) (path_join [manualUploadsSubdir, ''docs/b'']) = None"
    "keyed f_id (t_files (vf_db demo_vfs)) (seq_files (vf_db demo_vfs))" by code_simp+
  have p: "row_by p_source_type (t_projects (vf_db demo_vfs)) ''manual_upload'' = Some (new_project ''m'' ''M'' ''manual_upload'' [] ''{}'' \<lparr>p_id := 1\<rparr>)" by code_simp
  have k: "GeneratePublicToken (TokenExists (vf_db demo_vfs)) (rg_draws (vf_reg demo_vfs)) = Some (Inr (take 22 (base58Encode long_draw)), [])"
  proof -
    have m: "maxTokenRetries = Suc 4" by (simp add: maxTokenRetries_def)
    have r: "randomToken [long_draw] = Some (take 22 (base58Encode long_draw), [])" by (simp add: publicTokenLength_def draw_lengths Let_def)
    have "length (take 22 (base58Encode long_draw)) \<noteq> length ''tok''" by (simp add: draw_lengths)
    then have "take 22 (base58Encode long_draw) \<noteq> ''tok''" by metis
    then have "\<not> TokenExists demo_db (take 22 (base58Encode long_draw))"
      by (simp add: TokenExists_def demo_db_def demo_row_def registered_row_def)
    moreover have "rg_draws (vf_reg demo_vfs) = [long_draw]" "vf_db demo_vfs = demo_db" by (simp_all add: demo_vfs_def)
    ultimately show ?thesis unfolding GeneratePublicToken_def m token_attempts.simps(2) by (simp only: r) simp
  qed
  have b: "\<forall>b. rg_bus (vf_reg demo_vfs) = Some b \<longrightarrow> bus_ok b" by (simp add: demo_vfs_def)
  have now: "sql_now demo_db = 9" "vf_db demo_vfs = demo_db" by (simp_all add: demo_vfs_def demo_db_def empty_db_def)
  from upload_then_read [OF t n(1) n(2) _ o c(1,2) f p k b] t show ?thesis by (simp add: now c(3)) blast
qed

theorem vfs_writes_confined_witness:
  "nodes_keyed (vf_db demo_vfs) \<and> \<not> checkWritable ''/pub/ro/x'' (vf_db demo_vfs) \<and>
   fst (Mkdir list_disk ''/pub/ro/x'' 0 demo_vfs) = demo_vfs \<and>
   (\<exists>s' hs. run_calls (vfs_exec list_disk) [VMkdir ''/pub/up/new'' 0, VRename ''/pub/up/docs/a'' ''/pub/ro/c''] (demo_vfs, []) = Some (s', hs) \<and>
     vfs_extends (vf_db demo_vfs) (vf_db s') \<and> map n_name (t_nodes (vf_db s')) = [''docs'', ''c'', ''new''])"
proof -
  have k: "nodes_keyed (vf_db demo_vfs)" using demo_nodes_keyed by (simp add: demo_vfs_def)
  have c: "\<not> checkWritable ''/pub/ro/x'' (vf_db demo_vfs)" by code_simp
  obtain s' hs where r: "run_calls (vfs_exec list_disk) [VMkdir ''/pub/up/new'' 0, VRename ''/pub/up/docs/a'' ''/pub/ro/c''] (demo_vfs, []) = Some (s', hs)" by simp
  have "map_option (\<lambda>(s, hs). map n_name (t_nodes (vf_db s))) (run_calls (vfs_exec list_disk) [VMkdir ''/pub/up/new'' 0, VRename ''/pub/up/docs/a'' ''/pub/ro/c''] (demo_vfs, [])) =
      Some [''docs'', ''c'', ''new'']" by code_simp
  then have n: "map n_name (t_nodes (vf_db s')) = [''docs'', ''c'', ''new'']" unfolding r by simp
  have e: "vfs_extends (vf_db demo_vfs) (vf_db s')"
    using vfs_writes_confined [where s = demo_vfs and D = list_disk and s' = s' and hs = hs] k r by blast
  have m: "fst (Mkdir list_disk ''/pub/ro/x'' 0 demo_vfs) = demo_vfs"
    using vfs_writes_confined [where s = demo_vfs and D = list_disk and name = "''/pub/ro/x''" and perm = 0 and flag = 1] c by simp
  show ?thesis by (intro conjI exI [of _ s'] exI [of _ hs] k c m r e n)
qed

theorem Rename_loses_file_witness:
  "\<exists>s'. Rename list_disk ''/pub/up/docs/a'' ''/pub/up/docs/c'' demo_vfs = (s', Inr ()) \<and>
    vf_disk s' = [''data/webdav/manual_uploads/docs/c''] \<and> (\<exists>e. OpenFile list_disk ''/pub/up/docs/c'' 0 0 s' = (s', Inl e))"
proof -
  obtain s' where r: "Rename list_disk ''/pub/up/docs/a'' ''/pub/up/docs/c'' demo_vfs = (s', Inr ())"
  proof -
    have "snd (Rename list_disk ''/pub/up/docs/a'' ''/pub/up/docs/c'' demo_vfs) = Inr ()" by code_simp
    then show ?thesis using that by (cases "Rename list_disk ''/pub/up/docs/a'' ''/pub/up/docs/c'' demo_vfs") simp
  qed
  then have s': "s' = fst (Rename list_disk ''/pub/up/docs/a'' ''/pub/up/docs/c'' demo_vfs)" by simp
  let ?n = "demo_node 2 (Some 1) ''a'' ''file_ref'' (Some 1)"
  have k: "nodes_keyed (vf_db demo_vfs)" using demo_nodes_keyed by (simp add: demo_vfs_def)
  have n: "resolveNode ''/pub/up/docs/a'' (vf_db demo_vfs) = Inr (demo_view 1 ''up'' True, Some ?n)" "n_node_type ?n = ''file_ref''" "n_file_id ?n = Some 1"
    "getFile 1 (vf_db demo_vfs) = Inr (Some demo_row)" "resolveView ''/pub/up/docs/c'' (vf_db demo_vfs) = Inr (demo_view 1 ''up'' True, ''docs/c'')" by code_simp+
  have g: "dk_Open list_disk (path_join [vf_storagePath demo_vfs, f_local_path demo_row]) (vf_disk s') = Inl ''no such file''"
    "vf_disk s' = [''data/webdav/manual_uploads/docs/c'']" unfolding s' by code_simp+
  have a: "resolveNode ''/pub/up/docs/c'' (vf_db s') = Inr (demo_view 1 ''up'' True, Some (?n\<lparr>n_name := ''c''\<rparr>))" "n_id (?n\<lparr>n_name := ''c''\<rparr>) = n_id ?n"
    unfolding s' by code_simp+
  from Rename_loses_file [OF k n(1-4) n(5) r g(1) a] r g(2) show ?thesis by blast
qed

end
