(* ===== verification/Go_Http.thy ===== *)
theory Go_Http
  imports Go_Base
begin

text \<open>
  What the handlers and middleware of the program use of \<^verbatim>\<open>net/http\<close> and \<^verbatim>\<open>net\<close>:
  requests, handlers as functions to the calls they make on the response writer, what a client
  sees of those calls, \<^verbatim>\<open>http.Error\<close> and \<^verbatim>\<open>net.SplitHostPort\<close>.
\<close>

record request =
  rq_Method :: string
  rq_Path :: string
  rq_Depth :: string
  rq_Destination :: string
  rq_ContentLength :: int
  rq_RemoteAddr :: string

datatype rw_call = SetHeader string string | DelHeader string | WriteHeader int | Write string

type_synonym 's http_handler = "request \<Rightarrow> 's \<Rightarrow> request \<times> 's \<times> rw_call list"

definition http_Error :: "string \<Rightarrow> int \<Rightarrow> rw_call list" where
  "http_Error msg code =
     [DelHeader ''Content-Length'', SetHeader ''Content-Type'' ''text/plain; charset=utf-8'',
      SetHeader ''X-Content-Type-Options'' ''nosniff'', WriteHeader code, Write (msg @ [char_of (10 :: nat)])]"

text \<open>What a client sees: the first status, and the body.\<close>

fun status_of :: "rw_call list \<Rightarrow> int" where
  "status_of [] = 200"
| "status_of (WriteHeader code # calls) = code"
| "status_of (Write b # calls) = 200"
| "status_of (SetHeader k v # calls) = status_of calls"
| "status_of (DelHeader k # calls) = status_of calls"

fun body_of :: "rw_call list \<Rightarrow> string" where
  "body_of [] = []"
| "body_of (Write b # calls) = b @ body_of calls"
| "body_of (WriteHeader code # calls) = body_of calls"
| "body_of (SetHeader k v # calls) = body_of calls"
| "body_of (DelHeader k # calls) = body_of calls"

fun is_header :: "rw_call \<Rightarrow> bool" where
  "is_header (SetHeader k v) = True"
| "is_header (DelHeader k) = True"
| "is_header (WriteHeader code) = False"
| "is_header (Write b) = False"

lemma body_of_append [simp]: "body_of (xs @ ys) = body_of xs @ body_of ys"
  by (induction xs rule: body_of.induct) auto

lemma status_of_headers: "list_all is_header xs \<Longrightarrow> status_of (xs @ ys) = status_of ys"
  by (induction xs rule: status_of.induct) auto

lemma body_of_headers [simp]: "list_all is_header xs \<Longrightarrow> body_of xs = []"
  by (induction xs rule: body_of.induct) auto

text \<open>\<^verbatim>\<open>net.SplitHostPort\<close>; \<^const>\<open>None\<close> is an error.\<close>

definition SplitHostPort :: "string \<Rightarrow> (string \<times> string) option" where
  "SplitHostPort hostport =
     (case last_index_char CHR '':'' hostport of
        None \<Rightarrow> None
      | Some i \<Rightarrow>
          if hd hostport = CHR ''['' then
            (case index_char CHR '']'' hostport of
               None \<Rightarrow> None
             | Some e \<Rightarrow>
                 if e + 1 \<noteq> i then None
                 else if CHR ''['' \<in> set (drop 1 hostport) \<or> CHR '']'' \<in> set (drop (e + 1) hostport) then None
                 else Some (take (e - 1) (drop 1 hostport), drop (i + 1) hostport))
          else if CHR '':'' \<in> set (take i hostport) then None
          else if CHR ''['' \<in> set hostport \<or> CHR '']'' \<in> set hostport then None
          else Some (take i hostport, drop (i + 1) hostport))"

end
