(* ===== verification/Webdav_Handler.thy ===== *)
theory Webdav_Handler
  imports Virtual_FS Go_Http
begin

text \<open>
  The HTTP handlers of src/internal/webdav: VirtualHandler of vfs.go, which refuses writes outside
  writable views, the flat handler of handler.go with its upload limits, and composite.go, which
  tries the first and falls back to the second. A handler is a function from a request and a state
  to the calls it makes on the response writer; \<^verbatim>\<open>webdav.Handler\<close> and
  \<^verbatim>\<open>net/url\<close> are parameters.
\<close>

section \<open>The HTTP handlers\<close>

definition isWriteMethod :: "string \<Rightarrow> bool" where
  "isWriteMethod method \<longleftrightarrow>
     method \<in> {''PUT'', ''DELETE'', ''MKCOL'', ''MOVE'', ''COPY'', ''PROPPATCH'', ''LOCK'', ''UNLOCK''}"

definition VirtualHandler_ServeHTTP :: "('w vfs) http_handler \<Rightarrow> ('w vfs) http_handler" where
  "VirtualHandler_ServeHTTP inner rq s =
     (if isWriteMethod (rq_Method rq) \<and> \<not> checkWritable (rq_Path rq) (vf_db s)
      then (rq, s, http_Error ''view is read-only'' 403)
      else inner (if rq_Method rq = ''PROPFIND'' \<and> rq_Depth rq = ''infinity'' then rq\<lparr>rq_Depth := ''1''\<rparr> else rq) s)"

definition MaxUploadSize :: int where
  "MaxUploadSize = 2 * 1024 * 1024 * 1024"

definition MaxConcurrentUploads :: nat where
  "MaxConcurrentUploads = 3"

text \<open>\<^verbatim>\<open>net/url\<close>: parsing into the path and the remaining parts, and printing.\<close>

definition stripPrefixFromDestination ::
  "(string \<Rightarrow> (string \<times> 'u) option) \<Rightarrow> (string \<times> 'u \<Rightarrow> string) \<Rightarrow> string \<Rightarrow> string \<Rightarrow> string \<times> bool" where
  "stripPrefixFromDestination parse show_url dest prfx =
     (if prfx = [] then (dest, False)
      else (case parse dest of
              None \<Rightarrow> (dest, False)
            | Some (p, u) \<Rightarrow>
                if \<not> has_prefix p prfx then (dest, False)
                else (let q = trim_prefix p prfx; q' = (if q = [] \<or> hd q \<noteq> slash then slash # q else q) in
                      (show_url (q', u), True))))"

text \<open>The flat handler. The state carries the number of uploads in flight; a PUT takes a slot before
  it delegates and gives it back when it returns.\<close>

definition fix_destination ::
  "(string \<Rightarrow> (string \<times> 'u) option) \<Rightarrow> (string \<times> 'u \<Rightarrow> string) \<Rightarrow> string \<Rightarrow> request \<Rightarrow> request" where
  "fix_destination parse show_url stripPath rq =
     (if rq_Method rq \<in> {''COPY'', ''MOVE''} \<and> rq_Destination rq \<noteq> [] then
        (case stripPrefixFromDestination parse show_url (rq_Destination rq) stripPath of
           (fixed, True) \<Rightarrow> rq\<lparr>rq_Destination := fixed\<rparr> | (_, False) \<Rightarrow> rq)
      else rq)"

definition Handler_ServeHTTP ::
  "(string \<Rightarrow> (string \<times> 'u) option) \<Rightarrow> (string \<times> 'u \<Rightarrow> string) \<Rightarrow> string \<Rightarrow> string \<Rightarrow> (nat \<times> 's) http_handler \<Rightarrow> (nat \<times> 's) http_handler" where
  "Handler_ServeHTTP parse show_url tooLarge stripPath inner rq0 st =
     (let rq = fix_destination parse show_url stripPath rq0; (putSem, s) = st in
      if rq_Method rq = ''PUT'' then
        if rq_ContentLength rq > MaxUploadSize then (rq, st, http_Error tooLarge 413)
        else if MaxConcurrentUploads \<le> putSem then (rq, st, http_Error ''too many concurrent uploads'' 429)
        else (case inner rq (Suc putSem, s) of (rq', (k, s'), calls) \<Rightarrow> (rq', (k - 1, s'), calls))
      else inner rq st)"

section \<open>The composite handler\<close>

record recordingWriter =
  rc_status :: int
  rc_wroteHeader :: bool
  rc_out :: "rw_call list"

definition rec_WriteHeader :: "int \<Rightarrow> recordingWriter \<Rightarrow> recordingWriter" where
  "rec_WriteHeader code w =
     (if rc_wroteHeader w then w
      else w\<lparr>rc_status := code, rc_wroteHeader := True,
             rc_out := (if code \<noteq> 404 then rc_out w @ [WriteHeader code] else rc_out w)\<rparr>)"

definition rec_Write :: "string \<Rightarrow> recordingWriter \<Rightarrow> recordingWriter" where
  "rec_Write b w0 =
     (let w = (if \<not> rc_wroteHeader w0 then rec_WriteHeader 200 w0 else w0) in
      if rc_status w = 404 then w else w\<lparr>rc_out := rc_out w @ [Write b]\<rparr>)"

text \<open>The header map is that of the wrapped writer, so header changes go through at once.\<close>

fun rec_call :: "rw_call \<Rightarrow> recordingWriter \<Rightarrow> recordingWriter" where
  "rec_call (WriteHeader code) w = rec_WriteHeader code w"
| "rec_call (Write b) w = rec_Write b w"
| "rec_call (SetHeader k v) w = w\<lparr>rc_out := rc_out w @ [SetHeader k v]\<rparr>"
| "rec_call (DelHeader k) w = w\<lparr>rc_out := rc_out w @ [DelHeader k]\<rparr>"

definition Composite_ServeHTTP :: "'s http_handler \<Rightarrow> 's http_handler \<Rightarrow> 's http_handler" where
  "Composite_ServeHTTP virtual legacy rq s =
     (let (rq1, s1, calls) = virtual rq s;
          rec = fold rec_call calls \<lparr>rc_status = 200, rc_wroteHeader = False, rc_out = []\<rparr> in
      if rc_status rec = 404
      then (let (rq2, s2, calls2) = legacy rq1 s1 in (rq2, s2, rc_out rec @ calls2))
      else (rq1, s1, rc_out rec))"


section \<open>Facts on the recording writer\<close>

fun is_Write :: "rw_call \<Rightarrow> bool" where
  "is_Write (Write b) = True"
| "is_Write (WriteHeader code) = False"
| "is_Write (SetHeader k v) = False"
| "is_Write (DelHeader k) = False"

lemma body_of_filter: "(\<And>b. P (Write b)) \<Longrightarrow> body_of (filter P calls) = body_of calls"
  by (induction calls rule: body_of.induct) auto

lemma rec_calls_after:
  "rc_wroteHeader w \<Longrightarrow>
   fold rec_call calls w = w\<lparr>rc_out := rc_out w @ filter (\<lambda>c. is_header c \<or> is_Write c \<and> rc_status w \<noteq> 404) calls\<rparr>"
proof (induction calls arbitrary: w)
  case (Cons c calls)
  have "rc_wroteHeader (rec_call c w)" "rc_status (rec_call c w) = rc_status w"
    "rc_out (rec_call c w) = rc_out w @ (if is_header c \<or> is_Write c \<and> rc_status w \<noteq> 404 then [c] else [])"
    "w\<lparr>rc_out := x\<rparr> = (rec_call c w)\<lparr>rc_out := x\<rparr>" for x
    using Cons.prems by (cases c; simp add: rec_WriteHeader_def rec_Write_def)+
  then show ?case using Cons.IH [of "rec_call c w"] by simp
qed simp

text \<open>Until a status is written the record holds header changes only.\<close>

lemma rec_calls_before:
  assumes "\<not> rc_wroteHeader w" "rc_status w = 200" "list_all is_header (rc_out w)"
  shows "rc_status (fold rec_call calls w) = status_of calls \<and>
    (status_of calls = 404 \<longrightarrow> list_all is_header (rc_out (fold rec_call calls w))) \<and>
    (status_of calls \<noteq> 404 \<longrightarrow>
      status_of (rc_out (fold rec_call calls w)) = status_of calls \<and> body_of (rc_out (fold rec_call calls w)) = body_of calls)"
  using assms
proof (induction calls arbitrary: w)
  case (Cons c calls)
  show ?case
  proof (cases "is_header c")
    case True
    then have "\<not> rc_wroteHeader (rec_call c w)" "rc_status (rec_call c w) = 200" "list_all is_header (rc_out (rec_call c w))"
      "status_of (c # calls) = status_of calls" "body_of (c # calls) = body_of calls"
      using Cons.prems by (cases c; simp)+
    then show ?thesis using Cons.IH [of "rec_call c w"] by simp
  next
    case False
    then have h: "rc_wroteHeader (rec_call c w)" "rc_status (rec_call c w) = status_of (c # calls)"
      "rc_out (rec_call c w) = rc_out w @ (case c of Write b \<Rightarrow> [WriteHeader 200, Write b] | _ \<Rightarrow> if status_of (c # calls) = 404 then [] else [c])"
      using Cons.prems by (cases c; simp add: rec_WriteHeader_def rec_Write_def)+
    let ?r = "rec_call c w"
    let ?kept = "filter (\<lambda>c. is_header c \<or> is_Write c \<and> rc_status ?r \<noteq> 404) calls"
    have f: "rc_status (fold rec_call (c # calls) w) = rc_status ?r" "rc_out (fold rec_call (c # calls) w) = rc_out ?r @ ?kept"
      using rec_calls_after [OF h(1)] by simp_all
    have b: "body_of ?kept = body_of calls" if "rc_status ?r \<noteq> 404" using that by (intro body_of_filter) simp
    have k: "list_all is_header ?kept" if "rc_status ?r = 404" using that by (simp add: list_all_iff)
    show ?thesis
    proof (cases c)
      case (WriteHeader code)
      then have "rc_out ?r = rc_out w @ (if code = 404 then [] else [c])" "rc_status ?r = code" using h(2,3) by simp_all
      then show ?thesis unfolding f using b k Cons.prems(3) WriteHeader by (cases "code = 404") (simp_all add: status_of_headers)
    next
      case (Write d)
      then have "rc_out ?r = rc_out w @ [WriteHeader 200, Write d]" "rc_status ?r = 200" using h(2,3) by simp_all
      then show ?thesis unfolding f using b Cons.prems(3) Write by (simp add: status_of_headers)
    qed (use False in simp_all)
  qed
qed (use status_of_headers [where ys = "[]"] in simp)

section \<open>Properties\<close>

text \<open>
  The composite handler. When the virtual handler answers anything but 404 the client receives
  its status and body; on 404 neither is sent and the client receives those of the flat handler (header
  changes of the first answer stay). But a write
  method on a path that names no view never gets there: the virtual handler answers 403, so files of
  the flat layout cannot be written, although the fallback is there for such clients.
\<close>
theorem composite_handler:
  "(virtual rq s = (rq1, s1, calls) \<longrightarrow> status_of calls \<noteq> 404 \<longrightarrow>
     (\<exists>out. Composite_ServeHTTP virtual legacy rq s = (rq1, s1, out) \<and> status_of out = status_of calls \<and> body_of out = body_of calls)) \<and>
   (virtual rq s = (rq1, s1, calls) \<longrightarrow> status_of calls = 404 \<longrightarrow> legacy rq1 s1 = (rq2, s2, calls2) \<longrightarrow>
     (\<exists>out. Composite_ServeHTTP virtual legacy rq s = (rq2, s2, out) \<and> status_of out = status_of calls2 \<and> body_of out = body_of calls2)) \<and>
   (isWriteMethod (rq_Method rq) \<longrightarrow> resolveView (rq_Path rq) (vf_db t) = Inl ErrNotExist \<longrightarrow>
     Composite_ServeHTTP (VirtualHandler_ServeHTTP inner) legacy' rq t = (rq, t, http_Error ''view is read-only'' 403))"
proof -
  note R = rec_calls_before [where calls = calls and w = "\<lparr>rc_status = 200, rc_wroteHeader = False, rc_out = []\<rparr>", simplified]
  have "VirtualHandler_ServeHTTP inner rq t = (rq, t, http_Error ''view is read-only'' 403)"
    if "isWriteMethod (rq_Method rq)" "resolveView (rq_Path rq) (vf_db t) = Inl ErrNotExist"
    using that by (simp add: VirtualHandler_ServeHTTP_def checkWritable_def)
  then have "isWriteMethod (rq_Method rq) \<longrightarrow> resolveView (rq_Path rq) (vf_db t) = Inl ErrNotExist \<longrightarrow>
     Composite_ServeHTTP (VirtualHandler_ServeHTTP inner) legacy' rq t = (rq, t, http_Error ''view is read-only'' 403)"
    by (simp add: Composite_ServeHTTP_def http_Error_def rec_WriteHeader_def rec_Write_def)
  moreover have "virtual rq s = (rq1, s1, calls) \<longrightarrow> status_of calls = 404 \<longrightarrow> legacy rq1 s1 = (rq2, s2, calls2) \<longrightarrow>
     (\<exists>out. Composite_ServeHTTP virtual legacy rq s = (rq2, s2, out) \<and> status_of out = status_of calls2 \<and> body_of out = body_of calls2)"
    using R by (simp add: Composite_ServeHTTP_def Let_def status_of_headers)
  moreover have "virtual rq s = (rq1, s1, calls) \<longrightarrow> status_of calls \<noteq> 404 \<longrightarrow>
     (\<exists>out. Composite_ServeHTTP virtual legacy rq s = (rq1, s1, out) \<and> status_of out = status_of calls \<and> body_of out = body_of calls)"
    using R by (simp add: Composite_ServeHTTP_def Let_def)
  ultimately show ?thesis by blast
qed

theorem composite_handler_witness:
  "\<exists>rq. isWriteMethod (rq_Method rq) \<and> resolveView (rq_Path rq) demo_db = Inl ErrNotExist \<and>
     Composite_ServeHTTP (VirtualHandler_ServeHTTP (\<lambda>rq s. (rq, s, [WriteHeader 201]))) (\<lambda>rq s. (rq, s, [WriteHeader 204])) rq demo_vfs =
       (rq, demo_vfs, http_Error ''view is read-only'' 403)"
proof -
  let ?rq = "\<lparr>rq_Method = ''PUT'', rq_Path = ''/flat.txt'', rq_Depth = [], rq_Destination = [], rq_ContentLength = 3, rq_RemoteAddr = []\<rparr>"
  have m: "isWriteMethod (rq_Method ?rq)" by (simp add: isWriteMethod_def)
  have r: "resolveView (rq_Path ?rq) (vf_db demo_vfs) = Inl ErrNotExist" by code_simp
  have "Composite_ServeHTTP (VirtualHandler_ServeHTTP (\<lambda>rq s. (rq, s, [WriteHeader 201]))) (\<lambda>rq s. (rq, s, [WriteHeader 204])) ?rq demo_vfs =
       (?rq, demo_vfs, http_Error ''view is read-only'' 403)"
    by (rule composite_handler [THEN conjunct2, THEN conjunct2, rule_format, OF m r])
  moreover have "vf_db demo_vfs = demo_db" by (simp add: demo_vfs_def)
  ultimately show ?thesis using m r by (intro exI [of _ ?rq] conjI) (simp_all only:)
qed

end
