(* ===== verification/Rate_Limit.thy ===== *)
theory Rate_Limit
  imports Go_Http "HOL-Library.Multiset"
begin

text \<open>
  The rate limiter of the login and refresh endpoints, src/internal/middleware/rate_limit.go. Times
  are nanoseconds; the zero time of \<^verbatim>\<open>lockedUntil\<close> is \<^const>\<open>None\<close>. The map of entries is
  an association list, and \<open>ord\<close> is the order in which Go's range visits it, any
  permutation. The limiter holds its mutex during the whole request, so requests are steps. Durations are not
  negative (the two limiters of the program are made with constants), so seconds are rounded down.
\<close>

section \<open>The limiter\<close>

definition maxIPs :: nat where
  "maxIPs = 100"

record rateEntry =
  re_attempts :: int
  re_windowStart :: int
  re_lockedUntil :: "int option"

type_synonym rate_map = "(string \<times> rateEntry) list"

record rateLimiter =
  rl_entries :: rate_map
  rl_maxAttempts :: int
  rl_window :: int
  rl_lockout :: int
  rl_reqCount :: int

definition extractIP :: "string \<Rightarrow> string" where
  "extractIP remoteAddr = (case SplitHostPort remoteAddr of None \<Rightarrow> remoteAddr | Some (ip, _) \<Rightarrow> ip)"

definition locked_at :: "int \<Rightarrow> rateEntry \<Rightarrow> bool" where
  "locked_at now e \<longleftrightarrow> (case re_lockedUntil e of None \<Rightarrow> False | Some t \<Rightarrow> now < t)"

definition rl_prune :: "int \<Rightarrow> rateLimiter \<Rightarrow> rateLimiter" where
  "rl_prune now rl =
     rl\<lparr>rl_entries := filter (\<lambda>(ip, e). locked_at now e \<or> now - re_windowStart e \<le> rl_window rl) (rl_entries rl)\<rparr>"

text \<open>The scan of evictOldest: the first of the earliest windows among the entries not locked.\<close>

fun oldest :: "int \<Rightarrow> rate_map \<Rightarrow> (string \<times> int) option \<Rightarrow> (string \<times> int) option" where
  "oldest now [] acc = acc"
| "oldest now ((ip, e) # es) acc =
     (if locked_at now e then oldest now es acc
      else oldest now es (case acc of
             None \<Rightarrow> Some (ip, re_windowStart e)
           | Some (i, t) \<Rightarrow> if re_windowStart e < t then Some (ip, re_windowStart e) else acc))"

definition delete_ip :: "string \<Rightarrow> rate_map \<Rightarrow> rate_map" where
  "delete_ip ip es = filter (\<lambda>(i, e). i \<noteq> ip) es"

definition rl_evictOldest :: "(rate_map \<Rightarrow> rate_map) \<Rightarrow> int \<Rightarrow> rateLimiter \<Rightarrow> rateLimiter" where
  "rl_evictOldest ord now rl =
     (case oldest now (ord (rl_entries rl)) None of
        None \<Rightarrow> rl
      | Some (ip, _) \<Rightarrow> if ip \<noteq> [] then rl\<lparr>rl_entries := delete_ip ip (rl_entries rl)\<rparr> else rl)"

definition put_entry :: "string \<Rightarrow> rateEntry \<Rightarrow> rateLimiter \<Rightarrow> rateLimiter" where
  "put_entry ip e rl = rl\<lparr>rl_entries := map (\<lambda>(i, f). if i = ip then (i, e) else (i, f)) (rl_entries rl)\<rparr>"

text \<open>One matching request: the entry of the client is looked up or made, then judged; the request is
  passed on, or refused with the seconds to wait.\<close>

datatype rl_decision = Pass | Limited int

definition rl_tick :: "int \<Rightarrow> rateLimiter \<Rightarrow> rateLimiter" where
  "rl_tick now rl0 =
     (let rl1 = rl0\<lparr>rl_reqCount := rl_reqCount rl0 + 1\<rparr> in
      if rl_reqCount rl1 mod 100 = 0 then rl_prune now rl1 else rl1)"

definition rl_lookup :: "(rate_map \<Rightarrow> rate_map) \<Rightarrow> int \<Rightarrow> string \<Rightarrow> rateLimiter \<Rightarrow> rateLimiter" where
  "rl_lookup ord now ip rl0 =
     (let rl2 = rl_tick now rl0
      in case map_of (rl_entries rl2) ip of
           Some e \<Rightarrow> rl2
         | None \<Rightarrow>
             (let rl = (if maxIPs \<le> length (rl_entries rl2) then rl_evictOldest ord now rl2 else rl2) in
              rl\<lparr>rl_entries := rl_entries rl @ [(ip, \<lparr>re_attempts = 0, re_windowStart = now, re_lockedUntil = None\<rparr>)]\<rparr>))"

definition rl_judge :: "int \<Rightarrow> string \<Rightarrow> rateLimiter \<Rightarrow> rateLimiter \<times> rl_decision" where
  "rl_judge now ip rl3 =
     (let entry = the (map_of (rl_entries rl3) ip)
      in if locked_at now entry then (rl3, Limited ((the (re_lockedUntil entry) - now) div 10 ^ 9 + 1))
         else let entry1 = (if now - re_windowStart entry > rl_window rl3 then entry\<lparr>re_attempts := 0, re_windowStart := now\<rparr> else entry)
         in if re_attempts entry1 \<ge> rl_maxAttempts rl3
            then (put_entry ip (entry1\<lparr>re_lockedUntil := Some (now + rl_lockout rl3), re_attempts := 0, re_windowStart := now\<rparr>) rl3,
                  Limited (rl_lockout rl3 div 10 ^ 9))
            else (put_entry ip (entry1\<lparr>re_attempts := re_attempts entry1 + 1\<rparr>) rl3, Pass))"

definition rl_decide :: "(rate_map \<Rightarrow> rate_map) \<Rightarrow> int \<Rightarrow> string \<Rightarrow> rateLimiter \<Rightarrow> rateLimiter \<times> rl_decision" where
  "rl_decide ord now ip rl = rl_judge now ip (rl_lookup ord now ip rl)"

definition writeLimited :: "int \<Rightarrow> rw_call list" where
  "writeLimited retryAfter =
     [SetHeader ''Content-Type'' ''application/json'', SetHeader ''Retry-After'' (format_int retryAfter), WriteHeader 429,
      Write (''{'' @ [char_of (34 :: nat)] @ ''success'' @ [char_of (34 :: nat)] @ '':false,'' @ [char_of (34 :: nat)] @ ''message'' @
        [char_of (34 :: nat)] @ '':'' @ [char_of (34 :: nat)] @ ''too many requests'' @ [char_of (34 :: nat)] @ ''}'')]"

definition endpointRateLimit ::
  "(request \<Rightarrow> bool) \<Rightarrow> (rate_map \<Rightarrow> rate_map) \<Rightarrow> int \<Rightarrow> 's http_handler \<Rightarrow> (rateLimiter \<times> 's) http_handler" where
  "endpointRateLimit matcher ord now next rq st =
     (let (rl, s) = st in
      if \<not> matcher rq then (case next rq s of (rq', s', calls) \<Rightarrow> (rq', (rl, s'), calls))
      else (case rl_decide ord now (extractIP (rq_RemoteAddr rq)) rl of
              (rl', Limited n) \<Rightarrow> (rq, (rl', s), writeLimited n)
            | (rl', Pass) \<Rightarrow> (case next rq s of (rq', s', calls) \<Rightarrow> (rq', (rl', s'), calls))))"

definition new_limiter :: "int \<Rightarrow> int \<Rightarrow> int \<Rightarrow> rateLimiter" where
  "new_limiter maxAttempts window lockout =
     \<lparr>rl_entries = [], rl_maxAttempts = maxAttempts, rl_window = window, rl_lockout = lockout, rl_reqCount = 0\<rparr>"

definition login_request :: "request \<Rightarrow> bool" where
  "login_request rq \<longleftrightarrow> rq_Path rq = ''/api/v1/auth/login'' \<and> rq_Method rq = ''POST''"

definition endpoint_request :: "string \<Rightarrow> string \<Rightarrow> request \<Rightarrow> bool" where
  "endpoint_request pth meth rq \<longleftrightarrow> rq_Path rq = pth \<and> rq_Method rq = meth"

section \<open>Runs\<close>

text \<open>Requests as they arrive: time, client and the visiting order of this step; the decisions are
  collected.\<close>

type_synonym rl_arrival = "int \<times> string \<times> (rate_map \<Rightarrow> rate_map)"

fun rl_run :: "rl_arrival list \<Rightarrow> rateLimiter \<Rightarrow> rateLimiter \<times> (string \<times> rl_decision) list" where
  "rl_run [] rl = (rl, [])"
| "rl_run ((now, ip, ord) # as) rl =
     (let (rl1, r) = rl_decide ord now ip rl; (rl2, rs) = rl_run as rl1 in (rl2, (ip, r) # rs))"

definition is_order :: "(rate_map \<Rightarrow> rate_map) \<Rightarrow> bool" where
  "is_order ord \<longleftrightarrow> (\<forall>es. mset (ord es) = mset es)"

definition passes :: "string \<Rightarrow> (string \<times> rl_decision) list \<Rightarrow> nat" where
  "passes ip rs = length (filter (\<lambda>r. r = (ip, Pass)) rs)"

section \<open>Facts on one step\<close>

lemma map_of_filter_key: "P (k, v) \<Longrightarrow> map_of xs k = Some v \<Longrightarrow> distinct (map fst xs) \<Longrightarrow> map_of (filter P xs) k = Some v"
  by (induction xs) (auto split: if_splits simp: image_iff)

lemma distinct_fst_filter: "distinct (map fst xs) \<Longrightarrow> distinct (map fst (filter P xs))"
  by (induction xs) auto

lemma oldest_not_locked:
  "oldest now es acc = Some (ip, t) \<Longrightarrow> acc = Some (ip, t) \<or> (\<exists>e. (ip, e) \<in> set es \<and> \<not> locked_at now e)"
  by (induction now es acc rule: oldest.induct) (auto split: if_splits option.splits)

lemma map_of_put_entry: "map_of (rl_entries (put_entry ip e rl)) i = (if i = ip then map_option (\<lambda>_. e) (map_of (rl_entries rl) ip) else map_of (rl_entries rl) i)"
proof -
  have "map_of (map (\<lambda>(j, f). if j = ip then (j, e) else (j, f)) xs) i = (if i = ip then map_option (\<lambda>_. e) (map_of xs ip) else map_of xs i)" for xs
    by (induction xs) auto
  then show ?thesis by (simp add: put_entry_def)
qed

lemma fst_put_entry [simp]: "map fst (rl_entries (put_entry ip e rl)) = map fst (rl_entries rl)"
proof -
  have "map fst (map (\<lambda>(j, f). if j = ip then (j, e) else (j, f)) xs) = map fst xs" for xs :: rate_map by (induction xs) auto
  then show ?thesis by (simp add: put_entry_def)
qed

lemma evict_keeps_locked:
  assumes "is_order ord" "distinct (map fst (rl_entries rl))" "map_of (rl_entries rl) ip = Some e" "locked_at now e"
  shows "map_of (rl_entries (rl_evictOldest ord now rl)) ip = Some e"
proof (cases "oldest now (ord (rl_entries rl)) None")
  case (Some p)
  obtain i t where p: "p = (i, t)" by fastforce
  have "set (ord (rl_entries rl)) = set (rl_entries rl)" using assms(1) unfolding is_order_def by (metis set_mset_mset)
  then obtain f where f: "(i, f) \<in> set (rl_entries rl)" "\<not> locked_at now f" using oldest_not_locked [of now "ord (rl_entries rl)" None i t] Some p by auto
  then have "i \<noteq> ip" using assms(2-4) by (metis map_of_is_SomeI option.inject)
  then show ?thesis using Some p assms by (auto simp: rl_evictOldest_def delete_ip_def intro!: map_of_filter_key)
qed (use assms in \<open>simp add: rl_evictOldest_def\<close>)

lemma evict_frame:
  "rl_maxAttempts (rl_evictOldest ord now rl) = rl_maxAttempts rl" "rl_window (rl_evictOldest ord now rl) = rl_window rl"
  "rl_lockout (rl_evictOldest ord now rl) = rl_lockout rl"
  "distinct (map fst (rl_entries rl)) \<Longrightarrow> distinct (map fst (rl_entries (rl_evictOldest ord now rl)))"
  "fst ` set (rl_entries (rl_evictOldest ord now rl)) \<subseteq> fst ` set (rl_entries rl)"
  by (auto simp: rl_evictOldest_def delete_ip_def distinct_fst_filter split: option.split)

lemma tick_frame:
  "rl_maxAttempts (rl_tick now rl) = rl_maxAttempts rl" "rl_window (rl_tick now rl) = rl_window rl" "rl_lockout (rl_tick now rl) = rl_lockout rl"
  "distinct (map fst (rl_entries rl)) \<Longrightarrow> distinct (map fst (rl_entries (rl_tick now rl)))"
  "fst ` set (rl_entries (rl_tick now rl)) \<subseteq> fst ` set (rl_entries rl)"
  by (auto simp: rl_tick_def rl_prune_def distinct_fst_filter Let_def)

lemma tick_keeps:
  assumes "distinct (map fst (rl_entries rl))" "map_of (rl_entries rl) ip = Some e" "locked_at now e \<or> now - re_windowStart e \<le> rl_window rl"
  shows "map_of (rl_entries (rl_tick now rl)) ip = Some e"
  using assms by (auto simp: rl_tick_def rl_prune_def Let_def intro!: map_of_filter_key)

lemma tick_None: "map_of (rl_entries rl) ip = None \<Longrightarrow> map_of (rl_entries (rl_tick now rl)) ip = None"
  using tick_frame(5) [of now rl] by (auto simp: map_of_eq_None_iff)

lemma lookup_frame:
  assumes "distinct (map fst (rl_entries rl))"
  shows "rl_maxAttempts (rl_lookup ord now ip rl) = rl_maxAttempts rl" "rl_window (rl_lookup ord now ip rl) = rl_window rl"
    "rl_lockout (rl_lookup ord now ip rl) = rl_lockout rl"
    "distinct (map fst (rl_entries (rl_lookup ord now ip rl)))" "fst ` set (rl_entries (rl_lookup ord now ip rl)) \<subseteq> insert ip (fst ` set (rl_entries rl))"
    "map_of (rl_entries (rl_lookup ord now ip rl)) ip \<noteq> None"
proof -
  define r2 where "r2 = rl_tick now rl"
  have r2: "rl_maxAttempts r2 = rl_maxAttempts rl" "rl_window r2 = rl_window rl" "rl_lockout r2 = rl_lockout rl"
    "distinct (map fst (rl_entries r2))" "fst ` set (rl_entries r2) \<subseteq> fst ` set (rl_entries rl)"
    using assms tick_frame [where now = now and rl = rl] by (simp_all add: r2_def)
  define r3 where "r3 = (if maxIPs \<le> length (rl_entries r2) then rl_evictOldest ord now r2 else r2)"
  have r3: "rl_maxAttempts r3 = rl_maxAttempts rl" "rl_window r3 = rl_window rl" "rl_lockout r3 = rl_lockout rl"
    "distinct (map fst (rl_entries r3))" "fst ` set (rl_entries r3) \<subseteq> fst ` set (rl_entries r2)"
    using r2 evict_frame [where ord = ord and now = now and rl = r2] by (auto simp: r3_def)
  have l: "rl_lookup ord now ip rl = (case map_of (rl_entries r2) ip of Some e \<Rightarrow> r2
      | None \<Rightarrow> r3\<lparr>rl_entries := rl_entries r3 @ [(ip, \<lparr>re_attempts = 0, re_windowStart = now, re_lockedUntil = None\<rparr>)]\<rparr>)"
    by (simp add: rl_lookup_def r2_def [symmetric] r3_def Let_def split: option.split)
  show "rl_maxAttempts (rl_lookup ord now ip rl) = rl_maxAttempts rl" "rl_window (rl_lookup ord now ip rl) = rl_window rl"
    "rl_lockout (rl_lookup ord now ip rl) = rl_lockout rl"
    unfolding l using r2 r3 by (simp_all split: option.split)
  have "ip \<notin> fst ` set (rl_entries r3)" if "map_of (rl_entries r2) ip = None" using r3(5) that by (auto simp: map_of_eq_None_iff)
  then show "distinct (map fst (rl_entries (rl_lookup ord now ip rl)))" unfolding l using r2 r3 by (simp split: option.split)
  show "fst ` set (rl_entries (rl_lookup ord now ip rl)) \<subseteq> insert ip (fst ` set (rl_entries rl))"
    unfolding l using r2(5) subset_trans [OF r3(5) r2(5)] by (auto split: option.split)
  show "map_of (rl_entries (rl_lookup ord now ip rl)) ip \<noteq> None"
    unfolding l by (simp add: map_add_def split: option.split)
qed

lemma map_of_snoc_other: "map_of xs k = Some v \<Longrightarrow> map_of (xs @ ys) k = Some v"
  by (induction xs) auto

lemma lookup_keeps_locked:
  assumes "is_order ord" "distinct (map fst (rl_entries rl))" "map_of (rl_entries rl) ip = Some e" "locked_at now e"
  shows "map_of (rl_entries (rl_lookup ord now i rl)) ip = Some e"
proof -
  define r2 where "r2 = rl_tick now rl"
  have r2: "distinct (map fst (rl_entries r2))" "map_of (rl_entries r2) ip = Some e"
    using assms tick_frame(4) [OF assms(2)] tick_keeps [OF assms(2,3)] by (simp_all add: r2_def)
  have "map_of (rl_entries (rl_evictOldest ord now r2)) ip = Some e" using evict_keeps_locked [OF assms(1) r2 assms(4)] .
  then show ?thesis using r2(2) by (auto simp: rl_lookup_def r2_def [symmetric] Let_def map_of_snoc_other split: option.split)
qed

text \<open>With room for every client nothing is evicted, and what is neither locked nor old is kept.\<close>

lemma lookup_no_evict:
  assumes "distinct (map fst (rl_entries rl))" "fst ` set (rl_entries rl) \<subseteq> S" "i \<in> S" "finite S" "card S \<le> maxIPs"
  shows "map_of (rl_entries rl) ip = Some e \<Longrightarrow> locked_at now e \<or> now - re_windowStart e \<le> rl_window rl \<Longrightarrow>
      map_of (rl_entries (rl_lookup ord now i rl)) ip = Some e"
    "map_of (rl_entries rl) ip = None \<Longrightarrow> map_of (rl_entries (rl_lookup ord now i rl)) ip =
      (if i = ip then Some \<lparr>re_attempts = 0, re_windowStart = now, re_lockedUntil = None\<rparr> else None)"
proof -
  define r2 where "r2 = rl_tick now rl"
  have r2: "distinct (map fst (rl_entries r2))" "fst ` set (rl_entries r2) \<subseteq> S"
    using assms tick_frame(4) [OF assms(1)] tick_frame(5) [where now = now and rl = rl] by (auto simp: r2_def)
  have "length (rl_entries r2) < maxIPs" if "map_of (rl_entries r2) i = None"
  proof -
    have "fst ` set (rl_entries r2) \<subseteq> S - {i}" using r2(2) that by (auto simp: map_of_eq_None_iff)
    then have "card (set (map fst (rl_entries r2))) \<le> card (S - {i})" using assms(4) by (intro card_mono) auto
    then have "length (rl_entries r2) \<le> card (S - {i})" using distinct_card [OF r2(1)] by simp
    also have "\<dots> < card S" using assms(3,4) by (rule card_Diff1_less [rotated])
    finally show ?thesis using assms(5) by simp
  qed
  then have l: "rl_lookup ord now i rl = (case map_of (rl_entries r2) i of Some e \<Rightarrow> r2
      | None \<Rightarrow> r2\<lparr>rl_entries := rl_entries r2 @ [(i, \<lparr>re_attempts = 0, re_windowStart = now, re_lockedUntil = None\<rparr>)]\<rparr>)"
    by (auto simp: rl_lookup_def r2_def [symmetric] Let_def not_le split: option.split)
  { assume "map_of (rl_entries rl) ip = Some e" "locked_at now e \<or> now - re_windowStart e \<le> rl_window rl"
    then have "map_of (rl_entries r2) ip = Some e" using assms(1) tick_keeps by (simp add: r2_def)
    then show "map_of (rl_entries (rl_lookup ord now i rl)) ip = Some e" unfolding l by (simp add: map_of_snoc_other split: option.split) }
  { assume n: "map_of (rl_entries rl) ip = None"
    then have "map_of (rl_entries r2) ip = None" using tick_None by (simp add: r2_def)
    then show "map_of (rl_entries (rl_lookup ord now i rl)) ip =
        (if i = ip then Some \<lparr>re_attempts = 0, re_windowStart = now, re_lockedUntil = None\<rparr> else None)"
      unfolding l by (auto simp: map_add_def split: option.split) }
qed

lemma judge_frame:
  "rl_maxAttempts (fst (rl_judge now i rl)) = rl_maxAttempts rl" "rl_window (fst (rl_judge now i rl)) = rl_window rl"
  "rl_lockout (fst (rl_judge now i rl)) = rl_lockout rl" "map fst (rl_entries (fst (rl_judge now i rl))) = map fst (rl_entries rl)"
  "ip \<noteq> i \<Longrightarrow> map_of (rl_entries (fst (rl_judge now i rl))) ip = map_of (rl_entries rl) ip"
  by (simp_all add: rl_judge_def Let_def map_of_put_entry) (simp_all add: put_entry_def)

lemma decide_frame:
  assumes "distinct (map fst (rl_entries rl))"
  shows "rl_maxAttempts (fst (rl_decide ord now i rl)) = rl_maxAttempts rl" "rl_window (fst (rl_decide ord now i rl)) = rl_window rl"
    "rl_lockout (fst (rl_decide ord now i rl)) = rl_lockout rl" "distinct (map fst (rl_entries (fst (rl_decide ord now i rl))))"
    "fst ` set (rl_entries (fst (rl_decide ord now i rl))) \<subseteq> insert i (fst ` set (rl_entries rl))"
  using lookup_frame [OF assms, where ord = ord and now = now and ip = i] judge_frame [where now = now and i = i and rl = "rl_lookup ord now i rl"]
  by (simp_all add: rl_decide_def flip: set_map)

lemma decide_locked:
  assumes "is_order ord" "distinct (map fst (rl_entries rl))" "map_of (rl_entries rl) ip = Some e" "locked_at now e"
  shows "map_of (rl_entries (fst (rl_decide ord now i rl))) ip = Some e \<and> (i = ip \<longrightarrow> snd (rl_decide ord now i rl) \<noteq> Pass)"
proof -
  note l = lookup_keeps_locked [OF assms, of i]
  show ?thesis
  proof (cases "i = ip")
    case True
    then show ?thesis using l assms(4) by (simp add: rl_decide_def rl_judge_def Let_def)
  next
    case False
    then show ?thesis using l judge_frame(5) [of ip i now "rl_lookup ord now i rl"] by (simp add: rl_decide_def)
  qed
qed

lemma passes_Cons: "passes ip ((i, r) # rs) = (if i = ip \<and> r = Pass then 1 else 0) + passes ip rs"
  by (simp add: passes_def)

lemma locked_run:
  assumes "distinct (map fst (rl_entries rl))" "map_of (rl_entries rl) ip = Some e" "re_lockedUntil e = Some L"
    "list_all (\<lambda>(now, i, ord). is_order ord \<and> now < L) as"
  shows "map_of (rl_entries (fst (rl_run as rl))) ip = Some e \<and> passes ip (snd (rl_run as rl)) = 0"
  using assms(1,2,4)
proof (induction as arbitrary: rl)
  case (Cons a as)
  obtain now i ord where a: "a = (now, i, ord)" by (cases a)
  have lk: "is_order ord" "locked_at now e" using Cons.prems(3) assms(3) by (simp_all add: a locked_at_def)
  note d = decide_locked [OF lk(1) Cons.prems(1,2) lk(2), of i]
  obtain rl1 r where r: "rl_decide ord now i rl = (rl1, r)" by fastforce
  obtain rl2 rs where rs: "rl_run as rl1 = (rl2, rs)" by fastforce
  have "distinct (map fst (rl_entries rl1))" using decide_frame(4) [OF Cons.prems(1), of ord now i] r by simp
  then have "map_of (rl_entries (fst (rl_run as rl1))) ip = Some e \<and> passes ip (snd (rl_run as rl1)) = 0"
    using Cons.IH [of rl1] d r Cons.prems(3) by simp
  then show ?case using d r rs by (auto simp: a passes_Cons)
qed (simp add: passes_def)

text \<open>The budget of a client in the interval of one window from \<open>t0\<close> on: none left once it is
  locked beyond the interval, otherwise what its attempts leave.\<close>

definition budget :: "int \<Rightarrow> string \<Rightarrow> rateLimiter \<Rightarrow> int \<Rightarrow> bool" where
  "budget t0 ip rl k \<longleftrightarrow> 0 \<le> k \<and>
     (case map_of (rl_entries rl) ip of
        None \<Rightarrow> k = rl_maxAttempts rl
      | Some e \<Rightarrow> (\<exists>L. re_lockedUntil e = Some L \<and> t0 + rl_window rl \<le> L) \<or>
          (re_lockedUntil e = None \<and> t0 \<le> re_windowStart e \<and> re_attempts e + k = rl_maxAttempts rl))"

lemma judge_budget:
  assumes "map_of (rl_entries rl) ip = Some e" "0 \<le> k" "t0 \<le> now" "now < t0 + rl_window rl" "rl_window rl \<le> rl_lockout rl"
    and e: "(\<exists>L. re_lockedUntil e = Some L \<and> t0 + rl_window rl \<le> L) \<or> (re_lockedUntil e = None \<and> t0 \<le> re_windowStart e \<and> re_attempts e + k = rl_maxAttempts rl)"
  shows "\<exists>k'. budget t0 ip (fst (rl_judge now ip rl)) k' \<and> k' + (if snd (rl_judge now ip rl) = Pass then 1 else 0) \<le> k"
  using e
proof
  assume "\<exists>L. re_lockedUntil e = Some L \<and> t0 + rl_window rl \<le> L"
  then have "locked_at now e" using assms(4) by (auto simp: locked_at_def)
  then show ?thesis using assms e by (auto simp: rl_judge_def Let_def budget_def)
next
  assume f: "re_lockedUntil e = None \<and> t0 \<le> re_windowStart e \<and> re_attempts e + k = rl_maxAttempts rl"
  then have nl: "\<not> locked_at now e" "\<not> now - re_windowStart e > rl_window rl" using assms(3,4) by (auto simp: locked_at_def)
  show ?thesis
  proof (cases "re_attempts e \<ge> rl_maxAttempts rl")
    case True
    let ?e = "e\<lparr>re_lockedUntil := Some (now + rl_lockout rl), re_attempts := 0, re_windowStart := now\<rparr>"
    have j: "rl_judge now ip rl = (put_entry ip ?e rl, Limited (rl_lockout rl div 10 ^ 9))" using assms(1) nl True by (simp add: rl_judge_def Let_def)
    have "budget t0 ip (put_entry ip ?e rl) 0" using assms by (simp add: budget_def map_of_put_entry) (simp add: put_entry_def)
    then show ?thesis unfolding j using assms(2) by (intro exI [of _ 0]) simp
  next
    case False
    let ?e = "e\<lparr>re_attempts := re_attempts e + 1\<rparr>"
    have j: "rl_judge now ip rl = (put_entry ip ?e rl, Pass)" using assms(1) nl False by (simp add: rl_judge_def Let_def)
    have "budget t0 ip (put_entry ip ?e rl) (k - 1)" using assms(1) f False by (simp add: budget_def map_of_put_entry) (simp add: put_entry_def)
    then show ?thesis unfolding j by (intro exI [of _ "k - 1"]) simp
  qed
qed

lemma decide_budget:
  assumes d: "distinct (map fst (rl_entries rl))" "fst ` set (rl_entries rl) \<subseteq> S" "i \<in> S" "finite S" "card S \<le> maxIPs"
    and b: "budget t0 ip rl k" "t0 \<le> now" "now < t0 + rl_window rl" "rl_window rl \<le> rl_lockout rl"
  shows "\<exists>k'. budget t0 ip (fst (rl_decide ord now i rl)) k' \<and> k' + (if i = ip \<and> snd (rl_decide ord now i rl) = Pass then 1 else 0) \<le> k"
proof -
  let ?l = "rl_lookup ord now i rl"
  note fr = lookup_frame [OF d(1), where ord = ord and now = now and ip = i]
  have kept: "map_of (rl_entries ?l) ip = Some e" if "map_of (rl_entries rl) ip = Some e" for e
  proof -
    have "locked_at now e \<or> now - re_windowStart e \<le> rl_window rl" using b that by (auto simp: budget_def locked_at_def)
    then show ?thesis using lookup_no_evict(1) [OF d that] by blast
  qed
  have new: "map_of (rl_entries ?l) ip = (if i = ip then Some \<lparr>re_attempts = 0, re_windowStart = now, re_lockedUntil = None\<rparr> else None)"
    if "map_of (rl_entries rl) ip = None" using lookup_no_evict(2) [OF d that] .
  have bl: "budget t0 ip ?l k"
  proof (cases "map_of (rl_entries rl) ip")
    case None
    then show ?thesis using new [OF None] b fr by (cases "i = ip") (simp_all add: budget_def)
  next
    case (Some e)
    then show ?thesis using kept [OF Some] b fr by (simp add: budget_def)
  qed
  show ?thesis
  proof (cases "i = ip")
    case True
    then obtain e where e: "map_of (rl_entries ?l) ip = Some e" using fr(6) by (cases "map_of (rl_entries ?l) ip") auto
    show ?thesis using judge_budget [OF e, of k t0 now] bl b e fr True by (simp add: budget_def rl_decide_def)
  next
    case False
    have "budget t0 ip (fst (rl_judge now i ?l)) k"
      using bl judge_frame(5) [of ip i now ?l] False by (auto simp: budget_def judge_frame(1,2) split: option.splits)
    then show ?thesis using False by (intro exI [of _ k]) (simp add: rl_decide_def)
  qed
qed

lemma run_budget:
  assumes "distinct (map fst (rl_entries rl))" "fst ` set (rl_entries rl) \<subseteq> S" "finite S" "card S \<le> maxIPs" "budget t0 ip rl k"
    "rl_window rl \<le> rl_lockout rl" "list_all (\<lambda>(now, i, ord). i \<in> S \<and> t0 \<le> now \<and> now < t0 + rl_window rl) as"
  shows "int (passes ip (snd (rl_run as rl))) \<le> k"
  using assms
proof (induction as arbitrary: rl k)
  case Nil
  then show ?case by (simp add: passes_def budget_def)
next
  case (Cons a as)
  obtain now i ord where a: "a = (now, i, ord)" by (cases a)
  have ai: "i \<in> S" "t0 \<le> now" "now < t0 + rl_window rl" using Cons.prems(7) by (simp_all add: a)
  obtain rl1 r where r: "rl_decide ord now i rl = (rl1, r)" by fastforce
  obtain k' where k: "budget t0 ip rl1 k'" "k' + (if i = ip \<and> r = Pass then 1 else 0) \<le> k"
    using decide_budget [OF Cons.prems(1,2) ai(1) Cons.prems(3,4,5) ai(2,3) Cons.prems(6), of ord] r by auto
  have f: "distinct (map fst (rl_entries rl1))" "fst ` set (rl_entries rl1) \<subseteq> S" "rl_window rl1 = rl_window rl" "rl_lockout rl1 = rl_lockout rl"
    using decide_frame [OF Cons.prems(1), where ord = ord and now = now and i = i] r Cons.prems(2) ai(1) by auto
  have "int (passes ip (snd (rl_run as rl1))) \<le> k'"
    using Cons.IH [OF f(1,2) Cons.prems(3,4) k(1)] f Cons.prems(6,7) by simp
  then show ?case using k(2) r by (auto simp: a passes_Cons split_beta split: if_splits)
qed

lemma locked_map_grows:
  assumes "distinct (map fst (rl_entries rl) @ xs)" "rl_maxAttempts rl = 0" "rl_lockout rl = 900"
    "\<forall>p \<in> set (rl_entries rl). re_lockedUntil (snd p) = Some 900"
  shows "length (rl_entries (fst (rl_run (map (\<lambda>ip. (0, ip, \<lambda>es. es)) xs) rl))) = length (rl_entries rl) + length xs"
  using assms
proof (induction xs arbitrary: rl)
  case (Cons x xs)
  let ?e = "\<lparr>re_attempts = 0, re_windowStart = 0, re_lockedUntil = None\<rparr>" and ?t = "rl_tick 0 rl"
  have lk: "\<forall>p \<in> set (rl_entries rl). locked_at 0 (snd p)" using Cons.prems(4) by (auto simp: locked_at_def)
  have tick: "rl_entries ?t = rl_entries rl" using lk by (auto simp: rl_tick_def rl_prune_def Let_def filter_id_conv)
  have "oldest 0 es None = None" if "set es \<subseteq> set (rl_entries rl)" for es using that lk by (induction es) auto
  then have ev: "rl_evictOldest (\<lambda>es. es) 0 ?t = ?t" by (simp add: rl_evictOldest_def tick)
  have fresh: "map_of (rl_entries rl) x = None" using Cons.prems(1) by (auto simp: map_of_eq_None_iff)
  have look: "rl_lookup (\<lambda>es. es) 0 x rl = ?t\<lparr>rl_entries := rl_entries rl @ [(x, ?e)]\<rparr>" using fresh by (simp add: rl_lookup_def Let_def tick ev)
  have m: "map (\<lambda>(i, f). if i = x then (i, e) else (i, f)) (rl_entries rl) = rl_entries rl" for e
    using Cons.prems(1) by (intro map_idI) (auto simp: image_iff)
  have "rl_entries (fst (rl_decide (\<lambda>es. es) 0 x rl)) = rl_entries rl @ [(x, ?e\<lparr>re_lockedUntil := Some 900\<rparr>)]"
    using fresh Cons.prems(2,3) tick_frame(1,3) [where now = 0 and rl = rl]
    by (simp add: rl_decide_def look rl_judge_def put_entry_def m map_add_def locked_at_def Let_def)
  moreover have "rl_maxAttempts (fst (rl_decide (\<lambda>es. es) 0 x rl)) = 0" "rl_lockout (fst (rl_decide (\<lambda>es. es) 0 x rl)) = 900"
    using decide_frame [where rl = rl and ord = "\<lambda>es. es" and now = 0 and i = x] Cons.prems by simp_all
  ultimately show ?case using Cons.IH [of "fst (rl_decide (\<lambda>es. es) 0 x rl)"] Cons.prems by (auto simp: split_beta)
qed simp

section \<open>Properties\<close>

text \<open>
  C17: The limiter limits. (1) Once a client is locked, every request it makes before the end of the
  lockout is refused, and its entry survives, whatever other clients do and in whatever order the
  map is visited. (2) A client without an entry has at most maxAttempts requests passed on within
  one window, when the lockout is at least as long as the window and at most 100 clients are seen,
  so that no entry is evicted.
\<close>
theorem rate_limit_holds:
  assumes "distinct (map fst (rl_entries rl))"
  shows "(map_of (rl_entries rl) ip = Some e \<longrightarrow> re_lockedUntil e = Some L \<longrightarrow> list_all (\<lambda>(now, i, ord). is_order ord \<and> now < L) as \<longrightarrow>
      passes ip (snd (rl_run as rl)) = 0 \<and> map_of (rl_entries (fst (rl_run as rl))) ip = Some e) \<and>
    (map_of (rl_entries rl) ip = None \<longrightarrow> 0 \<le> rl_maxAttempts rl \<longrightarrow> rl_window rl \<le> rl_lockout rl \<longrightarrow>
      finite S \<longrightarrow> card S \<le> maxIPs \<longrightarrow> fst ` set (rl_entries rl) \<subseteq> S \<longrightarrow>
      list_all (\<lambda>(now, i, ord). i \<in> S \<and> t0 \<le> now \<and> now < t0 + rl_window rl) as \<longrightarrow>
      int (passes ip (snd (rl_run as rl))) \<le> rl_maxAttempts rl)"
  using locked_run [OF assms, of ip e L as] run_budget [OF assms, of S t0 ip "rl_maxAttempts rl" as] by (simp add: budget_def)

theorem rate_limit_holds_witness:
  "int (passes ''a'' (snd (rl_run [(10, ''a'', rev), (11, ''a'', rev), (12, ''b'', id), (13, ''a'', id)] (new_limiter 2 60 90)))) \<le> 2 \<and>
   snd (rl_run [(10, ''a'', rev), (11, ''a'', rev), (12, ''b'', id), (13, ''a'', id)] (new_limiter 2 60 90)) =
     [(''a'', Pass), (''a'', Pass), (''b'', Pass), (''a'', Limited 0)]"
proof -
  have "int (passes ''a'' (snd (rl_run [(10, ''a'', rev), (11, ''a'', rev), (12, ''b'', id), (13, ''a'', id)] (new_limiter 2 60 90)))) \<le> rl_maxAttempts (new_limiter 2 60 90)"
    using rate_limit_holds [of "new_limiter 2 60 90" "''a''"  _ _ "[(10, ''a'', rev), (11, ''a'', rev), (12, ''b'', id), (13, ''a'', id)]" "{''a'', ''b''}" 10]
    by (simp add: new_limiter_def maxIPs_def)
  then show ?thesis by (simp add: new_limiter_def) code_simp
qed

text \<open>
  The map of the limiter is not bounded by its limit of 100 entries: when all clients it knows
  are locked nothing is evicted, and every request of a further client adds an entry.
\<close>
theorem rate_map_grows:
  "\<exists>as. list_all (\<lambda>(now, i, ord). is_order ord) as \<and> length (rl_entries (fst (rl_run as (new_limiter 0 60 900)))) = n"
proof -
  obtain ips :: "string list" where ips: "distinct ips" "length ips = n"
  proof -
    have "infinite (UNIV :: string set)" by (rule infinite_UNIV_listI)
    then obtain S :: "string set" where "finite S" "card S = n" by (meson infinite_arbitrarily_large)
    then show ?thesis using that finite_distinct_list distinct_card by metis
  qed
  from locked_map_grows [of "new_limiter 0 60 900" ips] ips show ?thesis
    by (intro exI [of _ "map (\<lambda>ip. (0, ip, \<lambda>es. es)) ips"]) (simp add: new_limiter_def list_all_iff is_order_def)
qed

end
