(* ===== verification/Scheduler.thy ===== *)
theory Scheduler
  imports Go_Base "HOL-Library.AList"
begin

text \<open>
  The scheduler of the crawls, src/internal/crawler/scheduler.go. A goroutine is an index into a list
  of goroutine records; its cancel function and its done channel are that index, and the channel is
  closed when the goroutine has exited. The maps of the scheduler are association lists. StartProject
  is two steps, since it may wait for the old goroutine with the mutex held; the other calls and each
  round of a goroutine are one step. The timers of the scheduler are started and stopped but
  never read.
\<close>

section \<open>State\<close>

datatype gpc = InitialCrawl | Selecting | Crawling | Exited

record goroutine =
  g_name :: string
  g_interval :: int
  g_cancelled :: bool
  g_pc :: gpc

record scheduler =
  sc_timers :: "(string \<times> int) list"
  sc_intervals :: "(string \<times> int) list"
  sc_cancelFuncs :: "(string \<times> nat) list"
  sc_doneChans :: "(string \<times> nat) list"
  sc_gs :: "goroutine list"
  sc_waiting :: "(string \<times> int \<times> nat) option"
  sc_panicked :: bool

definition NewScheduler :: scheduler where
  "NewScheduler = \<lparr>sc_timers = [], sc_intervals = [], sc_cancelFuncs = [], sc_doneChans = [], sc_gs = [], sc_waiting = None, sc_panicked = False\<rparr>"

section \<open>Operations\<close>

definition cancel :: "nat \<Rightarrow> goroutine list \<Rightarrow> goroutine list" where
  "cancel i gs = gs[i := (gs ! i)\<lparr>g_cancelled := True\<rparr>]"

text \<open>StartProject after the wait: the old entries are removed, the new goroutine is started.\<close>

definition start_goroutine :: "string \<Rightarrow> int \<Rightarrow> scheduler \<Rightarrow> scheduler" where
  "start_goroutine name interval s =
     (let g = length (sc_gs s) in
      s\<lparr>sc_timers := AList.update name interval (AList.delete name (sc_timers s)),
        sc_intervals := AList.update name interval (sc_intervals s),
        sc_cancelFuncs := AList.update name g (AList.delete name (sc_cancelFuncs s)),
        sc_doneChans := AList.update name g (AList.delete name (sc_doneChans s)),
        sc_gs := sc_gs s @ [\<lparr>g_name = name, g_interval = interval, g_cancelled = False, g_pc = InitialCrawl\<rparr>],
        sc_waiting := None\<rparr>)"

text \<open>StartProject up to the wait: a running goroutine is cancelled and waited for.\<close>

definition StartProject :: "string \<Rightarrow> int \<Rightarrow> scheduler \<Rightarrow> scheduler" where
  "StartProject name interval s =
     (case map_of (sc_cancelFuncs s) name of
        None \<Rightarrow> start_goroutine name interval s
      | Some g \<Rightarrow>
          (let s1 = s\<lparr>sc_gs := cancel g (sc_gs s)\<rparr> in
           case map_of (sc_doneChans s) name of
             None \<Rightarrow> start_goroutine name interval s1
           | Some ch \<Rightarrow> s1\<lparr>sc_waiting := Some (name, interval, ch)\<rparr>))"

definition StopProject :: "string \<Rightarrow> scheduler \<Rightarrow> scheduler" where
  "StopProject name s =
     s\<lparr>sc_gs := (case map_of (sc_cancelFuncs s) name of None \<Rightarrow> sc_gs s | Some g \<Rightarrow> cancel g (sc_gs s)),
       sc_cancelFuncs := AList.delete name (sc_cancelFuncs s),
       sc_timers := AList.delete name (sc_timers s),
       sc_intervals := AList.delete name (sc_intervals s),
       sc_doneChans := AList.delete name (sc_doneChans s)\<rparr>"

definition StopAll :: "scheduler \<Rightarrow> scheduler" where
  "StopAll s =
     s\<lparr>sc_gs := fold cancel (map snd (sc_cancelFuncs s)) (sc_gs s),
       sc_cancelFuncs := [], sc_timers := [], sc_intervals := [], sc_doneChans := []\<rparr>"

definition Running :: "string \<Rightarrow> scheduler \<Rightarrow> bool" where
  "Running name s \<longleftrightarrow> map_of (sc_cancelFuncs s) name \<noteq> None"

definition set_pc :: "nat \<Rightarrow> gpc \<Rightarrow> scheduler \<Rightarrow> scheduler" where
  "set_pc i pc s = s\<lparr>sc_gs := (sc_gs s)[i := (sc_gs s ! i)\<lparr>g_pc := pc\<rparr>]\<rparr>"

text \<open>The steps. The calls need the mutex; the goroutines do not. A ticker of an interval that is
  not positive panics, which ends the program; a cancelled goroutine at its select may still take
  the tick.\<close>

datatype sched_label = LStart string int | LResume | LStop string | LStopAll | LReturn nat | LTick nat | LExit nat

fun sched_exec :: "sched_label \<Rightarrow> scheduler \<Rightarrow> scheduler option" where
  "sched_exec (LStart name interval) s = (if sc_waiting s = None then Some (StartProject name interval s) else None)"
| "sched_exec LResume s =
     (case sc_waiting s of
        Some (name, interval, ch) \<Rightarrow> if g_pc (sc_gs s ! ch) = Exited then Some (start_goroutine name interval s) else None
      | None \<Rightarrow> None)"
| "sched_exec (LStop name) s = (if sc_waiting s = None then Some (StopProject name s) else None)"
| "sched_exec LStopAll s = (if sc_waiting s = None then Some (StopAll s) else None)"
| "sched_exec (LReturn i) s =
     (if length (sc_gs s) \<le> i then None
      else case g_pc (sc_gs s ! i) of
             InitialCrawl \<Rightarrow> if g_interval (sc_gs s ! i) \<le> 0 then Some (s\<lparr>sc_panicked := True\<rparr>) else Some (set_pc i Selecting s)
           | Crawling \<Rightarrow> Some (set_pc i Selecting s)
           | _ \<Rightarrow> None)"
| "sched_exec (LTick i) s =
     (if i < length (sc_gs s) \<and> g_pc (sc_gs s ! i) = Selecting then Some (set_pc i Crawling s) else None)"
| "sched_exec (LExit i) s =
     (if i < length (sc_gs s) \<and> g_pc (sc_gs s ! i) = Selecting \<and> g_cancelled (sc_gs s ! i) then Some (set_pc i Exited s) else None)"

inductive sched_step :: "sched_label \<Rightarrow> scheduler \<Rightarrow> scheduler \<Rightarrow> bool" where
  sched_stepI: "\<not> sc_panicked s \<Longrightarrow> sched_exec l s = Some t \<Longrightarrow> sched_step l s t"

inductive sched_run :: "sched_label list \<Rightarrow> scheduler \<Rightarrow> scheduler \<Rightarrow> bool" where
  sched_refl: "sched_run [] s s"
| sched_snoc: "sched_run ls s t \<Longrightarrow> sched_step l t u \<Longrightarrow> sched_run (ls @ [l]) s u"

inductive_cases sched_run_NilE: "sched_run [] s t"

section \<open>Invariants\<close>

text \<open>The invariant, over the map of cancel functions, the goroutines and the holder of the mutex: the
  entries are the goroutines that are not cancelled, apart from the one StartProject waits for.\<close>

definition core_inv :: "(string \<rightharpoonup> nat) \<Rightarrow> goroutine list \<Rightarrow> (string \<times> int \<times> nat) option \<Rightarrow> bool" where
  "core_inv cf gs wt \<longleftrightarrow>
     (\<forall>n i. cf n = Some i \<longrightarrow> i < length gs \<and> g_name (gs ! i) = n \<and> (g_cancelled (gs ! i) \<longrightarrow> (\<exists>iv. wt = Some (n, iv, i)))) \<and>
     (\<forall>i < length gs. \<not> g_cancelled (gs ! i) \<longrightarrow> cf (g_name (gs ! i)) = Some i) \<and>
     (\<forall>i < length gs. g_pc (gs ! i) = Exited \<longrightarrow> g_cancelled (gs ! i)) \<and>
     (\<forall>n iv i. wt = Some (n, iv, i) \<longrightarrow> cf n = Some i \<and> g_cancelled (gs ! i))"

definition sched_inv :: "scheduler \<Rightarrow> bool" where
  "sched_inv s \<longleftrightarrow> map_of (sc_doneChans s) = map_of (sc_cancelFuncs s) \<and> distinct (map fst (sc_cancelFuncs s)) \<and>
     core_inv (map_of (sc_cancelFuncs s)) (sc_gs s) (sc_waiting s)"

text \<open>What holds without StopProject and StopAll: every goroutine that has not exited is the one of
  its project.\<close>

definition live_unique :: "(string \<rightharpoonup> nat) \<Rightarrow> goroutine list \<Rightarrow> bool" where
  "live_unique cf gs \<longleftrightarrow> (\<forall>i < length gs. g_pc (gs ! i) \<noteq> Exited \<longrightarrow> cf (g_name (gs ! i)) = Some i)"

definition intervals_ok :: "scheduler \<Rightarrow> bool" where
  "intervals_ok s \<longleftrightarrow> \<not> sc_panicked s \<and> (\<forall>g \<in> set (sc_gs s). 0 < g_interval g) \<and> (\<forall>n iv i. sc_waiting s = Some (n, iv, i) \<longrightarrow> 0 < iv)"

fun stops :: "sched_label \<Rightarrow> bool" where
  "stops (LStop n) = True" | "stops LStopAll = True" | "stops _ = False"

fun positive :: "sched_label \<Rightarrow> bool" where
  "positive (LStart n iv) \<longleftrightarrow> 0 < iv" | "positive _ = True"

lemma cancel_simps [simp]:
  "length (cancel i gs) = length gs"
  "j < length gs \<Longrightarrow> cancel i gs ! j = (if i = j then (gs ! j)\<lparr>g_cancelled := True\<rparr> else gs ! j)"
  by (auto simp: cancel_def nth_list_update)

lemma fold_cancel:
  "length (fold cancel is gs) = length gs"
  "i < length gs \<Longrightarrow> fold cancel is gs ! i = (if i \<in> set is then (gs ! i)\<lparr>g_cancelled := True\<rparr> else gs ! i)"
  by (induction "is" arbitrary: gs) auto

lemma core_invI:
  assumes "\<And>n i. cf n = Some i \<Longrightarrow> i < length gs" "\<And>n i. cf n = Some i \<Longrightarrow> g_name (gs ! i) = n"
    "\<And>n i. cf n = Some i \<Longrightarrow> g_cancelled (gs ! i) \<Longrightarrow> \<exists>iv. wt = Some (n, iv, i)"
    "\<And>i. i < length gs \<Longrightarrow> \<not> g_cancelled (gs ! i) \<Longrightarrow> cf (g_name (gs ! i)) = Some i"
    "\<And>i. i < length gs \<Longrightarrow> g_pc (gs ! i) = Exited \<Longrightarrow> g_cancelled (gs ! i)"
    "\<And>n iv i. wt = Some (n, iv, i) \<Longrightarrow> cf n = Some i \<and> g_cancelled (gs ! i)"
  shows "core_inv cf gs wt"
  unfolding core_inv_def using assms by blast

lemma core_invD:
  assumes "core_inv cf gs wt"
  shows "cf n = Some i \<Longrightarrow> i < length gs" "cf n = Some i \<Longrightarrow> g_name (gs ! i) = n"
    "cf n = Some i \<Longrightarrow> g_cancelled (gs ! i) \<Longrightarrow> \<exists>iv. wt = Some (n, iv, i)"
    "i < length gs \<Longrightarrow> \<not> g_cancelled (gs ! i) \<Longrightarrow> cf (g_name (gs ! i)) = Some i"
    "i < length gs \<Longrightarrow> g_pc (gs ! i) = Exited \<Longrightarrow> g_cancelled (gs ! i)"
    "wt = Some (n, iv, i) \<Longrightarrow> cf n = Some i" "wt = Some (n, iv, i) \<Longrightarrow> g_cancelled (gs ! i)"
  using assms unfolding core_inv_def by blast+

lemma core_start:
  assumes "core_inv cf gs wt" "case wt of None \<Rightarrow> cf name = None | Some (n, iv, i) \<Rightarrow> n = name"
  shows "core_inv (cf(name \<mapsto> length gs)) (gs @ [\<lparr>g_name = name, g_interval = iv, g_cancelled = False, g_pc = InitialCrawl\<rparr>]) None"
proof -
  note D = core_invD [OF assms(1)]
  have no: "g_name (gs ! i) \<noteq> name" if "i < length gs" "\<not> g_cancelled (gs ! i)" for i
    using D(4) [OF that] D(6,7) assms(2) that(2) by (cases wt) auto
  have old: "\<not> g_cancelled (gs ! i)" if "cf n = Some i" "n \<noteq> name" for n i
    using D(3) [OF that(1)] assms(2) that(2) by auto
  show ?thesis
  proof (rule core_invI)
    fix n i
    assume c: "(cf(name \<mapsto> length gs)) n = Some i"
    show "i < length (gs @ [\<lparr>g_name = name, g_interval = iv, g_cancelled = False, g_pc = InitialCrawl\<rparr>])"
      "g_name ((gs @ [\<lparr>g_name = name, g_interval = iv, g_cancelled = False, g_pc = InitialCrawl\<rparr>]) ! i) = n"
      using c D(1) [of n i] D(2) [of n i] by (auto simp: nth_append split: if_splits)
    assume "g_cancelled ((gs @ [\<lparr>g_name = name, g_interval = iv, g_cancelled = False, g_pc = InitialCrawl\<rparr>]) ! i)"
    then show "\<exists>iv. None = Some (n, iv, i)" using c D(1) [of n i] old [of n i] by (auto simp: nth_append split: if_splits)
  qed (auto simp: nth_append less_Suc_eq no no [THEN not_sym] D(4) dest: D(5))
qed

lemma core_pc:
  assumes "core_inv cf gs wt" "i < length gs" "pc = Exited \<longrightarrow> g_cancelled (gs ! i)"
  shows "core_inv cf (gs[i := (gs ! i)\<lparr>g_pc := pc\<rparr>]) wt"
  using assms unfolding core_inv_def by (simp add: nth_list_update)

lemma core_wait:
  assumes "core_inv cf gs None" "cf n = Some i"
  shows "core_inv cf (cancel i gs) (Some (n, iv, i))"
proof (rule core_invI)
  note D = core_invD [OF assms(1)]
  fix m j assume j: "cf m = Some j"
  then have l: "j < length gs" "g_name (gs ! j) = m" using D(1,2) by auto
  show "j < length (cancel i gs)" "g_name (cancel i gs ! j) = m" using l by simp_all
  assume "g_cancelled (cancel i gs ! j)"
  then have "j = i" using D(3) [OF j] l by (auto split: if_splits)
  then show "\<exists>jv. Some (n, iv, i) = Some (m, jv, j)" using l D(2) [OF assms(2)] by simp
qed (use assms core_invD [OF assms(1)] in \<open>auto split: if_splits\<close>)

lemma core_stop:
  assumes "core_inv cf gs None" "cf n = Some i"
  shows "core_inv (cf(n := None)) (cancel i gs) None"
proof (rule core_invI)
  note D = core_invD [OF assms(1)]
  fix m j assume "(cf(n := None)) m = Some j"
  then have j: "cf m = Some j" "m \<noteq> n" by (auto split: if_splits)
  then have l: "j < length gs" "g_name (gs ! j) = m" using D(1,2) by auto
  show "j < length (cancel i gs)" "g_name (cancel i gs ! j) = m" using l by simp_all
  assume "g_cancelled (cancel i gs ! j)"
  then show "\<exists>jv. None = Some (m, jv, j)" using D(3) [OF j(1)] j(2) l D(2) [OF assms(2)] by (auto split: if_splits)
qed (use assms core_invD [OF assms(1)] in \<open>auto split: if_splits\<close>)

lemma core_stop_all:
  assumes "core_inv cf gs None" "\<And>n i. cf n = Some i \<Longrightarrow> i \<in> set is"
  shows "core_inv Map.empty (fold cancel is gs) None"
  by (rule core_invI) (use core_invD(4,5) [OF assms(1)] assms(2) in \<open>auto simp: fold_cancel split: if_splits\<close>)

lemma inv_start:
  assumes "sched_inv s" "case sc_waiting s of None \<Rightarrow> map_of (sc_cancelFuncs s) name = None | Some (n, iv, i) \<Rightarrow> n = name"
  shows "sched_inv (start_goroutine name interval s)"
  using assms core_start [of "map_of (sc_cancelFuncs s)" "sc_gs s" "sc_waiting s" name]
  by (simp add: sched_inv_def start_goroutine_def Let_def update_conv' delete_conv' distinct_update distinct_delete)

lemma inv_exec:
  assumes "sched_inv s" "sched_exec l s = Some t"
  shows "sched_inv t"
proof (cases l)
  case (LStart name interval)
  then have w: "sc_waiting s = None" and t: "t = StartProject name interval s" using assms(2) by (simp_all split: if_splits)
  show ?thesis
  proof (cases "map_of (sc_cancelFuncs s) name")
    case None
    then show ?thesis using inv_start [OF assms(1)] w by (simp add: t StartProject_def)
  next
    case (Some g)
    then show ?thesis using assms(1) core_wait [of "map_of (sc_cancelFuncs s)" "sc_gs s" name g interval] w
      by (simp add: t StartProject_def sched_inv_def)
  qed
next
  case LResume
  then show ?thesis using assms inv_start [OF assms(1)] by (auto split: option.splits if_splits)
next
  case (LStop name)
  then have w: "sc_waiting s = None" and t: "t = StopProject name s" using assms(2) by (simp_all split: if_splits)
  then show ?thesis using assms(1) core_stop [of "map_of (sc_cancelFuncs s)" "sc_gs s" name]
    by (auto simp: StopProject_def sched_inv_def delete_conv' distinct_delete fun_upd_idem split: option.split)
next
  case LStopAll
  then have w: "sc_waiting s = None" and t: "t = StopAll s" using assms(2) by (simp_all split: if_splits)
  have "i \<in> set (map snd (sc_cancelFuncs s))" if "map_of (sc_cancelFuncs s) n = Some i" for n i using map_of_SomeD [OF that] by force
  then show ?thesis using assms(1) core_stop_all [of "map_of (sc_cancelFuncs s)" "sc_gs s" "map snd (sc_cancelFuncs s)"] w
    by (auto simp: t StopAll_def sched_inv_def)
next
  case (LReturn i)
  then show ?thesis using assms core_pc [of _ "sc_gs s" _ i Selecting]
    by (auto simp: sched_inv_def set_pc_def split: gpc.splits if_splits)
next
  case (LTick i)
  then show ?thesis using assms core_pc [of _ "sc_gs s" _ i Crawling] by (auto simp: sched_inv_def set_pc_def split: if_splits)
next
  case (LExit i)
  then show ?thesis using assms core_pc [of _ "sc_gs s" _ i Exited] by (auto simp: sched_inv_def set_pc_def split: if_splits)
qed

lemma live_start:
  assumes "live_unique (map_of (sc_cancelFuncs s)) (sc_gs s)" "\<And>i. map_of (sc_cancelFuncs s) name = Some i \<Longrightarrow> g_pc (sc_gs s ! i) = Exited"
  shows "live_unique (map_of (sc_cancelFuncs (start_goroutine name iv s))) (sc_gs (start_goroutine name iv s))"
  using assms by (auto simp: live_unique_def start_goroutine_def Let_def update_conv' delete_conv' nth_append less_Suc_eq)

lemma live_exec:
  assumes "sched_inv s" "live_unique (map_of (sc_cancelFuncs s)) (sc_gs s)" "sched_exec l s = Some t" "\<not> stops l"
  shows "live_unique (map_of (sc_cancelFuncs t)) (sc_gs t)"
proof (cases l)
  case (LStart name interval)
  then have t: "t = StartProject name interval s" using assms(3) by (simp split: if_splits)
  show ?thesis
  proof (cases "map_of (sc_cancelFuncs s) name")
    case None
    then show ?thesis using live_start [OF assms(2), of name interval] by (simp add: t StartProject_def)
  next
    case (Some g)
    then show ?thesis using assms(1,2) unfolding t by (auto simp: StartProject_def live_unique_def sched_inv_def)
  qed
next
  case LResume
  then obtain name iv ch where w: "sc_waiting s = Some (name, iv, ch)" "g_pc (sc_gs s ! ch) = Exited" "t = start_goroutine name iv s"
    using assms(3) by (auto split: option.splits if_splits)
  then have "map_of (sc_cancelFuncs s) name = Some ch" using assms(1) core_invD(6) by (fastforce simp: sched_inv_def)
  then show ?thesis using live_start [OF assms(2), of name iv] w(2) unfolding w(3) by simp
qed (use assms in \<open>auto simp: live_unique_def set_pc_def nth_list_update split: if_splits gpc.splits\<close>)

lemma intervals_cancel:
  assumes "\<forall>g \<in> set gs. 0 < g_interval g" "set is \<subseteq> {..<length gs}"
  shows "\<forall>g \<in> set (fold cancel is gs). 0 < g_interval g"
  using assms by (auto simp: all_set_conv_all_nth fold_cancel)

lemma intervals_pc:
  assumes "\<forall>g \<in> set gs. 0 < g_interval g" "i < length gs"
  shows "\<forall>g \<in> set (gs[i := (gs ! i)\<lparr>g_pc := pc\<rparr>]). 0 < g_interval g"
  using assms by (auto simp: all_set_conv_all_nth nth_list_update)

lemma intervals_exec:
  assumes "sched_inv s" "intervals_ok s" "sched_exec l s = Some t" "positive l"
  shows "intervals_ok t"
proof -
  have I: "\<forall>g \<in> set (sc_gs s). 0 < g_interval g" "\<not> sc_panicked s" "\<And>n iv i. sc_waiting s = Some (n, iv, i) \<Longrightarrow> 0 < iv"
    using assms(2) by (auto simp: intervals_ok_def)
  have r: "i < length (sc_gs s)" if "map_of (sc_cancelFuncs s) n = Some i" for n i
    using assms(1) core_invD(1) that unfolding sched_inv_def by blast
  have c: "\<forall>g \<in> set (cancel i (sc_gs s)). 0 < g_interval g" if "map_of (sc_cancelFuncs s) n = Some i" for n i
    using intervals_cancel [OF I(1), of "[i]"] r [OF that] by simp
  have a: "\<forall>g \<in> set (fold cancel (map snd (sc_cancelFuncs s)) (sc_gs s)). 0 < g_interval g"
  proof (rule intervals_cancel [OF I(1)])
    have "distinct (map fst (sc_cancelFuncs s))" using assms(1) by (simp add: sched_inv_def)
    then show "set (map snd (sc_cancelFuncs s)) \<subseteq> {..<length (sc_gs s)}" using r by fastforce
  qed
  have st: "intervals_ok (start_goroutine n iv s)" if "0 < iv" for n iv
    using I that by (auto simp: intervals_ok_def start_goroutine_def Let_def)
  have pc: "intervals_ok (set_pc i q s)" if "i < length (sc_gs s)" for i q
    using I intervals_pc [OF I(1) that] by (simp add: intervals_ok_def set_pc_def)
  show ?thesis
  proof (cases l)
    case (LStart name interval)
    then have t: "t = StartProject name interval s" "0 < interval" using assms(3,4) by (simp_all split: if_splits)
    show ?thesis
    proof (cases "map_of (sc_cancelFuncs s) name")
      case None
      then show ?thesis using st [OF t(2)] by (simp add: t StartProject_def)
    next
      case (Some g)
      then show ?thesis using assms(1) I(2) c t(2) unfolding t by (simp add: StartProject_def sched_inv_def intervals_ok_def)
    qed
  next
    case LResume
    then show ?thesis using assms(3) I(3) st by (auto split: option.splits if_splits)
  next
    case (LStop name)
    then show ?thesis using assms(3) I c by (auto simp: StopProject_def intervals_ok_def split: if_splits option.splits)
  next
    case LStopAll
    then show ?thesis using assms(3) I a by (auto simp: StopAll_def intervals_ok_def split: if_splits)
  next
    case (LReturn i)
    then have i: "i < length (sc_gs s)" using assms(3) by (simp split: if_splits)
    then have "0 < g_interval (sc_gs s ! i)" using I(1) by simp
    then show ?thesis using assms(3) LReturn pc [OF i] by (auto split: if_splits gpc.splits)
  qed (use assms(3) pc in \<open>auto split: if_splits\<close>)
qed

lemma sched_run_Cons: "sched_run ls t u \<Longrightarrow> sched_step l s t \<Longrightarrow> sched_run (l # ls) s u"
  by (induction rule: sched_run.induct) (use sched_run.intros in fastforce)+

text \<open>Runs can be evaluated.\<close>

definition sched_call :: "sched_label \<Rightarrow> scheduler \<Rightarrow> scheduler option" where
  "sched_call l s = (if sc_panicked s then None else sched_exec l s)"

lemma sched_run_calls: "run_calls sched_call ls s = Some t \<Longrightarrow> sched_run ls s t"
proof (induction ls arbitrary: s)
  case (Cons l ls)
  then obtain u where "sched_call l s = Some u" "run_calls sched_call ls u = Some t" by (auto split: option.splits)
  moreover from this have "sched_step l s u" by (auto simp: sched_call_def intro: sched_stepI split: if_splits)
  ultimately show ?case using Cons.IH sched_run_Cons by blast
qed (simp add: sched_refl)

lemma sched_run_inv:
  assumes "sched_run ls s t" "sched_inv s"
  shows "sched_inv t" "intervals_ok s \<Longrightarrow> list_all positive ls \<Longrightarrow> intervals_ok t"
    "live_unique (map_of (sc_cancelFuncs s)) (sc_gs s) \<Longrightarrow> list_all (Not \<circ> stops) ls \<Longrightarrow> live_unique (map_of (sc_cancelFuncs t)) (sc_gs t)"
  using assms by (induction rule: sched_run.induct) (auto elim!: sched_step.cases dest: inv_exec intervals_exec live_exec)

lemma initial_inv: "sched_inv NewScheduler" "intervals_ok NewScheduler" "live_unique (map_of (sc_cancelFuncs NewScheduler)) (sc_gs NewScheduler)"
  by (simp_all add: NewScheduler_def sched_inv_def core_inv_def intervals_ok_def live_unique_def)

lemma resume_run:
  assumes "sc_waiting s = Some (name, iv, ch)" "\<not> sc_panicked s" "g_pc (sc_gs s ! ch) = Exited"
  shows "sched_run [LResume] s (start_goroutine name iv s)"
  using assms sched_snoc [OF sched_refl, of LResume s] by (simp add: sched_stepI)

lemma exit_run:
  assumes "sc_waiting s = Some (name, iv, ch)" "\<not> sc_panicked s" "ch < length (sc_gs s)" "g_cancelled (sc_gs s ! ch)" "g_pc (sc_gs s ! ch) = Selecting"
  shows "sched_run [LExit ch, LResume] s (start_goroutine name iv (set_pc ch Exited s))"
proof (rule sched_run_Cons)
  show "sched_step (LExit ch) s (set_pc ch Exited s)" using assms by (simp add: sched_stepI)
  show "sched_run [LResume] (set_pc ch Exited s) (start_goroutine name iv (set_pc ch Exited s))"
    by (rule resume_run [of _ name iv ch]) (use assms in \<open>simp_all add: set_pc_def nth_list_update\<close>)
qed

lemma start_Running [simp]: "Running name (start_goroutine name iv s)" "sc_waiting (start_goroutine name iv s) = None"
  by (simp_all add: Running_def start_goroutine_def Let_def update_conv')

lemma waiting_completes:
  assumes "sched_inv s" "intervals_ok s" "sc_waiting s = Some (name, iv, ch)"
  shows "\<exists>ls t. set ls \<subseteq> {LReturn ch, LExit ch, LResume} \<and> sched_run ls s t \<and> sc_waiting t = None \<and> Running name t"
proof -
  have c: "ch < length (sc_gs s)" "g_cancelled (sc_gs s ! ch)"
    using assms(1,3) core_invD(1,6,7) unfolding sched_inv_def by metis+
  have iv: "\<not> sc_panicked s" "0 < g_interval (sc_gs s ! ch)" using assms(2) c by (auto simp: intervals_ok_def)
  note w = assms(3) iv(1)
  have fin: ?thesis if "sched_run ls s (start_goroutine name iv u)" "set ls \<subseteq> {LReturn ch, LExit ch, LResume}" for ls u
    using that start_Running by blast
  have ret: ?thesis if "sched_step (LReturn ch) s (set_pc ch Selecting s)"
  proof (rule fin [OF sched_run_Cons [OF exit_run that]])
    show "sc_waiting (set_pc ch Selecting s) = Some (name, iv, ch)" "\<not> sc_panicked (set_pc ch Selecting s)"
      "ch < length (sc_gs (set_pc ch Selecting s))" using w c by (simp_all add: set_pc_def)
    show "g_cancelled (sc_gs (set_pc ch Selecting s) ! ch)" "g_pc (sc_gs (set_pc ch Selecting s) ! ch) = Selecting"
      using c by (simp_all add: set_pc_def nth_list_update)
  qed simp
  show ?thesis
  proof (cases "g_pc (sc_gs s ! ch)")
    case Exited
    then show ?thesis using fin [OF resume_run [OF w Exited]] by simp
  next
    case Selecting
    then show ?thesis using fin [OF exit_run [OF w c Selecting]] by simp
  next
    case InitialCrawl
    then show ?thesis using c w iv by (intro ret sched_stepI) simp_all
  next
    case Crawling
    then show ?thesis using c w iv by (intro ret sched_stepI) simp_all
  qed
qed

lemma one_index:
  assumes "\<And>i. i < length gs \<Longrightarrow> P (gs ! i) \<Longrightarrow> cf (g_name (gs ! i)) = Some i"
  shows "length (filter (\<lambda>g. g_name g = name \<and> P g) gs) \<le> 1"
proof -
  have "{i. i < length gs \<and> g_name (gs ! i) = name \<and> P (gs ! i)} \<subseteq> set_option (cf name)" using assms by fastforce
  then have "card {i. i < length gs \<and> g_name (gs ! i) = name \<and> P (gs ! i)} \<le> card (set_option (cf name))" by (intro card_mono) simp_all
  also have "\<dots> \<le> 1" by (cases "cf name") simp_all
  finally show ?thesis by (simp add: length_filter_conv_card)
qed

definition active :: "string \<Rightarrow> scheduler \<Rightarrow> nat" where
  "active name s = length (filter (\<lambda>g. g_name g = name \<and> \<not> g_cancelled g) (sc_gs s))"

definition live :: "string \<Rightarrow> scheduler \<Rightarrow> nat" where
  "live name s = length (filter (\<lambda>g. g_name g = name \<and> g_pc g \<noteq> Exited) (sc_gs s))"

section \<open>Properties\<close>

text \<open>
  C19: The goroutines of the scheduler, in every interleaving of calls and goroutines started with
  positive intervals. There is no panic. A project has at most one goroutine that is not cancelled,
  and when no call waits it has one exactly when Running says so. A StartProject that waits can
  complete, by steps of the goroutine it waits for alone. Without stops a project never has two
  goroutines that have not exited, as the comment on StartProject promises; after StopProject it can,
  both crawling, because the done channel was forgotten.
\<close>
theorem scheduler_goroutines:
  assumes "sched_run ls NewScheduler s" "list_all positive ls"
  shows "\<not> sc_panicked s \<and> active name s \<le> 1 \<and>
    (sc_waiting s = None \<longrightarrow> (Running name s \<longleftrightarrow> active name s = 1)) \<and>
    (sc_waiting s = Some (name, iv, ch) \<longrightarrow>
      (\<exists>ls' t. set ls' \<subseteq> {LReturn ch, LExit ch, LResume} \<and> sched_run ls' s t \<and> sc_waiting t = None \<and> Running name t)) \<and>
    (list_all (Not \<circ> stops) ls \<longrightarrow> live name s \<le> 1) \<and>
    (\<exists>t. sched_run [LStart ''p'' 60, LStop ''p'', LStart ''p'' 60] NewScheduler t \<and>
      map g_pc (filter (\<lambda>g. g_name g = ''p'') (sc_gs t)) = [InitialCrawl, InitialCrawl])"
proof -
  note inv = sched_run_inv [OF assms(1) initial_inv(1)]
  have core: "core_inv (map_of (sc_cancelFuncs s)) (sc_gs s) (sc_waiting s)" using inv(1) by (simp add: sched_inv_def)
  have ok: "intervals_ok s" using inv(2) initial_inv(2) assms(2) by simp
  have one: "active name s \<le> 1" unfolding active_def using core_invD(4) [OF core] by (rule one_index)
  have run: "Running name s \<longleftrightarrow> active name s = 1" if "sc_waiting s = None"
  proof -
    have "Running name s \<longleftrightarrow> (\<exists>g \<in> set (sc_gs s). g_name g = name \<and> \<not> g_cancelled g)"
      using core_invD(1-4) [OF core] that unfolding Running_def by (fastforce simp: in_set_conv_nth)
    also have "\<dots> \<longleftrightarrow> active name s \<noteq> 0" by (auto simp: active_def filter_empty_conv)
    finally show ?thesis using one by linarith
  qed
  have lv: "live name s \<le> 1" if "list_all (Not \<circ> stops) ls"
    using inv(3) [OF initial_inv(3) that] unfolding live_def live_unique_def
    by (intro one_index [where cf = "map_of (sc_cancelFuncs s)"]) blast
  have "sched_run [LStart ''p'' 60, LStop ''p'', LStart ''p'' 60] NewScheduler
     (StartProject ''p'' 60 (StopProject ''p'' (StartProject ''p'' 60 NewScheduler)))"
    by (rule sched_run_calls) code_simp
  moreover have "map g_pc (filter (\<lambda>g. g_name g = ''p'') (sc_gs (StartProject ''p'' 60 (StopProject ''p'' (StartProject ''p'' 60 NewScheduler))))) =
      [InitialCrawl, InitialCrawl]" by code_simp
  moreover have "\<not> sc_panicked s" using ok by (simp add: intervals_ok_def)
  ultimately show ?thesis using one run lv waiting_completes [OF inv(1) ok, of name iv ch] by (intro conjI impI exI [of _ "StartProject ''p'' 60 (StopProject ''p'' (StartProject ''p'' 60 NewScheduler))"])
qed

theorem scheduler_goroutines_witness:
  "\<exists>s. sched_run [LStart ''p'' 60, LReturn 0, LStart ''p'' 30, LExit 0, LResume] NewScheduler s \<and> live ''p'' s \<le> 1 \<and> Running ''p'' s"
proof -
  let ?ls = "[LStart ''p'' 60, LReturn 0, LStart ''p'' 30, LExit 0, LResume]"
  have r: "sched_run ?ls NewScheduler (the (run_calls sched_call ?ls NewScheduler))" by (rule sched_run_calls) code_simp
  have "list_all positive ?ls" "list_all (Not \<circ> stops) ?ls" by simp_all
  then have "live ''p'' (the (run_calls sched_call ?ls NewScheduler)) \<le> 1" using scheduler_goroutines [OF r] by blast
  moreover have "Running ''p'' (the (run_calls sched_call ?ls NewScheduler))" by code_simp
  ultimately show ?thesis using r by blast
qed

end
