(* ===== verification/Retention.thy ===== *)
theory Retention
  imports Database "HOL-Library.Multiset"
begin

text \<open>
  Retention policies of container registries: src/internal/db/repo_retention.go,
  src/internal/service/retention_service.go and the validation in src/internal/model/registry.go.
  The registry client is a parameter (a record of its calls on a remote state), as are the regular
  expressions, globs, the calendar and the sort of the standard library, which promises a sorted
  permutation. Times are nanoseconds. A panic is the error \<open>RPanic\<close>.
\<close>

section \<open>Policies and their table\<close>

record policy =
  po_id :: int
  po_registry_id :: int
  po_repo_pattern :: string
  po_keep_days :: int
  po_keep_count :: int
  po_keep_pattern :: string
  po_enabled :: bool
  po_last_executed :: "int option"
  po_created_at :: int

record policy_request =
  pq_registry_id :: int
  pq_repo_pattern :: string
  pq_keep_days :: int
  pq_keep_count :: int
  pq_keep_pattern :: string
  pq_enabled :: bool

record registry_row =
  rg_id :: int
  rg_url :: string
  rg_username :: string

record retention_db =
  rd_registries :: "registry_row list"
  rd_policies :: "policy list"
  rd_seq :: int

datatype policy_err =
    KeepDaysTooSmall | KeepCountTooSmall | RepoPatternRequired | InvalidRegex | NoRetentionRule
  | PolicySql sql_err | PolicyNotFound | RegistryNotFound | DecryptFailed | ClientFailed | RegistryErr string | RPanic

definition policy_ok_row :: "retention_db \<Rightarrow> policy \<Rightarrow> policy_err option" where
  "policy_ok_row d p =
     (if po_keep_days p < 0 \<or> po_keep_count p < 0 then Some (PolicySql (CheckViolation ''chk_retention''))
      else if \<not> has_row rg_id (rd_registries d) (po_registry_id p) then Some (PolicySql (ForeignKey ''registry_id''))
      else None)"

definition policy_List :: "retention_db \<Rightarrow> policy list" where
  "policy_List d = sort_key po_id (rd_policies d)"

definition policy_ListEnabled :: "retention_db \<Rightarrow> policy list" where
  "policy_ListEnabled d = sort_key po_id (filter po_enabled (rd_policies d))"

definition policy_GetByID :: "int \<Rightarrow> retention_db \<Rightarrow> policy option" where
  "policy_GetByID i d = row_by po_id (rd_policies d) i"

definition policy_Create :: "int \<Rightarrow> policy \<Rightarrow> retention_db \<Rightarrow> retention_db \<times> (policy_err + int)" where
  "policy_Create now p d =
     (case policy_ok_row d p of
        Some e \<Rightarrow> (d, Inl e)
      | None \<Rightarrow>
          (let i = rd_seq d + 1 in
           (d\<lparr>rd_policies := rd_policies d @ [p\<lparr>po_id := i, po_last_executed := None, po_created_at := now\<rparr>], rd_seq := i\<rparr>, Inr i)))"

definition policy_Update :: "policy \<Rightarrow> retention_db \<Rightarrow> retention_db \<times> policy_err option" where
  "policy_Update p d =
     (if \<not> has_row po_id (rd_policies d) (po_id p) then (d, None)
      else case policy_ok_row d p of
             Some e \<Rightarrow> (d, Some e)
           | None \<Rightarrow> (d\<lparr>rd_policies := upd_row po_id (po_id p) (\<lambda>r. r\<lparr>po_registry_id := po_registry_id p, po_repo_pattern := po_repo_pattern p,
                          po_keep_days := po_keep_days p, po_keep_count := po_keep_count p, po_keep_pattern := po_keep_pattern p,
                          po_enabled := po_enabled p\<rparr>) (rd_policies d)\<rparr>, None))"

definition policy_Delete :: "int \<Rightarrow> retention_db \<Rightarrow> retention_db" where
  "policy_Delete i d = d\<lparr>rd_policies := filter (\<lambda>p. po_id p \<noteq> i) (rd_policies d)\<rparr>"

definition policy_UpdateLastExecuted :: "int \<Rightarrow> int \<Rightarrow> retention_db \<Rightarrow> retention_db" where
  "policy_UpdateLastExecuted i t d = d\<lparr>rd_policies := upd_row po_id i (\<lambda>p. p\<lparr>po_last_executed := Some t\<rparr>) (rd_policies d)\<rparr>"

section \<open>The service\<close>

record tagInfo =
  ti_name :: string
  ti_digest :: string
  ti_createdAt :: int

record 'w registry_client =
  rcl_Catalog :: "'w \<Rightarrow> 'w \<times> (string + string list)"
  rcl_TagsWithPagination :: "string \<Rightarrow> 'w \<Rightarrow> 'w \<times> (string + string list)"
  rcl_TagDetail :: "string \<Rightarrow> string \<Rightarrow> 'w \<Rightarrow> 'w \<times> (string + string \<times> int)"
  rcl_DeleteManifest :: "string \<Rightarrow> string \<Rightarrow> 'w \<Rightarrow> 'w \<times> string option"

record 'w retention_env =
  en_compile :: "string \<Rightarrow> (string \<Rightarrow> bool) option"
  en_glob :: "string \<Rightarrow> string \<Rightarrow> bool"
  en_addDays :: "int \<Rightarrow> int \<Rightarrow> int"
  en_sortDesc :: "tagInfo list \<Rightarrow> tagInfo list"
  en_decrypt :: "int \<Rightarrow> string option"
  en_client :: "string \<Rightarrow> (string \<times> string) option \<Rightarrow> 'w registry_client option"

definition Validate :: "'w retention_env \<Rightarrow> policy_request \<Rightarrow> policy_err option" where
  "Validate en q =
     (if pq_keep_days q < 1 then Some KeepDaysTooSmall
      else if pq_keep_count q < 1 then Some KeepCountTooSmall
      else if pq_repo_pattern q = [] then Some RepoPatternRequired
      else if pq_keep_pattern q \<noteq> [] \<and> en_compile en (pq_keep_pattern q) = None then Some InvalidRegex
      else None)"

definition validatePolicyRequest :: "'w retention_env \<Rightarrow> policy_request \<Rightarrow> policy_err option" where
  "validatePolicyRequest en q =
     (if pq_repo_pattern q = [] then Some RepoPatternRequired
      else if pq_keep_pattern q \<noteq> [] \<and> en_compile en (pq_keep_pattern q) = None then Some InvalidRegex
      else if pq_keep_days q = 0 \<and> pq_keep_count q = 0 \<and> pq_keep_pattern q = [] then Some NoRetentionRule
      else None)"

definition policy_of :: "int \<Rightarrow> policy_request \<Rightarrow> policy" where
  "policy_of i q = \<lparr>po_id = i, po_registry_id = pq_registry_id q, po_repo_pattern = pq_repo_pattern q, po_keep_days = pq_keep_days q,
     po_keep_count = pq_keep_count q, po_keep_pattern = pq_keep_pattern q, po_enabled = pq_enabled q, po_last_executed = None, po_created_at = 0\<rparr>"

definition CreatePolicy :: "'w retention_env \<Rightarrow> int \<Rightarrow> policy_request \<Rightarrow> retention_db \<Rightarrow> retention_db \<times> (policy_err + policy)" where
  "CreatePolicy en now q d =
     (case validatePolicyRequest en q of
        Some e \<Rightarrow> (d, Inl e)
      | None \<Rightarrow> (case policy_Create now (policy_of 0 q) d of
                   (d', Inl e) \<Rightarrow> (d', Inl e)
                 | (d', Inr i) \<Rightarrow> (d', Inr (policy_of i q))))"

definition UpdatePolicy :: "'w retention_env \<Rightarrow> int \<Rightarrow> policy_request \<Rightarrow> retention_db \<Rightarrow> retention_db \<times> (policy_err + policy)" where
  "UpdatePolicy en i q d =
     (case validatePolicyRequest en q of
        Some e \<Rightarrow> (d, Inl e)
      | None \<Rightarrow> (case policy_Update (policy_of i q) d of
                   (d', Some e) \<Rightarrow> (d', Inl e)
                 | (d', None) \<Rightarrow> (d', Inr (policy_of i q))))"

definition GetPolicy :: "int \<Rightarrow> retention_db \<Rightarrow> policy_err + policy" where
  "GetPolicy i d = (case policy_GetByID i d of None \<Rightarrow> Inl PolicyNotFound | Some p \<Rightarrow> Inr p)"

definition containsTag :: "tagInfo list \<Rightarrow> string \<Rightarrow> bool" where
  "containsTag tags name \<longleftrightarrow> list_ex (\<lambda>t. ti_name t = name) tags"

definition time_rule :: "'w retention_env \<Rightarrow> policy \<Rightarrow> int \<Rightarrow> tagInfo list \<Rightarrow> tagInfo list" where
  "time_rule en p now tags =
     (if po_keep_days p > 0
      then let cutoff = en_addDays en now (- po_keep_days p) in filter (\<lambda>t. ti_createdAt t < cutoff \<and> ti_name t \<noteq> ''latest'') tags
      else [])"

text \<open>The loops of the other two rules: what they append to the tags chosen so far.\<close>

fun add_tags :: "(tagInfo \<Rightarrow> bool) \<Rightarrow> tagInfo list \<Rightarrow> tagInfo list \<Rightarrow> tagInfo list" where
  "add_tags P [] toDelete = toDelete"
| "add_tags P (t # ts) toDelete =
     add_tags P ts (if P t \<and> ti_name t \<noteq> ''latest'' \<and> \<not> containsTag toDelete (ti_name t) then toDelete @ [t] else toDelete)"

definition selectTagsForDeletion :: "'w retention_env \<Rightarrow> policy \<Rightarrow> int \<Rightarrow> tagInfo list \<Rightarrow> tagInfo list option" where
  "selectTagsForDeletion en p now tags =
     (let del1 = time_rule en p now tags;
          del2 = (if po_keep_count p > 0 then add_tags (\<lambda>t. True) (drop (nat (po_keep_count p)) (en_sortDesc en tags)) del1 else del1)
      in if po_keep_pattern p = [] then Some del2
         else case en_compile en (po_keep_pattern p) of
                None \<Rightarrow> None
              | Some match \<Rightarrow> Some (add_tags (\<lambda>t. \<not> match (ti_name t)) tags del2))"

fun tag_details :: "'w registry_client \<Rightarrow> string \<Rightarrow> string list \<Rightarrow> 'w \<Rightarrow> 'w \<times> tagInfo list" where
  "tag_details c repo [] w = (w, [])"
| "tag_details c repo (n # ns) w =
     (case rcl_TagDetail c repo n w of
        (w1, Inl e) \<Rightarrow> tag_details c repo ns w1
      | (w1, Inr (digest, created)) \<Rightarrow>
          (case tag_details c repo ns w1 of
             (w2, ts) \<Rightarrow> (w2, \<lparr>ti_name = n, ti_digest = digest, ti_createdAt = created\<rparr> # ts)))"

fun delete_tags :: "'w registry_client \<Rightarrow> string \<Rightarrow> tagInfo list \<Rightarrow> 'w \<Rightarrow> 'w \<times> nat" where
  "delete_tags c repo [] w = (w, 0)"
| "delete_tags c repo (t # ts) w =
     (case rcl_DeleteManifest c repo (ti_digest t) w of
        (w1, Some e) \<Rightarrow> delete_tags c repo ts w1
      | (w1, None) \<Rightarrow> (case delete_tags c repo ts w1 of (w2, n) \<Rightarrow> (w2, n + 1)))"

definition executePolicyOnRepo :: "'w retention_env \<Rightarrow> 'w registry_client \<Rightarrow> policy \<Rightarrow> int \<Rightarrow> string \<Rightarrow> 'w \<Rightarrow> 'w \<times> (policy_err + nat)" where
  "executePolicyOnRepo en c p now repo w =
     (case rcl_TagsWithPagination c repo w of
        (w1, Inl e) \<Rightarrow> (w1, Inl (RegistryErr e))
      | (w1, Inr []) \<Rightarrow> (w1, Inr 0)
      | (w1, Inr names) \<Rightarrow>
          (case tag_details c repo names w1 of
             (w2, tags) \<Rightarrow>
               (case selectTagsForDeletion en p now tags of
                  None \<Rightarrow> (w2, Inl RPanic)
                | Some toDelete \<Rightarrow> (case delete_tags c repo toDelete w2 of (w3, n) \<Rightarrow> (w3, Inr n)))))"

definition matchingRepos :: "'w retention_env \<Rightarrow> 'w registry_client \<Rightarrow> string \<Rightarrow> 'w \<Rightarrow> 'w \<times> (policy_err + string list)" where
  "matchingRepos en c pattern w =
     (case rcl_Catalog c w of
        (w1, Inl e) \<Rightarrow> (w1, Inl (RegistryErr e))
      | (w1, Inr repos) \<Rightarrow> (w1, Inr (filter (en_glob en pattern) repos)))"

text \<open>The loop of ExecutePolicy: a repository that fails is skipped, a panic ends the call.\<close>

fun execute_repos :: "'w retention_env \<Rightarrow> 'w registry_client \<Rightarrow> policy \<Rightarrow> int \<Rightarrow> string list \<Rightarrow> 'w \<Rightarrow> 'w \<times> nat option" where
  "execute_repos en c p now [] w = (w, Some 0)"
| "execute_repos en c p now (r # rs) w =
     (case executePolicyOnRepo en c p now r w of
        (w1, Inl RPanic) \<Rightarrow> (w1, None)
      | (w1, Inl _) \<Rightarrow> execute_repos en c p now rs w1
      | (w1, Inr n) \<Rightarrow> (case execute_repos en c p now rs w1 of (w2, r) \<Rightarrow> (w2, map_option ((+) n) r)))"

definition ExecutePolicy :: "'w retention_env \<Rightarrow> int \<Rightarrow> int \<Rightarrow> retention_db \<Rightarrow> 'w \<Rightarrow> retention_db \<times> 'w \<times> (policy_err + nat)" where
  "ExecutePolicy en now policyID d w =
     (case policy_GetByID policyID d of
        None \<Rightarrow> (d, w, Inl PolicyNotFound)
      | Some p \<Rightarrow>
          (case row_by rg_id (rd_registries d) (po_registry_id p) of
             None \<Rightarrow> (d, w, Inl RegistryNotFound)
           | Some reg \<Rightarrow>
               (case en_decrypt en (rg_id reg) of
                  None \<Rightarrow> (d, w, Inl DecryptFailed)
                | Some password \<Rightarrow>
                    (case en_client en (rg_url reg) (if rg_username reg \<noteq> [] then Some (rg_username reg, password) else None) of
                       None \<Rightarrow> (d, w, Inl ClientFailed)
                     | Some c \<Rightarrow>
                         (case matchingRepos en c (po_repo_pattern p) w of
                            (w1, Inl e) \<Rightarrow> (d, w1, Inl e)
                          | (w1, Inr repos) \<Rightarrow>
                              (case execute_repos en c p now repos w1 of
                                 (w2, None) \<Rightarrow> (d, w2, Inl RPanic)
                               | (w2, Some n) \<Rightarrow> (policy_UpdateLastExecuted policyID now d, w2, Inr n)))))))"

section \<open>Runs of the service\<close>

datatype ret_call = CCreatePolicy int policy_request | CUpdatePolicy int policy_request | CDeletePolicy int | CExecutePolicy int int

text \<open>A call that panics has no next state.\<close>

fun ret_exec :: "'w retention_env \<Rightarrow> ret_call \<Rightarrow> retention_db \<times> 'w \<Rightarrow> (retention_db \<times> 'w) option" where
  "ret_exec en (CCreatePolicy now q) (d, w) = Some (fst (CreatePolicy en now q d), w)"
| "ret_exec en (CUpdatePolicy i q) (d, w) = Some (fst (UpdatePolicy en i q d), w)"
| "ret_exec en (CDeletePolicy i) (d, w) = Some (policy_Delete i d, w)"
| "ret_exec en (CExecutePolicy now i) (d, w) =
     (case ExecutePolicy en now i d w of (d', w', Inl RPanic) \<Rightarrow> None | (d', w', _) \<Rightarrow> Some (d', w'))"

definition policy_ok :: "'w retention_env \<Rightarrow> policy \<Rightarrow> bool" where
  "policy_ok en p \<longleftrightarrow> 0 \<le> po_keep_days p \<and> 0 \<le> po_keep_count p \<and> po_repo_pattern p \<noteq> [] \<and>
     (po_keep_days p > 0 \<or> po_keep_count p > 0 \<or> po_keep_pattern p \<noteq> []) \<and>
     (po_keep_pattern p \<noteq> [] \<longrightarrow> en_compile en (po_keep_pattern p) \<noteq> None)"

definition policies_ok :: "'w retention_env \<Rightarrow> retention_db \<times> 'w \<Rightarrow> bool" where
  "policies_ok en s \<longleftrightarrow> (\<forall>p \<in> set (rd_policies (fst s)). policy_ok en p)"

lemma policy_ok_cong:
  "policy_ok en (p\<lparr>po_id := i, po_last_executed := t, po_created_at := n\<rparr>) = policy_ok en p"
  "policy_ok en (p\<lparr>po_last_executed := t\<rparr>) = policy_ok en p"
  by (simp_all add: policy_ok_def)

lemma request_ok:
  assumes "validatePolicyRequest en q = None" "policy_ok_row d (policy_of i q) = None"
  shows "policy_ok en (policy_of i q)"
  using assms by (auto simp: policy_ok_def validatePolicyRequest_def policy_ok_row_def policy_of_def split: if_splits)

lemma Create_ok: "policies_ok en (d, w) \<Longrightarrow> policies_ok en (fst (CreatePolicy en now q d), w)"
  using request_ok [of en q d 0]
  by (auto simp: CreatePolicy_def policy_Create_def policies_ok_def policy_ok_cong Let_def split: option.split)

lemma policy_Update_ok:
  assumes "policies_ok en (d, w)" "policy_ok_row d p = None \<Longrightarrow> policy_ok en p"
  shows "policies_ok en (fst (policy_Update p d), w)"
proof (cases "has_row po_id (rd_policies d) (po_id p) \<and> policy_ok_row d p = None")
  case True
  let ?f = "\<lambda>r. r\<lparr>po_registry_id := po_registry_id p, po_repo_pattern := po_repo_pattern p, po_keep_days := po_keep_days p,
    po_keep_count := po_keep_count p, po_keep_pattern := po_keep_pattern p, po_enabled := po_enabled p\<rparr>"
  have "policy_ok en (?f r)" for r using assms(2) True by (simp add: policy_ok_def)
  then show ?thesis using assms(1) True by (auto simp: policy_Update_def policies_ok_def set_upd_row)
qed (use assms(1) in \<open>auto simp: policy_Update_def split: option.split\<close>)

lemma Update_ok: "policies_ok en (d, w) \<Longrightarrow> policies_ok en (fst (UpdatePolicy en i q d), w)"
  using policy_Update_ok [of en d w "policy_of i q"] request_ok [of en q d i]
  by (auto simp: UpdatePolicy_def split: option.split prod.split)

lemma select_returns: "policy_ok en p \<Longrightarrow> \<exists>sel. selectTagsForDeletion en p now tags = Some sel"
  by (auto simp: selectTagsForDeletion_def policy_ok_def Let_def)

lemma on_repo_no_panic:
  assumes "policy_ok en p"
  shows "executePolicyOnRepo en c p now repo w \<noteq> (w1, Inl RPanic)"
proof -
  have "selectTagsForDeletion en p now tags = None \<longleftrightarrow> False" for tags using select_returns [OF assms, of now tags] by auto
  then show ?thesis by (simp add: executePolicyOnRepo_def del: tag_details.simps not_None_eq split: prod.split sum.split list.split option.split)
qed

lemma execute_repos_returns: "policy_ok en p \<Longrightarrow> \<exists>w' n. execute_repos en c p now rs w = (w', Some n)"
proof (induction rs arbitrary: w)
  case (Cons r rs)
  obtain w1 x where x: "executePolicyOnRepo en c p now r w = (w1, x)" by fastforce
  obtain w2 n where "execute_repos en c p now rs w1 = (w2, Some n)" using Cons by blast
  with x on_repo_no_panic [OF Cons.prems, of c now r w w1] show ?case
    by (cases x) (auto split: policy_err.split)
qed simp

lemma Execute_ok:
  assumes "policies_ok en (d, w)" "ExecutePolicy en now i d w = (d', w', r)"
  shows "r \<noteq> Inl RPanic" "d' = d \<or> d' = policy_UpdateLastExecuted i now d"
proof -
  have ok: "policy_ok en p" if "policy_GetByID i d = Some p" for p
    using assms(1) that row_by_SomeD unfolding policies_ok_def policy_GetByID_def by fastforce
  have m: "snd (matchingRepos en c pat u) \<noteq> Inl RPanic" for c pat u
    by (simp add: matchingRepos_def split: prod.split sum.split)
  have e: "execute_repos en c p now rs u \<noteq> (u', None)" if "policy_GetByID i d = Some p" for p c rs u u'
    using execute_repos_returns [OF ok [OF that], of c now rs u] by auto
  show "d' = d \<or> d' = policy_UpdateLastExecuted i now d"
    using assms(2) unfolding ExecutePolicy_def by (auto split: option.splits prod.splits sum.splits)
  show "r \<noteq> Inl RPanic"
    using assms(2) e m unfolding ExecutePolicy_def by (auto split: option.splits prod.splits sum.splits) (metis snd_conv)
qed

lemma Executed_ok: "policies_ok en (d, w) \<Longrightarrow> policies_ok en (policy_UpdateLastExecuted i now d, w')"
  by (auto simp: policies_ok_def policy_UpdateLastExecuted_def set_upd_row policy_ok_cong)

lemma ret_exec_ok:
  assumes "policies_ok en s"
  shows "\<exists>t. ret_exec en c s = Some t" "ret_exec en c s = Some t \<Longrightarrow> policies_ok en t \<and> rd_registries (fst t) = rd_registries (fst s)"
proof -
  obtain d w where s: "s = (d, w)" by (cases s)
  have ok: "policies_ok en (d, u)" for u using assms by (simp add: s policies_ok_def)
  show "\<exists>t. ret_exec en c s = Some t"
  proof (cases c)
    case (CExecutePolicy now i)
    obtain d' w' r where e: "ExecutePolicy en now i d w = (d', w', r)" by (metis prod_cases3)
    then show ?thesis using Execute_ok(1) [OF ok e] by (cases r) (auto simp: s CExecutePolicy split: policy_err.split)
  qed (simp_all add: s)
  assume t: "ret_exec en c s = Some t"
  show "policies_ok en t \<and> rd_registries (fst t) = rd_registries (fst s)"
  proof (cases c)
    case (CExecutePolicy now i)
    obtain d' w' r where e: "ExecutePolicy en now i d w = (d', w', r)" by (metis prod_cases3)
    have "t = (d', w')" using t e by (auto simp: s CExecutePolicy split: sum.splits policy_err.splits)
    then show ?thesis using Execute_ok(2) [OF ok e] Executed_ok [OF ok] ok by (auto simp: s policy_UpdateLastExecuted_def)
  next
    case (CCreatePolicy now q)
    then show ?thesis using t Create_ok [OF ok] by (auto simp: s CreatePolicy_def policy_Create_def Let_def split: option.split)
  next
    case (CUpdatePolicy i q)
    then show ?thesis using t Update_ok [OF ok] by (auto simp: s UpdatePolicy_def policy_Update_def split: option.split prod.split)
  next
    case (CDeletePolicy i)
    then show ?thesis using t ok by (auto simp: s policy_Delete_def policies_ok_def)
  qed
qed

text \<open>The service keeps the total contract of sequences of calls.\<close>

interpretation retention_calls: total_contract "ret_exec en" "policies_ok en" "\<lambda>s t. rd_registries (fst t) = rd_registries (fst s)" for en
proof unfold_locales
  show "policies_ok en s \<Longrightarrow> ret_exec en c s = Some t \<Longrightarrow> policies_ok en t \<and> rd_registries (fst t) = rd_registries (fst s)" for s t c
    by (rule ret_exec_ok(2))
  show "policies_ok en s \<Longrightarrow> \<exists>t. ret_exec en c s = Some t" for s c by (rule ret_exec_ok(1))
qed simp_all

definition retention_start :: "registry_row list \<Rightarrow> retention_db" where
  "retention_start regs = \<lparr>rd_registries = regs, rd_policies = [], rd_seq = 0\<rparr>"

lemma retention_start_ok: "policies_ok en (retention_start regs, w)"
  by (simp add: policies_ok_def retention_start_def)

section \<open>The selection\<close>

definition sorts_desc :: "(tagInfo list \<Rightarrow> tagInfo list) \<Rightarrow> bool" where
  "sorts_desc f \<longleftrightarrow> (\<forall>ts. mset (f ts) = mset ts \<and> sorted_wrt (\<lambda>a b. ti_createdAt b \<le> ti_createdAt a) (f ts))"

lemma containsTag_iff:
  assumes "inj_on ti_name T" "set acc \<subseteq> T" "t \<in> T"
  shows "containsTag acc (ti_name t) \<longleftrightarrow> t \<in> set acc"
  using assms by (auto simp: containsTag_def list_ex_iff dest: inj_onD)

lemma set_add_tags:
  assumes "inj_on ti_name T" "set ts \<subseteq> T" "set acc \<subseteq> T"
  shows "set (add_tags P ts acc) = set acc \<union> {t \<in> set ts. P t \<and> ti_name t \<noteq> ''latest''}"
  using assms
proof (induction ts arbitrary: acc)
  case (Cons t ts)
  then show ?case using containsTag_iff [of T acc t] by auto
qed simp

lemma distinct_add_tags: "distinct (map ti_name acc) \<Longrightarrow> distinct (map ti_name (add_tags P ts acc))"
proof (induction ts arbitrary: acc)
  case (Cons t ts)
  from Cons.prems have "distinct (map ti_name (acc @ [t]))" if "\<not> containsTag acc (ti_name t)"
    using that by (auto simp: containsTag_def list_ex_iff)
  then show ?case using Cons.IH Cons.prems by simp
qed simp

lemma sorts_desc_parts:
  assumes "sorts_desc f"
  shows "set (f ts) = set ts" "k \<in> set (take n (f ts)) \<Longrightarrow> t \<in> set (drop n (f ts)) \<Longrightarrow> ti_createdAt t \<le> ti_createdAt k"
proof -
  show "set (f ts) = set ts" using assms unfolding sorts_desc_def by (metis set_mset_mset)
  have "sorted_wrt (\<lambda>a b. ti_createdAt b \<le> ti_createdAt a) (take n (f ts) @ drop n (f ts))" using assms by (simp add: sorts_desc_def)
  then show "ti_createdAt t \<le> ti_createdAt k" if "k \<in> set (take n (f ts))" "t \<in> set (drop n (f ts))"
    using that unfolding sorted_wrt_append by blast
qed

text \<open>The tags a policy deletes: any one of its rules is enough.\<close>

definition expired :: "'w retention_env \<Rightarrow> policy \<Rightarrow> int \<Rightarrow> tagInfo \<Rightarrow> bool" where
  "expired en p now t \<longleftrightarrow> po_keep_days p > 0 \<and> ti_createdAt t < en_addDays en now (- po_keep_days p)"

definition surplus :: "'w retention_env \<Rightarrow> policy \<Rightarrow> tagInfo list \<Rightarrow> tagInfo \<Rightarrow> bool" where
  "surplus en p tags t \<longleftrightarrow> po_keep_count p > 0 \<and> t \<in> set (drop (nat (po_keep_count p)) (en_sortDesc en tags))"

definition unmatched :: "'w retention_env \<Rightarrow> policy \<Rightarrow> tagInfo \<Rightarrow> bool" where
  "unmatched en p t \<longleftrightarrow> po_keep_pattern p \<noteq> [] \<and> (case en_compile en (po_keep_pattern p) of None \<Rightarrow> False | Some f \<Rightarrow> \<not> f (ti_name t))"

lemma select_exact:
  assumes "policy_ok en p" "sorts_desc (en_sortDesc en)" "distinct (map ti_name tags)"
  shows "\<exists>sel. selectTagsForDeletion en p now tags = Some sel \<and> distinct (map ti_name sel) \<and>
    set sel = {t \<in> set tags. ti_name t \<noteq> ''latest'' \<and> (expired en p now t \<or> surplus en p tags t \<or> unmatched en p t)}"
proof -
  define del1 where "del1 = time_rule en p now tags"
  define del2 where "del2 = (if po_keep_count p > 0 then add_tags (\<lambda>t. True) (drop (nat (po_keep_count p)) (en_sortDesc en tags)) del1 else del1)"
  have inj: "inj_on ti_name (set tags)" using assms(3) by (simp add: distinct_map)
  have s1: "set del1 = {t \<in> set tags. ti_name t \<noteq> ''latest'' \<and> expired en p now t}" by (auto simp: del1_def time_rule_def expired_def Let_def)
  have d1: "distinct (map ti_name del1)" using assms(3) by (auto simp: del1_def time_rule_def Let_def distinct_map inj_on_filter_key_eq intro: inj_on_subset)
  have sub: "set (drop n (en_sortDesc en tags)) \<subseteq> set tags" for n using sorts_desc_parts(1) [OF assms(2)] set_drop_subset by metis
  have s2: "set del2 = {t \<in> set tags. ti_name t \<noteq> ''latest'' \<and> (expired en p now t \<or> surplus en p tags t)}"
    using set_add_tags [OF inj sub, of del1] s1 subsetD [OF sub] by (auto simp: del2_def surplus_def)
  have d2: "distinct (map ti_name del2)" using d1 distinct_add_tags by (simp add: del2_def)
  have e: "selectTagsForDeletion en p now tags = (if po_keep_pattern p = [] then Some del2
      else case en_compile en (po_keep_pattern p) of None \<Rightarrow> None | Some match \<Rightarrow> Some (add_tags (\<lambda>t. \<not> match (ti_name t)) tags del2))"
    by (simp only: selectTagsForDeletion_def Let_def del1_def del2_def)
  show ?thesis
  proof (cases "po_keep_pattern p = []")
    case False
    then obtain f where f: "en_compile en (po_keep_pattern p) = Some f" using assms(1) by (auto simp: policy_ok_def)
    have "set (add_tags (\<lambda>t. \<not> f (ti_name t)) tags del2) = {t \<in> set tags. ti_name t \<noteq> ''latest'' \<and> (expired en p now t \<or> surplus en p tags t \<or> unmatched en p t)}"
      using set_add_tags [OF inj, of tags del2] s2 f False by (auto simp: unmatched_def)
    then show ?thesis using e f False distinct_add_tags [OF d2] by simp
  qed (use e s2 d2 in \<open>simp add: unmatched_def\<close>)
qed

section \<open>The execution\<close>

lemma tag_details_names: "map ti_name (snd (tag_details c repo ns w)) = filter (\<lambda>n. n \<in> ti_name ` set (snd (tag_details c repo ns w))) ns"
  if "distinct ns"
  using that
proof (induction ns arbitrary: w)
  case (Cons n ns)
  obtain w1 r where d: "rcl_TagDetail c repo n w = (w1, r)" by (cases "rcl_TagDetail c repo n w")
  obtain w2 ts where t: "tag_details c repo ns w1 = (w2, ts)" by (cases "tag_details c repo ns w1")
  have ih: "map ti_name ts = filter (\<lambda>m. m \<in> ti_name ` set ts) ns" using Cons.IH [of w1] Cons.prems t by simp
  then have "set (map ti_name ts) \<subseteq> set ns" by (metis filter_is_subset)
  then have n: "n \<notin> ti_name ` set ts" using Cons.prems by auto
  show ?case
  proof (cases r)
    case (Inr p)
    have "filter (\<lambda>m. m = n \<or> m \<in> ti_name ` set ts) ns = filter (\<lambda>m. m \<in> ti_name ` set ts) ns"
      using Cons.prems by (intro filter_cong) auto
    then show ?thesis using ih by (cases p) (simp add: d t Inr)
  qed (use ih n in \<open>simp add: d t\<close>)
qed simp

lemma tag_details_distinct: "distinct ns \<Longrightarrow> tag_details c repo ns w = (w2, tags) \<Longrightarrow> distinct (map ti_name tags)"
  using tag_details_names [of ns c repo w] by simp

text \<open>The state of the registry after the deletion of the manifests of some tags, in their order.\<close>

definition purged :: "'w registry_client \<Rightarrow> string \<Rightarrow> tagInfo list \<Rightarrow> 'w \<Rightarrow> 'w" where
  "purged c repo ts w = fold (\<lambda>dg w. fst (rcl_DeleteManifest c repo dg w)) (map ti_digest ts) w"

lemma delete_tags_exact:
  "delete_tags c repo ts w = (purged c repo ts w,
     length (filter (\<lambda>i. snd (rcl_DeleteManifest c repo (ti_digest (ts ! i)) (purged c repo (take i ts) w)) = None) [0..<length ts]))"
proof (induction ts arbitrary: w)
  case (Cons t ts)
  obtain w1 r where d: "rcl_DeleteManifest c repo (ti_digest t) w = (w1, r)" by (cases "rcl_DeleteManifest c repo (ti_digest t) w")
  have u: "[0..<length (t # ts)] = 0 # map Suc [0..<length ts]" by (simp add: upt_conv_Cons map_Suc_upt del: upt_Suc)
  show ?case unfolding u using Cons.IH [of w1] by (cases r) (simp_all add: d purged_def filter_map o_def)
qed (simp add: purged_def)

lemma execute_exact:
  assumes "rcl_TagsWithPagination c repo w0 = (w1, Inr names)" "tag_details c repo names w1 = (w2, tags)"
    "selectTagsForDeletion en p now tags = Some sel" "set sel \<subseteq> set tags"
  shows "executePolicyOnRepo en c p now repo w0 = (purged c repo sel w2,
     Inr (length (filter (\<lambda>i. snd (rcl_DeleteManifest c repo (ti_digest (sel ! i)) (purged c repo (take i sel) w2)) = None) [0..<length sel])))"
  using assms by (cases names) (simp_all add: executePolicyOnRepo_def delete_tags_exact purged_def)

section \<open>Properties\<close>

text \<open>
  C22: Retention. No sequence of service calls panics. A policy they leave, executed on a repository
  whose tags the registry lists and describes, selects exactly the tags other than latest that are
  older than the days of the policy, beyond the newest tags it counts, or not matched by its pattern:
  one rule is enough, each tag is chosen once, and every tag the count rule keeps is at least as new
  as those it gives up. The execution asks the registry to delete exactly the manifests of the
  selected tags, by their digests in this order, and returns the number it accepted. (Another tag with
  the digest of a selected one goes with it, even latest: \<open>latest_deleted\<close>.)
\<close>
theorem retention_exact:
  assumes "sorts_desc (en_sortDesc en)" "distinct names"
    "rcl_TagsWithPagination c repo w0 = (w1, Inr names)" "tag_details c repo names w1 = (w2, tags)"
  shows "\<exists>d w'. run_calls (ret_exec en) cs (retention_start regs, w) = Some (d, w') \<and>
    (p \<in> set (rd_policies d) \<longrightarrow>
      (\<exists>sel. selectTagsForDeletion en p now tags = Some sel \<and> distinct (map ti_name sel) \<and>
        set sel = {t \<in> set tags. ti_name t \<noteq> ''latest'' \<and> (expired en p now t \<or> surplus en p tags t \<or> unmatched en p t)} \<and>
        executePolicyOnRepo en c p now repo w0 = (purged c repo sel w2, Inr (length (filter (\<lambda>i.
          snd (rcl_DeleteManifest c repo (ti_digest (sel ! i)) (purged c repo (take i sel) w2)) = None) [0..<length sel])))) \<and>
      (surplus en p tags t \<longrightarrow> k \<in> set (take (nat (po_keep_count p)) (en_sortDesc en tags)) \<longrightarrow> ti_createdAt t \<le> ti_createdAt k))"
proof -
  obtain d w' where r: "run_calls (ret_exec en) cs (retention_start regs, w) = Some (d, w')"
    using retention_calls.run_returns [OF retention_start_ok] by (metis surj_pair)
  then have ok: "policies_ok en (d, w')" using retention_calls.run_keeps [OF retention_start_ok r] by blast
  have dt: "distinct (map ti_name tags)" using assms(2,4) by (rule tag_details_distinct)
  have sel: "\<exists>sel. selectTagsForDeletion en p now tags = Some sel \<and> distinct (map ti_name sel) \<and>
        set sel = {t \<in> set tags. ti_name t \<noteq> ''latest'' \<and> (expired en p now t \<or> surplus en p tags t \<or> unmatched en p t)} \<and>
        executePolicyOnRepo en c p now repo w0 = (purged c repo sel w2, Inr (length (filter (\<lambda>i.
          snd (rcl_DeleteManifest c repo (ti_digest (sel ! i)) (purged c repo (take i sel) w2)) = None) [0..<length sel])))"
    if p: "p \<in> set (rd_policies d)"
  proof -
    have "policy_ok en p" using ok p by (simp add: policies_ok_def)
    from select_exact [OF this assms(1) dt, of now] obtain sel where s: "selectTagsForDeletion en p now tags = Some sel"
      "distinct (map ti_name sel)"
      "set sel = {t \<in> set tags. ti_name t \<noteq> ''latest'' \<and> (expired en p now t \<or> surplus en p tags t \<or> unmatched en p t)}" by blast
    have "set sel \<subseteq> set tags" unfolding s(3) by blast
    then show ?thesis using s execute_exact [OF assms(3,4) s(1)] by blast
  qed
  show ?thesis using r sel sorts_desc_parts(2) [OF assms(1)] by (auto simp: surplus_def)
qed

text \<open>A registry as the distribution specification has it: deleting a manifest removes every tag that
  points to its digest.\<close>

definition demo_client :: "tagInfo list registry_client" where
  "demo_client = \<lparr>rcl_Catalog = (\<lambda>w. (w, Inr [''app''])), rcl_TagsWithPagination = (\<lambda>repo w. (w, Inr (map ti_name w))),
     rcl_TagDetail = (\<lambda>repo n w. (w, case List.find (\<lambda>t. ti_name t = n) w of None \<Rightarrow> Inl ''not found'' | Some t \<Rightarrow> Inr (ti_digest t, ti_createdAt t))),
     rcl_DeleteManifest = (\<lambda>repo dg w. if list_ex (\<lambda>t. ti_digest t = dg) w then (filter (\<lambda>t. ti_digest t \<noteq> dg) w, None) else (w, Some ''not found''))\<rparr>"

definition demo_env :: "tagInfo list retention_env" where
  "demo_env = \<lparr>en_compile = (\<lambda>r. Some (\<lambda>s. s = r)), en_glob = (\<lambda>p n. p = n), en_addDays = (\<lambda>t n. t + n), en_sortDesc = (\<lambda>ts. rev (sort_key ti_createdAt ts)),
     en_decrypt = (\<lambda>i. Some []), en_client = (\<lambda>u c. Some demo_client)\<rparr>"

definition demo_tags :: "tagInfo list" where
  "demo_tags = [\<lparr>ti_name = ''v1'', ti_digest = ''sha256:a'', ti_createdAt = 10\<rparr>, \<lparr>ti_name = ''latest'', ti_digest = ''sha256:a'', ti_createdAt = 10\<rparr>,
     \<lparr>ti_name = ''v2'', ti_digest = ''sha256:b'', ti_createdAt = 95\<rparr>]"

definition demo_calls :: "ret_call list" where
  "demo_calls = [CCreatePolicy 50 \<lparr>pq_registry_id = 1, pq_repo_pattern = ''app'', pq_keep_days = 30, pq_keep_count = 0, pq_keep_pattern = [], pq_enabled = True\<rparr>]"

definition demo_policy :: policy where
  "demo_policy = \<lparr>po_id = 1, po_registry_id = 1, po_repo_pattern = ''app'', po_keep_days = 30, po_keep_count = 0, po_keep_pattern = [], po_enabled = True,
     po_last_executed = None, po_created_at = 50\<rparr>"

definition demo_registries :: "registry_row list" where
  "demo_registries = [\<lparr>rg_id = 1, rg_url = ''http://r'', rg_username = []\<rparr>]"

lemma demo_sorts: "sorts_desc (en_sortDesc demo_env)"
proof -
  have "sorted_wrt (\<lambda>a b. ti_createdAt b \<le> ti_createdAt a) (rev (sort_key ti_createdAt ts))" for ts
    using sorted_sort_key [of ti_createdAt ts] by (simp add: sorted_wrt_rev sorted_wrt_map)
  then show ?thesis by (auto simp: sorts_desc_def demo_env_def)
qed

theorem retention_exact_witness:
  "run_calls (ret_exec demo_env) demo_calls (retention_start demo_registries, demo_tags) = Some (\<lparr>rd_registries = demo_registries, rd_policies = [demo_policy], rd_seq = 1\<rparr>, demo_tags) \<and>
   (\<exists>sel. selectTagsForDeletion demo_env demo_policy 100 demo_tags = Some sel \<and> set sel = {hd demo_tags} \<and>
     fst (executePolicyOnRepo demo_env demo_client demo_policy 100 ''app'' demo_tags) = purged demo_client ''app'' sel demo_tags)"
proof -
  have r: "run_calls (ret_exec demo_env) demo_calls (retention_start demo_registries, demo_tags) =
      Some (\<lparr>rd_registries = demo_registries, rd_policies = [demo_policy], rd_seq = 1\<rparr>, demo_tags)" by code_simp
  have n: "distinct [''v1'', ''latest'', ''v2'']" by simp
  have l: "rcl_TagsWithPagination demo_client ''app'' demo_tags = (demo_tags, Inr [''v1'', ''latest'', ''v2''])" by code_simp
  have t: "tag_details demo_client ''app'' [''v1'', ''latest'', ''v2''] demo_tags = (demo_tags, demo_tags)" by code_simp
  from retention_exact [OF demo_sorts n l t, where cs = demo_calls and regs = demo_registries and w = demo_tags and p = demo_policy
    and now = 100 and t = undefined and k = undefined]
  obtain sel where sel: "selectTagsForDeletion demo_env demo_policy 100 demo_tags = Some sel"
    "set sel = {t \<in> set demo_tags. ti_name t \<noteq> ''latest'' \<and> (expired demo_env demo_policy 100 t \<or> surplus demo_env demo_policy demo_tags t \<or> unmatched demo_env demo_policy t)}"
    "fst (executePolicyOnRepo demo_env demo_client demo_policy 100 ''app'' demo_tags) = purged demo_client ''app'' sel demo_tags"
    unfolding r by auto
  have f: "filter (\<lambda>t. ti_name t \<noteq> ''latest'' \<and> (expired demo_env demo_policy 100 t \<or> surplus demo_env demo_policy demo_tags t \<or>
      unmatched demo_env demo_policy t)) demo_tags = [hd demo_tags]" by code_simp
  have "set sel = {hd demo_tags}" unfolding sel(2) set_filter [symmetric] f by simp
  then show ?thesis using r sel(1,3) by blast
qed

text \<open>Protecting the name latest does not protect its image: here latest is not chosen, but it shares
  the digest of a tag that is, and is gone when the policy has run.\<close>

lemma latest_deleted:
  "fst (executePolicyOnRepo demo_env demo_client demo_policy 100 ''app'' demo_tags) = [demo_tags ! 2]"
  by code_simp

text \<open>The request of the web form that sets one rule is refused by the handler's validation, though
  the service accepts it.\<close>

lemma one_rule_refused:
  "Validate demo_env \<lparr>pq_registry_id = 1, pq_repo_pattern = ''app'', pq_keep_days = 30, pq_keep_count = 0, pq_keep_pattern = [], pq_enabled = True\<rparr> = Some KeepCountTooSmall"
  "validatePolicyRequest demo_env \<lparr>pq_registry_id = 1, pq_repo_pattern = ''app'', pq_keep_days = 30, pq_keep_count = 0, pq_keep_pattern = [], pq_enabled = True\<rparr> = None"
  by (simp_all add: Validate_def validatePolicyRequest_def)

end
