(* ===== verification/Crawl_Retry.thy ===== *)
theory Crawl_Retry
  imports Go_Base "HOL-Library.Word"
begin

text \<open>
  The retry policy of a crawl, src/internal/crawler/retry.go, and its configuration in manager.go.
  Durations are 64 bit words in nanoseconds; points in time are integers, and a context is the point
  at which it is cancelled and its deadline. A fetch takes time and may change the world; what
  \<^verbatim>\<open>errors.Is\<close> and \<^verbatim>\<open>errors.As\<close> answer about its error are fields of the error. The
  parameter \<open>jitter\<close> is the floating point product of a delay with the factor drawn at an attempt,
  and \<open>parseDuration\<close> is \<^verbatim>\<open>time.ParseDuration\<close>.
\<close>

unbundle bit_operations_syntax

section \<open>Contexts\<close>

datatype ctx_err = Canceled | DeadlineExceeded

record ctx =
  cx_cancel :: "int option"
  cx_deadline :: "int option"

definition ctx_end :: "ctx \<Rightarrow> (int \<times> ctx_err) option" where
  "ctx_end cx =
     (case cx_cancel cx of
        None \<Rightarrow> map_option (\<lambda>d. (d, DeadlineExceeded)) (cx_deadline cx)
      | Some c \<Rightarrow> (case cx_deadline cx of
                    None \<Rightarrow> Some (c, Canceled)
                  | Some d \<Rightarrow> if c < d then Some (c, Canceled) else Some (d, DeadlineExceeded)))"

definition ctx_Err :: "ctx \<Rightarrow> int \<Rightarrow> ctx_err option" where
  "ctx_Err cx now = (case ctx_end cx of None \<Rightarrow> None | Some (t, e) \<Rightarrow> if t \<le> now then Some e else None)"

definition WithTimeout :: "ctx \<Rightarrow> int \<Rightarrow> 64 word \<Rightarrow> ctx" where
  "WithTimeout cx now d =
     cx\<lparr>cx_deadline := Some (case cx_deadline cx of None \<Rightarrow> now + sint d | Some t \<Rightarrow> min t (now + sint d))\<rparr>"

section \<open>Classes of errors\<close>

record fetch_err =
  fe_msg :: string
  fe_rateLimited :: bool
  fe_status :: "int option"
  fe_urlTimeout :: bool
  fe_deadline :: bool
  fe_netTimeout :: bool

datatype errorClass = classTransient | classPermanent | classRateLimit

definition transientErrorSubstrings :: "string list" where
  "transientErrorSubstrings =
     [''connection reset'', ''connection refused'', ''eof'', ''broken pipe'', ''no such host'', ''i/o timeout'',
      ''deadline exceeded'', ''timeout'', ''server closed'', ''transport connection'', ''tls: handshake'']"

definition classifyFetchError :: "fetch_err option \<Rightarrow> errorClass" where
  "classifyFetchError err =
     (case err of
        None \<Rightarrow> classPermanent
      | Some e \<Rightarrow>
          if fe_rateLimited e then classRateLimit
          else if contains_sub (to_lower (fe_msg e)) ''rate limit'' then classRateLimit
          else (case fe_status e of
                  Some code \<Rightarrow> if 500 \<le> code \<and> code \<le> 599 then classTransient else classPermanent
                | None \<Rightarrow>
                    if fe_urlTimeout e then classTransient
                    else if fe_deadline e then classTransient
                    else if fe_netTimeout e then classTransient
                    else if list_ex (contains_sub (to_lower (fe_msg e))) transientErrorSubstrings then classTransient
                    else classPermanent))"

datatype crawl_status = CrawlStatusRunning | CrawlStatusSuccess | CrawlStatusError | CrawlStatusRateLimited | CrawlStatusNetworkError

fun classToStatus :: "errorClass \<Rightarrow> crawl_status" where
  "classToStatus classRateLimit = CrawlStatusRateLimited"
| "classToStatus classTransient = CrawlStatusNetworkError"
| "classToStatus classPermanent = CrawlStatusError"

section \<open>The retry loop\<close>

type_synonym sleeper = "ctx \<Rightarrow> 64 word \<Rightarrow> int \<Rightarrow> int \<times> ctx_err option"
type_synonym ('w, 'a) fetch = "ctx \<Rightarrow> int \<Rightarrow> 'w \<Rightarrow> int \<times> 'w \<times> (fetch_err + 'a)"
type_synonym jitter = "int \<Rightarrow> 64 word \<Rightarrow> 64 word"

record retryConfig =
  rc_timeout :: "64 word"
  rc_maxRetries :: "64 word"
  rc_initialBackoff :: "64 word"
  rc_sleeper :: sleeper

definition sleepContext :: sleeper where
  "sleepContext cx d now =
     (if sint d \<le> 0 then (now, None)
      else case ctx_end cx of
             None \<Rightarrow> (now + sint d, None)
           | Some (t, e) \<Rightarrow> if t < now + sint d then (max now t, Some e) else (now + sint d, None))"

definition defaultRetryConfig :: retryConfig where
  "defaultRetryConfig = \<lparr>rc_timeout = 0, rc_maxRetries = 0, rc_initialBackoff = 0, rc_sleeper = sleepContext\<rparr>"

record crawler_config =
  cc_MaxConcurrent :: "64 word"
  cc_FetchTimeout :: string
  cc_MaxRetries :: "64 word"
  cc_RetryInitialBackoff :: string
  cc_DefaultInterval :: string

definition positive_duration :: "(string \<Rightarrow> 64 word option) \<Rightarrow> string \<Rightarrow> 64 word" where
  "positive_duration parseDuration s = (case parseDuration s of Some d \<Rightarrow> if sint d > 0 then d else 0 | None \<Rightarrow> 0)"

definition retryConfigFromCfg :: "(string \<Rightarrow> 64 word option) \<Rightarrow> crawler_config option \<Rightarrow> retryConfig" where
  "retryConfigFromCfg parseDuration cfg =
     (case cfg of
        None \<Rightarrow> defaultRetryConfig
      | Some c \<Rightarrow> \<lparr>rc_timeout = positive_duration parseDuration (cc_FetchTimeout c),
                   rc_maxRetries = (if sint (cc_MaxRetries c) > 0 then cc_MaxRetries c else 0),
                   rc_initialBackoff = positive_duration parseDuration (cc_RetryInitialBackoff c),
                   rc_sleeper = sleepContext\<rparr>)"

definition backoff_base :: "64 word \<Rightarrow> int \<Rightarrow> 64 word" where
  "backoff_base initial attempt =
     (let d = push_bit (nat attempt) initial in if sint d \<le> 0 then 30000000000 else d)"

definition backoffFor :: "jitter \<Rightarrow> 64 word \<Rightarrow> int \<Rightarrow> 64 word" where
  "backoffFor jitter initial attempt =
     (if sint initial \<le> 0 \<or> attempt < 0 then 0 else jitter attempt (backoff_base initial attempt))"

datatype retry_err = FetchErr fetch_err | CtxErr ctx_err | SleepErr ctx_err "fetch_err option"

text \<open>The loop, with the number of attempts left; the results are the time and world at the return,
  the fetched value, the error and its class.\<close>

fun fetch_loop ::
  "jitter \<Rightarrow> retryConfig \<Rightarrow> ctx \<Rightarrow> ('w, 'a) fetch \<Rightarrow> nat \<Rightarrow> int \<Rightarrow> fetch_err option \<times> errorClass \<Rightarrow> int \<Rightarrow> 'w \<Rightarrow>
   int \<times> 'w \<times> 'a option \<times> retry_err option \<times> errorClass" where
  "fetch_loop jitter rc cx fetch 0 attempt (lastErr, cls) now w = (now, w, None, map_option FetchErr lastErr, cls)"
| "fetch_loop jitter rc cx fetch (Suc left) attempt (lastErr, cls) now w =
     (case ctx_Err cx now of
        Some e \<Rightarrow> (now, w, None, Some (CtxErr e), classTransient)
      | None \<Rightarrow>
          (case fetch cx now w of
             (now1, w1, Inr result) \<Rightarrow> (now1, w1, Some result, None, classPermanent)
           | (now1, w1, Inl err) \<Rightarrow>
               let cls = classifyFetchError (Some err) in
               if cls \<noteq> classTransient then (now1, w1, None, Some (FetchErr err), cls)
               else if left = 0 then (now1, w1, None, Some (FetchErr err), cls)
               else (case rc_sleeper rc cx (backoffFor jitter (rc_initialBackoff rc) attempt) now1 of
                       (now2, Some e) \<Rightarrow> (now2, w1, None, Some (SleepErr e (Some err)), classTransient)
                     | (now2, None) \<Rightarrow> fetch_loop jitter rc cx fetch left (attempt + 1) (Some err, cls) now2 w1)))"

definition crawl_context :: "ctx \<Rightarrow> retryConfig \<Rightarrow> int \<Rightarrow> ctx" where
  "crawl_context cx rc now = (if sint (rc_timeout rc) > 0 then WithTimeout cx now (rc_timeout rc) else cx)"

definition fetchWithRetry ::
  "jitter \<Rightarrow> ctx \<Rightarrow> retryConfig \<Rightarrow> ('w, 'a) fetch \<Rightarrow> int \<Rightarrow> 'w \<Rightarrow> int \<times> 'w \<times> 'a option \<times> retry_err option \<times> errorClass" where
  "fetchWithRetry jitter cx rc fetch now w =
     fetch_loop jitter rc (crawl_context cx rc now) fetch (nat (sint (rc_maxRetries rc + 1))) 0 (None, classPermanent) now w"

text \<open>The wrapper of the HTTP layer: a response outside 200 to 299 becomes an error that carries the
  status and at most 4096 bytes of the body.\<close>

definition drainBounded :: "string option \<Rightarrow> nat \<Rightarrow> string" where
  "drainBounded r limit = (case r of None \<Rightarrow> [] | Some b \<Rightarrow> take limit (take (limit + 1) b))"

definition httpStatusError :: "int \<Rightarrow> string \<Rightarrow> fetch_err" where
  "httpStatusError code msg =
     \<lparr>fe_msg = ''http status '' @ format_int code @ '': '' @ msg, fe_rateLimited = False, fe_status = Some code,
      fe_urlTimeout = False, fe_deadline = False, fe_netTimeout = False\<rparr>"

definition retryDo :: "fetch_err + int \<times> string option \<Rightarrow> fetch_err + int \<times> string option" where
  "retryDo answer =
     (case answer of
        Inl err \<Rightarrow> Inl err
      | Inr (code, body) \<Rightarrow>
          if code < 200 \<or> 300 \<le> code then Inl (httpStatusError code (drainBounded body 4096)) else Inr (code, body))"

section \<open>Facts\<close>

text \<open>A fetch whose calls are recorded: when each began and what it returned.\<close>

definition logged :: "('w, 'a) fetch \<Rightarrow> ('w \<times> (int \<times> (fetch_err + 'a)) list, 'a) fetch" where
  "logged fetch cx now wl = (case fetch cx now (fst wl) of (now1, w1, r) \<Rightarrow> (now1, (w1, snd wl @ [(now, r)]), r))"

fun transient :: "fetch_err + 'a \<Rightarrow> bool" where
  "transient (Inl e) \<longleftrightarrow> classifyFetchError (Some e) = classTransient"
| "transient (Inr a) \<longleftrightarrow> False"

text \<open>What the calls of a loop determine: all but the last answer were transient errors, and the
  result is the last answer, unless the context ended first.\<close>

definition loop_result :: "ctx \<Rightarrow> nat \<Rightarrow> (int \<times> (fetch_err + 'a)) list \<Rightarrow> 'a option \<times> retry_err option \<times> errorClass \<Rightarrow> bool" where
  "loop_result cx n log res \<longleftrightarrow>
     length log \<le> n \<and> list_all (\<lambda>(t, r). ctx_Err cx t = None) log \<and> list_all (\<lambda>(t, r). transient r) (butlast log) \<and>
     (case res of
        (Some a, e, c) \<Rightarrow> e = None \<and> c = classPermanent \<and> log \<noteq> [] \<and> snd (last log) = Inr a
      | (None, Some (FetchErr f), c) \<Rightarrow> log \<noteq> [] \<and> snd (last log) = Inl f \<and> c = classifyFetchError (Some f) \<and> (c = classTransient \<longrightarrow> length log = n)
      | (None, Some (CtxErr e), c) \<Rightarrow> c = classTransient \<and> length log < n \<and> list_all (\<lambda>(t, r). transient r) log
      | (None, Some (SleepErr e f), c) \<Rightarrow> c = classTransient \<and> log \<noteq> [] \<and> length log < n \<and> list_all (\<lambda>(t, r). transient r) log
      | (None, None, c) \<Rightarrow> False)"

lemma loop_result_Cons:
  assumes "loop_result cx n log res" "transient r" "ctx_Err cx t = None" "0 < n"
  shows "loop_result cx (Suc n) ((t, r) # log) res"
proof -
  obtain a e c where res: "res = (a, e, c)" by (cases res)
  show ?thesis using assms unfolding res loop_result_def
    by (cases a; cases e) (auto split: retry_err.splits if_splits)
qed

lemma ctx_ends_first: "loop_result cx (Suc n) [] (None, Some (CtxErr e), classTransient)"
  by (simp add: loop_result_def)

lemma fetch_loop_result:
  assumes "fetch_loop jitter rc cx (logged fetch) n attempt st now (w, log0) = (now', (w', log), res)" "0 < n"
  shows "\<exists>log1. log = log0 @ log1 \<and> loop_result cx n log1 res"
  using assms
proof (induction n arbitrary: attempt st now w log0)
  case (Suc n)
  obtain le c where st: "st = (le, c)" by (cases st)
  show ?case
  proof (cases "ctx_Err cx now")
    case (Some e)
    then show ?thesis using Suc.prems ctx_ends_first [of cx n e] by (auto simp: st)
  next
    case None
    obtain now1 w1 r where f: "fetch cx now w = (now1, w1, r)" by (cases "fetch cx now w")
    then have lf: "logged fetch cx now (w, log0) = (now1, (w1, log0 @ [(now, r)]), r)" by (simp add: logged_def)
    show ?thesis
    proof (cases "transient r \<and> n \<noteq> 0")
      case False
      then show ?thesis using Suc.prems None lf
        by (cases r) (auto simp: st loop_result_def Let_def intro!: exI [of _ "[(now, r)]"] split: if_splits)
    next
      case True
      then obtain err where r: "r = Inl err" "classifyFetchError (Some err) = classTransient" by (cases r) auto
      obtain now2 se where s: "rc_sleeper rc cx (backoffFor jitter (rc_initialBackoff rc) attempt) now1 = (now2, se)" by fastforce
      show ?thesis
      proof (cases se)
        case None
        then have "fetch_loop jitter rc cx (logged fetch) n (attempt + 1) (Some err, classTransient) now2 (w1, log0 @ [(now, r)]) = (now', (w', log), res)"
          using Suc.prems \<open>ctx_Err cx now = None\<close> lf r s True by (simp add: st)
        from Suc.IH [OF this] True obtain log1 where "log = log0 @ (now, r) # log1" "loop_result cx n log1 res" by auto
        then show ?thesis using loop_result_Cons [of cx n log1 res r now] True \<open>ctx_Err cx now = None\<close> by blast
      next
        case (Some e)
        then show ?thesis using Suc.prems \<open>ctx_Err cx now = None\<close> lf r s True
          by (auto simp: st loop_result_def intro!: exI [of _ "[(now, r)]"])
      qed
    qed
  qed
qed simp

lemma sint_shift:
  fixes w :: "64 word"
  shows "sint (push_bit k w) = signed_take_bit 63 (sint w * 2 ^ k)"
proof -
  have "push_bit k w = word_of_int (sint w * 2 ^ k)" by (simp add: push_bit_eq_mult)
  then show ?thesis by (simp only: sint_sbintrunc') simp
qed

lemma sint_shift_exact:
  fixes w :: "64 word"
  assumes "0 \<le> sint w" "sint w * 2 ^ k < 2 ^ 63"
  shows "sint (push_bit k w) = sint w * 2 ^ k"
proof -
  have "0 \<le> sint w * 2 ^ k" using assms(1) by simp
  then show ?thesis unfolding sint_shift using assms(2) by (intro signed_take_bit_int_eq_self) auto
qed

lemma crawl_context_deadline:
  assumes "sint (rc_timeout rc) > 0" "ctx_Err (crawl_context cx rc now) t = None"
  shows "t < now + sint (rc_timeout rc)"
  using assms by (auto simp: crawl_context_def WithTimeout_def ctx_Err_def ctx_end_def split: option.splits if_splits)

section \<open>Properties\<close>

text \<open>
  C18: fetchWithRetry returns after at most maxRetries + 1 fetches. Every fetch but the last answered
  with a transient error; the result is the value of the last one or its error with the class of that
  error, which is transient only when all retries are used up; otherwise the context ended while the
  loop waited. With a timeout no fetch begins after it has elapsed. When maxRetries + 1 is not
  positive (it wraps for the largest integer) nothing is fetched, and the caller is told neither a
  value nor an error.
\<close>
theorem fetchWithRetry_spec:
  assumes "fetchWithRetry jitter cx rc (logged fetch) now (w, []) = (now', (w', log), res)"
  shows "(0 < sint (rc_maxRetries rc + 1) \<longrightarrow> loop_result (crawl_context cx rc now) (nat (sint (rc_maxRetries rc + 1))) log res) \<and>
    (0 < sint (rc_timeout rc) \<longrightarrow> list_all (\<lambda>(t, r). t < now + sint (rc_timeout rc)) log) \<and>
    (sint (rc_maxRetries rc + 1) \<le> 0 \<longrightarrow> log = [] \<and> res = (None, None, classPermanent))"
proof -
  let ?n = "nat (sint (rc_maxRetries rc + 1))"
  have r: "loop_result (crawl_context cx rc now) ?n log res" if "0 < ?n"
    using fetch_loop_result [OF assms [unfolded fetchWithRetry_def] that] by simp
  have z: "log = [] \<and> res = (None, None, classPermanent)" if "?n = 0" using assms that by (simp add: fetchWithRetry_def)
  have "list_all (\<lambda>(t, r). t < now + sint (rc_timeout rc)) log" if "0 < sint (rc_timeout rc)"
  proof (cases "?n = 0")
    case False
    then have "list_all (\<lambda>(t, r). ctx_Err (crawl_context cx rc now) t = None) log" using r by (simp add: loop_result_def)
    then show ?thesis using crawl_context_deadline [OF that, of cx now] by (auto simp: list_all_iff)
  qed (use z in simp)
  with r z show ?thesis by simp
qed

definition flaky :: "(nat, string) fetch" where
  "flaky cx now n = (now + 5, n + 1, if n < 2 then Inl (httpStatusError 503 ''unavailable'') else Inr ''ok'')"

definition demo_retry :: retryConfig where
  "demo_retry = \<lparr>rc_timeout = 1000, rc_maxRetries = 3, rc_initialBackoff = 100, rc_sleeper = sleepContext\<rparr>"

lemma flaky_run:
  "fetchWithRetry (\<lambda>_ d. d) \<lparr>cx_cancel = None, cx_deadline = None\<rparr> demo_retry (logged flaky) 0 (0, []) =
     (315, (3, [(0, Inl (httpStatusError 503 ''unavailable'')), (105, Inl (httpStatusError 503 ''unavailable'')), (310, Inr ''ok'')]),
      Some ''ok'', None, classPermanent)"
  by code_simp

theorem fetchWithRetry_spec_witness:
  "0 < sint (rc_maxRetries demo_retry + 1) \<and>
   loop_result (crawl_context \<lparr>cx_cancel = None, cx_deadline = None\<rparr> demo_retry 0) (nat (sint (rc_maxRetries demo_retry + 1)))
     [(0, Inl (httpStatusError 503 ''unavailable'')), (105, Inl (httpStatusError 503 ''unavailable'')), (310, Inr ''ok'')]
     (Some ''ok'', None, classPermanent)"
proof -
  have "0 < sint (rc_maxRetries demo_retry + 1)" by code_simp
  then show ?thesis using fetchWithRetry_spec [OF flaky_run] by simp
qed

text \<open>
  The delay before a retry. A positive initial backoff is doubled at every attempt, exactly as
  long as the product fits 63 bits; the delay is always positive, at most the exact product or the 30
  seconds that replace a sum the code notices to have overflowed. Not every overflow is noticed: with
  5 seconds initially, attempt 31 is replaced and attempt 32 is a delay of about 96 years.
\<close>
theorem backoff_bounds:
  assumes "0 < sint initial" "0 \<le> attempt"
  shows "(sint initial * 2 ^ nat attempt < 2 ^ 63 \<longrightarrow> sint (backoff_base initial attempt) = sint initial * 2 ^ nat attempt) \<and>
    0 < sint (backoff_base initial attempt) \<and>
    sint (backoff_base initial attempt) \<le> max 30000000000 (sint initial * 2 ^ nat attempt) \<and>
    backoff_base 5000000000 31 = 30000000000 \<and> sint (backoff_base 5000000000 32) = 3028092406290448384"
proof -
  let ?d = "push_bit (nat attempt) initial"
  have ex: "sint ?d = sint initial * 2 ^ nat attempt" if "sint initial * 2 ^ nat attempt < 2 ^ 63"
    using sint_shift_exact [of initial] assms that by simp
  have c: "sint (30000000000 :: 64 word) = 30000000000" by code_simp
  have pos: "0 < sint initial * 2 ^ nat attempt" using assms by simp
  have "sint ?d < 2 ^ 63" using sint_lt [of ?d] by simp
  then have le: "sint ?d \<le> sint initial * 2 ^ nat attempt" using ex by fastforce
  have b: "sint (backoff_base initial attempt) = (if sint ?d \<le> 0 then 30000000000 else sint ?d)" using c by (simp add: backoff_base_def Let_def)
  have "sint initial * 2 ^ nat attempt < 2 ^ 63 \<longrightarrow> sint (backoff_base initial attempt) = sint initial * 2 ^ nat attempt"
    using b ex pos by simp
  moreover have "0 < sint (backoff_base initial attempt)" "sint (backoff_base initial attempt) \<le> max 30000000000 (sint initial * 2 ^ nat attempt)"
    using b le by auto
  moreover have "backoff_base 5000000000 31 = 30000000000" "sint (backoff_base 5000000000 32) = 3028092406290448384" by code_simp+
  ultimately show ?thesis by blast
qed

theorem backoff_bounds_witness:
  "sint (backoff_base 100000000 4) = 1600000000"
  using backoff_bounds [of 100000000 4] by (simp add: backoff_base_def)

end
