(* ===== verification/File_Service.thy ===== *)
theory File_Service
  imports File_Repo Crawl_Retry
begin

text \<open>
  The download of one file, src/internal/service/file_service.go. The network, the disk and the
  waiting are the parameter \<open>downloader\<close>: each action takes the time and a world and returns both. A
  database call with a context fails when the context has ended; that is \<open>ctx_db\<close>. The limit of
  concurrent downloads is \<open>dl_acquire\<close>; progress reports and metrics are left out.
\<close>

section \<open>Parameters\<close>

type_synonym ('w, 'a) act = "int \<Rightarrow> 'w \<Rightarrow> int \<times> 'w \<times> 'a"

text \<open>What a GET answers: a transport error, a status other than 200, or the bytes copied, unless the
  copy failed.\<close>

datatype http_answer = TransportErr string | HttpStatus int | CreateFailed string | CopyFailed string | Copied int

datatype dl_err = HttpError int | DlErr string

record mfile =
  mf_ID :: int
  mf_DownloadURL :: string
  mf_LocalPath :: string
  mf_SizeBytes :: "64 word"

record 'w downloader =
  dl_acquire :: "ctx \<Rightarrow> ('w, bool) act"
  dl_MkdirAll :: "string \<Rightarrow> ('w, bool) act"
  dl_CheckDiskSpace :: "64 word \<Rightarrow> ('w, bool) act"
  dl_get :: "ctx \<Rightarrow> string \<Rightarrow> string \<Rightarrow> ('w, http_answer) act"
  dl_after :: "ctx \<Rightarrow> int \<Rightarrow> ('w, bool) act"
  dl_Remove :: "string \<Rightarrow> ('w, unit) act"
  dl_VerifyIntegrity :: "string \<Rightarrow> ('w, string option) act"
  dl_Rename :: "string \<Rightarrow> string \<Rightarrow> ('w, string option) act"

definition ctx_db :: "ctx \<Rightarrow> int \<Rightarrow> (database \<Rightarrow> database) \<Rightarrow> database \<Rightarrow> database" where
  "ctx_db cx now f d = (if ctx_Err cx now = None then f d else d)"

section \<open>Downloading\<close>

definition maxRetries :: int where
  "maxRetries = 3"

definition retryBackoffs :: "int list" where
  "retryBackoffs = [5, 10, 15]"

definition downloadAttemptTimeoutForSize :: "64 word \<Rightarrow> 64 word" where
  "downloadAttemptTimeoutForSize sizeBytes =
     (if sint sizeBytes \<le> 0 then 300000000000
      else let timeout = word_of_int (sint sizeBytes div 10240) * 1000000000;
               timeout1 = (if sint timeout < 300000000000 then 300000000000 else timeout)
           in if sint timeout1 > 7200000000000 then 7200000000000 else timeout1)"

definition downloadAttempt :: "'w downloader \<Rightarrow> ctx \<Rightarrow> mfile \<Rightarrow> string \<Rightarrow> ('w, dl_err option) act" where
  "downloadAttempt dl cx f tempPath now w =
     (case dl_get dl (WithTimeout cx now (downloadAttemptTimeoutForSize (mf_SizeBytes f))) (mf_DownloadURL f) tempPath now w of
        (now1, w1, TransportErr e) \<Rightarrow> (now1, w1, Some (DlErr e))
      | (now1, w1, HttpStatus code) \<Rightarrow> (now1, w1, Some (HttpError code))
      | (now1, w1, CreateFailed e) \<Rightarrow> (now1, w1, Some (DlErr e))
      | (now1, w1, CopyFailed e) \<Rightarrow> (now1, w1, Some (DlErr e))
      | (now1, w1, Copied written) \<Rightarrow>
          (now1, w1,
           if written = 0 then Some (DlErr ''downloaded file is empty (0 bytes)'')
           else if sint (mf_SizeBytes f) > 0 \<and> written \<noteq> sint (mf_SizeBytes f) then Some (DlErr (''size mismatch: expected '' @ format_int (sint (mf_SizeBytes f)) @ '' bytes, got '' @ format_int written @ '' bytes''))
           else None))"

definition updateError :: "int \<Rightarrow> string \<Rightarrow> database \<Rightarrow> database" where
  "updateError fileID msg d =
     (case file_IncrementRetryCount fileID msg d of
        (d1, None) \<Rightarrow> d1
      | (d1, Some retryCount) \<Rightarrow> if retryCount \<ge> maxRetries then fst (file_MarkFailedPermanent fileID d1) else d1)"

definition client_error :: "dl_err \<Rightarrow> bool" where
  "client_error e \<longleftrightarrow> (case e of HttpError code \<Rightarrow> 400 \<le> code \<and> code < 500 | DlErr s \<Rightarrow> False)"

text \<open>The loop over the attempts; the result is the last error, or that the context ended in a pause.\<close>

datatype attempts_end = Finished "dl_err option" | CancelledInBackoff

fun attempts :: "'w downloader \<Rightarrow> ctx \<Rightarrow> mfile \<Rightarrow> string \<Rightarrow> nat \<Rightarrow> nat \<Rightarrow> dl_err option \<Rightarrow> ('w, attempts_end) act" where
  "attempts dl cx f tempPath 0 attempt lastErr now w = (now, w, Finished lastErr)"
| "attempts dl cx f tempPath (Suc left) attempt lastErr now w =
     (case (if attempt > 0 then dl_after dl cx (retryBackoffs ! (attempt - 1)) now w else (now, w, True)) of
        (now1, w1, False) \<Rightarrow> (now1, w1, CancelledInBackoff)
      | (now1, w1, True) \<Rightarrow>
          (case downloadAttempt dl cx f tempPath now1 w1 of
             (now2, w2, None) \<Rightarrow> (now2, w2, Finished None)
           | (now2, w2, Some e) \<Rightarrow>
               if client_error e then (now2, w2, Finished (Some e))
               else (case dl_Remove dl tempPath now2 w2 of
                       (now3, w3, _) \<Rightarrow> attempts dl cx f tempPath left (attempt + 1) (Some e) now3 w3)))"

text \<open>The part of DownloadFile after the status is set: transfer, check, rename.\<close>

definition transfer :: "'w downloader \<Rightarrow> ctx \<Rightarrow> mfile \<Rightarrow> database \<Rightarrow> ('w, database \<times> bool) act" where
  "transfer dl cx f d now w =
     (let tempPath = path_join [path_dir (mf_LocalPath f), ''.download-'' @ path_base (mf_LocalPath f)];
          fail = (\<lambda>msg now w. (now, w, ctx_db cx now (updateError (mf_ID f) msg) d, False))
      in case attempts dl cx f tempPath (nat maxRetries) 0 None now w of
           (now1, w1, CancelledInBackoff) \<Rightarrow> fail ''download cancelled during retry backoff'' now1 w1
         | (now1, w1, Finished (Some e)) \<Rightarrow> fail (case e of HttpError code \<Rightarrow> ''HTTP '' @ format_int code @ '' from '' @ mf_DownloadURL f | DlErr s \<Rightarrow> s) now1 w1
         | (now1, w1, Finished None) \<Rightarrow>
             (case dl_VerifyIntegrity dl tempPath now1 w1 of
                (now2, w2, Some e) \<Rightarrow> fail (''integrity check failed: '' @ e) now2 w2
              | (now2, w2, None) \<Rightarrow>
                  (case dl_Rename dl tempPath (mf_LocalPath f) now2 w2 of
                     (now3, w3, Some e) \<Rightarrow> fail (''rename failed: '' @ e) now3 w3
                   | (now3, w3, None) \<Rightarrow>
                       if ctx_Err cx now3 = None then
                         (case file_UpdateStatus (mf_ID f) ''complete'' [] d of
                            (d', Inl e) \<Rightarrow> (now3, w3, d', False)
                          | (d', Inr u) \<Rightarrow> (now3, w3, d', True))
                       else (now3, w3, d, False))))"

definition DownloadFile :: "'w downloader \<Rightarrow> ctx \<Rightarrow> mfile \<Rightarrow> database \<Rightarrow> ('w, database \<times> bool) act" where
  "DownloadFile dl cx f d now w =
     (case dl_acquire dl cx now w of
        (now1, w1, False) \<Rightarrow> (now1, w1, d, False)
      | (now1, w1, True) \<Rightarrow>
          (case dl_MkdirAll dl (path_dir (mf_LocalPath f)) now1 w1 of
             (now2, w2, False) \<Rightarrow> (now2, w2, d, False)
           | (now2, w2, True) \<Rightarrow>
               (case (if sint (mf_SizeBytes f) > 0 then dl_CheckDiskSpace dl (mf_SizeBytes f) now2 w2 else (now2, w2, True)) of
                  (now3, w3, False) \<Rightarrow> (now3, w3, d, False)
                | (now3, w3, True) \<Rightarrow>
                    if ctx_Err cx now3 \<noteq> None then (now3, w3, d, False)
                    else (case file_UpdateStatus (mf_ID f) ''downloading'' [] d of
                            (d1, Inl e) \<Rightarrow> (now3, w3, d1, False)
                          | (d1, Inr u) \<Rightarrow> transfer dl cx f d1 now3 w3))))"

section \<open>Facts\<close>

text \<open>The timeout of an attempt lies between its two bounds, whatever the size, also when the product
  wraps around.\<close>

lemma timeout_bounds:
  "300000000000 \<le> sint (downloadAttemptTimeoutForSize n) \<and> sint (downloadAttemptTimeoutForSize n) \<le> 7200000000000"
proof -
  have "sint (300000000000 :: 64 word) = 300000000000" "sint (7200000000000 :: 64 word) = 7200000000000" by code_simp+
  then show ?thesis by (simp add: downloadAttemptTimeoutForSize_def Let_def)
qed

text \<open>A download changes one row only, and of that row only what tells how the download went.\<close>

definition same_file :: "file_row \<Rightarrow> file_row \<Rightarrow> bool" where
  "same_file f g \<longleftrightarrow> (\<exists>st msg n t. g = f\<lparr>f_status := st, f_error_message := msg, f_retry_count := n, f_last_attempt_at := t\<rparr>)"

definition touches :: "int \<Rightarrow> database \<Rightarrow> database \<Rightarrow> bool" where
  "touches i d d' \<longleftrightarrow> (\<exists>g. (\<forall>f. same_file f (g f)) \<and> d' = d\<lparr>t_files := upd_row f_id i g (t_files d)\<rparr>)"

lemma same_file_refl [simp]: "same_file f f"
  unfolding same_file_def by (rule exI [of _ "f_status f"], rule exI [of _ "f_error_message f"], rule exI [of _ "f_retry_count f"],
    rule exI [of _ "f_last_attempt_at f"]) simp

lemma same_file_trans: "same_file f g \<Longrightarrow> same_file g h \<Longrightarrow> same_file f h"
  unfolding same_file_def by (elim exE) (simp, blast)

lemma same_fileD:
  assumes "same_file f g"
  shows "f_id g = f_id f" "f_project_id g = f_project_id f" "f_filename g = f_filename f" "f_version g = f_version f" "f_local_path g = f_local_path f"
    "f_source_type g = f_source_type f" "f_os g = f_os f" "f_arch g = f_arch f" "f_ext g = f_ext f" "f_size_bytes g = f_size_bytes f"
    "f_download_url g = f_download_url f" "f_checksum g = f_checksum f"
  using assms by (auto simp: same_file_def)

lemma touches_refl: "touches i d d"
  unfolding touches_def by (rule exI [of _ "\<lambda>f. f"]) (simp add: upd_row_def)

lemma upd_row_comp: "(\<And>r. key (g r) = key r) \<Longrightarrow> upd_row key i h (upd_row key i g rows) = upd_row key i (h \<circ> g) rows"
  by (simp add: upd_row_def)

lemma touches_trans:
  assumes "touches i d d'" "touches i d' d''"
  shows "touches i d d''"
proof -
  from assms(1) obtain g where g: "\<forall>f. same_file f (g f)" "d' = d\<lparr>t_files := upd_row f_id i g (t_files d)\<rparr>" unfolding touches_def by blast
  from assms(2) obtain h where h: "\<forall>f. same_file f (h f)" "d'' = d'\<lparr>t_files := upd_row f_id i h (t_files d')\<rparr>" unfolding touches_def by blast
  have "f_id (g r) = f_id r" for r using g(1) same_fileD(1) by blast
  then have "d'' = d\<lparr>t_files := upd_row f_id i (h \<circ> g) (t_files d)\<rparr>" by (simp add: g(2) h(2) upd_row_comp)
  moreover have "\<forall>f. same_file f ((h \<circ> g) f)" using g(1) h(1) same_file_trans by (metis comp_apply)
  ultimately show ?thesis unfolding touches_def by blast
qed

lemma touchesI: "(\<And>f. same_file f (g f)) \<Longrightarrow> touches i d (d\<lparr>t_files := upd_row f_id i g (t_files d)\<rparr>)"
  unfolding touches_def by blast

lemma touches_update: "(\<And>f. same_file f (g f)) \<Longrightarrow> touches i d (fst (update_file i g d))"
  by (simp add: update_file_def touches_refl touchesI)

lemma same_file_status [simp]:
  "same_file f (f\<lparr>f_status := st, f_error_message := msg\<rparr>)"
  "same_file f (f\<lparr>f_retry_count := n, f_status := st, f_error_message := msg, f_last_attempt_at := t\<rparr>)"
  unfolding same_file_def
  by (rule exI [of _ st], rule exI [of _ msg], rule exI [of _ "f_retry_count f"], rule exI [of _ "f_last_attempt_at f"], simp)
    (rule exI [of _ st], rule exI [of _ msg], rule exI [of _ n], rule exI [of _ t], simp)

lemma updateError_touches: "touches i d (updateError i msg d)"
proof -
  let ?d1 = "fst (file_IncrementRetryCount i msg d)"
  have 1: "touches i d ?d1" by (simp add: file_IncrementRetryCount_def Let_def touchesI)
  have "touches i ?d1 (fst (file_MarkFailedPermanent i ?d1))" by (simp add: file_MarkFailedPermanent_def touches_update)
  then have 2: "touches i d (fst (file_MarkFailedPermanent i ?d1))" by (rule touches_trans [OF 1])
  obtain d1 r where r: "file_IncrementRetryCount i msg d = (d1, r)" by fastforce
  then show ?thesis using 1 2 by (cases r) (simp_all add: updateError_def)
qed

lemma updateError_ok: "files_ok d \<Longrightarrow> files_ok (updateError i msg d)"
proof -
  assume "files_ok d"
  then have 1: "files_ok (fst (file_IncrementRetryCount i msg d))" using file_exec_ok [of d "FIncrementRetry i msg"] by simp
  then have 2: "files_ok (fst (file_MarkFailedPermanent i (fst (file_IncrementRetryCount i msg d))))"
    using file_exec_ok [OF 1, of "FMarkFailed i"] by simp
  obtain d1 r where "file_IncrementRetryCount i msg d = (d1, r)" by fastforce
  then show ?thesis using 1 2 by (cases r) (simp_all add: updateError_def)
qed

lemma ctx_db_cases: "ctx_db cx now f d = d \<or> ctx_db cx now f d = f d"
  by (simp add: ctx_db_def)

text \<open>How a database is after a download that succeeded, or not.\<close>

definition not_done :: "int \<Rightarrow> database \<Rightarrow> bool" where
  "not_done i d \<longleftrightarrow> (\<forall>r \<in> set (t_files d). f_id r = i \<longrightarrow> f_status r \<noteq> ''complete'')"

lemma not_done_upd:
  assumes "not_done i d" "\<And>f. f_id (g f) = f_id f" "\<And>f. f_status f \<noteq> ''complete'' \<Longrightarrow> f_status (g f) \<noteq> ''complete''"
  shows "not_done i (d\<lparr>t_files := upd_row f_id i g (t_files d)\<rparr>)"
proof -
  have "f_status q \<noteq> ''complete''" if q: "q \<in> set (upd_row f_id i g (t_files d))" "f_id q = i" for q
  proof -
    obtain f where f: "f \<in> set (t_files d)" "q = (if f_id f = i then g f else f)" using q(1) unfolding set_upd_row by blast
    show ?thesis
    proof (cases "f_id f = i")
      case True
      then show ?thesis using assms(1, 3) f unfolding not_done_def by simp
    next
      case False
      then show ?thesis using f(2) q(2) by simp
    qed
  qed
  then show ?thesis by (simp add: not_done_def)
qed

lemma not_done_update:
  "not_done i d \<Longrightarrow> (\<And>f. f_id (g f) = f_id f) \<Longrightarrow> (\<And>f. f_status f \<noteq> ''complete'' \<Longrightarrow> f_status (g f) \<noteq> ''complete'') \<Longrightarrow>
   not_done i (fst (update_file i g d))"
  by (simp add: update_file_def not_done_upd)

lemma not_done_updateError: "not_done i d \<Longrightarrow> not_done i (updateError i msg d)"
proof -
  assume d: "not_done i d"
  have 1: "not_done i (fst (file_IncrementRetryCount i msg d))"
    unfolding file_IncrementRetryCount_def Let_def fst_conv by (rule not_done_upd [OF d]) simp_all
  have 2: "not_done i (fst (file_MarkFailedPermanent i (fst (file_IncrementRetryCount i msg d))))"
    unfolding file_MarkFailedPermanent_def by (rule not_done_update [OF 1]) simp_all
  obtain d1 r where "file_IncrementRetryCount i msg d = (d1, r)" by fastforce
  then show ?thesis using 1 2 by (cases r) (simp_all add: updateError_def)
qed

definition downloaded :: "int \<Rightarrow> database \<Rightarrow> bool \<Rightarrow> database \<Rightarrow> bool" where
  "downloaded i d ok d' \<longleftrightarrow> touches i d d' \<and> (files_ok d \<longrightarrow> files_ok d') \<and>
     (ok \<longrightarrow> (\<forall>r \<in> set (t_files d'). f_id r = i \<longrightarrow> f_status r = ''complete'')) \<and> (\<not> ok \<longrightarrow> not_done i d \<longrightarrow> not_done i d')"

lemma downloaded_same: "downloaded i d False d"
  by (simp add: downloaded_def touches_refl)

lemma downloaded_error: "downloaded i d False (ctx_db cx now (updateError i msg) d)"
  using ctx_db_cases [of cx now "updateError i msg" d] by (auto simp: downloaded_def touches_refl updateError_touches updateError_ok not_done_updateError)

lemma downloaded_status:
  assumes "file_UpdateStatus i st msg d = (d', r)"
  shows "downloaded i d (st = ''complete'' \<and> \<not> isl r) d'"
proof -
  have "touches i d d'" using touches_update [of "\<lambda>f. f\<lparr>f_status := st, f_error_message := msg\<rparr>" i d] assms by (simp add: file_UpdateStatus_def)
  moreover have "files_ok d \<Longrightarrow> files_ok d'" using file_exec_ok [of d "FUpdateStatus i st msg"] assms by simp
  moreover have "f_status q = st" if a: "\<not> isl r" and b: "q \<in> set (t_files d')" and c: "f_id q = i" for q
  proof -
    have "t_files d' = upd_row f_id i (\<lambda>f. f\<lparr>f_status := st, f_error_message := msg\<rparr>) (t_files d)"
      using assms a by (simp add: file_UpdateStatus_def update_file_def split: if_splits) (elim conjE, hypsubst, simp)+
    with b have "q \<in> (\<lambda>f. if f_id f = i then f\<lparr>f_status := st, f_error_message := msg\<rparr> else f) ` set (t_files d)" by (simp add: upd_row_def)
    then show ?thesis
    proof (rule imageE)
      fix f assume f: "q = (if f_id f = i then f\<lparr>f_status := st, f_error_message := msg\<rparr> else f)"
      show ?thesis using c unfolding f by (cases "f_id f = i") simp_all
    qed
  qed
  moreover have "not_done i d'" if a: "\<not> (st = ''complete'' \<and> \<not> isl r)" and d: "not_done i d"
  proof (cases "isl r")
    case True
    then have "d' = d" using assms by (simp add: file_UpdateStatus_def update_file_def split: if_splits) (elim conjE, hypsubst, simp)+
    then show ?thesis using d by simp
  next
    case False
    then have "not_done i (fst (file_UpdateStatus i st msg d))"
      unfolding file_UpdateStatus_def using a by (intro not_done_update [OF d]) simp_all
    then show ?thesis using assms by simp
  qed
  ultimately show ?thesis unfolding downloaded_def by blast
qed

lemma downloaded_started: "file_UpdateStatus i ''downloading'' [] d = (d1, r) \<Longrightarrow> downloaded i d False d1"
  using downloaded_status [of i "''downloading''" "[]" d d1 r] by simp

lemma downloaded_trans: "downloaded i d False d' \<Longrightarrow> downloaded i d' ok' d'' \<Longrightarrow> downloaded i d ok' d''"
  unfolding downloaded_def using touches_trans by blast

lemma transfer_result:
  assumes "transfer dl cx f d now w = (now', w', d', ok)"
  shows "downloaded (mf_ID f) d ok d'"
  using assms unfolding transfer_def Let_def
  by (auto simp: downloaded_error downloaded_same dest!: downloaded_status
      split: prod.splits attempts_end.splits option.splits if_splits sum.splits)

lemma DownloadFile_result:
  assumes "DownloadFile dl cx f d now w = (now', w', d', ok)"
  shows "downloaded (mf_ID f) d ok d'"
  using assms unfolding DownloadFile_def
  by (auto simp: downloaded_same dest: transfer_result downloaded_started downloaded_trans split: prod.splits bool.splits if_splits sum.splits)

end
