(* ===== verification/Crawl_Manager.thy ===== *)
theory Crawl_Manager
  imports File_Service Scheduler
begin

text \<open>
  The crawl manager, src/internal/crawler/manager.go, and the crawl log, src/internal/db/repo_crawl_log.go.
  A crawl resolves its project, fetches the releases (\<open>Crawl_Retry\<close>), registers and downloads the
  new ones (\<open>File_Repo\<close>, \<open>File_Service\<close>) and closes its log entry. The source registry, the JSON
  decoding of project settings and filepath.Match are parameters, fields of \<open>crawl_env\<close>. The mutex of
  a project is its name in \<open>cm_busy\<close>. Metrics and logging are left out.
\<close>

section \<open>The crawl log\<close>

record crawl_log =
  cl_id :: int
  cl_project_id :: int
  cl_started_at :: int
  cl_finished_at :: "int option"
  cl_status :: string
  cl_versions_found :: int
  cl_files_downloaded :: int
  cl_error_message :: string

record crawl_state =
  cm_db :: database
  cm_logs :: "crawl_log list"
  cm_seq :: int
  cm_busy :: "string list"

definition crawl_statuses :: "string list" where
  "crawl_statuses = [''running'', ''success'', ''error'', ''rate_limited'', ''network_error'']"

fun status_string :: "crawl_status \<Rightarrow> string" where
  "status_string CrawlStatusRunning = ''running''"
| "status_string CrawlStatusSuccess = ''success''"
| "status_string CrawlStatusError = ''error''"
| "status_string CrawlStatusRateLimited = ''rate_limited''"
| "status_string CrawlStatusNetworkError = ''network_error''"

definition crawlLog_Create :: "int \<Rightarrow> int \<Rightarrow> string \<Rightarrow> crawl_state \<Rightarrow> crawl_state \<times> (sql_err + int)" where
  "crawlLog_Create projectID startedAt status s =
     (if status \<notin> set crawl_statuses then (s, Inl (CheckViolation ''crawl_logs.status''))
      else if \<not> has_row p_id (t_projects (cm_db s)) projectID then (s, Inl (ForeignKey ''crawl_logs.project_id''))
      else let i = cm_seq s + 1 in
        (s\<lparr>cm_logs := cm_logs s @ [\<lparr>cl_id = i, cl_project_id = projectID, cl_started_at = startedAt, cl_finished_at = None,
             cl_status = status, cl_versions_found = 0, cl_files_downloaded = 0, cl_error_message = []\<rparr>], cm_seq := i\<rparr>, Inr i))"

definition crawlLog_UpdateFinished :: "int \<Rightarrow> string \<Rightarrow> int \<Rightarrow> int \<Rightarrow> string \<Rightarrow> crawl_state \<Rightarrow> crawl_state" where
  "crawlLog_UpdateFinished i status versionsFound filesDownloaded errorMsg s =
     (if has_row cl_id (cm_logs s) i \<and> status \<notin> set crawl_statuses then s
      else s\<lparr>cm_logs := upd_row cl_id i (\<lambda>l. l\<lparr>cl_finished_at := Some (sql_now (cm_db s)), cl_status := status,
             cl_versions_found := versionsFound, cl_files_downloaded := filesDownloaded, cl_error_message := errorMsg\<rparr>) (cm_logs s)\<rparr>)"

definition crawlLog_ListByProject :: "int \<Rightarrow> int \<Rightarrow> crawl_state \<Rightarrow> crawl_log list" where
  "crawlLog_ListByProject projectID limit s =
     take (nat (if limit \<le> 0 then 20 else limit)) (sort_key_desc cl_id (filter (\<lambda>l. cl_project_id l = projectID) (cm_logs s)))"

definition crawlLog_ListRecent :: "int \<Rightarrow> crawl_state \<Rightarrow> crawl_log list" where
  "crawlLog_ListRecent limit s =
     take (nat (if limit \<le> 0 then 50 else if limit > 200 then 200 else limit)) (sort_key_desc cl_started_at (cm_logs s))"

definition crawlLog_LatestPerProject :: "crawl_state \<Rightarrow> (int \<times> crawl_log) list" where
  "crawlLog_LatestPerProject s =
     map (\<lambda>p. (p, hd (sort_key_desc cl_id (filter (\<lambda>l. cl_project_id l = p) (cm_logs s))))) (remdups (map cl_project_id (cm_logs s)))"

section \<open>The manager\<close>

record releaseAsset =
  ra_Version :: string
  ra_Filename :: string
  ra_OS :: string
  ra_Arch :: string
  ra_Ext :: string
  ra_DownloadURL :: string
  ra_SizeBytes :: "64 word"
  ra_Checksum :: string

record projectSettings =
  ps_CrawlInterval :: "64 word"
  ps_GitHubOwner :: string
  ps_GitHubRepo :: string
  ps_FilterPatterns :: "string list"

text \<open>\<open>ce_settings\<close> decodes a config column into settings, \<open>ce_config\<close> into its entries with string
  values, \<open>ce_subdir\<close> into its storage subdirectory; each may fail.\<close>

record 'w crawl_env =
  ce_retry :: retryConfig
  ce_jitter :: jitter
  ce_settings :: "string \<Rightarrow> projectSettings option"
  ce_config :: "string \<Rightarrow> (string \<times> string) list option"
  ce_subdir :: "string \<Rightarrow> string option"
  ce_fetchFunc :: "string \<Rightarrow> string \<Rightarrow> (string \<rightharpoonup> string) \<Rightarrow> ('w, releaseAsset list) fetch"
  ce_match :: "string \<Rightarrow> string \<Rightarrow> bool"
  ce_parseDuration :: "string \<Rightarrow> 64 word option"
  ce_crawler :: crawler_config
  ce_basePath :: string
  ce_dl :: "'w downloader"

definition GetSettings :: "'w crawl_env \<Rightarrow> int \<Rightarrow> database \<Rightarrow> projectSettings option" where
  "GetSettings ce projectID d =
     (case row_by p_id (t_projects d) projectID of None \<Rightarrow> None | Some p \<Rightarrow> ce_settings ce (p_config p))"

definition parseCrawlInterval :: "'w crawl_env \<Rightarrow> project \<Rightarrow> database \<Rightarrow> 64 word" where
  "parseCrawlInterval ce proj d =
     (let default = (case ce_parseDuration ce (cc_DefaultInterval (ce_crawler ce)) of None \<Rightarrow> 6 * 3600 * 1000000000 | Some i \<Rightarrow> i) in
      case GetSettings ce (p_id proj) d of
        Some st \<Rightarrow> if sint (ps_CrawlInterval st) > 0 then ps_CrawlInterval st * 1000000000 else default
      | None \<Rightarrow> default)"

text \<open>Start and ReloadProjects, as the calls they make on the scheduler.\<close>

definition startProjects :: "'w crawl_env \<Rightarrow> database \<Rightarrow> sched_label list" where
  "startProjects ce d =
     map (\<lambda>p. LStart (p_name p) (sint (parseCrawlInterval ce p d)))
       (filter (\<lambda>p. p_source_type p \<noteq> ''manual_upload'') (project_ListEnabled (ce_subdir ce) d))"

definition ReloadProjects :: "'w crawl_env \<Rightarrow> database \<Rightarrow> sched_label list" where
  "ReloadProjects ce d = LStopAll # startProjects ce d"

definition projectFilterPatterns :: "'w crawl_env \<Rightarrow> project \<Rightarrow> database \<Rightarrow> string list" where
  "projectFilterPatterns ce proj d = (case GetSettings ce (p_id proj) d of None \<Rightarrow> [] | Some st \<Rightarrow> ps_FilterPatterns st)"

definition matchAnyGlob :: "'w crawl_env \<Rightarrow> string \<Rightarrow> string list \<Rightarrow> bool" where
  "matchAnyGlob ce name patterns \<longleftrightarrow> list_ex (\<lambda>p. ce_match ce (to_lower p) (to_lower name)) patterns"

definition hashicorpProductFromURL :: "string \<Rightarrow> string" where
  "hashicorpProductFromURL sourceURL = (let u = trim_char CHR ''/'' sourceURL in if u = [] then [] else path_base u)"

definition getParams :: "'w crawl_env \<Rightarrow> project \<Rightarrow> database \<Rightarrow> string \<rightharpoonup> string" where
  "getParams ce proj d =
     (let m1 = (case GetSettings ce (p_id proj) d of
                  None \<Rightarrow> Map.empty
                | Some st \<Rightarrow> [''owner'' \<mapsto> ps_GitHubOwner st, ''repo'' \<mapsto> ps_GitHubRepo st]);
          product = hashicorpProductFromURL (p_source_url proj);
          m2 = (if p_source_type proj = ''hashicorp'' \<and> (m1 ''owner'' = None \<or> m1 ''owner'' = Some []) \<and> product \<noteq> []
                then m1(''owner'' \<mapsto> product) else m1)
      in if p_config proj = [] then m2
         else case ce_config ce (p_config proj) of
                None \<Rightarrow> m2
              | Some cfg \<Rightarrow>
                  m2 ++ map_of (filter (\<lambda>(k, v). k \<noteq> ''fingerprint_yaml'' \<and> k \<noteq> ''fingerprint'' \<or> v \<noteq> []) cfg))"

datatype crawl_err = ErrCrawlInProgress | ErrVirtualProject | ProjectNotFound | CrawlCtx ctx_err | CrawlSql sql_err | FetchFailed retry_err

record crawlResult =
  cr_ProjectName :: string
  cr_Status :: crawl_status
  cr_VersionsFound :: int
  cr_FilesDownloaded :: int
  cr_NewAssets :: "releaseAsset list"

definition failed_result :: "string \<Rightarrow> crawl_status \<Rightarrow> crawlResult" where
  "failed_result name st = \<lparr>cr_ProjectName = name, cr_Status = st, cr_VersionsFound = 0, cr_FilesDownloaded = 0, cr_NewAssets = []\<rparr>"

definition resolveCrawlSetup :: "'w crawl_env \<Rightarrow> ctx \<Rightarrow> string \<Rightarrow> int \<Rightarrow> crawl_state \<Rightarrow> crawl_state \<times> (crawl_err + project \<times> int)" where
  "resolveCrawlSetup ce cx projectName now s =
     (case ctx_Err cx now of
        Some e \<Rightarrow> (s, Inl (CrawlCtx e))
      | None \<Rightarrow>
          (case project_GetByName (ce_subdir ce) projectName (cm_db s) of
             None \<Rightarrow> (s, Inl ProjectNotFound)
           | Some proj \<Rightarrow>
               if p_source_type proj = ''manual_upload'' then (s, Inl ErrVirtualProject)
               else (case crawlLog_Create (p_id proj) now (status_string CrawlStatusRunning) s of
                       (s', Inl e) \<Rightarrow> (s', Inl (CrawlSql e))
                     | (s', Inr logID) \<Rightarrow> (s', Inr (proj, logID)))))"

definition err_message :: "retry_err \<Rightarrow> string" where
  "err_message e =
     (case e of FetchErr f \<Rightarrow> fe_msg f
      | CtxErr c \<Rightarrow> (case c of Canceled \<Rightarrow> ''context canceled'' | DeadlineExceeded \<Rightarrow> ''context deadline exceeded'')
      | SleepErr c f \<Rightarrow> (case c of Canceled \<Rightarrow> ''context canceled'' | DeadlineExceeded \<Rightarrow> ''context deadline exceeded'') @
          '' (during retry backoff): '' @ (case f of None \<Rightarrow> ''<nil>'' | Some g \<Rightarrow> fe_msg g))"

definition on_ctx :: "ctx \<Rightarrow> int \<Rightarrow> (crawl_state \<Rightarrow> crawl_state) \<Rightarrow> crawl_state \<Rightarrow> crawl_state" where
  "on_ctx cx now f s = (if ctx_Err cx now = None then f s else s)"

definition fetchReleases ::
  "'w crawl_env \<Rightarrow> ctx \<Rightarrow> project \<Rightarrow> int \<Rightarrow> string \<Rightarrow> crawl_state \<Rightarrow> ('w, crawl_state \<times> (retry_err \<times> crawl_status + releaseAsset list)) act" where
  "fetchReleases ce cx proj logID projectName s now w =
     (case fetchWithRetry (ce_jitter ce) cx (ce_retry ce) (ce_fetchFunc ce projectName (p_source_type proj) (getParams ce proj (cm_db s))) now w of
        (now1, w1, releases, Some err, cls) \<Rightarrow>
          (now1, w1, on_ctx cx now1 (crawlLog_UpdateFinished logID (status_string (classToStatus cls)) 0 0 (err_message err)) s,
           Inl (err, classToStatus cls))
      | (now1, w1, releases, None, cls) \<Rightarrow> (now1, w1, s, Inr (case releases of None \<Rightarrow> [] | Some rs \<Rightarrow> rs)))"

definition asset_path :: "'w crawl_env \<Rightarrow> project \<Rightarrow> string \<Rightarrow> releaseAsset \<Rightarrow> string" where
  "asset_path ce proj projectName a =
     path_join [ce_basePath ce, (if p_storage_subdir proj = [] then ''oss/'' @ projectName else p_storage_subdir proj), ra_Version a, ra_Filename a]"

definition asset_row :: "'w crawl_env \<Rightarrow> project \<Rightarrow> string \<Rightarrow> releaseAsset \<Rightarrow> file_row" where
  "asset_row ce proj projectName a =
     \<lparr>f_id = 0, f_project_id = p_id proj, f_version = ra_Version a, f_filename = ra_Filename a, f_os = ra_OS a, f_arch = ra_Arch a, f_ext = ra_Ext a,
      f_size_bytes = sint (ra_SizeBytes a), f_download_url = ra_DownloadURL a, f_local_path = asset_path ce proj projectName a,
      f_checksum = ra_Checksum a, f_status = ''pending'', f_error_message = [], f_created_at = 0, f_retry_count = 0, f_last_attempt_at = None,
      f_source_type = Some (p_source_type proj), f_category = None, f_storage_subdir = None, f_public_token = None\<rparr>"

text \<open>The body of the loop of processAssets: the asset is skipped, or registered and downloaded; True
  when it counts as downloaded.\<close>

definition process_asset :: "'w crawl_env \<Rightarrow> ctx \<Rightarrow> project \<Rightarrow> string \<Rightarrow> string list \<Rightarrow> releaseAsset \<Rightarrow> database \<Rightarrow> ('w, database \<times> bool) act" where
  "process_asset ce cx proj projectName patterns a d now w =
     (if patterns \<noteq> [] \<and> \<not> matchAnyGlob ce (ra_Filename a) patterns then (now, w, d, False)
      else if ctx_Err cx now \<noteq> None then (now, w, d, False)
      else case file_FindExisting (p_id proj) (ra_Filename a) d of
             Inl e \<Rightarrow> (now, w, d, False)
           | Inr (Some f) \<Rightarrow> (now, w, d, False)
           | Inr None \<Rightarrow>
               (case file_Create (asset_row ce proj projectName a) d of
                  (d1, Inl e) \<Rightarrow> (now, w, d1, False)
                | (d1, Inr fileID) \<Rightarrow>
                    DownloadFile (ce_dl ce) cx
                      \<lparr>mf_ID = fileID, mf_DownloadURL = ra_DownloadURL a, mf_LocalPath = asset_path ce proj projectName a, mf_SizeBytes = ra_SizeBytes a\<rparr>
                      d1 now w))"

fun processAssets :: "'w crawl_env \<Rightarrow> ctx \<Rightarrow> project \<Rightarrow> string \<Rightarrow> string list \<Rightarrow> releaseAsset list \<Rightarrow> database \<Rightarrow> ('w, database \<times> releaseAsset list) act" where
  "processAssets ce cx proj projectName patterns [] d now w = (now, w, d, [])"
| "processAssets ce cx proj projectName patterns (a # as) d now w =
     (case process_asset ce cx proj projectName patterns a d now w of
        (now1, w1, d1, ok) \<Rightarrow>
          (case processAssets ce cx proj projectName patterns as d1 now1 w1 of
             (now2, w2, d2, newAssets) \<Rightarrow> (now2, w2, d2, (if ok then a # newAssets else newAssets))))"

definition finalizeCrawl :: "ctx \<Rightarrow> project \<Rightarrow> int \<Rightarrow> releaseAsset list \<Rightarrow> releaseAsset list \<Rightarrow> string \<Rightarrow> int \<Rightarrow> crawl_state \<Rightarrow> crawl_state \<times> crawlResult" where
  "finalizeCrawl cx proj logID releases newAssets projectName now s =
     (on_ctx cx now (\<lambda>s. crawlLog_UpdateFinished logID (status_string CrawlStatusSuccess) (int (length releases)) (int (length newAssets)) []
        (s\<lparr>cm_db := project_UpdateLastCrawledAt (p_id proj)
             (if releases \<noteq> [] then project_UpdateLatestVersion (p_id proj) (ra_Version (hd releases)) (cm_db s) else cm_db s)\<rparr>)) s,
      \<lparr>cr_ProjectName = projectName, cr_Status = CrawlStatusSuccess, cr_VersionsFound = int (length releases),
       cr_FilesDownloaded = int (length newAssets), cr_NewAssets = newAssets\<rparr>)"

text \<open>A crawl under the lock of its project.\<close>

definition crawl_project :: "'w crawl_env \<Rightarrow> ctx \<Rightarrow> string \<Rightarrow> crawl_state \<Rightarrow> ('w, crawl_state \<times> crawlResult option \<times> crawl_err option) act" where
  "crawl_project ce cx projectName s now w =
     (case resolveCrawlSetup ce cx projectName now s of
        (s1, Inl e) \<Rightarrow> (now, w, s1, None, Some e)
      | (s1, Inr (proj, logID)) \<Rightarrow>
          (case fetchReleases ce cx proj logID projectName s1 now w of
             (now2, w2, s2, Inl (err, st)) \<Rightarrow> (now2, w2, s2, Some (failed_result projectName st), Some (FetchFailed err))
           | (now2, w2, s2, Inr releases) \<Rightarrow>
               (case processAssets ce cx proj projectName (projectFilterPatterns ce proj (cm_db s2)) releases (cm_db s2) now2 w2 of
                  (now3, w3, d3, newAssets) \<Rightarrow>
                    (case finalizeCrawl cx proj logID releases newAssets projectName now3 (s2\<lparr>cm_db := d3\<rparr>) of
                       (s4, res) \<Rightarrow> (now3, w3, s4, Some res, None)))))"

definition TriggerCrawl :: "'w crawl_env \<Rightarrow> ctx \<Rightarrow> string \<Rightarrow> crawl_state \<Rightarrow> ('w, crawl_state \<times> crawlResult option \<times> crawl_err option) act" where
  "TriggerCrawl ce cx projectName s now w =
     (if projectName \<in> set (cm_busy s)
      then (now, w, s, Some (failed_result projectName CrawlStatusError), Some ErrCrawlInProgress)
      else case crawl_project ce cx projectName (s\<lparr>cm_busy := projectName # cm_busy s\<rparr>) now w of
             (now1, w1, s1, r, e) \<Rightarrow> (now1, w1, s1\<lparr>cm_busy := remove1 projectName (cm_busy s1)\<rparr>, r, e))"

fun crawl_all :: "'w crawl_env \<Rightarrow> ctx \<Rightarrow> string list \<Rightarrow> crawl_state \<Rightarrow> ('w, crawl_state \<times> crawlResult list) act" where
  "crawl_all ce cx [] s now w = (now, w, s, [])"
| "crawl_all ce cx (n # ns) s now w =
     (case TriggerCrawl ce cx n s now w of
        (now1, w1, s1, r, e) \<Rightarrow>
          (case crawl_all ce cx ns s1 now1 w1 of
             (now2, w2, s2, rs) \<Rightarrow> (now2, w2, s2, (case r of Some x \<Rightarrow> x | None \<Rightarrow> failed_result n CrawlStatusError) # rs)))"

definition TriggerAllCrawls :: "'w crawl_env \<Rightarrow> ctx \<Rightarrow> crawl_state \<Rightarrow> ('w, crawl_state \<times> crawlResult list) act" where
  "TriggerAllCrawls ce cx s now w =
     (if ctx_Err cx now \<noteq> None then (now, w, s, [])
      else crawl_all ce cx (map p_name (filter (\<lambda>p. p_source_type p \<noteq> ''manual_upload'') (project_ListEnabled (ce_subdir ce) (cm_db s)))) s now w)"

section \<open>What a crawl does to the files\<close>

definition names_of :: "int \<Rightarrow> database \<Rightarrow> string set" where
  "names_of pid d = f_filename ` {f \<in> set (t_files d). f_project_id f = pid}"

definition wanted :: "'w crawl_env \<Rightarrow> string list \<Rightarrow> releaseAsset \<Rightarrow> bool" where
  "wanted ce patterns a \<longleftrightarrow> patterns = [] \<or> matchAnyGlob ce (ra_Filename a) patterns"

text \<open>Files of a project are added at the end of the table, under names the project does not have.\<close>

definition collected :: "int \<Rightarrow> database \<Rightarrow> file_row list \<Rightarrow> database \<Rightarrow> bool" where
  "collected pid d new d' \<longleftrightarrow> files_ok d' \<and> (\<exists>sq. d' = d\<lparr>t_files := t_files d @ new, seq_files := sq\<rparr>) \<and>
     (\<forall>f \<in> set new. f_project_id f = pid) \<and> distinct (map f_filename new) \<and> f_filename ` set new \<inter> names_of pid d = {}"

lemma collected_refl: "files_ok d \<Longrightarrow> collected pid d [] d"
  by (simp add: collected_def) (rule exI [of _ "seq_files d"], simp)

lemma collected_files:
  assumes "collected pid d new d'"
  shows "t_files d' = t_files d @ new" "t_projects d' = t_projects d" "files_ok d'"
proof -
  obtain sq where "d' = d\<lparr>t_files := t_files d @ new, seq_files := sq\<rparr>" using assms unfolding collected_def by blast
  then show "t_files d' = t_files d @ new" "t_projects d' = t_projects d" by simp_all
  show "files_ok d'" using assms by (simp add: collected_def)
qed

lemma collected_names:
  assumes "collected pid d new d'"
  shows "names_of pid d' = names_of pid d \<union> f_filename ` set new"
proof -
  have "\<forall>f \<in> set new. f_project_id f = pid" using assms by (simp add: collected_def)
  then have "{f \<in> set (t_files d @ new). f_project_id f = pid} = {f \<in> set (t_files d). f_project_id f = pid} \<union> set new"
    unfolding set_append by blast
  then show ?thesis unfolding names_of_def collected_files(1) [OF assms] by (simp only: image_Un)
qed

lemma collected_trans:
  assumes "collected pid d new1 d1" "collected pid d1 new2 d2"
  shows "collected pid d (new1 @ new2) d2"
proof -
  obtain sq1 where 1: "d1 = d\<lparr>t_files := t_files d @ new1, seq_files := sq1\<rparr>" using assms(1) unfolding collected_def by blast
  obtain sq2 where 2: "d2 = d1\<lparr>t_files := t_files d1 @ new2, seq_files := sq2\<rparr>" using assms(2) unfolding collected_def by blast
  have "d2 = d\<lparr>t_files := t_files d @ (new1 @ new2), seq_files := sq2\<rparr>" unfolding 2 by (simp add: 1)
  then have r: "\<exists>sq. d2 = d\<lparr>t_files := t_files d @ (new1 @ new2), seq_files := sq\<rparr>" by blast
  have c1: "\<forall>f \<in> set new1. f_project_id f = pid" "distinct (map f_filename new1)" "f_filename ` set new1 \<inter> names_of pid d = {}"
    using assms(1) by (simp_all add: collected_def)
  have c2: "\<forall>f \<in> set new2. f_project_id f = pid" "distinct (map f_filename new2)" using assms(2) by (simp_all add: collected_def)
  have n: "f_filename ` set new2 \<inter> (names_of pid d \<union> f_filename ` set new1) = {}"
    using assms(2) collected_names [OF assms(1)] by (simp add: collected_def)
  have "distinct (map f_filename (new1 @ new2))" using c1(2) c2(2) n unfolding map_append distinct_append set_map by blast
  moreover have "f_filename ` set (new1 @ new2) \<inter> names_of pid d = {}" using c1(3) n unfolding set_append image_Un by blast
  moreover have "\<forall>f \<in> set (new1 @ new2). f_project_id f = pid" using c1(1) c2(1) unfolding set_append by blast
  ultimately show ?thesis using collected_files(3) [OF assms(2)] r unfolding collected_def by blast
qed

text \<open>The download of a row just created leaves the other rows alone.\<close>

lemma touches_new:
  assumes "files_ok d" "f_id r = seq_files d + 1" "touches (seq_files d + 1) (d\<lparr>t_files := t_files d @ [r], seq_files := seq_files d + 1\<rparr>) d'"
  shows "\<exists>r'. same_file r r' \<and> d' = d\<lparr>t_files := t_files d @ [r'], seq_files := seq_files d + 1\<rparr>"
proof -
  obtain g where g: "\<forall>f. same_file f (g f)"
    "d' = d\<lparr>t_files := upd_row f_id (seq_files d + 1) g (t_files d @ [r]), seq_files := seq_files d + 1\<rparr>"
    using assms(3) by (auto simp: touches_def)
  have "seq_files d + 1 \<notin> f_id ` set (t_files d)" using assms(1) by (auto simp: files_ok_def keyed_def)
  then have "upd_row f_id (seq_files d + 1) g (t_files d @ [r]) = t_files d @ [g r]" using assms(2) by (simp add: upd_row_absent)
  then show ?thesis using g by metis
qed

lemma FindExisting_names:
  "file_FindExisting pid n d = Inr None \<Longrightarrow> n \<notin> names_of pid d"
  "file_FindExisting pid n d \<noteq> Inr None \<Longrightarrow> n \<in> names_of pid d"
proof -
  show "n \<notin> names_of pid d" if "file_FindExisting pid n d = Inr None"
    using that by (auto simp: file_FindExisting_def scan_opt_def names_of_def find_None_iff split: option.splits sum.splits)
  assume "file_FindExisting pid n d \<noteq> Inr None"
  then obtain f where "List.find (\<lambda>f. f_project_id f = pid \<and> f_filename f = n) (t_files d) = Some f"
    by (auto simp: file_FindExisting_def scan_opt_def split: option.splits)
  then show "n \<in> names_of pid d" using find_SomeD by (fastforce simp: names_of_def)
qed

text \<open>The row an asset has after its download.\<close>

definition row_of :: "'w crawl_env \<Rightarrow> project \<Rightarrow> string \<Rightarrow> releaseAsset \<Rightarrow> file_row \<Rightarrow> bool" where
  "row_of ce proj projectName a f \<longleftrightarrow> f_filename f = ra_Filename a \<and> f_version f = ra_Version a \<and> f_local_path f = asset_path ce proj projectName a \<and>
     f_os f = ra_OS a \<and> f_arch f = ra_Arch a \<and> f_ext f = ra_Ext a \<and> f_size_bytes f = sint (ra_SizeBytes a) \<and>
     f_download_url f = ra_DownloadURL a \<and> f_checksum f = ra_Checksum a \<and> f_source_type f = Some (p_source_type proj)"

lemma file_Create_asset:
  assumes "file_Create (asset_row ce proj projectName a) d = (d1, Inr i)"
  shows "\<exists>r. row_of ce proj projectName a r \<and> f_project_id r = p_id proj \<and> f_id r = seq_files d + 1 \<and> i = seq_files d + 1 \<and>
    f_status r = ''pending'' \<and> d1 = d\<lparr>t_files := t_files d @ [r], seq_files := seq_files d + 1\<rparr>"
proof -
  define r where "r = (asset_row ce proj projectName a)\<lparr>f_id := seq_files d + 1, f_error_message := [], f_created_at := sql_now d, f_retry_count := 0,
     f_last_attempt_at := None, f_category := None, f_storage_subdir := None, f_public_token := None\<rparr>"
  have "(d1, Inr i) = (d\<lparr>t_files := t_files d @ [r], seq_files := seq_files d + 1\<rparr>, Inr (seq_files d + 1) :: sql_err + int)"
    using assms unfolding file_Create_def r_def Let_def by (metis Inl_Inr_False prod.inject)
  then have "d1 = d\<lparr>t_files := t_files d @ [r], seq_files := seq_files d + 1\<rparr>" "i = seq_files d + 1" by simp_all
  moreover have "row_of ce proj projectName a r" "f_project_id r = p_id proj" "f_id r = seq_files d + 1" "f_status r = ''pending''" by (simp_all add: r_def row_of_def asset_row_def)
  ultimately show ?thesis by blast
qed

lemma file_Create_returns:
  "has_row p_id (t_projects d) (p_id proj) \<Longrightarrow> \<exists>d1 i. file_Create (asset_row ce proj projectName a) d = (d1, Inr i)"
  by (simp add: file_Create_def asset_row_def file_statuses_def Let_def)

lemma file_Create_fails: "file_Create f d = (d1, Inl e) \<Longrightarrow> d1 = d"
  by (simp add: file_Create_def Let_def split: if_splits)

lemma collected_new:
  assumes "files_ok d" "file_FindExisting (p_id proj) (ra_Filename a) d = Inr None"
    "file_Create (asset_row ce proj projectName a) d = (d1, Inr i)" "downloaded i d1 ok d'"
  shows "\<exists>r. collected (p_id proj) d [r] d' \<and> row_of ce proj projectName a r \<and> (ok \<longleftrightarrow> f_status r = ''complete'')"
proof -
  obtain r where r: "row_of ce proj projectName a r" "f_project_id r = p_id proj" "f_id r = seq_files d + 1" "i = seq_files d + 1"
    "f_status r = ''pending''" "d1 = d\<lparr>t_files := t_files d @ [r], seq_files := seq_files d + 1\<rparr>" using file_Create_asset [OF assms(3)] by blast
  have t: "touches i d1 d'" using assms(4) by (simp add: downloaded_def)
  obtain r' where r': "same_file r r'" "d' = d\<lparr>t_files := t_files d @ [r'], seq_files := seq_files d + 1\<rparr>"
    using touches_new [OF assms(1) r(3) t [unfolded r(4,6)]] by blast
  note sf = same_fileD [OF r'(1)]
  have "files_ok d1" using file_Create_ok [OF assms(1), of "asset_row ce proj projectName a"] assms(3) by simp
  then have ok': "files_ok d'" using assms(4) by (simp add: downloaded_def)
  have "f_filename r' \<notin> names_of (p_id proj) d" using FindExisting_names(1) [OF assms(2)] r(1) sf by (simp add: row_of_def)
  then have "collected (p_id proj) d [r'] d'" unfolding collected_def using ok' r'(2) r(2) sf(2) by simp blast
  moreover have "ok \<longleftrightarrow> f_status r' = ''complete''"
  proof (cases ok)
    case True
    then show ?thesis using assms(4) sf(1) r(3,4) by (simp add: downloaded_def r'(2))
  next
    case False
    have "i \<notin> f_id ` set (t_files d)" using assms(1) r(4) by (auto simp: files_ok_def keyed_def)
    then have "not_done i d1" using r(5) by (auto simp: not_done_def r(6))
    then have "not_done i d'" using False assms(4) by (simp add: downloaded_def)
    then show ?thesis using False sf(1) r(3,4) by (simp add: not_done_def r'(2))
  qed
  moreover have "row_of ce proj projectName a r'" using r(1) sf by (simp add: row_of_def)
  ultimately show ?thesis by blast
qed

lemma process_asset_result:
  assumes "files_ok d" "process_asset ce cx proj projectName patterns a d now w = (now', w', d', ok)"
  shows "\<exists>new. collected (p_id proj) d new d' \<and> list_all (\<lambda>f. wanted ce patterns a \<and> row_of ce proj projectName a f) new \<and>
    (ok \<longrightarrow> list_ex (\<lambda>f. row_of ce proj projectName a f \<and> f_status f = ''complete'') new)"
    and "wanted ce patterns a \<Longrightarrow> ctx_end cx = None \<Longrightarrow> has_row p_id (t_projects d) (p_id proj) \<Longrightarrow> ra_Filename a \<in> names_of (p_id proj) d'"
    and "ctx_end cx = None \<Longrightarrow> has_row p_id (t_projects d) (p_id proj) \<Longrightarrow>
      (if wanted ce patterns a \<and> ra_Filename a \<notin> names_of (p_id proj) d
       then \<exists>r. collected (p_id proj) d [r] d' \<and> row_of ce proj projectName a r \<and> (ok \<longleftrightarrow> f_status r = ''complete'')
       else d' = d \<and> \<not> ok)"
proof -
  let ?idle = "\<not> wanted ce patterns a \<or> ctx_Err cx now \<noteq> None \<or> file_FindExisting (p_id proj) (ra_Filename a) d \<noteq> Inr None \<or>
    (\<exists>d1 e. file_Create (asset_row ce proj projectName a) d = (d1, Inl e))"
  have idle: "d' = d \<and> \<not> ok" if ?idle
    using assms(2) that by (auto simp: process_asset_def wanted_def dest: file_Create_fails split: sum.splits option.splits if_splits)
  have busy: "\<exists>r. collected (p_id proj) d [r] d' \<and> row_of ce proj projectName a r \<and> (ok \<longleftrightarrow> f_status r = ''complete'')" if n: "\<not> ?idle"
  proof -
    obtain d1 i where c: "file_Create (asset_row ce proj projectName a) d = (d1, Inr i)" using n by (metis old.sum.exhaust surj_pair)
    have "downloaded i d1 ok d'" using assms(2) n c by (auto simp: process_asset_def wanted_def dest!: DownloadFile_result)
    then show ?thesis using collected_new [OF assms(1) _ c] n by blast
  qed
  show "\<exists>new. collected (p_id proj) d new d' \<and> list_all (\<lambda>f. wanted ce patterns a \<and> row_of ce proj projectName a f) new \<and>
    (ok \<longrightarrow> list_ex (\<lambda>f. row_of ce proj projectName a f \<and> f_status f = ''complete'') new)"
  proof (cases ?idle)
    case True
    then show ?thesis using idle collected_refl [OF assms(1), of "p_id proj"] by (intro exI [of _ "[]"]) simp
  next
    case False
    from busy [OF this] False show ?thesis by fastforce
  qed
  show "if wanted ce patterns a \<and> ra_Filename a \<notin> names_of (p_id proj) d
       then \<exists>r. collected (p_id proj) d [r] d' \<and> row_of ce proj projectName a r \<and> (ok \<longleftrightarrow> f_status r = ''complete'')
       else d' = d \<and> \<not> ok" if c: "ctx_end cx = None" "has_row p_id (t_projects d) (p_id proj)"
  proof (cases "wanted ce patterns a \<and> ra_Filename a \<notin> names_of (p_id proj) d")
    case True
    then have "\<not> ?idle" using c file_Create_returns [OF c(2), of ce projectName a] FindExisting_names(2) by (fastforce simp: ctx_Err_def)
    from busy [OF this] True show ?thesis by simp
  next
    case False
    then have ?idle using FindExisting_names(1) by blast
    from idle [OF this] show ?thesis unfolding if_not_P [OF False] .
  qed
  assume a: "wanted ce patterns a" "ctx_end cx = None" "has_row p_id (t_projects d) (p_id proj)"
  show "ra_Filename a \<in> names_of (p_id proj) d'"
  proof (cases ?idle)
    case True
    then have "file_FindExisting (p_id proj) (ra_Filename a) d \<noteq> Inr None"
      using a file_Create_returns [OF a(3), of ce projectName a] by (auto simp: ctx_Err_def)
    then show ?thesis using FindExisting_names(2) idle True by metis
  next
    case False
    from busy [OF this] obtain r where "collected (p_id proj) d [r] d'" "row_of ce proj projectName a r" by blast
    then show ?thesis using collected_names by (fastforce simp: row_of_def)
  qed
qed

lemma processAssets_result:
  assumes "files_ok d" "processAssets ce cx proj projectName patterns as d now w = (now', w', d', newAssets)"
  shows "\<exists>new. collected (p_id proj) d new d' \<and>
      list_all (\<lambda>f. list_ex (\<lambda>a. wanted ce patterns a \<and> row_of ce proj projectName a f) as) new \<and>
      list_all (\<lambda>a. list_ex (\<lambda>f. row_of ce proj projectName a f \<and> f_status f = ''complete'') new) newAssets"
    and "ctx_end cx = None \<Longrightarrow> has_row p_id (t_projects d) (p_id proj) \<Longrightarrow>
      list_all (\<lambda>a. wanted ce patterns a \<longrightarrow> ra_Filename a \<in> names_of (p_id proj) d') as"
  using assms
proof (induction as arbitrary: d now w newAssets)
  case Nil
  case 1
  then show ?case using collected_refl [of d "p_id proj"] by (intro exI [of _ "[]"]) simp
next
  case Nil
  case 2
  then show ?case by simp
next
  case (Cons a as)
  case 1
  obtain now1 w1 d1 ok where a: "process_asset ce cx proj projectName patterns a d now w = (now1, w1, d1, ok)" by (metis prod_cases4)
  obtain ns where r: "processAssets ce cx proj projectName patterns as d1 now1 w1 = (now', w', d', ns)" "newAssets = (if ok then a # ns else ns)"
    using 1 a by (auto split: prod.splits)
  obtain n1 where n1: "collected (p_id proj) d n1 d1" "list_all (\<lambda>f. wanted ce patterns a \<and> row_of ce proj projectName a f) n1"
    "ok \<longrightarrow> list_ex (\<lambda>f. row_of ce proj projectName a f \<and> f_status f = ''complete'') n1" using process_asset_result(1) [OF 1(1) a] by blast
  obtain n2 where n2: "collected (p_id proj) d1 n2 d'" "list_all (\<lambda>f. list_ex (\<lambda>a. wanted ce patterns a \<and> row_of ce proj projectName a f) as) n2"
    "list_all (\<lambda>a. list_ex (\<lambda>f. row_of ce proj projectName a f \<and> f_status f = ''complete'') n2) ns"
    using Cons.IH(1) [OF collected_files(3) [OF n1(1)] r(1)] by blast
  have "list_all (\<lambda>f. list_ex (\<lambda>a. wanted ce patterns a \<and> row_of ce proj projectName a f) (a # as)) (n1 @ n2)"
    unfolding list_all_append by (intro conjI list.pred_mono_strong [OF n1(2)] list.pred_mono_strong [OF n2(2)]) simp_all
  moreover have "list_all (\<lambda>a. list_ex (\<lambda>f. row_of ce proj projectName a f \<and> f_status f = ''complete'') (n1 @ n2)) newAssets"
    using n1(3) n2(3) unfolding r(2) list_ex_append by (cases ok) (simp_all add: list_all_iff)
  ultimately show ?case using collected_trans [OF n1(1) n2(1)] by blast
next
  case (Cons a as)
  case 2
  obtain now1 w1 d1 ok where a: "process_asset ce cx proj projectName patterns a d now w = (now1, w1, d1, ok)" by (metis prod_cases4)
  obtain ns where r: "processAssets ce cx proj projectName patterns as d1 now1 w1 = (now', w', d', ns)" using 2(4) a by (auto split: prod.splits)
  obtain n1 where n1: "collected (p_id proj) d n1 d1" using process_asset_result(1) [OF 2(3) a] by blast
  note d1 = collected_files [OF n1]
  obtain n2 where "collected (p_id proj) d1 n2 d'" using Cons.IH(1) [OF d1(3) r] by blast
  then have "names_of (p_id proj) d1 \<subseteq> names_of (p_id proj) d'" using collected_names by fastforce
  moreover have "wanted ce patterns a \<Longrightarrow> ra_Filename a \<in> names_of (p_id proj) d1" using process_asset_result(2) [OF 2(3) a] 2(1,2) by simp
  ultimately show ?case using Cons.IH(2) [OF 2(1) _ d1(3) r] 2(2) d1(2) by auto
qed

text \<open>The releases that a crawl collects: those that the patterns select, of each name the first one, and of no name
  that the project has a file for.\<close>

fun missing :: "'w crawl_env \<Rightarrow> string list \<Rightarrow> string set \<Rightarrow> releaseAsset list \<Rightarrow> releaseAsset list" where
  "missing ce patterns names [] = []"
| "missing ce patterns names (a # as) =
     (if wanted ce patterns a \<and> ra_Filename a \<notin> names then a # missing ce patterns (insert (ra_Filename a) names) as
      else missing ce patterns names as)"

definition finished_of :: "releaseAsset list \<Rightarrow> file_row list \<Rightarrow> releaseAsset list" where
  "finished_of as fs = map fst (filter (\<lambda>(a, f). f_status f = ''complete'') (zip as fs))"

lemma processAssets_exact:
  assumes "files_ok d" "ctx_end cx = None" "has_row p_id (t_projects d) (p_id proj)"
    "processAssets ce cx proj projectName patterns as d now w = (now', w', d', newAssets)"
  shows "\<exists>new. collected (p_id proj) d new d' \<and> list_all2 (row_of ce proj projectName) (missing ce patterns (names_of (p_id proj) d) as) new \<and>
    newAssets = finished_of (missing ce patterns (names_of (p_id proj) d) as) new"
  using assms(1, 3, 4)
proof (induction as arbitrary: d now w newAssets)
  case Nil
  then show ?case using collected_refl [of d "p_id proj"] by (intro exI [of _ "[]"]) (simp add: finished_of_def)
next
  case (Cons a as)
  obtain now1 w1 d1 ok where a: "process_asset ce cx proj projectName patterns a d now w = (now1, w1, d1, ok)" by (metis prod_cases4)
  obtain ns where ns: "processAssets ce cx proj projectName patterns as d1 now1 w1 = (now', w', d', ns)" "newAssets = (if ok then a # ns else ns)"
    using Cons.prems(3) a by (auto split: prod.splits)
  note P = process_asset_result(3) [OF Cons.prems(1) a assms(2) Cons.prems(2)]
  show ?case
  proof (cases "wanted ce patterns a \<and> ra_Filename a \<notin> names_of (p_id proj) d")
    case True
    with P obtain r where r: "collected (p_id proj) d [r] d1" "row_of ce proj projectName a r" "ok \<longleftrightarrow> f_status r = ''complete''" by auto
    note d1 = collected_files [OF r(1)]
    have names: "names_of (p_id proj) d1 = insert (ra_Filename a) (names_of (p_id proj) d)"
      using collected_names [OF r(1)] r(2) by (auto simp: row_of_def)
    obtain new where new: "collected (p_id proj) d1 new d'"
      "list_all2 (row_of ce proj projectName) (missing ce patterns (names_of (p_id proj) d1) as) new"
      "ns = finished_of (missing ce patterns (names_of (p_id proj) d1) as) new"
      using Cons.IH [OF d1(3) _ ns(1)] Cons.prems(2) d1(2) by auto
    have m: "missing ce patterns (names_of (p_id proj) d) (a # as) = a # missing ce patterns (names_of (p_id proj) d1) as"
      using True by (simp add: names)
    have "collected (p_id proj) d (r # new) d'" using collected_trans [OF r(1) new(1)] by simp
    moreover have "list_all2 (row_of ce proj projectName) (missing ce patterns (names_of (p_id proj) d) (a # as)) (r # new)"
      unfolding m using r(2) new(2) by simp
    moreover have "newAssets = finished_of (missing ce patterns (names_of (p_id proj) d) (a # as)) (r # new)"
      unfolding m ns(2) new(3) using r(3) by (simp add: finished_of_def)
    ultimately show ?thesis by blast
  next
    case False
    then have "d1 = d" "\<not> ok" using P by auto
    moreover have "missing ce patterns (names_of (p_id proj) d) (a # as) = missing ce patterns (names_of (p_id proj) d) as" using False by auto
    ultimately show ?thesis using Cons.IH [OF Cons.prems(1, 2)] ns by simp
  qed
qed

section \<open>What a crawl does to the log\<close>

definition logs_ok :: "crawl_state \<Rightarrow> bool" where
  "logs_ok s \<longleftrightarrow> 0 \<le> cm_seq s \<and> keyed cl_id (cm_logs s) (cm_seq s)"

definition open_log :: "int \<Rightarrow> int \<Rightarrow> int \<Rightarrow> crawl_log" where
  "open_log i pid now = \<lparr>cl_id = i, cl_project_id = pid, cl_started_at = now, cl_finished_at = None, cl_status = ''running'',
     cl_versions_found = 0, cl_files_downloaded = 0, cl_error_message = []\<rparr>"

lemma resolve_result:
  assumes "resolveCrawlSetup ce cx projectName now s = (s1, r)"
  shows "isl r \<Longrightarrow> s1 = s"
    and "r = Inr (proj, logID) \<Longrightarrow> \<exists>p. row_by p_name (t_projects (cm_db s)) projectName = Some p \<and> proj = scanProject (ce_subdir ce) p \<and>
      logID = cm_seq s + 1 \<and> s1 = s\<lparr>cm_logs := cm_logs s @ [open_log logID (p_id p) now], cm_seq := logID\<rparr>"
  using assms
  by (auto simp: resolveCrawlSetup_def crawlLog_Create_def project_GetByName_def open_log_def scanProject_def Let_def
      split: option.splits if_splits)

lemma finish_log:
  assumes "logs_ok s" "status \<in> set crawl_statuses"
  shows "crawlLog_UpdateFinished (cm_seq s + 1) status n k msg (s\<lparr>cm_db := d, cm_logs := cm_logs s @ [l], cm_seq := q, cm_busy := b\<rparr>) =
    s\<lparr>cm_db := d, cm_logs := cm_logs s @ [if cl_id l = cm_seq s + 1 then l\<lparr>cl_finished_at := Some (sql_now d), cl_status := status,
      cl_versions_found := n, cl_files_downloaded := k, cl_error_message := msg\<rparr> else l], cm_seq := q, cm_busy := b\<rparr>"
proof -
  have "cm_seq s + 1 \<notin> cl_id ` set (cm_logs s)" using assms(1) by (auto simp: logs_ok_def keyed_def)
  then show ?thesis using assms(2) by (simp add: crawlLog_UpdateFinished_def upd_row_absent)
qed

lemma status_string_ok: "status_string st \<in> set crawl_statuses"
  by (cases st) (simp_all add: crawl_statuses_def)

text \<open>The log entry of a crawl that ended at a time: closed with the result, or left running when the
  context had ended by then.\<close>

definition log_closed :: "ctx \<Rightarrow> int \<Rightarrow> crawlResult \<Rightarrow> crawl_log \<Rightarrow> bool" where
  "log_closed cx now res l \<longleftrightarrow>
     (if ctx_Err cx now = None
      then cl_finished_at l \<noteq> None \<and> cl_status l = status_string (cr_Status res) \<and> cl_versions_found l = cr_VersionsFound res \<and>
        cl_files_downloaded l = cr_FilesDownloaded res
      else cl_finished_at l = None \<and> cl_status l = ''running'')"

lemma close_log:
  assumes "logs_ok s" "cr_Status res = st" "cr_VersionsFound res = n" "cr_FilesDownloaded res = k"
  shows "\<exists>l. (if ctx_Err cx now = None
      then crawlLog_UpdateFinished (cm_seq s + 1) (status_string st) n k msg (s\<lparr>cm_db := d, cm_logs := cm_logs s @ [open_log (cm_seq s + 1) pid t], cm_seq := cm_seq s + 1, cm_busy := b\<rparr>)
      else s\<lparr>cm_db := d', cm_logs := cm_logs s @ [open_log (cm_seq s + 1) pid t], cm_seq := cm_seq s + 1, cm_busy := b\<rparr>) =
    s\<lparr>cm_db := (if ctx_Err cx now = None then d else d'), cm_logs := cm_logs s @ [l], cm_seq := cm_seq s + 1, cm_busy := b\<rparr> \<and>
    cl_id l = cm_seq s + 1 \<and> cl_project_id l = pid \<and> log_closed cx now res l"
proof (cases "ctx_Err cx now = None")
  case True
  let ?l = "(open_log (cm_seq s + 1) pid t)\<lparr>cl_finished_at := Some (sql_now d), cl_status := status_string st, cl_versions_found := n,
    cl_files_downloaded := k, cl_error_message := msg\<rparr>"
  have "crawlLog_UpdateFinished (cm_seq s + 1) (status_string st) n k msg (s\<lparr>cm_db := d, cm_logs := cm_logs s @ [open_log (cm_seq s + 1) pid t], cm_seq := cm_seq s + 1, cm_busy := b\<rparr>) =
    s\<lparr>cm_db := d, cm_logs := cm_logs s @ [?l], cm_seq := cm_seq s + 1, cm_busy := b\<rparr>"
    using finish_log [OF assms(1) status_string_ok] by (simp add: open_log_def)
  then show ?thesis using True assms(2-4) by (intro exI [of _ ?l]) (simp add: log_closed_def open_log_def)
next
  case False
  then have "log_closed cx now res (open_log (cm_seq s + 1) pid t)" by (simp add: log_closed_def open_log_def)
  then show ?thesis unfolding if_not_P [OF False] by (intro exI [of _ "open_log (cm_seq s + 1) pid t"]) (simp add: open_log_def)
qed

text \<open>A crawl under the lock, in terms of the database before and after.\<close>

lemma project_touch_ok:
  "files_ok d \<Longrightarrow> files_ok (project_UpdateLastCrawledAt i d)" "files_ok d \<Longrightarrow> files_ok (project_UpdateLatestVersion i v d)"
  by (simp_all add: project_UpdateLastCrawledAt_def project_UpdateLatestVersion_def files_ok_projects)

lemma project_touch_files [simp]:
  "t_files (project_UpdateLastCrawledAt i d) = t_files d" "t_files (project_UpdateLatestVersion i v d) = t_files d"
  by (simp_all add: project_UpdateLastCrawledAt_def project_UpdateLatestVersion_def)

definition crawl_outcome :: "'w crawl_env \<Rightarrow> ctx \<Rightarrow> string \<Rightarrow> crawl_state \<Rightarrow> int \<Rightarrow> crawl_state \<Rightarrow> crawlResult option \<Rightarrow> crawl_err option \<Rightarrow> bool" where
  "crawl_outcome ce cx projectName s now' s' r e \<longleftrightarrow>
     cm_busy s' = cm_busy s \<and>
     (cm_db s' = cm_db s \<and> cm_logs s' = cm_logs s \<and> cm_seq s' = cm_seq s \<and> r = None \<and> e \<noteq> None \<or>
     (\<exists>p l new res. row_by p_name (t_projects (cm_db s)) projectName = Some p \<and> r = Some res \<and>
        t_files (cm_db s') = t_files (cm_db s) @ new \<and> files_ok (cm_db s') \<and> (e \<noteq> None \<longrightarrow> cm_db s' = cm_db s) \<and>
        (\<forall>f \<in> set new. f_project_id f = p_id p) \<and> distinct (map f_filename new) \<and> f_filename ` set new \<inter> names_of (p_id p) (cm_db s) = {} \<and>
        cr_FilesDownloaded res = int (length (cr_NewAssets res)) \<and>
        list_all (\<lambda>a. list_ex (\<lambda>f. row_of ce (scanProject (ce_subdir ce) p) projectName a f \<and> f_status f = ''complete'') new) (cr_NewAssets res) \<and>
        cm_logs s' = cm_logs s @ [l] \<and> cm_seq s' = cm_seq s + 1 \<and> cl_id l = cm_seq s + 1 \<and> cl_project_id l = p_id p \<and>
        log_closed cx now' res l))"

lemma same_db_busy: "s\<lparr>cm_db := cm_db s, cm_logs := L, cm_seq := q, cm_busy := cm_busy s\<rparr> = s\<lparr>cm_logs := L, cm_seq := q\<rparr>" for s :: crawl_state
  by (cases s) simp

lemma db_first: "s\<lparr>cm_logs := L, cm_seq := q, cm_db := d\<rparr> = s\<lparr>cm_db := d, cm_logs := L, cm_seq := q\<rparr>" for s :: crawl_state
  by (cases s) simp

lemma same_busy: "s\<lparr>cm_db := d, cm_logs := L, cm_seq := q, cm_busy := cm_busy s\<rparr> = s\<lparr>cm_db := d, cm_logs := L, cm_seq := q\<rparr>" for s :: crawl_state
  by (cases s) simp

lemma crawl_failed:
  assumes "files_ok (cm_db s)" "logs_ok s" "row_by p_name (t_projects (cm_db s)) projectName = Some p"
  shows "crawl_outcome ce cx projectName s now1
    (on_ctx cx now1 (crawlLog_UpdateFinished (cm_seq s + 1) (status_string st) 0 0 msg)
      (s\<lparr>cm_logs := cm_logs s @ [open_log (cm_seq s + 1) (p_id p) now], cm_seq := cm_seq s + 1\<rparr>))
    (Some (failed_result projectName st)) (Some err)"
proof -
  let ?res = "failed_result projectName st"
  obtain l where l: "on_ctx cx now1 (crawlLog_UpdateFinished (cm_seq s + 1) (status_string st) 0 0 msg)
      (s\<lparr>cm_logs := cm_logs s @ [open_log (cm_seq s + 1) (p_id p) now], cm_seq := cm_seq s + 1\<rparr>) =
    s\<lparr>cm_logs := cm_logs s @ [l], cm_seq := cm_seq s + 1\<rparr>" "cl_id l = cm_seq s + 1" "cl_project_id l = p_id p" "log_closed cx now1 ?res l"
    using close_log [OF assms(2), where res = ?res and st = st and n = 0 and k = 0 and cx = cx and now = now1 and msg = msg and d = "cm_db s" and
      pid = "p_id p" and t = now and b = "cm_busy s" and d' = "cm_db s"]
    unfolding if_cancel same_db_busy by (auto simp: on_ctx_def failed_result_def)
  show ?thesis unfolding crawl_outcome_def l(1)
    using assms l(2-4) by (intro conjI disjI2 exI [of _ p] exI [of _ l] exI [of _ "[]"] exI [of _ ?res]) (simp_all add: failed_result_def)
qed

lemma crawl_succeeded:
  assumes "files_ok (cm_db s)" "logs_ok s" "row_by p_name (t_projects (cm_db s)) projectName = Some p"
    "proj = scanProject (ce_subdir ce) p" "collected (p_id p) (cm_db s) new d"
    "list_all (\<lambda>a. list_ex (\<lambda>f. row_of ce proj projectName a f \<and> f_status f = ''complete'') new) newAssets"
    "finalizeCrawl cx proj (cm_seq s + 1) releases newAssets projectName now1
      (s\<lparr>cm_db := d, cm_logs := cm_logs s @ [open_log (cm_seq s + 1) (p_id p) now], cm_seq := cm_seq s + 1\<rparr>) = (s', res)"
  shows "crawl_outcome ce cx projectName s now1 s' (Some res) None \<and> t_files (cm_db s') = t_files (cm_db s) @ new"
proof -
  define d2 where "d2 = project_UpdateLastCrawledAt (p_id proj)
    (if releases \<noteq> [] then project_UpdateLatestVersion (p_id proj) (ra_Version (hd releases)) d else d)"
  have d2: "files_ok d2" "t_files d2 = t_files d" using collected_files(3) [OF assms(5)] by (simp_all add: d2_def project_touch_ok)
  have res: "res = \<lparr>cr_ProjectName = projectName, cr_Status = CrawlStatusSuccess, cr_VersionsFound = int (length releases),
       cr_FilesDownloaded = int (length newAssets), cr_NewAssets = newAssets\<rparr>" using assms(7) by (simp add: finalizeCrawl_def)
  let ?d = "if ctx_Err cx now1 = None then d2 else d"
  have "fst (finalizeCrawl cx proj (cm_seq s + 1) releases newAssets projectName now1
      (s\<lparr>cm_db := d, cm_logs := cm_logs s @ [open_log (cm_seq s + 1) (p_id p) now], cm_seq := cm_seq s + 1\<rparr>)) =
    (if ctx_Err cx now1 = None
     then crawlLog_UpdateFinished (cm_seq s + 1) (status_string CrawlStatusSuccess) (int (length releases)) (int (length newAssets)) []
       (s\<lparr>cm_db := d2, cm_logs := cm_logs s @ [open_log (cm_seq s + 1) (p_id p) now], cm_seq := cm_seq s + 1\<rparr>)
     else s\<lparr>cm_db := d, cm_logs := cm_logs s @ [open_log (cm_seq s + 1) (p_id p) now], cm_seq := cm_seq s + 1\<rparr>)"
    by (simp add: finalizeCrawl_def on_ctx_def d2_def db_first)
  note e = this [unfolded assms(7) fst_conv]
  obtain l where l: "s' = s\<lparr>cm_db := ?d, cm_logs := cm_logs s @ [l], cm_seq := cm_seq s + 1\<rparr>"
    "cl_id l = cm_seq s + 1" "cl_project_id l = p_id p" "log_closed cx now1 res l"
    using close_log [OF assms(2), where res = res and st = CrawlStatusSuccess and n = "int (length releases)" and k = "int (length newAssets)" and
      cx = cx and now = now1 and msg = "[]" and d = d2 and pid = "p_id p" and t = now and b = "cm_busy s" and d' = d]
    unfolding same_busy e [symmetric] by (auto simp: res)
  have d: "files_ok ?d" "t_files ?d = t_files (cm_db s) @ new" using d2 collected_files [OF assms(5)] by simp_all
  have s': "cm_db s' = ?d" "cm_logs s' = cm_logs s @ [l]" "cm_seq s' = cm_seq s + 1" "cm_busy s' = cm_busy s" by (simp_all add: l(1))
  have c: "\<forall>f \<in> set new. f_project_id f = p_id p" "distinct (map f_filename new)" "f_filename ` set new \<inter> names_of (p_id p) (cm_db s) = {}"
    using assms(5) by (simp_all add: collected_def)
  have n: "cr_FilesDownloaded res = int (length (cr_NewAssets res))" "cr_NewAssets res = newAssets" by (simp_all add: res)
  have "crawl_outcome ce cx projectName s now1 s' (Some res) None" unfolding crawl_outcome_def
    by (intro conjI disjI2 exI [of _ p] exI [of _ l] exI [of _ new] exI [of _ res])
      (use assms(3,6) d c n l(2-4) in \<open>simp_all add: s' assms(4)\<close>)
  then show ?thesis using d(2) s'(1) by simp
qed

lemma crawl_project_result:
  assumes "files_ok (cm_db s)" "logs_ok s" "crawl_project ce cx projectName s now w = (now', w', s', r, e)"
  shows "crawl_outcome ce cx projectName s now' s' r e"
proof -
  obtain s1 x where x: "resolveCrawlSetup ce cx projectName now s = (s1, x)" by fastforce
  show ?thesis
  proof (cases x)
    case (Inl err)
    then show ?thesis using assms(3) x resolve_result(1) [OF x] by (auto simp: crawl_project_def crawl_outcome_def)
  next
    case (Inr pl)
    obtain proj logID where pl: "pl = (proj, logID)" by fastforce
    obtain p where p: "row_by p_name (t_projects (cm_db s)) projectName = Some p" "proj = scanProject (ce_subdir ce) p" "logID = cm_seq s + 1"
      "s1 = s\<lparr>cm_logs := cm_logs s @ [open_log logID (p_id p) now], cm_seq := logID\<rparr>"
      using resolve_result(2) [OF x Inr [unfolded pl]] by blast
    obtain now1 w1 rel er cls where f: "fetchWithRetry (ce_jitter ce) cx (ce_retry ce)
      (ce_fetchFunc ce projectName (p_source_type proj) (getParams ce proj (cm_db s))) now w = (now1, w1, rel, er, cls)" by (metis prod_cases5)
    show ?thesis
    proof (cases er)
      case (Some err)
      then show ?thesis using crawl_failed [OF assms(1,2) p(1)] assms(3) by (auto simp: crawl_project_def x Inr pl fetchReleases_def f p(3,4))
    next
      case None
      let ?rs = "case rel of None \<Rightarrow> [] | Some rs \<Rightarrow> rs"
      obtain now2 w2 d2 ns where a: "processAssets ce cx proj projectName (projectFilterPatterns ce proj (cm_db s)) ?rs (cm_db s) now1 w1 = (now2, w2, d2, ns)"
        by (metis prod_cases4)
      have "p_id proj = p_id p" by (simp add: p(2) scanProject_def)
      then obtain new where n: "collected (p_id p) (cm_db s) new d2"
        "list_all (\<lambda>a. list_ex (\<lambda>f. row_of ce proj projectName a f \<and> f_status f = ''complete'') new) ns"
        using processAssets_result(1) [OF assms(1) a] by auto
      obtain s4 res where z: "finalizeCrawl cx proj (cm_seq s + 1) ?rs ns projectName now2
        (s\<lparr>cm_db := d2, cm_logs := cm_logs s @ [open_log (cm_seq s + 1) (p_id p) now], cm_seq := cm_seq s + 1\<rparr>) = (s4, res)" by fastforce
      have "(now', w', s', r, e) = (now2, w2, s4, Some res, None)"
        using assms(3) z by (simp add: crawl_project_def x Inr pl fetchReleases_def f None p(3,4) a db_first)
      then show ?thesis using crawl_succeeded [OF assms(1,2) p(1,2) n z] by simp
    qed
  qed
qed

lemma crawl_outcome_unlock:
  assumes "crawl_outcome ce cx n (s\<lparr>cm_busy := n # cm_busy s\<rparr>) t s1 r e"
  shows "crawl_outcome ce cx n s t (s1\<lparr>cm_busy := remove1 n (cm_busy s1)\<rparr>) r e"
  using assms by (simp add: crawl_outcome_def)

lemma crawl_outcome_ok:
  assumes "crawl_outcome ce cx n s t s' r e" "files_ok (cm_db s)" "logs_ok s"
  shows "files_ok (cm_db s') \<and> logs_ok s' \<and> cm_busy s' = cm_busy s"
  using assms unfolding crawl_outcome_def logs_ok_def by (auto intro!: keyed_append)

lemma finished_of_rows:
  "list_all2 R as fs \<Longrightarrow> list_all (\<lambda>a. list_ex (\<lambda>f. R a f \<and> f_status f = ''complete'') fs) (finished_of as fs)"
proof (induction as fs rule: list_all2_induct)
  case (Cons a as f fs)
  then show ?case by (auto simp: finished_of_def list_all_iff)
qed (simp add: finished_of_def)

lemma missing_none: "list_all (\<lambda>a. wanted ce pats a \<longrightarrow> ra_Filename a \<in> names) rs \<Longrightarrow> missing ce pats names rs = []"
  by (induction rs) auto

lemma crawl_project_collects:
  assumes "files_ok (cm_db s)" "ctx_end cx = None" "row_by p_name (t_projects (cm_db s)) projectName = Some p"
    "p_source_type p \<noteq> ''manual_upload''" "proj = scanProject (ce_subdir ce) p"
    "fetchWithRetry (ce_jitter ce) cx (ce_retry ce) (ce_fetchFunc ce projectName (p_source_type p) (getParams ce proj (cm_db s))) now w = (now1, w1, Some rs, None, cls)"
    "logs_ok s" "crawl_project ce cx projectName s now w = (now', w', s', r, e)"
  shows "\<exists>new res. t_files (cm_db s') = t_files (cm_db s) @ new \<and> e = None \<and> r = Some res \<and>
      (\<forall>f \<in> set new. f_project_id f = p_id p) \<and>
      list_all2 (row_of ce proj projectName) (missing ce (projectFilterPatterns ce proj (cm_db s)) (names_of (p_id p) (cm_db s)) rs) new \<and>
      cr_NewAssets res = finished_of (missing ce (projectFilterPatterns ce proj (cm_db s)) (names_of (p_id p) (cm_db s)) rs) new \<and>
      list_all (\<lambda>a. wanted ce (projectFilterPatterns ce proj (cm_db s)) a \<longrightarrow> ra_Filename a \<in> names_of (p_id p) (cm_db s')) rs"
proof -
  let ?pats = "projectFilterPatterns ce proj (cm_db s)" and ?L = "cm_logs s @ [open_log (cm_seq s + 1) (p_id p) now]"
  have pid: "p_id proj = p_id p" "p_source_type proj = p_source_type p" by (simp_all add: assms(5) scanProject_def)
  have has: "has_row p_id (t_projects (cm_db s)) (p_id p)" using row_by_SomeD [OF assms(3)] by simp
  have c: "ctx_Err cx t = None" for t using assms(2) by (simp add: ctx_Err_def)
  have x: "resolveCrawlSetup ce cx projectName now s = (s\<lparr>cm_logs := ?L, cm_seq := cm_seq s + 1\<rparr>, Inr (proj, cm_seq s + 1))"
    using assms(3,4) has pid by (simp add: resolveCrawlSetup_def c project_GetByName_def assms(5) crawlLog_Create_def crawl_statuses_def open_log_def Let_def)
  obtain now2 w2 d2 ns where a: "processAssets ce cx proj projectName ?pats rs (cm_db s) now1 w1 = (now2, w2, d2, ns)" by (metis prod_cases4)
  obtain new where n: "collected (p_id p) (cm_db s) new d2"
    "list_all2 (row_of ce proj projectName) (missing ce ?pats (names_of (p_id p) (cm_db s)) rs) new"
    "ns = finished_of (missing ce ?pats (names_of (p_id p) (cm_db s)) rs) new"
    using processAssets_exact [OF assms(1,2) _ a] has pid by auto
  have fin: "list_all (\<lambda>a. list_ex (\<lambda>f. row_of ce proj projectName a f \<and> f_status f = ''complete'') new) ns"
    unfolding n(3) by (rule finished_of_rows [OF n(2)])
  have all: "list_all (\<lambda>a. wanted ce ?pats a \<longrightarrow> ra_Filename a \<in> names_of (p_id p) d2) rs"
    using processAssets_result(2) [OF assms(1) a assms(2)] has pid by simp
  obtain s4 res where z: "finalizeCrawl cx proj (cm_seq s + 1) rs ns projectName now2 (s\<lparr>cm_db := d2, cm_logs := ?L, cm_seq := cm_seq s + 1\<rparr>) = (s4, res)" by fastforce
  have s': "s' = s4" "e = None" "r = Some res"
    using assms(8) assms(6) z by (simp_all add: crawl_project_def x fetchReleases_def pid a db_first)
  have t: "t_files (cm_db s') = t_files (cm_db s) @ new" using crawl_succeeded [OF assms(1,7,3,5) n(1) fin z] s' by simp
  then have "names_of i (cm_db s') = names_of i d2" for i using collected_files(1) [OF n(1)] by (simp add: names_of_def)
  moreover have "cr_NewAssets res = ns" using z by (auto simp: finalizeCrawl_def)
  moreover have "\<forall>f \<in> set new. f_project_id f = p_id p" using n(1) by (simp add: collected_def)
  ultimately show ?thesis using t n(2,3) all s'(2,3) by auto
qed

section \<open>Properties\<close>

text \<open>
  C20: One crawl. A crawl of a project that is being crawled is refused without effect. Otherwise the
  lock is given back, and the crawl either fails before it has a log entry, without effect, or adds
  exactly one entry. It then adds files to this project only, under names the project did not have
  and each name once; none when it failed. The assets it reports as downloaded are among the new files and
  complete. The entry is closed with the status and counts of the result, unless the context has
  ended by then: the entry then stays running for ever.
\<close>
theorem TriggerCrawl_correct:
  assumes "files_ok (cm_db s)" "logs_ok s" "TriggerCrawl ce cx projectName s now w = (now', w', s', r, e)"
  shows "files_ok (cm_db s') \<and> logs_ok s' \<and> cm_busy s' = cm_busy s \<and>
    (if projectName \<in> set (cm_busy s) then s' = s \<and> e = Some ErrCrawlInProgress
     else crawl_outcome ce cx projectName s now' s' r e)"
proof (cases "projectName \<in> set (cm_busy s)")
  case True
  then show ?thesis using assms by (simp add: TriggerCrawl_def)
next
  case False
  let ?s = "s\<lparr>cm_busy := projectName # cm_busy s\<rparr>"
  obtain s1 where s1: "crawl_project ce cx projectName ?s now w = (now', w', s1, r, e)" "s' = s1\<lparr>cm_busy := remove1 projectName (cm_busy s1)\<rparr>"
    using assms(3) False by (auto simp: TriggerCrawl_def split: prod.splits)
  have "logs_ok ?s" using assms(2) by (simp add: logs_ok_def)
  then have "crawl_outcome ce cx projectName s now' s' r e"
    using crawl_project_result [OF _ _ s1(1)] crawl_outcome_unlock assms(1) unfolding s1(2) by simp
  with crawl_outcome_ok [OF this assms(1,2)] False show ?thesis by simp
qed

definition demo_settings :: projectSettings where
  "demo_settings = \<lparr>ps_CrawlInterval = 0, ps_GitHubOwner = ''o'', ps_GitHubRepo = ''r'', ps_FilterPatterns = [''a-1'', ''a-2'']\<rparr>"

definition demo_asset :: "string \<Rightarrow> string \<Rightarrow> releaseAsset" where
  "demo_asset v n = \<lparr>ra_Version = v, ra_Filename = n, ra_OS = [], ra_Arch = [], ra_Ext = [], ra_DownloadURL = ''u'', ra_SizeBytes = 3, ra_Checksum = []\<rparr>"

definition demo_releases :: "releaseAsset list" where
  "demo_releases = [demo_asset ''2'' ''a-2'', demo_asset ''1'' ''a-1'', demo_asset ''1'' ''b-1'']"

definition demo_dl :: "unit downloader" where
  "demo_dl = \<lparr>dl_acquire = (\<lambda>cx now w. (now, w, True)), dl_MkdirAll = (\<lambda>p now w. (now, w, True)), dl_CheckDiskSpace = (\<lambda>n now w. (now, w, True)),
     dl_get = (\<lambda>cx u p now w. (now + 1, w, if p = ''s/oss/p/2/.download-a-2'' then Copied 3 else HttpStatus 404)), dl_after = (\<lambda>cx d now w. (now + d, w, True)),
     dl_Remove = (\<lambda>p now w. (now, w, ())), dl_VerifyIntegrity = (\<lambda>p now w. (now, w, None)), dl_Rename = (\<lambda>p q now w. (now, w, None))\<rparr>"

definition demo_ce :: "unit crawl_env" where
  "demo_ce = \<lparr>ce_retry = defaultRetryConfig, ce_jitter = (\<lambda>_ d. d), ce_settings = (\<lambda>c. Some demo_settings), ce_config = (\<lambda>c. Some []), ce_subdir = (\<lambda>c. None),
     ce_fetchFunc = (\<lambda>n st ps cx now w. (now + 1, w, Inr demo_releases)), ce_match = (=), ce_parseDuration = (\<lambda>s. None),
     ce_crawler = \<lparr>cc_MaxConcurrent = 1, cc_FetchTimeout = [], cc_MaxRetries = 0, cc_RetryInitialBackoff = [], cc_DefaultInterval = []\<rparr>,
     ce_basePath = ''s'', ce_dl = demo_dl\<rparr>"

definition demo_state :: crawl_state where
  "demo_state = \<lparr>cm_db = (empty_db 9)\<lparr>t_projects := [(new_project ''p'' ''P'' ''github'' ''u'' ''{}'')\<lparr>p_id := 1\<rparr>], seq_projects := 1\<rparr>,
     cm_logs = [], cm_seq = 0, cm_busy = []\<rparr>"

definition background :: ctx where
  "background = \<lparr>cx_cancel = None, cx_deadline = None\<rparr>"

definition demo_crawled :: crawl_state where
  "demo_crawled = fst (snd (snd (TriggerCrawl demo_ce background ''p'' demo_state 0 ())))"

lemma demo_state_ok: "files_ok (cm_db demo_state)" "logs_ok demo_state"
  by (simp_all add: demo_state_def files_ok_def logs_ok_def keyed_def empty_db_def new_project_def)

lemma demo_crawl:
  "TriggerCrawl demo_ce background ''p'' demo_state 0 () =
     (3, (), demo_crawled, Some \<lparr>cr_ProjectName = ''p'', cr_Status = CrawlStatusSuccess, cr_VersionsFound = 3, cr_FilesDownloaded = 1, cr_NewAssets = [demo_asset ''2'' ''a-2'']\<rparr>, None)"
  unfolding demo_crawled_def by code_simp

theorem TriggerCrawl_correct_witness:
  "files_ok (cm_db demo_crawled) \<and> map (\<lambda>f. (f_filename f, f_status f)) (t_files (cm_db demo_crawled)) = [(''a-2'', ''complete''), (''a-1'', ''error'')] \<and>
   map cl_status (cm_logs demo_crawled) = [''success'']"
proof -
  have "map (\<lambda>f. (f_filename f, f_status f)) (t_files (cm_db demo_crawled)) = [(''a-2'', ''complete''), (''a-1'', ''error'')]"
    "map cl_status (cm_logs demo_crawled) = [''success'']" by code_simp+
  then show ?thesis using TriggerCrawl_correct [OF demo_state_ok demo_crawl] by blast
qed

text \<open>
  C21: What a crawl collects. With a context that does not end and a fetch that succeeds, the crawl
  succeeds. It adds exactly one row, with the version, platform, address, size and checksum of the release and its storage path, for
  each release that is missing: the first one of every file name that the patterns select and that the project has no row for,
  in the order of the releases. The result reports those of them whose download is complete. So every
  selected name has a row afterwards, of whatever status and version, and a second crawl of the same releases adds nothing.
\<close>
theorem TriggerCrawl_collects:
  assumes "files_ok (cm_db s)" "logs_ok s" "projectName \<notin> set (cm_busy s)" "ctx_end cx = None"
    "row_by p_name (t_projects (cm_db s)) projectName = Some p" "p_source_type p \<noteq> ''manual_upload''" "proj = scanProject (ce_subdir ce) p"
    "fetchWithRetry (ce_jitter ce) cx (ce_retry ce) (ce_fetchFunc ce projectName (p_source_type p) (getParams ce proj (cm_db s))) now w =
      (now1, w1, Some rs, None, cls)"
    "TriggerCrawl ce cx projectName s now w = (now', w', s', r, e)" "pats = projectFilterPatterns ce proj (cm_db s)"
  shows "\<exists>new res. t_files (cm_db s') = t_files (cm_db s) @ new \<and> e = None \<and> r = Some res \<and>
    (\<forall>f \<in> set new. f_project_id f = p_id p) \<and>
    list_all2 (row_of ce proj projectName) (missing ce pats (names_of (p_id p) (cm_db s)) rs) new \<and>
    cr_NewAssets res = finished_of (missing ce pats (names_of (p_id p) (cm_db s)) rs) new \<and>
    list_all (\<lambda>a. wanted ce pats a \<longrightarrow> ra_Filename a \<in> names_of (p_id p) (cm_db s')) rs \<and>
    (list_all (\<lambda>a. wanted ce pats a \<longrightarrow> ra_Filename a \<in> names_of (p_id p) (cm_db s)) rs \<longrightarrow> new = [])"
proof -
  let ?s = "s\<lparr>cm_busy := projectName # cm_busy s\<rparr>"
  obtain s1 where s1: "crawl_project ce cx projectName ?s now w = (now', w', s1, r, e)" "s' = s1\<lparr>cm_busy := remove1 projectName (cm_busy s1)\<rparr>"
    using assms(3,9) by (auto simp: TriggerCrawl_def split: prod.splits)
  have "logs_ok ?s" using assms(2) by (simp add: logs_ok_def)
  then obtain new res where n: "t_files (cm_db s1) = t_files (cm_db s) @ new" "e = None" "r = Some res"
    "\<forall>f \<in> set new. f_project_id f = p_id p"
    "list_all2 (row_of ce proj projectName) (missing ce pats (names_of (p_id p) (cm_db s)) rs) new"
    "cr_NewAssets res = finished_of (missing ce pats (names_of (p_id p) (cm_db s)) rs) new"
    "list_all (\<lambda>a. wanted ce pats a \<longrightarrow> ra_Filename a \<in> names_of (p_id p) (cm_db s1)) rs"
    using crawl_project_collects [where s = ?s, simplified, OF assms(1,4,5,6,7,8) _ s1(1)] assms(10) by auto
  have "new = []" if "list_all (\<lambda>a. wanted ce pats a \<longrightarrow> ra_Filename a \<in> names_of (p_id p) (cm_db s)) rs"
    using n(5) missing_none [OF that] by simp
  then show ?thesis using n by (simp add: s1(2))
qed

text \<open>The witness: of the three releases two are selected and get a row, and the download of one of them is complete.\<close>

theorem TriggerCrawl_collects_witness:
  "\<exists>f g res. t_files (cm_db demo_crawled) = [f, g] \<and> f_version f = ''2'' \<and> f_filename g = ''a-1'' \<and> f_download_url g = ''u'' \<and>
     snd (snd (snd (TriggerCrawl demo_ce background ''p'' demo_state 0 ()))) = (Some res, None) \<and>
     cr_NewAssets res = finished_of [demo_asset ''2'' ''a-2'', demo_asset ''1'' ''a-1''] [f, g]"
proof -
  let ?p = "hd (t_projects (cm_db demo_state))"
  have b: "''p'' \<notin> set (cm_busy demo_state)" by code_simp
  have c: "ctx_end background = None" by code_simp
  have p: "row_by p_name (t_projects (cm_db demo_state)) ''p'' = Some ?p" by code_simp
  have m: "p_source_type ?p \<noteq> ''manual_upload''" by code_simp
  have f: "fetchWithRetry (ce_jitter demo_ce) background (ce_retry demo_ce)
      (ce_fetchFunc demo_ce ''p'' (p_source_type ?p) (getParams demo_ce (scanProject (ce_subdir demo_ce) ?p) (cm_db demo_state))) 0 () =
      (1, (), Some demo_releases, None, classPermanent)" by code_simp
  have miss: "missing demo_ce (projectFilterPatterns demo_ce (scanProject (ce_subdir demo_ce) ?p) (cm_db demo_state)) (names_of (p_id ?p) (cm_db demo_state))
      demo_releases = [demo_asset ''2'' ''a-2'', demo_asset ''1'' ''a-1'']" by code_simp
  have none: "t_files (cm_db demo_state) = []" by code_simp
  obtain new res where n: "t_files (cm_db demo_crawled) = new"
    "list_all2 (row_of demo_ce (scanProject (ce_subdir demo_ce) ?p) ''p'') [demo_asset ''2'' ''a-2'', demo_asset ''1'' ''a-1''] new"
    "Some \<lparr>cr_ProjectName = ''p'', cr_Status = CrawlStatusSuccess, cr_VersionsFound = 3, cr_FilesDownloaded = 1, cr_NewAssets = [demo_asset ''2'' ''a-2'']\<rparr> = Some res"
    "cr_NewAssets res = finished_of [demo_asset ''2'' ''a-2'', demo_asset ''1'' ''a-1''] new"
    using TriggerCrawl_collects [OF demo_state_ok b c p m refl f demo_crawl refl] unfolding miss none by auto
  from n(2) obtain f g where fg: "new = [f, g]" "row_of demo_ce (scanProject (ce_subdir demo_ce) ?p) ''p'' (demo_asset ''2'' ''a-2'') f"
    "row_of demo_ce (scanProject (ce_subdir demo_ce) ?p) ''p'' (demo_asset ''1'' ''a-1'') g" by (auto simp: list_all2_Cons1)
  have "f_version f = ''2''" "f_filename g = ''a-1''" "f_download_url g = ''u''" using fg(2, 3) by (simp_all add: row_of_def demo_asset_def)
  then show ?thesis using n(1, 3, 4) fg(1) by (intro exI [of _ f] exI [of _ g] exI [of _ res]) (simp add: demo_crawl)
qed

end
