(* ===== verification/Go_Text.thy ===== *)
theory Go_Text
  imports Go_Base
begin

text \<open>
  Prelude, continued: trimming of white space and reading of numbers. Blanks around a text are removed
  one by one, bytes that are no part of an encoded space are kept, and trimming twice changes nothing;
  what \<^verbatim>\<open>strconv.FormatInt\<close> prints \<^verbatim>\<open>strconv.ParseInt\<close> reads back. The theories on archives, control files,
  headers and requests share these facts.
\<close>

section \<open>Replacing and limiting\<close>

text \<open>strings.ReplaceAll with a search text that is not empty; a step takes at least one byte, so the length of
  the text is fuel enough.\<close>

fun replace_all :: "string \<Rightarrow> string \<Rightarrow> nat \<Rightarrow> string \<Rightarrow> string" where
  "replace_all old new 0 s = s"
| "replace_all old new (Suc n) [] = []"
| "replace_all old new (Suc n) (c # s) =
     (if has_prefix (c # s) old then new @ replace_all old new n (drop (length old) (c # s))
      else c # replace_all old new n s)"

definition ReplaceAll :: "string \<Rightarrow> string \<Rightarrow> string \<Rightarrow> string" where
  "ReplaceAll s old new = replace_all old new (length s) s"

text \<open>What \<^verbatim>\<open>io.LimitReader\<close> lets through.\<close>

definition LimitReader :: "int \<Rightarrow> string \<Rightarrow> string" where
  "LimitReader n s = (if int (length s) \<le> n then s else take (nat n) s)"

section \<open>Numbers\<close>

text \<open>strconv.ParseInt with base 10 and 64 bits; \<^const>\<open>None\<close> is an error.\<close>

definition ParseInt64 :: "string \<Rightarrow> int option" where
  "ParseInt64 s =
     (let neg = (s \<noteq> [] \<and> hd s = CHR ''-''); t = (if s \<noteq> [] \<and> (hd s = CHR ''-'' \<or> hd s = CHR ''+'') then tl s else s) in
      if t = [] \<or> \<not> list_all is_digit t then None
      else let n = int (digits_val 0 t) in
        if neg then (if n \<le> 2 ^ 63 then Some (- n) else None)
        else (if n < 2 ^ 63 then Some n else None))"

lemma ParseInt64_format: "0 \<le> i \<Longrightarrow> i < 2 ^ 63 \<Longrightarrow> ParseInt64 (format_int i) = Some i"
proof -
  assume i: "0 \<le> i" "i < 2 ^ 63"
  have d: "list_all is_digit (format_nat (nat i))" by (auto simp: list_all_iff dest: format_nat_digits)
  then have "is_digit (hd (format_nat (nat i)))" by (simp add: list_all_iff)
  then have "hd (format_nat (nat i)) \<noteq> CHR ''-''" "hd (format_nat (nat i)) \<noteq> CHR ''+''" by (auto simp: is_digit_def)
  with i d show ?thesis by (simp add: ParseInt64_def format_int_def Let_def)
qed

text \<open>Signed 64-bit arithmetic wraps.\<close>

definition wrap64 :: "int \<Rightarrow> int" where
  "wrap64 i = (i + 2 ^ 63) mod 2 ^ 64 - 2 ^ 63"

lemma wrap64_id: "- (2 ^ 63) \<le> i \<Longrightarrow> i < 2 ^ 63 \<Longrightarrow> wrap64 i = i"
  by (simp add: wrap64_def)

section \<open>Trimming\<close>

lemma trim_space_length: "length (trim_space s) \<le> length s"
proof -
  have "length (trim_front ws t) \<le> length t" for ws t
    by (metis le_add2 length_append trim_front_suffix)
  from this [of space_seqs s] this [of "map rev space_seqs" "rev (trim_front space_seqs s)"] show ?thesis
    by (simp add: trim_space_def trim_left_space_def trim_right_space_def)
qed

lemma char_of_32: "char_of (32 :: nat) = CHR '' ''"
  by code_simp

lemma blank_seq_nat:
  "v \<in> set space_seqs \<Longrightarrow> of_char (hd v) \<noteq> (32 :: nat) \<and> of_char (last v) \<noteq> (32 :: nat) \<or> v = [char_of (32 :: nat)]"
  unfolding space_seqs_def by auto

lemma blank_seq:
  "v \<in> set space_seqs \<Longrightarrow> hd v = CHR '' '' \<or> last v = CHR '' '' \<Longrightarrow> v = [CHR '' '']"
  "[CHR '' ''] \<in> set space_seqs"
proof -
  show "v \<in> set space_seqs \<Longrightarrow> hd v = CHR '' '' \<or> last v = CHR '' '' \<Longrightarrow> v = [CHR '' '']"
    using blank_seq_nat [of v] char_of_32
    by (cases "hd v = CHR '' ''") simp_all
qed (simp add: space_seqs_def char_of_32)

lemma trim_front_blank: "trim_front space_seqs (CHR '' '' # t) = trim_front space_seqs t"
proof -
  have "trim_front space_seqs ([CHR '' ''] @ t) = trim_front space_seqs t"
  proof (rule trim_front_step)
    show "\<forall>v \<in> set space_seqs. v \<noteq> [] \<longrightarrow> has_prefix ([CHR '' ''] @ t) v \<longrightarrow> v = [CHR '' '']"
    proof (intro ballI impI)
      fix v assume v: "v \<in> set space_seqs" "v \<noteq> []" "has_prefix ([CHR '' ''] @ t) v"
      from v(2, 3) have "hd v = CHR '' ''" by (cases v) simp_all
      with v blank_seq(1) show "v = [CHR '' '']" by blast
    qed
  qed (simp_all add: blank_seq(2))
  then show ?thesis by simp
qed

lemma trim_back_blank: "trim_right_space (t @ [CHR '' '']) = trim_right_space t"
proof -
  have "trim_front (map rev space_seqs) ([CHR '' ''] @ rev t) = trim_front (map rev space_seqs) (rev t)"
  proof (rule trim_front_step)
    show "[CHR '' ''] \<in> set (map rev space_seqs)" using blank_seq(2) by force
    show "\<forall>v \<in> set (map rev space_seqs). v \<noteq> [] \<longrightarrow> has_prefix ([CHR '' ''] @ rev t) v \<longrightarrow> v = [CHR '' '']"
    proof (intro ballI impI)
      fix v assume v: "v \<in> set (map rev space_seqs)" "v \<noteq> []" "has_prefix ([CHR '' ''] @ rev t) v"
      then obtain w where w: "w \<in> set space_seqs" "v = rev w" by auto
      from v(2, 3) have "hd v = CHR '' ''" by (cases v) simp_all
      with v w have "last w = CHR '' ''" by (metis hd_rev)
      with w blank_seq(1) [of w] show "v = [CHR '' '']" by simp
    qed
  qed simp
  then show ?thesis by (simp add: trim_right_space_def)
qed

lemma trim_right_spaces:
  "s = [] \<or> plain_char (last s) \<Longrightarrow> trim_right_space (s @ replicate k CHR '' '') = s"
proof (induction k)
  case 0
  then show ?case using trim_right_plain by simp
next
  case (Suc k)
  then show ?case
    using trim_back_blank [of "s @ replicate k CHR '' ''"] by (simp add: replicate_append_same [symmetric])
qed

lemma not_plain_space [simp]: "\<not> plain_char CHR '' ''"
  by (simp add: plain_char_def)

lemma digit_is_plain: "is_digit c \<Longrightarrow> plain_char c"
  by (auto simp: plain_char_def dest: is_digit_plain)

lemma trim_front_keeps:
  "(\<forall>w \<in> set ws. c \<notin> set w) \<Longrightarrow> c \<in> set s \<Longrightarrow> c \<in> set (trim_front ws s)"
proof (induction ws s rule: trim_front.induct)
  case (1 ws s)
  show ?case
  proof (cases "find (\<lambda>w. w \<noteq> [] \<and> has_prefix s w) ws")
    case None
    with "1.prems" show ?thesis by (subst trim_front.simps) auto
  next
    case (Some w)
    then have w: "w \<in> set ws" "has_prefix s w" by (auto simp: find_Some_iff)
    with "1.prems" have "c \<in> set (drop (length w) s)"
      by (metis UnE append_eq_conv_conj has_prefix_iff set_append)
    with "1.IH" [OF Some "1.prems"(1)] Some show ?thesis by (subst trim_front.simps) simp
  qed
qed

lemma space_seqs_not_plain: "w \<in> set space_seqs \<Longrightarrow> plain_char c \<Longrightarrow> c \<notin> set w"
  by (auto simp: space_seqs_def plain_char_def Let_def)

lemma trim_front_done: "w \<in> set ws \<Longrightarrow> w \<noteq> [] \<Longrightarrow> \<not> has_prefix (trim_front ws s) w"
proof (induction ws s rule: trim_front.induct)
  case (1 ws s)
  then show ?case
    by (subst trim_front.simps) (auto split: option.splits simp: find_None_iff)
qed

lemma trim_space_idem: "trim_space (trim_space s) = trim_space s"
proof -
  define t where "t = trim_left_space s"
  have nt: "\<not> has_prefix t w" if "w \<in> set space_seqs" for w
    using trim_front_done that space_seqs_nonempty unfolding t_def trim_left_space_def by blast
  obtain r where r: "t = trim_right_space t @ r" using trim_right_space_prefix by blast
  have "trim_left_space (trim_right_space t) = trim_right_space t"
    unfolding trim_left_space_def
  proof (rule trim_front_id, intro ballI impI notI)
    fix w assume w: "w \<in> set space_seqs" "has_prefix (trim_right_space t) w"
    then have "has_prefix t w" by (metis append_assoc has_prefix_iff r)
    with nt w show False by blast
  qed
  moreover have "trim_right_space (trim_right_space t) = trim_right_space t"
  proof -
    have "trim_front (map rev space_seqs) (trim_front (map rev space_seqs) (rev t)) = trim_front (map rev space_seqs) (rev t)"
      by (rule trim_front_id) (use trim_front_done in blast)
    then show ?thesis by (simp add: trim_right_space_def)
  qed
  ultimately show ?thesis by (simp add: trim_space_def t_def [symmetric])
qed

lemma trim_space_blank: "trim_space (CHR '' '' # s) = trim_space s"
  by (simp add: trim_space_def trim_left_space_def trim_front_blank)

lemma trim_char_ends:
  "s = [] \<or> hd s \<noteq> c \<and> last s \<noteq> c \<Longrightarrow> (a = [] \<or> a = [c]) \<Longrightarrow> (b = [] \<or> b = [c]) \<Longrightarrow> (s = [] \<longrightarrow> b = []) \<Longrightarrow>
   trim_char c (a @ s @ b) = s"
proof (cases "s = []")
  case True
  then show "(a = [] \<or> a = [c]) \<Longrightarrow> (b = [] \<or> b = [c]) \<Longrightarrow> (s = [] \<longrightarrow> b = []) \<Longrightarrow> ?thesis"
    by (auto simp: trim_char_def trim_right_char_def)
next
  case False
  assume s: "s = [] \<or> hd s \<noteq> c \<and> last s \<noteq> c" and a: "a = [] \<or> a = [c]" and b: "b = [] \<or> b = [c]"
  have "dropWhile (\<lambda>d. d = c) (a @ s @ b) = s @ b" using False s a by (cases s) auto
  moreover have "dropWhile (\<lambda>d. d = c) (rev b @ rev s) = rev s" using False s b by (cases s rule: rev_cases) auto
  ultimately show ?thesis by (simp add: trim_char_def trim_right_char_def)
qed

section \<open>Splitting\<close>

lemma set_split: "w \<in> set (split_char c s) \<Longrightarrow> set w \<subseteq> set s"
proof (induction s arbitrary: w)
  case (Cons d s)
  show ?case
  proof (cases "d = c \<or> w \<notin> set [d # hd (split_char c s)]")
    case True
    with Cons.prems have "w = [] \<or> w \<in> set (split_char c s)" by (auto split: list.splits if_splits)
    with Cons.IH show ?thesis by fastforce
  next
    case False
    moreover have "set (hd (split_char c s)) \<subseteq> set s" by (rule Cons.IH) simp
    ultimately show ?thesis by auto
  qed
qed simp

end
