(* ===== verification/Rule_Source.thy ===== *)
theory Rule_Source
  imports Crawl_Manager Go_Text
begin

text \<open>
  Where the releases of a crawl come from: the rule engine of src/internal/rulesrc (fingerprints, paths into
  JSON, picked HTML elements, classified file names), the routing of src/internal/source, and the crawler of
  src/internal/crawler/github.go, which the fingerprint src/internal/source/fingerprints/github.yaml replaces.

  Parameters are the decoders of JSON, YAML and HTML, the encoder of JSON, floating-point numbers, globs,
  regular expressions, URLs and the HTTP client. Maps that the code iterates over are lists of pairs, in the
  order of the iteration.
\<close>

section \<open>JSON values\<close>

datatype 'f json =
    JNull
  | JBool bool
  | JNum 'f
  | JStr string
  | JArr "'f json list"
  | JObj "(string \<times> 'f json) list"

record 'f floats =
  fl_int64 :: "'f \<Rightarrow> int"
  fl_of_int :: "int \<Rightarrow> 'f"
  fl_format :: "'f \<Rightarrow> string"
  fl_marshal :: "'f json \<Rightarrow> string"

datatype rulesrc_err =
    NotArrayPath string
  | NotObject string string
  | NotArray string string
  | NoObject string
  | RuleErr string

section \<open>jsonpath.go\<close>

definition parseArrayPath :: "string \<Rightarrow> string \<times> bool" where
  "parseArrayPath path =
     (let p = trim_prefix (trim_space path) ''.'' in
      if has_suffix p ''[]'' then (trim_suffix p ''[]'', True) else (p, False))"

text \<open>What \<^verbatim>\<open>%T\<close> prints.\<close>

fun go_type :: "'f json \<Rightarrow> string" where
  "go_type JNull = ''<nil>''"
| "go_type (JBool b) = ''bool''"
| "go_type (JNum x) = ''float64''"
| "go_type (JStr s) = ''string''"
| "go_type (JArr xs) = ''[]interface {}''"
| "go_type (JObj kvs) = ''map[string]interface {}''"

text \<open>The callback changes a state of the caller.\<close>

fun each_element :: "('f json \<Rightarrow> 's \<Rightarrow> rulesrc_err + 's) \<Rightarrow> 'f json list \<Rightarrow> 's \<Rightarrow> rulesrc_err + 's" where
  "each_element f [] s = Inr s"
| "each_element f (x # xs) s = (case f x s of Inl e \<Rightarrow> Inl e | Inr s1 \<Rightarrow> each_element f xs s1)"

definition field_of :: "(string \<times> 'f json) list \<Rightarrow> string \<Rightarrow> 'f json" where
  "field_of kvs k = (case map_of kvs k of None \<Rightarrow> JNull | Some v \<Rightarrow> v)"

definition iterArray :: "'f json \<Rightarrow> string \<Rightarrow> ('f json \<Rightarrow> 's \<Rightarrow> rulesrc_err + 's) \<Rightarrow> 's \<Rightarrow> rulesrc_err + 's" where
  "iterArray node0 path fn s =
     (case parseArrayPath path of
        (fld, iterate) \<Rightarrow>
          if \<not> iterate then Inl (NotArrayPath path)
          else (case (if fld = [] then Inr node0 else (case node0 of JObj kvs \<Rightarrow> Inr (field_of kvs fld) | _ \<Rightarrow> Inl (NotObject fld (go_type node0)))) of
              Inl e \<Rightarrow> Inl e
            | Inr node \<Rightarrow> (case node of JArr xs \<Rightarrow> each_element fn xs s | _ \<Rightarrow> Inl (NotArray path (go_type node)))))"

fun get_segs :: "'f json \<Rightarrow> string list \<Rightarrow> 'f json option" where
  "get_segs cur [] = Some cur"
| "get_segs cur (seg # segs) =
     (case cur of JObj kvs \<Rightarrow> (case map_of kvs seg of None \<Rightarrow> None | Some v \<Rightarrow> get_segs v segs) | _ \<Rightarrow> None)"

definition getPath :: "'f json \<Rightarrow> string \<Rightarrow> 'f json option" where
  "getPath node path =
     (let p = trim_prefix (trim_space path) ''.'' in if p = [] then Some node else get_segs node (split_char (CHR ''.'') p))"

definition mustGet :: "'f json \<Rightarrow> string \<Rightarrow> 'f json" where
  "mustGet node p = (case getPath node p of None \<Rightarrow> JNull | Some v \<Rightarrow> v)"

fun asString :: "'f floats \<Rightarrow> 'f json \<Rightarrow> string" where
  "asString fl JNull = []"
| "asString fl (JStr s) = s"
| "asString fl (JNum x) = (if x = fl_of_int fl (fl_int64 fl x) then format_int (fl_int64 fl x) else fl_format fl x)"
| "asString fl (JBool b) = (if b then ''true'' else ''false'')"
| "asString fl (JArr xs) = fl_marshal fl (JArr xs)"
| "asString fl (JObj kvs) = fl_marshal fl (JObj kvs)"

text \<open>The value of \<^verbatim>\<open>strconv.ParseInt\<close> when its error is ignored: the nearest number in range, or zero.\<close>

definition ParseInt_value :: "string \<Rightarrow> int" where
  "ParseInt_value s =
     (case ParseInt64 s of
        Some n \<Rightarrow> n
      | None \<Rightarrow>
          let t = (if s \<noteq> [] \<and> (hd s = CHR ''-'' \<or> hd s = CHR ''+'') then tl s else s) in
          if t = [] \<or> \<not> list_all is_digit t then 0 else if hd s = CHR ''-'' then - (2 ^ 63) else 2 ^ 63 - 1)"

fun asInt :: "'f floats \<Rightarrow> 'f json \<Rightarrow> int" where
  "asInt fl (JNum x) = fl_int64 fl x"
| "asInt fl (JStr s) = ParseInt_value s"
| "asInt fl _ = 0"

definition truthy :: "'f json \<Rightarrow> string \<Rightarrow> bool" where
  "truthy node path = (case getPath node path of Some (JBool b) \<Rightarrow> b | _ \<Rightarrow> False)"

section \<open>classify.go and the file names of github.go\<close>

definition knownOS :: "string list" where
  "knownOS = [''linux'', ''darwin'', ''windows'', ''freebsd'']"

definition knownArch :: "string list" where
  "knownArch = [''amd64'', ''arm64'', ''armv6'', ''armv7'', ''386'', ''s390x'', ''ppc64le'']"

definition compoundExt :: "string \<Rightarrow> string" where
  "compoundExt name =
     (if has_suffix name ''.tar.gz'' then ''tar.gz''
      else if has_suffix name ''.tar.bz2'' then ''tar.bz2''
      else if has_suffix name ''.tar.xz'' then ''tar.xz''
      else case last_index_char (CHR ''.'') name of None \<Rightarrow> [] | Some i \<Rightarrow> drop (i + 1) name)"

definition splitOn :: "string \<Rightarrow> string list" where
  "splitOn stripped = split_char (CHR ''-'') (ReplaceAll (ReplaceAll stripped ''_'' ''-'') ''.'' ''-'')"

text \<open>The loop over the words: the first known system and the first known architecture.\<close>

fun classify_words :: "string list \<Rightarrow> string \<Rightarrow> string \<Rightarrow> string \<times> string" where
  "classify_words [] osVal archVal = (osVal, archVal)"
| "classify_words (w # ws) osVal archVal =
     (let p = to_lower w in
      if p \<in> set knownOS \<and> osVal = [] then classify_words ws p archVal
      else if p \<in> set knownArch \<and> archVal = [] then classify_words ws osVal p
      else classify_words ws osVal archVal)"

definition classify :: "string \<Rightarrow> string \<times> string \<times> string" where
  "classify name =
     (let ext = compoundExt name; base = (if ext \<noteq> [] then trim_suffix name (''.'' @ ext) else name) in
      case classify_words (splitOn base) [] [] of (osVal, archVal) \<Rightarrow> (osVal, archVal, ext))"

definition fileExt :: "string \<Rightarrow> string" where
  "fileExt name =
     (case filter (has_suffix name) [''.tar.gz'', ''.tar.bz2'', ''.tar.xz''] of
        ext # _ \<Rightarrow> tl ext
      | [] \<Rightarrow> (case last_index_char (CHR ''.'') name of None \<Rightarrow> [] | Some i \<Rightarrow> drop (i + 1) name))"

definition splitFilename :: "string \<Rightarrow> string list" where
  "splitFilename name = split_char (CHR ''-'') (ReplaceAll (ReplaceAll name ''_'' ''-'') ''.'' ''-'')"

definition parseFilename :: "string \<Rightarrow> releaseAsset" where
  "parseFilename name =
     (let ext = fileExt name; base = (if ext \<noteq> [] then trim_suffix name (''.'' @ ext) else name) in
      case classify_words (splitFilename base) [] [] of
        (osVal, archVal) \<Rightarrow> \<lparr>ra_Version = [], ra_Filename = [], ra_OS = osVal, ra_Arch = archVal, ra_Ext = ext, ra_DownloadURL = [],
           ra_SizeBytes = 0, ra_Checksum = []\<rparr>)"

section \<open>spec.go\<close>

record assetExtract =
  ae_Path :: string
  ae_Filename :: string
  ae_DownloadURL :: string
  ae_Size :: string
  ae_Checksum :: string

record fingerprint =
  fp_Name :: string
  fp_URL :: string
  fp_Format :: string
  fp_Header :: "(string \<times> string) list"
  fp_ListPath :: string
  fp_Selector :: string
  fp_Skip :: "string list"
  fp_Version :: string
  fp_Filename :: string
  fp_DownloadURL :: string
  fp_Size :: string
  fp_Checksum :: string
  fp_Assets :: "assetExtract option"
  fp_Classify :: string
  fp_VersionStrip :: string
  fp_Attr :: string
  fp_Basename :: bool
  fp_Resolve :: string
  fp_Include :: "string list"
  fp_Exclude :: "string list"
  fp_VersionRegex :: string

datatype spec_err = YamlErr string | NameRequired | UrlRequired string | BadFormat string | PathRequired string | SelectorRequired string

definition spec_validate :: "fingerprint \<Rightarrow> spec_err option" where
  "spec_validate s =
     (if fp_Name s = [] then Some NameRequired
      else if fp_URL s = [] then Some (UrlRequired (fp_Name s))
      else if fp_Format s \<noteq> ''json'' \<and> fp_Format s \<noteq> ''html'' then Some (BadFormat (fp_Name s))
      else if fp_Format s = ''json'' \<and> fp_ListPath s = [] then Some (PathRequired (fp_Name s))
      else if fp_Format s = ''html'' \<and> fp_Selector s = [] then Some (SelectorRequired (fp_Name s))
      else None)"

definition ParseSpec :: "(string \<Rightarrow> string + fingerprint) \<Rightarrow> string \<Rightarrow> spec_err + fingerprint" where
  "ParseSpec unmarshal data =
     (case unmarshal data of Inl e \<Rightarrow> Inl (YamlErr e)
      | Inr s \<Rightarrow> (case spec_validate s of Some e \<Rightarrow> Inl e | None \<Rightarrow> Inr s))"

text \<open>An answer of the HTTP client: the status, the header X-RateLimit-Remaining, the bytes of the body, the error that
  reading meets after them, and the address of the last request.\<close>

record http_response =
  ha_status :: int
  ha_remaining :: string
  ha_body :: string
  ha_fail :: "string option"
  ha_url :: string

section \<open>htmlpick.go\<close>

datatype html_node =
    Element string "(string \<times> string) list" "html_node list"
  | TextNode string
  | OtherNode "html_node list"

definition parseSelector :: "string \<Rightarrow> string \<times> string" where
  "parseSelector sel0 =
     (let sel = trim_space sel0 in
      case index_char (CHR ''.'') sel of None \<Rightarrow> (sel, []) | Some i \<Rightarrow> (take i sel, drop (i + 1) sel))"

text \<open>\<^verbatim>\<open>strings.Fields\<close>: \<open>n\<close> bytes are left of an encoded space.\<close>

fun fields_loop :: "nat \<Rightarrow> string \<Rightarrow> string \<Rightarrow> string list" where
  "fields_loop n [] cur = (if cur = [] then [] else [cur])"
| "fields_loop (Suc n) (c # s) cur = fields_loop n s cur"
| "fields_loop 0 (c # s) cur =
     (case List.find (has_prefix (c # s)) space_seqs of
        Some q \<Rightarrow> (if cur = [] then [] else [cur]) @ fields_loop (length q - 1) s []
      | None \<Rightarrow> fields_loop 0 s (cur @ [c]))"

definition hasClass :: "(string \<times> string) list \<Rightarrow> string \<Rightarrow> bool" where
  "hasClass attrs cls \<longleftrightarrow> cls = [] \<or> list_ex (\<lambda>(k, v). k = ''class'' \<and> cls \<in> set (fields_loop 0 v [])) attrs"

definition attrOf :: "(string \<times> string) list \<Rightarrow> string \<Rightarrow> string" where
  "attrOf attrs key = (case map_of attrs key of None \<Rightarrow> [] | Some v \<Rightarrow> v)"

fun node_text :: "html_node \<Rightarrow> string" where
  "node_text (TextNode t) = t"
| "node_text (Element tag attrs cs) = concat (map node_text cs)"
| "node_text (OtherNode cs) = concat (map node_text cs)"

definition textOf :: "html_node \<Rightarrow> string" where
  "textOf n = trim_space (node_text n)"

fun pick_walk :: "string \<Rightarrow> string \<Rightarrow> string \<Rightarrow> html_node \<Rightarrow> (string \<times> string) list" where
  "pick_walk tag cls attr (Element t attrs cs) =
     (if t = tag \<and> hasClass attrs cls then [(textOf (Element t attrs cs), attrOf attrs attr)] else []) @
     concat (map (pick_walk tag cls attr) cs)"
| "pick_walk tag cls attr (TextNode t) = []"
| "pick_walk tag cls attr (OtherNode cs) = concat (map (pick_walk tag cls attr) cs)"

text \<open>The items: text and attribute.\<close>

definition pickHTML :: "(string \<Rightarrow> string option \<Rightarrow> string + html_node) \<Rightarrow> http_response \<Rightarrow> string \<Rightarrow> string \<Rightarrow> rulesrc_err + (string \<times> string) list" where
  "pickHTML parse r selector attrName =
     (case parseSelector selector of
        (tag, cls) \<Rightarrow>
          (case parse (ha_body r) (ha_fail r) of
             Inl e \<Rightarrow> Inl (RuleErr (''parse html: '' @ e))
           | Inr doc \<Rightarrow> Inr (pick_walk tag cls (if attrName = [] then ''href'' else attrName) doc)))"

section \<open>fetcher.go\<close>

text \<open>The request could not be made, or it got no answer.\<close>

datatype http_err = BadRequest string | NoAnswer string

record 'f rule_env =
  re_floats :: "'f floats"
  re_http :: "string \<Rightarrow> (string \<times> string) list \<Rightarrow> http_err + http_response"
  re_decode :: "string \<Rightarrow> string option \<Rightarrow> string + 'f json"
  re_html :: "string \<Rightarrow> string option \<Rightarrow> string + html_node"
  re_resolve :: "string \<Rightarrow> string \<Rightarrow> string option"
  re_regex :: "string \<Rightarrow> (string \<Rightarrow> string list) option"
  re_glob :: "string \<Rightarrow> string \<Rightarrow> bool"
  re_yaml :: "string \<Rightarrow> string + fingerprint"

definition drainBody :: "http_response \<Rightarrow> nat \<Rightarrow> string" where
  "drainBody r lim = (if ha_fail r \<noteq> None \<and> length (ha_body r) \<le> lim then [] else take lim (ha_body r))"

text \<open>The answer that is an error, as a text.\<close>

definition http_failure :: "string \<Rightarrow> http_response \<Rightarrow> string" where
  "http_failure url r =
     (let body = drainBody r 2048;
          msg = ''source '' @ url @ '': HTTP '' @ format_int (ha_status r) @ (if body \<noteq> [] then '': '' @ body else []) in
      if ha_status r = 429 \<or> ha_remaining r = ''0'' \<or> contains_sub (to_lower body) ''rate limit'' then msg @ '' (rate limit)'' else msg)"

text \<open>The headers in the order in which they are set; the result is the answer with its body.\<close>

definition getter_Get :: "'f rule_env \<Rightarrow> string \<Rightarrow> (string \<times> string) list \<Rightarrow> rulesrc_err + http_response" where
  "getter_Get env url header =
     (case re_http env url ((''User-Agent'', ''MiBeeHive-rulesrc/1.0'') # header) of
        Inl (BadRequest e) \<Rightarrow> Inl (RuleErr e)
      | Inl (NoAnswer e) \<Rightarrow> Inl (RuleErr e)
      | Inr r \<Rightarrow> if ha_status r \<ge> 400 then Inl (RuleErr (http_failure url r)) else Inr r)"

definition buildAsset :: "'f floats \<Rightarrow> 'f json \<Rightarrow> string \<Rightarrow> string \<Rightarrow> string \<Rightarrow> string \<Rightarrow> string \<Rightarrow> releaseAsset" where
  "buildAsset fl node fnamePath urlPath sizePath checksumPath version =
     \<lparr>ra_Version = version, ra_Filename = asString fl (mustGet node fnamePath), ra_OS = [], ra_Arch = [], ra_Ext = [],
      ra_DownloadURL = asString fl (mustGet node urlPath), ra_SizeBytes = word_of_int (asInt fl (mustGet node sizePath)),
      ra_Checksum = asString fl (mustGet node checksumPath)\<rparr>"

definition finalizeAsset :: "fingerprint \<Rightarrow> releaseAsset \<Rightarrow> releaseAsset" where
  "finalizeAsset spec a0 =
     (let a = (if fp_VersionStrip spec \<noteq> [] then a0\<lparr>ra_Version := trim_prefix (ra_Version a0) (fp_VersionStrip spec)\<rparr> else a0) in
      if fp_Classify spec = ''filename-parser''
      then (case classify (ra_Filename a) of (os, arch, ext) \<Rightarrow> a\<lparr>ra_OS := os, ra_Arch := arch, ra_Ext := ext\<rparr>) else a)"

definition processUnit :: "'f floats \<Rightarrow> fingerprint \<Rightarrow> 'f json \<Rightarrow> releaseAsset list \<Rightarrow> rulesrc_err + releaseAsset list" where
  "processUnit fl spec unit out =
     (if list_ex (truthy unit) (fp_Skip spec) then Inr out
      else let version = asString fl (mustGet unit (fp_Version spec)) in
        case fp_Assets spec of
          Some ae \<Rightarrow> iterArray unit (ae_Path ae) (\<lambda>asset out. Inr (out @ [finalizeAsset spec
             (buildAsset fl asset (ae_Filename ae) (ae_DownloadURL ae) (ae_Size ae) (ae_Checksum ae) version)])) out
        | None \<Rightarrow> Inr (out @ [finalizeAsset spec
             (buildAsset fl unit (fp_Filename spec) (fp_DownloadURL spec) (fp_Size spec) (fp_Checksum spec) version)]))"

definition parseJSONSource :: "'f rule_env \<Rightarrow> http_response \<Rightarrow> fingerprint \<Rightarrow> rulesrc_err + releaseAsset list" where
  "parseJSONSource env r spec =
     (case re_decode env (ha_body r) (ha_fail r) of
        Inl e \<Rightarrow> Inl (RuleErr (''decode json: '' @ e))
      | Inr root \<Rightarrow>
          if \<not> snd (parseArrayPath (fp_ListPath spec)) then
            (let unit = (if fp_ListPath spec \<noteq> [] \<and> fp_ListPath spec \<noteq> ''.'' then mustGet root (fp_ListPath spec) else root) in
             if unit = JNull then Inl (NoObject (fp_ListPath spec)) else processUnit (re_floats env) spec unit [])
          else iterArray root (fp_ListPath spec) (processUnit (re_floats env) spec) [])"

definition matchVersion :: "'f rule_env \<Rightarrow> string \<Rightarrow> string \<Rightarrow> string" where
  "matchVersion env s pattern =
     (case re_regex env pattern of
        None \<Rightarrow> []
      | Some sub \<Rightarrow> (case sub s of a # b # _ \<Rightarrow> b | [a] \<Rightarrow> a | [] \<Rightarrow> []))"

text \<open>One picked item.\<close>

definition html_asset :: "'f rule_env \<Rightarrow> fingerprint \<Rightarrow> string \<Rightarrow> string \<times> string \<Rightarrow> releaseAsset option" where
  "html_asset env spec baseURL it =
     (case it of (text, href) \<Rightarrow>
        if href = [] \<or> has_prefix href ''?'' \<or> href = baseURL then None
        else let filename = (if fp_Basename spec then path_base (trim_right_char slash href) else href);
                 dl = (if fp_Resolve spec = ''url'' then (case re_resolve env baseURL href of Some u \<Rightarrow> u | None \<Rightarrow> href) else href);
                 version = (if fp_Version spec = [] \<and> fp_VersionRegex spec \<noteq> [] then matchVersion env filename (fp_VersionRegex spec) else text) in
          Some (finalizeAsset spec \<lparr>ra_Version = version, ra_Filename = filename, ra_OS = [], ra_Arch = [], ra_Ext = [], ra_DownloadURL = dl,
            ra_SizeBytes = 0, ra_Checksum = []\<rparr>))"

definition parseHTMLSource :: "'f rule_env \<Rightarrow> http_response \<Rightarrow> fingerprint \<Rightarrow> string \<Rightarrow> rulesrc_err + releaseAsset list" where
  "parseHTMLSource env r spec baseURL =
     (case pickHTML (re_html env) r (fp_Selector spec) (fp_Attr spec) of
        Inl e \<Rightarrow> Inl e
      | Inr items \<Rightarrow> Inr (List.map_filter (html_asset env spec baseURL) items))"

definition tokenize :: "(string \<times> string) list \<Rightarrow> (string \<times> string) list" where
  "tokenize params = map (\<lambda>(k, v). (''{'' @ k @ ''}'', v)) params"

text \<open>\<^verbatim>\<open>strings.Replacer\<close> with texts that are not empty: at each byte the first pair that matches, \<open>n\<close> bytes of
  a match being left.\<close>

fun replace_pairs :: "(string \<times> string) list \<Rightarrow> nat \<Rightarrow> string \<Rightarrow> string" where
  "replace_pairs ps n [] = []"
| "replace_pairs ps (Suc n) (c # s) = replace_pairs ps n s"
| "replace_pairs ps 0 (c # s) =
     (case List.find (\<lambda>(old, new). has_prefix (c # s) old) ps of
        Some (old, new) \<Rightarrow> new @ replace_pairs ps (length old - 1) s
      | None \<Rightarrow> c # replace_pairs ps 0 s)"

definition interpolate :: "string \<Rightarrow> (string \<times> string) list \<Rightarrow> string" where
  "interpolate s params = replace_pairs (tokenize params) 0 s"

definition FetchWithParams :: "'f rule_env \<Rightarrow> fingerprint \<Rightarrow> (string \<times> string) list \<Rightarrow> rulesrc_err + releaseAsset list" where
  "FetchWithParams env spec params =
     (let url = (if params \<noteq> [] then interpolate (fp_URL spec) params else fp_URL spec) in
      case getter_Get env url (fp_Header spec) of
        Inl e \<Rightarrow> Inl e
      | Inr r \<Rightarrow>
          if fp_Format spec = ''json'' then parseJSONSource env r spec
          else if fp_Format spec = ''html'' then parseHTMLSource env r spec (ha_url r)
          else Inl (RuleErr (''unsupported format '' @ fp_Format spec)))"

definition matchAny :: "'f rule_env \<Rightarrow> string \<Rightarrow> string list \<Rightarrow> bool" where
  "matchAny env name patterns = list_ex (\<lambda>p. re_glob env (to_lower p) (to_lower name)) patterns"

definition keepFilter :: "'f rule_env \<Rightarrow> fingerprint \<Rightarrow> releaseAsset \<Rightarrow> bool" where
  "keepFilter env spec a =
     (if fp_Include spec \<noteq> [] \<and> \<not> matchAny env (ra_Filename a) (fp_Include spec) then False
      else if fp_Exclude spec \<noteq> [] \<and> matchAny env (ra_Filename a) (fp_Exclude spec) then False else True)"

definition ApplyFilter :: "'f rule_env \<Rightarrow> releaseAsset list \<Rightarrow> fingerprint \<Rightarrow> releaseAsset list" where
  "ApplyFilter env assets spec = filter (keepFilter env spec) assets"

section \<open>The package source\<close>

datatype source_err =
    NoFetcherFor string
  | InvalidInline string spec_err
  | NoFingerprint string string
  | RuleFailed rulesrc_err
  | LegacyFailed string

record crawl_source =
  cs_Name :: string
  cs_Type :: string
  cs_Params :: "(string \<times> string) list"

record rule_fetcher =
  rf_builtins :: "(string \<times> fingerprint) list"
  rf_tokens :: "(string \<Rightarrow> string) option"

definition param_of :: "(string \<times> string) list \<Rightarrow> string \<Rightarrow> string" where
  "param_of ps k = (case map_of ps k of None \<Rightarrow> [] | Some v \<Rightarrow> v)"

definition RegisterFingerprint :: "fingerprint \<Rightarrow> rule_fetcher \<Rightarrow> rule_fetcher" where
  "RegisterFingerprint spec r = r\<lparr>rf_builtins := (fp_Name spec, spec) # filter (\<lambda>(n, _). n \<noteq> fp_Name spec) (rf_builtins r)\<rparr>"

text \<open>The embedded files: name and content.\<close>

fun loadBuiltins :: "(string \<Rightarrow> string + fingerprint) \<Rightarrow> (string \<times> string) list \<Rightarrow> rule_fetcher \<Rightarrow> (string \<times> spec_err) option \<times> rule_fetcher" where
  "loadBuiltins yaml [] r = (None, r)"
| "loadBuiltins yaml ((name, data) # fs) r =
     (case ParseSpec yaml data of
        Inl e \<Rightarrow> (Some (name, e), r)
      | Inr spec \<Rightarrow> loadBuiltins yaml fs (RegisterFingerprint spec r))"

definition rule_Sources :: "rule_fetcher \<Rightarrow> string list" where
  "rule_Sources r = map fst (rf_builtins r) @ [''rulesrc'']"

definition withAuthHeader :: "fingerprint \<Rightarrow> string \<Rightarrow> fingerprint" where
  "withAuthHeader spec v = spec\<lparr>fp_Header := fp_Header spec @ [(''Authorization'', v)]\<rparr>"

definition fetchWithSpec :: "'f rule_env \<Rightarrow> rule_fetcher \<Rightarrow> fingerprint \<Rightarrow> crawl_source \<Rightarrow> string \<Rightarrow> source_err + releaseAsset list" where
  "fetchWithSpec env r spec0 src tokenKey =
     (let spec = (case rf_tokens r of
            None \<Rightarrow> spec0
          | Some f \<Rightarrow> if f tokenKey \<noteq> [] then withAuthHeader spec0 (''token '' @ f tokenKey) else spec0);
          params = filter (\<lambda>(k, v). k \<noteq> ''fingerprint'' \<and> k \<noteq> ''fingerprint_yaml'') (cs_Params src) in
      case FetchWithParams env spec params of
        Inl e \<Rightarrow> Inl (RuleFailed e) | Inr assets \<Rightarrow> Inr (ApplyFilter env assets spec))"

definition rule_Fetch :: "'f rule_env \<Rightarrow> rule_fetcher \<Rightarrow> crawl_source \<Rightarrow> source_err + releaseAsset list" where
  "rule_Fetch env r src =
     (let fp = param_of (cs_Params src) ''fingerprint''; name = (if fp = [] then cs_Type src else fp);
          inlineYAML = param_of (cs_Params src) ''fingerprint_yaml'' in
      if inlineYAML \<noteq> [] then
        (case ParseSpec (re_yaml env) inlineYAML of
           Inl e \<Rightarrow> Inl (InvalidInline (cs_Name src) e) | Inr spec \<Rightarrow> fetchWithSpec env r spec src name)
      else (case map_of (rf_builtins r) name of
          None \<Rightarrow> Inl (NoFingerprint (cs_Name src) name) | Some spec \<Rightarrow> fetchWithSpec env r spec src name))"

record legacy_crawler =
  lg_SourceType :: string
  lg_FetchReleases :: "string \<Rightarrow> string \<Rightarrow> string + releaseAsset list"

definition legacy_Fetch :: "legacy_crawler \<Rightarrow> crawl_source \<Rightarrow> source_err + releaseAsset list" where
  "legacy_Fetch c src =
     (case lg_FetchReleases c (param_of (cs_Params src) ''owner'') (param_of (cs_Params src) ''repo'') of
        Inl e \<Rightarrow> Inl (LegacyFailed e) | Inr as \<Rightarrow> Inr as)"

datatype fetcher = RuleTrack rule_fetcher | LegacyTrack legacy_crawler

fun fetcher_Sources :: "fetcher \<Rightarrow> string list" where
  "fetcher_Sources (RuleTrack r) = rule_Sources r"
| "fetcher_Sources (LegacyTrack c) = [lg_SourceType c]"

fun fetcher_Fetch :: "'f rule_env \<Rightarrow> fetcher \<Rightarrow> crawl_source \<Rightarrow> source_err + releaseAsset list" where
  "fetcher_Fetch env (RuleTrack r) src = rule_Fetch env r src"
| "fetcher_Fetch env (LegacyTrack c) src = legacy_Fetch c src"

definition source_Register :: "fetcher \<Rightarrow> (string \<rightharpoonup> fetcher) \<Rightarrow> (string \<rightharpoonup> fetcher)" where
  "source_Register f reg = fold (\<lambda>t reg. reg(t \<mapsto> f)) (fetcher_Sources f) reg"

definition registry_Fetch ::
  "'f rule_env \<Rightarrow> (string \<rightharpoonup> fetcher) \<Rightarrow> string \<Rightarrow> string \<Rightarrow> (string \<times> string) list \<Rightarrow> source_err + releaseAsset list" where
  "registry_Fetch env reg name sourceType params =
     (case reg sourceType of
        None \<Rightarrow> Inl (NoFetcherFor sourceType)
      | Some f \<Rightarrow> fetcher_Fetch env f \<lparr>cs_Name = name, cs_Type = sourceType, cs_Params = params\<rparr>)"

definition registry_Get :: "(string \<rightharpoonup> fetcher) \<Rightarrow> string \<Rightarrow> fetcher option" where
  "registry_Get reg sourceType = reg sourceType"

definition FromProject :: "string \<Rightarrow> string \<Rightarrow> projectSettings \<Rightarrow> crawl_source" where
  "FromProject name sourceType settings =
     \<lparr>cs_Name = name, cs_Type = sourceType, cs_Params = [(''owner'', ps_GitHubOwner settings), (''repo'', ps_GitHubRepo settings)]\<rparr>"

text \<open>\<^verbatim>\<open>AsParams\<close>, or its panic.\<close>

fun as_pairs :: "string list \<Rightarrow> (string \<rightharpoonup> string) \<Rightarrow> (string \<rightharpoonup> string)" where
  "as_pairs (k # v # kvs) m = as_pairs kvs (m(k \<mapsto> v))"
| "as_pairs _ m = m"

definition AsParams :: "string list \<Rightarrow> (string \<rightharpoonup> string) option" where
  "AsParams kv = (if length kv mod 2 \<noteq> 0 then None else Some (as_pairs kv Map.empty))"

section \<open>github.go and github.yaml\<close>

record github_asset =
  ga_Name :: string
  ga_URL :: string
  ga_Size :: int

record github_release =
  gr_TagName :: string
  gr_Prerelease :: bool
  gr_Draft :: bool
  gr_Assets :: "github_asset list"

fun request_err :: "string \<Rightarrow> string \<Rightarrow> http_err \<Rightarrow> string" where
  "request_err creating fetching (BadRequest e) = creating @ '': '' @ e"
| "request_err creating fetching (NoAnswer e) = fetching @ '': '' @ e"

definition github_headers :: "string \<Rightarrow> string \<Rightarrow> (string \<times> string) list" where
  "github_headers agent tok =
     [(''Accept'', ''application/vnd.github+json''), (''User-Agent'', agent)] @
     (if tok \<noteq> [] then [(''Authorization'', ''token '' @ tok)] else [])"

definition release_assets :: "github_release \<Rightarrow> releaseAsset list" where
  "release_assets r =
     (if gr_Prerelease r \<or> gr_Draft r then []
      else map (\<lambda>a. (parseFilename (ga_Name a))\<lparr>ra_Version := trim_prefix (gr_TagName r) ''v'', ra_Filename := ga_Name a,
         ra_DownloadURL := ga_URL a, ra_SizeBytes := word_of_int (ga_Size a)\<rparr>) (gr_Assets r))"

definition rate_near_exhaustion :: "http_response \<Rightarrow> bool" where
  "rate_near_exhaustion r =
     (if ha_remaining r = [] then False else case ParseInt64 (ha_remaining r) of Some v \<Rightarrow> v < 5 | None \<Rightarrow> False)"

definition github_FetchReleases ::
  "(string \<Rightarrow> (string \<times> string) list \<Rightarrow> http_err + http_response) \<Rightarrow> (string \<Rightarrow> string option \<Rightarrow> string + github_release list) \<Rightarrow>
   string \<Rightarrow> string \<Rightarrow> string \<Rightarrow> string \<Rightarrow> string \<Rightarrow> string + releaseAsset list" where
  "github_FetchReleases http decode baseURL agent tok owner repo =
     (case http (baseURL @ ''/repos/'' @ owner @ ''/'' @ repo @ ''/releases?per_page=10'') (github_headers agent tok) of
        Inl e \<Rightarrow> Inl (request_err ''creating request'' ''fetching releases'' e)
      | Inr r \<Rightarrow>
          if rate_near_exhaustion r
          then Inl (''rate_limited: GitHub API rate limit near exhaustion ('' @ format_int (the (ParseInt64 (ha_remaining r))) @
            '' remaining): rate limited by upstream API'')
          else if ha_status r \<noteq> 200 then Inl (''GitHub API returned status '' @ format_int (ha_status r) @ '': '' @ ha_body r)
          else (case decode (ha_body r) (ha_fail r) of
              Inl e \<Rightarrow> Inl (''decoding response: '' @ e)
            | Inr releases \<Rightarrow> Inr (concat (map release_assets releases))))"

definition github_fingerprint :: fingerprint where
  "github_fingerprint =
     \<lparr>fp_Name = ''github'', fp_URL = ''https://api.github.com/repos/{owner}/{repo}/releases?per_page=10'', fp_Format = ''json'',
      fp_Header = [(''Accept'', ''application/vnd.github+json'')], fp_ListPath = ''[]'', fp_Selector = [],
      fp_Skip = [''.prerelease'', ''.draft''], fp_Version = ''.tag_name'', fp_Filename = [], fp_DownloadURL = [], fp_Size = [],
      fp_Checksum = [], fp_Assets = Some \<lparr>ae_Path = ''.assets[]'', ae_Filename = ''.name'', ae_DownloadURL = ''.browser_download_url'',
        ae_Size = ''.size'', ae_Checksum = []\<rparr>, fp_Classify = ''filename-parser'', fp_VersionStrip = ''v'', fp_Attr = [],
      fp_Basename = False, fp_Resolve = [], fp_Include = [], fp_Exclude = [], fp_VersionRegex = []\<rparr>"

section \<open>Templates of addresses\<close>

lemma token_matches:
  assumes "CHR ''}'' \<notin> set x" "CHR ''}'' \<notin> set k"
  shows "has_prefix (CHR ''{'' # k @ CHR ''}'' # s) (''{'' @ x @ ''}'') \<longleftrightarrow> x = k"
  using assms
proof (induction x arbitrary: k)
  case Nil
  then show ?case by (cases k) auto
next
  case (Cons a x)
  then show ?case by (cases k) auto
qed

lemma find_token:
  assumes "CHR ''}'' \<notin> set k" "\<forall>x \<in> fst ` set ps. CHR ''}'' \<notin> set x"
  shows "List.find (\<lambda>(old, new). has_prefix (CHR ''{'' # k @ CHR ''}'' # s) old) (tokenize ps) =
     map_option (\<lambda>v. (''{'' @ k @ ''}'', v)) (map_of ps k)"
  using assms(2)
proof (induction ps)
  case Nil
  show ?case by (simp add: tokenize_def)
next
  case (Cons p ps)
  obtain x v where p: "p = (x, v)" by (cases p)
  with Cons have x: "CHR ''}'' \<notin> set x" by simp
  from Cons have ih: "List.find (\<lambda>(old, new). has_prefix (CHR ''{'' # k @ CHR ''}'' # s) old) (tokenize ps) =
     map_option (\<lambda>v. (''{'' @ k @ ''}'', v)) (map_of ps k)" by simp
  have t: "tokenize (p # ps) = (''{'' @ x @ ''}'', v) # tokenize ps" by (simp add: tokenize_def p)
  show ?case
    unfolding t using token_matches [OF x assms(1), of s] ih by (cases "x = k") (simp_all add: p)
qed

lemma replace_pairs_skip: "replace_pairs ps n s = replace_pairs ps 0 (drop n s)"
proof (induction n arbitrary: s)
  case (Suc n)
  then show ?case by (cases s) auto
qed simp

lemma find_no_token: "c \<noteq> CHR ''{'' \<Longrightarrow> List.find (\<lambda>(old, new). has_prefix (c # s) old) (tokenize ps) = None"
  by (auto simp: find_None_iff tokenize_def)

lemma replace_pairs_text:
  "CHR ''{'' \<notin> set u \<Longrightarrow> replace_pairs (tokenize ps) 0 (u @ s) = u @ replace_pairs (tokenize ps) 0 s"
  by (induction u) (auto simp: find_no_token)

lemma replace_pairs_token:
  assumes "CHR ''}'' \<notin> set k" "\<forall>x \<in> fst ` set ps. CHR ''}'' \<notin> set x" "map_of ps k = Some v"
  shows "replace_pairs (tokenize ps) 0 (CHR ''{'' # k @ CHR ''}'' # s) = v @ replace_pairs (tokenize ps) 0 s"
  using find_token [OF assms(1, 2), of s] assms(3)
  by (simp add: replace_pairs_skip [where n = "Suc _"])

definition template_text :: "(string \<times> string) list \<Rightarrow> string" where
  "template_text segs = concat (map (\<lambda>(u, k). u @ ''{'' @ k @ ''}'') segs)"

lemma interpolate_template:
  assumes "\<forall>(u, k) \<in> set segs. CHR ''{'' \<notin> set u \<and> CHR ''}'' \<notin> set k \<and> k \<in> dom (map_of ps)"
    and "\<forall>x \<in> fst ` set ps. CHR ''}'' \<notin> set x" and "CHR ''{'' \<notin> set t"
  shows "interpolate (template_text segs @ t) ps = concat (map (\<lambda>(u, k). u @ the (map_of ps k)) segs) @ t"
  using assms(1)
proof (induction segs)
  case Nil
  show ?case using replace_pairs_text [OF assms(3), of ps "[]"] by (simp add: interpolate_def template_text_def)
next
  case (Cons seg segs)
  obtain u k where seg: "seg = (u, k)" by (cases seg)
  with Cons.prems obtain v where k: "CHR ''{'' \<notin> set u" "CHR ''}'' \<notin> set k" "map_of ps k = Some v" by auto
  have t: "template_text (seg # segs) @ t = u @ CHR ''{'' # k @ CHR ''}'' # (template_text segs @ t)"
    by (simp add: template_text_def seg)
  have "interpolate (template_text (seg # segs) @ t) ps = u @ v @ interpolate (template_text segs @ t) ps"
    unfolding t interpolate_def replace_pairs_text [OF k(1)] replace_pairs_token [OF k(2) assms(2) k(3)] by simp
  then show ?case using Cons k seg by simp
qed

section \<open>One parser of file names\<close>

lemma fileExt_compoundExt: "fileExt name = compoundExt name"
  by (simp add: fileExt_def compoundExt_def)

lemma classify_parseFilename:
  "classify name = (ra_OS (parseFilename name), ra_Arch (parseFilename name), ra_Ext (parseFilename name))"
  by (simp add: classify_def parseFilename_def fileExt_compoundExt splitOn_def splitFilename_def Let_def split: prod.split)

lemma getPath_empty: "getPath node [] = Some node"
  by (simp add: getPath_def trim_space_plain trim_prefix_def)

section \<open>The fingerprint and the crawler of GitHub\<close>

text \<open>A JSON object that the decoder of the crawler reads as the given asset or release.\<close>

fun asset_json :: "'f floats \<Rightarrow> 'f json \<Rightarrow> github_asset \<Rightarrow> bool" where
  "asset_json fl (JObj kvs) a \<longleftrightarrow>
     map_of kvs ''name'' = Some (JStr (ga_Name a)) \<and> map_of kvs ''browser_download_url'' = Some (JStr (ga_URL a)) \<and>
     (case map_of kvs ''size'' of Some (JNum x) \<Rightarrow> fl_int64 fl x = ga_Size a | _ \<Rightarrow> False)"
| "asset_json fl _ a \<longleftrightarrow> False"

fun release_json :: "'f floats \<Rightarrow> 'f json \<Rightarrow> github_release \<Rightarrow> bool" where
  "release_json fl (JObj kvs) r \<longleftrightarrow>
     map_of kvs ''tag_name'' = Some (JStr (gr_TagName r)) \<and> map_of kvs ''prerelease'' = Some (JBool (gr_Prerelease r)) \<and>
     map_of kvs ''draft'' = Some (JBool (gr_Draft r)) \<and>
     (case map_of kvs ''assets'' of Some (JArr xs) \<Rightarrow> list_all2 (asset_json fl) xs (gr_Assets r) | _ \<Rightarrow> False)"
| "release_json fl _ r \<longleftrightarrow> False"

abbreviation without_checksum :: "releaseAsset \<Rightarrow> releaseAsset" where
  "without_checksum \<equiv> ra_Checksum_update (\<lambda>_. [])"

lemma getPath_field:
  assumes "k \<noteq> []" "CHR ''.'' \<notin> set k" "plain_char (last k)"
  shows "getPath (JObj kvs) (CHR ''.'' # k) = map_of kvs k"
proof -
  have "trim_space (CHR ''.'' # k) = CHR ''.'' # k"
    using assms by (intro trim_space_plain) (auto simp: plain_char_def)
  then show ?thesis using assms
    by (simp add: getPath_def trim_prefix_def split_char_no_sep split: option.split)
qed

lemma each_element_appends:
  assumes "\<forall>j r out. P j r \<longrightarrow> (\<exists>cs. f j out = Inr (out @ cs) \<and> map c cs = g r)" and "list_all2 P js rs"
  shows "\<exists>cs. each_element f js out = Inr (out @ cs) \<and> map c cs = concat (map g rs)"
  using assms(2)
proof (induction js rs arbitrary: out rule: list_all2_induct)
  case (Cons j js r rs)
  with assms(1) obtain cs where cs: "f j out = Inr (out @ cs)" "map c cs = g r" by blast
  from Cons.IH [of "out @ cs"] obtain ds where ds: "each_element f js (out @ cs) = Inr (out @ cs @ ds)"
    "map c ds = concat (map g rs)" by auto
  have "each_element f (j # js) out = Inr (out @ cs @ ds)" "map c (cs @ ds) = concat (map g (r # rs))"
    using cs ds by simp_all
  then show ?case by blast
qed simp

lemma github_paths:
  "parseArrayPath ''.assets[]'' = (''assets'', True)" "parseArrayPath ''[]'' = ([], True)"
  by (simp_all add: parseArrayPath_def trim_space_plain plain_char_def trim_prefix_def trim_suffix_def has_suffix_def)

lemma github_asset_step:
  assumes "asset_json fl j a" "fp_VersionStrip spec = ''v''" "fp_Classify spec = ''filename-parser''"
  shows "without_checksum (finalizeAsset spec (buildAsset fl j ''.name'' ''.browser_download_url'' ''.size'' [] v)) =
    (parseFilename (ga_Name a))\<lparr>ra_Version := trim_prefix v ''v'', ra_Filename := ga_Name a, ra_DownloadURL := ga_URL a,
       ra_SizeBytes := word_of_int (ga_Size a)\<rparr>"
proof -
  obtain kvs where j: "j = JObj kvs" using assms(1) by (cases j) auto
  have f: "mustGet j ''.name'' = JStr (ga_Name a)" "mustGet j ''.browser_download_url'' = JStr (ga_URL a)"
    using assms(1) by (simp_all add: j mustGet_def getPath_field plain_char_def)
  have g: "asInt fl (mustGet j ''.size'') = ga_Size a"
    using assms(1) by (auto simp: j mustGet_def getPath_field plain_char_def split: option.splits json.splits)
  show ?thesis
    unfolding finalizeAsset_def buildAsset_def f g classify_parseFilename Let_def assms(2, 3)
    by (simp add: parseFilename_def Let_def split: prod.split)
qed

lemma github_unit_step:
  assumes "release_json fl j r" and spec: "fp_Skip spec = [''.prerelease'', ''.draft'']" "fp_Version spec = ''.tag_name''"
    "fp_VersionStrip spec = ''v''" "fp_Classify spec = ''filename-parser''"
    "fp_Assets spec = Some \<lparr>ae_Path = ''.assets[]'', ae_Filename = ''.name'', ae_DownloadURL = ''.browser_download_url'',
        ae_Size = ''.size'', ae_Checksum = []\<rparr>"
  shows "\<exists>cs. processUnit fl spec j out = Inr (out @ cs) \<and> map without_checksum cs = release_assets r"
proof -
  obtain kvs where j: "j = JObj kvs" using assms(1) by (cases j) auto
  obtain xs where xs: "map_of kvs ''assets'' = Some (JArr xs)" "list_all2 (asset_json fl) xs (gr_Assets r)"
    using assms(1) by (auto simp: j split: option.splits json.splits)
  have tag: "mustGet j ''.tag_name'' = JStr (gr_TagName r)"
    using assms(1) by (simp add: j mustGet_def getPath_field plain_char_def)
  have skip: "list_ex (truthy j) (fp_Skip spec) \<longleftrightarrow> gr_Prerelease r \<or> gr_Draft r"
    using assms(1) by (simp add: spec j truthy_def getPath_field plain_char_def)
  show ?thesis
  proof (cases "gr_Prerelease r \<or> gr_Draft r")
    case True
    then have "processUnit fl spec j out = Inr (out @ []) \<and> map without_checksum [] = release_assets r"
      using skip by (simp add: processUnit_def release_assets_def)
    then show ?thesis by (rule exI)
  next
    case False
    define v where "v = gr_TagName r"
    define b where "b = (\<lambda>asset. finalizeAsset spec (buildAsset fl asset ''.name'' ''.browser_download_url'' ''.size'' [] v))"
    define g where "g = (\<lambda>a :: github_asset. [(parseFilename (ga_Name a))\<lparr>ra_Version := trim_prefix v ''v'', ra_Filename := ga_Name a,
      ra_DownloadURL := ga_URL a, ra_SizeBytes := word_of_int (ga_Size a)\<rparr>])"
    have "\<forall>j a out. asset_json fl j a \<longrightarrow> (\<exists>cs. (\<lambda>asset out. Inr (out @ [b asset])) j out = Inr (out @ cs) \<and>
       map without_checksum cs = g a)"
      by (simp add: b_def g_def github_asset_step [OF _ spec(3, 4)])
    from each_element_appends [OF this xs(2), of out] obtain cs where
      cs: "each_element (\<lambda>asset out. Inr (out @ [b asset])) xs out = Inr (out @ cs)"
        "map without_checksum cs = concat (map g (gr_Assets r))" by blast
    have it: "iterArray j ''.assets[]'' f out = each_element f xs out" for f :: "'a json \<Rightarrow> releaseAsset list \<Rightarrow> rulesrc_err + releaseAsset list"
      by (simp add: iterArray_def github_paths field_of_def j xs(1))
    have ns: "\<not> list_ex (truthy j) (fp_Skip spec)" using False skip by blast
    have "processUnit fl spec j out = each_element (\<lambda>asset out. Inr (out @ [b asset])) xs out"
      unfolding processUnit_def Let_def if_not_P [OF ns] spec(2, 5) tag option.case assetExtract.simps it b_def v_def asString.simps ..
    then have "processUnit fl spec j out = Inr (out @ cs)" using cs(1) by simp
    moreover have "concat (map g (gr_Assets r)) = release_assets r"
      using False by (simp add: release_assets_def g_def v_def concat_map_singleton)
    ultimately have "processUnit fl spec j out = Inr (out @ cs) \<and> map without_checksum cs = release_assets r"
      using cs(2) by simp
    then show ?thesis by (rule exI)
  qed
qed

lemma ApplyFilter_none: "fp_Include spec = [] \<Longrightarrow> fp_Exclude spec = [] \<Longrightarrow> ApplyFilter env as spec = as"
  by (simp add: ApplyFilter_def keepFilter_def)

lemma github_spec_auth:
  "\<exists>h. (case toks of None \<Rightarrow> github_fingerprint | Some f \<Rightarrow>
      if f k \<noteq> [] then withAuthHeader github_fingerprint (''token '' @ f k) else github_fingerprint) = github_fingerprint\<lparr>fp_Header := h\<rparr> \<and>
     h = (''Accept'', ''application/vnd.github+json'') #
       (case toks of None \<Rightarrow> [] | Some f \<Rightarrow> if f k \<noteq> [] then [(''Authorization'', ''token '' @ f k)] else [])"
  by (auto simp: withAuthHeader_def github_fingerprint_def split: option.split)

lemma github_url:
  assumes "map_of ps = [''owner'' \<mapsto> owner, ''repo'' \<mapsto> repo]"
  shows "interpolate (fp_URL github_fingerprint) ps = ''https://api.github.com/repos/'' @ owner @ ''/'' @ repo @ ''/releases?per_page=10''"
proof -
  define segs where "segs = [(''https://api.github.com/repos/'', ''owner''), (''/'', ''repo'')]"
  have u: "fp_URL github_fingerprint = template_text segs @ ''/releases?per_page=10''"
    by (simp add: github_fingerprint_def template_text_def segs_def)
  have "fst ` set ps = {''owner'', ''repo''}" using assms dom_map_of_conv_image_fst [of ps] by (simp add: insert_commute)
  then have "\<forall>x \<in> fst ` set ps. CHR ''}'' \<notin> set x" by simp
  from interpolate_template [OF _ this, of segs "''/releases?per_page=10''"] assms show ?thesis
    unfolding u by (simp add: segs_def)
qed

text \<open>
  For a project of GitHub the fingerprint gives the files of the crawler it replaced: when both requests get
  the same good answer and the decoders of the two read the same releases from it, the fetcher of the
  fingerprint returns, in the same order and with the same version, name, system, architecture, extension,
  address and size, the assets of \<^verbatim>\<open>FetchReleases\<close>; whatever the order in which the parameters are iterated. Only
  the checksums are left out of the comparison.
\<close>

theorem github_fingerprint_equivalent:
  assumes reg: "map_of (rf_builtins rf) ''github'' = Some github_fingerprint"
    and src: "cs_Type src = ''github''" "map_of (cs_Params src) = [''owner'' \<mapsto> owner, ''repo'' \<mapsto> repo]"
    and tok: "tok = (case rf_tokens rf of None \<Rightarrow> [] | Some f \<Rightarrow> f ''github'')"
    and url: "url = ''https://api.github.com/repos/'' @ owner @ ''/'' @ repo @ ''/releases?per_page=10''"
    and ans: "re_http env url (github_headers agent tok) = Inr r"
      "re_http env url ((''User-Agent'', ''MiBeeHive-rulesrc/1.0'') # (''Accept'', ''application/vnd.github+json'') #
         (if tok \<noteq> [] then [(''Authorization'', ''token '' @ tok)] else [])) = Inr r"
    and good: "ha_status r = 200" "\<not> rate_near_exhaustion r"
    and dec: "decode (ha_body r) (ha_fail r) = Inr releases" "re_decode env (ha_body r) (ha_fail r) = Inr (JArr items)"
      "list_all2 (release_json (re_floats env)) items releases"
  shows "\<exists>as bs. github_FetchReleases (re_http env) decode ''https://api.github.com'' agent tok owner repo = Inr as \<and>
     rule_Fetch env rf src = Inr bs \<and> map without_checksum bs = as"
proof -
  define auth where "auth = (if tok \<noteq> [] then [(''Authorization'', ''token '' @ tok)] else [])"
  obtain h where h: "(case rf_tokens rf of None \<Rightarrow> github_fingerprint | Some f \<Rightarrow>
      if f ''github'' \<noteq> [] then withAuthHeader github_fingerprint (''token '' @ f ''github'') else github_fingerprint) =
        github_fingerprint\<lparr>fp_Header := h\<rparr>" "h = (''Accept'', ''application/vnd.github+json'') # auth"
    using github_spec_auth [where toks = "rf_tokens rf" and k = "''github''"] by (auto simp: auth_def tok split: option.splits)
  define spec where "spec = github_fingerprint\<lparr>fp_Header := h\<rparr>"
  have spec: "fp_URL spec = fp_URL github_fingerprint" "fp_Header spec = h" "fp_Format spec = ''json''" "fp_ListPath spec = ''[]''"
    "fp_Include spec = []" "fp_Exclude spec = []"
    by (simp_all add: spec_def github_fingerprint_def)
  have keys: "fst ` set (cs_Params src) = {''owner'', ''repo''}" using src(2) dom_map_of_conv_image_fst [of "cs_Params src"]
    by (simp add: insert_commute)
  have par: "filter (\<lambda>(k, v). k \<noteq> ''fingerprint'' \<and> k \<noteq> ''fingerprint_yaml'') (cs_Params src) = cs_Params src"
  proof (rule filter_True, rule ballI)
    fix p assume "p \<in> set (cs_Params src)"
    then have "fst p \<in> {''owner'', ''repo''}" using keys by blast
    then have "fst p \<noteq> ''fingerprint'' \<and> fst p \<noteq> ''fingerprint_yaml''" by auto
    then show "case p of (k, v) \<Rightarrow> k \<noteq> ''fingerprint'' \<and> k \<noteq> ''fingerprint_yaml''" by (simp add: case_prod_beta)
  qed
  have ne: "cs_Params src \<noteq> []"
  proof
    assume "cs_Params src = []"
    then show False using keys by simp
  qed
  have "\<forall>j r out. release_json (re_floats env) j r \<longrightarrow> (\<exists>cs. processUnit (re_floats env) spec j out = Inr (out @ cs) \<and>
      map without_checksum cs = release_assets r)"
    by (intro allI impI, rule github_unit_step) (simp_all add: spec_def github_fingerprint_def)
  from each_element_appends [OF this dec(3), of "[]"]
  obtain bs where bs: "each_element (processUnit (re_floats env) spec) items [] = Inr bs"
    "map without_checksum bs = concat (map release_assets releases)" by auto
  have get: "getter_Get env url h = Inr r" using ans(2) good(1) by (simp add: getter_Get_def h(2) auth_def)
  have parse: "parseJSONSource env r spec = Inr bs"
    using bs(1) by (simp add: parseJSONSource_def dec(2) spec(4) github_paths iterArray_def)
  have u: "interpolate (fp_URL spec) (cs_Params src) = url" unfolding spec(1) github_url [OF src(2)] url ..
  have "FetchWithParams env spec (cs_Params src) = Inr bs"
    unfolding FetchWithParams_def Let_def if_P [OF ne] u spec(2) get by (simp add: parse spec(3))
  then have "fetchWithSpec env rf github_fingerprint src ''github'' = Inr bs"
    unfolding fetchWithSpec_def h(1) par spec_def [symmetric] Let_def by (simp add: ApplyFilter_none spec(5, 6))
  then have rule: "rule_Fetch env rf src = Inr bs"
    using src reg by (simp add: rule_Fetch_def param_of_def Let_def)
  have v: "''https://api.github.com'' @ ''/repos/'' @ owner @ ''/'' @ repo @ ''/releases?per_page=10'' = url" by (simp add: url)
  have "github_FetchReleases (re_http env) decode ''https://api.github.com'' agent tok owner repo = Inr (map without_checksum bs)"
    unfolding github_FetchReleases_def bs(2) v ans(1) using good dec(1) by simp
  with rule show ?thesis by blast
qed

text \<open>The witness: one release with two files, the fields of the second one in another order.\<close>

definition int_floats :: "int floats" where
  "int_floats = \<lparr>fl_int64 = id, fl_of_int = id, fl_format = format_int, fl_marshal = (\<lambda>_. ''{...}'')\<rparr>"

definition demo_items :: "int json list" where
  "demo_items =
     [JObj [(''tag_name'', JStr ''v3.11.3''), (''prerelease'', JBool False), (''draft'', JBool False), (''assets'', JArr
        [JObj [(''name'', JStr ''prometheus-3.11.3.linux-amd64.tar.gz''), (''browser_download_url'', JStr ''https://gh/a''), (''size'', JNum 100)],
         JObj [(''size'', JNum 90), (''name'', JStr ''sha256sums.txt''), (''browser_download_url'', JStr ''https://gh/b'')]])],
      JObj [(''tag_name'', JStr ''v3.12.0-rc.1''), (''prerelease'', JBool True), (''draft'', JBool False), (''assets'', JArr [])]]"

definition demo_gh_releases :: "github_release list" where
  "demo_gh_releases =
     [\<lparr>gr_TagName = ''v3.11.3'', gr_Prerelease = False, gr_Draft = False, gr_Assets =
        [\<lparr>ga_Name = ''prometheus-3.11.3.linux-amd64.tar.gz'', ga_URL = ''https://gh/a'', ga_Size = 100\<rparr>,
         \<lparr>ga_Name = ''sha256sums.txt'', ga_URL = ''https://gh/b'', ga_Size = 90\<rparr>]\<rparr>,
      \<lparr>gr_TagName = ''v3.12.0-rc.1'', gr_Prerelease = True, gr_Draft = False, gr_Assets = []\<rparr>]"

definition demo_response :: http_response where
  "demo_response = \<lparr>ha_status = 200, ha_remaining = ''57'', ha_body = ''[...]'', ha_fail = None, ha_url = ''u''\<rparr>"

definition demo_rule_env :: "int rule_env" where
  "demo_rule_env = \<lparr>re_floats = int_floats, re_http = (\<lambda>_ _. Inr demo_response), re_decode = (\<lambda>_ _. Inr (JArr demo_items)),
     re_html = (\<lambda>_ _. Inl []), re_resolve = (\<lambda>_ _. None), re_regex = (\<lambda>_. None), re_glob = (\<lambda>_ _. False), re_yaml = (\<lambda>_. Inl [])\<rparr>"

definition demo_fetcher :: rule_fetcher where
  "demo_fetcher = RegisterFingerprint github_fingerprint \<lparr>rf_builtins = [], rf_tokens = Some (\<lambda>_. ''t'')\<rparr>"

definition demo_source :: crawl_source where
  "demo_source = \<lparr>cs_Name = ''prometheus'', cs_Type = ''github'', cs_Params = [(''repo'', ''prometheus''), (''owner'', ''prom'')]\<rparr>"

theorem github_fingerprint_equivalent_witness:
  "\<exists>as bs. github_FetchReleases (re_http demo_rule_env) (\<lambda>_ _. Inr demo_gh_releases) ''https://api.github.com'' ''MiBeeHive/1.0'' ''t'' ''prom'' ''prometheus''
       = Inr as \<and> rule_Fetch demo_rule_env demo_fetcher demo_source = Inr bs \<and> map without_checksum bs = as"
proof (rule github_fingerprint_equivalent)
  show "map_of (rf_builtins demo_fetcher) ''github'' = Some github_fingerprint"
    by (simp add: demo_fetcher_def RegisterFingerprint_def github_fingerprint_def)
  show "cs_Type demo_source = ''github''" by (simp add: demo_source_def)
  show "map_of (cs_Params demo_source) = [''owner'' \<mapsto> ''prom'', ''repo'' \<mapsto> ''prometheus'']"
    by (simp add: demo_source_def fun_eq_iff)
  show "''t'' = (case rf_tokens demo_fetcher of None \<Rightarrow> [] | Some f \<Rightarrow> f ''github'')"
    by (simp add: demo_fetcher_def RegisterFingerprint_def)
  show "ha_status demo_response = 200" by (simp add: demo_response_def)
  show "\<not> rate_near_exhaustion demo_response" by code_simp
  show "list_all2 (release_json (re_floats demo_rule_env)) demo_items demo_gh_releases"
    by (simp add: demo_rule_env_def int_floats_def demo_items_def demo_gh_releases_def)
qed (simp_all add: demo_rule_env_def demo_response_def)

section \<open>The checksum of an asset and the routing of a source\<close>

text \<open>An asset whose fingerprint names no checksum gets the text of its whole JSON object as its checksum.\<close>

lemma unnamed_checksum:
  "ra_Checksum (finalizeAsset spec (buildAsset fl (JObj kvs) f u z [] v)) = fl_marshal fl (JObj kvs)"
  by (simp add: finalizeAsset_def buildAsset_def mustGet_def getPath_empty Let_def split: prod.split)

lemma fold_routes: "fold (\<lambda>t reg. reg(t \<mapsto> f)) ts reg t = (if t \<in> set ts then Some f else reg t)"
  by (induction ts arbitrary: reg) auto

text \<open>The last registration of a type wins, the others are kept.\<close>

lemma source_Register_exact:
  "registry_Get (source_Register f reg) t = (if t \<in> set (fetcher_Sources f) then Some f else registry_Get reg t)"
  by (simp add: registry_Get_def source_Register_def fold_routes)

lemma inline_fingerprint_wins:
  assumes "param_of (cs_Params src) ''fingerprint_yaml'' = y" "y \<noteq> []"
  shows "rule_Fetch env r src = (case ParseSpec (re_yaml env) y of
      Inl e \<Rightarrow> Inl (InvalidInline (cs_Name src) e)
    | Inr spec \<Rightarrow> fetchWithSpec env r spec src
        (if param_of (cs_Params src) ''fingerprint'' = [] then cs_Type src else param_of (cs_Params src) ''fingerprint''))"
  using assms by (simp add: rule_Fetch_def Let_def)

lemma RegisterFingerprint_names:
  "fst ` set (rf_builtins (RegisterFingerprint s r)) = insert (fp_Name s) (fst ` set (rf_builtins r))"
  by (force simp: RegisterFingerprint_def)

lemma loadBuiltins_registers:
  assumes "loadBuiltins yaml fs r = (None, r')" "(name, data) \<in> set fs"
  shows "\<exists>spec. ParseSpec yaml data = Inr spec \<and> fp_Name spec \<in> set (map fst (rf_builtins r'))"
  using assms
proof (induction yaml fs r rule: loadBuiltins.induct)
  case (2 yaml name' data' fs r)
  have keep: "fp_Name spec \<in> set (map fst (rf_builtins q')) " if "loadBuiltins yaml gs q = (None, q')"
    "fp_Name spec \<in> set (map fst (rf_builtins q))" for gs q q' and spec :: fingerprint
    using that
  proof (induction yaml gs q rule: loadBuiltins.induct)
    case (2 yaml n d gs q)
    then show ?case by (auto split: sum.splits simp: RegisterFingerprint_names)
  qed simp
  obtain s where s: "ParseSpec yaml data' = Inr s" "loadBuiltins yaml fs (RegisterFingerprint s r) = (None, r')"
    using 2 by (auto split: sum.splits)
  show ?case
  proof (cases "(name, data) \<in> set fs")
    case True
    then show ?thesis using 2 s by (auto split: sum.splits)
  next
    case False
    then have "data = data'" using 2 by auto
    moreover have "fp_Name s \<in> set (map fst (rf_builtins r'))"
      by (rule keep [OF s(2)]) (simp add: RegisterFingerprint_def)
    ultimately show ?thesis using s(1) by blast
  qed
qed simp

lemma ParseSpec_ok:
  "ParseSpec yaml data = Inr spec \<Longrightarrow> fp_Name spec \<noteq> [] \<and> fp_URL spec \<noteq> [] \<and>
     (fp_Format spec = ''json'' \<and> fp_ListPath spec \<noteq> [] \<or> fp_Format spec = ''html'' \<and> fp_Selector spec \<noteq> [])"
  by (auto simp: ParseSpec_def spec_validate_def split: sum.splits if_splits)

end
