(* ===== verification/Source_Crawlers.thy ===== *)
theory Source_Crawlers
  imports Rule_Source
begin

text \<open>
  The crawlers of src/internal/crawler for Go, Grafana, HashiCorp, npm, PyPI and crates.io, and version.go.
  The HTTP client and the decoders of the answers are parameters; a decoder gets the bytes of the body and the
  error that reading meets after them. A JSON object that is decoded into a map is a list of pairs, in the order in which the
  code iterates over it.

  The lemmas compare the fingerprint of Grafana with the crawler that it replaced, and say which versions of a
  package the crawlers of npm, PyPI and crates.io give.
\<close>

section \<open>golang.go\<close>

record goFile =
  gf_OS :: string
  gf_Arch :: string
  gf_Kind :: string
  gf_Filename :: string
  gf_Size :: int
  gf_SHA256 :: string

record goVersion =
  gv_Version :: string
  gv_Files :: "goFile list"

type_synonym http = "string \<Rightarrow> (string \<times> string) list \<Rightarrow> http_err + http_response"

type_synonym 'a decoder = "string \<Rightarrow> string option \<Rightarrow> string + 'a"

definition UserAgent :: string where
  "UserAgent = ''MiBeeHive/1.0''"

definition bearer_headers :: "string \<Rightarrow> (string \<times> string) list" where
  "bearer_headers tok = (''User-Agent'', UserAgent) # (if tok \<noteq> [] then [(''Authorization'', ''Bearer '' @ tok)] else [])"

definition go_kept :: "goFile \<Rightarrow> bool" where
  "go_kept f \<longleftrightarrow> gf_Kind f \<noteq> ''source'' \<and> \<not> (gf_Kind f = ''archive'' \<and> has_suffix (gf_Filename f) ''.src.tar.gz'')"

definition go_asset :: "string \<Rightarrow> goFile \<Rightarrow> releaseAsset" where
  "go_asset version f = \<lparr>ra_Version = version, ra_Filename = gf_Filename f, ra_OS = gf_OS f, ra_Arch = gf_Arch f,
     ra_Ext = fileExt (gf_Filename f), ra_DownloadURL = ''https://go.dev/dl/'' @ gf_Filename f, ra_SizeBytes = word_of_int (gf_Size f),
     ra_Checksum = gf_SHA256 f\<rparr>"

definition go_FetchReleases :: "http \<Rightarrow> goVersion list decoder \<Rightarrow> string \<Rightarrow> string \<Rightarrow> string \<Rightarrow> string + releaseAsset list" where
  "go_FetchReleases http decode baseURL owner repo =
     (case http (baseURL @ ''/dl/?mode=json&include=all'') [(''User-Agent'', UserAgent)] of
        Inl e \<Rightarrow> Inl (request_err ''creating request'' ''fetching go releases'' e)
      | Inr r \<Rightarrow>
          if ha_status r \<noteq> 200 then Inl (''go.dev API returned status '' @ format_int (ha_status r) @ '': '' @ ha_body r)
          else (case decode (ha_body r) (ha_fail r) of
              Inl e \<Rightarrow> Inl (''decoding response: '' @ e)
            | Inr [] \<Rightarrow> Inr []
            | Inr (latest # _) \<Rightarrow> Inr (map (go_asset (trim_prefix (gv_Version latest) ''go'')) (filter go_kept (gv_Files latest)))))"

section \<open>grafana.go and grafana.yaml\<close>

definition grafana_FetchReleases ::
  "http \<Rightarrow> github_release decoder \<Rightarrow> string \<Rightarrow> string \<Rightarrow> string \<Rightarrow> string \<Rightarrow> string + releaseAsset list" where
  "grafana_FetchReleases http decode baseURL tok owner repo =
     (case http (baseURL @ ''/repos/grafana/grafana/releases/latest'') (github_headers UserAgent tok) of
        Inl e \<Rightarrow> Inl (request_err ''creating request'' ''fetching grafana release'' e)
      | Inr r \<Rightarrow>
          if rate_near_exhaustion r
          then Inl (''rate_limited: GitHub API rate limit near exhaustion ('' @ format_int (the (ParseInt64 (ha_remaining r))) @
            '' remaining): rate limited by upstream API'')
          else if ha_status r \<noteq> 200 then Inl (''GitHub API returned status '' @ format_int (ha_status r) @ '': '' @ ha_body r)
          else (case decode (ha_body r) (ha_fail r) of
              Inl e \<Rightarrow> Inl (''decoding response: '' @ e) | Inr release \<Rightarrow> Inr (release_assets release)))"

definition grafana_fingerprint :: fingerprint where
  "grafana_fingerprint = github_fingerprint\<lparr>fp_Name := ''grafana'',
     fp_URL := ''https://api.github.com/repos/grafana/grafana/releases/latest'', fp_ListPath := ''.''\<rparr>"

section \<open>hashicorp.go\<close>

record hashiCorpBuild =
  hb_OS :: string
  hb_Arch :: string
  hb_URL :: string
  hb_Filename :: string
  hb_SHA256 :: string

record hashiCorpRelease =
  hr_Version :: string
  hr_Builds :: "hashiCorpBuild list"

definition hashicorp_asset :: "string \<Rightarrow> hashiCorpBuild \<Rightarrow> releaseAsset" where
  "hashicorp_asset version b =
     (let filename = (if hb_Filename b = [] then path_base (hb_URL b) else hb_Filename b) in
      (parseFilename filename)\<lparr>ra_Version := version, ra_Filename := filename, ra_DownloadURL := hb_URL b, ra_Checksum := hb_SHA256 b,
         ra_OS := hb_OS b, ra_Arch := hb_Arch b\<rparr>)"

text \<open>The UTF-8 encoding of U+2014.\<close>

definition em_dash :: string where
  "em_dash = [CHR 0xE2, CHR 0x80, CHR 0x94]"

definition hashicorp_FetchReleases ::
  "http \<Rightarrow> hashiCorpRelease list decoder \<Rightarrow> string \<Rightarrow> string \<Rightarrow> string \<Rightarrow> string \<Rightarrow> string + releaseAsset list" where
  "hashicorp_FetchReleases http decode baseURL tok owner repo =
     (if owner = [] then Inl (''hashicorp product name is empty '' @ em_dash @
        '' set the project'' @ [CHR 0x27] @ ''s owner to the product (e.g. consul, packer) or fix its source URL'')
      else case http (baseURL @ ''/v1/releases/'' @ owner) (bearer_headers tok) of
          Inl e \<Rightarrow> Inl (request_err ''creating request'' ''fetching hashicorp releases'' e)
        | Inr r \<Rightarrow>
            if ha_status r = 403 then
              (if tok = [] then Inl (''HashiCorp API token required for '' @ owner @ '' '' @ em_dash @
                 '' configure in Settings > API Tokens'')
               else Inl (''HashiCorp API returned 403 for '' @ owner @ '' (token may be invalid or revoked): '' @ ha_body r))
            else if ha_status r \<noteq> 200 then
              Inl (''hashicorp API returned status '' @ format_int (ha_status r) @ '' for '' @ owner @ '': '' @ ha_body r)
            else (case decode (ha_body r) (ha_fail r) of
                Inl e \<Rightarrow> Inl (''decoding response: '' @ e)
              | Inr [] \<Rightarrow> Inr []
              | Inr (latest # _) \<Rightarrow> Inr (map (hashicorp_asset (hr_Version latest)) (hr_Builds latest))))"

section \<open>npm.go\<close>

record npmDist =
  nd_Tarball :: string
  nd_Size :: int
  nd_Checksum :: string

definition tarballFilename :: "string \<Rightarrow> string" where
  "tarballFilename url = last (split_char slash url)"

definition version_limit :: "int \<Rightarrow> nat" where
  "version_limit maxVersions = (if maxVersions \<le> 0 then 5 else nat maxVersions)"

text \<open>The versions that are kept: a descending sort of texts, of which no two are equal.\<close>

definition newest_names :: "int \<Rightarrow> string list \<Rightarrow> string list" where
  "newest_names maxVersions vs = take (version_limit maxVersions) (rev (sort vs))"

definition npm_asset :: "string \<Rightarrow> npmDist \<Rightarrow> releaseAsset" where
  "npm_asset ver d = \<lparr>ra_Version = ver, ra_Filename = tarballFilename (nd_Tarball d), ra_OS = [], ra_Arch = [], ra_Ext = ''.tgz'',
     ra_DownloadURL = nd_Tarball d, ra_SizeBytes = word_of_int (nd_Size d), ra_Checksum = nd_Checksum d\<rparr>"

definition npm_releases :: "int \<Rightarrow> (string \<times> npmDist) list \<Rightarrow> releaseAsset list" where
  "npm_releases maxVersions versions =
     (let stable = filter (\<lambda>ver. \<not> contains_sub ver ''-'') (map fst versions) in
      List.map_filter (\<lambda>ver. map_option (npm_asset ver) (map_of versions ver)) (newest_names maxVersions stable))"

definition npm_FetchReleases ::
  "http \<Rightarrow> (string \<times> npmDist) list decoder \<Rightarrow> int \<Rightarrow> string \<Rightarrow> string \<Rightarrow> string \<Rightarrow> string \<Rightarrow> string + releaseAsset list" where
  "npm_FetchReleases http decode maxVersions baseURL tok owner repo =
     (let packageName = (if owner \<noteq> [] then owner @ ''/'' @ repo else repo) in
      case http (baseURL @ ''/'' @ packageName) (bearer_headers tok) of
        Inl e \<Rightarrow> Inl (request_err ''creating npm request'' (''fetching npm package '' @ packageName) e)
      | Inr r \<Rightarrow>
          if ha_status r \<noteq> 200 then
            Inl (''npm registry returned status '' @ format_int (ha_status r) @ '' for '' @ packageName @ '': '' @ ha_body r)
          else (case decode (ha_body r) (ha_fail r) of
              Inl e \<Rightarrow> Inl (''decoding npm registry response: '' @ e)
            | Inr versions \<Rightarrow> Inr (npm_releases maxVersions versions)))"

section \<open>crates.go\<close>

record crateVersion =
  cv_Num :: string
  cv_Yanked :: bool

definition parseGitHubRepoURL :: "string \<Rightarrow> string \<times> string" where
  "parseGitHubRepoURL rawURL =
     (if rawURL = [] then ([], [])
      else let s = trim_prefix rawURL ''git+''; s = trim_prefix s ''git://''; s = trim_prefix s ''https://'';
               s = trim_prefix s ''http://''; s = trim_prefix s ''ssh://git@''; s = trim_prefix s ''git@github.com:'' in
        if \<not> has_prefix s ''github.com/'' then ([], [])
        else let s = trim_prefix s ''github.com/''; s = trim_suffix s ''.git''; s = trim_right_char slash s;
                 s = takeWhile (\<lambda>c. c \<noteq> CHR ''?'' \<and> c \<noteq> CHR ''#'') s in
          (case split_char slash s of owner # repo # _ \<Rightarrow> (owner, repo) | _ \<Rightarrow> ([], [])))"

definition fetchGitHubBinaries ::
  "http \<Rightarrow> github_release list decoder \<Rightarrow> string \<Rightarrow> string \<Rightarrow> string \<Rightarrow> string \<Rightarrow> string + releaseAsset list" where
  "fetchGitHubBinaries http decode githubBaseURL tok owner repo =
     (case http (githubBaseURL @ ''/repos/'' @ owner @ ''/'' @ repo @ ''/releases?per_page=10'') (github_headers UserAgent tok) of
        Inl e \<Rightarrow> Inl (request_err ''creating github request'' (''fetching github releases for '' @ owner @ ''/'' @ repo) e)
      | Inr r \<Rightarrow>
          if ha_status r \<noteq> 200 then Inl (''github API returned status '' @ format_int (ha_status r) @ '': '' @ ha_body r)
          else (case decode (ha_body r) (ha_fail r) of
              Inl e \<Rightarrow> Inl (''decoding github releases: '' @ e) | Inr releases \<Rightarrow> Inr (concat (map release_assets releases))))"

definition crate_asset :: "string \<Rightarrow> crateVersion \<Rightarrow> releaseAsset" where
  "crate_asset crateName v = \<lparr>ra_Version = cv_Num v, ra_Filename = crateName @ ''-'' @ cv_Num v @ ''.crate'', ra_OS = [], ra_Arch = [],
     ra_Ext = ''.crate'', ra_DownloadURL = ''https://crates.io/api/v1/crates/'' @ crateName @ ''/'' @ cv_Num v @ ''/download'',
     ra_SizeBytes = 0, ra_Checksum = []\<rparr>"

text \<open>The decoded answer: the repository of the crate and its versions.\<close>

definition crates_FetchReleases ::
  "http \<Rightarrow> (string \<times> crateVersion list) decoder \<Rightarrow> github_release list decoder \<Rightarrow> int \<Rightarrow> string \<Rightarrow> string \<Rightarrow> string \<Rightarrow>
   string \<Rightarrow> string \<Rightarrow> string + releaseAsset list" where
  "crates_FetchReleases http decode decode_gh maxVersions baseURL githubBaseURL tok owner crateName =
     (case http (baseURL @ ''/crates/'' @ crateName) (bearer_headers tok) of
        Inl e \<Rightarrow> Inl (request_err ''creating crates.io request'' (''fetching crate '' @ crateName) e)
      | Inr r \<Rightarrow>
          if ha_status r \<noteq> 200 then Inl (''crates.io returned status '' @ format_int (ha_status r) @ '' for '' @ crateName @ '': '' @ ha_body r)
          else (case decode (ha_body r) (ha_fail r) of
              Inl e \<Rightarrow> Inl (''decoding crates.io response: '' @ e)
            | Inr (repository, all) \<Rightarrow>
                let unyanked = filter (\<lambda>v. \<not> cv_Yanked v) all in
                if unyanked = [] then Inr []
                else let versions = take (version_limit maxVersions) (sort_key_desc cv_Num unyanked);
                         sources = map (crate_asset crateName) versions in
                  (case parseGitHubRepoURL repository of
                     (ghOwner, ghRepo) \<Rightarrow>
                       if ghOwner = [] then Inr sources
                       else (case fetchGitHubBinaries http decode_gh githubBaseURL tok ghOwner ghRepo of
                           Inr (a # as) \<Rightarrow> Inr (a # as) | _ \<Rightarrow> Inr sources))))"

section \<open>pypi.go\<close>

record pypiFileEntry =
  pf_Filename :: string
  pf_URL :: string
  pf_Size :: int
  pf_PackageType :: string
  pf_SHA256Digest :: string
  pf_MD5Digest :: string

text \<open>The loop over the bytes of the version, at one of them.\<close>

definition prerelease_at :: "string \<Rightarrow> string \<Rightarrow> bool" where
  "prerelease_at sfx s \<longleftrightarrow> has_prefix s sfx \<and>
     (let rest = drop (length sfx) s in rest = [] \<or> is_digit (hd rest) \<or> hd rest = CHR ''.'')"

definition isPyPIPreRelease :: "string \<Rightarrow> bool" where
  "isPyPIPreRelease version =
     (let lower = to_lower version in
      list_ex (\<lambda>sfx. list_ex (\<lambda>i. prerelease_at sfx (drop i lower)) [0..<length lower]) [''a'', ''b'', ''rc''])"

definition pypiFileTypePriority :: "string \<Rightarrow> int" where
  "pypiFileTypePriority pkgType = (if pkgType = ''bdist_wheel'' then 0 else if pkgType = ''sdist'' then 1 else 2)"

definition pypiExtractPlatform :: "string \<Rightarrow> string" where
  "pypiExtractPlatform filename =
     (if \<not> has_suffix filename ''.whl'' then []
      else let parts = split_char (CHR ''-'') (trim_suffix filename ''.whl'') in if length parts < 5 then [] else last parts)"

definition isLinuxARM64Platform :: "string \<Rightarrow> bool" where
  "isLinuxARM64Platform platform =
     (let lower = to_lower platform in
      contains_sub lower ''linux'' \<and> (contains_sub lower ''aarch64'' \<or> contains_sub lower ''arm64''))"

definition platform_step :: "string \<Rightarrow> string \<times> string \<Rightarrow> string \<times> string" where
  "platform_step p st =
     (case st of (osVal, archVal) \<Rightarrow>
        let lower = to_lower p;
            os = (if contains_sub lower ''linux'' \<and> osVal = [] then ''linux''
                  else if contains_sub lower ''macos'' \<or> contains_sub lower ''darwin'' then (if osVal = [] then ''darwin'' else osVal)
                  else if contains_sub lower ''win'' then (if osVal = [] then ''windows'' else osVal) else osVal);
            arch = (if contains_sub lower ''aarch64'' \<or> contains_sub lower ''arm64'' then (if archVal = [] then ''arm64'' else archVal)
                    else if contains_sub lower ''x86_64'' \<or> contains_sub lower ''amd64'' then (if archVal = [] then ''amd64'' else archVal)
                    else if contains_sub lower ''i686'' \<or> contains_sub lower ''i386'' \<or> contains_sub lower ''x86''
                    then (if archVal = [] then ''386'' else archVal) else archVal) in
        (os, arch))"

definition pypiParseWheelPlatform :: "string \<Rightarrow> string \<times> string" where
  "pypiParseWheelPlatform filename =
     (if \<not> has_suffix filename ''.whl'' then ([], [])
      else let platform = pypiExtractPlatform filename in
        if platform = [] then ([], [])
        else if platform = ''any'' then (''any'', ''any'')
        else fold platform_step (split_char (CHR ''.'') platform) ([], []))"

definition pypiFileExt :: "string \<Rightarrow> string" where
  "pypiFileExt filename =
     (if has_suffix filename ''.tar.gz'' then ''tar.gz''
      else if has_suffix filename ''.tar.bz2'' then ''tar.bz2''
      else if has_suffix filename ''.tar.xz'' then ''tar.xz''
      else case last_index_char (CHR ''.'') filename of None \<Rightarrow> [] | Some i \<Rightarrow> drop (i + 1) filename)"

definition shouldIncludeFile :: "pypiFileEntry \<Rightarrow> bool" where
  "shouldIncludeFile f =
     (if pf_PackageType f = ''sdist'' then True
      else if pf_PackageType f = ''bdist_wheel'' then
        (let platform = pypiExtractPlatform (pf_Filename f) in if platform = ''any'' then True else isLinuxARM64Platform platform)
      else True)"

definition pypiParseFile :: "pypiFileEntry \<Rightarrow> releaseAsset" where
  "pypiParseFile f =
     (case pypiParseWheelPlatform (pf_Filename f) of
        (osVal, archVal) \<Rightarrow> \<lparr>ra_Version = [], ra_Filename = pf_Filename f, ra_OS = osVal, ra_Arch = archVal, ra_Ext = pypiFileExt (pf_Filename f),
           ra_DownloadURL = pf_URL f, ra_SizeBytes = word_of_int (pf_Size f),
           ra_Checksum = (if pf_SHA256Digest f = [] then pf_MD5Digest f else pf_SHA256Digest f)\<rparr>)"

definition pypi_version_assets :: "string \<Rightarrow> pypiFileEntry list \<Rightarrow> releaseAsset list" where
  "pypi_version_assets ver files =
     map (\<lambda>f. (pypiParseFile f)\<lparr>ra_Version := ver\<rparr>) (filter shouldIncludeFile (sort_key (\<lambda>f. pypiFileTypePriority (pf_PackageType f)) files))"

definition pypi_releases :: "int \<Rightarrow> (string \<times> pypiFileEntry list) list \<Rightarrow> releaseAsset list" where
  "pypi_releases maxVersions releases =
     (let stable = filter (\<lambda>ver. \<not> isPyPIPreRelease ver) (map fst releases) in
      concat (map (\<lambda>ver. pypi_version_assets ver (case map_of releases ver of None \<Rightarrow> [] | Some files \<Rightarrow> files))
        (newest_names maxVersions stable)))"

definition pypi_FetchReleases ::
  "http \<Rightarrow> (string \<times> pypiFileEntry list) list decoder \<Rightarrow> int \<Rightarrow> string \<Rightarrow> string \<Rightarrow> string \<Rightarrow> string \<Rightarrow>
   string + releaseAsset list" where
  "pypi_FetchReleases http decode maxVersions baseURL tok owner repo =
     (case http (baseURL @ ''/pypi/'' @ repo @ ''/json'') (bearer_headers tok) of
        Inl e \<Rightarrow> Inl (request_err ''creating pypi request'' (''fetching pypi package '' @ repo) e)
      | Inr r \<Rightarrow>
          if ha_status r \<noteq> 200 then Inl (''pypi API returned status '' @ format_int (ha_status r) @ '' for '' @ repo @ '': '' @ ha_body r)
          else (case decode (ha_body r) (ha_fail r) of
              Inl e \<Rightarrow> Inl (''decoding pypi response: '' @ e)
            | Inr releases \<Rightarrow> Inr (pypi_releases maxVersions releases)))"

section \<open>version.go and the type of a source\<close>

definition ParseVersionGroup :: "string \<Rightarrow> string \<Rightarrow> string" where
  "ParseVersionGroup version pattern =
     (if version = [] then []
      else let v = (if pattern = ''gover'' then trim_prefix version ''go'' else version);
               v = (case index_char (CHR ''-'') v of Some i \<Rightarrow> if i > 0 then take i v else v | None \<Rightarrow> v) in
        (case split_char (CHR ''.'') v of a # b # _ \<Rightarrow> a @ ''.'' @ b @ ''.x'' | _ \<Rightarrow> v))"

definition VersionGroupKey :: "string \<Rightarrow> string" where
  "VersionGroupKey version = ParseVersionGroup version ''semver''"

definition SourceTypeVersionPattern :: "string \<Rightarrow> string" where
  "SourceTypeVersionPattern sourceType =
     (if sourceType = ''go'' then ''gover''
      else if sourceType \<in> set [''hashicorp'', ''grafana'', ''npm'', ''pypi'', ''crates'', ''github''] then ''semver'' else [])"

section \<open>The fingerprint and the crawler of Grafana\<close>

lemma grafana_path: "parseArrayPath ''.'' = ([], False)"
  by (simp add: parseArrayPath_def trim_space_plain plain_char_def trim_prefix_def has_suffix_def)

lemma grafana_unit:
  assumes "release_json (re_floats env) j r" "spec = grafana_fingerprint\<lparr>fp_Header := h\<rparr>" "re_decode env (ha_body a) (ha_fail a) = Inr j"
  shows "\<exists>bs. parseJSONSource env a spec = Inr bs \<and> map without_checksum bs = release_assets r"
proof -
  have spec: "fp_ListPath spec = ''.''" by (simp add: assms(2) grafana_fingerprint_def)
  have "\<exists>cs. processUnit (re_floats env) spec j [] = Inr ([] @ cs) \<and> map without_checksum cs = release_assets r"
    by (rule github_unit_step [OF assms(1)]) (simp_all add: assms(2) grafana_fingerprint_def github_fingerprint_def)
  moreover have "j \<noteq> JNull" using assms(1) by auto
  ultimately show ?thesis by (auto simp: parseJSONSource_def assms(3) spec grafana_path)
qed

text \<open>The same comparison as for GitHub, for the one release that the address of Grafana answers.\<close>

lemma grafana_fingerprint_equivalent:
  assumes reg: "map_of (rf_builtins rf) ''grafana'' = Some grafana_fingerprint" "rf_tokens rf = None"
    and src: "cs_Type src = ''grafana''" "cs_Params src = [(''owner'', owner), (''repo'', repo)]"
    and url: "url = ''https://api.github.com/repos/grafana/grafana/releases/latest''"
    and ans: "re_http env url (github_headers UserAgent []) = Inr r"
      "re_http env url [(''User-Agent'', ''MiBeeHive-rulesrc/1.0''), (''Accept'', ''application/vnd.github+json'')] = Inr r"
    and good: "ha_status r = 200" "\<not> rate_near_exhaustion r"
    and dec: "decode (ha_body r) (ha_fail r) = Inr rel" "re_decode env (ha_body r) (ha_fail r) = Inr j" "release_json (re_floats env) j rel"
  shows "\<exists>as bs. grafana_FetchReleases (re_http env) decode ''https://api.github.com'' [] owner repo = Inr as \<and>
     rule_Fetch env rf src = Inr bs \<and> map without_checksum bs = as"
proof -
  have spec: "fp_URL grafana_fingerprint = url" "fp_Header grafana_fingerprint = [(''Accept'', ''application/vnd.github+json'')]"
    "fp_Format grafana_fingerprint = ''json''" "fp_Include grafana_fingerprint = []" "fp_Exclude grafana_fingerprint = []"
    by (simp_all add: grafana_fingerprint_def github_fingerprint_def url)
  obtain bs where bs: "parseJSONSource env r grafana_fingerprint = Inr bs" "map without_checksum bs = release_assets rel"
    using grafana_unit [OF dec(3) _ dec(2), of grafana_fingerprint "fp_Header grafana_fingerprint"] by auto
  have "interpolate (template_text [] @ url) (cs_Params src) = concat (map (\<lambda>(u, k). u @ the (map_of (cs_Params src) k)) []) @ url"
    by (rule interpolate_template) (simp_all add: src(2) url)
  then have u: "interpolate (fp_URL grafana_fingerprint) (cs_Params src) = url" by (simp add: template_text_def spec(1))
  have par: "filter (\<lambda>(k, v). k \<noteq> ''fingerprint'' \<and> k \<noteq> ''fingerprint_yaml'') (cs_Params src) = cs_Params src"
    and ne: "cs_Params src \<noteq> []" by (simp_all add: src(2))
  have get: "getter_Get env url [(''Accept'', ''application/vnd.github+json'')] = Inr r" using ans(2) good(1) by (simp add: getter_Get_def)
  have "FetchWithParams env grafana_fingerprint (cs_Params src) = Inr bs"
    unfolding FetchWithParams_def Let_def if_P [OF ne] u spec(2) get by (simp add: bs(1) spec(3))
  then have "fetchWithSpec env rf grafana_fingerprint src ''grafana'' = Inr bs"
    unfolding fetchWithSpec_def par Let_def reg(2) by (simp add: ApplyFilter_none spec(4, 5))
  then have rule: "rule_Fetch env rf src = Inr bs"
    using src reg by (simp add: rule_Fetch_def param_of_def Let_def)
  have v: "''https://api.github.com'' @ ''/repos/grafana/grafana/releases/latest'' = url" by (simp add: url)
  have "grafana_FetchReleases (re_http env) decode ''https://api.github.com'' [] owner repo = Inr (map without_checksum bs)"
    unfolding grafana_FetchReleases_def bs(2) v ans(1) using good dec(1) by simp
  with rule show ?thesis by blast
qed

section \<open>The versions of a package\<close>

lemma newest_names_order: "mset vs = mset ws \<Longrightarrow> newest_names m vs = newest_names m ws"
  unfolding newest_names_def by (metis mset_sort properties_for_sort sorted_sort)

lemma rev_sort_desc: "distinct vs \<Longrightarrow> sorted_wrt (>) (rev (sort vs))"
  by (simp add: sorted_wrt_rev strict_sorted_iff)

lemma newest_names_sorted: "distinct vs \<Longrightarrow> sorted_wrt (>) (newest_names m vs)"
  unfolding newest_names_def by (rule sorted_wrt_take, rule rev_sort_desc)

lemma newest_names_length: "length (newest_names m vs) = min (version_limit m) (length vs)"
  by (simp add: newest_names_def)

lemma newest_names_subset: "set (newest_names m vs) \<subseteq> set vs"
  unfolding newest_names_def by (metis set_rev set_sort set_take_subset)

lemma newest_names_greatest:
  assumes "distinct vs" "v \<in> set vs" "v \<notin> set (newest_names m vs)" "w \<in> set (newest_names m vs)"
  shows "v < w"
proof -
  define ds where "ds = rev (sort vs)"
  define n where "n = version_limit m"
  have s: "sorted_wrt (>) (take n ds @ drop n ds)"
    using rev_sort_desc [OF assms(1)] by (simp add: ds_def)
  have "v \<in> set ds" using assms(2) by (simp add: ds_def)
  then have "v \<in> set (take n ds) \<or> v \<in> set (drop n ds)" by (metis Un_iff append_take_drop_id set_append)
  then have "v \<in> set (drop n ds)" "w \<in> set (take n ds)" using assms(3, 4) by (auto simp: newest_names_def ds_def n_def)
  with s show ?thesis unfolding sorted_wrt_append by blast
qed

lemma map_filter_total:
  "(\<And>x. x \<in> set xs \<Longrightarrow> f x = Some (g x)) \<Longrightarrow> List.map_filter f xs = map g xs"
  by (induction xs) (auto simp: List.map_filter_simps)

definition npm_stable :: "(string \<times> npmDist) list \<Rightarrow> string list" where
  "npm_stable versions = filter (\<lambda>ver. \<not> contains_sub ver ''-'') (map fst versions)"

lemma npm_releases_map:
  "npm_releases m versions = map (\<lambda>ver. npm_asset ver (the (map_of versions ver))) (newest_names m (npm_stable versions))"
proof -
  have "map_option (npm_asset ver) (map_of versions ver) = Some (npm_asset ver (the (map_of versions ver)))"
    if "ver \<in> set (newest_names m (npm_stable versions))" for ver
  proof -
    have "ver \<in> fst ` set versions" using that newest_names_subset [of m "npm_stable versions"] by (auto simp: npm_stable_def)
    then show ?thesis by (cases "map_of versions ver") (auto simp: map_of_eq_None_iff)
  qed
  then show ?thesis
    unfolding npm_releases_def npm_stable_def [symmetric] Let_def by (rule map_filter_total)
qed

text \<open>
  The crawler of npm gives one archive for each of the greatest stable versions of the package: their
  versions are strictly descending as texts, no stable version that is left out comes after one that is kept,
  there are as many as the limit allows, none is a pre-release, and each archive is the one that the registry
  lists for its version.
\<close>

theorem npm_releases_newest:
  assumes "distinct (map fst versions)"
  shows "\<exists>vs. npm_releases m versions = map (\<lambda>ver. npm_asset ver (the (map_of versions ver))) vs \<and>
    sorted_wrt (>) vs \<and> length vs = min (version_limit m) (length (npm_stable versions)) \<and>
    set vs \<subseteq> set (npm_stable versions) \<and> (\<forall>v \<in> set (npm_stable versions) - set vs. \<forall>w \<in> set vs. v < w)"
proof (intro exI conjI)
  have d: "distinct (npm_stable versions)" using assms by (simp add: npm_stable_def)
  show "npm_releases m versions = map (\<lambda>ver. npm_asset ver (the (map_of versions ver))) (newest_names m (npm_stable versions))"
    by (rule npm_releases_map)
  show "sorted_wrt (>) (newest_names m (npm_stable versions))" by (rule newest_names_sorted [OF d])
  show "\<forall>v \<in> set (npm_stable versions) - set (newest_names m (npm_stable versions)). \<forall>w \<in> set (newest_names m (npm_stable versions)). v < w"
    using newest_names_greatest [OF d] by blast
qed (rule newest_names_length newest_names_subset)+

definition demo_npm :: "(string \<times> npmDist) list" where
  "demo_npm = map (\<lambda>v. (v, \<lparr>nd_Tarball = ''https://registry.npmjs.org/x/-/x-'' @ v @ ''.tgz'', nd_Size = 7, nd_Checksum = ''c''\<rparr>))
     [''4.9.0'', ''4.18.2'', ''5.0.0-rc1'', ''4.17.0'']"

theorem npm_releases_newest_witness:
  "\<exists>vs. npm_releases 2 demo_npm = map (\<lambda>ver. npm_asset ver (the (map_of demo_npm ver))) vs \<and>
    sorted_wrt (>) vs \<and> length vs = min (version_limit 2) (length (npm_stable demo_npm)) \<and>
    set vs \<subseteq> set (npm_stable demo_npm) \<and> (\<forall>v \<in> set (npm_stable demo_npm) - set vs. \<forall>w \<in> set vs. v < w)"
  by (rule npm_releases_newest) (simp add: demo_npm_def)

text \<open>The comparison of texts: of version 4.9.0 and the newer 4.18.2, the older one is kept.\<close>

lemma npm_keeps_older: "map ra_Version (npm_releases 1 demo_npm) = [''4.9.0'']"
  by code_simp

section \<open>Wheels of PyPI and repositories of crates\<close>

lemma pypiFileExt_fileExt: "pypiFileExt name = fileExt name"
  by (simp add: pypiFileExt_def fileExt_def)

text \<open>Every file that is given belongs to a stable version and, if it is a wheel, runs everywhere or on ARM under Linux.\<close>

lemma pypi_releases_files:
  assumes "a \<in> set (pypi_releases m releases)"
  shows "\<exists>files f. map_of releases (ra_Version a) = Some files \<and> f \<in> set files \<and> a = (pypiParseFile f)\<lparr>ra_Version := ra_Version a\<rparr> \<and>
    \<not> isPyPIPreRelease (ra_Version a) \<and>
    (pf_PackageType f = ''bdist_wheel'' \<longrightarrow>
       pypiExtractPlatform (pf_Filename f) = ''any'' \<or> isLinuxARM64Platform (pypiExtractPlatform (pf_Filename f)))"
proof -
  define stable where "stable = filter (\<lambda>ver. \<not> isPyPIPreRelease ver) (map fst releases)"
  obtain ver where ver: "ver \<in> set (newest_names m stable)"
    "a \<in> set (pypi_version_assets ver (case map_of releases ver of None \<Rightarrow> [] | Some files \<Rightarrow> files))"
    using assms by (auto simp: pypi_releases_def stable_def Let_def)
  then have st: "ver \<in> set stable" using newest_names_subset by blast
  obtain f where f: "a = (pypiParseFile f)\<lparr>ra_Version := ver\<rparr>" "shouldIncludeFile f"
    "f \<in> set (case map_of releases ver of None \<Rightarrow> [] | Some files \<Rightarrow> files)"
    using ver(2) by (auto simp: pypi_version_assets_def)
  obtain files where files: "map_of releases ver = Some files" "f \<in> set files"
    using f(3) by (cases "map_of releases ver") auto
  have "ra_Version a = ver" by (simp add: f(1))
  moreover have "pf_PackageType f = ''bdist_wheel'' \<longrightarrow>
       pypiExtractPlatform (pf_Filename f) = ''any'' \<or> isLinuxARM64Platform (pypiExtractPlatform (pf_Filename f))"
    using f(2) by (auto simp: shouldIncludeFile_def Let_def split: if_splits)
  moreover have "\<not> isPyPIPreRelease ver" using st by (simp add: stable_def)
  ultimately show ?thesis using files f(1) by (intro exI [of _ files] exI [of _ f]) simp
qed

lemma trim_right_char_keeps: "s \<noteq> [] \<Longrightarrow> last s \<noteq> c \<Longrightarrow> trim_right_char c s = s"
  by (cases s rule: rev_cases) (simp_all add: trim_right_char_def)

definition github_prefixes :: "string list" where
  "github_prefixes = [''https://github.com/'', ''http://github.com/'', ''git://github.com/'', ''git+https://github.com/'', ''ssh://git@github.com/'']"

lemma github_prefixes_stripped:
  assumes "pre \<in> set github_prefixes"
  shows "trim_prefix (trim_prefix (trim_prefix (trim_prefix (trim_prefix (trim_prefix (pre @ x) ''git+'') ''git://'') ''https://'')
    ''http://'') ''ssh://git@'') ''git@github.com:'' = ''github.com/'' @ x"
  using assms unfolding github_prefixes_def list.set insert_iff empty_iff by (elim disjE) (simp_all add: trim_prefix_def)

text \<open>The address of a repository in the usual forms gives its owner and its name.\<close>

lemma parseGitHubRepoURL_forms:
  assumes "pre \<in> set github_prefixes" "suf = [] \<or> suf = ''.git''"
    and "\<forall>c \<in> set owner \<union> set repo. c \<noteq> slash \<and> c \<noteq> CHR ''?'' \<and> c \<noteq> CHR ''#''" "repo \<noteq> []"
    and "\<not> has_suffix (owner @ slash # repo) ''.git''"
  shows "parseGitHubRepoURL (pre @ owner @ slash # repo @ suf) = (owner, repo)"
proof -
  define body where "body = owner @ slash # repo"
  have ne: "pre @ body @ suf \<noteq> []" by (simp add: body_def)
  have n: "slash \<notin> set owner" "slash \<notin> set repo" using assms(3) by blast+
  have suf: "trim_suffix (body @ suf) ''.git'' = body"
    using assms(2, 5) unfolding body_def [symmetric]
    by (elim disjE) (simp_all add: trim_suffix_append, simp add: trim_suffix_def)
  have l: "trim_right_char slash body = body"
  proof (rule trim_right_char_keeps)
    have "last body = last repo" using assms(4) by (simp add: body_def)
    then show "last body \<noteq> slash" using last_in_set [OF assms(4)] n(2) by metis
  qed (simp add: body_def)
  have t: "takeWhile (\<lambda>c. c \<noteq> CHR ''?'' \<and> c \<noteq> CHR ''#'') body = body"
    unfolding takeWhile_eq_all_conv using assms(3) by (auto simp: body_def)
  have sp: "split_char slash body = [owner, repo]"
    unfolding body_def split_char_append_sep [OF n(1)] split_char_no_sep [OF n(2)] ..
  have gh: "trim_prefix (''github.com/'' @ x) ''github.com/'' = x" "has_prefix (''github.com/'' @ x) ''github.com/''" for x
    by (simp_all add: trim_prefix_def)
  have "parseGitHubRepoURL (pre @ body @ suf) = (owner, repo)"
    unfolding parseGitHubRepoURL_def if_not_P [OF ne] Let_def github_prefixes_stripped [OF assms(1)] gh suf l t sp list.case by simp
  then show ?thesis by (simp add: body_def)
qed

text \<open>The form that git itself uses is cut off to a text that does not start with the host.\<close>

lemma parseGitHubRepoURL_scp: "parseGitHubRepoURL ''git@github.com:owner/repo.git'' = ([], [])"
  by code_simp

lemma ParseVersionGroup_semver:
  assumes "\<forall>c \<in> set a \<union> set b. c \<noteq> CHR ''.'' \<and> c \<noteq> CHR ''-''" "CHR ''-'' \<notin> set r" "a \<noteq> []"
  shows "VersionGroupKey (a @ ''.'' @ b @ ''.'' @ r) = a @ ''.'' @ b @ ''.x''"
proof -
  define v where "v = a @ ''.'' @ b @ ''.'' @ r"
  have n: "CHR ''.'' \<notin> set a" "CHR ''.'' \<notin> set b" "CHR ''-'' \<notin> set a" "CHR ''-'' \<notin> set b" using assms(1) by blast+
  have i: "index_char (CHR ''-'') v = None" using n assms(2) by (simp add: index_char_None_iff v_def)
  have sp: "split_char (CHR ''.'') v = a # b # split_char (CHR ''.'') r"
    using split_char_append_sep [OF n(1), of "b @ ''.'' @ r"] split_char_append_sep [OF n(2), of r] by (simp add: v_def)
  have ne: "v \<noteq> []" using assms(3) by (simp add: v_def)
  have "VersionGroupKey v = a @ ''.'' @ b @ ''.x''"
    unfolding VersionGroupKey_def ParseVersionGroup_def if_not_P [OF ne] Let_def by (simp add: i sp)
  then show ?thesis by (simp add: v_def)
qed

end
