(* ===== verification/Virtual_Index.thy ===== *)
theory Virtual_Index
  imports Virtual_Repo Event_Bus
begin

text \<open>
  The service over the virtual index, src/internal/service/virtual_index.go: channels, views and
  the tree of nodes, with cycle detection, cascading soft deletion, the audit log and the events
  on the bus. \<open>vis\<close> is the VirtualIndexService with the database behind its repository; the
  audit repository and the bus may be nil. \<open>vi_panicked\<close> records that a publication panicked,
  which the invariant excludes.

  The context of a call is the pair that \<open>Publish\<close> takes: whether it is cancelled and which
  ready case each select then picks.

  The locale \<open>parent_store\<close> is the contract of the repository towards the cycle check: the
  parent lookup and the parent update, related to the parent relation. The lemmas on the bounded
  ancestor walk are proved in it once, and it is interpreted on the methods of VirtualRepo.
\<close>

type_synonym ctx = "bool \<times> (nat \<Rightarrow> bool)"

record vis =
  vi_db :: database
  vi_audit :: bool
  vi_bus :: "bus option"
  vi_panicked :: bool

datatype vi_err = ErrCircularRef | MaxDepth | NodeNotFound int | VSql sql_err

definition maxTreeDepth :: nat where
  "maxTreeDepth = 50"

section \<open>Audit and events\<close>

definition auditLog :: "string \<Rightarrow> string \<Rightarrow> int \<Rightarrow> string \<Rightarrow> string \<Rightarrow> vis \<Rightarrow> vis" where
  "auditLog action entityType i name diff s =
     (if vi_audit s then s\<lparr>vi_db := audit_Log
        \<lparr>a_id = 0, a_admin_user = ''admin'', a_action = action, a_entity_type = entityType, a_entity_id = i,
         a_entity_name = name, a_diff_json = diff, a_created_at = 0\<rparr> (vi_db s)\<rparr>
      else s)"

definition vi_emit :: "ctx \<Rightarrow> event \<Rightarrow> vis \<Rightarrow> vis" where
  "vi_emit cx e s =
     (case vi_bus s of None \<Rightarrow> s
      | Some b \<Rightarrow> (case Publish (fst cx) (snd cx) b e of
          (r, b') \<Rightarrow> s\<lparr>vi_bus := Some b', vi_panicked := (vi_panicked s \<or> r = Panic)\<rparr>))"

definition emitNodeTreeChanged :: "ctx \<Rightarrow> int \<Rightarrow> vis \<Rightarrow> vis" where
  "emitNodeTreeChanged cx viewID = vi_emit cx (NodeTreeChanged viewID)"

definition emitChannelChanged :: "ctx \<Rightarrow> int \<Rightarrow> vis \<Rightarrow> vis" where
  "emitChannelChanged cx channelID = vi_emit cx (ChannelChanged channelID)"

definition emitRuleFolderCreated :: "ctx \<Rightarrow> int \<Rightarrow> vis \<Rightarrow> vis" where
  "emitRuleFolderCreated cx nodeID = vi_emit cx (RuleFolderCreated nodeID)"

definition slug_diff :: "string \<Rightarrow> string" where
  "slug_diff slug = ''{\"slug\":\"'' @ slug @ ''\"}''"

section \<open>Channels and views\<close>

definition CreateChannel :: "ctx \<Rightarrow> channel \<Rightarrow> vis \<Rightarrow> vis \<times> (vi_err + channel)" where
  "CreateChannel cx c s =
     (case repo_CreateChannel c (vi_db s) of
        (d, Inl e) \<Rightarrow> (s\<lparr>vi_db := d\<rparr>, Inl (VSql e))
      | (d, Inr i) \<Rightarrow>
          (emitChannelChanged cx i (auditLog ''create'' ''channel'' i (c_name c) (slug_diff (c_slug c)) (s\<lparr>vi_db := d\<rparr>)),
           Inr (c\<lparr>c_id := i\<rparr>)))"

definition UpdateChannel :: "ctx \<Rightarrow> channel \<Rightarrow> vis \<Rightarrow> vis \<times> (vi_err + unit)" where
  "UpdateChannel cx c s =
     (case repo_UpdateChannel c (vi_db s) of
        (d, Inl e) \<Rightarrow> (s\<lparr>vi_db := d\<rparr>, Inl (VSql e))
      | (d, Inr u) \<Rightarrow>
          (auditLog ''update'' ''channel'' (c_id c) (c_name c) (slug_diff (c_slug c))
             (emitChannelChanged cx (c_id c) (s\<lparr>vi_db := d\<rparr>)), Inr ()))"

definition DeleteChannel :: "int \<Rightarrow> vis \<Rightarrow> vis \<times> (vi_err + unit)" where
  "DeleteChannel i s =
     (case repo_DeleteChannel i (vi_db s) of
        (d, Inl e) \<Rightarrow> (s\<lparr>vi_db := d\<rparr>, Inl (VSql e))
      | (d, Inr u) \<Rightarrow> (auditLog ''delete'' ''channel'' i [] ''{}'' (s\<lparr>vi_db := d\<rparr>), Inr ()))"

definition CreateView :: "view \<Rightarrow> vis \<Rightarrow> vis \<times> (vi_err + view)" where
  "CreateView v s =
     (case repo_CreateView v (vi_db s) of
        (d, Inl e) \<Rightarrow> (s\<lparr>vi_db := d\<rparr>, Inl (VSql e))
      | (d, Inr i) \<Rightarrow>
          (auditLog ''create'' ''view'' i (v_name v)
             (''{\"slug\":\"'' @ v_slug v @ ''\",\"channel\":'' @ format_int (v_channel_id v) @ ''}'') (s\<lparr>vi_db := d\<rparr>),
           Inr (v\<lparr>v_id := i\<rparr>)))"

definition UpdateView :: "view \<Rightarrow> vis \<Rightarrow> vis \<times> (vi_err + unit)" where
  "UpdateView v s =
     (case repo_UpdateView v (vi_db s) of
        (d, Inl e) \<Rightarrow> (s\<lparr>vi_db := d\<rparr>, Inl (VSql e))
      | (d, Inr u) \<Rightarrow> (auditLog ''update'' ''view'' (v_id v) (v_name v) ''{}'' (s\<lparr>vi_db := d\<rparr>), Inr ()))"

definition DeleteView :: "int \<Rightarrow> vis \<Rightarrow> vis \<times> (vi_err + unit)" where
  "DeleteView i s =
     (case repo_DeleteView i (vi_db s) of
        (d, Inl e) \<Rightarrow> (s\<lparr>vi_db := d\<rparr>, Inl (VSql e))
      | (d, Inr u) \<Rightarrow> (auditLog ''delete'' ''view'' i [] ''{}'' (s\<lparr>vi_db := d\<rparr>), Inr ()))"

section \<open>Nodes\<close>

definition CreateNode :: "ctx \<Rightarrow> node \<Rightarrow> vis \<Rightarrow> vis \<times> (vi_err + node)" where
  "CreateNode cx n s =
     (case repo_CreateNode n (vi_db s) of
        (d, Inl e) \<Rightarrow> (s\<lparr>vi_db := d\<rparr>, Inl (VSql e))
      | (d, Inr i) \<Rightarrow>
          (let s1 = auditLog ''create'' ''node'' i (n_name n)
                      (''{\"type\":\"'' @ n_node_type n @ ''\",\"view\":'' @ format_int (n_view_id n) @ ''}'') (s\<lparr>vi_db := d\<rparr>);
               s2 = emitNodeTreeChanged cx (n_view_id n) s1
           in (if n_node_type n = ''rule_folder'' then emitRuleFolderCreated cx i s2 else s2, Inr (n\<lparr>n_id := i\<rparr>))))"

definition UpdateNode :: "ctx \<Rightarrow> node \<Rightarrow> vis \<Rightarrow> vis \<times> (vi_err + unit)" where
  "UpdateNode cx n s =
     (case repo_UpdateNode n (vi_db s) of
        (d, Inl e) \<Rightarrow> (s\<lparr>vi_db := d\<rparr>, Inl (VSql e))
      | (d, Inr u) \<Rightarrow>
          (auditLog ''update'' ''node'' (n_id n) (n_name n) ''{}'' (emitNodeTreeChanged cx (n_view_id n) (s\<lparr>vi_db := d\<rparr>)),
           Inr ()))"

text \<open>The loop of checkCycle, over any parent lookup: \<open>k\<close> iterations are left.\<close>

fun walk_up :: "nat \<Rightarrow> (int \<Rightarrow> int option option) \<Rightarrow> int \<Rightarrow> int \<Rightarrow> vi_err + unit" where
  "walk_up 0 get nodeID cur = Inl MaxDepth"
| "walk_up (Suc k) get nodeID cur =
     (if cur = nodeID then Inl ErrCircularRef
      else case get cur of
        None \<Rightarrow> Inl (NodeNotFound cur)
      | Some None \<Rightarrow> Inr ()
      | Some (Some parent) \<Rightarrow> walk_up k get nodeID parent)"

definition checkCycle :: "int \<Rightarrow> int \<Rightarrow> database \<Rightarrow> vi_err + unit" where
  "checkCycle nodeID newParentID d = walk_up maxTreeDepth (\<lambda>i. repo_GetNodeParent i d) nodeID newParentID"

definition MoveNode :: "ctx \<Rightarrow> int \<Rightarrow> int option \<Rightarrow> vis \<Rightarrow> vis \<times> (vi_err + unit)" where
  "MoveNode cx nodeID newParentID s =
     (case (case newParentID of None \<Rightarrow> Inr () | Some p \<Rightarrow> checkCycle nodeID p (vi_db s)) of
        Inl e \<Rightarrow> (s, Inl e)
      | Inr u \<Rightarrow>
          (case repo_GetNode nodeID (vi_db s) of
             None \<Rightarrow> (s, Inl (NodeNotFound nodeID))
           | Some n \<Rightarrow>
               (case repo_SetNodeParent nodeID newParentID (vi_db s) of
                  (d, Inl e) \<Rightarrow> (s\<lparr>vi_db := d\<rparr>, Inl (VSql e))
                | (d, Inr u) \<Rightarrow> (emitNodeTreeChanged cx (n_view_id n) (s\<lparr>vi_db := d\<rparr>), Inr ()))))"

text \<open>\<^const>\<open>None\<close>: the walk over the subtree does not end.\<close>

definition SoftDeleteNode :: "ctx \<Rightarrow> int \<Rightarrow> vis \<Rightarrow> (vis \<times> (vi_err + unit)) option" where
  "SoftDeleteNode cx nodeID s =
     (case repo_GetNode nodeID (vi_db s) of
        None \<Rightarrow> Some (s, Inl (NodeNotFound nodeID))
      | Some n \<Rightarrow>
          (case repo_SoftDeleteNodeCascade nodeID (vi_db s) of
             None \<Rightarrow> None
           | Some d \<Rightarrow>
               Some (auditLog ''delete'' ''node'' nodeID (n_name n) ''{}''
                       (emitNodeTreeChanged cx (n_view_id n) (s\<lparr>vi_db := d\<rparr>)), Inr ())))"

section \<open>The contract of the parent store\<close>

locale parent_store =
  fixes get_parent :: "int \<Rightarrow> 's \<Rightarrow> int option option"
    and set_parent :: "int \<Rightarrow> int option \<Rightarrow> 's \<Rightarrow> 's \<times> ('e + unit)"
    and rel :: "'s \<Rightarrow> (int \<times> int) set"
    and inv :: "'s \<Rightarrow> bool"
  assumes get_parent_iff: "inv s \<Longrightarrow> get_parent i s = Some (Some p) \<longleftrightarrow> (i, p) \<in> rel s"
    and set_parent_rel: "inv s \<Longrightarrow> get_parent i s \<noteq> None \<Longrightarrow> set_parent i q s = (t, Inr u) \<Longrightarrow>
      rel t = {e \<in> rel s. fst e \<noteq> i} \<union> {(i, p) |p. q = Some p}"
begin

abbreviation walk :: "nat \<Rightarrow> int \<Rightarrow> int \<Rightarrow> 's \<Rightarrow> vi_err + unit" where
  "walk k i cur s \<equiv> walk_up k (\<lambda>j. get_parent j s) i cur"

lemma single_valued_rel: "inv s \<Longrightarrow> single_valued (rel s)"
  by (rule single_valuedI) (metis get_parent_iff option.inject)

text \<open>The verdict is circular exactly when the node is met within the bound.\<close>

lemma walk_circular_iff:
  assumes "inv s"
  shows "walk k i cur s = Inl ErrCircularRef \<longleftrightarrow> (\<exists>m < k. (cur, i) \<in> rel s ^^ m)"
proof (induction k arbitrary: cur)
  case (Suc k)
  show ?case
  proof (cases "cur = i")
    case True
    then show ?thesis by (auto intro: exI [of _ 0])
  next
    case False
    have "(\<exists>m < Suc k. (cur, i) \<in> rel s ^^ m) \<longleftrightarrow> (\<exists>m < k. (cur, i) \<in> rel s ^^ Suc m)"
      using False by (simp add: Ex_less_Suc2 del: relpow.simps(2))
    also have "\<dots> \<longleftrightarrow> (\<exists>p. (cur, p) \<in> rel s \<and> (\<exists>m < k. (p, i) \<in> rel s ^^ m))"
      by (metis relpow_Suc_D2 relpow_Suc_I2)
    also have "\<dots> \<longleftrightarrow> walk (Suc k) i cur s = Inl ErrCircularRef"
      using False Suc.IH get_parent_iff [OF assms, of cur]
      by (auto split: option.splits dest: single_valuedD [OF single_valued_rel [OF assms]])
    finally show ?thesis by simp
  qed
qed simp

text \<open>It accepts exactly when the chain ends at a root within the bound without meeting the node.\<close>

lemma walk_ok_not_below:
  assumes "inv s" "walk k i cur s = Inr ()"
  shows "(cur, i) \<notin> (rel s)\<^sup>*"
  using assms(2)
proof (induction k arbitrary: cur)
  case (Suc k)
  then have "cur \<noteq> i" by (auto split: if_splits)
  moreover have "(p, i) \<notin> (rel s)\<^sup>*" if "(cur, p) \<in> rel s" for p
    using Suc that get_parent_iff [OF assms(1), of cur p] by (auto split: if_splits)
  ultimately show ?case by (metis converse_rtranclE)
qed simp

lemma walk_deep: "inv s \<Longrightarrow> walk k i cur s = Inl MaxDepth \<Longrightarrow> \<exists>q. (cur, q) \<in> rel s ^^ k"
proof (induction k arbitrary: cur)
  case (Suc k)
  then obtain p where "get_parent cur s = Some (Some p)" "walk k i p s = Inl MaxDepth"
    by (auto split: if_splits option.splits)
  with Suc show ?case using get_parent_iff relpow_Suc_I2 by metis
qed simp

lemma walk_ok_exists: "walk k i cur s = Inr () \<Longrightarrow> get_parent cur s \<noteq> None"
  by (cases k) (auto split: if_splits option.splits)

lemma set_parent_acyclic:
  assumes "inv s" "acyclic (rel s)" "set_parent i q s = (t, Inr u)" "get_parent i s \<noteq> None"
    and "\<forall>p. q = Some p \<longrightarrow> (p, i) \<notin> (rel s)\<^sup>*"
  shows "acyclic (rel t)"
proof -
  let ?S = "{e \<in> rel s. fst e \<noteq> i}"
  have sub: "?S \<subseteq> rel s" by blast
  have S: "acyclic ?S" using assms(2) sub by (rule acyclic_subset)
  have rel: "rel t = ?S \<union> {(i, p) |p. q = Some p}" using set_parent_rel assms by blast
  show ?thesis
  proof (cases q)
    case None
    then show ?thesis using S rel by simp
  next
    case (Some p)
    then have "(p, i) \<notin> ?S\<^sup>*" using assms(5) rtrancl_mono [OF sub] by blast
    then show ?thesis using S rel Some by (simp add: acyclic_insert)
  qed
qed

end

text \<open>The repository keeps the contract, on every store that satisfies the schema.\<close>

lemma GetNodeParent_iff:
  "schema_ok d \<Longrightarrow> repo_GetNodeParent i d = Some (Some p) \<longleftrightarrow> (i, p) \<in> parent_rel (t_nodes d)"
  by (auto simp: repo_GetNodeParent_def parent_rel_iff row_by_eq_Some_iff schema_ok_def keys_ok_def keyed_def)

lemma SetNodeParent_rel:
  assumes "schema_ok d" "repo_GetNodeParent i d \<noteq> None" "repo_SetNodeParent i q d = (d', Inr u)"
  shows "parent_rel (t_nodes d') = {e \<in> parent_rel (t_nodes d). fst e \<noteq> i} \<union> {(i, p) |p. q = Some p}"
proof -
  have d': "t_nodes d' = upd_row n_id i (\<lambda>r. r\<lparr>n_parent_id := q\<rparr>) (t_nodes d)"
    using assms(3) by (auto simp: repo_SetNodeParent_def split: if_splits)
  obtain n where "n \<in> set (t_nodes d)" "n_id n = i"
    using assms(2) by (auto simp: repo_GetNodeParent_def dest: row_by_SomeD)
  then have "(c, p) \<in> parent_rel (t_nodes d') \<longleftrightarrow> (c, p) \<in> parent_rel (t_nodes d) \<and> c \<noteq> i \<or> c = i \<and> q = Some p" for c p
    by (auto simp only: d' upd_row_def parent_rel_iff set_map bex_simps(7) split: if_splits) auto
  then show ?thesis by auto
qed

interpretation repo: parent_store repo_GetNodeParent repo_SetNodeParent "\<lambda>d. parent_rel (t_nodes d)" schema_ok
  by unfold_locales (simp_all add: GetNodeParent_iff SetNodeParent_rel)

section \<open>Every call keeps the tree a forest\<close>

definition vis_ok :: "vis \<Rightarrow> bool" where
  "vis_ok s \<longleftrightarrow> schema_ok (vi_db s) \<and> forest (vi_db s) \<and> (\<forall>b. vi_bus s = Some b \<longrightarrow> bus_ok b) \<and> \<not> vi_panicked s"

lemma auditLog_frame [simp]:
  "t_nodes (vi_db (auditLog a t i n df s)) = t_nodes (vi_db s)" "vi_bus (auditLog a t i n df s) = vi_bus s"
  "vi_panicked (auditLog a t i n df s) = vi_panicked s"
  "schema_ok (vi_db (auditLog a t i n df s)) = schema_ok (vi_db s)"
  "seq_nodes (vi_db (auditLog a t i n df s)) = seq_nodes (vi_db s)"
  by (simp_all add: auditLog_def)

lemma vi_emit_db [simp]: "vi_db (vi_emit cx e s) = vi_db s"
  by (simp add: vi_emit_def split: option.split prod.split)

lemma auditLog_ok [simp]: "vis_ok (auditLog a t i n df s) = vis_ok s"
  by (simp add: vis_ok_def forest_def)

lemma vi_emit_ok: "vis_ok s \<Longrightarrow> vis_ok (vi_emit cx e s)"
proof (cases "vi_bus s")
  case (Some b)
  assume ok: "vis_ok s"
  with Some have "bus_ok b" by (simp add: vis_ok_def)
  from Publish_ok [OF this, of "fst cx" "snd cx" e] Some ok show ?thesis
    by (auto simp: vi_emit_def vis_ok_def split: prod.splits)
qed (simp add: vi_emit_def)

lemmas emit_ok = emitNodeTreeChanged_def emitChannelChanged_def emitRuleFolderCreated_def vi_emit_ok

text \<open>A change of the database that keeps the node table keeps the forest.\<close>

lemma vis_ok_db: "vis_ok s \<Longrightarrow> schema_ok d \<Longrightarrow> forest d \<Longrightarrow> vis_ok (s\<lparr>vi_db := d\<rparr>)"
  by (simp add: vis_ok_def)

lemma parent_rel_map:
  "(\<And>n. n_id (f n) = n_id n) \<Longrightarrow> (\<And>n. n_parent_id (f n) = n_parent_id n) \<Longrightarrow> parent_rel (map f ns) = parent_rel ns"
  by (rule set_eqI) (auto simp: parent_rel_iff)

lemma parent_rel_snoc:
  "parent_rel (ns @ [n]) = (case n_parent_id n of None \<Rightarrow> parent_rel ns | Some p \<Rightarrow> insert (n_id n, p) (parent_rel ns))"
  by (rule set_eqI) (auto simp: parent_rel_iff split: option.split)

lemma forest_same_nodes: "t_nodes d' = t_nodes d \<Longrightarrow> forest d' = forest d"
  by (simp add: forest_def)

lemma repo_keeps_nodes [simp]:
  "t_nodes (fst (repo_CreateChannel c d)) = t_nodes d" "t_nodes (fst (repo_UpdateChannel c d)) = t_nodes d"
  "t_nodes (fst (repo_DeleteChannel i d)) = t_nodes d" "t_nodes (fst (repo_CreateView v d)) = t_nodes d"
  "t_nodes (fst (repo_UpdateView v d)) = t_nodes d" "t_nodes (fst (repo_DeleteView i d)) = t_nodes d"
  by (simp_all add: repo_CreateChannel_def repo_UpdateChannel_def repo_DeleteChannel_def repo_CreateView_def
      repo_UpdateView_def repo_DeleteView_def Let_def)

lemma forest_UpdateNode: "forest (fst (repo_UpdateNode n d)) = forest d"
  by (simp add: repo_UpdateNode_def forest_def upd_row_def parent_rel_map)

lemma forest_hide: "forest (fold hide_node ids d) = forest d"
  by (simp add: fold_hide_nodes forest_def parent_rel_map)

text \<open>A new row cannot close a cycle unless it names itself as its parent.\<close>

lemma forest_CreateNode:
  assumes "schema_ok d" "forest d" "n_parent_id n \<noteq> Some (seq_nodes d + 1)"
  shows "forest (fst (repo_CreateNode n d))"
proof (cases "fst (repo_CreateNode n d) = d")
  case False
  let ?i = "seq_nodes d + 1" and ?R = "parent_rel (t_nodes d)"
  from False have nodes: "t_nodes (fst (repo_CreateNode n d)) =
      t_nodes d @ [n\<lparr>n_id := ?i, n_created_at := sql_now d\<rparr>]"
    by (auto simp: repo_CreateNode_def Let_def split: if_splits)
  have fresh: "?i \<notin> n_id ` set (t_nodes d)"
    using assms(1) by (force simp: schema_ok_def keys_ok_def keyed_def)
  have notarget: "(x, ?i) \<notin> ?R" for x
    using assms(1) fresh by (fastforce simp: parent_rel_iff schema_ok_def node_ok_def)
  show ?thesis
  proof (cases "n_parent_id n")
    case None
    then have "parent_rel (t_nodes (fst (repo_CreateNode n d))) = ?R" by (simp add: nodes parent_rel_snoc)
    with assms(2) show ?thesis by (simp add: forest_def)
  next
    case (Some p)
    then have "parent_rel (t_nodes (fst (repo_CreateNode n d))) = insert (?i, p) ?R"
      by (simp add: nodes parent_rel_snoc)
    moreover have "(p, ?i) \<notin> ?R\<^sup>*" using notarget Some assms(3) by (auto elim: rtranclE)
    ultimately show ?thesis using assms(2) by (simp add: forest_def acyclic_insert)
  qed
qed (use assms in simp)

text \<open>The calls of the service, as one type, and their effect on the state.\<close>

datatype vi_call =
    VCreateChannel channel | VUpdateChannel channel | VDeleteChannel int
  | VCreateView view | VUpdateView view | VDeleteView int
  | VCreateNode node | VUpdateNode node | VMoveNode int "int option" | VSoftDeleteNode int

fun vi_exec :: "ctx \<Rightarrow> vi_call \<Rightarrow> vis \<Rightarrow> vis option" where
  "vi_exec cx (VCreateChannel c) s = Some (fst (CreateChannel cx c s))"
| "vi_exec cx (VUpdateChannel c) s = Some (fst (UpdateChannel cx c s))"
| "vi_exec cx (VDeleteChannel i) s = Some (fst (DeleteChannel i s))"
| "vi_exec cx (VCreateView v) s = Some (fst (CreateView v s))"
| "vi_exec cx (VUpdateView v) s = Some (fst (UpdateView v s))"
| "vi_exec cx (VDeleteView i) s = Some (fst (DeleteView i s))"
| "vi_exec cx (VCreateNode n) s = Some (fst (CreateNode cx n s))"
| "vi_exec cx (VUpdateNode n) s = Some (fst (UpdateNode cx n s))"
| "vi_exec cx (VMoveNode i p) s = Some (fst (MoveNode cx i p s))"
| "vi_exec cx (VSoftDeleteNode i) s = map_option fst (SoftDeleteNode cx i s)"

text \<open>The one call the store does not protect against: a new node that names its own id as parent.\<close>

fun names_itself :: "vis \<Rightarrow> vi_call \<Rightarrow> bool" where
  "names_itself s (VCreateNode n) = (n_parent_id n = Some (seq_nodes (vi_db s) + 1))"
| "names_itself s _ = False"

lemma channel_calls_ok:
  assumes "vis_ok s"
  shows "vis_ok (fst (CreateChannel cx c s))" "vis_ok (fst (UpdateChannel cx c s))" "vis_ok (fst (DeleteChannel i s))"
proof -
  have "schema_ok (vi_db s)" "forest (vi_db s)" using assms by (simp_all add: vis_ok_def)
  then have "vis_ok (s\<lparr>vi_db := fst (repo_CreateChannel c (vi_db s))\<rparr>)"
    "vis_ok (s\<lparr>vi_db := fst (repo_UpdateChannel c (vi_db s))\<rparr>)"
    "vis_ok (s\<lparr>vi_db := fst (repo_DeleteChannel i (vi_db s))\<rparr>)"
    using assms by (simp_all add: vis_ok_db repo_keeps_schema forest_def)
  then show "vis_ok (fst (CreateChannel cx c s))" "vis_ok (fst (UpdateChannel cx c s))" "vis_ok (fst (DeleteChannel i s))"
    by (auto simp: CreateChannel_def UpdateChannel_def DeleteChannel_def emit_ok split: prod.splits sum.splits)
qed

lemma view_calls_ok:
  assumes "vis_ok s"
  shows "vis_ok (fst (CreateView v s))" "vis_ok (fst (UpdateView v s))" "vis_ok (fst (DeleteView i s))"
proof -
  have "schema_ok (vi_db s)" "forest (vi_db s)" using assms by (simp_all add: vis_ok_def)
  then have "vis_ok (s\<lparr>vi_db := fst (repo_CreateView v (vi_db s))\<rparr>)"
    "vis_ok (s\<lparr>vi_db := fst (repo_UpdateView v (vi_db s))\<rparr>)"
    "vis_ok (s\<lparr>vi_db := fst (repo_DeleteView i (vi_db s))\<rparr>)"
    using assms by (simp_all add: vis_ok_db repo_keeps_schema forest_def)
  then show "vis_ok (fst (CreateView v s))" "vis_ok (fst (UpdateView v s))" "vis_ok (fst (DeleteView i s))"
    by (auto simp: CreateView_def UpdateView_def DeleteView_def split: prod.splits sum.splits)
qed

lemma CreateNode_vis_ok:
  assumes "vis_ok s" "n_parent_id n \<noteq> Some (seq_nodes (vi_db s) + 1)"
  shows "vis_ok (fst (CreateNode cx n s))"
proof -
  have "vis_ok (s\<lparr>vi_db := fst (repo_CreateNode n (vi_db s))\<rparr>)"
    using assms by (intro vis_ok_db repo_keeps_schema forest_CreateNode) (simp_all add: vis_ok_def)
  then show ?thesis by (auto simp: CreateNode_def Let_def emit_ok split: prod.splits sum.splits)
qed

lemma UpdateNode_vis_ok: "vis_ok s \<Longrightarrow> vis_ok (fst (UpdateNode cx n s))"
proof -
  assume ok: "vis_ok s"
  then have "vis_ok (s\<lparr>vi_db := fst (repo_UpdateNode n (vi_db s))\<rparr>)"
    by (intro vis_ok_db repo_keeps_schema) (simp_all add: vis_ok_def forest_UpdateNode)
  then show ?thesis by (auto simp: UpdateNode_def emit_ok split: prod.splits sum.splits)
qed

lemma MoveNode_cases:
  obtains (fail) e where "MoveNode cx i p s = (s, Inl e)"
  | (moved) n d where "repo_GetNode i (vi_db s) = Some n" "repo_SetNodeParent i p (vi_db s) = (d, Inr ())"
      "\<forall>q. p = Some q \<longrightarrow> checkCycle i q (vi_db s) = Inr ()"
      "MoveNode cx i p s = (emitNodeTreeChanged cx (n_view_id n) (s\<lparr>vi_db := d\<rparr>), Inr ())"
proof (cases "snd (MoveNode cx i p s)")
  case (Inl e)
  then have "MoveNode cx i p s = (s, Inl e)"
    by (auto simp: MoveNode_def repo_SetNodeParent_def split: sum.splits option.splits prod.splits if_splits)
  then show ?thesis by (rule fail)
next
  case (Inr u)
  then show ?thesis
    by (auto simp: MoveNode_def split: sum.splits option.splits prod.splits intro!: moved)
qed

lemma MoveNode_vis_ok:
  assumes "vis_ok s"
  shows "vis_ok (fst (MoveNode cx i p s))"
proof (cases rule: MoveNode_cases [of cx i p s])
  case (moved n d)
  have ok: "schema_ok (vi_db s)" "acyclic (parent_rel (t_nodes (vi_db s)))" using assms by (simp_all add: vis_ok_def forest_def)
  have "repo_GetNodeParent i (vi_db s) \<noteq> None" using moved(1) by (simp add: repo_GetNode_def repo_GetNodeParent_def)
  moreover have "\<forall>q. p = Some q \<longrightarrow> (q, i) \<notin> (parent_rel (t_nodes (vi_db s)))\<^sup>*"
    using repo.walk_ok_not_below [OF ok(1)] moved(3) unfolding checkCycle_def by blast
  ultimately have "forest d" unfolding forest_def by (rule repo.set_parent_acyclic [OF ok moved(2)])
  moreover have "schema_ok d" using SetNodeParent_ok [OF ok(1), of i p] moved(2) by simp
  ultimately show ?thesis using assms moved(4) by (simp add: emit_ok vis_ok_db)
qed (use assms in simp)

lemma SoftDeleteNode_vis_ok:
  assumes "vis_ok s"
  shows "\<exists>t r. SoftDeleteNode cx i s = Some (t, r) \<and> vis_ok t"
proof (cases "repo_GetNode i (vi_db s)")
  case (Some n)
  have ok: "schema_ok (vi_db s)" "forest (vi_db s)" using assms by (simp_all add: vis_ok_def)
  obtain ids where "collectSubtreeIDs i (vi_db s) = Some ids" using collect_exact [OF ok] .
  moreover have "vis_ok (s\<lparr>vi_db := fold hide_node ids (vi_db s)\<rparr>)"
    using ok assms by (simp add: vis_ok_db hide_nodes_ok forest_hide)
  ultimately show ?thesis using Some by (simp add: SoftDeleteNode_def repo_SoftDeleteNodeCascade_def emit_ok)
qed (use assms in \<open>simp add: SoftDeleteNode_def\<close>)

lemma vi_exec_ok: "vis_ok s \<Longrightarrow> \<not> names_itself s c \<Longrightarrow> \<exists>t. vi_exec cx c s = Some t \<and> vis_ok t"
  using SoftDeleteNode_vis_ok [of s cx]
  by (cases c) (fastforce simp: channel_calls_ok view_calls_ok CreateNode_vis_ok UpdateNode_vis_ok MoveNode_vis_ok)+

section \<open>Runs of the service\<close>

fun vi_run :: "(ctx \<times> vi_call) list \<Rightarrow> vis \<Rightarrow> vis option" where
  "vi_run [] s = Some s"
| "vi_run ((cx, c) # cs) s = (case vi_exec cx c s of None \<Rightarrow> None | Some t \<Rightarrow> vi_run cs t)"

fun no_self_parents :: "(ctx \<times> vi_call) list \<Rightarrow> vis \<Rightarrow> bool" where
  "no_self_parents [] s = True"
| "no_self_parents ((cx, c) # cs) s =
     (\<not> names_itself s c \<and> (case vi_exec cx c s of None \<Rightarrow> True | Some t \<Rightarrow> no_self_parents cs t))"

definition NewVirtualIndexService :: "database \<Rightarrow> bool \<Rightarrow> bus option \<Rightarrow> vis" where
  "NewVirtualIndexService d audit b = \<lparr>vi_db = d, vi_audit = audit, vi_bus = b, vi_panicked = False\<rparr>"

lemma vi_run_ok: "vis_ok s \<Longrightarrow> no_self_parents cs s \<Longrightarrow> \<exists>t. vi_run cs s = Some t \<and> vis_ok t"
proof (induction cs s rule: vi_run.induct)
  case (2 cx c cs s)
  then obtain t where "vi_exec cx c s = Some t" "vis_ok t" using vi_exec_ok [of s c cx] by auto
  with 2 show ?case by simp
qed simp

lemma fresh_service_ok:
  "\<forall>b'. b = Some b' \<longrightarrow> bus_ok b' \<Longrightarrow> vis_ok (NewVirtualIndexService ((empty_db now)\<lparr>t_files := fs\<rparr>) audit b)"
  by (auto simp: NewVirtualIndexService_def vis_ok_def schema_defs keyed_def empty_db_def forest_def parent_rel_def acyclic_def)

section \<open>Properties\<close>

text \<open>
  C3: Starting from empty index tables, every sequence of calls of the service in which no new
  node names its own id as its parent returns, with unique keys and slugs, all references
  resolved, all CHECK constraints met, an acyclic parent relation, and no panic on the bus.
\<close>
theorem index_runs_keep_forest:
  assumes "no_self_parents cs (NewVirtualIndexService ((empty_db now)\<lparr>t_files := fs\<rparr>) audit (map_option NewBus n))"
  shows "\<exists>t. vi_run cs (NewVirtualIndexService ((empty_db now)\<lparr>t_files := fs\<rparr>) audit (map_option NewBus n)) = Some t \<and>
    schema_ok (vi_db t) \<and> acyclic (parent_rel (t_nodes (vi_db t))) \<and> \<not> vi_panicked t"
proof -
  have "\<forall>b'. map_option NewBus n = Some b' \<longrightarrow> bus_ok b'" by (auto simp: NewBus_ok)
  from vi_run_ok [OF fresh_service_ok [OF this] assms] show ?thesis by (auto simp: vis_ok_def forest_def)
qed

text \<open>A small index for the witnesses: one channel, one view, the chain 1 - 2 - 3 and the root 4.\<close>

definition demo_node :: "int option \<Rightarrow> string \<Rightarrow> node" where
  "demo_node p nm = \<lparr>n_id = 0, n_view_id = 1, n_parent_id = p, n_name = nm, n_node_type = ''folder'', n_file_id = None,
     n_rule_config = None, n_sort_order = 0, n_status = ''visible'', n_created_at = 0\<rparr>"

definition demo_calls :: "vi_call list" where
  "demo_calls =
     [VCreateChannel \<lparr>c_id = 0, c_slug = ''pub'', c_name = ''Public'', c_auth_mode = ''anonymous'', c_description = [], c_created_at = 0\<rparr>,
      VCreateView \<lparr>v_id = 0, v_slug = ''main'', v_name = ''Main'', v_channel_id = 1, v_mode = ''curated'', v_writable = True,
        v_sort_order = 0, v_created_at = 0\<rparr>,
      VCreateNode (demo_node None ''a''), VCreateNode (demo_node (Some 1) ''b''), VCreateNode (demo_node (Some 2) ''c''),
      VCreateNode (demo_node None ''d'')]"

definition demo_run :: "(ctx \<times> vi_call) list" where
  "demo_run = map (\<lambda>c. ((False, \<lambda>_. False), c)) demo_calls"

definition demo_start :: vis where
  "demo_start = NewVirtualIndexService ((empty_db 7)\<lparr>t_files := []\<rparr>) True (map_option NewBus (Some 4))"

definition demo_index :: vis where
  "demo_index = the (vi_run demo_run demo_start)"

lemma demo_no_self: "no_self_parents demo_run demo_start"
  by code_simp

lemma demo_index_ok: "vis_ok demo_index"
  using vi_run_ok [OF _ demo_no_self] fresh_service_ok [of "Some (NewBus 4)" "[]" 7 True] NewBus_ok
  by (auto simp: demo_index_def demo_start_def)

theorem index_runs_keep_forest_witness:
  "\<exists>t. vi_run demo_run demo_start = Some t \<and> schema_ok (vi_db t) \<and> acyclic (parent_rel (t_nodes (vi_db t))) \<and> \<not> vi_panicked t"
  using index_runs_keep_forest [of demo_run "[]" 7 True "Some 4"] demo_no_self unfolding demo_start_def by blast

text \<open>
  C4: On every store that satisfies the schema, checkCycle reports a circular reference exactly
  when the node is met on the ancestor chain of the new parent within maxTreeDepth steps; it
  accepts only an existing parent that the node is no ancestor of, at any distance; and it gives
  up for depth only if the ancestor chain really has maxTreeDepth edges.
\<close>
theorem checkCycle_exact:
  assumes "schema_ok d"
  shows "(checkCycle i p d = Inl ErrCircularRef \<longleftrightarrow> (\<exists>m < 50. (p, i) \<in> parent_rel (t_nodes d) ^^ m)) \<and>
    (checkCycle i p d = Inr () \<longrightarrow> (p, i) \<notin> (parent_rel (t_nodes d))\<^sup>* \<and> p \<in> n_id ` set (t_nodes d)) \<and>
    (checkCycle i p d = Inl MaxDepth \<longrightarrow> (\<exists>q. (p, q) \<in> parent_rel (t_nodes d) ^^ 50))"
  using repo.walk_circular_iff [OF assms, of 50 i p] repo.walk_ok_not_below [OF assms, of 50 i p]
    repo.walk_deep [OF assms, of 50 i p] repo.walk_ok_exists [of 50 d i p]
  by (auto simp: checkCycle_def maxTreeDepth_def repo_GetNodeParent_def row_by_None_iff simp del: walk_up.simps)

theorem checkCycle_exact_witness:
  "schema_ok (vi_db demo_index) \<and> checkCycle 1 3 (vi_db demo_index) = Inl ErrCircularRef \<and>
   (\<exists>m < 50. (3, 1) \<in> parent_rel (t_nodes (vi_db demo_index)) ^^ m)"
proof -
  have "schema_ok (vi_db demo_index)" using demo_index_ok by (simp add: vis_ok_def)
  moreover have "checkCycle 1 3 (vi_db demo_index) = Inl ErrCircularRef" by code_simp
  ultimately show ?thesis using checkCycle_exact [of "vi_db demo_index" 1 3] by blast
qed

text \<open>
  C5: A move that MoveNode accepts replaces exactly the parent of the moved node, keeps the tree
  a forest and publishes NodeTreeChanged for the node's view; a move below the node itself or
  one of its descendants fails and changes nothing.
\<close>
theorem MoveNode_correct:
  assumes "vis_ok s"
  shows "(snd (MoveNode cx i p s) = Inr () \<longrightarrow>
      (\<exists>n. repo_GetNode i (vi_db s) = Some n \<and>
        fst (MoveNode cx i p s) = vi_emit cx (NodeTreeChanged (n_view_id n))
          (s\<lparr>vi_db := (vi_db s)\<lparr>t_nodes := map (\<lambda>m. if n_id m = i then m\<lparr>n_parent_id := p\<rparr> else m) (t_nodes (vi_db s))\<rparr>\<rparr>)) \<and>
      acyclic (parent_rel (t_nodes (vi_db (fst (MoveNode cx i p s)))))) \<and>
    (\<forall>q. p = Some q \<and> q \<in> subtree (vi_db s) i \<longrightarrow> fst (MoveNode cx i p s) = s \<and> snd (MoveNode cx i p s) \<noteq> Inr ())"
proof (cases rule: MoveNode_cases [of cx i p s])
  case (moved n d)
  have "d = (vi_db s)\<lparr>t_nodes := map (\<lambda>m. if n_id m = i then m\<lparr>n_parent_id := p\<rparr> else m) (t_nodes (vi_db s))\<rparr>"
    using moved(2) by (auto simp: repo_SetNodeParent_def upd_row_def split: if_splits)
  moreover have "acyclic (parent_rel (t_nodes (vi_db (fst (MoveNode cx i p s)))))"
    using MoveNode_vis_ok [OF assms] by (simp add: vis_ok_def forest_def)
  moreover have "q \<notin> subtree (vi_db s) i" if "p = Some q" for q
    using repo.walk_ok_not_below [of "vi_db s"] moved(3) that assms by (simp add: checkCycle_def vis_ok_def)
  ultimately show ?thesis using moved(1,4) by (auto simp: emitNodeTreeChanged_def)
qed auto

theorem MoveNode_correct_witness:
  "vis_ok demo_index \<and> snd (MoveNode (False, \<lambda>_. False) 2 (Some 4) demo_index) = Inr () \<and>
   acyclic (parent_rel (t_nodes (vi_db (fst (MoveNode (False, \<lambda>_. False) 2 (Some 4) demo_index))))) \<and>
   snd (MoveNode (False, \<lambda>_. False) 1 (Some 3) demo_index) = Inl ErrCircularRef"
proof -
  have "snd (MoveNode (False, \<lambda>_. False) 2 (Some 4) demo_index) = Inr ()"
    "snd (MoveNode (False, \<lambda>_. False) 1 (Some 3) demo_index) = Inl ErrCircularRef" by code_simp+
  with MoveNode_correct [OF demo_index_ok, of "(False, \<lambda>_. False)" 2 "Some 4"] demo_index_ok show ?thesis by blast
qed

text \<open>
  In every consistent state SoftDeleteNode on an existing node returns and hides exactly the
  node and its descendants; every other row of the tree, and every other column of the hidden
  rows, is unchanged.
\<close>
theorem SoftDeleteNode_exact:
  assumes "vis_ok s" "repo_GetNode i (vi_db s) = Some n"
  shows "\<exists>t. SoftDeleteNode cx i s = Some (t, Inr ()) \<and>
    t_nodes (vi_db t) = map (\<lambda>m. if (n_id m, i) \<in> (parent_rel (t_nodes (vi_db s)))\<^sup>* then m\<lparr>n_status := ''hidden''\<rparr> else m)
      (t_nodes (vi_db s))"
proof -
  have "schema_ok (vi_db s)" "forest (vi_db s)" using assms by (simp_all add: vis_ok_def)
  from SoftDeleteNodeCascade_spec [OF this, of i] assms(2) show ?thesis
    by (simp add: SoftDeleteNode_def emitNodeTreeChanged_def)
qed

theorem SoftDeleteNode_exact_witness:
  "\<exists>t n. repo_GetNode 2 (vi_db demo_index) = Some n \<and> SoftDeleteNode (False, \<lambda>_. False) 2 demo_index = Some (t, Inr ()) \<and>
     map n_status (t_nodes (vi_db t)) = [''visible'', ''hidden'', ''hidden'', ''visible'']"
proof -
  have n: "repo_GetNode 2 (vi_db demo_index) = Some ((demo_node (Some 1) ''b'')\<lparr>n_id := 2, n_created_at := 7\<rparr>)" by code_simp
  from SoftDeleteNode_exact [OF demo_index_ok n, of "(False, \<lambda>_. False)"]
  obtain t where "SoftDeleteNode (False, \<lambda>_. False) 2 demo_index = Some (t, Inr ())" by blast
  moreover have "map_option (\<lambda>x. map n_status (t_nodes (vi_db (fst x)))) (SoftDeleteNode (False, \<lambda>_. False) 2 demo_index)
      = Some [''visible'', ''hidden'', ''hidden'', ''visible'']" by code_simp
  ultimately show ?thesis using n by auto
qed

text \<open>
  The store accepts a new node whose parent is the id it is about to receive. The node is
  then its own parent, and deleting it never returns: the walk over its subtree does not end.
\<close>
theorem self_parent_never_deleted:
  assumes "vis_ok s" "n_parent_id n = Some (seq_nodes (vi_db s) + 1)" "n_view_id n \<in> v_id ` set (t_views (vi_db s))"
    and "n_node_type n \<in> set node_types" "n_status n \<in> set node_statuses" "n_file_id n = None"
  shows "snd (CreateNode cx n s) = Inr (n\<lparr>n_id := seq_nodes (vi_db s) + 1\<rparr>) \<and>
    SoftDeleteNode cx' (seq_nodes (vi_db s) + 1) (fst (CreateNode cx n s)) = None"
proof -
  let ?i = "seq_nodes (vi_db s) + 1" and ?d = "vi_db (fst (CreateNode cx n s))"
  have r: "snd (CreateNode cx n s) = Inr (n\<lparr>n_id := ?i\<rparr>)"
    and nodes: "t_nodes ?d = t_nodes (vi_db s) @ [n\<lparr>n_id := ?i, n_created_at := sql_now (vi_db s)\<rparr>]"
    using assms(2-) by (simp_all add: CreateNode_def repo_CreateNode_def Let_def emitNodeTreeChanged_def emitRuleFolderCreated_def)
  have "(?i, ?i) \<in> parent_rel (t_nodes ?d)" using assms(2) by (simp add: nodes parent_rel_snoc)
  then have "collectSubtreeIDs ?i ?d = None" by (intro collect_cyclic) blast
  moreover have "repo_GetNode ?i ?d \<noteq> None" by (simp add: repo_GetNode_def row_by_None_iff nodes del: row_by_append not_None_eq)
  ultimately show ?thesis using r by (auto simp: SoftDeleteNode_def repo_SoftDeleteNodeCascade_def)
qed

theorem self_parent_never_deleted_witness:
  "SoftDeleteNode (False, \<lambda>_. False) 5 (fst (CreateNode (False, \<lambda>_. False) (demo_node (Some 5) ''e'') demo_index)) = None"
proof -
  have "seq_nodes (vi_db demo_index) = 4" "v_id ` set (t_views (vi_db demo_index)) = {1}" by code_simp+
  then show ?thesis
    using self_parent_never_deleted [OF demo_index_ok, of "demo_node (Some 5) ''e''" "(False, \<lambda>_. False)" "(False, \<lambda>_. False)"]
    by (simp add: demo_node_def node_types_def node_statuses_def)
qed

end
