(* ===== verification/Cache.thy ===== *)
theory Cache
  imports Event_Bus
begin

text \<open>
  The in-memory caches, src/internal/cache/cache.go. The bounded LRU of
  \<^verbatim>\<open>hashicorp/golang-lru\<close> is not part of the repository: its operations are the fields of a
  record \<open>lru\<close> that every definition takes, and what the wrapper relies on is the predicate
  \<open>lru_laws\<close> over the contents of the cache (the documented behaviour of Add, Get, Remove, Purge
  and Len: Add may drop another entry and says whether it did, a hit does not change the
  contents, the number of entries stays within the capacity).

  The process-wide cache variables are the record \<open>caches\<close>; \<open>invalidator_step\<close> is one round of
  the goroutine of EventInvalidator.
\<close>

section \<open>The LRU library, as a parameter\<close>

record ('c, 'k, 'v) lru =
  lru_Get :: "'c \<Rightarrow> 'k \<Rightarrow> 'c \<times> 'v option"
  lru_Add :: "'c \<Rightarrow> 'k \<Rightarrow> 'v \<Rightarrow> 'c \<times> bool"
  lru_Remove :: "'c \<Rightarrow> 'k \<Rightarrow> 'c"
  lru_Purge :: "'c \<Rightarrow> 'c"
  lru_Len :: "'c \<Rightarrow> int"
  lru_New :: "int \<Rightarrow> 'c option"

text \<open>
  \<open>ok n c\<close>: \<open>c\<close> is a cache of capacity \<open>n\<close>; \<open>peek c\<close> is its contents.
\<close>

definition lru_laws :: "('c, 'k, 'v) lru \<Rightarrow> (int \<Rightarrow> 'c \<Rightarrow> bool) \<Rightarrow> ('c \<Rightarrow> 'k \<Rightarrow> 'v option) \<Rightarrow> bool" where
  "lru_laws L ok peek \<longleftrightarrow>
     (\<forall>n. (0 < n \<longrightarrow> (\<exists>c. lru_New L n = Some c \<and> ok n c \<and> peek c = Map.empty)) \<and> (n \<le> 0 \<longrightarrow> lru_New L n = None)) \<and>
     (\<forall>n c k. ok n c \<longrightarrow> snd (lru_Get L c k) = peek c k \<and> ok n (fst (lru_Get L c k)) \<and> peek (fst (lru_Get L c k)) = peek c) \<and>
     (\<forall>n c k v. ok n c \<longrightarrow> ok n (fst (lru_Add L c k v)) \<and> peek (fst (lru_Add L c k v)) k = Some v \<and>
        peek (fst (lru_Add L c k v)) \<subseteq>\<^sub>m (peek c)(k \<mapsto> v) \<and>
        (snd (lru_Add L c k v) \<longleftrightarrow> peek (fst (lru_Add L c k v)) \<noteq> (peek c)(k \<mapsto> v))) \<and>
     (\<forall>n c k. ok n c \<longrightarrow> ok n (lru_Remove L c k) \<and> peek (lru_Remove L c k) = (peek c)(k := None)) \<and>
     (\<forall>n c. ok n c \<longrightarrow> ok n (lru_Purge L c) \<and> peek (lru_Purge L c) = Map.empty) \<and>
     (\<forall>n c. ok n c \<longrightarrow> finite (dom (peek c)) \<and> lru_Len L c = int (card (dom (peek c))) \<and> lru_Len L c \<le> n)"

section \<open>Cache\<close>

record 'c cache =
  c_cache :: 'c
  c_size :: int
  c_hits :: int
  c_misses :: int
  c_evictions :: int

text \<open>\<^const>\<open>None\<close> is the panic on a size that is not positive.\<close>

definition NewCache :: "('c, 'k, 'v) lru \<Rightarrow> int \<Rightarrow> 'c cache option" where
  "NewCache L n = (case lru_New L n of None \<Rightarrow> None
     | Some c \<Rightarrow> Some \<lparr>c_cache = c, c_size = n, c_hits = 0, c_misses = 0, c_evictions = 0\<rparr>)"

definition cache_Get :: "('c, 'k, 'v) lru \<Rightarrow> 'k \<Rightarrow> 'c cache \<Rightarrow> 'c cache \<times> 'v option" where
  "cache_Get L k c = (case lru_Get L (c_cache c) k of
     (c', Some v) \<Rightarrow> (c\<lparr>c_cache := c', c_hits := c_hits c + 1\<rparr>, Some v)
   | (c', None) \<Rightarrow> (c\<lparr>c_cache := c', c_misses := c_misses c + 1\<rparr>, None))"

definition cache_Put :: "('c, 'k, 'v) lru \<Rightarrow> 'k \<Rightarrow> 'v \<Rightarrow> 'c cache \<Rightarrow> 'c cache" where
  "cache_Put L k v c = (case lru_Add L (c_cache c) k v of
     (c', evicted) \<Rightarrow> if evicted then c\<lparr>c_cache := c', c_evictions := c_evictions c + 1\<rparr> else c\<lparr>c_cache := c'\<rparr>)"

definition cache_Delete :: "('c, 'k, 'v) lru \<Rightarrow> 'k \<Rightarrow> 'c cache \<Rightarrow> 'c cache" where
  "cache_Delete L k c = c\<lparr>c_cache := lru_Remove L (c_cache c) k\<rparr>"

definition cache_Purge :: "('c, 'k, 'v) lru \<Rightarrow> 'c cache \<Rightarrow> 'c cache" where
  "cache_Purge L c = c\<lparr>c_cache := lru_Purge L (c_cache c)\<rparr>"

definition cache_Len :: "('c, 'k, 'v) lru \<Rightarrow> 'c cache \<Rightarrow> int" where
  "cache_Len L c = lru_Len L (c_cache c)"

definition cache_Stats :: "'c cache \<Rightarrow> int \<times> int \<times> int" where
  "cache_Stats c = (c_hits c, c_misses c, c_evictions c)"

record cache_stats =
  cs_size :: int
  cs_len :: int
  cs_hits :: int
  cs_misses :: int
  cs_evictions :: int

definition cache_Snapshot :: "('c, 'k, 'v) lru \<Rightarrow> 'c cache \<Rightarrow> cache_stats" where
  "cache_Snapshot L c = \<lparr>cs_size = c_size c, cs_len = lru_Len L (c_cache c), cs_hits = c_hits c,
     cs_misses = c_misses c, cs_evictions = c_evictions c\<rparr>"

section \<open>TTLCache\<close>

record 'c ttl_cache =
  tc_inner :: "'c cache"
  tc_ttl :: int

definition NewTTLCache :: "('c, string, int) lru \<Rightarrow> int \<Rightarrow> int \<Rightarrow> 'c ttl_cache option" where
  "NewTTLCache L n ttl = (case NewCache L n of None \<Rightarrow> None | Some c \<Rightarrow> Some \<lparr>tc_inner = c, tc_ttl = ttl\<rparr>)"

text \<open>The item is its expiry time; \<open>now\<close> is the reading of the clock.\<close>

definition ttl_Get :: "('c, string, int) lru \<Rightarrow> int \<Rightarrow> string \<Rightarrow> 'c ttl_cache \<Rightarrow> 'c ttl_cache \<times> int option" where
  "ttl_Get L now k t = (case cache_Get L k (tc_inner t) of
     (c, None) \<Rightarrow> (t\<lparr>tc_inner := c\<rparr>, None)
   | (c, Some expiresAt) \<Rightarrow>
       if expiresAt < now then (t\<lparr>tc_inner := cache_Delete L k c\<rparr>, None)
       else (t\<lparr>tc_inner := c\<rparr>, Some expiresAt))"

definition ttl_Put :: "('c, string, int) lru \<Rightarrow> int \<Rightarrow> string \<Rightarrow> 'c ttl_cache \<Rightarrow> 'c ttl_cache" where
  "ttl_Put L now k t = t\<lparr>tc_inner := cache_Put L k (now + tc_ttl t) (tc_inner t)\<rparr>"

definition ttl_Delete :: "('c, string, int) lru \<Rightarrow> string \<Rightarrow> 'c ttl_cache \<Rightarrow> 'c ttl_cache" where
  "ttl_Delete L k t = t\<lparr>tc_inner := cache_Delete L k (tc_inner t)\<rparr>"

definition ttl_Purge :: "('c, string, int) lru \<Rightarrow> 'c ttl_cache \<Rightarrow> 'c ttl_cache" where
  "ttl_Purge L t = t\<lparr>tc_inner := cache_Purge L (tc_inner t)\<rparr>"

definition ttl_Snapshot :: "('c, string, int) lru \<Rightarrow> 'c ttl_cache \<Rightarrow> cache_stats" where
  "ttl_Snapshot L t = cache_Snapshot L (tc_inner t)"

section \<open>The process-wide caches and their invalidation\<close>

text \<open>The caches the invalidator touches: \<open>'p\<close>, \<open>'h\<close> and \<open>'g\<close> are the LRU states of PathCache,
  ChildrenCache and NegativeCache. The other three globals are never touched by it.\<close>

record ('p, 'h, 'g) caches =
  PathCache :: "'p cache"
  ChildrenCache :: "'h cache"
  NegativeCache :: "'g ttl_cache"

type_synonym ('p, 'h, 'g) cache_libs =
  "('p, string, int) lru \<times> ('h, string, int list) lru \<times> ('g, string, int) lru"

definition handleFileEvent :: "('p, 'h, 'g) cache_libs \<Rightarrow> event \<Rightarrow> ('p, 'h, 'g) caches \<Rightarrow> ('p, 'h, 'g) caches" where
  "handleFileEvent Ls e g = (case e of
     FilePublished _ \<Rightarrow> g\<lparr>NegativeCache := ttl_Purge (snd (snd Ls)) (NegativeCache g)\<rparr>
   | FileRemoved _ \<Rightarrow> g\<lparr>NegativeCache := ttl_Purge (snd (snd Ls)) (NegativeCache g)\<rparr>
   | FileMetadataChanged _ \<Rightarrow> g\<lparr>NegativeCache := ttl_Purge (snd (snd Ls)) (NegativeCache g)\<rparr>
   | _ \<Rightarrow> g)"

definition purge_tree_caches :: "('p, 'h, 'g) cache_libs \<Rightarrow> ('p, 'h, 'g) caches \<Rightarrow> ('p, 'h, 'g) caches" where
  "purge_tree_caches Ls g =
     g\<lparr>PathCache := cache_Purge (fst Ls) (PathCache g), ChildrenCache := cache_Purge (fst (snd Ls)) (ChildrenCache g)\<rparr>"

text \<open>Which ready case the select of EventInvalidator takes: the context, or one of its channels.\<close>

datatype inv_case = CtxDone | Chan1 | Chan2 | Chan3 | Chan4

record inv_subs =
  is_ch :: nat
  is_ch2 :: nat
  is_ch3 :: nat
  is_ch4 :: nat

definition invalidator_start :: "bus \<Rightarrow> bus \<times> inv_subs" where
  "invalidator_start b =
     (let (b1, c1) = Subscribe b ''file.published''; (b2, c2) = Subscribe b1 ''file.removed'';
          (b3, c3) = Subscribe b2 ''file.metadata_changed''; (b4, c4) = Subscribe b3 ''node.tree_changed''
      in (b4, \<lparr>is_ch = c1, is_ch2 = c2, is_ch3 = c3, is_ch4 = c4\<rparr>))"

text \<open>One round; \<^const>\<open>None\<close> when the goroutine returns. A case that is not ready is not taken.\<close>

definition invalidator_step ::
  "('p, 'h, 'g) cache_libs \<Rightarrow> inv_subs \<Rightarrow> inv_case \<Rightarrow> bus \<times> ('p, 'h, 'g) caches \<Rightarrow> (bus \<times> ('p, 'h, 'g) caches) option" where
  "invalidator_step Ls subs cs bg =
     (let on = (\<lambda>ch f. case receive (fst bg) ch of
                   (b, Got e) \<Rightarrow> Some (b, f e (snd bg))
                 | (b, ChanClosed) \<Rightarrow> None
                 | (b, Blocked) \<Rightarrow> Some bg)
      in case cs of
           CtxDone \<Rightarrow> None
         | Chan1 \<Rightarrow> on (is_ch subs) (handleFileEvent Ls)
         | Chan2 \<Rightarrow> on (is_ch2 subs) (handleFileEvent Ls)
         | Chan3 \<Rightarrow> on (is_ch3 subs) (handleFileEvent Ls)
         | Chan4 \<Rightarrow> on (is_ch4 subs) (\<lambda>e. purge_tree_caches Ls))"

section \<open>Consequences of the laws\<close>

lemma lru_GetD:
  "lru_laws L ok peek \<Longrightarrow> ok n c \<Longrightarrow>
   snd (lru_Get L c k) = peek c k \<and> ok n (fst (lru_Get L c k)) \<and> peek (fst (lru_Get L c k)) = peek c"
  by (simp add: lru_laws_def)

lemma lru_AddD:
  assumes "lru_laws L ok peek" "ok n c"
  shows "ok n (fst (lru_Add L c k v))" "peek (fst (lru_Add L c k v)) k = Some v"
    "peek (fst (lru_Add L c k v)) \<subseteq>\<^sub>m (peek c)(k \<mapsto> v)"
    "snd (lru_Add L c k v) \<longleftrightarrow> peek (fst (lru_Add L c k v)) \<noteq> (peek c)(k \<mapsto> v)"
  using assms unfolding lru_laws_def by blast+

lemma lru_RemoveD: "lru_laws L ok peek \<Longrightarrow> ok n c \<Longrightarrow> ok n (lru_Remove L c k) \<and> peek (lru_Remove L c k) = (peek c)(k := None)"
  unfolding lru_laws_def by blast

lemma lru_PurgeD: "lru_laws L ok peek \<Longrightarrow> ok n c \<Longrightarrow> ok n (lru_Purge L c) \<and> peek (lru_Purge L c) = Map.empty"
  unfolding lru_laws_def by blast

lemma lru_LenD: "lru_laws L ok peek \<Longrightarrow> ok n c \<Longrightarrow> lru_Len L c = int (card (dom (peek c))) \<and> lru_Len L c \<le> n"
  unfolding lru_laws_def by blast

lemma lru_NewD: "lru_laws L ok peek \<Longrightarrow> lru_New L n = Some c \<Longrightarrow> 0 < n \<and> ok n c \<and> peek c = Map.empty"
  unfolding lru_laws_def by (metis linorder_not_le option.distinct(1) option.inject)

text \<open>Get on the wrapper: the contents, and the counters.\<close>

lemma cache_Get_spec:
  assumes "lru_laws L ok peek" "ok n (c_cache c)"
  shows "snd (cache_Get L k c) = peek (c_cache c) k" "ok n (c_cache (fst (cache_Get L k c)))"
    "peek (c_cache (fst (cache_Get L k c))) = peek (c_cache c)"
    "c_hits (fst (cache_Get L k c)) = c_hits c + (if peek (c_cache c) k = None then 0 else 1)"
    "c_misses (fst (cache_Get L k c)) = c_misses c + (if peek (c_cache c) k = None then 1 else 0)"
    "c_evictions (fst (cache_Get L k c)) = c_evictions c"
proof -
  note D = lru_GetD [OF assms, of k]
  then obtain c1 where g: "lru_Get L (c_cache c) k = (c1, peek (c_cache c) k)" by (metis prod.collapse)
  show "snd (cache_Get L k c) = peek (c_cache c) k" "ok n (c_cache (fst (cache_Get L k c)))"
    "peek (c_cache (fst (cache_Get L k c))) = peek (c_cache c)"
    "c_hits (fst (cache_Get L k c)) = c_hits c + (if peek (c_cache c) k = None then 0 else 1)"
    "c_misses (fst (cache_Get L k c)) = c_misses c + (if peek (c_cache c) k = None then 1 else 0)"
    "c_evictions (fst (cache_Get L k c)) = c_evictions c"
    using D by (cases "peek (c_cache c) k"; simp add: cache_Get_def g)+
qed

lemma cache_Put_spec:
  assumes "lru_laws L ok peek" "ok n (c_cache c)"
  shows "ok n (c_cache (cache_Put L k v c))" "peek (c_cache (cache_Put L k v c)) k = Some v"
    "peek (c_cache (cache_Put L k v c)) \<subseteq>\<^sub>m (peek (c_cache c))(k \<mapsto> v)"
    "c_hits (cache_Put L k v c) = c_hits c" "c_misses (cache_Put L k v c) = c_misses c"
    "c_evictions (cache_Put L k v c) = c_evictions c + (if peek (c_cache (cache_Put L k v c)) = (peek (c_cache c))(k \<mapsto> v) then 0 else 1)"
proof -
  have split: "cache_Put L k v c = (if snd (lru_Add L (c_cache c) k v)
      then c\<lparr>c_cache := fst (lru_Add L (c_cache c) k v), c_evictions := c_evictions c + 1\<rparr>
      else c\<lparr>c_cache := fst (lru_Add L (c_cache c) k v)\<rparr>)"
    by (simp add: cache_Put_def split: prod.split)
  note D = lru_AddD [OF assms, of k v]
  show "ok n (c_cache (cache_Put L k v c))" "peek (c_cache (cache_Put L k v c)) k = Some v"
    "peek (c_cache (cache_Put L k v c)) \<subseteq>\<^sub>m (peek (c_cache c))(k \<mapsto> v)"
    "c_hits (cache_Put L k v c) = c_hits c" "c_misses (cache_Put L k v c) = c_misses c"
    using D(1-3) by (simp_all add: split)
  show "c_evictions (cache_Put L k v c) = c_evictions c + (if peek (c_cache (cache_Put L k v c)) = (peek (c_cache c))(k \<mapsto> v) then 0 else 1)"
    using D(4) by (simp add: split)
qed

section \<open>The cache against a plain map\<close>

datatype ('k, 'v) cache_op = OGet 'k | OPut 'k 'v | ODelete 'k | OPurge

fun cache_exec :: "('c, 'k, 'v) lru \<Rightarrow> ('k, 'v) cache_op \<Rightarrow> 'c cache \<Rightarrow> 'c cache" where
  "cache_exec L (OGet k) c = fst (cache_Get L k c)"
| "cache_exec L (OPut k v) c = cache_Put L k v c"
| "cache_exec L (ODelete k) c = cache_Delete L k c"
| "cache_exec L OPurge c = cache_Purge L c"

fun map_exec :: "('k, 'v) cache_op \<Rightarrow> ('k \<Rightarrow> 'v option) \<Rightarrow> 'k \<Rightarrow> 'v option" where
  "map_exec (OGet k) m = m"
| "map_exec (OPut k v) m = m(k \<mapsto> v)"
| "map_exec (ODelete k) m = m(k := None)"
| "map_exec OPurge m = Map.empty"

text \<open>The answers of the Gets of a sequence of calls: from the wrapper, from a plain map, and from the contents of the
  cache at the time of each Get. The last function counts the Puts that cost another entry its place.\<close>

fun cache_run :: "('c, 'k, 'v) lru \<Rightarrow> ('k, 'v) cache_op list \<Rightarrow> 'c cache \<Rightarrow> 'v option list \<times> 'c cache" where
  "cache_run L [] c = ([], c)"
| "cache_run L (OGet k # xs) c =
     (case cache_Get L k c of (c1, a) \<Rightarrow> (case cache_run L xs c1 of (as, c2) \<Rightarrow> (a # as, c2)))"
| "cache_run L (x # xs) c = cache_run L xs (cache_exec L x c)"

fun map_answers :: "('k, 'v) cache_op list \<Rightarrow> ('k \<Rightarrow> 'v option) \<Rightarrow> 'v option list" where
  "map_answers [] m = []"
| "map_answers (OGet k # xs) m = m k # map_answers xs m"
| "map_answers (x # xs) m = map_answers xs (map_exec x m)"

fun held_answers :: "('c, 'k, 'v) lru \<Rightarrow> ('c \<Rightarrow> 'k \<Rightarrow> 'v option) \<Rightarrow> ('k, 'v) cache_op list \<Rightarrow> 'c cache \<Rightarrow> 'v option list" where
  "held_answers L peek [] c = []"
| "held_answers L peek (OGet k # xs) c = peek (c_cache c) k # held_answers L peek xs (cache_exec L (OGet k) c)"
| "held_answers L peek (x # xs) c = held_answers L peek xs (cache_exec L x c)"

fun lossy_puts :: "('c, 'k, 'v) lru \<Rightarrow> ('c \<Rightarrow> 'k \<Rightarrow> 'v option) \<Rightarrow> ('k, 'v) cache_op list \<Rightarrow> 'c cache \<Rightarrow> nat" where
  "lossy_puts L peek [] c = 0"
| "lossy_puts L peek (OPut k v # xs) c =
     (if peek (c_cache (cache_Put L k v c)) = (peek (c_cache c))(k \<mapsto> v) then 0 else 1) + lossy_puts L peek xs (cache_Put L k v c)"
| "lossy_puts L peek (x # xs) c = lossy_puts L peek xs (cache_exec L x c)"

definition cache_inv :: "(int \<Rightarrow> 'c \<Rightarrow> bool) \<Rightarrow> ('c \<Rightarrow> 'k \<Rightarrow> 'v option) \<Rightarrow> int \<Rightarrow> 'c cache \<Rightarrow> ('k \<Rightarrow> 'v option) \<Rightarrow> bool" where
  "cache_inv ok peek n c m \<longleftrightarrow> ok n (c_cache c) \<and> peek (c_cache c) \<subseteq>\<^sub>m m \<and> 0 \<le> c_evictions c \<and>
     (c_evictions c = 0 \<longrightarrow> peek (c_cache c) = m)"

lemma map_le_upd_both: "f \<subseteq>\<^sub>m g \<Longrightarrow> f(k \<mapsto> v) \<subseteq>\<^sub>m g(k \<mapsto> v)"
  by (auto simp: map_le_def)

lemma map_le_upd_none: "f \<subseteq>\<^sub>m g \<Longrightarrow> f(k := None) \<subseteq>\<^sub>m g(k := None)"
  by (auto simp: map_le_def)

lemma cache_exec_inv:
  assumes laws: "lru_laws L ok peek" and inv: "cache_inv ok peek n c m"
  shows "cache_inv ok peek n (cache_exec L x c) (map_exec x m)"
proof -
  have c: "ok n (c_cache c)" "peek (c_cache c) \<subseteq>\<^sub>m m" "0 \<le> c_evictions c"
    "c_evictions c = 0 \<longrightarrow> peek (c_cache c) = m" using inv by (simp_all add: cache_inv_def)
  show ?thesis
  proof (cases x)
    case (OPut k v)
    note P = cache_Put_spec [OF laws c(1), of k v]
    have "peek (c_cache (cache_Put L k v c)) \<subseteq>\<^sub>m m(k \<mapsto> v)"
      using P(3) map_le_upd_both [OF c(2)] by (rule map_le_trans)
    then show ?thesis using OPut P c by (auto simp: cache_inv_def split: if_splits)
  qed (use c in \<open>auto simp: cache_inv_def cache_Get_spec [OF laws c(1)] cache_Delete_def cache_Purge_def
        lru_RemoveD [OF laws c(1)] lru_PurgeD [OF laws c(1)] map_le_upd_none\<close>)
qed

lemma cache_run_state: "snd (cache_run L xs c) = fold (cache_exec L) xs c"
  by (induction L xs c rule: cache_run.induct) (simp_all split: prod.split, metis fst_conv snd_conv)

lemma cache_run_answers:
  assumes laws: "lru_laws L ok peek" and "ok n (c_cache c)"
  shows "fst (cache_run L xs c) = held_answers L peek xs c \<and> ok n (c_cache (fold (cache_exec L) xs c)) \<and>
    c_hits (fold (cache_exec L) xs c) = c_hits c + int (length (filter (\<lambda>a. a \<noteq> None) (held_answers L peek xs c))) \<and>
    c_misses (fold (cache_exec L) xs c) = c_misses c + int (length (filter (\<lambda>a. a = None) (held_answers L peek xs c))) \<and>
    c_evictions (fold (cache_exec L) xs c) = c_evictions c + int (lossy_puts L peek xs c)"
  using assms(2)
proof (induction xs arbitrary: c)
  case (Cons x xs)
  show ?case
  proof (cases x)
    case (OGet k)
    show ?thesis using Cons.IH [of "fst (cache_Get L k c)"] cache_Get_spec [OF laws Cons.prems, of k]
      by (cases "cache_Get L k c") (simp add: OGet case_prod_beta)
  next
    case (OPut k v)
    show ?thesis using Cons.IH [of "cache_Put L k v c"] cache_Put_spec [OF laws Cons.prems, of k v] by (simp add: OPut)
  next
    case (ODelete k)
    show ?thesis using Cons.IH [of "cache_Delete L k c"] lru_RemoveD [OF laws Cons.prems, of k]
      by (simp add: ODelete cache_Delete_def)
  next
    case OPurge
    show ?thesis using Cons.IH [of "cache_Purge L c"] lru_PurgeD [OF laws Cons.prems] by (simp add: OPurge cache_Purge_def)
  qed
qed simp

lemma cache_run_refines:
  assumes laws: "lru_laws L ok peek" and "cache_inv ok peek n c m"
  shows "cache_inv ok peek n (fold (cache_exec L) xs c) (fold map_exec xs m) \<and>
    list_all2 (\<lambda>a r. a = None \<or> a = r) (held_answers L peek xs c) (map_answers xs m) \<and>
    (c_evictions (fold (cache_exec L) xs c) = 0 \<longrightarrow> held_answers L peek xs c = map_answers xs m)"
  using assms(2)
proof (induction xs arbitrary: c m)
  case (Cons x xs)
  have c: "ok n (c_cache c)" "0 \<le> c_evictions c" using Cons.prems by (simp_all add: cache_inv_def)
  have "ok n (c_cache (cache_exec L x c))" "c_evictions c \<le> c_evictions (cache_exec L x c)"
    using cache_run_answers [OF laws c(1), of "[x]"] by simp_all
  moreover from cache_run_answers [OF laws this(1), of xs]
  have "c_evictions (cache_exec L x c) \<le> c_evictions (fold (cache_exec L) xs (cache_exec L x c))" by simp
  ultimately have ev: "c_evictions (fold (cache_exec L) (x # xs) c) = 0 \<longrightarrow> c_evictions c = 0" using c(2) by simp
  note IH = Cons.IH [OF cache_exec_inv [OF laws Cons.prems, of x]]
  show ?case
  proof (cases x)
    case (OGet k)
    have "peek (c_cache c) k = None \<or> peek (c_cache c) k = m k" "c_evictions c = 0 \<longrightarrow> peek (c_cache c) k = m k"
      using Cons.prems by (auto simp: cache_inv_def map_le_def dom_def)
    then show ?thesis using IH ev by (simp add: OGet)
  qed (use IH in \<open>simp_all add: fun_upd_def\<close>)
qed simp

section \<open>An LRU that satisfies the laws\<close>

text \<open>The list of entries, most recent first, with its capacity.\<close>

definition list_lru :: "(nat \<times> (string \<times> int) list, string, int) lru" where
  "list_lru = \<lparr>
     lru_Get = (\<lambda>(n, xs) k. (case map_of xs k of
         None \<Rightarrow> ((n, xs), None)
       | Some v \<Rightarrow> ((n, (k, v) # filter (\<lambda>e. fst e \<noteq> k) xs), Some v))),
     lru_Add = (\<lambda>(n, xs) k v. let ys = (k, v) # filter (\<lambda>e. fst e \<noteq> k) xs in ((n, take n ys), n < length ys)),
     lru_Remove = (\<lambda>(n, xs) k. (n, filter (\<lambda>e. fst e \<noteq> k) xs)),
     lru_Purge = (\<lambda>(n, xs). (n, [])),
     lru_Len = (\<lambda>(n, xs). int (length xs)),
     lru_New = (\<lambda>n. if 0 < n then Some (nat n, []) else None)\<rparr>"

definition list_lru_ok :: "int \<Rightarrow> nat \<times> (string \<times> int) list \<Rightarrow> bool" where
  "list_lru_ok n c \<longleftrightarrow> 0 < n \<and> fst c = nat n \<and> distinct (map fst (snd c)) \<and> length (snd c) \<le> fst c"

definition list_peek :: "nat \<times> (string \<times> int) list \<Rightarrow> string \<Rightarrow> int option" where
  "list_peek c = map_of (snd c)"

lemma map_of_filter_other: "map_of (filter (\<lambda>e. fst e \<noteq> k) xs) = (map_of xs)(k := None)"
  by (induction xs) (auto simp: fun_eq_iff)

lemma map_of_take_le: "map_of (take n xs) \<subseteq>\<^sub>m map_of xs"
  by (metis append_take_drop_id map_le_map_add map_of_append)

lemma card_dom_map_of: "distinct (map fst xs) \<Longrightarrow> card (dom (map_of xs)) = length xs"
  by (metis distinct_card dom_map_of_conv_image_fst length_map list.set_map)

lemma map_of_take_eq_iff:
  assumes "distinct (map fst xs)"
  shows "map_of (take n xs) = map_of xs \<longleftrightarrow> length xs \<le> n"
proof
  assume eq: "map_of (take n xs) = map_of xs"
  have "distinct (map fst (take n xs))" using assms by (simp add: take_map [symmetric])
  then have "length (take n xs) = length xs" using eq assms by (metis card_dom_map_of)
  then show "length xs \<le> n" by simp
qed simp

lemma list_lru_Add:
  assumes "list_lru_ok n c"
  shows "list_lru_ok n (fst (lru_Add list_lru c k v)) \<and> list_peek (fst (lru_Add list_lru c k v)) k = Some v \<and>
    list_peek (fst (lru_Add list_lru c k v)) \<subseteq>\<^sub>m (list_peek c)(k \<mapsto> v) \<and>
    (snd (lru_Add list_lru c k v) \<longleftrightarrow> list_peek (fst (lru_Add list_lru c k v)) \<noteq> (list_peek c)(k \<mapsto> v))"
proof -
  obtain m xs where c: "c = (m, xs)" by fastforce
  let ?ys = "(k, v) # filter (\<lambda>e. fst e \<noteq> k) xs"
  have ys: "distinct (map fst ?ys)" using assms by (auto simp: c list_lru_ok_def distinct_map_filter)
  have my: "map_of ?ys = (map_of xs)(k \<mapsto> v)" by (simp add: map_of_filter_other)
  have m: "m = Suc (m - 1)" using assms by (simp add: c list_lru_ok_def)
  have "map_of (take m ?ys) k = Some v" by (subst m) simp
  moreover have "distinct (map fst (take m ?ys))" using ys by (metis distinct_take take_map)
  ultimately show ?thesis
    using map_of_take_le [of m ?ys] map_of_take_eq_iff [OF ys, of m] assms
    unfolding my c by (auto simp: list_lru_def list_peek_def list_lru_ok_def Let_def simp del: filter.simps map_of.simps take_Suc_Cons)
qed

lemma list_lru_Get:
  assumes "list_lru_ok n c"
  shows "snd (lru_Get list_lru c k) = list_peek c k \<and> list_lru_ok n (fst (lru_Get list_lru c k)) \<and>
    list_peek (fst (lru_Get list_lru c k)) = list_peek c"
proof -
  obtain m xs where c: "c = (m, xs)" by fastforce
  show ?thesis
  proof (cases "map_of xs k")
    case (Some v)
    then have mem: "(k, v) \<in> set xs" by (rule map_of_SomeD)
    then have "length (filter (\<lambda>e. fst e \<noteq> k) xs) < length xs" by (intro length_filter_less) auto
    with Some assms show ?thesis
      by (auto simp: c list_lru_def list_peek_def list_lru_ok_def map_of_filter_other distinct_map_filter fun_upd_idem)
  qed (use assms in \<open>simp add: c list_lru_def list_peek_def\<close>)
qed

lemma list_lru_laws: "lru_laws list_lru list_lru_ok list_peek"
proof -
  have "list_lru_ok n (lru_Remove list_lru c k) \<and> list_peek (lru_Remove list_lru c k) = (list_peek c)(k := None)"
    if "list_lru_ok n c" for n c k
    using that by (auto simp: list_lru_def list_peek_def list_lru_ok_def map_of_filter_other distinct_map_filter
        split: prod.split intro: le_trans [OF length_filter_le])
  moreover have "list_lru_ok n (lru_Purge list_lru c) \<and> list_peek (lru_Purge list_lru c) = Map.empty"
    if "list_lru_ok n c" for n c
    using that by (auto simp: list_lru_def list_peek_def list_lru_ok_def split: prod.split)
  moreover have "finite (dom (list_peek c)) \<and> lru_Len list_lru c = int (card (dom (list_peek c))) \<and> lru_Len list_lru c \<le> n"
    if "list_lru_ok n c" for n c
    using that card_dom_map_of [of "snd c"] by (auto simp: list_lru_def list_peek_def list_lru_ok_def finite_dom_map_of split: prod.split)
  moreover have "(0 < n \<longrightarrow> (\<exists>c. lru_New list_lru n = Some c \<and> list_lru_ok n c \<and> list_peek c = Map.empty)) \<and>
      (n \<le> 0 \<longrightarrow> lru_New list_lru n = None)" for n
    by (simp add: list_lru_def list_lru_ok_def list_peek_def)
  ultimately show ?thesis unfolding lru_laws_def using list_lru_Add list_lru_Get by blast
qed

section \<open>Properties\<close>

text \<open>
  C6: For any LRU that satisfies its contract, any sequence of Get, Put, Delete and Purge on a
  new cache refines the same sequence on a plain map. Each Get answers exactly what the cache holds under its key,
  which is what the map has or nothing; it is always what the map has as long as nothing was evicted. So no value comes
  back that was overwritten, deleted or purged. The hits are the Gets that found a value, the misses those that found
  none, the evictions the Puts that cost another entry its place, and the cache never has more entries than its size.
\<close>
theorem cache_refines_map:
  assumes "lru_laws L ok peek" "NewCache L n = Some c" "cache_run L xs c = (as, c')"
  shows "as = held_answers L peek xs c \<and> list_all2 (\<lambda>a r. a = None \<or> a = r) as (map_answers xs Map.empty) \<and>
    (c_evictions c' = 0 \<longrightarrow> as = map_answers xs Map.empty) \<and>
    peek (c_cache c') \<subseteq>\<^sub>m fold map_exec xs Map.empty \<and> (c_evictions c' = 0 \<longrightarrow> peek (c_cache c') = fold map_exec xs Map.empty) \<and>
    c_hits c' = int (length (filter (\<lambda>a. a \<noteq> None) as)) \<and> c_misses c' = int (length (filter (\<lambda>a. a = None) as)) \<and>
    c_evictions c' = int (lossy_puts L peek xs c) \<and> cache_Len L c' \<le> n"
proof -
  have c: "c_hits c = 0" "c_misses c = 0" "c_evictions c = 0" "ok n (c_cache c)" "peek (c_cache c) = Map.empty"
    using assms lru_NewD [OF assms(1), of n] by (auto simp: NewCache_def split: option.splits)
  then have "cache_inv ok peek n c Map.empty" by (simp add: cache_inv_def)
  note R = cache_run_refines [OF assms(1) this, of xs]
  note A = cache_run_answers [OF assms(1) c(4), of xs]
  have c': "c' = fold (cache_exec L) xs c" "as = held_answers L peek xs c"
    using cache_run_state [of L xs c] A assms(3) by simp_all
  show ?thesis using R A c(1-3) lru_LenD [OF assms(1)] by (simp add: c' cache_inv_def cache_Len_def)
qed

text \<open>The witness: a cache of one entry, where the second Put drops the first entry.\<close>

theorem cache_refines_map_witness:
  "lru_laws list_lru list_lru_ok list_peek \<and>
   (\<exists>c c'. NewCache list_lru 1 = Some c \<and>
     cache_run list_lru [OPut ''a'' 1, OGet ''a'', OPut ''b'' 2, OGet ''a'', OGet ''b''] c = ([Some 1, None, Some 2], c') \<and>
     c_hits c' = 2 \<and> c_misses c' = 1 \<and> cache_Stats c' = (2, 1, 1) \<and> cache_Len list_lru c' \<le> 1)"
proof -
  define c :: "(nat \<times> (string \<times> int) list) cache" where
    "c = \<lparr>c_cache = (1, []), c_size = 1, c_hits = 0, c_misses = 0, c_evictions = 0\<rparr>"
  define c' :: "(nat \<times> (string \<times> int) list) cache" where
    "c' = \<lparr>c_cache = (1, [(''b'', 2)]), c_size = 1, c_hits = 2, c_misses = 1, c_evictions = 1\<rparr>"
  have n: "NewCache list_lru 1 = Some c" unfolding c_def by code_simp
  have r: "cache_run list_lru [OPut ''a'' 1, OGet ''a'', OPut ''b'' 2, OGet ''a'', OGet ''b''] c = ([Some 1, None, Some 2], c')"
    unfolding c_def c'_def by code_simp
  have "cache_Stats c' = (2, 1, 1)" by (simp add: c'_def cache_Stats_def)
  with n r cache_refines_map [OF list_lru_laws n r] list_lru_laws show ?thesis by auto
qed

text \<open>
  An entry put into the TTL cache at one time is found up to and including its expiry and
  never afterwards, and the first lookup after the expiry removes it.
\<close>
theorem ttl_cache_expiry:
  assumes "lru_laws L ok peek" "ok n (c_cache (tc_inner t))"
  shows "let r = ttl_Get L now k (ttl_Put L start k t) in
    (snd r = (if now \<le> start + tc_ttl t then Some (start + tc_ttl t) else None)) \<and>
    (start + tc_ttl t < now \<longrightarrow> peek (c_cache (tc_inner (fst r))) k = None)"
proof -
  note P = cache_Put_spec [OF assms, of k "start + tc_ttl t"]
  let ?c = "cache_Put L k (start + tc_ttl t) (tc_inner t)"
  note G = cache_Get_spec [OF assms(1) P(1), of k]
  have "snd (cache_Get L k ?c) = Some (start + tc_ttl t)" using G(1) P(2) by simp
  then obtain c where g: "cache_Get L k ?c = (c, Some (start + tc_ttl t))" by (metis prod.collapse)
  have "ok n (c_cache c)" using G(2) g by simp
  from lru_RemoveD [OF assms(1) this, of k] show ?thesis
    by (auto simp: ttl_Get_def ttl_Put_def g Let_def cache_Delete_def)
qed

theorem ttl_cache_expiry_witness:
  "\<exists>t. NewTTLCache list_lru 4096 5 = Some t \<and>
     snd (ttl_Get list_lru 15 ''x'' (ttl_Put list_lru 10 ''x'' t)) = Some 15 \<and>
     snd (ttl_Get list_lru 16 ''x'' (ttl_Put list_lru 10 ''x'' t)) = None"
proof -
  let ?t = "\<lparr>tc_inner = \<lparr>c_cache = (4096, []), c_size = 4096, c_hits = 0, c_misses = 0, c_evictions = 0\<rparr>, tc_ttl = 5\<rparr>"
  have "NewTTLCache list_lru 4096 5 = Some ?t" by (simp add: NewTTLCache_def NewCache_def list_lru_def)
  moreover have "list_lru_ok 4096 (c_cache (tc_inner ?t))" by (simp add: list_lru_ok_def)
  ultimately show ?thesis
    using ttl_cache_expiry [OF list_lru_laws, of 4096 ?t 15 "''x''" 10] ttl_cache_expiry [OF list_lru_laws, of 4096 ?t 16 "''x''" 10]
    by (simp add: Let_def)
qed

text \<open>What a new subscription sees of the next publication of its tag.\<close>

lemma subs_of_Subscribe:
  "\<not> closed b \<Longrightarrow> subs_of (fst (Subscribe b tag)) tag' =
     (if tag' = tag then subs_of b tag @ [length (chans b)] else subs_of b tag')"
  by (simp add: Subscribe_def Let_def subs_of_def)

lemma chans_Subscribe: "\<not> closed b \<Longrightarrow> chans (fst (Subscribe b tag)) = chans b @ [\<lparr>buf = [], ch_closed = False\<rparr>]"
  by (simp add: Subscribe_def Let_def)

lemma snd_Subscribe: "snd (Subscribe b tag) = length (chans b)"
  by (simp add: Subscribe_def Let_def)

lemma Publish_reaches:
  assumes "bus_ok b" "\<not> closed b" "ch \<in> set (subs_of b (eventTagOf e))" "buf (chans b ! ch) = []"
  shows "buf (chans (snd (Publish False pick b e)) ! ch) = [e]"
proof -
  have subs: "\<forall>c \<in> set (subs_of b (eventTagOf e)). c < length (chans b) \<and> \<not> ch_closed (chans b ! c)"
    using assms(1) subs_of_subset [of b "eventTagOf e"] by (auto simp: bus_ok_def)
  moreover have "0 < bufferSize b" using assms(1) by (simp add: bus_ok_def)
  ultimately show ?thesis
    using publish_loop_delivers [OF distinct_subs_of [OF assms(1)] subs] assms(2-4)
    by (simp add: Publish_def deliver_def)
qed

lemma invalidator_start_spec:
  assumes "bus_ok b" "\<not> closed b" "invalidator_start b = (b', subs)"
  shows "bus_ok b' \<and> \<not> closed b' \<and> is_ch4 subs \<in> set (subs_of b' ''node.tree_changed'') \<and> buf (chans b' ! is_ch4 subs) = [] \<and>
    is_ch subs \<in> set (subs_of b' ''file.published'') \<and> buf (chans b' ! is_ch subs) = [] \<and>
    is_ch2 subs \<in> set (subs_of b' ''file.removed'') \<and> buf (chans b' ! is_ch2 subs) = [] \<and>
    is_ch3 subs \<in> set (subs_of b' ''file.metadata_changed'') \<and> buf (chans b' ! is_ch3 subs) = []"
proof -
  let ?b1 = "fst (Subscribe b ''file.published'')"
  let ?b2 = "fst (Subscribe ?b1 ''file.removed'')"
  let ?b3 = "fst (Subscribe ?b2 ''file.metadata_changed'')"
  let ?b4 = "fst (Subscribe ?b3 ''node.tree_changed'')"
  have b': "b' = ?b4" and subs: "subs = \<lparr>is_ch = length (chans b), is_ch2 = length (chans ?b1),
      is_ch3 = length (chans ?b2), is_ch4 = length (chans ?b3)\<rparr>"
    using assms(3) by (simp_all add: invalidator_start_def split_beta Let_def snd_Subscribe)
  have "bus_ok ?b4" using assms(1) by (simp add: Subscribe_ok)
  then show ?thesis using assms(2) by (simp add: b' subs subs_of_Subscribe chans_Subscribe nth_append)
qed

text \<open>
  The invalidator, end to end. Once EventInvalidator has subscribed to an open bus, the next
  NodeTreeChanged reaches it, and its next round on that channel leaves the path and the children
  cache empty and the negative cache untouched; in the same way a published, removed or changed
  file empties the negative cache and touches nothing else.
\<close>
theorem invalidator_purges:
  assumes laws: "lru_laws L1 ok1 peek1" "lru_laws L2 ok2 peek2" "lru_laws L3 ok3 peek3"
    and caches: "ok1 n1 (c_cache (PathCache g))" "ok2 n2 (c_cache (ChildrenCache g))" "ok3 n3 (c_cache (tc_inner (NegativeCache g)))"
    and bus: "bus_ok b" "\<not> closed b" "invalidator_start b = (b1, subs)"
  shows "(\<exists>b' g'. invalidator_step (L1, L2, L3) subs Chan4 (snd (Publish False pick b1 (NodeTreeChanged v)), g) = Some (b', g') \<and>
        peek1 (c_cache (PathCache g')) = Map.empty \<and> peek2 (c_cache (ChildrenCache g')) = Map.empty \<and>
        NegativeCache g' = NegativeCache g) \<and>
    (\<forall>(e, cs) \<in> {(FilePublished i, Chan1), (FileRemoved i, Chan2), (FileMetadataChanged i, Chan3)}.
      \<exists>b' g'. invalidator_step (L1, L2, L3) subs cs (snd (Publish False pick b1 e), g) = Some (b', g') \<and>
        peek3 (c_cache (tc_inner (NegativeCache g'))) = Map.empty \<and> PathCache g' = PathCache g \<and> ChildrenCache g' = ChildrenCache g)"
proof -
  note S = invalidator_start_spec [OF bus]
  have r: "buf (chans (snd (Publish False pick b1 e)) ! ch) = [e]"
    if "ch \<in> set (subs_of b1 (eventTagOf e))" "buf (chans b1 ! ch) = []" for e ch
    using S that Publish_reaches by blast
  show ?thesis
    using lru_PurgeD [OF laws(1) caches(1)] lru_PurgeD [OF laws(2) caches(2)] lru_PurgeD [OF laws(3) caches(3)]
      S r [of "is_ch4 subs" "NodeTreeChanged v"] r [of "is_ch subs" "FilePublished i"] r [of "is_ch2 subs" "FileRemoved i"]
      r [of "is_ch3 subs" "FileMetadataChanged i"]
    by (simp add: invalidator_step_def receive_def purge_tree_caches_def handleFileEvent_def cache_Purge_def ttl_Purge_def)
qed

text \<open>A children cache for the witness: it stores nothing but the last entry.\<close>

definition one_lru :: "((string \<times> int list) option, string, int list) lru" where
  "one_lru = \<lparr>lru_Get = (\<lambda>c k. (c, (case c of Some (l, v) \<Rightarrow> if l = k then Some v else None | None \<Rightarrow> None))),
     lru_Add = (\<lambda>c k v. (Some (k, v), (case c of Some (l, w) \<Rightarrow> l \<noteq> k | None \<Rightarrow> False))),
     lru_Remove = (\<lambda>c k. (case c of Some (l, v) \<Rightarrow> if l = k then None else c | None \<Rightarrow> None)),
     lru_Purge = (\<lambda>c. None), lru_Len = (\<lambda>c. case c of None \<Rightarrow> 0 | Some _ \<Rightarrow> 1),
     lru_New = (\<lambda>n. if 0 < n then Some None else None)\<rparr>"

definition one_peek :: "(string \<times> int list) option \<Rightarrow> string \<Rightarrow> int list option" where
  "one_peek c = (case c of None \<Rightarrow> Map.empty | Some (k, v) \<Rightarrow> [k \<mapsto> v])"

definition one_ok :: "int \<Rightarrow> (string \<times> int list) option \<Rightarrow> bool" where
  "one_ok n c \<longleftrightarrow> 0 < n"

lemma one_lru_laws: "lru_laws one_lru one_ok one_peek"
  by (auto simp: lru_laws_def one_ok_def one_lru_def one_peek_def map_le_def fun_eq_iff split: option.splits prod.splits)

definition demo_caches :: "(nat \<times> (string \<times> int) list, (string \<times> int list) option, nat \<times> (string \<times> int) list) caches" where
  "demo_caches = \<lparr>PathCache = \<lparr>c_cache = (8192, [(''/1/2'', 2)]), c_size = 8192, c_hits = 0, c_misses = 1, c_evictions = 0\<rparr>,
     ChildrenCache = \<lparr>c_cache = Some (''1'', [2]), c_size = 2048, c_hits = 0, c_misses = 0, c_evictions = 0\<rparr>,
     NegativeCache = \<lparr>tc_inner = \<lparr>c_cache = (4096, [(''x'', 9)]), c_size = 4096, c_hits = 0, c_misses = 0, c_evictions = 0\<rparr>, tc_ttl = 5\<rparr>\<rparr>"

theorem invalidator_purges_witness:
  "\<exists>b1 subs b' g'. invalidator_start (NewBus 16) = (b1, subs) \<and>
     invalidator_step (list_lru, one_lru, list_lru) subs Chan4 (snd (Publish False (\<lambda>_. False) b1 (NodeTreeChanged 1)), demo_caches)
        = Some (b', g') \<and> list_peek (c_cache (PathCache g')) = Map.empty \<and> NegativeCache g' = NegativeCache demo_caches"
proof -
  obtain b1 subs where s: "invalidator_start (NewBus 16) = (b1, subs)" by fastforce
  have h: "list_lru_ok 8192 (c_cache (PathCache demo_caches))" "one_ok 2048 (c_cache (ChildrenCache demo_caches))"
    "list_lru_ok 4096 (c_cache (tc_inner (NegativeCache demo_caches)))" "\<not> closed (NewBus 16)"
    by (simp_all add: list_lru_ok_def one_ok_def NewBus_def demo_caches_def)
  from invalidator_purges [where g = demo_caches and b = "NewBus 16" and pick = "\<lambda>_. False" and v = 1 and i = 1 and
      ?L1.0 = list_lru and ?L2.0 = one_lru and ?L3.0 = list_lru and ?ok1.0 = list_lru_ok and ?ok2.0 = one_ok and ?ok3.0 = list_lru_ok and
      ?peek1.0 = list_peek and ?peek2.0 = one_peek and ?peek3.0 = list_peek,
      OF list_lru_laws one_lru_laws list_lru_laws h(1-3) NewBus_ok h(4) s] s
  show ?thesis by blast
qed

end
