(* ===== verification/VPath.thy ===== *)
theory VPath
  imports Virtual_Index Cache
begin

text \<open>
  The materialized path index, src/internal/service/vpath.go. \<open>updateSubtree\<close> is the recursive
  method of the same name; its fuel bounds the depth of the recursion, and \<open>UpdatePath\<close> gives it
  one more than the number of nodes. That is enough on every forest (\<open>UpdatePath_exact\<close>), so
  the result \<open>None\<close>, which would be a recursion that does not end, does not occur there.

  A path is composed from node ids. \<open>row_form\<close> says that a row has such a path for its own view
  and node, which makes the path column determine the row; \<open>below\<close> specifies which paths the
  tree of a view has.
\<close>

section \<open>The service\<close>

definition insert_path :: "int \<Rightarrow> int \<Rightarrow> string \<Rightarrow> database \<Rightarrow> database \<times> (sql_err + unit)" where
  "insert_path viewID nodeID fullPath d =
     (if \<exists>r \<in> set (t_paths d). pr_full_path r = fullPath then (d, Inl (UniqueViolation ''virtual_node_paths.full_path''))
      else if \<exists>r \<in> set (t_paths d). pr_view_id r = viewID \<and> pr_node_id r = nodeID
        then (d, Inl (UniqueViolation ''virtual_node_paths.view_id, virtual_node_paths.node_id''))
      else if \<not> has_row n_id (t_nodes d) nodeID then (d, Inl (ForeignKey ''virtual_node_paths.node_id''))
      else (d\<lparr>t_paths := t_paths d @ [\<lparr>pr_view_id = viewID, pr_node_id = nodeID, pr_full_path = fullPath\<rparr>]\<rparr>, Inr ()))"

text \<open>A Go loop over a slice that stops at the first error.\<close>

fun each :: "('a \<Rightarrow> 's \<Rightarrow> ('s \<times> ('e + unit)) option) \<Rightarrow> 'a list \<Rightarrow> 's \<Rightarrow> ('s \<times> ('e + unit)) option" where
  "each f [] s = Some (s, Inr ())"
| "each f (x # xs) s = (case f x s of
     None \<Rightarrow> None
   | Some (t, Inl e) \<Rightarrow> Some (t, Inl e)
   | Some (t, Inr u) \<Rightarrow> each f xs t)"

primrec updateSubtree :: "nat \<Rightarrow> int \<Rightarrow> int \<Rightarrow> string \<Rightarrow> database \<Rightarrow> (database \<times> (sql_err + unit)) option" where
  "updateSubtree 0 viewID nodeID parentPath d = None"
| "updateSubtree (Suc fuel) viewID nodeID parentPath d =
     (let fullPath = parentPath @ ''/'' @ format_int nodeID in
      case insert_path viewID nodeID fullPath d of
        (d', Inl e) \<Rightarrow> Some (d', Inl e)
      | (d', Inr u) \<Rightarrow>
          each (\<lambda>child. updateSubtree fuel viewID (n_id child) fullPath) (repo_ListNodesByParent viewID (Some nodeID) d') d')"

definition UpdatePath :: "int \<Rightarrow> database \<Rightarrow> (database \<times> (sql_err + unit)) option" where
  "UpdatePath viewID d =
     (let d' = d\<lparr>t_paths := filter (\<lambda>r. pr_view_id r \<noteq> viewID) (t_paths d)\<rparr> in
      each (\<lambda>root. updateSubtree (Suc (length (t_nodes d'))) viewID (n_id root) (''/'' @ format_int viewID))
        (repo_ListNodesByParent viewID None d') d')"

text \<open>\<^const>\<open>None\<close> is Go's \<^verbatim>\<open>0, nil\<close>: no row with this path.\<close>

definition ResolvePath :: "('c, string, int) lru \<Rightarrow> string \<Rightarrow> database \<times> 'c cache \<Rightarrow> (database \<times> 'c cache) \<times> int option" where
  "ResolvePath L fullPath s =
     (case cache_Get L fullPath (snd s) of
        (c, Some nodeID) \<Rightarrow> ((fst s, c), Some nodeID)
      | (c, None) \<Rightarrow>
          (case row_by pr_full_path (t_paths (fst s)) fullPath of
             None \<Rightarrow> ((fst s, c), None)
           | Some r \<Rightarrow> ((fst s, cache_Put L fullPath (pr_node_id r) c), Some (pr_node_id r))))"

text \<open>One round of the goroutine of Run on its channel; an error of UpdatePath is only logged.\<close>

definition vpath_run_step :: "nat \<Rightarrow> bool \<Rightarrow> bus \<times> database \<Rightarrow> (bus \<times> database) option" where
  "vpath_run_step ch cancel bd =
     (if cancel then None
      else case receive (fst bd) ch of
        (b, ChanClosed) \<Rightarrow> None
      | (b, Blocked) \<Rightarrow> Some bd
      | (b, Got e) \<Rightarrow>
          (case e of
             NodeTreeChanged v \<Rightarrow> (case UpdatePath v (snd bd) of None \<Rightarrow> None | Some (d, r) \<Rightarrow> Some (b, d))
           | _ \<Rightarrow> Some (b, snd bd)))"

section \<open>The shape of the paths\<close>

definition id_path :: "int \<Rightarrow> int list \<Rightarrow> string" where
  "id_path v ids = ''/'' @ join_char CHR ''/'' (map format_int (v # ids))"

definition row_form :: "path_row \<Rightarrow> bool" where
  "row_form r \<longleftrightarrow> (\<exists>ids. pr_full_path r = id_path (pr_view_id r) (ids @ [pr_node_id r]))"

lemma join_char_snoc: "ws \<noteq> [] \<Longrightarrow> join_char c (ws @ [w]) = join_char c ws @ c # w"
  by (induction ws rule: join_char.induct) auto

lemma id_path_snoc: "id_path v (ids @ [i]) = id_path v ids @ CHR ''/'' # format_int i"
  by (simp add: id_path_def join_char_snoc [of "format_int v # map format_int ids", simplified])

lemma id_path_inj: "id_path v ids = id_path w js \<longleftrightarrow> v = w \<and> ids = js"
proof
  assume "id_path v ids = id_path w js"
  then have "join_char CHR ''/'' (map format_int (v # ids)) = join_char CHR ''/'' (map format_int (w # js))"
    by (simp add: id_path_def)
  then have "map format_int (v # ids) = map format_int (w # js)"
    by (rule join_char_inj) auto
  moreover have "inj format_int" by (rule injI) (rule format_int_inj)
  ultimately show "v = w \<and> ids = js" by (auto simp: inj_map_eq_map dest: injD)
qed simp

lemma row_form_determined:
  "row_form r \<Longrightarrow> row_form q \<Longrightarrow> pr_full_path r = pr_full_path q \<Longrightarrow> pr_view_id r = pr_view_id q \<and> pr_node_id r = pr_node_id q"
  by (auto simp: row_form_def id_path_inj)

section \<open>The tree of a view\<close>

definition vrel :: "node list \<Rightarrow> int \<Rightarrow> (int \<times> int) set" where
  "vrel ns v = {(n_id n, p) |n p. n \<in> set ns \<and> n_view_id n = v \<and> n_parent_id n = Some p}"

abbreviation vsub :: "node list \<Rightarrow> int \<Rightarrow> int \<Rightarrow> int set" where
  "vsub ns v i \<equiv> {x. (x, i) \<in> (vrel ns v)\<^sup>*}"

lemma vrel_iff: "(c, p) \<in> vrel ns v \<longleftrightarrow> (\<exists>n \<in> set ns. n_id n = c \<and> n_view_id n = v \<and> n_parent_id n = Some p)"
  by (auto simp: vrel_def)

lemma vrel_subset: "vrel ns v \<subseteq> parent_rel ns"
  by (auto simp: vrel_def parent_rel_def)

inductive below :: "node list \<Rightarrow> int \<Rightarrow> int \<Rightarrow> int list \<Rightarrow> int \<Rightarrow> int list \<Rightarrow> bool" for ns v i ids where
  here: "below ns v i ids i ids"
| child: "below ns v i ids p ps \<Longrightarrow> (c, p) \<in> vrel ns v \<Longrightarrow> below ns v i ids c (ps @ [c])"

text \<open>The paths of a view: a root is its own path, a child extends the path of its parent.\<close>

inductive node_path :: "node list \<Rightarrow> int \<Rightarrow> int \<Rightarrow> int list \<Rightarrow> bool" for ns v where
  root: "n \<in> set ns \<Longrightarrow> n_view_id n = v \<Longrightarrow> n_parent_id n = None \<Longrightarrow> node_path ns v (n_id n) [n_id n]"
| child: "node_path ns v p ps \<Longrightarrow> (c, p) \<in> vrel ns v \<Longrightarrow> node_path ns v c (ps @ [c])"

lemma below_child: "below ns v c (ids @ [c]) x xs \<Longrightarrow> (c, i) \<in> vrel ns v \<Longrightarrow> below ns v i ids x xs"
  by (induction rule: below.induct) (auto intro: below.intros)

lemma below_root:
  "below ns v (n_id n) [n_id n] x xs \<Longrightarrow> n \<in> set ns \<Longrightarrow> n_view_id n = v \<Longrightarrow> n_parent_id n = None \<Longrightarrow> node_path ns v x xs"
  by (induction rule: below.induct) (auto intro: node_path.intros)

locale view_tree =
  fixes nodes :: "'s \<Rightarrow> node list" and inv :: "'s \<Rightarrow> bool"
  assumes ids: "inv s \<Longrightarrow> distinct (map n_id (nodes s))" and acyclic: "inv s \<Longrightarrow> acyclic (parent_rel (nodes s))"
begin

lemma node_eq: "inv s \<Longrightarrow> m \<in> set (nodes s) \<Longrightarrow> n \<in> set (nodes s) \<Longrightarrow> n_id m = n_id n \<Longrightarrow> m = n"
  using ids by (auto simp: distinct_map inj_on_def)

lemma single: "inv s \<Longrightarrow> single_valued (vrel (nodes s) v)"
  by (rule single_valuedI) (metis vrel_iff node_eq option.inject)

lemma root_no_edge: "inv s \<Longrightarrow> n \<in> set (nodes s) \<Longrightarrow> n_parent_id n = None \<Longrightarrow> (n_id n, p) \<notin> vrel (nodes s) v"
  by (metis vrel_iff node_eq option.distinct(1))

lemma vacyclic: "inv s \<Longrightarrow> acyclic (vrel (nodes s) v)"
  using acyclic vrel_subset by (metis acyclic_subset)

lemma finite_vsub: "finite (vsub (nodes s) v i)"
proof -
  have "x \<in> insert i (n_id ` set (nodes s))" if "(x, i) \<in> (vrel (nodes s) v)\<^sup>*" for x
    using that by (cases rule: converse_rtranclE) (auto simp: vrel_iff)
  then have "vsub (nodes s) v i \<subseteq> insert i (n_id ` set (nodes s))" by blast
  then show ?thesis by (rule finite_subset) simp
qed

lemma card_vsub_child: "inv s \<Longrightarrow> (c, i) \<in> vrel (nodes s) v \<Longrightarrow> card (vsub (nodes s) v c) < card (vsub (nodes s) v i)"
proof -
  assume inv: "inv s" and c: "(c, i) \<in> vrel (nodes s) v"
  then have "vsub (nodes s) v c \<subseteq> vsub (nodes s) v i" by (auto intro: rtrancl_into_rtrancl)
  moreover have "i \<notin> vsub (nodes s) v c" using c vacyclic [OF inv] by (auto simp: acyclic_def dest: rtrancl_into_trancl2)
  ultimately show ?thesis using finite_vsub by (intro psubset_card_mono) auto
qed

lemma disjoint_children:
  assumes inv: "inv s" and "(c, i) \<in> vrel (nodes s) v" "(e, i) \<in> vrel (nodes s) v" "c \<noteq> e"
  shows "vsub (nodes s) v c \<inter> vsub (nodes s) v e = {}"
proof -
  have no: False if a: "(a, i) \<in> vrel (nodes s) v" and b: "(b, i) \<in> vrel (nodes s) v" and ab: "a \<noteq> b" "(a, b) \<in> (vrel (nodes s) v)\<^sup>*" for a b
  proof -
    obtain j where "(a, j) \<in> vrel (nodes s) v" "(j, b) \<in> (vrel (nodes s) v)\<^sup>*" using ab by (metis converse_rtranclE)
    then have "(i, b) \<in> (vrel (nodes s) v)\<^sup>*" using a single [OF inv] by (metis single_valuedD)
    with b vacyclic [OF inv] show False by (metis acyclic_def rtrancl_into_trancl1)
  qed
  have "(c, e) \<in> (vrel (nodes s) v)\<^sup>* \<or> (e, c) \<in> (vrel (nodes s) v)\<^sup>*"
    if "(x, c) \<in> (vrel (nodes s) v)\<^sup>*" "(x, e) \<in> (vrel (nodes s) v)\<^sup>*" for x
    using single_valued_confluent [OF single [OF inv] that] .
  then show ?thesis using no assms by blast
qed

lemma disjoint_roots:
  assumes inv: "inv s" and "m \<in> set (nodes s)" "n \<in> set (nodes s)" "n_parent_id m = None" "n_parent_id n = None" "m \<noteq> n"
  shows "vsub (nodes s) v (n_id m) \<inter> vsub (nodes s) v (n_id n) = {}"
proof -
  have top: "x = n_id a" if "(n_id a, x) \<in> (vrel (nodes s) v)\<^sup>*" "a \<in> set (nodes s)" "n_parent_id a = None" for a x
    using that(1) by (cases rule: converse_rtranclE) (use that(2,3) node_eq [OF inv] in \<open>fastforce simp: vrel_iff\<close>)+
  have "(n_id m, n_id n) \<in> (vrel (nodes s) v)\<^sup>* \<or> (n_id n, n_id m) \<in> (vrel (nodes s) v)\<^sup>*"
    if "(x, n_id m) \<in> (vrel (nodes s) v)\<^sup>*" "(x, n_id n) \<in> (vrel (nodes s) v)\<^sup>*" for x
    using single_valued_confluent [OF single [OF inv] that] .
  then show ?thesis using top assms node_eq [OF inv] by blast
qed

lemma node_path_unique: "node_path (nodes s) v x xs \<Longrightarrow> inv s \<Longrightarrow> node_path (nodes s) v x ys \<Longrightarrow> xs = ys"
proof (induction arbitrary: ys rule: node_path.induct)
  case (root n)
  from root(5) show ?case by cases (use root root_no_edge [OF root(4,1,3)] in auto)
next
  case (child p ps c)
  from child(5) show ?case
  proof cases
    case (root n)
    then show ?thesis using child(2) root_no_edge [OF child(4)] by auto
  next
    case (child q qs)
    then show ?thesis using \<open>(c, p) \<in> vrel (nodes s) v\<close> single [OF \<open>inv s\<close>] \<open>\<And>ys. inv s \<Longrightarrow> node_path (nodes s) v p ys \<Longrightarrow> ps = ys\<close> \<open>inv s\<close>
      by (metis single_valuedD)
  qed
qed

end

interpretation index: view_tree t_nodes "\<lambda>d. schema_ok d \<and> forest d"
  by unfold_locales (simp_all add: schema_ok_def keys_ok_def keyed_def forest_def)

section \<open>What the recursion writes\<close>

text \<open>
  \<open>writes g d v S P\<close>: on the tree of \<open>d\<close>, whatever well-formed rows the path table already has,
  as long as none of them is a row of view \<open>v\<close> for a node of \<open>S\<close>, the computation \<open>g\<close> ends
  without an error and appends one row of view \<open>v\<close> for each node of \<open>S\<close>, all satisfying \<open>P\<close>.
\<close>

definition writes :: "(database \<Rightarrow> (database \<times> (sql_err + unit)) option) \<Rightarrow> node list \<Rightarrow> int \<Rightarrow> int set \<Rightarrow> (path_row \<Rightarrow> bool) \<Rightarrow> bool" where
  "writes g ns v S P \<longleftrightarrow>
     (\<forall>e. t_nodes e = ns \<and> (\<forall>r \<in> set (t_paths e). row_form r) \<and>
          (\<forall>r \<in> set (t_paths e). pr_view_id r = v \<longrightarrow> pr_node_id r \<notin> S) \<longrightarrow>
        (\<exists>new. g e = Some (e\<lparr>t_paths := t_paths e @ new\<rparr>, Inr ()) \<and> distinct (map pr_node_id new) \<and>
           pr_node_id ` set new = S \<and> (\<forall>r \<in> set new. pr_view_id r = v \<and> row_form r \<and> P r)))"

lemma writesD:
  assumes "writes g ns v S P" "t_nodes e = ns" "\<forall>r \<in> set (t_paths e). row_form r"
    "\<forall>r \<in> set (t_paths e). pr_view_id r = v \<longrightarrow> pr_node_id r \<notin> S"
  obtains new where "g e = Some (e\<lparr>t_paths := t_paths e @ new\<rparr>, Inr ())" "distinct (map pr_node_id new)"
    "pr_node_id ` set new = S" "\<forall>r \<in> set new. pr_view_id r = v \<and> row_form r \<and> P r"
  using assms unfolding writes_def by blast

lemma each_writes:
  assumes "\<And>c. c \<in> set cs \<Longrightarrow> writes (f c) ns v (S c) P" "distinct cs"
    and "\<And>c e. c \<in> set cs \<Longrightarrow> e \<in> set cs \<Longrightarrow> c \<noteq> e \<Longrightarrow> S c \<inter> S e = {}"
  shows "writes (each f cs) ns v (\<Union>c \<in> set cs. S c) P"
  using assms
proof (induction cs)
  case Nil
  then show ?case by (auto simp: writes_def intro!: exI [of _ "[]"])
next
  case (Cons c cs)
  have IH: "writes (each f cs) ns v (\<Union>c \<in> set cs. S c) P" using Cons by simp
  have disj: "S c \<inter> (\<Union>c \<in> set cs. S c) = {}" using Cons.prems(2,3) by fastforce
  show ?case
    unfolding writes_def
  proof (intro allI impI, elim conjE)
    fix e :: database
    assume e: "t_nodes e = ns" "\<forall>r \<in> set (t_paths e). row_form r"
      "\<forall>r \<in> set (t_paths e). pr_view_id r = v \<longrightarrow> pr_node_id r \<notin> (\<Union>c \<in> set (c # cs). S c)"
    from Cons.prems(1) [of c] e obtain n1 where n1: "f c e = Some (e\<lparr>t_paths := t_paths e @ n1\<rparr>, Inr ())"
      "distinct (map pr_node_id n1)" "pr_node_id ` set n1 = S c" "\<forall>r \<in> set n1. pr_view_id r = v \<and> row_form r \<and> P r"
      by (auto elim: writesD)
    from IH obtain n2 where n2: "each f cs (e\<lparr>t_paths := t_paths e @ n1\<rparr>) = Some (e\<lparr>t_paths := (t_paths e @ n1) @ n2\<rparr>, Inr ())"
      "distinct (map pr_node_id n2)" "pr_node_id ` set n2 = (\<Union>c \<in> set cs. S c)"
      "\<forall>r \<in> set n2. pr_view_id r = v \<and> row_form r \<and> P r"
    proof (rule writesD [where e = "e\<lparr>t_paths := t_paths e @ n1\<rparr>"])
      show "\<forall>r \<in> set (t_paths (e\<lparr>t_paths := t_paths e @ n1\<rparr>)). pr_view_id r = v \<longrightarrow> pr_node_id r \<notin> (\<Union>c \<in> set cs. S c)"
        using e(3) n1(3) disj by auto
    qed (use e n1 in auto)
    show "\<exists>new. each f (c # cs) e = Some (e\<lparr>t_paths := t_paths e @ new\<rparr>, Inr ()) \<and> distinct (map pr_node_id new) \<and>
        pr_node_id ` set new = (\<Union>c \<in> set (c # cs). S c) \<and> (\<forall>r \<in> set new. pr_view_id r = v \<and> row_form r \<and> P r)"
      using n1 n2 disj by (intro exI [of _ "n1 @ n2"]) (auto simp: image_Un)
  qed
qed

lemma writes_mono:
  assumes "writes g ns v S P" "\<And>r. P r \<Longrightarrow> Q r"
  shows "writes g ns v S Q"
  unfolding writes_def
proof (intro allI impI, elim conjE)
  fix e :: database
  assume "t_nodes e = ns" "\<forall>r \<in> set (t_paths e). row_form r"
    "\<forall>r \<in> set (t_paths e). pr_view_id r = v \<longrightarrow> pr_node_id r \<notin> S"
  then show "\<exists>new. g e = Some (e\<lparr>t_paths := t_paths e @ new\<rparr>, Inr ()) \<and> distinct (map pr_node_id new) \<and>
      pr_node_id ` set new = S \<and> (\<forall>r \<in> set new. pr_view_id r = v \<and> row_form r \<and> Q r)"
    using assms by (elim writesD [OF assms(1)]) (auto intro!: exI)
qed

lemma vsub_children: "vsub ns v i = insert i (\<Union>c \<in> {c. (c, i) \<in> vrel ns v}. vsub ns v c)"
  by (auto elim: rtranclE intro: rtrancl_into_rtrancl)

lemma children_list:
  "set (repo_ListNodesByParent v (Some i) d) = {n \<in> set (t_nodes d). n_view_id n = v \<and> n_parent_id n = Some i}"
  "set (repo_ListNodesByParent v None d) = {n \<in> set (t_nodes d). n_view_id n = v \<and> n_parent_id n = None}"
  by (auto simp: repo_ListNodesByParent_def)

lemma distinct_children: "distinct (map n_id (t_nodes d)) \<Longrightarrow> distinct (repo_ListNodesByParent v p d)"
  by (simp add: repo_ListNodesByParent_def distinct_map)

lemma children_ids: "n_id ` set (repo_ListNodesByParent v (Some i) d) = {c. (c, i) \<in> vrel (t_nodes d) v}"
  by (auto simp: children_list vrel_iff)

lemma ListNodes_cong: "t_nodes e = t_nodes d \<Longrightarrow> repo_ListNodesByParent v p e = repo_ListNodesByParent v p d"
  by (simp add: repo_ListNodesByParent_def)

lemma insert_path_fresh:
  assumes "\<forall>r \<in> set (t_paths e). row_form r" "\<forall>r \<in> set (t_paths e). pr_view_id r = v \<longrightarrow> pr_node_id r \<noteq> i"
    and "i \<in> n_id ` set (t_nodes e)"
  shows "insert_path v i (id_path v (ids @ [i])) e =
    (e\<lparr>t_paths := t_paths e @ [\<lparr>pr_view_id = v, pr_node_id = i, pr_full_path = id_path v (ids @ [i])\<rparr>]\<rparr>, Inr ())"
proof -
  let ?q = "\<lparr>pr_view_id = v, pr_node_id = i, pr_full_path = id_path v (ids @ [i])\<rparr>"
  have "row_form ?q" by (auto simp: row_form_def)
  then have "pr_full_path r \<noteq> id_path v (ids @ [i])" if "r \<in> set (t_paths e)" for r
    using row_form_determined [of r ?q] that assms by auto
  then show ?thesis using assms by (auto simp: insert_path_def)
qed

lemma updateSubtree_writes:
  assumes ok: "schema_ok d \<and> forest d"
  shows "card (vsub (t_nodes d) v i) \<le> fuel \<Longrightarrow> i \<in> n_id ` set (t_nodes d) \<Longrightarrow>
    writes (updateSubtree fuel v i (id_path v ids)) (t_nodes d) v (vsub (t_nodes d) v i)
      (\<lambda>r. \<exists>js. below (t_nodes d) v i (ids @ [i]) (pr_node_id r) js \<and> pr_full_path r = id_path v js)"
proof (induction fuel arbitrary: i ids)
  case 0
  then have "vsub (t_nodes d) v i = {}" using index.finite_vsub by simp
  then show ?case by auto
next
  case (Suc fuel)
  let ?ns = "t_nodes d" and ?js = "ids @ [i]"
  let ?P = "\<lambda>r. \<exists>js. below ?ns v i ?js (pr_node_id r) js \<and> pr_full_path r = id_path v js"
  let ?cs = "repo_ListNodesByParent v (Some i) d"
  let ?row = "\<lparr>pr_view_id = v, pr_node_id = i, pr_full_path = id_path v ?js\<rparr>"
  have cs: "(n_id c, i) \<in> vrel ?ns v" if "c \<in> set ?cs" for c using that by (auto simp: children_list vrel_iff)
  have "writes (each (\<lambda>c. updateSubtree fuel v (n_id c) (id_path v ?js)) ?cs) ?ns v (\<Union>c \<in> set ?cs. vsub ?ns v (n_id c)) ?P"
  proof (rule each_writes)
    fix c assume c: "c \<in> set ?cs"
    have "card (vsub ?ns v (n_id c)) \<le> fuel" using index.card_vsub_child [OF ok cs [OF c]] Suc.prems(1) by simp
    moreover have "n_id c \<in> n_id ` set ?ns" using c by (auto simp: children_list)
    ultimately show "writes (updateSubtree fuel v (n_id c) (id_path v ?js)) ?ns v (vsub ?ns v (n_id c)) ?P"
      by (intro writes_mono [OF Suc.IH [of "n_id c" ?js]]) (use below_child [OF _ cs [OF c]] in blast)+
    fix e assume e: "e \<in> set ?cs" "c \<noteq> e"
    then have "n_id c \<noteq> n_id e" using c index.node_eq [OF ok] by (auto simp: children_list)
    then show "vsub ?ns v (n_id c) \<inter> vsub ?ns v (n_id e) = {}" using index.disjoint_children [OF ok cs [OF c] cs [OF e(1)]] by blast
  qed (use ok in \<open>simp add: distinct_children schema_ok_def keys_ok_def keyed_def\<close>)
  then have kids: "writes (each (\<lambda>c. updateSubtree fuel v (n_id c) (id_path v ?js)) ?cs) ?ns v
      (\<Union>c \<in> {c. (c, i) \<in> vrel ?ns v}. vsub ?ns v c) ?P" by (simp add: children_ids [symmetric])
  show ?case
    unfolding writes_def
  proof (intro allI impI, elim conjE)
    fix e :: database
    assume e: "t_nodes e = ?ns" "\<forall>r \<in> set (t_paths e). row_form r"
      "\<forall>r \<in> set (t_paths e). pr_view_id r = v \<longrightarrow> pr_node_id r \<notin> vsub ?ns v i"
    let ?e = "e\<lparr>t_paths := t_paths e @ [?row]\<rparr>"
    have "\<forall>r \<in> set (t_paths e). pr_view_id r = v \<longrightarrow> pr_node_id r \<noteq> i" using e(3) by auto
    then have ins: "insert_path v i (id_path v ?js) e = (?e, Inr ())"
      using e(1,2) Suc.prems(2) by (intro insert_path_fresh) simp_all
    have notin: "i \<notin> (\<Union>c \<in> {c. (c, i) \<in> vrel ?ns v}. vsub ?ns v c)"
      using index.vacyclic [OF ok, of v] by (auto simp: acyclic_def dest: rtrancl_into_trancl1)
    have row: "row_form ?row" by (auto simp: row_form_def)
    have old: "\<forall>r \<in> set (t_paths e). pr_view_id r = v \<longrightarrow> pr_node_id r \<notin> (\<Union>c \<in> {c. (c, i) \<in> vrel ?ns v}. vsub ?ns v c)"
      using e(3) vsub_children [where ns = ?ns and v = v and i = i] by blast
    obtain new where new: "each (\<lambda>c. updateSubtree fuel v (n_id c) (id_path v ?js)) ?cs ?e =
        Some (?e\<lparr>t_paths := t_paths ?e @ new\<rparr>, Inr ())" "distinct (map pr_node_id new)"
        "pr_node_id ` set new = (\<Union>c \<in> {c. (c, i) \<in> vrel ?ns v}. vsub ?ns v c)"
        "\<forall>r \<in> set new. pr_view_id r = v \<and> row_form r \<and> ?P r"
      by (rule writesD [OF kids, of ?e]) (use e notin row old in auto)
    have "updateSubtree (Suc fuel) v i (id_path v ids) e = Some (e\<lparr>t_paths := t_paths e @ ?row # new\<rparr>, Inr ())"
      using new(1) by (simp add: ins Let_def id_path_snoc [symmetric] ListNodes_cong [of ?e d] e(1))
    moreover have "pr_node_id ` set (?row # new) = vsub ?ns v i" using new(3) vsub_children [where ns = ?ns and v = v and i = i] by simp
    moreover have "distinct (map pr_node_id (?row # new))" using new(2,3) notin by auto
    moreover have "?P ?row" using below.here [of ?ns v i ?js] by auto
    ultimately show "\<exists>new. updateSubtree (Suc fuel) v i (id_path v ids) e = Some (e\<lparr>t_paths := t_paths e @ new\<rparr>, Inr ()) \<and>
        distinct (map pr_node_id new) \<and> pr_node_id ` set new = vsub ?ns v i \<and> (\<forall>r \<in> set new. pr_view_id r = v \<and> row_form r \<and> ?P r)"
      using new(4) row by (intro exI [of _ "?row # new"]) auto
  qed
qed

section \<open>The rebuilt index\<close>

lemma node_path_vsub:
  "{x. \<exists>xs. node_path ns v x xs} = (\<Union>n \<in> {n \<in> set ns. n_view_id n = v \<and> n_parent_id n = None}. vsub ns v (n_id n))"
proof -
  have "\<exists>n \<in> set ns. n_view_id n = v \<and> n_parent_id n = None \<and> (x, n_id n) \<in> (vrel ns v)\<^sup>*" if "node_path ns v x xs" for x xs
    using that by (induction rule: node_path.induct) (blast intro: converse_rtrancl_into_rtrancl)+
  moreover have "\<exists>xs. node_path ns v x xs"
    if "(x, n_id n) \<in> (vrel ns v)\<^sup>*" "n \<in> set ns" "n_view_id n = v" "n_parent_id n = None" for x n
    using that by (induction rule: converse_rtrancl_induct) (blast intro: node_path.intros)+
  ultimately show ?thesis by blast
qed

lemma UpdatePath_rows:
  assumes ok: "schema_ok d \<and> forest d" and rows: "\<forall>r \<in> set (t_paths d). row_form r"
  obtains new where
    "UpdatePath v d = Some (d\<lparr>t_paths := filter (\<lambda>r. pr_view_id r \<noteq> v) (t_paths d) @ new\<rparr>, Inr ())"
    "distinct (map pr_node_id new)" "pr_node_id ` set new = {x. \<exists>xs. node_path (t_nodes d) v x xs}"
    "\<forall>r \<in> set new. pr_view_id r = v \<and> row_form r \<and> (\<exists>js. node_path (t_nodes d) v (pr_node_id r) js \<and> pr_full_path r = id_path v js)"
proof -
  let ?ns = "t_nodes d" and ?d = "d\<lparr>t_paths := filter (\<lambda>r. pr_view_id r \<noteq> v) (t_paths d)\<rparr>"
  let ?cs = "repo_ListNodesByParent v None d"
  let ?f = "\<lambda>n. updateSubtree (Suc (length ?ns)) v (n_id n) (id_path v [])"
  let ?P = "\<lambda>r. \<exists>js. node_path ?ns v (pr_node_id r) js \<and> pr_full_path r = id_path v js"
  have "writes (each ?f ?cs) ?ns v (\<Union>c \<in> set ?cs. vsub ?ns v (n_id c)) ?P"
  proof (rule each_writes)
    fix c assume c: "c \<in> set ?cs"
    then have cc: "c \<in> set ?ns" "n_view_id c = v" "n_parent_id c = None" by (auto simp: children_list)
    have "x \<in> n_id ` set ?ns" if "(x, n_id c) \<in> (vrel ?ns v)\<^sup>*" for x
      using that cc(1) by (cases rule: converse_rtranclE) (auto simp: vrel_iff)
    then have "vsub ?ns v (n_id c) \<subseteq> n_id ` set ?ns" by blast
    then have "card (vsub ?ns v (n_id c)) \<le> length ?ns"
      by (metis card_length card_mono finite_set image_set length_map order_trans)
    then show "writes (?f c) ?ns v (vsub ?ns v (n_id c)) ?P"
      by (intro writes_mono [OF updateSubtree_writes [OF ok, where v = v and i = "n_id c" and fuel = "Suc (length ?ns)" and ids = "[]"]])
        (use cc below_root [OF _ cc] in auto)
    fix e assume "e \<in> set ?cs" "c \<noteq> e"
    then show "vsub ?ns v (n_id c) \<inter> vsub ?ns v (n_id e) = {}"
      using cc index.disjoint_roots [OF ok, of c e] by (auto simp: children_list)
  qed (use ok in \<open>simp add: distinct_children schema_ok_def keys_ok_def keyed_def\<close>)
  then have w: "writes (each ?f ?cs) ?ns v {x. \<exists>xs. node_path ?ns v x xs} ?P"
    by (simp only: node_path_vsub children_list)
  show ?thesis
  proof (rule writesD [OF w, of ?d])
    fix new
    assume "each ?f ?cs ?d = Some (?d\<lparr>t_paths := t_paths ?d @ new\<rparr>, Inr ())" "distinct (map pr_node_id new)"
      "pr_node_id ` set new = {x. \<exists>xs. node_path ?ns v x xs}" "\<forall>r \<in> set new. pr_view_id r = v \<and> row_form r \<and> ?P r"
    then show thesis by (intro that) (simp_all add: UpdatePath_def Let_def ListNodes_cong [of ?d d] id_path_def)
  qed (use rows in auto)
qed

section \<open>Properties\<close>

text \<open>
  C7: On a consistent tree UpdatePath returns without an error, and afterwards the path table has
  exactly one row per node of the view that hangs below a root of the view, carrying the path of
  its ancestors' ids; the rows of all other views, in their order, and all other tables are
  unchanged.
\<close>
theorem UpdatePath_exact:
  assumes "schema_ok d" "forest d" "\<forall>r \<in> set (t_paths d). row_form r"
  shows "\<exists>d'. UpdatePath v d = Some (d', Inr ()) \<and> d' = d\<lparr>t_paths := t_paths d'\<rparr> \<and>
    filter (\<lambda>r. pr_view_id r \<noteq> v) (t_paths d') = filter (\<lambda>r. pr_view_id r \<noteq> v) (t_paths d) \<and>
    {r \<in> set (t_paths d'). pr_view_id r = v} =
      {\<lparr>pr_view_id = v, pr_node_id = x, pr_full_path = id_path v xs\<rparr> |x xs. node_path (t_nodes d) v x xs} \<and>
    distinct (map pr_node_id (filter (\<lambda>r. pr_view_id r = v) (t_paths d'))) \<and> (\<forall>r \<in> set (t_paths d'). row_form r)"
proof -
  have ok: "schema_ok d \<and> forest d" using assms by simp
  obtain new where new: "UpdatePath v d = Some (d\<lparr>t_paths := filter (\<lambda>r. pr_view_id r \<noteq> v) (t_paths d) @ new\<rparr>, Inr ())"
    "distinct (map pr_node_id new)" "pr_node_id ` set new = {x. \<exists>xs. node_path (t_nodes d) v x xs}"
    "\<forall>r \<in> set new. pr_view_id r = v \<and> row_form r \<and> (\<exists>js. node_path (t_nodes d) v (pr_node_id r) js \<and> pr_full_path r = id_path v js)"
    by (rule UpdatePath_rows [OF ok assms(3)])
  have v: "filter (\<lambda>r. pr_view_id r \<noteq> v) new = []" "filter (\<lambda>r. pr_view_id r = v) new = new"
    using new(4) by (auto simp: filter_empty_conv filter_id_conv)
  have "set new = {\<lparr>pr_view_id = v, pr_node_id = x, pr_full_path = id_path v xs\<rparr> |x xs. node_path (t_nodes d) v x xs}"
  proof (intro subset_antisym subsetI)
    fix r assume "r \<in> {\<lparr>pr_view_id = v, pr_node_id = x, pr_full_path = id_path v xs\<rparr> |x xs. node_path (t_nodes d) v x xs}"
    then obtain x xs where r: "r = \<lparr>pr_view_id = v, pr_node_id = x, pr_full_path = id_path v xs\<rparr>" "node_path (t_nodes d) v x xs"
      by blast
    have "x \<in> pr_node_id ` set new" unfolding new(3) using r(2) by blast
    then obtain q where q: "q \<in> set new" "pr_node_id q = x" by blast
    then obtain js where "pr_view_id q = v" "node_path (t_nodes d) v x js" "pr_full_path q = id_path v js" using new(4) by blast
    then have "q = r" using r q(2) index.node_path_unique [OF r(2) ok] by (cases q) simp
    then show "r \<in> set new" using q by simp
  next
    fix r assume "r \<in> set new"
    then obtain js where "pr_view_id r = v" "node_path (t_nodes d) v (pr_node_id r) js" "pr_full_path r = id_path v js"
      using new(4) by blast
    then show "r \<in> {\<lparr>pr_view_id = v, pr_node_id = x, pr_full_path = id_path v xs\<rparr> |x xs. node_path (t_nodes d) v x xs}"
      by (cases r) auto
  qed
  note rows = this
  have none: "filter (\<lambda>r. pr_view_id r = v) (filter (\<lambda>r. pr_view_id r \<noteq> v) (t_paths d)) = []"
    by (simp add: filter_empty_conv)
  let ?d = "d\<lparr>t_paths := filter (\<lambda>r. pr_view_id r \<noteq> v) (t_paths d) @ new\<rparr>"
  have "{r \<in> set (t_paths ?d). pr_view_id r = v} = set new" using new(4) by auto
  moreover have "filter (\<lambda>r. pr_view_id r \<noteq> v) (t_paths ?d) = filter (\<lambda>r. pr_view_id r \<noteq> v) (t_paths d)"
    by (simp add: v)
  moreover have "distinct (map pr_node_id (filter (\<lambda>r. pr_view_id r = v) (t_paths ?d)))" by (simp add: none v new(2))
  moreover have "\<forall>r \<in> set (t_paths ?d). row_form r" using new(4) assms(3) by auto
  ultimately show ?thesis using new(1) rows by (intro exI [of _ ?d]) simp
qed

theorem UpdatePath_exact_witness:
  "schema_ok (vi_db demo_index) \<and> forest (vi_db demo_index) \<and>
   (\<exists>d'. UpdatePath 1 (vi_db demo_index) = Some (d', Inr ()) \<and>
     map pr_full_path (t_paths d') = [''/1/1'', ''/1/1/2'', ''/1/1/2/3'', ''/1/4'']) \<and>
   node_path (t_nodes (vi_db demo_index)) 1 3 [1, 2, 3]"
proof -
  have ok: "schema_ok (vi_db demo_index)" "forest (vi_db demo_index)" using demo_index_ok by (simp_all add: vis_ok_def)
  have none: "t_paths (vi_db demo_index) = []" by code_simp
  then obtain d' where d': "UpdatePath 1 (vi_db demo_index) = Some (d', Inr ())"
    "{r \<in> set (t_paths d'). pr_view_id r = 1} =
      {\<lparr>pr_view_id = 1, pr_node_id = x, pr_full_path = id_path 1 xs\<rparr> |x xs. node_path (t_nodes (vi_db demo_index)) 1 x xs}"
    using UpdatePath_exact [OF ok, of 1] by auto
  have "map_option (\<lambda>x. t_paths (fst x)) (UpdatePath 1 (vi_db demo_index)) =
      Some [\<lparr>pr_view_id = 1, pr_node_id = 1, pr_full_path = ''/1/1''\<rparr>, \<lparr>pr_view_id = 1, pr_node_id = 2, pr_full_path = ''/1/1/2''\<rparr>,
        \<lparr>pr_view_id = 1, pr_node_id = 3, pr_full_path = ''/1/1/2/3''\<rparr>, \<lparr>pr_view_id = 1, pr_node_id = 4, pr_full_path = ''/1/4''\<rparr>]"
    by code_simp
  then have rows: "t_paths d' = [\<lparr>pr_view_id = 1, pr_node_id = 1, pr_full_path = ''/1/1''\<rparr>, \<lparr>pr_view_id = 1, pr_node_id = 2, pr_full_path = ''/1/1/2''\<rparr>,
        \<lparr>pr_view_id = 1, pr_node_id = 3, pr_full_path = ''/1/1/2/3''\<rparr>, \<lparr>pr_view_id = 1, pr_node_id = 4, pr_full_path = ''/1/4''\<rparr>]"
    using d'(1) by simp
  have "\<lparr>pr_view_id = 1, pr_node_id = 3, pr_full_path = ''/1/1/2/3''\<rparr> \<in> {r \<in> set (t_paths d'). pr_view_id r = 1}" by (simp add: rows)
  then obtain xs where xs: "node_path (t_nodes (vi_db demo_index)) 1 3 xs" "''/1/1/2/3'' = id_path 1 xs" unfolding d'(2) by auto
  have "''/1/1/2/3'' = id_path 1 [1, 2, 3]" by code_simp
  with xs have "node_path (t_nodes (vi_db demo_index)) 1 3 [1, 2, 3]" by (simp add: id_path_inj)
  then show ?thesis using ok d'(1) rows by auto
qed

text \<open>
  ResolvePath over the path table and the path cache. As long as the rows and the cache only
  hold paths that end in the id of their node, it never answers with another node than the one the
  path ends in, and it keeps this so; on a path the cache does not hold, it finds the node exactly
  when the table has a row for the path, and a repeated lookup then gives the same answer.
\<close>
theorem ResolvePath_correct:
  assumes laws: "lru_laws L ok peek" and cap: "ok n (c_cache c)"
    and rows: "\<forall>r \<in> set (t_paths d). row_form r"
    and cached: "\<forall>k i. peek (c_cache c) k = Some i \<longrightarrow> (\<exists>v js. k = id_path v (js @ [i]))"
  shows "case ResolvePath L (id_path v (js @ [i])) (d, c) of ((d', c'), r) \<Rightarrow>
    d' = d \<and> (r = None \<or> r = Some i) \<and>
    (\<forall>k i. peek (c_cache c') k = Some i \<longrightarrow> (\<exists>v js. k = id_path v (js @ [i]))) \<and>
    (peek (c_cache c) (id_path v (js @ [i])) = None \<longrightarrow>
       (r = Some i \<longleftrightarrow> (\<exists>q \<in> set (t_paths d). pr_full_path q = id_path v (js @ [i]))) \<and>
       snd (ResolvePath L (id_path v (js @ [i])) (d', c')) = r)"
proof -
  let ?k = "id_path v (js @ [i])"
  note G = cache_Get_spec [OF laws cap, of ?k]
  obtain c1 where c1: "cache_Get L ?k c = (c1, peek (c_cache c) ?k)" "ok n (c_cache c1)" "peek (c_cache c1) = peek (c_cache c)"
    using G(1-3) by (cases "cache_Get L ?k c") auto
  have row: "pr_node_id q = i" if "row_by pr_full_path (t_paths d) ?k = Some q" for q
    using row_by_SomeD [OF that] rows by (auto simp: row_form_def id_path_inj)
  show ?thesis
  proof (cases "peek (c_cache c) ?k")
    case (Some j)
    then have "j = i" using cached by (fastforce simp: id_path_inj)
    then have "ResolvePath L ?k (d, c) = ((d, c1), Some i)" using Some c1 by (simp add: ResolvePath_def)
    then show ?thesis using Some c1 cached by simp
  next
    case None
    show ?thesis
    proof (cases "row_by pr_full_path (t_paths d) ?k")
      case None
      note G1 = cache_Get_spec [OF laws c1(2), of ?k]
      have "snd (cache_Get L ?k c1) = None" using G1(1) c1 \<open>peek (c_cache c) ?k = None\<close> by simp
      then have "snd (ResolvePath L ?k (d, c1)) = None" using None by (cases "cache_Get L ?k c1") (simp add: ResolvePath_def)
      moreover have "ResolvePath L ?k (d, c) = ((d, c1), None)"
        using None c1 \<open>peek (c_cache c) ?k = None\<close> by (simp add: ResolvePath_def)
      moreover have "\<not> (\<exists>q \<in> set (t_paths d). pr_full_path q = ?k)" using None by (simp add: row_by_None_iff image_iff) metis
      ultimately show ?thesis using c1 cached by simp
    next
      case (Some q)
      let ?c2 = "cache_Put L ?k i c1"
      note P = cache_Put_spec [OF laws c1(2), of ?k i]
      have "snd (cache_Get L ?k ?c2) = Some i" using cache_Get_spec(1) [OF laws P(1)] P(2) by simp
      then have "snd (ResolvePath L ?k (d, ?c2)) = Some i" by (cases "cache_Get L ?k ?c2") (simp add: ResolvePath_def)
      moreover have "\<exists>v js. k = id_path v (js @ [j])" if "peek (c_cache ?c2) k = Some j" for k j
        using P(3) that cached c1(3) by (cases "k = ?k") (auto simp: map_le_def dom_def split: if_splits)
      moreover have "\<exists>q \<in> set (t_paths d). pr_full_path q = ?k" using row_by_SomeD [OF Some] by blast
      moreover have "ResolvePath L ?k (d, c) = ((d, ?c2), Some i)"
        using Some c1 \<open>peek (c_cache c) ?k = None\<close> row by (simp add: ResolvePath_def)
      ultimately show ?thesis by simp
    qed
  qed
qed

definition demo_paths :: database where
  "demo_paths = (empty_db 0)\<lparr>t_paths := [\<lparr>pr_view_id = 1, pr_node_id = 3, pr_full_path = ''/1/2/3''\<rparr>]\<rparr>"

definition demo_path_cache :: "(nat \<times> (string \<times> int) list) cache" where
  "demo_path_cache = \<lparr>c_cache = (8192, []), c_size = 8192, c_hits = 0, c_misses = 0, c_evictions = 0\<rparr>"

theorem ResolvePath_correct_witness:
  "id_path 1 ([2] @ [3]) = ''/1/2/3'' \<and>
   (\<exists>c' r. ResolvePath list_lru (id_path 1 ([2] @ [3])) (demo_paths, demo_path_cache) = ((demo_paths, c'), r) \<and> r = Some 3)"
proof -
  have p: "id_path 1 ([2] @ [3]) = ''/1/2/3''" by code_simp
  have h: "list_lru_ok 8192 (c_cache demo_path_cache)" "\<forall>r \<in> set (t_paths demo_paths). row_form r"
    "\<forall>k i. list_peek (c_cache demo_path_cache) k = Some i \<longrightarrow> (\<exists>v js. k = id_path v (js @ [i]))"
    using p by (auto simp: list_lru_ok_def demo_path_cache_def demo_paths_def list_peek_def row_form_def intro!: exI [of _ "[2]"])
  have q: "\<exists>q \<in> set (t_paths demo_paths). pr_full_path q = id_path 1 ([2] @ [3])" "list_peek (c_cache demo_path_cache) (id_path 1 ([2] @ [3])) = None"
    using p by (simp_all add: demo_paths_def demo_path_cache_def list_peek_def)
  from ResolvePath_correct [OF list_lru_laws h, where v = 1 and js = "[2]" and i = 3] q show ?thesis using p by (auto split: prod.splits)
qed

end
