(* ===== verification/Rule_Worker.thy ===== *)
theory Rule_Worker
  imports Virtual_Repo File_Repo Event_Bus
begin

text \<open>
  The worker behind rule folders, src/internal/service/rule_worker.go: the table
  virtual_rule_entries materializes which files match the rule of which visible rule folder, and
  the handlers keep it up to date on file and folder events. The JSON decoder is a parameter:
  \<open>json raw\<close> is the decoded object as an association list, \<^const>\<open>None\<close> if it is not an object of
  strings. Errors of a handler are only logged, so a handler is a function on the database.

  \<open>rule_spec\<close> states what the table should hold; the properties compare the handlers with it.
\<close>

section \<open>Matching\<close>

record fileMeta =
  fm_ID :: int
  fm_OS :: string
  fm_Arch :: string
  fm_SourceType :: string
  fm_Category :: string

type_synonym ruleMatch = "(string \<times> string) list"
type_synonym json_decoder = "string \<Rightarrow> ruleMatch option"

definition coalesce :: "string option \<Rightarrow> string" where
  "coalesce x = (case x of None \<Rightarrow> [] | Some s \<Rightarrow> s)"

definition meta_of :: "file_row \<Rightarrow> fileMeta" where
  "meta_of f = \<lparr>fm_ID = f_id f, fm_OS = f_os f, fm_Arch = f_arch f, fm_SourceType = coalesce (f_source_type f),
     fm_Category = coalesce (f_category f)\<rparr>"

fun rule_matches :: "ruleMatch \<Rightarrow> fileMeta \<Rightarrow> bool" where
  "rule_matches [] f = True"
| "rule_matches ((k, v) # m) f =
     (if k = ''os'' then (if fm_OS f \<noteq> v then False else rule_matches m f)
      else if k = ''arch'' then (if fm_Arch f \<noteq> v then False else rule_matches m f)
      else if k = ''source_type'' then (if fm_SourceType f \<noteq> v then False else rule_matches m f)
      else if k = ''category'' then (if fm_Category f \<noteq> v then False else rule_matches m f)
      else rule_matches m f)"

definition parseRuleConfig :: "json_decoder \<Rightarrow> string \<Rightarrow> ruleMatch option" where
  "parseRuleConfig json raw = json raw"

section \<open>Queries and writes\<close>

definition getFileMeta :: "int \<Rightarrow> database \<Rightarrow> fileMeta option" where
  "getFileMeta fileID d = map_option meta_of (row_by f_id (t_files d) fileID)"

definition listActiveFiles :: "database \<Rightarrow> fileMeta list" where
  "listActiveFiles d = map meta_of (filter (\<lambda>f. f_status f \<noteq> ''deleted'') (t_files d))"

definition listRuleFolders :: "database \<Rightarrow> node list" where
  "listRuleFolders d = filter (\<lambda>n. n_node_type n = ''rule_folder'' \<and> n_status n = ''visible'') (t_nodes d)"

definition insertEntry :: "int \<Rightarrow> int \<Rightarrow> database \<Rightarrow> database \<times> (sql_err + unit)" where
  "insertEntry ruleNodeID fileID d =
     (if (ruleNodeID, fileID) \<in> set (t_rule_entries d) then (d, Inr ())
      else if \<not> has_row n_id (t_nodes d) ruleNodeID then (d, Inl (ForeignKey ''virtual_rule_entries.rule_node_id''))
      else if \<not> has_row f_id (t_files d) fileID then (d, Inl (ForeignKey ''virtual_rule_entries.file_id''))
      else (d\<lparr>t_rule_entries := t_rule_entries d @ [(ruleNodeID, fileID)]\<rparr>, Inr ()))"

fun upsert :: "'k \<Rightarrow> 'v \<Rightarrow> ('k \<times> 'v) list \<Rightarrow> ('k \<times> 'v) list" where
  "upsert k v [] = [(k, v)]"
| "upsert k v ((l, w) # xs) = (if l = k then (k, v) # xs else (l, w) # upsert k v xs)"

definition setCheckpoint :: "int \<Rightarrow> string \<Rightarrow> database \<Rightarrow> database" where
  "setCheckpoint nodeID state d = d\<lparr>t_checkpoints := upsert nodeID state (t_checkpoints d)\<rparr>"

section \<open>Handlers\<close>

definition publish_folder :: "json_decoder \<Rightarrow> int \<Rightarrow> fileMeta \<Rightarrow> node \<Rightarrow> database \<Rightarrow> database" where
  "publish_folder json fileID meta f d =
     (case n_rule_config f of
        None \<Rightarrow> d
      | Some raw \<Rightarrow>
          (case parseRuleConfig json raw of
             None \<Rightarrow> d
           | Some m \<Rightarrow> if rule_matches m meta then fst (insertEntry (n_id f) fileID d) else d))"

definition handleFilePublished :: "json_decoder \<Rightarrow> int \<Rightarrow> database \<Rightarrow> database" where
  "handleFilePublished json fileID d =
     (case getFileMeta fileID d of
        None \<Rightarrow> d
      | Some meta \<Rightarrow> fold (publish_folder json fileID meta) (listRuleFolders d) d)"

definition handleFileRemoved :: "int \<Rightarrow> database \<Rightarrow> database" where
  "handleFileRemoved fileID d = d\<lparr>t_rule_entries := filter (\<lambda>e. snd e \<noteq> fileID) (t_rule_entries d)\<rparr>"

definition handleFileMetadataChanged :: "json_decoder \<Rightarrow> int \<Rightarrow> database \<Rightarrow> database" where
  "handleFileMetadataChanged json fileID d = handleFilePublished json fileID (handleFileRemoved fileID d)"

datatype rule_err = RuleNodeNotFound int | NotRuleFolder int | BadRuleConfig int | RuleSql sql_err

fun backfill_entries :: "int \<Rightarrow> ruleMatch \<Rightarrow> fileMeta list \<Rightarrow> database \<Rightarrow> database \<times> (rule_err + unit)" where
  "backfill_entries nodeID m [] d = (d, Inr ())"
| "backfill_entries nodeID m (f # fs) d =
     (if rule_matches m f then
        (case insertEntry nodeID (fm_ID f) d of
           (d', Inl e) \<Rightarrow> (d', Inl (RuleSql e))
         | (d', Inr u) \<Rightarrow> backfill_entries nodeID m fs d')
      else backfill_entries nodeID m fs d)"

definition Backfill :: "json_decoder \<Rightarrow> int \<Rightarrow> database \<Rightarrow> database \<times> (rule_err + unit)" where
  "Backfill json nodeID d =
     (case repo_GetNode nodeID d of
        None \<Rightarrow> (d, Inl (RuleNodeNotFound nodeID))
      | Some n \<Rightarrow>
          if n_node_type n \<noteq> ''rule_folder'' then (d, Inl (NotRuleFolder nodeID))
          else (case n_rule_config n of
                  None \<Rightarrow> (d, Inr ())
                | Some raw \<Rightarrow>
                    (case parseRuleConfig json raw of
                       None \<Rightarrow> (d, Inl (BadRuleConfig nodeID))
                     | Some m \<Rightarrow>
                         (let d1 = setCheckpoint nodeID ''indexing'' d in
                          case backfill_entries nodeID m (listActiveFiles d1) d1 of
                            (d2, Inl e) \<Rightarrow> (d2, Inl e)
                          | (d2, Inr u) \<Rightarrow> (setCheckpoint nodeID ''ready'' d2, Inr ())))))"

definition handleRuleFolderCreated :: "json_decoder \<Rightarrow> int \<Rightarrow> database \<Rightarrow> database" where
  "handleRuleFolderCreated json nodeID d = fst (Backfill json nodeID d)"

text \<open>What each subscription of Start does with an event.\<close>

fun rule_worker_handle :: "json_decoder \<Rightarrow> event \<Rightarrow> database \<Rightarrow> database" where
  "rule_worker_handle json (FilePublished i) d = handleFilePublished json i d"
| "rule_worker_handle json (FileRemoved i) d = handleFileRemoved i d"
| "rule_worker_handle json (FileMetadataChanged i) d = handleFileMetadataChanged json i d"
| "rule_worker_handle json (RuleFolderCreated i) d = handleRuleFolderCreated json i d"
| "rule_worker_handle json _ d = d"

section \<open>Specification\<close>

definition folder_matches :: "json_decoder \<Rightarrow> node \<Rightarrow> fileMeta \<Rightarrow> bool" where
  "folder_matches json n f \<longleftrightarrow> (\<exists>raw m. n_rule_config n = Some raw \<and> json raw = Some m \<and> rule_matches m f)"

definition rule_spec :: "json_decoder \<Rightarrow> database \<Rightarrow> (int \<times> int) set" where
  "rule_spec json d = {(n_id n, f_id f) |n f. n \<in> set (listRuleFolders d) \<and> f \<in> set (t_files d) \<and> folder_matches json n (meta_of f)}"

text \<open>What the filling of one folder adds, and what the table holds after each event. The worker does not subscribe to changed
  rule folders.\<close>

definition fill_spec :: "json_decoder \<Rightarrow> database \<Rightarrow> int \<Rightarrow> (int \<times> int) set" where
  "fill_spec json d i = {(i, f_id f) |f n. n \<in> set (t_nodes d) \<and> n_id n = i \<and> n_node_type n = ''rule_folder'' \<and>
     f \<in> set (t_files d) \<and> folder_matches json n (meta_of f)}"

fun rule_effect :: "json_decoder \<Rightarrow> event \<Rightarrow> database \<Rightarrow> (int \<times> int) set" where
  "rule_effect json (FilePublished i) d = set (t_rule_entries d) \<union> {e \<in> rule_spec json d. snd e = i}"
| "rule_effect json (FileRemoved i) d = {e \<in> set (t_rule_entries d). snd e \<noteq> i}"
| "rule_effect json (FileMetadataChanged i) d = {e \<in> set (t_rule_entries d). snd e \<noteq> i} \<union> {e \<in> rule_spec json d. snd e = i}"
| "rule_effect json (RuleFolderCreated i) d = set (t_rule_entries d) \<union> fill_spec json d i"
| "rule_effect json _ d = set (t_rule_entries d)"

lemma rule_spec_iff:
  "(a, b) \<in> rule_spec json d \<longleftrightarrow>
   (\<exists>k \<in> set (listRuleFolders d). n_id k = a \<and> (\<exists>f \<in> set (t_files d). f_id f = b \<and> folder_matches json k (meta_of f)))"
  by (auto simp: rule_spec_def)

lemma rule_matches_iff:
  "rule_matches m f \<longleftrightarrow> (\<forall>(k, v) \<in> set m. (k = ''os'' \<longrightarrow> fm_OS f = v) \<and> (k = ''arch'' \<longrightarrow> fm_Arch f = v) \<and>
     (k = ''source_type'' \<longrightarrow> fm_SourceType f = v) \<and> (k = ''category'' \<longrightarrow> fm_Category f = v))"
  by (induction m f rule: rule_matches.induct) auto

lemma insertEntry_set:
  "i \<in> n_id ` set (t_nodes d) \<Longrightarrow> j \<in> f_id ` set (t_files d) \<Longrightarrow>
   snd (insertEntry i j d) = Inr () \<and> set (t_rule_entries (fst (insertEntry i j d))) = insert (i, j) (set (t_rule_entries d)) \<and>
   fst (insertEntry i j d) = d\<lparr>t_rule_entries := t_rule_entries (fst (insertEntry i j d))\<rparr> \<and>
   (distinct (t_rule_entries d) \<longrightarrow> distinct (t_rule_entries (fst (insertEntry i j d))))"
  by (auto simp: insertEntry_def)

lemma publish_folders_set:
  assumes "set ns \<subseteq> set (t_nodes d)" "j \<in> f_id ` set (t_files d)"
  shows "set (t_rule_entries (fold (publish_folder json j meta) ns d)) =
      set (t_rule_entries d) \<union> {(n_id n, j) |n. n \<in> set ns \<and> folder_matches json n meta} \<and>
    fold (publish_folder json j meta) ns d = d\<lparr>t_rule_entries := t_rule_entries (fold (publish_folder json j meta) ns d)\<rparr>"
  using assms
proof (induction ns arbitrary: d)
  case (Cons n ns)
  let ?d = "publish_folder json j meta n d"
  have step: "set (t_rule_entries ?d) = set (t_rule_entries d) \<union> (if folder_matches json n meta then {(n_id n, j)} else {})"
    "?d = d\<lparr>t_rule_entries := t_rule_entries ?d\<rparr>"
    using insertEntry_set [of "n_id n" d j] Cons.prems
    by (auto simp: publish_folder_def parseRuleConfig_def folder_matches_def split: option.splits)
  have "t_nodes ?d = t_nodes d" "t_files ?d = t_files d" using step(2) by (metis database.select_convs(3,5) database.surjective database.update_convs(7))+
  then have IH: "set (t_rule_entries (fold (publish_folder json j meta) ns ?d)) =
      set (t_rule_entries ?d) \<union> {(n_id n, j) |n. n \<in> set ns \<and> folder_matches json n meta}"
    "fold (publish_folder json j meta) ns ?d = ?d\<lparr>t_rule_entries := t_rule_entries (fold (publish_folder json j meta) ns ?d)\<rparr>"
    using Cons.IH [of ?d] Cons.prems by auto
  have "fold (publish_folder json j meta) (n # ns) d = d\<lparr>t_rule_entries := t_rule_entries (fold (publish_folder json j meta) (n # ns) d)\<rparr>"
    using IH(2) step(2) by (cases d; cases ?d) simp
  then show ?case using IH(1) step(1) by auto
qed simp

lemma handleFilePublished_set:
  assumes "distinct (map f_id (t_files d))"
  shows "set (t_rule_entries (handleFilePublished json i d)) = set (t_rule_entries d) \<union> {e \<in> rule_spec json d. snd e = i} \<and>
    handleFilePublished json i d = d\<lparr>t_rule_entries := t_rule_entries (handleFilePublished json i d)\<rparr>"
proof (cases "row_by f_id (t_files d) i")
  case None
  then have none: "{e \<in> rule_spec json d. snd e = i} = {}" by (auto simp: rule_spec_def row_by_None_iff)
  show ?thesis unfolding none using None by (simp add: handleFilePublished_def getFileMeta_def)
next
  case (Some f)
  then have f: "f \<in> set (t_files d)" "f_id f = i" by (auto dest: row_by_SomeD)
  have uniq: "g = f" if "g \<in> set (t_files d)" "f_id g = i" for g
    using that f assms by (auto simp: distinct_map inj_on_def)
  have "(a, i) \<in> rule_spec json d \<longleftrightarrow> (\<exists>n. n \<in> set (listRuleFolders d) \<and> a = n_id n \<and> folder_matches json n (meta_of f))" for a
    unfolding rule_spec_iff using f uniq by metis
  then have "{(n_id n, i) |n. n \<in> set (listRuleFolders d) \<and> folder_matches json n (meta_of f)} = {e \<in> rule_spec json d. snd e = i}"
    by auto
  then show ?thesis
    using Some publish_folders_set [of "listRuleFolders d" d i json "meta_of f"] f
    by (auto simp: handleFilePublished_def getFileMeta_def listRuleFolders_def)
qed

lemma rule_spec_frame [simp]:
  "rule_spec json (d\<lparr>t_rule_entries := es\<rparr>) = rule_spec json d"
  "rule_spec json (d\<lparr>t_checkpoints := cs\<rparr>) = rule_spec json d"
  by (simp_all add: rule_spec_def listRuleFolders_def)

lemma backfill_entries_set:
  assumes "i \<in> n_id ` set (t_nodes d)" "fm_ID ` set fs \<subseteq> f_id ` set (t_files d)"
  shows "snd (backfill_entries i m fs d) = Inr () \<and>
    set (t_rule_entries (fst (backfill_entries i m fs d))) = set (t_rule_entries d) \<union> {(i, fm_ID f) |f. f \<in> set fs \<and> rule_matches m f} \<and>
    fst (backfill_entries i m fs d) = d\<lparr>t_rule_entries := t_rule_entries (fst (backfill_entries i m fs d))\<rparr>"
  using assms
proof (induction fs arbitrary: d)
  case (Cons f fs)
  show ?case
  proof (cases "rule_matches m f")
    case True
    let ?d = "fst (insertEntry i (fm_ID f) d)"
    have ins: "snd (insertEntry i (fm_ID f) d) = Inr ()" "set (t_rule_entries ?d) = insert (i, fm_ID f) (set (t_rule_entries d))"
      "?d = d\<lparr>t_rule_entries := t_rule_entries ?d\<rparr>"
      using insertEntry_set [of i d "fm_ID f"] Cons.prems by auto
    have "t_nodes ?d = t_nodes d" "t_files ?d = t_files d" using ins(3) by (metis database.select_convs(3,5) database.surjective database.update_convs(7))+
    then have IH: "snd (backfill_entries i m fs ?d) = Inr ()"
      "set (t_rule_entries (fst (backfill_entries i m fs ?d))) = set (t_rule_entries ?d) \<union> {(i, fm_ID f) |f. f \<in> set fs \<and> rule_matches m f}"
      "fst (backfill_entries i m fs ?d) = ?d\<lparr>t_rule_entries := t_rule_entries (fst (backfill_entries i m fs ?d))\<rparr>"
      using Cons.IH [of ?d] Cons.prems by auto
    have run: "backfill_entries i m (f # fs) d = backfill_entries i m fs ?d"
      using True ins(1) by (cases "insertEntry i (fm_ID f) d") simp
    have "fst (backfill_entries i m fs ?d) = d\<lparr>t_rule_entries := t_rule_entries (fst (backfill_entries i m fs ?d))\<rparr>"
      using IH(3) ins(3) by (cases d; cases ?d) simp
    then show ?thesis unfolding run using IH(1,2) ins(2) True by auto
  next
    case False
    then show ?thesis using Cons by auto
  qed
qed simp

lemma Backfill_set:
  assumes ids: "distinct (map n_id (t_nodes d))" and st: "\<forall>f \<in> set (t_files d). f_status f \<in> set file_statuses"
    and n: "n \<in> set (t_nodes d)" "n_node_type n = ''rule_folder''" "n_rule_config n = Some raw" "json raw = Some m"
  shows "snd (Backfill json (n_id n) d) = Inr () \<and>
    set (t_rule_entries (fst (Backfill json (n_id n) d))) = set (t_rule_entries d) \<union> fill_spec json d (n_id n) \<and>
    rule_spec json (fst (Backfill json (n_id n) d)) = rule_spec json d \<and>
    map_of (t_checkpoints (fst (Backfill json (n_id n) d))) (n_id n) = Some ''ready''"
proof -
  note mem = n(1, 2)
  have uniq: "k = n" if "k \<in> set (t_nodes d)" "n_id k = n_id n" for k
    using that mem ids by (auto simp: distinct_map inj_on_def)
  have get: "repo_GetNode (n_id n) d = Some n" using mem ids by (simp add: repo_GetNode_def row_by_eq_Some_iff)
  let ?d1 = "setCheckpoint (n_id n) ''indexing'' d"
  have act: "listActiveFiles ?d1 = map meta_of (t_files d)"
  proof -
    have "filter (\<lambda>f. f_status f \<noteq> ''deleted'') (t_files d) = t_files d" by (rule filter_True) (use st in \<open>auto simp: file_statuses_def\<close>)
    then show ?thesis by (simp add: listActiveFiles_def setCheckpoint_def)
  qed
  have B: "snd (backfill_entries (n_id n) m (listActiveFiles ?d1) ?d1) = Inr ()"
    "set (t_rule_entries (fst (backfill_entries (n_id n) m (listActiveFiles ?d1) ?d1))) =
      set (t_rule_entries d) \<union> {(n_id n, fm_ID f) |f. f \<in> set (map meta_of (t_files d)) \<and> rule_matches m f}"
    "fst (backfill_entries (n_id n) m (listActiveFiles ?d1) ?d1) =
      ?d1\<lparr>t_rule_entries := t_rule_entries (fst (backfill_entries (n_id n) m (listActiveFiles ?d1) ?d1))\<rparr>"
    using backfill_entries_set [of "n_id n" ?d1 "listActiveFiles ?d1" m] mem unfolding act
    by (auto simp: setCheckpoint_def meta_of_def image_image)
  have eq: "{(n_id n, fm_ID f) |f. f \<in> set (map meta_of (t_files d)) \<and> rule_matches m f} = fill_spec json d (n_id n)"
  proof -
    have fm: "folder_matches json n f \<longleftrightarrow> rule_matches m f" for f using n(3, 4) by (simp add: folder_matches_def)
    have "fill_spec json d (n_id n) = {(n_id n, f_id f) |f. f \<in> set (t_files d) \<and> folder_matches json n (meta_of f)}"
      unfolding fill_spec_def using uniq mem by blast
    also have "\<dots> = {(n_id n, fm_ID f) |f. f \<in> set (map meta_of (t_files d)) \<and> rule_matches m f}"
    proof -
      have "fm_ID (meta_of f) = f_id f" for f by (simp add: meta_of_def)
      then show ?thesis unfolding fm by (simp add: set_eq_iff image_iff Bex_def) metis
    qed
    finally show ?thesis by simp
  qed
  have run: "Backfill json (n_id n) d =
      (setCheckpoint (n_id n) ''ready'' (fst (backfill_entries (n_id n) m (listActiveFiles ?d1) ?d1)), Inr ())"
    using get mem n B(1) by (simp add: Backfill_def parseRuleConfig_def Let_def split_beta split: sum.split prod.split)
  have up: "map_of (upsert k v xs) k = Some v" for k :: int and v :: string and xs by (induction xs) auto
  have "rule_spec json (fst (Backfill json (n_id n) d)) = rule_spec json d"
    unfolding run using B(3) by (simp add: setCheckpoint_def) (metis rule_spec_frame)
  then show ?thesis using B(2) eq up unfolding run by (auto simp: setCheckpoint_def)
qed

lemma fill_spec_folder:
  assumes "distinct (map n_id (t_nodes d))" "n \<in> set (listRuleFolders d)"
  shows "fill_spec json d (n_id n) = {e \<in> rule_spec json d. fst e = n_id n}"
proof -
  have n: "n \<in> set (t_nodes d)" "n_node_type n = ''rule_folder''" using assms(2) by (auto simp: listRuleFolders_def)
  have uniq: "k = n" if "k \<in> set (t_nodes d)" "n_id k = n_id n" for k
    using that n assms(1) by (auto simp: distinct_map inj_on_def)
  have sub: "k \<in> set (t_nodes d)" if "k \<in> set (listRuleFolders d)" for k using that by (simp add: listRuleFolders_def)
  have "(a, b) \<in> fill_spec json d (n_id n) \<longleftrightarrow> (a, b) \<in> rule_spec json d \<and> a = n_id n" for a b
  proof
    assume "(a, b) \<in> fill_spec json d (n_id n)"
    then obtain f where f: "a = n_id n" "b = f_id f" "f \<in> set (t_files d)" "folder_matches json n (meta_of f)"
      using uniq unfolding fill_spec_def by blast
    then show "(a, b) \<in> rule_spec json d \<and> a = n_id n" using assms(2) unfolding rule_spec_iff by blast
  next
    assume "(a, b) \<in> rule_spec json d \<and> a = n_id n"
    then obtain f where "a = n_id n" "f \<in> set (t_files d)" "f_id f = b" "folder_matches json n (meta_of f)"
      using uniq sub unfolding rule_spec_iff by metis
    then show "(a, b) \<in> fill_spec json d (n_id n)" using n unfolding fill_spec_def by blast
  qed
  then show ?thesis by auto
qed

text \<open>The filling of any folder: also of one that is not shown, and of none when there is no such folder or no readable rule.\<close>

lemma Backfill_effect:
  assumes ids: "distinct (map n_id (t_nodes d))" and st: "\<forall>f \<in> set (t_files d). f_status f \<in> set file_statuses"
  shows "set (t_rule_entries (fst (Backfill json i d))) = set (t_rule_entries d) \<union> fill_spec json d i \<and>
    rule_spec json (fst (Backfill json i d)) = rule_spec json d"
proof (cases "\<exists>n raw m. n \<in> set (t_nodes d) \<and> n_id n = i \<and> n_node_type n = ''rule_folder'' \<and> n_rule_config n = Some raw \<and> json raw = Some m")
  case True
  then obtain n raw m where "n \<in> set (t_nodes d)" "n_id n = i" "n_node_type n = ''rule_folder''" "n_rule_config n = Some raw" "json raw = Some m"
    by blast
  then show ?thesis using Backfill_set [OF ids st, of n raw json m] by simp
next
  case False
  then have e: "fill_spec json d i = {}" unfolding fill_spec_def folder_matches_def by blast
  have "fst (Backfill json i d) = d"
  proof (cases "repo_GetNode i d")
    case (Some n)
    then have n: "n \<in> set (t_nodes d)" "n_id n = i" by (auto simp: repo_GetNode_def dest: row_by_SomeD)
    show ?thesis
    proof (cases "n_node_type n = ''rule_folder''")
      case True
      then have "n_rule_config n = None \<or> (\<exists>raw. n_rule_config n = Some raw \<and> json raw = None)"
        using False n True by (cases "n_rule_config n"; cases "json (the (n_rule_config n))") fastforce+
      then show ?thesis using Some True by (auto simp: Backfill_def parseRuleConfig_def)
    qed (simp add: Backfill_def Some)
  qed (simp add: Backfill_def)
  then show ?thesis by (simp add: e)
qed

section \<open>Properties\<close>

text \<open>
  C13: The rule index follows the events. The handling of each event changes the table of entries exactly as follows, and never
  what the table should hold: a published file adds the pairs of this file, a removed file drops
  its entries, a changed file has its entries replaced by the pairs that hold now, a new rule folder
  adds the pairs of the folder, and no other event changes anything, an updated rule folder included.
  So, when the table agrees with its specification except for the entries of one file, the handling of a metadata change of this file makes it
  agree altogether; if only the entries of a newly published file are missing, the handling of its publication does; and if
  only the entries of a visible rule folder with a readable rule are missing, the handling of its creation
  does, and records the folder as ready.
\<close>
theorem rule_index_maintained:
  assumes "files_ok d" "schema_ok d"
  shows "set (t_rule_entries (rule_worker_handle json ev d)) = rule_effect json ev d \<and>
    rule_spec json (rule_worker_handle json ev d) = rule_spec json d \<and>
    ({e \<in> set (t_rule_entries d). snd e \<noteq> i} = {e \<in> rule_spec json d. snd e \<noteq> i} \<longrightarrow>
      set (t_rule_entries (rule_worker_handle json (FileMetadataChanged i) d)) = rule_spec json (rule_worker_handle json (FileMetadataChanged i) d)) \<and>
    (set (t_rule_entries d) = {e \<in> rule_spec json d. snd e \<noteq> i} \<longrightarrow>
      set (t_rule_entries (rule_worker_handle json (FilePublished i) d)) = rule_spec json (rule_worker_handle json (FilePublished i) d)) \<and>
    (\<forall>n \<in> set (listRuleFolders d). \<forall>raw m. n_rule_config n = Some raw \<longrightarrow> json raw = Some m \<longrightarrow>
      set (t_rule_entries d) = {e \<in> rule_spec json d. fst e \<noteq> n_id n} \<longrightarrow>
      set (t_rule_entries (rule_worker_handle json (RuleFolderCreated (n_id n)) d)) = rule_spec json (rule_worker_handle json (RuleFolderCreated (n_id n)) d) \<and>
      map_of (t_checkpoints (rule_worker_handle json (RuleFolderCreated (n_id n)) d)) (n_id n) = Some ''ready'')"
proof -
  have f: "distinct (map f_id (t_files d))" "\<forall>f \<in> set (t_files d). f_status f \<in> set file_statuses"
    using assms(1) by (simp_all add: files_ok_def keyed_def)
  have n: "distinct (map n_id (t_nodes d))" using assms(2) by (simp add: schema_ok_def keys_ok_def keyed_def)
  have r: "rule_spec json (handleFileRemoved i d) = rule_spec json d"
    "set (t_rule_entries (handleFileRemoved i d)) = {e \<in> set (t_rule_entries d). snd e \<noteq> i}"
    "distinct (map f_id (t_files (handleFileRemoved i d)))" for i using f(1) by (auto simp: handleFileRemoved_def)
  note H = handleFilePublished_set [OF r(3)] and P = handleFilePublished_set [OF f(1)]
  have same: "rule_spec json (handleFilePublished json i (handleFileRemoved i d)) = rule_spec json d"
    "rule_spec json (handleFilePublished json i d) = rule_spec json d" for i
    using H P r(1) by (metis rule_spec_frame(1))+
  have all: "set (t_rule_entries (rule_worker_handle json ev d)) = rule_effect json ev d \<and>
      rule_spec json (rule_worker_handle json ev d) = rule_spec json d" for ev
  proof (cases ev)
    case (FilePublished i)
    then show ?thesis using P same by simp
  next
    case (FileRemoved i)
    then show ?thesis using r by simp
  next
    case (FileMetadataChanged i)
    then show ?thesis using handleFilePublished_set [OF r(3) [of i], of json i] r same by (simp add: handleFileMetadataChanged_def)
  next
    case (RuleFolderCreated i)
    then show ?thesis using Backfill_effect [OF n f(2)] by (simp add: handleRuleFolderCreated_def)
  qed simp_all
  note all1 = conjunct1 [OF all] and all2 = conjunct2 [OF all]
  have fold: "rule_effect json (RuleFolderCreated (n_id k)) d = rule_spec json d \<and>
      map_of (t_checkpoints (rule_worker_handle json (RuleFolderCreated (n_id k)) d)) (n_id k) = Some ''ready''"
    if k: "k \<in> set (listRuleFolders d)" "n_rule_config k = Some raw" "json raw = Some m" "set (t_rule_entries d) = {e \<in> rule_spec json d. fst e \<noteq> n_id k}"
    for k raw m
  proof -
    have mem: "k \<in> set (t_nodes d)" "n_node_type k = ''rule_folder''" using k(1) by (auto simp: listRuleFolders_def)
    have "map_of (t_checkpoints (rule_worker_handle json (RuleFolderCreated (n_id k)) d)) (n_id k) = Some ''ready''"
      using Backfill_set [where d = d and n = k and json = json and raw = raw and m = m, OF n f(2) mem k(2, 3)] by (simp add: handleRuleFolderCreated_def)
    moreover have "rule_effect json (RuleFolderCreated (n_id k)) d = rule_spec json d"
      using k(4) fill_spec_folder [OF n k(1), of json] by auto
    ultimately show ?thesis by simp
  qed
  have files: "{e \<in> set (t_rule_entries d). snd e \<noteq> i} = {e \<in> rule_spec json d. snd e \<noteq> i} \<longrightarrow> rule_effect json (FileMetadataChanged i) d = rule_spec json d"
    "set (t_rule_entries d) = {e \<in> rule_spec json d. snd e \<noteq> i} \<longrightarrow> rule_effect json (FilePublished i) d = rule_spec json d" by auto
  show ?thesis unfolding all1 all2
    by (intro conjI impI ballI allI refl) (use files fold in \<open>blast+\<close>)
qed

text \<open>One rule folder and one matching file, for the witness.\<close>

definition demo_rules :: database where
  "demo_rules = demo_files\<lparr>
     t_channels := [\<lparr>c_id = 1, c_slug = ''pub'', c_name = ''P'', c_auth_mode = [], c_description = [], c_created_at = 0\<rparr>], seq_channels := 1,
     t_views := [\<lparr>v_id = 1, v_slug = ''m'', v_name = ''M'', v_channel_id = 1, v_mode = ''rule'', v_writable = False, v_sort_order = 0, v_created_at = 0\<rparr>], seq_views := 1,
     t_nodes := [\<lparr>n_id = 1, n_view_id = 1, n_parent_id = None, n_name = ''r'', n_node_type = ''rule_folder'', n_file_id = None,
        n_rule_config = Some ''gh'', n_sort_order = 0, n_status = ''visible'', n_created_at = 0\<rparr>], seq_nodes := 1\<rparr>"

definition demo_json :: json_decoder where
  "demo_json raw = (if raw = ''gh'' then Some [(''source_type'', ''github'')] else None)"

theorem rule_index_maintained_witness:
  "files_ok demo_rules \<and> schema_ok demo_rules \<and>
   set (t_rule_entries (rule_worker_handle demo_json (FilePublished 1) demo_rules)) = {(1, 1)} \<and>
   rule_spec demo_json (rule_worker_handle demo_json (FilePublished 1) demo_rules) = {(1, 1)}"
proof -
  have ok: "files_ok demo_rules" using demo_files_ok by (simp add: files_ok_def demo_rules_def)
  have sch: "schema_ok demo_rules" by (simp add: schema_defs keyed_def demo_rules_def view_modes_def node_types_def node_statuses_def)
  have ids: "\<forall>f \<in> set (t_files demo_rules). f_id f = 1" "t_rule_entries demo_rules = []" by code_simp+
  then have "{e \<in> rule_spec demo_json demo_rules. snd e \<noteq> 1} = {}" by (auto simp: rule_spec_def)
  with ids(2) have "set (t_rule_entries demo_rules) = {e \<in> rule_spec demo_json demo_rules. snd e \<noteq> 1}" by simp
  with rule_index_maintained [OF ok sch, of demo_json "FilePublished 1" 1]
  have "set (t_rule_entries (rule_worker_handle demo_json (FilePublished 1) demo_rules)) =
      rule_spec demo_json (rule_worker_handle demo_json (FilePublished 1) demo_rules)" by blast
  moreover have "set (t_rule_entries (rule_worker_handle demo_json (FilePublished 1) demo_rules)) = {(1, 1)}" by code_simp
  ultimately show ?thesis using ok sch by simp
qed

end
