(* ===== verification/Apt_Archive.thy ===== *)
theory Apt_Archive
  imports Go_Text "HOL-Library.Word"
begin

text \<open>
  The reader of ar archives, src/internal/apt/ar.go: a Debian package is such an archive. A reader is
  the bytes it still delivers and how it ends, \<^const>\<open>None\<close> for io.EOF and \<open>Some e\<close> for an error of
  the disk. Sizes are 64-bit words, as in the code; a negative size makes the runtime panic in
  \<^verbatim>\<open>make\<close>, which is the value \<open>MakePanic\<close>.

  Shown: no input reaches the panic, the members never claim more bytes than were read, and what a
  writer of the format puts into an archive is read back.
\<close>

section \<open>Readers\<close>

type_synonym reader = "string \<times> string option"

datatype read_err = EOF | UnexpectedEOF | DiskErr string

text \<open>\<^verbatim>\<open>io.ReadFull\<close> into a buffer of n bytes.\<close>

definition ReadFull :: "nat \<Rightarrow> reader \<Rightarrow> read_err + string \<times> reader" where
  "ReadFull n r =
     (if n \<le> length (fst r) then Inr (take n (fst r), (drop n (fst r), snd r))
      else (case snd r of Some e \<Rightarrow> Inl (DiskErr e) | None \<Rightarrow> Inl (if fst r = [] then EOF else UnexpectedEOF)))"

section \<open>Archives\<close>

definition arMagic :: string where
  "arMagic = ''!<arch>'' @ [char_of (10 :: nat)]"

record ArEntry =
  ar_Name :: string
  ar_Size :: int
  ar_Data :: string

datatype size_err = EmptySize | NonDigit

datatype ar_err =
    ReadMagic read_err
  | BadMagic string
  | ReadHeader read_err
  | ParseSize string size_err
  | MakePanic int
  | ReadMember string read_err

definition arName :: "string \<Rightarrow> string" where
  "arName name = trim_right_char CHR ''/'' name"

fun parse_digits :: "64 word \<Rightarrow> string \<Rightarrow> size_err + 64 word" where
  "parse_digits n [] = Inr n"
| "parse_digits n (c # s) = (if is_digit c then parse_digits (n * 10 + of_nat (digit_val c)) s else Inl NonDigit)"

definition parseOctalOrDecimal :: "string \<Rightarrow> size_err + 64 word" where
  "parseOctalOrDecimal s = (let t = trim_space s in if t = [] then Inl EmptySize else parse_digits 0 t)"

definition member_name :: "string \<Rightarrow> string" where
  "member_name block = trim_space (trim_right_char CHR '' '' (take 16 block))"

definition member_size :: "string \<Rightarrow> string" where
  "member_size block = trim_space (take 10 (drop 48 block))"

text \<open>One pass of the loop up to the padding byte, then the rest of the archive.\<close>

definition read_member :: "string \<Rightarrow> reader \<Rightarrow> ar_err + ArEntry \<times> reader" where
  "read_member block r =
     (case parseOctalOrDecimal (member_size block) of
        Inl e \<Rightarrow> Inl (ParseSize (member_size block) e)
      | Inr sz \<Rightarrow>
          if sint sz < 0 then Inl (MakePanic (sint sz))
          else (case ReadFull (nat (sint sz)) r of
              Inl e \<Rightarrow> Inl (ReadMember (member_name block) e)
            | Inr (data, (rest, end)) \<Rightarrow>
                Inr (\<lparr>ar_Name = arName (member_name block), ar_Size = sint sz, ar_Data = data\<rparr>,
                     (if sint sz mod 2 = 1 then drop 1 rest else rest, end))))"

lemma read_member_shorter:
  "read_member block r = Inr (e, r1) \<Longrightarrow> length (fst r1) + nat (ar_Size e) \<le> length (fst r)"
  by (auto simp: read_member_def ReadFull_def split: sum.splits if_splits prod.splits option.splits)

function read_members :: "ArEntry list \<Rightarrow> reader \<Rightarrow> ar_err + ArEntry list" where
  "read_members entries r =
     (case ReadFull 60 r of
        Inl EOF \<Rightarrow> Inr entries
      | Inl e \<Rightarrow> Inl (ReadHeader e)
      | Inr (block, r1) \<Rightarrow>
          (case read_member block r1 of
             Inl e \<Rightarrow> Inl e
           | Inr (entry, r2) \<Rightarrow> read_members (entries @ [entry]) r2))"
  by pat_completeness auto
termination
proof (relation "measure (\<lambda>(es, r). length (fst r))")
  fix r b block and r1 :: reader and m e and r2 :: reader
  assume h: "ReadFull 60 r = Inr b" "(block, r1) = b" "read_member block r1 = Inr m" "(e, r2) = m"
  then have "length (fst r1) < length (fst r)"
    by (auto simp: ReadFull_def split: if_splits option.splits)
  with read_member_shorter [of block r1 e r2] h
  show "((es @ [e], r2), (es, r)) \<in> measure (\<lambda>(es, r). length (fst r))" for es by simp
qed simp

declare read_members.simps [simp del]

definition ReadAr :: "reader \<Rightarrow> ar_err + ArEntry list" where
  "ReadAr r =
     (case ReadFull 8 r of
        Inl e \<Rightarrow> Inl (ReadMagic e)
      | Inr (header, r1) \<Rightarrow> if header \<noteq> arMagic then Inl (BadMagic header) else read_members [] r1)"

definition memberNamed :: "ArEntry list \<Rightarrow> string \<Rightarrow> ArEntry option" where
  "memberNamed entries pre = List.find (\<lambda>e. has_prefix (ar_Name e) pre) entries"

text \<open>The format, as a writer: name, time, owner, group, mode, size, then the data, padded to an even
  length. \<open>meta\<close> are the 32 bytes between name and size.\<close>

definition pad_right :: "nat \<Rightarrow> string \<Rightarrow> string" where
  "pad_right n s = s @ replicate (n - length s) CHR '' ''"

definition write_member :: "string \<times> string \<times> string \<Rightarrow> string" where
  "write_member m = (case m of (name, meta, data) \<Rightarrow>
     pad_right 16 name @ meta @ pad_right 10 (format_nat (length data)) @ [CHR 0x60, char_of (10 :: nat)] @
     data @ (if odd (length data) then [char_of (10 :: nat)] else []))"

definition write_ar :: "(string \<times> string \<times> string) list \<Rightarrow> string" where
  "write_ar ms = arMagic @ concat (map write_member ms)"

definition member_ok :: "string \<times> string \<times> string \<Rightarrow> bool" where
  "member_ok m = (case m of (name, meta, data) \<Rightarrow>
     length name \<le> 16 \<and> (name = [] \<or> plain_char (hd name) \<and> plain_char (last name)) \<and>
     length meta = 32 \<and> length data < 10 ^ 10)"

definition entry_of :: "string \<times> string \<times> string \<Rightarrow> ArEntry" where
  "entry_of m = (case m of (name, meta, data) \<Rightarrow>
     \<lparr>ar_Name = arName name, ar_Size = int (length data), ar_Data = data\<rparr>)"

section \<open>Sizes\<close>

lemma digits_val_bound:
  "list_all is_digit s \<Longrightarrow> digits_val a s < (a + 1) * 10 ^ length s"
proof (induction s arbitrary: a)
  case (Cons c s)
  then have "digit_val c \<le> 9" by (auto simp: digit_val_def dest: is_digit_plain)
  then have "(a * 10 + digit_val c + 1) * 10 ^ length s \<le> ((a + 1) * 10) * 10 ^ length s"
    by (intro mult_right_mono) auto
  with Cons.IH [of "a * 10 + digit_val c"] Cons.prems
  have "digits_val (a * 10 + digit_val c) s < ((a + 1) * 10) * 10 ^ length s" by force
  then show ?case by (simp add: algebra_simps)
qed simp

lemma parse_digits_Inr:
  "parse_digits n s = Inr w \<Longrightarrow> n = of_nat a \<Longrightarrow> list_all is_digit s \<and> w = of_nat (digits_val a s)"
proof (induction n s arbitrary: a rule: parse_digits.induct)
  case (2 n c s)
  from "2.prems" have "is_digit c" "parse_digits (n * 10 + of_nat (digit_val c)) s = Inr w" by (auto split: if_splits)
  with "2.IH" [of "a * 10 + digit_val c"] "2.prems"(2) show ?case by simp
qed simp

lemma parse_digits_all:
  "list_all is_digit s \<Longrightarrow> parse_digits (of_nat a) s = Inr (of_nat (digits_val a s))"
proof (induction s arbitrary: a)
  case (Cons c s)
  from Cons.IH [of "a * 10 + digit_val c"] Cons.prems show ?case by (simp add: mult.commute)
qed simp

lemma sint_small: "n < 10 ^ 10 \<Longrightarrow> sint (of_nat n :: 64 word) = int n"
  by (simp add: signed_of_nat signed_take_bit_int_eq_self)

lemma parsed_size:
  assumes "parseOctalOrDecimal s = Inr w" "length s \<le> 10"
  shows "0 \<le> sint w \<and> sint w < 10 ^ 10"
proof -
  from assms have p: "parse_digits 0 (trim_space s) = Inr w"
    by (auto simp: parseOctalOrDecimal_def Let_def split: if_splits)
  from parse_digits_Inr [OF p, of 0] have d: "list_all is_digit (trim_space s)"
    and w: "w = of_nat (digits_val 0 (trim_space s))" by simp_all
  have "digits_val 0 (trim_space s) < 10 ^ length (trim_space s)"
    using digits_val_bound [OF d, of 0] by simp
  also have "\<dots> \<le> 10 ^ 10"
    using trim_space_length [of s] assms(2) by (intro power_increasing) auto
  finally show ?thesis using w sint_small by simp
qed

lemma member_size_length: "length (member_size block) \<le> 10"
  unfolding member_size_def using trim_space_length [of "take 10 (drop 48 block)"] by simp

section \<open>What is read\<close>

definition entry_ok :: "ArEntry \<Rightarrow> bool" where
  "entry_ok e \<longleftrightarrow> ar_Size e = int (length (ar_Data e)) \<and> ar_Size e < 10 ^ 10 \<and>
     (ar_Name e = [] \<or> last (ar_Name e) \<noteq> CHR ''/'')"

definition claimed :: "ArEntry list \<Rightarrow> nat" where
  "claimed es = sum_list (map (\<lambda>e. 60 + nat (ar_Size e)) es)"

lemma arName_end: "arName s = [] \<or> last (arName s) \<noteq> CHR ''/''"
proof (cases "dropWhile (\<lambda>d. d = CHR ''/'') (rev s)")
  case (Cons c t)
  then have "c \<noteq> CHR ''/''" using hd_dropWhile [of "\<lambda>d. d = CHR ''/''" "rev s"] by auto
  with Cons show ?thesis by (simp add: arName_def trim_right_char_def)
qed (simp add: arName_def trim_right_char_def)

lemma read_member_ok:
  "case read_member block r of
     Inl e \<Rightarrow> \<not> (\<exists>n. e = MakePanic n)
   | Inr (e, r1) \<Rightarrow> entry_ok e \<and> length (fst r1) + nat (ar_Size e) \<le> length (fst r)"
proof (cases "parseOctalOrDecimal (member_size block)")
  case (Inr w)
  note b = parsed_size [OF Inr member_size_length]
  show ?thesis
    using b arName_end [of "member_name block"]
    by (auto simp: read_member_def Inr ReadFull_def entry_ok_def split: option.splits)
qed (simp add: read_member_def)

lemma read_members_ok:
  "list_all entry_ok es \<Longrightarrow>
   (case read_members es r of
      Inl e \<Rightarrow> \<not> (\<exists>n. e = MakePanic n)
    | Inr fs \<Rightarrow> list_all entry_ok fs \<and> claimed fs \<le> claimed es + length (fst r))"
proof (induction es r rule: read_members.induct)
  case (1 es r)
  show ?case
  proof (cases "ReadFull 60 r")
    case (Inl e)
    with "1.prems" show ?thesis by (cases e) (simp_all add: read_members.simps [of es r])
  next
    case (Inr b)
    obtain block r1 where b: "b = (block, r1)" by (cases b)
    have l: "length (fst r1) + 60 = length (fst r)"
      using Inr b by (auto simp: ReadFull_def split: if_splits option.splits)
    note m = read_member_ok [where block = block and r = r1]
    show ?thesis
    proof (cases "read_member block r1")
      case (Inl e)
      with m show ?thesis by (simp add: read_members.simps [of es r] Inr b)
    next
      case m2: (Inr x)
      obtain e r2 where x: "x = (e, r2)" by (cases x)
      from m m2 x have e: "entry_ok e" "length (fst r2) + nat (ar_Size e) \<le> length (fst r1)" by simp_all
      then have "list_all entry_ok (es @ [e])" using "1.prems" by simp
      from "1.IH" [OF Inr b [symmetric] m2 x [symmetric] this]
      show ?thesis using e l
        by (simp add: read_members.simps [of es r] Inr b m2 x claimed_def split: sum.splits)
    qed
  qed
qed

section \<open>Round trip\<close>

lemma trim_space_pad:
  assumes "s = [] \<or> plain_char (hd s) \<and> plain_char (last s)"
  shows "trim_space (pad_right n s) = s"
proof (cases "s = []")
  case True
  have "trim_front space_seqs (replicate k CHR '' '') = []" for k
    by (induction k) (simp_all add: trim_front_blank trim_left_plain [unfolded trim_left_space_def])
  with True show ?thesis
    by (simp add: trim_space_def trim_left_space_def trim_right_plain pad_right_def)
next
  case False
  with assms have "trim_left_space (pad_right n s) = pad_right n s"
    by (intro trim_left_plain) (simp add: pad_right_def)
  with assms False show ?thesis
    by (simp add: trim_space_def pad_right_def trim_right_spaces)
qed

lemma trim_right_char_pad:
  "s = [] \<or> last s \<noteq> CHR '' '' \<Longrightarrow> trim_right_char CHR '' '' (pad_right n s) = s"
  by (cases s rule: rev_cases) (auto simp: trim_right_char_def pad_right_def dropWhile_append)

lemma format_nat_trim: "trim_space (pad_right n (format_nat k)) = format_nat k"
proof (rule trim_space_pad)
  have "\<forall>c \<in> set (format_nat k). plain_char c" using format_nat_digits digit_is_plain by blast
  then show "format_nat k = [] \<or> plain_char (hd (format_nat k)) \<and> plain_char (last (format_nat k))"
    by (metis format_nat_not_Nil hd_in_set last_in_set)
qed

lemma format_nat_length: "0 < d \<Longrightarrow> k < 10 ^ d \<Longrightarrow> length (format_nat k) \<le> d"
proof (induction k arbitrary: d rule: format_nat.induct)
  case (1 k)
  show ?case
  proof (cases "k < 10")
    case True
    with "1.prems" show ?thesis by (subst format_nat.simps) simp
  next
    case False
    with "1.prems" have d: "1 < d" by (metis One_nat_def Suc_lessI linorder_neqE_nat not_less power_one_right)
    have "k div 10 < 10 ^ (d - 1)"
      using "1.prems" d by (metis Suc_diff_1 less_mult_imp_div_less power_Suc2)
    with "1.IH" [OF False, of "d - 1"] d False show ?thesis by (subst format_nat.simps) simp
  qed
qed

lemma parse_written_size:
  "n < 10 ^ 10 \<Longrightarrow> parseOctalOrDecimal (format_nat n) = Inr (of_nat n)"
proof -
  have t: "trim_space (format_nat n) = format_nat n" using format_nat_trim [of 0 n] by (simp add: pad_right_def)
  have "list_all is_digit (format_nat n)" by (auto simp: list_all_iff dest: format_nat_digits)
  from parse_digits_all [OF this, of 0] show ?thesis by (simp add: parseOctalOrDecimal_def t Let_def)
qed

lemma read_written_member:
  assumes "member_ok m"
  shows "\<exists>block tail. write_member m = block @ tail \<and> length block = 60 \<and>
    read_member block (tail @ rest, end) = Inr (entry_of m, (rest, end))"
proof -
  obtain name meta data where m: "m = (name, meta, data)" by (cases m)
  with assms have n: "length name \<le> 16" "name = [] \<or> plain_char (hd name) \<and> plain_char (last name)"
    and meta: "length meta = 32" and d: "length data < 10 ^ 10" by (auto simp: member_ok_def)
  define size where "size = pad_right 10 (format_nat (length data))"
  define block where "block = pad_right 16 name @ meta @ size @ [CHR 0x60, char_of (10 :: nat)]"
  define tail where "tail = data @ (if odd (length data) then [char_of (10 :: nat)] else [])"
  have w: "write_member m = block @ tail"
    by (simp add: m write_member_def block_def tail_def size_def)
  have l: "length (pad_right 16 name) = 16" "length size = 10"
    using n format_nat_length [of 10 "length data"] d by (simp_all add: pad_right_def size_def)
  have nm: "member_name block = name"
  proof -
    have "name = [] \<or> last name \<noteq> CHR '' ''" using n(2) by auto
    then show ?thesis
      using n l trim_space_plain [of name] trim_right_char_pad [of name 16]
      by (simp add: member_name_def block_def)
  qed
  have sz: "member_size block = format_nat (length data)"
    using l meta format_nat_trim [of 10 "length data"] by (simp add: member_size_def block_def size_def)
  have even_iff: "int (length data) mod 2 = 1 \<longleftrightarrow> odd (length data)" by presburger
  have "read_member block (tail @ rest, end) = Inr (entry_of m, (rest, end))"
    using d sint_small [OF d] even_iff
    by (auto simp: read_member_def sz nm parse_written_size ReadFull_def tail_def m entry_of_def)
  moreover have "length block = 60" using l meta by (simp add: block_def)
  ultimately show ?thesis using w by blast
qed

lemma read_written:
  "list_all member_ok ms \<Longrightarrow>
   read_members es (concat (map write_member ms), None) = Inr (es @ map entry_of ms)"
proof (induction ms arbitrary: es)
  case Nil
  then show ?case by (simp add: read_members.simps ReadFull_def)
next
  case (Cons m ms)
  then have "member_ok m" by simp
  from read_written_member [OF this, of "concat (map write_member ms)" None] obtain block tail
    where b: "write_member m = block @ tail" "length block = 60"
      "read_member block (tail @ concat (map write_member ms), None) = Inr (entry_of m, (concat (map write_member ms), None))"
    by blast
  with Cons show ?case
    by (simp add: read_members.simps [of es] ReadFull_def)
qed

lemma ReadAr_written: "list_all member_ok ms \<Longrightarrow> ReadAr (write_ar ms, None) = Inr (map entry_of ms)"
proof -
  assume ms: "list_all member_ok ms"
  have "length arMagic = 8" by (simp add: arMagic_def)
  then show ?thesis
    using read_written [OF ms, of "[]"] by (simp add: ReadAr_def write_ar_def ReadFull_def)
qed

section \<open>Properties\<close>

text \<open>C23: Whatever bytes a reader delivers, ReadAr returns: no size field makes the allocation of a
  member panic, every member returned has as many bytes as its size says, fewer than ten thousand
  million, and a name without a trailing slash, and headers and data of all members together fit into
  what was read.\<close>

theorem ReadAr_bounds:
  "case ReadAr r of
     Inl e \<Rightarrow> \<not> (\<exists>n. e = MakePanic n)
   | Inr es \<Rightarrow> list_all entry_ok es \<and> 8 + claimed es \<le> length (fst r)"
proof (cases "ReadFull 8 r")
  case (Inr x)
  obtain header r1 where x: "x = (header, r1)" by (cases x)
  have "length (fst r1) + 8 = length (fst r)"
    using Inr x by (auto simp: ReadFull_def split: if_splits option.splits)
  moreover have "claimed [] = 0" by (simp add: claimed_def)
  ultimately show ?thesis
    using read_members_ok [of "[]" r1] by (auto simp: ReadAr_def Inr x split: sum.splits)
qed (simp add: ReadAr_def)

text \<open>C24: Reading an archive written in the ar format gives its members back, in order: names without
  padding and trailing slash, sizes and contents, of even and of odd length.\<close>

theorem ReadAr_roundtrip:
  assumes "list_all member_ok ms"
  shows "ReadAr (write_ar ms, None) = Inr (map entry_of ms)"
  using assms by (rule ReadAr_written)

definition demo_ms :: "(string \<times> string \<times> string) list" where
  "demo_ms = [(''debian-binary'', replicate 32 CHR ''0'', ''2.0'' @ [char_of (10 :: nat)]),
              (''control.tar.gz/'', replicate 32 CHR '' '', ''abc'')]"

theorem ReadAr_roundtrip_witness:
  "ReadAr (write_ar demo_ms, None) = Inr (map entry_of demo_ms) \<and>
   map ar_Name (map entry_of demo_ms) = [''debian-binary'', ''control.tar.gz''] \<and>
   map ar_Size (map entry_of demo_ms) = [4, 3]"
proof -
  have "list_all member_ok demo_ms" by (simp add: demo_ms_def member_ok_def plain_char_def)
  moreover have "map ar_Name (map entry_of demo_ms) = [''debian-binary'', ''control.tar.gz''] \<and>
    map ar_Size (map entry_of demo_ms) = [4, 3]" by code_simp
  ultimately show ?thesis using ReadAr_roundtrip [of demo_ms] by simp
qed

end
