(* ===== verification/Apt_Control.thy ===== *)
theory Apt_Control
  imports Apt_Archive
begin

text \<open>
  Control metadata of Debian packages, src/internal/apt/deb.go. Decompression (compress/gzip and the
  packages xz and zstd) and the reading of tar streams (archive/tar) are parameters: a codec returns
  the error of its constructor, the error of the read, or all bytes; a tar stream is the list of its
  headers with their contents and how it ends.
\<close>

section \<open>Fields\<close>

record DebInfo =
  di_Package :: string
  di_Version :: string
  di_Architecture :: string
  di_Maintainer :: string
  di_InstalledSize :: string
  di_Description :: string
  di_Depends :: string
  di_PreDepends :: string
  di_Recommends :: string
  di_Suggests :: string
  di_Conflicts :: string
  di_Breaks :: string
  di_Replaces :: string
  di_Provides :: string
  di_Section :: string
  di_Priority :: string
  di_Homepage :: string

abbreviation nl :: char where
  "nl \<equiv> char_of (10 :: nat)"

abbreviation tab :: char where
  "tab \<equiv> char_of (9 :: nat)"

definition blank_line :: "string \<Rightarrow> bool" where
  "blank_line raw \<longleftrightarrow> trim_space raw = []"

definition continuation :: "string \<Rightarrow> bool" where
  "continuation raw \<longleftrightarrow> hd raw = CHR '' '' \<or> hd raw = tab"

text \<open>A missing key of a Go map reads as the empty string.\<close>

definition get :: "(string \<rightharpoonup> string) \<Rightarrow> string \<Rightarrow> string" where
  "get m k = (case m k of None \<Rightarrow> [] | Some v \<Rightarrow> v)"

fun rfc_lines :: "(string \<rightharpoonup> string) \<Rightarrow> string \<Rightarrow> string list \<Rightarrow> (string \<rightharpoonup> string)" where
  "rfc_lines out lastKey [] = out"
| "rfc_lines out lastKey (raw # lines) =
     (if blank_line raw then (if lastKey \<noteq> [] then out else rfc_lines out lastKey lines)
      else if continuation raw then
        rfc_lines (if lastKey \<noteq> [] then out(lastKey \<mapsto> get out lastKey @ nl # raw) else out) lastKey lines
      else (case index_char CHR '':'' raw of
          None \<Rightarrow> rfc_lines out lastKey lines
        | Some idx \<Rightarrow>
            let key = trim_space (take idx raw) in
            rfc_lines (out(key \<mapsto> trim_space (drop (idx + 1) raw))) key lines))"

definition parseRFC822 :: "string \<Rightarrow> (string \<rightharpoonup> string)" where
  "parseRFC822 text = rfc_lines Map.empty [] (split_char nl text)"

definition parseControl :: "string \<Rightarrow> DebInfo" where
  "parseControl text = (let fields = get (parseRFC822 text) in
     \<lparr>di_Package = fields ''Package'', di_Version = fields ''Version'', di_Architecture = fields ''Architecture'',
      di_Maintainer = fields ''Maintainer'', di_InstalledSize = fields ''Installed-Size'',
      di_Description = fields ''Description'', di_Depends = fields ''Depends'', di_PreDepends = fields ''Pre-Depends'',
      di_Recommends = fields ''Recommends'', di_Suggests = fields ''Suggests'', di_Conflicts = fields ''Conflicts'',
      di_Breaks = fields ''Breaks'', di_Replaces = fields ''Replaces'', di_Provides = fields ''Provides'',
      di_Section = fields ''Section'', di_Priority = fields ''Priority'', di_Homepage = fields ''Homepage''\<rparr>)"

definition canonicalOrder :: "string list" where
  "canonicalOrder =
     [''Package'', ''Version'', ''Architecture'', ''Maintainer'', ''Installed-Size'',
      ''Depends'', ''Pre-Depends'', ''Recommends'', ''Suggests'', ''Conflicts'',
      ''Breaks'', ''Replaces'', ''Provides'', ''Section'', ''Priority'', ''Homepage'', ''Description'']"

definition control_map :: "DebInfo \<Rightarrow> (string \<times> string) list" where
  "control_map d =
     [(''Package'', di_Package d), (''Version'', di_Version d), (''Architecture'', di_Architecture d),
      (''Maintainer'', di_Maintainer d), (''Installed-Size'', di_InstalledSize d),
      (''Description'', di_Description d), (''Depends'', di_Depends d), (''Pre-Depends'', di_PreDepends d),
      (''Recommends'', di_Recommends d), (''Suggests'', di_Suggests d), (''Conflicts'', di_Conflicts d),
      (''Breaks'', di_Breaks d), (''Replaces'', di_Replaces d), (''Provides'', di_Provides d),
      (''Section'', di_Section d), (''Priority'', di_Priority d), (''Homepage'', di_Homepage d)]"

definition controlPairs :: "DebInfo \<Rightarrow> (string \<times> string) list" where
  "controlPairs d = (let m = get (map_of (control_map d)) in
     map (\<lambda>k. (k, m k)) (filter (\<lambda>k. m k \<noteq> []) canonicalOrder))"

section \<open>Packages\<close>

datatype codec_err = NewReaderErr string | ReadAllErr string

record codecs =
  c_gzip :: "string \<Rightarrow> codec_err + string"
  c_xz :: "string \<Rightarrow> codec_err + string"
  c_zstd :: "string \<Rightarrow> codec_err + string"

record tar_member =
  tm_Name :: string
  tm_Regular :: bool
  tm_Body :: "string + string"

type_synonym tar_reader = "string \<Rightarrow> tar_member list \<times> string option"

datatype deb_err =
    DebAr ar_err
  | NoControlMember
  | Codec string codec_err
  | ControlNotFound
  | TarErr string
  | ControlRead string

definition decompressControl :: "codecs \<Rightarrow> ArEntry \<Rightarrow> deb_err + string" where
  "decompressControl cs entry =
     (if has_suffix (ar_Name entry) ''.gz''
        then (case c_gzip cs (ar_Data entry) of Inl e \<Rightarrow> Inl (Codec ''gzip'' e) | Inr b \<Rightarrow> Inr b)
      else if has_suffix (ar_Name entry) ''.xz''
        then (case c_xz cs (ar_Data entry) of Inl e \<Rightarrow> Inl (Codec ''xz'' e) | Inr b \<Rightarrow> Inr b)
      else if has_suffix (ar_Name entry) ''.zst''
        then (case c_zstd cs (ar_Data entry) of Inl e \<Rightarrow> Inl (Codec ''zstd'' e) | Inr b \<Rightarrow> Inr b)
      else Inr (ar_Data entry))"

fun find_control :: "tar_member list \<Rightarrow> string option \<Rightarrow> deb_err + string" where
  "find_control [] None = Inl ControlNotFound"
| "find_control [] (Some e) = Inl (TarErr e)"
| "find_control (hdr # tr) end =
     (if trim_prefix (tm_Name hdr) ''./'' = ''control'' \<and> tm_Regular hdr
      then (case tm_Body hdr of Inl e \<Rightarrow> Inl (ControlRead e) | Inr b \<Rightarrow> Inr b)
      else find_control tr end)"

definition extractControlFile :: "tar_reader \<Rightarrow> string \<Rightarrow> deb_err + string" where
  "extractControlFile tar tarBytes = (case tar tarBytes of (ms, end) \<Rightarrow> find_control ms end)"

definition ParseDeb :: "codecs \<Rightarrow> tar_reader \<Rightarrow> reader \<Rightarrow> deb_err + DebInfo" where
  "ParseDeb cs tar r =
     (case ReadAr r of
        Inl e \<Rightarrow> Inl (DebAr e)
      | Inr entries \<Rightarrow>
          (case memberNamed entries ''control.tar'' of
             None \<Rightarrow> Inl NoControlMember
           | Some ctrl \<Rightarrow>
               (case decompressControl cs ctrl of
                  Inl e \<Rightarrow> Inl e
                | Inr tarBytes \<Rightarrow>
                    (case extractControlFile tar tarBytes of
                       Inl e \<Rightarrow> Inl e
                     | Inr controlText \<Rightarrow> Inr (parseControl controlText)))))"

section \<open>Lines and values\<close>

lemma nl_neq [simp]: "nl \<noteq> CHR '':''" "nl \<noteq> CHR '' ''" "CHR '':'' \<noteq> nl" "CHR '' '' \<noteq> nl"
  by code_simp+

lemma plain_not_blank: "c \<in> set s \<Longrightarrow> plain_char c \<Longrightarrow> \<not> blank_line s"
proof -
  assume s: "c \<in> set s" "plain_char c"
  then have "c \<in> set (trim_left_space s)"
    unfolding trim_left_space_def using space_seqs_not_plain by (intro trim_front_keeps) auto
  with s have "c \<in> set (trim_front (map rev space_seqs) (rev (trim_left_space s)))"
    using space_seqs_not_plain by (intro trim_front_keeps) auto
  then show ?thesis by (auto simp: blank_line_def trim_space_def trim_right_space_def)
qed

lemma plain_not_continuation: "plain_char (hd s) \<Longrightarrow> \<not> continuation s"
  by (auto simp: continuation_def plain_char_def)

text \<open>The values a stanza can carry: a trimmed first line, then continuation lines.\<close>

definition cont_line :: "string \<Rightarrow> bool" where
  "cont_line raw \<longleftrightarrow> \<not> blank_line raw \<and> continuation raw \<and> nl \<notin> set raw"

definition value_ok :: "string \<Rightarrow> bool" where
  "value_ok v \<longleftrightarrow> (\<exists>a ls. v = join_char nl (a # ls) \<and> trim_space a = a \<and> nl \<notin> set a \<and> list_all cont_line ls)"

definition key_ok :: "string \<Rightarrow> bool" where
  "key_ok k \<longleftrightarrow> k \<noteq> [] \<and> plain_char (hd k) \<and> plain_char (last k) \<and> CHR '':'' \<notin> set k \<and> nl \<notin> set k"

definition line_ok :: "string \<Rightarrow> bool" where
  "line_ok v \<longleftrightarrow> trim_space v = v \<and> nl \<notin> set v"

lemma line_value: "line_ok v \<Longrightarrow> value_ok v"
  unfolding line_ok_def value_ok_def by (rule exI [of _ v], rule exI [of _ "[]"]) simp

lemma value_extend: "value_ok v \<Longrightarrow> cont_line raw \<Longrightarrow> value_ok (v @ nl # raw)"
proof -
  assume v: "value_ok v" and raw: "cont_line raw"
  then obtain a ls where a: "v = join_char nl (a # ls)" "trim_space a = a" "nl \<notin> set a" "list_all cont_line ls"
    unfolding value_ok_def by blast
  have "join_char nl ((a # ls) @ [raw]) = join_char nl (a # ls) @ nl # raw"
    by (induction ls arbitrary: a) (simp_all add: join_char_Cons)
  with a raw show ?thesis
    unfolding value_ok_def by (intro exI [of _ a] exI [of _ "ls @ [raw]"]) simp
qed

lemma value_Nil: "value_ok []"
  by (rule line_value) (simp add: line_ok_def trim_space_plain)

lemma trim_line: "nl \<notin> set s \<Longrightarrow> line_ok (trim_space s)"
  unfolding line_ok_def using trim_space_idem trim_space_set by blast

lemma rfc_lines_values:
  "(\<And>k v. out k = Some v \<Longrightarrow> value_ok v) \<Longrightarrow> list_all (\<lambda>l. nl \<notin> set l) ls \<Longrightarrow>
   rfc_lines out lk ls k = Some v \<Longrightarrow> value_ok v"
proof (induction out lk ls rule: rfc_lines.induct)
  case (2 out lk raw ls)
  have get: "value_ok (get out j)" for j
    using "2.prems"(1) value_Nil by (auto simp: get_def split: option.splits)
  show ?case
  proof (cases "blank_line raw")
    case True
    with 2 show ?thesis by (auto split: if_splits)
  next
    case nb: False
    show ?thesis
    proof (cases "continuation raw")
      case True
      with nb "2.prems"(2) have "cont_line raw" by (simp add: cont_line_def)
      from value_extend [OF get this] "2.prems" nb True show ?thesis
        by (intro "2.IH"(2) [OF nb True]) (auto split: if_splits)
    next
      case nc: False
      show ?thesis
      proof (cases "index_char CHR '':'' raw")
        case None
        with 2 nb nc show ?thesis by simp
      next
        case (Some idx)
        have "value_ok (trim_space (drop (idx + 1) raw))"
          using "2.prems"(2) by (intro line_value trim_line) (auto dest: in_set_dropD)
        with Some "2.prems" nb nc show ?thesis
          by (intro "2.IH"(4) [OF nb nc Some refl]) (auto simp: Let_def fun_upd_def split: if_splits)
      qed
    qed
  qed
qed simp

lemma parseRFC822_values: "value_ok (get (parseRFC822 t) k)"
proof -
  have "list_all (\<lambda>l. nl \<notin> set l) (split_char nl t)"
    by (auto simp: list_all_iff dest: split_char_no_sep_elem)
  then show ?thesis
    using rfc_lines_values [of Map.empty "split_char nl t" "[]" k] value_Nil
    by (auto simp: get_def parseRFC822_def split: option.splits)
qed

section \<open>Reading a rendered field\<close>

lemma rfc_conts:
  "list_all cont_line ls \<Longrightarrow> k \<noteq> [] \<Longrightarrow> out k = Some v \<Longrightarrow>
   rfc_lines out k (ls @ rest) = rfc_lines (out(k \<mapsto> v @ concat (map (\<lambda>l. nl # l) ls))) k rest"
proof (induction ls arbitrary: out v)
  case (Cons l ls)
  then have "rfc_lines out k ((l # ls) @ rest) = rfc_lines (out(k \<mapsto> v @ nl # l)) k (ls @ rest)"
    by (simp add: cont_line_def get_def)
  also have "\<dots> = rfc_lines (out(k \<mapsto> v @ concat (map (\<lambda>l. nl # l) (l # ls)))) k rest"
    using Cons.IH [of "out(k \<mapsto> v @ nl # l)" "v @ nl # l"] Cons.prems by (simp del: fun_upd_apply add: fun_upd_same)
  finally show ?case .
qed (simp add: map_upd_triv)

lemma join_conts: "join_char nl (a # ls) = a @ concat (map (\<lambda>l. nl # l) ls)"
  by (induction ls arbitrary: a) simp_all

lemma rfc_field:
  assumes k: "key_ok k" and ls: "list_all cont_line ls"
  shows "rfc_lines out lk ((k @ CHR '':'' # a) # ls @ rest) =
    rfc_lines (out(k \<mapsto> join_char nl (trim_space a # ls))) k rest"
proof -
  define raw where "raw = k @ CHR '':'' # a"
  have kk: "k \<noteq> []" "plain_char (hd raw)" "raw \<noteq> []" using k by (auto simp: key_ok_def raw_def)
  have i: "index_char CHR '':'' raw = Some (length k)"
    using k by (simp add: raw_def key_ok_def index_char_append)
  have "trim_space k = k" using k by (simp add: key_ok_def trim_space_plain)
  then have "rfc_lines out lk (raw # ls @ rest) = rfc_lines (out(k \<mapsto> trim_space a)) k (ls @ rest)"
    using kk i plain_not_blank [OF hd_in_set [OF kk(3)] kk(2)] plain_not_continuation [OF kk(2)] by (simp add: raw_def Let_def)
  also have "\<dots> = rfc_lines (out(k \<mapsto> join_char nl (trim_space a # ls))) k rest"
    using rfc_conts [OF ls kk(1), of "out(k \<mapsto> trim_space a)" "trim_space a" rest] by (simp add: join_conts)
  finally show ?thesis by (simp add: raw_def)
qed

text \<open>A field as the index writes it, and what a stanza holds after it was read.\<close>

lemma split_field:
  assumes "value_ok v" "key_ok k"
  obtains a ls where "v = join_char nl (a # ls)" "trim_space a = a" "list_all cont_line ls"
    "split_char nl (k @ '': '' @ v @ nl # rest) = (k @ CHR '':'' # CHR '' '' # a) # ls @ split_char nl rest"
proof -
  from assms obtain a ls where v: "v = join_char nl (a # ls)" "trim_space a = a" "nl \<notin> set a" "list_all cont_line ls"
    unfolding value_ok_def by blast
  have c: "split_char nl (concat (map (\<lambda>l. nl # l) ls) @ nl # rest) = [] # ls @ split_char nl rest"
    using v(4)
  proof (induction ls)
    case (Cons l ls)
    then have "nl \<notin> set l" by (simp add: cont_line_def)
    moreover have "split_char nl (concat (map (\<lambda>l. nl # l) ls) @ nl # rest) = [] # ls @ split_char nl rest"
      using Cons by simp
    moreover have "split_char nl (l @ u) = (l @ hd (split_char nl u)) # tl (split_char nl u)" if "nl \<notin> set l" for l u
      using that by (induction l) (auto split: list.splits)
    ultimately show ?case by simp
  qed simp
  have "split_char nl (h @ u) = (h @ hd (split_char nl u)) # tl (split_char nl u)" if "nl \<notin> set h" for h u
    using that by (induction h) (auto split: list.splits)
  from this [of "k @ CHR '':'' # CHR '' '' # a" "concat (map (\<lambda>l. nl # l) ls) @ nl # rest"]
  have "split_char nl (k @ '': '' @ v @ nl # rest) = (k @ CHR '':'' # CHR '' '' # a) # ls @ split_char nl rest"
    using v(3) assms(2) c by (simp add: v(1) join_conts key_ok_def)
  with v that show ?thesis by blast
qed

lemma rfc_rendered:
  assumes "value_ok v" "key_ok k"
  shows "rfc_lines out lk (split_char nl (k @ '': '' @ v @ nl # rest)) =
    rfc_lines (out(k \<mapsto> v)) k (split_char nl rest)"
proof -
  from assms obtain a ls where v: "v = join_char nl (a # ls)" "trim_space a = a" "list_all cont_line ls"
    "split_char nl (k @ '': '' @ v @ nl # rest) = (k @ CHR '':'' # CHR '' '' # a) # ls @ split_char nl rest"
    by (rule split_field)
  with rfc_field [OF assms(2) v(3), of out lk "CHR '' '' # a" "split_char nl rest"] show ?thesis
    by (simp add: trim_space_blank)
qed

end
