(* ===== verification/Apt_Repo.thy ===== *)
theory Apt_Repo
  imports Apt_Control
begin

text \<open>
  The files of a Debian repository, src/internal/apt/repo.go. The digests and the gzip writer of the
  standard library are fields of \<open>digests\<close>; the date is given in the format of the Release file.

  Shown: a client that reads the package index of a machine finds every package for it, with all
  control fields as in the package, and the Release file lists digest and size of every index.
\<close>

record RepoFile =
  rf_Path :: string
  rf_ContentType :: string
  rf_Content :: string

record PackageEntry =
  pe_info :: DebInfo
  pe_Filename :: string
  pe_Size :: int
  pe_SHA256 :: string

record digests =
  md5Hex :: "string \<Rightarrow> string"
  sha1Hex :: "string \<Rightarrow> string"
  sha256Hex :: "string \<Rightarrow> string"
  gzipBytes :: "string \<Rightarrow> string"

definition orDefault :: "string \<Rightarrow> string \<Rightarrow> string" where
  "orDefault s d = (if s = [] then d else s)"

definition baseName :: "string \<Rightarrow> string" where
  "baseName path = (case last_index_char CHR ''/'' path of Some i \<Rightarrow> drop (i + 1) path | None \<Rightarrow> path)"

fun archs_loop :: "string list \<Rightarrow> PackageEntry list \<Rightarrow> string list" where
  "archs_loop archs [] = archs"
| "archs_loop archs (e # es) =
     (let a = orDefault (di_Architecture (pe_info e)) ''all'' in
      archs_loop (if a \<noteq> ''all'' \<and> a \<notin> set archs then archs @ [a] else archs) es)"

definition archsOf :: "PackageEntry list \<Rightarrow> string list" where
  "archsOf entries = (let archs = archs_loop [] entries in if archs = [] then [''amd64''] else archs)"

definition filterByArch :: "PackageEntry list \<Rightarrow> string \<Rightarrow> PackageEntry list" where
  "filterByArch entries arch =
     filter (\<lambda>e. let a = orDefault (di_Architecture (pe_info e)) ''all'' in a = arch \<or> a = ''all'') entries"

definition render_pair :: "string \<times> string \<Rightarrow> string" where
  "render_pair p = fst p @ '': '' @ snd p @ [nl]"

definition stanza :: "PackageEntry \<Rightarrow> string" where
  "stanza e = concat (map render_pair (controlPairs (pe_info e))) @
     render_pair (''Filename'', pe_Filename e) @
     render_pair (''Size'', format_int (pe_Size e)) @
     (if pe_SHA256 e \<noteq> [] then render_pair (''SHA256'', pe_SHA256 e) @
        ''Checksums-Sha256:'' @ [nl] @ '' '' @ pe_SHA256 e @ '' '' @ format_int (pe_Size e) @ '' '' @
        baseName (pe_Filename e) @ [nl]
      else []) @ [nl]"

definition renderPackages :: "PackageEntry list \<Rightarrow> string" where
  "renderPackages entries = concat (map stanza entries)"

definition renderArchRelease :: "string \<Rightarrow> string \<Rightarrow> string" where
  "renderArchRelease suite arch =
     ''Component: main'' @ [nl] @ ''Origin: MiBeeHive'' @ [nl] @ ''Label: MiBeeHive'' @ [nl] @
     ''Archive: '' @ suite @ [nl] @ ''Architecture: '' @ arch @ [nl]"

text \<open>The verb \<^verbatim>\<open>%8d\<close>.\<close>

definition pad8 :: "nat \<Rightarrow> string" where
  "pad8 n = replicate (8 - length (format_nat n)) CHR '' '' @ format_nat n"

definition sum_line :: "(string \<Rightarrow> string) \<Rightarrow> RepoFile \<Rightarrow> string" where
  "sum_line h f = '' '' @ h (rf_Content f) @ '' '' @ pad8 (length (rf_Content f)) @ '' '' @ rf_Path f"

definition sum_lines :: "(string \<Rightarrow> string) \<Rightarrow> RepoFile list \<Rightarrow> string" where
  "sum_lines h fs = concat (map (\<lambda>f. sum_line h f @ [nl]) fs)"

definition renderSuiteRelease :: "digests \<Rightarrow> string \<Rightarrow> string list \<Rightarrow> RepoFile list \<Rightarrow> string \<Rightarrow> string" where
  "renderSuiteRelease h suite archs indexFiles date =
     render_pair (''Origin'', ''MiBeeHive'') @ render_pair (''Label'', ''MiBeeHive'') @
     render_pair (''Suite'', suite) @ render_pair (''Codename'', suite) @ render_pair (''Date'', date) @
     render_pair (''Architectures'', join_char CHR '' '' archs) @ render_pair (''Components'', ''main'') @
     render_pair (''Description'', ''MiBeeHive ops-tool supply repository'') @
     ''MD5Sum:'' @ [nl] @ sum_lines (md5Hex h) indexFiles @
     ''SHA1:'' @ [nl] @ sum_lines (sha1Hex h) indexFiles @
     ''SHA256:'' @ [nl] @ sum_lines (sha256Hex h) indexFiles"

definition binary_dir :: "string \<Rightarrow> string \<Rightarrow> string" where
  "binary_dir suite arch = ''dists/'' @ suite @ ''/main/binary-'' @ arch"

definition arch_files :: "digests \<Rightarrow> PackageEntry list \<Rightarrow> string \<Rightarrow> string \<Rightarrow> RepoFile list" where
  "arch_files h entries suite arch =
     (let dir = binary_dir suite arch; pkg = renderPackages (filterByArch entries arch) in
      [\<lparr>rf_Path = dir @ ''/Packages'', rf_ContentType = ''text/plain; charset=utf-8'', rf_Content = pkg\<rparr>,
       \<lparr>rf_Path = dir @ ''/Packages.gz'', rf_ContentType = ''application/gzip'', rf_Content = gzipBytes h pkg\<rparr>,
       \<lparr>rf_Path = dir @ ''/Release'', rf_ContentType = ''text/plain; charset=utf-8'',
        rf_Content = renderArchRelease suite arch\<rparr>])"

definition GenerateRepo :: "digests \<Rightarrow> PackageEntry list \<Rightarrow> string \<Rightarrow> string \<Rightarrow> RepoFile list" where
  "GenerateRepo h entries suite0 date =
     (let archs = archsOf entries; suite = orDefault suite0 ''stable'';
          files = concat (map (arch_files h entries suite) archs)
      in files @ [\<lparr>rf_Path = ''dists/'' @ suite @ ''/Release'', rf_ContentType = ''text/plain; charset=utf-8'',
                   rf_Content = renderSuiteRelease h suite archs files date\<rparr>])"

section \<open>Reading the package index\<close>

definition after_pairs :: "(string \<times> string) list \<Rightarrow> (string \<rightharpoonup> string) \<Rightarrow> (string \<rightharpoonup> string)" where
  "after_pairs ps out = fold (\<lambda>(k, v) m. m(k \<mapsto> v)) ps out"

definition last_key :: "(string \<times> string) list \<Rightarrow> string \<Rightarrow> string" where
  "last_key ps lk = fold (\<lambda>(k, v) m. k) ps lk"

lemma rfc_pairs:
  "list_all (\<lambda>(k, v). key_ok k \<and> value_ok v) ps \<Longrightarrow>
   rfc_lines out lk (split_char nl (concat (map render_pair ps) @ rest)) =
   rfc_lines (after_pairs ps out) (last_key ps lk) (split_char nl rest)"
proof (induction ps arbitrary: out lk)
  case (Cons p ps)
  obtain k v where p: "p = (k, v)" by force
  with Cons.prems have k: "key_ok k" "value_ok v" by auto
  have "rfc_lines out lk (split_char nl (concat (map render_pair (p # ps)) @ rest)) =
      rfc_lines (out(k \<mapsto> v)) k (split_char nl (concat (map render_pair ps) @ rest))"
    using rfc_rendered [OF k(2, 1), of out lk "concat (map render_pair ps) @ rest"] by (simp add: p render_pair_def)
  also have "\<dots> = rfc_lines (after_pairs ps (out(k \<mapsto> v))) (last_key ps k) (split_char nl rest)"
    by (rule Cons.IH) (use Cons.prems in simp)
  finally show ?case by (simp add: p after_pairs_def last_key_def fun_upd_def)
qed (simp add: after_pairs_def last_key_def)

lemma after_pairs_get:
  "distinct (map fst ps) \<Longrightarrow> after_pairs ps out k = (case map_of ps k of None \<Rightarrow> out k | Some v \<Rightarrow> Some v)"
proof (induction ps arbitrary: out)
  case (Cons p ps)
  obtain j v where p: "p = (j, v)" by force
  from Cons.IH [of "out(j \<mapsto> v)"] Cons.prems show ?case
    by (auto simp: p after_pairs_def fun_upd_def map_of_eq_None_iff split: option.splits dest: map_of_SomeD
             intro: rev_image_eqI)
qed (simp add: after_pairs_def)

lemma canonical_keys: "list_all key_ok (canonicalOrder @ [''Filename'', ''Size'', ''SHA256'', ''Checksums-Sha256''])"
  by code_simp

lemma canonical_distinct: "distinct (canonicalOrder @ [''Filename'', ''Size'', ''SHA256'', ''Checksums-Sha256''])"
  by code_simp

definition info_ok :: "DebInfo \<Rightarrow> bool" where
  "info_ok d \<longleftrightarrow> list_all (\<lambda>(k, v). value_ok v) (control_map d)"

lemma parseControl_ok: "info_ok (parseControl t)"
  by (simp add: info_ok_def control_map_def parseControl_def Let_def parseRFC822_values)

lemma control_get: "info_ok d \<Longrightarrow> value_ok (get (map_of (control_map d)) k)"
  unfolding info_ok_def get_def
  by (auto simp: list_all_iff value_Nil split: option.splits dest!: map_of_SomeD)

lemma format_int_plain: "c \<in> set (format_int i) \<Longrightarrow> plain_char c"
  by (auto simp: format_int_def plain_char_def [of "CHR ''-''"] dest: format_nat_digits digit_is_plain split: if_splits)

lemma format_int_line: "line_ok (format_int i)"
proof -
  have p: "\<forall>c \<in> set (format_int i). plain_char c" using format_int_plain by blast
  then have "nl \<notin> set (format_int i)" by (auto simp: plain_char_def)
  moreover have "trim_space (format_int i) = format_int i"
    by (intro trim_space_plain) (metis p format_int_not_Nil hd_in_set last_in_set)
  ultimately show ?thesis by (simp add: line_ok_def)
qed


lemma blank_Nil [simp]: "blank_line []"
  by (simp add: blank_line_def trim_space_plain)

lemma rfc_blank: "lk \<noteq> [] \<Longrightarrow> rfc_lines out lk ([] # ls) = out"
  by simp

text \<open>The fields after the control fields, and the stanza as a list of pairs.\<close>

definition stanza_pairs :: "PackageEntry \<Rightarrow> (string \<times> string) list" where
  "stanza_pairs e = controlPairs (pe_info e) @ [(''Filename'', pe_Filename e), (''Size'', format_int (pe_Size e))] @
     (if pe_SHA256 e \<noteq> [] then [(''SHA256'', pe_SHA256 e)] else [])"

definition entry_lines_ok :: "PackageEntry \<Rightarrow> bool" where
  "entry_lines_ok e \<longleftrightarrow> line_ok (pe_Filename e) \<and> line_ok (pe_SHA256 e)"

lemma baseName_set: "set (baseName p) \<subseteq> set p"
  by (auto simp: baseName_def split: option.splits dest: in_set_dropD)

lemma stanza_pairs_ok:
  assumes "info_ok (pe_info e)" "entry_lines_ok e"
  shows "list_all (\<lambda>(k, v). key_ok k \<and> value_ok v) (stanza_pairs e)"
    "distinct (map fst (stanza_pairs e))"
proof -
  have k: "list_all key_ok canonicalOrder" "key_ok ''Filename''" "key_ok ''Size''" "key_ok ''SHA256''"
    using canonical_keys by simp_all
  have "list_all (\<lambda>(k, v). key_ok k \<and> value_ok v) (controlPairs (pe_info e))"
    using k(1) control_get [OF assms(1)] by (auto simp: controlPairs_def Let_def list_all_iff)
  then show "list_all (\<lambda>(k, v). key_ok k \<and> value_ok v) (stanza_pairs e)"
    using k assms(2) format_int_line by (auto simp: stanza_pairs_def entry_lines_ok_def intro!: line_value)
  have "map fst (controlPairs (pe_info e)) = filter (\<lambda>k. get (map_of (control_map (pe_info e))) k \<noteq> []) canonicalOrder"
    by (simp add: controlPairs_def Let_def comp_def)
  then show "distinct (map fst (stanza_pairs e))"
    using canonical_distinct by (auto simp: stanza_pairs_def)
qed

lemma checksum_conts:
  assumes "entry_lines_ok e"
  shows "cont_line ('' '' @ pe_SHA256 e @ '' '' @ format_int (pe_Size e) @ '' '' @ baseName (pe_Filename e))"
proof -
  have "hd (format_int (pe_Size e)) \<in> set (format_int (pe_Size e))" by simp
  moreover from this have "plain_char (hd (format_int (pe_Size e)))" by (rule format_int_plain)
  ultimately have "\<not> blank_line ('' '' @ pe_SHA256 e @ '' '' @ format_int (pe_Size e) @ '' '' @ baseName (pe_Filename e))"
    by (intro plain_not_blank [of "hd (format_int (pe_Size e))"]) auto
  with assms baseName_set [of "pe_Filename e"] format_int_line [of "pe_Size e"] show ?thesis
    by (auto simp: cont_line_def continuation_def entry_lines_ok_def line_ok_def)
qed

lemma parse_stanza:
  assumes "info_ok (pe_info e)" "entry_lines_ok e" "k \<noteq> ''Checksums-Sha256''"
  shows "parseRFC822 (stanza e @ rest) k = map_of (stanza_pairs e) k"
proof -
  note ok = stanza_pairs_ok [OF assms(1, 2)]
  define ck where "ck = ''Checksums-Sha256''"
  have ck: "key_ok ck" "ck \<noteq> []" "nl \<notin> set ck" using canonical_keys by (simp_all add: ck_def key_ok_def)
  define line where "line = '' '' @ pe_SHA256 e @ '' '' @ format_int (pe_Size e) @ '' '' @ baseName (pe_Filename e)"
  have line: "cont_line line" "nl \<notin> set line"
    using checksum_conts [OF assms(2)] by (simp_all add: line_def cont_line_def)
  define m where "m = after_pairs (stanza_pairs e) Map.empty"
  define lk where "lk = last_key (stanza_pairs e) []"
  have lk: "lk \<noteq> []" by (simp add: lk_def last_key_def stanza_pairs_def)
  define extra where "extra = (if pe_SHA256 e \<noteq> [] then ck @ '':'' @ [nl] @ line @ [nl] else [])"
  have "stanza e = concat (map render_pair (stanza_pairs e)) @ extra @ [nl]"
    by (simp add: stanza_def stanza_pairs_def extra_def line_def ck_def)
  then have "parseRFC822 (stanza e @ rest) = rfc_lines m lk (split_char nl (extra @ nl # rest))"
    using rfc_pairs [OF ok(1), of Map.empty "[]" "extra @ nl # rest"] by (simp add: parseRFC822_def m_def lk_def)
  moreover have "rfc_lines m lk (split_char nl (extra @ nl # rest)) k = m k"
  proof (cases "pe_SHA256 e = []")
    case True
    with lk show ?thesis by (simp add: extra_def rfc_blank)
  next
    case False
    have "split_char nl ((ck @ '':'') @ nl # line @ nl # nl # rest) = (ck @ '':'') # line # [] # split_char nl rest"
      using ck line by (simp add: split_char_append_sep [of nl "ck @ '':''", simplified] split_char_append_sep)
    with False have "split_char nl (extra @ nl # rest) = (ck @ '':'' @ []) # [line] @ ([] # split_char nl rest)"
      by (simp add: extra_def)
    then show ?thesis
      using rfc_field [OF ck(1), of "[line]" m lk "[]" "[] # split_char nl rest"] line ck(2) assms(3)
      by (simp add: rfc_blank ck_def)
  qed
  moreover have "m k = map_of (stanza_pairs e) k"
    using after_pairs_get [OF ok(2)] by (simp add: m_def split: option.split)
  ultimately show ?thesis by simp
qed

lemma get_filtered:
  "get (map_of (map (\<lambda>k. (k, f k)) (filter (\<lambda>k. f k \<noteq> []) ks))) k = (if k \<in> set ks then f k else [])"
  by (induction ks) (auto simp: get_def)

lemma get_stanza:
  assumes "k \<in> set canonicalOrder"
  shows "get (map_of (stanza_pairs e)) k = get (map_of (control_map (pe_info e))) k"
proof -
  have "k \<notin> {''Filename'', ''Size'', ''SHA256''}" using assms canonical_distinct by auto
  then have "get (map_of (stanza_pairs e)) k = get (map_of (controlPairs (pe_info e))) k"
    by (auto simp: stanza_pairs_def get_def map_add_def split: option.splits)
  also have "\<dots> = get (map_of (control_map (pe_info e))) k"
    using assms by (simp add: controlPairs_def Let_def get_filtered)
  finally show ?thesis .
qed

lemma parsed_stanza_info:
  assumes "info_ok (pe_info e)" "entry_lines_ok e"
  shows "parseControl (stanza e @ rest) = pe_info e"
proof -
  have g: "get (parseRFC822 (stanza e @ rest)) k = get (map_of (control_map (pe_info e))) k" if "k \<in> set canonicalOrder" for k
  proof -
    have "k \<noteq> ''Checksums-Sha256''" using that canonical_distinct by auto
    with parse_stanza [OF assms] get_stanza [OF that] show ?thesis by (simp add: get_def)
  qed
  show ?thesis
    by (rule DebInfo.equality)
       (simp_all add: parseControl_def Let_def g canonicalOrder_def, simp_all add: get_def control_map_def)
qed

section \<open>The generated files\<close>

definition arch_of :: "PackageEntry \<Rightarrow> string" where
  "arch_of e = orDefault (di_Architecture (pe_info e)) ''all''"

lemma archs_loop_set:
  "set (archs_loop as es) = set as \<union> (arch_of ` set es - {''all''})"
  by (induction as es rule: archs_loop.induct) (auto simp: Let_def arch_of_def)

lemma archs_loop_distinct: "distinct as \<Longrightarrow> distinct (archs_loop as es)"
  by (induction as es rule: archs_loop.induct) (auto simp: Let_def)

lemma archsOf_facts:
  "distinct (archsOf es)" "archsOf es \<noteq> []" "''all'' \<notin> set (archsOf es)"
  "e \<in> set es \<Longrightarrow> arch_of e = ''all'' \<or> arch_of e \<in> set (archsOf es)"
  using archs_loop_set [of "[]" es] archs_loop_distinct [of "[]" es]
  by (auto simp: archsOf_def Let_def)

definition repo_file :: "RepoFile list \<Rightarrow> string \<Rightarrow> RepoFile option" where
  "repo_file files p = List.find (\<lambda>f. rf_Path f = p) files"

lemma find_distinct:
  "distinct (map g xs) \<Longrightarrow> x \<in> set xs \<Longrightarrow> List.find (\<lambda>y. g y = g x) xs = Some x"
  by (induction xs) auto

lemma last_slash_eq:
  "p @ CHR ''/'' # a = q @ CHR ''/'' # b \<Longrightarrow> CHR ''/'' \<notin> set a \<Longrightarrow> CHR ''/'' \<notin> set b \<Longrightarrow> p = q \<and> a = b"
  by (auto simp: append_eq_append_conv2 Cons_eq_append_conv append_eq_Cons_conv)

lemma paths_of_files:
  "map rf_Path (arch_files h es suite a) = map (\<lambda>n. binary_dir suite a @ CHR ''/'' # n) [''Packages'', ''Packages.gz'', ''Release'']"
  by (simp add: arch_files_def Let_def)

lemma index_paths_distinct:
  "distinct as \<Longrightarrow> distinct (map rf_Path (concat (map (arch_files h es suite) as)))"
proof (induction as)
  case (Cons a as)
  have "set (map rf_Path (arch_files h es suite a)) \<inter> set (map rf_Path (arch_files h es suite b)) = {}" if "b \<noteq> a" for b
  proof (rule ccontr)
    assume "\<not> ?thesis"
    then obtain n n' where n: "n \<in> {''Packages'', ''Packages.gz'', ''Release''}" "n' \<in> {''Packages'', ''Packages.gz'', ''Release''}"
      "binary_dir suite a @ CHR ''/'' # n = binary_dir suite b @ CHR ''/'' # n'"
      unfolding paths_of_files by auto
    then have "CHR ''/'' \<notin> set n" "CHR ''/'' \<notin> set n'" by auto
    with n(3) last_slash_eq have "binary_dir suite a = binary_dir suite b" by blast
    with that show False by (simp add: binary_dir_def)
  qed
  moreover have "distinct (map rf_Path (arch_files h es suite a))" unfolding paths_of_files by simp
  ultimately show ?case using Cons by (fastforce simp: disjoint_iff)
qed simp

lemma release_path_new:
  "''dists/'' @ suite @ ''/Release'' \<notin> set (map rf_Path (concat (map (arch_files h es suite) as)))"
proof
  assume "''dists/'' @ suite @ ''/Release'' \<in> set (map rf_Path (concat (map (arch_files h es suite) as)))"
  then obtain a n where n: "n \<in> {''Packages'', ''Packages.gz'', ''Release''}"
    "(''dists/'' @ suite) @ CHR ''/'' # ''Release'' = binary_dir suite a @ CHR ''/'' # n"
    by (fastforce simp: arch_files_def Let_def)
  then have "CHR ''/'' \<notin> set n" "CHR ''/'' \<notin> set ''Release''" by auto
  with n(2) last_slash_eq have "''dists/'' @ suite = binary_dir suite a" by blast
  then show False by (simp add: binary_dir_def)
qed

lemma GenerateRepo_distinct: "distinct (map rf_Path (GenerateRepo h es suite date))"
  using index_paths_distinct [OF archsOf_facts(1), of h es] release_path_new [of "orDefault suite ''stable''" h es "archsOf es"]
  by (simp add: GenerateRepo_def Let_def)

lemma GenerateRepo_index:
  assumes "a \<in> set (archsOf es)"
  shows "map_option rf_Content (repo_file (GenerateRepo h es suite date) (binary_dir (orDefault suite ''stable'') a @ ''/Packages'')) =
    Some (renderPackages (filterByArch es a))"
proof -
  define f where "f = \<lparr>rf_Path = binary_dir (orDefault suite ''stable'') a @ ''/Packages'',
    rf_ContentType = ''text/plain; charset=utf-8'', rf_Content = renderPackages (filterByArch es a)\<rparr>"
  have "f \<in> set (GenerateRepo h es suite date)"
    using assms by (auto simp: GenerateRepo_def Let_def arch_files_def f_def)
  from find_distinct [OF GenerateRepo_distinct this] show ?thesis by (simp add: repo_file_def f_def)
qed

lemma filterByArch_iff:
  "set (filterByArch es a) = {e \<in> set es. arch_of e = a \<or> arch_of e = ''all''}"
  by (auto simp: filterByArch_def Let_def arch_of_def)

section \<open>Reading the Release file\<close>

lemma rfc_line:
  assumes "key_ok k" "nl \<notin> set v"
  shows "rfc_lines out lk (split_char nl (render_pair (k, v) @ rest)) = rfc_lines (out(k \<mapsto> trim_space v)) k (split_char nl rest)"
proof -
  have "nl \<notin> set (k @ CHR '':'' # CHR '' '' # v)" using assms by (auto simp: key_ok_def)
  from split_char_append_sep [OF this, of rest]
  have "split_char nl (render_pair (k, v) @ rest) = (k @ CHR '':'' # CHR '' '' # v) # [] @ split_char nl rest"
    by (simp add: render_pair_def)
  then show ?thesis
    using rfc_field [OF assms(1), of "[]" out lk "CHR '' '' # v" "split_char nl rest"] by (simp add: trim_space_blank)
qed

definition sums_of :: "(string \<Rightarrow> string) \<Rightarrow> RepoFile list \<Rightarrow> string" where
  "sums_of h fs = concat (map (\<lambda>f. nl # sum_line h f) fs)"

lemma sum_cont:
  assumes "nl \<notin> set (h (rf_Content f))" "nl \<notin> set (rf_Path f)"
  shows "cont_line (sum_line h f)"
proof -
  define n where "n = format_nat (length (rf_Content f))"
  have p: "plain_char c" if "c \<in> set n" for c using that format_nat_digits digit_is_plain unfolding n_def by blast
  have "hd n \<in> set n" by (simp add: n_def)
  then have "\<not> blank_line (sum_line h f)"
    using p by (intro plain_not_blank [of "hd n"]) (auto simp: sum_line_def pad8_def n_def)
  moreover have "nl \<notin> set n" using p [of nl] by (auto simp: plain_char_def)
  ultimately show ?thesis
    using assms by (auto simp: cont_line_def continuation_def sum_line_def pad8_def n_def)
qed

lemma rfc_sums:
  assumes k: "key_ok k" and fs: "list_all (\<lambda>f. nl \<notin> set (h (rf_Content f)) \<and> nl \<notin> set (rf_Path f)) fs"
  shows "rfc_lines out lk (split_char nl (k @ '':'' @ [nl] @ sum_lines h fs @ rest)) =
    rfc_lines (out(k \<mapsto> sums_of h fs)) k (split_char nl rest)"
proof -
  have c: "list_all cont_line (map (sum_line h) fs)"
    using fs sum_cont by (induction fs) auto
  then have l: "split_char nl (sum_lines h fs @ rest) = map (sum_line h) fs @ split_char nl rest"
    by (induction fs) (simp_all add: sum_lines_def cont_line_def split_char_append_sep)
  have "nl \<notin> set (k @ '':'')" using k by (simp add: key_ok_def)
  from split_char_append_sep [OF this, of "sum_lines h fs @ rest"] l
  have s: "split_char nl (k @ '':'' @ [nl] @ sum_lines h fs @ rest) = (k @ CHR '':'' # []) # map (sum_line h) fs @ split_char nl rest"
    by simp
  have "trim_space [] = []" by (simp add: trim_space_plain)
  then have "join_char nl (trim_space [] # map (sum_line h) fs) = sums_of h fs"
    by (simp add: join_conts sums_of_def comp_def)
  with rfc_field [OF k c, of out lk "[]" "split_char nl rest"] s show ?thesis by simp
qed

lemma join_char_no: "c \<noteq> d \<Longrightarrow> list_all (\<lambda>w. d \<notin> set w) ws \<Longrightarrow> d \<notin> set (join_char c ws)"
  by (induction c ws rule: join_char.induct) auto

lemma release_keys:
  "list_all key_ok [''Origin'', ''Label'', ''Suite'', ''Codename'', ''Date'', ''Architectures'', ''Components'',
     ''Description'', ''MD5Sum'', ''SHA1'', ''SHA256'']"
  by code_simp

definition hex_digests :: "digests \<Rightarrow> bool" where
  "hex_digests h \<longleftrightarrow> (\<forall>b. nl \<notin> set (md5Hex h b) \<and> nl \<notin> set (sha1Hex h b) \<and> nl \<notin> set (sha256Hex h b))"

lemma parse_release:
  assumes h: "hex_digests h" and fs: "list_all (\<lambda>f. nl \<notin> set (rf_Path f)) fs"
    and n: "nl \<notin> set suite" "nl \<notin> set date" "list_all (\<lambda>a. nl \<notin> set a) archs"
  shows "\<exists>m. parseRFC822 (renderSuiteRelease h suite archs fs date) =
    m(''MD5Sum'' \<mapsto> sums_of (md5Hex h) fs, ''SHA1'' \<mapsto> sums_of (sha1Hex h) fs, ''SHA256'' \<mapsto> sums_of (sha256Hex h) fs)"
proof -
  have a: "nl \<notin> set (join_char CHR '' '' archs)" using n(3) by (intro join_char_no) simp_all
  have f: "list_all (\<lambda>f. nl \<notin> set (g (rf_Content f)) \<and> nl \<notin> set (rf_Path f)) fs"
    if "g \<in> {md5Hex h, sha1Hex h, sha256Hex h}" for g
    using that h fs by (auto simp: hex_digests_def list_all_iff)
  have lit: "nl \<notin> set ''MiBeeHive''" "nl \<notin> set ''main''" "nl \<notin> set ''MiBeeHive ops-tool supply repository''" by code_simp+
  have k: "key_ok ''Origin''" "key_ok ''Label''" "key_ok ''Suite''" "key_ok ''Codename''" "key_ok ''Date''"
    "key_ok ''Architectures''" "key_ok ''Components''" "key_ok ''Description''"
    "key_ok ''MD5Sum''" "key_ok ''SHA1''" "key_ok ''SHA256''" using release_keys by simp_all
  define tail where "tail = ''MD5Sum'' @ '':'' @ [nl] @ sum_lines (md5Hex h) fs @
     ''SHA1'' @ '':'' @ [nl] @ sum_lines (sha1Hex h) fs @
     ''SHA256'' @ '':'' @ [nl] @ sum_lines (sha256Hex h) fs @ []"
  have t: "rfc_lines m lk (split_char nl tail) =
    m(''MD5Sum'' \<mapsto> sums_of (md5Hex h) fs, ''SHA1'' \<mapsto> sums_of (sha1Hex h) fs, ''SHA256'' \<mapsto> sums_of (sha256Hex h) fs)" for m lk
    unfolding tail_def rfc_sums [OF k(9) f [of "md5Hex h", simplified]] rfc_sums [OF k(10) f [of "sha1Hex h", simplified]]
      rfc_sums [OF k(11) f [of "sha256Hex h", simplified]] by (simp add: fun_upd_def)
  have "renderSuiteRelease h suite archs fs date =
     render_pair (''Origin'', ''MiBeeHive'') @ render_pair (''Label'', ''MiBeeHive'') @
     render_pair (''Suite'', suite) @ render_pair (''Codename'', suite) @ render_pair (''Date'', date) @
     render_pair (''Architectures'', join_char CHR '' '' archs) @ render_pair (''Components'', ''main'') @
     render_pair (''Description'', ''MiBeeHive ops-tool supply repository'') @ tail"
    by (simp add: renderSuiteRelease_def tail_def)
  then show ?thesis
    unfolding parseRFC822_def by (simp only: rfc_line [OF k(1) lit(1)] rfc_line [OF k(2) lit(1)] rfc_line [OF k(3) n(1)]
      rfc_line [OF k(4) n(1)] rfc_line [OF k(5) n(2)] rfc_line [OF k(6) a] rfc_line [OF k(7) lit(2)] rfc_line [OF k(8) lit(3)] t) blast
qed

lemma index_paths_plain:
  assumes "nl \<notin> set suite" "list_all (\<lambda>a. nl \<notin> set a) as"
  shows "list_all (\<lambda>f. nl \<notin> set (rf_Path f)) (concat (map (arch_files h es suite) as))"
proof -
  have "nl \<notin> set ''dists/''" "nl \<notin> set ''/main/binary-''" "nl \<notin> set ''/Packages''" "nl \<notin> set ''/Packages.gz''"
    "nl \<notin> set ''/Release''" by code_simp+
  then show ?thesis
    using assms by (induction as) (simp_all add: arch_files_def Let_def binary_dir_def)
qed

section \<open>Properties\<close>

text \<open>C25: A client that reads a stanza of the package index with the rules for control files gets back
  all control fields of the package, continuation lines included, and its pool file name, size and
  checksum, wherever the stanza stands in the index. The control fields may be any that were parsed
  from a package; file name and checksum are single lines without surrounding space.\<close>

theorem Packages_roundtrip:
  assumes "pe_info e = parseControl t" "entry_lines_ok e"
  shows "renderPackages (es @ e # fs) = renderPackages es @ renderPackages (e # fs) \<and>
     parseControl (renderPackages (e # fs)) = pe_info e \<and>
     parseRFC822 (renderPackages (e # fs)) ''Filename'' = Some (pe_Filename e) \<and>
     parseRFC822 (renderPackages (e # fs)) ''Size'' = Some (format_int (pe_Size e)) \<and>
     parseRFC822 (renderPackages (e # fs)) ''SHA256'' = (if pe_SHA256 e = [] then None else Some (pe_SHA256 e))"
proof -
  have i: "info_ok (pe_info e)" using assms(1) parseControl_ok by simp
  have r: "renderPackages (e # fs) = stanza e @ renderPackages fs" by (simp add: renderPackages_def)
  have c: "map_of (controlPairs (pe_info e)) k = None" if "k \<notin> set canonicalOrder" for k
    using that by (auto simp: controlPairs_def Let_def map_of_eq_None_iff)
  have k: "''Filename'' \<notin> set canonicalOrder" "''Size'' \<notin> set canonicalOrder" "''SHA256'' \<notin> set canonicalOrder"
    using canonical_distinct by simp_all
  show ?thesis
    using parsed_stanza_info [OF i assms(2)] parse_stanza [OF i assms(2)] c [OF k(1)] c [OF k(2)] c [OF k(3)]
    by (simp add: r stanza_pairs_def map_add_def) (simp add: renderPackages_def)
qed

definition demo_info :: DebInfo where
  "demo_info = \<lparr>di_Package = ''libfoo'', di_Version = ''1.2'', di_Architecture = ''amd64'', di_Maintainer = [],
     di_InstalledSize = [], di_Description = ''tool'' @ nl # '' extended'', di_Depends = [], di_PreDepends = [],
     di_Recommends = [], di_Suggests = [], di_Conflicts = [], di_Breaks = [], di_Replaces = [], di_Provides = [],
     di_Section = [], di_Priority = [], di_Homepage = []\<rparr>"

definition demo_entry :: PackageEntry where
  "demo_entry = \<lparr>pe_info = demo_info, pe_Filename = ''pool/main/libf/libfoo/libfoo_1.2.deb'',
     pe_Size = 1234, pe_SHA256 = ''abc123''\<rparr>"

lemma plain_line: "v \<noteq> [] \<Longrightarrow> list_all plain_char v \<Longrightarrow> line_ok v"
proof -
  assume v: "v \<noteq> []" "list_all plain_char v"
  then have "plain_char (hd v)" "plain_char (last v)" by (auto simp: list_all_iff)
  moreover have "nl \<notin> set v" using v by (auto simp: list_all_iff plain_char_def)
  ultimately show ?thesis by (simp add: line_ok_def trim_space_plain)
qed

lemma demo_entry_ok: "entry_lines_ok demo_entry" "info_ok demo_info"
proof -
  show "entry_lines_ok demo_entry"
    unfolding entry_lines_ok_def demo_entry_def PackageEntry.simps
    by (intro conjI plain_line) (simp_all add: plain_char_def)
  have "cont_line '' extended''"
    using plain_not_blank [of "CHR ''x''" "'' extended''"] by (simp add: cont_line_def continuation_def plain_char_def) code_simp
  moreover have "line_ok w" if "w \<in> {''libfoo'', ''1.2'', ''amd64'', ''tool''}" for w
    using that by (auto simp: plain_char_def intro: plain_line)
  ultimately show "info_ok demo_info"
    using value_extend [of "''tool''" "'' extended''"]
    by (simp add: info_ok_def control_map_def demo_info_def value_Nil line_value)
qed

theorem Packages_roundtrip_witness:
  "parseControl (renderPackages [demo_entry]) = demo_info \<and>
   parseRFC822 (renderPackages [demo_entry]) ''Size'' = Some ''1234''"
proof -
  have "format_int 1234 = ''1234''" by code_simp
  moreover have i: "pe_info demo_entry = demo_info" "pe_Size demo_entry = 1234" by (simp_all add: demo_entry_def)
  moreover have "parseControl (stanza demo_entry @ []) = pe_info demo_entry"
    using demo_entry_ok by (intro parsed_stanza_info) (simp_all add: i)
  ultimately show ?thesis
    using Packages_roundtrip [of demo_entry "stanza demo_entry @ []" "[]" "[]"] demo_entry_ok(1) by auto
qed

text \<open>The generated repository has an index for every machine named by a package, at a path of its
  own; the index of a machine lists exactly the packages for it and those for all machines, and every
  package is in some index, also when no package names a machine.\<close>

theorem GenerateRepo_complete:
  "distinct (map rf_Path (GenerateRepo h es suite date)) \<and>
   list_all (\<lambda>a. map_option rf_Content (repo_file (GenerateRepo h es suite date)
        (binary_dir (orDefault suite ''stable'') a @ ''/Packages'')) = Some (renderPackages (filterByArch es a)) \<and>
      set (filterByArch es a) = {e \<in> set es. arch_of e = a \<or> arch_of e = ''all''}) (archsOf es) \<and>
   list_all (\<lambda>e. list_ex (\<lambda>a. e \<in> set (filterByArch es a)) (archsOf es)) es"
proof (intro conjI)
  show "list_all (\<lambda>e. list_ex (\<lambda>a. e \<in> set (filterByArch es a)) (archsOf es)) es"
    using archsOf_facts(4) archsOf_facts(2) [of es]
    by (fastforce simp: list_all_iff list_ex_iff filterByArch_iff neq_Nil_conv)
qed (simp_all add: GenerateRepo_distinct list_all_iff GenerateRepo_index filterByArch_iff del: map_option_eq_Some)

text \<open>The Release file of a suite, read with the rules for control files, lists for each of its
  three digests one line per index file, with the digest of the content served, its length and its
  path. Suite, date and machine names are free of line breaks.\<close>

theorem Release_lists_indexes:
  assumes "hex_digests h" "nl \<notin> set suite" "nl \<notin> set date" "list_all (\<lambda>a. nl \<notin> set a) (archsOf es)"
  shows "case rev (GenerateRepo h es suite date) of [] \<Rightarrow> False | release # idx \<Rightarrow>
    rf_Path release = ''dists/'' @ orDefault suite ''stable'' @ ''/Release'' \<and> length idx = 3 * length (archsOf es) \<and>
    parseRFC822 (rf_Content release) ''MD5Sum'' = Some (sums_of (md5Hex h) (rev idx)) \<and>
    parseRFC822 (rf_Content release) ''SHA1'' = Some (sums_of (sha1Hex h) (rev idx)) \<and>
    parseRFC822 (rf_Content release) ''SHA256'' = Some (sums_of (sha256Hex h) (rev idx))"
proof -
  define s where "s = orDefault suite ''stable''"
  define fs where "fs = concat (map (arch_files h es s) (archsOf es))"
  have "nl \<notin> set ''stable''" by code_simp
  with assms(2) have s: "nl \<notin> set s" by (simp add: s_def orDefault_def)
  have "list_all (\<lambda>f. nl \<notin> set (rf_Path f)) fs" unfolding fs_def by (rule index_paths_plain [OF s assms(4)])
  from parse_release [OF assms(1) this s assms(3, 4)] obtain m where
    m: "parseRFC822 (renderSuiteRelease h s (archsOf es) fs date) =
      m(''MD5Sum'' \<mapsto> sums_of (md5Hex h) fs, ''SHA1'' \<mapsto> sums_of (sha1Hex h) fs, ''SHA256'' \<mapsto> sums_of (sha256Hex h) fs)" by blast
  have "length fs = 3 * length (archsOf es)"
    unfolding fs_def by (induction "archsOf es") (simp_all add: arch_files_def Let_def length_concat comp_def sum_list_triv)
  then show ?thesis
    by (simp add: GenerateRepo_def Let_def s_def [symmetric] fs_def [symmetric] m)
qed

definition demo_digests :: digests where
  "demo_digests = \<lparr>md5Hex = (\<lambda>b. ''00''), sha1Hex = (\<lambda>b. format_nat (length b)), sha256Hex = (\<lambda>b. ''ff''), gzipBytes = id\<rparr>"

theorem Release_lists_indexes_witness:
  "case rev (GenerateRepo demo_digests [demo_entry] [] ''today'') of [] \<Rightarrow> False | release # idx \<Rightarrow>
    rf_Path release = ''dists/stable/Release'' \<and> length idx = 3 \<and>
    parseRFC822 (rf_Content release) ''SHA1'' = Some (sums_of (sha1Hex demo_digests) (rev idx))"
proof -
  have "nl \<notin> set (format_nat n)" for n
    using format_nat_digits [of nl n] by (auto simp: is_digit_def)
  moreover have "nl \<notin> set ''00''" "nl \<notin> set ''ff''" by code_simp+
  ultimately have "hex_digests demo_digests" by (simp add: hex_digests_def demo_digests_def)
  moreover have "nl \<notin> set ([] :: string)" "nl \<notin> set ''today''" "nl \<notin> set ''amd64''" by code_simp+
  moreover have "archsOf [demo_entry] = [''amd64'']"
    by (simp add: archsOf_def demo_entry_def demo_info_def orDefault_def)
  ultimately show ?thesis
    using Release_lists_indexes [of demo_digests "[]" "''today''" "[demo_entry]"]
    by (auto simp: orDefault_def split: list.splits)
qed

end
