(* ===== verification/Apt_Handler.thy ===== *)
theory Apt_Handler
  imports Apt_Repo File_Repo Go_Http
begin

text \<open>
  The public Debian repository, src/internal/supply/apt.go, and the streaming of stored files it
  uses (FileService.StreamFile in src/internal/service/file\_service.go). A request sees an
  environment: the database, what os.Stat and os.Open answer, the time. The handler keeps a cache of
  the generated files with the signature they were built from, and a memo of parsed packages.

  Shown: whatever requests came before, the index served is the one a handler without cache and memo
  would build, provided that a modification time identifies the contents of a file; and the pool path
  in the index leads to the bytes of the package.
\<close>

section \<open>Answers\<close>

definition http_NotFound :: "rw_call list" where
  "http_NotFound = http_Error ''404 page not found'' 404"

text \<open>middleware.WriteError; \<open>enc\<close> is the JSON encoder applied to the error response.\<close>

definition WriteError :: "(string \<Rightarrow> string \<Rightarrow> string) \<Rightarrow> int \<Rightarrow> string \<Rightarrow> string \<Rightarrow> rw_call list" where
  "WriteError enc status code userMsg =
     [SetHeader ''Content-Type'' ''application/json'', WriteHeader status, Write (enc code userMsg)]"

section \<open>The environment and the state\<close>

record apt_conf =
  cf_codecs :: codecs
  cf_tar :: tar_reader
  cf_digests :: digests
  cf_json :: "string \<Rightarrow> string \<Rightarrow> string"
  cf_suite :: string

record apt_env =
  en_db :: database
  en_stat :: "string \<Rightarrow> (int \<times> int) option"
  en_open :: "string \<Rightarrow> reader option"
  en_now :: int
  en_date :: string

record aptCache =
  ac_files :: "RepoFile list"
  ac_built :: int
  ac_sig :: string

record debMemoEntry =
  me_info :: DebInfo
  me_parseC :: nat

type_synonym debMemo = "(string \<times> debMemoEntry) list"

record aptHandler =
  ah_cache :: "aptCache option"
  ah_debMemo :: debMemo

definition NewAptHandler :: aptHandler where
  "NewAptHandler = \<lparr>ah_cache = None, ah_debMemo = []\<rparr>"

definition handler_suite :: "string \<Rightarrow> string" where
  "handler_suite suite = (if suite = [] then ''stable'' else suite)"

section \<open>The memo of parsed packages\<close>

definition debMemoKey :: "string \<Rightarrow> int \<Rightarrow> int \<Rightarrow> string" where
  "debMemoKey path mtime sz = path @ ''|'' @ format_int mtime @ ''|'' @ format_int sz"

definition pathFromKey :: "string \<Rightarrow> string" where
  "pathFromKey key =
     (case last_index_char CHR ''|'' key of
        None \<Rightarrow> key
      | Some i \<Rightarrow>
          if i = 0 then key
          else let key1 = take i key in
            (case last_index_char CHR ''|'' key1 of
               None \<Rightarrow> key1
             | Some j \<Rightarrow> if j = 0 then key1 else take j key1))"

datatype memo_err = StatErr | OpenErr | DebErr deb_err

definition memo_parse :: "apt_conf \<Rightarrow> apt_env \<Rightarrow> string \<Rightarrow> debMemo \<Rightarrow> debMemo \<times> (memo_err + DebInfo)" where
  "memo_parse cf env localPath m =
     (case en_stat env localPath of
        None \<Rightarrow> (m, Inl StatErr)
      | Some (mtime, sz) \<Rightarrow>
          let key = debMemoKey localPath mtime sz in
          (case map_of m key of
             Some e \<Rightarrow> (m, Inr (me_info e))
           | None \<Rightarrow>
               (case en_open env localPath of
                  None \<Rightarrow> (m, Inl OpenErr)
                | Some f \<Rightarrow>
                    (case ParseDeb (cf_codecs cf) (cf_tar cf) f of
                       Inl e \<Rightarrow> (m, Inl (DebErr e))
                     | Inr info \<Rightarrow>
                         (filter (\<lambda>(k, e). pathFromKey k \<noteq> localPath) m @
                            [(key, \<lparr>me_info = info, me_parseC = 1\<rparr>)], Inr info)))))"

section \<open>Signatures and pool paths\<close>

definition sig_part :: "int \<Rightarrow> int \<Rightarrow> int \<Rightarrow> string \<Rightarrow> string" where
  "sig_part i mtime sz name = format_int i @ ''|'' @ format_int mtime @ ''|'' @ format_int sz @ ''|'' @ name @ '';''"

fun debSignature :: "apt_env \<Rightarrow> file_row list \<Rightarrow> string + string" where
  "debSignature env [] = Inr []"
| "debSignature env (f # fs) =
     (if f_ext f \<noteq> ''deb'' then debSignature env fs
      else (case en_stat env (f_local_path f) of
          None \<Rightarrow> Inl (f_local_path f)
        | Some (mtime, sz) \<Rightarrow>
            (case debSignature env fs of
               Inl e \<Rightarrow> Inl e
             | Inr b \<Rightarrow> Inr (sig_part (f_id f) mtime (f_size_bytes f) (f_filename f) @ b))))"

definition debSignatureNoMtime :: "file_row list \<Rightarrow> string" where
  "debSignatureNoMtime fs = concat (map (\<lambda>f. format_int (f_id f) @ ''|'' @ format_int (f_size_bytes f) @ ''|'' @ f_filename f @ '';'')
     (filter (\<lambda>f. f_ext f = ''deb'') fs))"

text \<open>\<^verbatim>\<open>string(b)\<close> of a byte b: the code point b in UTF-8.\<close>

definition byte_string :: "char \<Rightarrow> string" where
  "byte_string c = (let n = of_char c :: nat in
     if n < 128 then [c] else [char_of (192 + n div 64), char_of (128 + n mod 64)])"

definition poolPathFor :: "DebInfo \<Rightarrow> string \<Rightarrow> string" where
  "poolPathFor info filename =
     (let pkg = di_Package info;
          first = (if pkg = [] then ''x''
                   else if has_prefix pkg ''lib'' \<and> length pkg > 3 then take 4 pkg
                   else byte_string (hd pkg))
      in ''pool/main/'' @ first @ ''/'' @ pkg @ ''/'' @ filename)"

section \<open>The handler\<close>

definition package_entry :: "file_row \<Rightarrow> DebInfo \<Rightarrow> PackageEntry" where
  "package_entry f info = \<lparr>pe_info = info, pe_Filename = poolPathFor info (f_filename f),
     pe_Size = f_size_bytes f, pe_SHA256 = f_checksum f\<rparr>"

fun deb_entries :: "apt_conf \<Rightarrow> apt_env \<Rightarrow> file_row list \<Rightarrow> debMemo \<Rightarrow> debMemo \<times> PackageEntry list" where
  "deb_entries cf env [] m = (m, [])"
| "deb_entries cf env (f # fs) m =
     (if f_ext f \<noteq> ''deb'' then deb_entries cf env fs m
      else (case memo_parse cf env (f_local_path f) m of
          (m1, Inl e) \<Rightarrow> deb_entries cf env fs m1
        | (m1, Inr info) \<Rightarrow>
            (case deb_entries cf env fs m1 of (m2, es) \<Rightarrow> (m2, package_entry f info # es))))"

text \<open>The part of repoFiles under the write lock, which looks at the cache again.\<close>

definition rebuild :: "apt_conf \<Rightarrow> apt_env \<Rightarrow> file_row list \<Rightarrow> string \<Rightarrow> aptHandler \<Rightarrow> aptHandler \<times> RepoFile list" where
  "rebuild cf env debs sig s =
     (case ah_cache s of
        Some c \<Rightarrow> if ac_sig c = sig then (s, ac_files c)
                  else (case deb_entries cf env debs (ah_debMemo s) of (m, es) \<Rightarrow>
                    let files = GenerateRepo (cf_digests cf) es (cf_suite cf) (en_date env) in
                    (\<lparr>ah_cache = Some \<lparr>ac_files = files, ac_built = en_now env, ac_sig = sig\<rparr>, ah_debMemo = m\<rparr>, files))
      | None \<Rightarrow> (case deb_entries cf env debs (ah_debMemo s) of (m, es) \<Rightarrow>
                    let files = GenerateRepo (cf_digests cf) es (cf_suite cf) (en_date env) in
                    (\<lparr>ah_cache = Some \<lparr>ac_files = files, ac_built = en_now env, ac_sig = sig\<rparr>, ah_debMemo = m\<rparr>, files)))"

definition repoFiles :: "apt_conf \<Rightarrow> apt_env \<Rightarrow> aptHandler \<Rightarrow> aptHandler \<times> (sql_err + RepoFile list)" where
  "repoFiles cf env s =
     (case file_ListComplete 0 (en_db env) of
        Inl e \<Rightarrow> (s, Inl e)
      | Inr debs \<Rightarrow>
          let sig = (case debSignature env debs of Inl e \<Rightarrow> debSignatureNoMtime debs | Inr sig \<Rightarrow> sig) in
          (case ah_cache s of
             Some c \<Rightarrow> if ac_sig c = sig then (s, Inr (ac_files c))
                       else apsnd Inr (rebuild cf env debs sig s)
           | None \<Rightarrow> apsnd Inr (rebuild cf env debs sig s)))"

text \<open>FileService.StreamFile; its error is ignored by the callers here.\<close>

definition StreamFile :: "apt_env \<Rightarrow> file_row \<Rightarrow> rw_call list" where
  "StreamFile env f =
     (case en_open env (f_local_path f) of
        None \<Rightarrow> []
      | Some r \<Rightarrow>
          (case en_stat env (f_local_path f) of
             None \<Rightarrow> []
           | Some (mtime, sz) \<Rightarrow>
               [SetHeader ''Content-Type'' ''application/octet-stream'', SetHeader ''Content-Length'' (format_int sz),
                SetHeader ''Content-Disposition'' (''attachment; filename=\"'' @ f_filename f @ ''\"''), Write (fst r)]))"

definition servePool :: "apt_conf \<Rightarrow> apt_env \<Rightarrow> string \<Rightarrow> rw_call list" where
  "servePool cf env poolPath =
     (case file_ListComplete 0 (en_db env) of
        Inl e \<Rightarrow> WriteError (cf_json cf) 500 ''INTERNAL_ERROR'' ''list deb files''
      | Inr files \<Rightarrow>
          (case List.find (\<lambda>f. f_ext f = ''deb'' \<and> f_filename f = path_base poolPath) files of
             Some f \<Rightarrow> StreamFile env f
           | None \<Rightarrow> http_NotFound))"

definition apt_Serve :: "apt_conf \<Rightarrow> apt_env \<Rightarrow> string \<Rightarrow> aptHandler \<Rightarrow> aptHandler \<times> rw_call list" where
  "apt_Serve cf env rest s =
     (if rest = [] then (s, http_NotFound)
      else if has_prefix rest ''pool/'' then (s, servePool cf env (trim_prefix rest ''pool/''))
      else (case repoFiles cf env s of
          (s1, Inl e) \<Rightarrow> (s1, WriteError (cf_json cf) 500 ''INTERNAL_ERROR'' ''build apt repo'')
        | (s1, Inr files) \<Rightarrow>
            (case List.find (\<lambda>f. rf_Path f = rest) files of
               Some f \<Rightarrow> (s1, [SetHeader ''Content-Type'' (rf_ContentType f), Write (rf_Content f)])
             | None \<Rightarrow> (s1, http_NotFound))))"

section \<open>Keys and signatures are exact\<close>

lemma format_int_no_bar [simp]: "CHR ''|'' \<notin> set (format_int i)" "CHR '';'' \<notin> set (format_int i)"
  by (auto simp: format_int_def dest!: format_nat_digits) (auto simp: is_digit_def)

lemma bar_split:
  assumes "a @ CHR ''|'' # b = c @ CHR ''|'' # d" "CHR ''|'' \<notin> set a" "CHR ''|'' \<notin> set c"
  shows "a = c \<and> b = d"
  using assms by (auto simp: append_eq_append_conv2 Cons_eq_append_conv append_eq_Cons_conv)

lemma bar_split_last:
  assumes "a @ CHR ''|'' # b = c @ CHR ''|'' # d" "CHR ''|'' \<notin> set b" "CHR ''|'' \<notin> set d"
  shows "a = c \<and> b = d"
  using assms by (auto simp: append_eq_append_conv2 Cons_eq_append_conv append_eq_Cons_conv)

lemma debMemoKey_inj:
  assumes "debMemoKey p m z = debMemoKey q n y"
  shows "p = q \<and> m = n \<and> z = y"
proof -
  from assms have "(p @ ''|'' @ format_int m) @ CHR ''|'' # format_int z = (q @ ''|'' @ format_int n) @ CHR ''|'' # format_int y"
    by (simp add: debMemoKey_def)
  from bar_split_last [OF this] have z: "format_int z = format_int y"
    "p @ CHR ''|'' # format_int m = q @ CHR ''|'' # format_int n" by simp_all
  from bar_split_last [OF z(2)] have "p = q" "format_int m = format_int n" by simp_all
  with z format_int_inj show ?thesis by blast
qed

lemma pathFromKey_key: "p \<noteq> [] \<Longrightarrow> pathFromKey (debMemoKey p m z) = p"
proof -
  assume p: "p \<noteq> []"
  have k: "debMemoKey p m z = (p @ CHR ''|'' # format_int m) @ CHR ''|'' # format_int z" by (simp add: debMemoKey_def)
  have "last_index_char CHR ''|'' (debMemoKey p m z) = Some (length (p @ CHR ''|'' # format_int m))"
    unfolding k by (rule last_index_char_append) simp
  moreover have "last_index_char CHR ''|'' (p @ CHR ''|'' # format_int m) = Some (length p)"
    by (rule last_index_char_append) simp
  moreover have "take (length (p @ CHR ''|'' # format_int m)) (debMemoKey p m z) = p @ CHR ''|'' # format_int m"
    unfolding k by simp
  ultimately show ?thesis using p by (simp add: pathFromKey_def Let_def)
qed

text \<open>What a signature with times is made of.\<close>

type_synonym sig_item = "int \<times> int \<times> int \<times> string"

definition sig_of :: "sig_item list \<Rightarrow> string" where
  "sig_of is = concat (map (\<lambda>(i, m, z, n). sig_part i m z n) is)"

definition name_ok :: "string \<Rightarrow> bool" where
  "name_ok n \<longleftrightarrow> CHR ''|'' \<notin> set n \<and> CHR '';'' \<notin> set n"

lemma semi_split:
  assumes "a @ CHR '';'' # b = c @ CHR '';'' # d" "CHR '';'' \<notin> set a" "CHR '';'' \<notin> set c"
  shows "a = c \<and> b = d"
  using assms by (auto simp: append_eq_append_conv2 Cons_eq_append_conv append_eq_Cons_conv)

lemma sig_part_inj:
  assumes "sig_part i m z n @ r = sig_part j k y o' @ t" "name_ok n" "name_ok o'"
  shows "i = j \<and> m = k \<and> z = y \<and> n = o' \<and> r = t"
proof -
  have "(format_int i @ ''|'' @ format_int m @ ''|'' @ format_int z @ ''|'' @ n) @ CHR '';'' # r =
      (format_int j @ ''|'' @ format_int k @ ''|'' @ format_int y @ ''|'' @ o') @ CHR '';'' # t"
    using assms(1) by (simp add: sig_part_def)
  from semi_split [OF this] assms(2, 3)
  have 1: "format_int i @ CHR ''|'' # format_int m @ ''|'' @ format_int z @ ''|'' @ n =
      format_int j @ CHR ''|'' # format_int k @ ''|'' @ format_int y @ ''|'' @ o'" and r: "r = t"
    by (simp_all add: name_ok_def)
  from bar_split [OF 1] have i: "format_int i = format_int j"
    and 2: "format_int m @ CHR ''|'' # format_int z @ ''|'' @ n = format_int k @ CHR ''|'' # format_int y @ ''|'' @ o'" by simp_all
  from bar_split [OF 2] have m: "format_int m = format_int k"
    and 3: "format_int z @ CHR ''|'' # n = format_int y @ CHR ''|'' # o'" by simp_all
  from bar_split [OF 3] have "format_int z = format_int y" "n = o'" by simp_all
  with i m r format_int_inj show ?thesis by blast
qed

lemma sig_of_inj:
  "sig_of xs = sig_of ys \<Longrightarrow> list_all (\<lambda>(i, m, z, n). name_ok n) xs \<Longrightarrow> list_all (\<lambda>(i, m, z, n). name_ok n) ys \<Longrightarrow> xs = ys"
proof (induction xs arbitrary: ys)
  case Nil
  then show ?case by (cases ys) (auto simp: sig_of_def sig_part_def)
next
  case (Cons x xs)
  obtain i m z n where x: "x = (i, m, z, n)" by (cases x)
  from Cons.prems(1) x obtain y ys' where ys: "ys = y # ys'"
    by (cases ys) (auto simp: sig_of_def sig_part_def)
  obtain j k w p where y: "y = (j, k, w, p)" by (cases y)
  have "sig_part i m z n @ sig_of xs = sig_part j k w p @ sig_of ys'"
    using Cons.prems(1) by (simp add: x ys y sig_of_def)
  from sig_part_inj [OF this] Cons.prems(2, 3) Cons.IH [of ys'] show ?case by (simp add: x y ys)
qed

definition deb_rows :: "file_row list \<Rightarrow> file_row list" where
  "deb_rows fs = filter (\<lambda>f. f_ext f = ''deb'') fs"

text \<open>The two forms of signature differ whenever there is a package.\<close>

lemma nomtime_differs:
  assumes "f \<in> set fs" "f_ext f = ''deb''" "\<forall>f \<in> set (deb_rows fs). name_ok (f_filename f)" "list_all (\<lambda>(i, m, z, n). name_ok n) xs"
  shows "debSignatureNoMtime fs \<noteq> sig_of xs"
proof
  assume e: "debSignatureNoMtime fs = sig_of xs"
  have "f \<in> set (filter (\<lambda>f. f_ext f = ''deb'') fs)" using assms(1, 2) by simp
  then obtain g gs where g: "filter (\<lambda>f. f_ext f = ''deb'') fs = g # gs"
    by (cases "filter (\<lambda>f. f_ext f = ''deb'') fs") simp_all
  then have "g \<in> set (filter (\<lambda>f. f_ext f = ''deb'') fs)" by simp
  then have "g \<in> set (deb_rows fs)" by (simp add: deb_rows_def)
  with assms(3) have ng: "name_ok (f_filename g)" by blast
  define a where "a = format_int (f_id g) @ ''|'' @ format_int (f_size_bytes g) @ ''|'' @ f_filename g"
  obtain r where l: "debSignatureNoMtime fs = a @ CHR '';'' # r" by (simp add: debSignatureNoMtime_def g a_def)
  have "xs \<noteq> []" using e l by (auto simp: sig_of_def)
  then obtain i m z n ys where x: "xs = (i, m, z, n) # ys" by (metis neq_Nil_conv prod_cases4)
  with assms(4) have nn: "name_ok n" by simp
  define b where "b = format_int i @ ''|'' @ format_int m @ ''|'' @ format_int z @ ''|'' @ n"
  have "a @ CHR '';'' # r = b @ CHR '';'' # sig_of ys"
    using e l by (simp add: x sig_of_def sig_part_def b_def)
  moreover have "CHR '';'' \<notin> set a" "CHR '';'' \<notin> set b" using ng nn by (simp_all add: a_def b_def name_ok_def)
  ultimately have "a = b" using semi_split by blast
  then have "count_list a CHR ''|'' = count_list b CHR ''|''" by simp
  moreover have "count_list a CHR ''|'' = 2" "count_list b CHR ''|'' = 3"
    using ng nn by (simp_all add: a_def b_def name_ok_def count_list_append)
  ultimately show False by simp
qed

section \<open>The handler without cache and memo\<close>

text \<open>Every package is read and parsed anew.\<close>

definition parse_now :: "apt_conf \<Rightarrow> apt_env \<Rightarrow> string \<Rightarrow> DebInfo option" where
  "parse_now cf env p =
     (case en_stat env p of
        None \<Rightarrow> None
      | Some t \<Rightarrow> (case en_open env p of
            None \<Rightarrow> None
          | Some r \<Rightarrow> (case ParseDeb (cf_codecs cf) (cf_tar cf) r of Inl e \<Rightarrow> None | Inr info \<Rightarrow> Some info)))"

definition current_entries :: "apt_conf \<Rightarrow> apt_env \<Rightarrow> file_row list \<Rightarrow> PackageEntry list" where
  "current_entries cf env fs =
     List.map_filter (\<lambda>f. map_option (package_entry f) (parse_now cf env (f_local_path f))) (deb_rows fs)"

text \<open>A world in which a modification time identifies the contents of a file and a row of the files
  table keeps its path and checksum: \<open>blob p m\<close> are the contents of \<open>p\<close> at time \<open>m\<close>.\<close>

record world =
  w_blob :: "string \<Rightarrow> int \<Rightarrow> reader"
  w_path :: "int \<Rightarrow> string"
  w_sum :: "int \<Rightarrow> string"

definition row_in :: "world \<Rightarrow> file_row \<Rightarrow> bool" where
  "row_in W f \<longleftrightarrow> f_local_path f = w_path W (f_id f) \<and> f_checksum f = w_sum W (f_id f) \<and> name_ok (f_filename f)"

definition honest :: "world \<Rightarrow> apt_env \<Rightarrow> bool" where
  "honest W env \<longleftrightarrow>
     (\<forall>p m z. en_stat env p = Some (m, z) \<longrightarrow> p \<noteq> [] \<and> en_open env p = Some (w_blob W p m)) \<and>
     (\<forall>f \<in> set (t_files (en_db env)). f_ext f = ''deb'' \<longrightarrow> row_in W f)"

definition item_entry :: "apt_conf \<Rightarrow> world \<Rightarrow> sig_item \<Rightarrow> PackageEntry option" where
  "item_entry cf W x = (case x of (i, m, z, n) \<Rightarrow>
     (case ParseDeb (cf_codecs cf) (cf_tar cf) (w_blob W (w_path W i) m) of
        Inl e \<Rightarrow> None
      | Inr info \<Rightarrow> Some \<lparr>pe_info = info, pe_Filename = poolPathFor info n, pe_Size = z, pe_SHA256 = w_sum W i\<rparr>))"

definition memo_ok :: "apt_conf \<Rightarrow> world \<Rightarrow> debMemo \<Rightarrow> bool" where
  "memo_ok cf W m \<longleftrightarrow> distinct (map (\<lambda>(k, e). pathFromKey k) m) \<and>
     (\<forall>(k, e) \<in> set m. \<exists>p t z. p \<noteq> [] \<and> k = debMemoKey p t z \<and>
        ParseDeb (cf_codecs cf) (cf_tar cf) (w_blob W p t) = Inr (me_info e))"

definition cache_ok :: "apt_conf \<Rightarrow> world \<Rightarrow> aptCache \<Rightarrow> bool" where
  "cache_ok cf W c \<longleftrightarrow>
     (\<exists>xs date. list_all (\<lambda>(i, m, z, n). name_ok n) xs \<and> ac_sig c = sig_of xs \<and>
        ac_files c = GenerateRepo (cf_digests cf) (List.map_filter (item_entry cf W) xs) (cf_suite cf) date) \<or>
     (\<exists>fs f. f \<in> set fs \<and> f_ext f = ''deb'' \<and> (\<forall>f \<in> set (deb_rows fs). name_ok (f_filename f)) \<and> ac_sig c = debSignatureNoMtime fs)"

definition handler_ok :: "apt_conf \<Rightarrow> world \<Rightarrow> aptHandler \<Rightarrow> bool" where
  "handler_ok cf W s \<longleftrightarrow> memo_ok cf W (ah_debMemo s) \<and> pred_option (cache_ok cf W) (ah_cache s)"

lemma memo_hit:
  assumes "memo_ok cf W m" "map_of m (debMemoKey p t z) = Some e"
  shows "ParseDeb (cf_codecs cf) (cf_tar cf) (w_blob W p t) = Inr (me_info e)"
proof -
  from assms(2) have "(debMemoKey p t z, e) \<in> set m" by (rule map_of_SomeD)
  with assms(1) obtain q u y where "debMemoKey p t z = debMemoKey q u y"
    "ParseDeb (cf_codecs cf) (cf_tar cf) (w_blob W q u) = Inr (me_info e)" by (fastforce simp: memo_ok_def)
  with debMemoKey_inj show ?thesis by metis
qed

lemma memo_parse_spec:
  assumes w: "honest W env" and m: "memo_ok cf W m" and r: "memo_parse cf env p m = (m1, res)"
  shows "memo_ok cf W m1 \<and> (case res of Inl e \<Rightarrow> None | Inr info \<Rightarrow> Some info) = parse_now cf env p"
proof (cases "en_stat env p")
  case None
  with m r show ?thesis by (auto simp: memo_parse_def parse_now_def)
next
  case (Some t)
  obtain mt z where t: "t = (mt, z)" by (cases t)
  with w Some have p: "p \<noteq> []" and o: "en_open env p = Some (w_blob W p mt)" by (auto simp: honest_def)
  show ?thesis
  proof (cases "map_of m (debMemoKey p mt z)")
    case hit: (Some e)
    with m r memo_hit [OF m hit] show ?thesis by (auto simp: memo_parse_def parse_now_def Some t o Let_def)
  next
    case miss: None
    show ?thesis
    proof (cases "ParseDeb (cf_codecs cf) (cf_tar cf) (w_blob W p mt)")
      case (Inl e)
      with m r miss show ?thesis by (auto simp: memo_parse_def parse_now_def Some t o Let_def)
    next
      case (Inr info)
      define kept where "kept = filter (\<lambda>(k, e). pathFromKey k \<noteq> p) m"
      have m1: "m1 = kept @ [(debMemoKey p mt z, \<lparr>me_info = info, me_parseC = 1\<rparr>)]" "res = Inr info"
        using r miss Inr by (auto simp: memo_parse_def Some t o Let_def kept_def)
      have "distinct (map (\<lambda>(k, e). pathFromKey k) kept)"
        using m unfolding memo_ok_def kept_def by (blast intro: distinct_map_filter)
      moreover have "p \<notin> set (map (\<lambda>(k, e). pathFromKey k) kept)" by (auto simp: kept_def)
      moreover have "\<forall>x \<in> set kept. x \<in> set m" by (simp add: kept_def)
      ultimately have "memo_ok cf W m1"
        using m p Inr pathFromKey_key [OF p] unfolding memo_ok_def m1
        by (auto 0 4)
      then show ?thesis by (simp add: m1 parse_now_def Some t o Inr)
    qed
  qed
qed

lemma deb_entries_spec:
  "honest W env \<Longrightarrow> memo_ok cf W m \<Longrightarrow> deb_entries cf env fs m = (m1, es) \<Longrightarrow>
   memo_ok cf W m1 \<and> es = current_entries cf env fs"
proof (induction fs arbitrary: m m1 es)
  case Nil
  then show ?case by (simp add: current_entries_def deb_rows_def List.map_filter_def)
next
  case (Cons f fs)
  show ?case
  proof (cases "f_ext f = ''deb''")
    case False
    with Cons show ?thesis by (simp add: current_entries_def deb_rows_def)
  next
    case True
    obtain m2 res where p: "memo_parse cf env (f_local_path f) m = (m2, res)" by (cases "memo_parse cf env (f_local_path f) m")
    note q = memo_parse_spec [OF Cons.prems(1, 2) p]
    obtain m3 es3 where d: "deb_entries cf env fs m2 = (m3, es3)" by (cases "deb_entries cf env fs m2")
    have i: "memo_ok cf W m3" "es3 = current_entries cf env fs" using Cons.IH [OF Cons.prems(1) _ d] q by simp_all
    show ?thesis
      using Cons.prems(3) q i True
      by (cases res) (auto simp: p d current_entries_def deb_rows_def List.map_filter_def)
  qed
qed

text \<open>A signature with times determines the entries.\<close>

lemma signature_items:
  assumes "honest W env" "\<forall>f \<in> set (deb_rows fs). row_in W f" "debSignature env fs = Inr sig"
  shows "\<exists>xs. list_all (\<lambda>(i, m, z, n). name_ok n) xs \<and> sig = sig_of xs \<and>
    current_entries cf env fs = List.map_filter (item_entry cf W) xs"
  using assms(2, 3)
proof (induction fs arbitrary: sig)
  case Nil
  then show ?case
    by (intro exI [of _ "[]"]) (simp add: sig_of_def current_entries_def deb_rows_def List.map_filter_def)
next
  case (Cons f fs)
  show ?case
  proof (cases "f_ext f = ''deb''")
    case False
    with Cons show ?thesis by (simp add: current_entries_def deb_rows_def)
  next
    case True
    with Cons.prems(2) obtain m z b where s: "en_stat env (f_local_path f) = Some (m, z)"
      "debSignature env fs = Inr b" "sig = sig_part (f_id f) m (f_size_bytes f) (f_filename f) @ b"
      by (auto split: option.splits sum.splits)
    from Cons.prems(1) True have f: "row_in W f" and fs: "\<forall>f \<in> set (deb_rows fs). row_in W f"
      by (simp_all add: deb_rows_def)
    from Cons.IH [OF fs s(2)] obtain xs where xs: "list_all (\<lambda>(i, m, z, n). name_ok n) xs" "b = sig_of xs"
      "current_entries cf env fs = List.map_filter (item_entry cf W) xs" by blast
    define x where "x = (f_id f, m, f_size_bytes f, f_filename f)"
    have "map_option (package_entry f) (parse_now cf env (f_local_path f)) = item_entry cf W x"
      using assms(1) f s(1)
      by (auto simp: x_def item_entry_def parse_now_def honest_def row_in_def package_entry_def split: sum.splits)
    then have "current_entries cf env (f # fs) = List.map_filter (item_entry cf W) (x # xs)"
      using xs(3) True by (simp add: current_entries_def deb_rows_def map_filter_simps split: option.splits)
    moreover have "sig = sig_of (x # xs)" using xs(2) s(3) by (simp add: sig_of_def x_def)
    moreover have "list_all (\<lambda>(i, m, z, n). name_ok n) (x # xs)" using xs(1) f by (simp add: x_def row_in_def)
    ultimately show ?thesis by blast
  qed
qed

lemma signature_fails: "debSignature env fs = Inl e \<Longrightarrow> \<exists>f \<in> set fs. f_ext f = ''deb''"
  by (induction fs) (auto split: if_splits)

lemma signature_total:
  "list_all (\<lambda>f. en_stat env (f_local_path f) \<noteq> None) (deb_rows fs) \<Longrightarrow> \<exists>sig. debSignature env fs = Inr sig"
  by (induction fs) (auto simp: deb_rows_def split: option.splits)

lemma listed_rows:
  assumes "honest W env" "file_ListComplete 0 (en_db env) = Inr debs"
  shows "\<forall>f \<in> set (deb_rows debs). row_in W f"
proof -
  have "set debs \<subseteq> set (t_files (en_db env))"
    using assms(2) scan_files_InrD by (fastforce simp: file_ListComplete_def)
  with assms(1) show ?thesis by (auto simp: honest_def deb_rows_def)
qed

lemma rebuild_files:
  assumes "honest W env" "handler_ok cf W s" "\<forall>c. ah_cache s = Some c \<longrightarrow> ac_sig c \<noteq> sig"
    "\<forall>f \<in> set (deb_rows debs). row_in W f"
    "sig = (case debSignature env debs of Inl e \<Rightarrow> debSignatureNoMtime debs | Inr sig \<Rightarrow> sig)"
    "rebuild cf env debs sig s = (s1, files)"
  shows "handler_ok cf W s1 \<and>
    files = GenerateRepo (cf_digests cf) (current_entries cf env debs) (cf_suite cf) (en_date env)"
proof -
  obtain m es where d: "deb_entries cf env debs (ah_debMemo s) = (m, es)"
    by (cases "deb_entries cf env debs (ah_debMemo s)")
  from deb_entries_spec [OF assms(1) _ d] assms(2) have m: "memo_ok cf W m" and es: "es = current_entries cf env debs"
    by (simp_all add: handler_ok_def)
  define files1 where "files1 = GenerateRepo (cf_digests cf) es (cf_suite cf) (en_date env)"
  have s1: "s1 = \<lparr>ah_cache = Some \<lparr>ac_files = files1, ac_built = en_now env, ac_sig = sig\<rparr>, ah_debMemo = m\<rparr>"
    and f1: "files = files1"
    using assms(3, 6) by (auto simp: rebuild_def d files1_def Let_def split: option.splits)
  have "cache_ok cf W \<lparr>ac_files = files1, ac_built = en_now env, ac_sig = sig\<rparr>"
  proof (cases "debSignature env debs")
    case (Inl e)
    from signature_fails [OF this] assms(4, 5) Inl show ?thesis
      unfolding cache_ok_def by (intro disjI2) (auto simp: row_in_def)
  next
    case (Inr b)
    from signature_items [OF assms(1, 4) Inr] obtain xs where "list_all (\<lambda>(i, m, z, n). name_ok n) xs" "b = sig_of xs"
      "current_entries cf env debs = List.map_filter (item_entry cf W) xs" by blast
    with assms(5) Inr es show ?thesis
      unfolding cache_ok_def by (intro disjI1 exI [of _ xs] exI [of _ "en_date env"]) (simp add: files1_def)
  qed
  with m s1 f1 es show ?thesis by (simp add: handler_ok_def files1_def)
qed

lemma repoFiles_spec:
  assumes w: "honest W env" and s: "handler_ok cf W s" and r: "repoFiles cf env s = (s1, res)"
  shows "handler_ok cf W s1"
    "file_ListComplete 0 (en_db env) = Inr debs \<Longrightarrow> debSignature env debs = Inr sig \<Longrightarrow>
     \<exists>date. res = Inr (GenerateRepo (cf_digests cf) (current_entries cf env debs) (cf_suite cf) date)"
proof -
  have "handler_ok cf W s1 \<and> (\<forall>debs sig. file_ListComplete 0 (en_db env) = Inr debs \<longrightarrow> debSignature env debs = Inr sig \<longrightarrow>
     (\<exists>date. res = Inr (GenerateRepo (cf_digests cf) (current_entries cf env debs) (cf_suite cf) date)))"
  proof (cases "file_ListComplete 0 (en_db env)")
    case (Inl e)
    with r s show ?thesis by (auto simp: repoFiles_def)
  next
    case l: (Inr ds)
    note rows = listed_rows [OF w l]
    define sg where "sg = (case debSignature env ds of Inl e \<Rightarrow> debSignatureNoMtime ds | Inr sig \<Rightarrow> sig)"
    show ?thesis
    proof (cases "\<exists>c. ah_cache s = Some c \<and> ac_sig c = sg")
      case True
      then obtain c where c: "ah_cache s = Some c" "ac_sig c = sg" by blast
      with r l have e: "s1 = s" "res = Inr (ac_files c)" by (auto simp: repoFiles_def Let_def sg_def)
      have ok: "cache_ok cf W c" using s c by (simp add: handler_ok_def)
      have "\<exists>date. ac_files c = GenerateRepo (cf_digests cf) (current_entries cf env ds) (cf_suite cf) date"
        if d: "debSignature env ds = Inr sig" for sig
      proof -
        from signature_items [OF w rows d] obtain xs where xs: "list_all (\<lambda>(i, m, z, n). name_ok n) xs" "sig = sig_of xs"
          "current_entries cf env ds = List.map_filter (item_entry cf W) xs" by blast
        with c d have "ac_sig c = sig_of xs" by (simp add: sg_def)
        with ok xs(1) nomtime_differs obtain ys date where "list_all (\<lambda>(i, m, z, n). name_ok n) ys" "sig_of xs = sig_of ys"
          "ac_files c = GenerateRepo (cf_digests cf) (List.map_filter (item_entry cf W) ys) (cf_suite cf) date"
          unfolding cache_ok_def by metis
        with sig_of_inj xs show ?thesis by metis
      qed
      with s l e show ?thesis by auto
    next
      case False
      then have "repoFiles cf env s = apsnd Inr (rebuild cf env ds sg s)"
        by (auto simp: repoFiles_def l Let_def sg_def split: option.splits)
      with r obtain files where "rebuild cf env ds sg s = (s1, files)" "res = Inr files"
        by (cases "rebuild cf env ds sg s") auto
      with rebuild_files [OF w s _ rows sg_def] False l show ?thesis by auto
    qed
  qed
  then show "handler_ok cf W s1"
    "file_ListComplete 0 (en_db env) = Inr debs \<Longrightarrow> debSignature env debs = Inr sig \<Longrightarrow>
     \<exists>date. res = Inr (GenerateRepo (cf_digests cf) (current_entries cf env debs) (cf_suite cf) date)" by blast+
qed

section \<open>Properties\<close>

text \<open>Requests in a world; the contract of calls is interpreted on them.\<close>

definition serve_call :: "apt_conf \<Rightarrow> world \<Rightarrow> apt_env \<times> string \<Rightarrow> aptHandler \<Rightarrow> aptHandler option" where
  "serve_call cf W c s = (if honest W (fst c) then Some (fst (apt_Serve cf (fst c) (snd c) s)) else None)"

lemma apt_Serve_ok:
  assumes "honest W env" "handler_ok cf W s"
  shows "handler_ok cf W (fst (apt_Serve cf env rest s))"
proof -
  obtain s1 res where r: "repoFiles cf env s = (s1, res)" by (cases "repoFiles cf env s")
  with repoFiles_spec(1) [OF assms r] assms(2) show ?thesis
    by (auto simp: apt_Serve_def split: sum.splits option.splits)
qed

interpretation apt_calls: call_contract "serve_call cf W" "handler_ok cf W" "\<lambda>s t. True" for cf W
  by unfold_locales (auto simp: serve_call_def apt_Serve_ok split: if_splits)

lemma new_handler_ok: "handler_ok cf W NewAptHandler"
  by (simp add: handler_ok_def NewAptHandler_def memo_ok_def)

text \<open>With a package that cannot be found the signature leaves out the modification times: while one is missing,
  the index built last is served again whatever has become of the other packages since.\<close>

theorem apt_index_stale:
  assumes "file_ListComplete 0 (en_db env) = Inr debs" "file_ListComplete 0 (en_db env') = Inr debs"
    and "debSignature env debs = Inl e" "debSignature env' debs = Inl e'"
  shows "snd (repoFiles cf env' (fst (repoFiles cf env s))) = snd (repoFiles cf env s)"
proof -
  let ?sig = "debSignatureNoMtime debs"
  have "\<exists>c. ah_cache (fst (repoFiles cf env s)) = Some c \<and> ac_sig c = ?sig \<and> snd (repoFiles cf env s) = Inr (ac_files c)"
    using assms(1,3) by (auto simp: repoFiles_def rebuild_def Let_def split: option.split prod.split)
  then show ?thesis using assms(2,4) by (auto simp: repoFiles_def)
qed

text \<open>C26: Whatever requests a handler has answered, in a world in which a modification time identifies the
  contents of a file, a row keeps its path and checksum, and no file name of a package contains a bar or a
  semicolon, and as long as every package listed can be found on the disk: the package index it serves for a
  machine is the one built from all packages as they are now, read and parsed afresh; and the memo holds
  at most one entry per file. (When one package is missing the index may be old: \<open>apt_index_stale\<close>.)\<close>

theorem apt_index_current:
  assumes "run_calls (serve_call cf W) calls NewAptHandler = Some s"
    and "honest W env" and "file_ListComplete 0 (en_db env) = Inr debs"
    and "list_all (\<lambda>f. en_stat env (f_local_path f) \<noteq> None) (deb_rows debs)"
    and "a \<in> set (archsOf (current_entries cf env debs))"
    and "rest = binary_dir (orDefault (cf_suite cf) ''stable'') a @ ''/Packages''"
  shows "status_of (snd (apt_Serve cf env rest s)) = 200 \<and>
    body_of (snd (apt_Serve cf env rest s)) = renderPackages (filterByArch (current_entries cf env debs) a) \<and>
    distinct (map (\<lambda>(k, e). pathFromKey k) (ah_debMemo s))"
proof -
  have s: "handler_ok cf W s" using apt_calls.run_keeps [OF new_handler_ok assms(1)] by simp
  obtain sig where sig: "debSignature env debs = Inr sig" using signature_total [OF assms(4)] by blast
  obtain s1 res where r: "repoFiles cf env s = (s1, res)" by (cases "repoFiles cf env s")
  from repoFiles_spec(2) [OF assms(2) s r assms(3) sig] obtain date where
    res: "res = Inr (GenerateRepo (cf_digests cf) (current_entries cf env debs) (cf_suite cf) date)" by blast
  from GenerateRepo_index [OF assms(5), of "cf_digests cf" "cf_suite cf" date] obtain f where
    f: "List.find (\<lambda>f. rf_Path f = rest) (GenerateRepo (cf_digests cf) (current_entries cf env debs) (cf_suite cf) date) = Some f"
      "rf_Content f = renderPackages (filterByArch (current_entries cf env debs) a)"
    by (auto simp: repo_file_def assms(6))
  have "rest \<noteq> []" "\<not> has_prefix rest ''pool/''" by (simp_all add: assms(6) binary_dir_def)
  then have "snd (apt_Serve cf env rest s) = [SetHeader ''Content-Type'' (rf_ContentType f), Write (rf_Content f)]"
    by (simp add: apt_Serve_def r res f)
  then show ?thesis using f(2) s by (simp add: handler_ok_def memo_ok_def)
qed

definition demo_row :: file_row where
  "demo_row = \<lparr>f_id = 1, f_project_id = 1, f_version = ''1.2'', f_filename = ''libfoo_1.2.deb'', f_os = [], f_arch = [], f_ext = ''deb'',
     f_size_bytes = 1234, f_download_url = ''u'', f_local_path = ''/d/libfoo.deb'', f_checksum = ''abc123'', f_status = ''complete'',
     f_error_message = [], f_created_at = 0, f_retry_count = 0, f_last_attempt_at = None, f_source_type = Some ''github'',
     f_category = None, f_storage_subdir = None, f_public_token = None\<rparr>"

definition demo_deb :: "(string \<times> string \<times> string) list" where
  "demo_deb = [(''control.tar'', replicate 32 CHR '' '', ''t'')]"

definition demo_conf :: apt_conf where
  "demo_conf = \<lparr>cf_codecs = \<lparr>c_gzip = Inr, c_xz = Inr, c_zstd = Inr\<rparr>,
     cf_tar = (\<lambda>b. ([\<lparr>tm_Name = ''./control'', tm_Regular = True, tm_Body = Inr (stanza demo_entry)\<rparr>], None)),
     cf_digests = demo_digests, cf_json = (\<lambda>c m. c), cf_suite = ''stable''\<rparr>"

definition demo_env :: apt_env where
  "demo_env = \<lparr>en_db = (empty_db 3)\<lparr>t_files := [demo_row]\<rparr>,
     en_stat = (\<lambda>p. if p = ''/d/libfoo.deb'' then Some (7, 100) else None),
     en_open = (\<lambda>p. if p = ''/d/libfoo.deb'' then Some (write_ar demo_deb, None) else None),
     en_now = 3, en_date = ''today''\<rparr>"

definition demo_world :: world where
  "demo_world = \<lparr>w_blob = (\<lambda>p m. (write_ar demo_deb, None)), w_path = (\<lambda>i. ''/d/libfoo.deb''), w_sum = (\<lambda>i. ''abc123'')\<rparr>"

lemma demo_honest: "honest demo_world demo_env"
  by (simp add: honest_def demo_env_def demo_world_def row_in_def name_ok_def demo_row_def)

lemma demo_listed: "file_ListComplete 0 (en_db demo_env) = Inr [demo_row]" "deb_rows [demo_row] = [demo_row]"
  by (simp_all add: file_ListComplete_def demo_env_def scanFile_def demo_row_def deb_rows_def)

lemma demo_parsed: "ParseDeb (cf_codecs demo_conf) (cf_tar demo_conf) (write_ar demo_deb, None) = Inr demo_info"
proof -
  have "list_all member_ok demo_deb" by (simp add: demo_deb_def member_ok_def plain_char_def)
  then have r: "ReadAr (write_ar demo_deb, None) = Inr (map entry_of demo_deb)" by (rule ReadAr_written)
  have "pe_info demo_entry = demo_info" by (simp add: demo_entry_def)
  then have "parseControl (stanza demo_entry) = demo_info"
    using parsed_stanza_info [of demo_entry "[]"] demo_entry_ok by simp
  moreover have "memberNamed (map entry_of demo_deb) ''control.tar'' = Some \<lparr>ar_Name = ''control.tar'', ar_Size = 1, ar_Data = ''t''\<rparr>"
    by code_simp
  ultimately show ?thesis
    by (simp add: ParseDeb_def r decompressControl_def extractControlFile_def demo_conf_def has_suffix_def trim_prefix_def)
qed

lemma demo_current: "current_entries demo_conf demo_env [demo_row] = [package_entry demo_row demo_info]"
proof -
  have "parse_now demo_conf demo_env (f_local_path demo_row) = Some demo_info"
    using demo_parsed by (simp add: parse_now_def demo_env_def demo_row_def)
  then show ?thesis by (simp add: current_entries_def demo_listed(2) map_filter_simps)
qed

theorem apt_index_current_witness:
  "status_of (snd (apt_Serve demo_conf demo_env ''dists/stable/main/binary-amd64/Packages''
      (fst (apt_Serve demo_conf demo_env ''dists/stable/Release'' NewAptHandler)))) = 200 \<and>
   body_of (snd (apt_Serve demo_conf demo_env ''dists/stable/main/binary-amd64/Packages''
      (fst (apt_Serve demo_conf demo_env ''dists/stable/Release'' NewAptHandler)))) =
   renderPackages [package_entry demo_row demo_info]"
proof -
  have run: "run_calls (serve_call demo_conf demo_world) [(demo_env, ''dists/stable/Release'')] NewAptHandler =
      Some (fst (apt_Serve demo_conf demo_env ''dists/stable/Release'' NewAptHandler))"
    by (simp add: serve_call_def demo_honest)
  have st: "list_all (\<lambda>f. en_stat demo_env (f_local_path f) \<noteq> None) (deb_rows [demo_row])"
    unfolding demo_listed(2) by (simp add: demo_env_def demo_row_def)
  have arch: "''amd64'' \<in> set (archsOf (current_entries demo_conf demo_env [demo_row]))"
    unfolding demo_current by (simp add: archsOf_def package_entry_def demo_info_def orDefault_def)
  have index: "filterByArch [package_entry demo_row demo_info] ''amd64'' = [package_entry demo_row demo_info]"
    by (simp add: filterByArch_def package_entry_def demo_info_def orDefault_def)
  have rest: "''dists/stable/main/binary-amd64/Packages'' = binary_dir (orDefault (cf_suite demo_conf) ''stable'') ''amd64'' @ ''/Packages''"
    by (simp add: binary_dir_def orDefault_def demo_conf_def)
  show ?thesis
    using apt_index_current [OF run demo_honest demo_listed(1) st arch rest] unfolding demo_current index by blast
qed

text \<open>The pool path the index gives for a package leads to its bytes: when no other package has the
  same file name, a request for it is answered with the contents of the stored file, with any package
  name in the path.\<close>

theorem apt_pool_serves:
  assumes "file_ListComplete 0 (en_db env) = Inr debs" "f \<in> set (deb_rows debs)"
    and "f_filename f \<notin> f_filename ` (set (deb_rows debs) - {f})"
    and "f_filename f \<noteq> []" "CHR ''/'' \<notin> set (f_filename f)"
    and "en_open env (f_local_path f) = Some r" "en_stat env (f_local_path f) = Some t"
  shows "status_of (snd (apt_Serve cf env (pe_Filename (package_entry f info)) s)) = 200 \<and>
    body_of (snd (apt_Serve cf env (pe_Filename (package_entry f info)) s)) = fst r"
proof -
  define dir where "dir = drop 5 (poolPathFor info [])"
  define d1 where "d1 = take (length dir - 1) dir"
  have d: "poolPathFor info (f_filename f) = ''pool/'' @ d1 @ CHR ''/'' # f_filename f"
    by (simp add: d1_def dir_def poolPathFor_def Let_def)
  have "last (f_filename f) \<noteq> CHR ''/''" using assms(4, 5) by (metis last_in_set)
  then have "trim_right_char CHR ''/'' (d1 @ CHR ''/'' # f_filename f) = d1 @ CHR ''/'' # f_filename f"
    using assms(4) by (cases "f_filename f" rule: rev_cases) (simp_all add: trim_right_char_def)
  then have b: "path_base (d1 @ CHR ''/'' # f_filename f) = f_filename f"
    using assms(4, 5) by (simp add: path_base_def after_last_slash_def last_index_char_append Let_def)
  have "List.find (\<lambda>g. f_ext g = ''deb'' \<and> f_filename g = f_filename f) debs = Some f"
  proof -
    have "List.find (\<lambda>g. f_ext g = ''deb'' \<and> f_filename g = f_filename f) debs \<noteq> None"
      using assms(2) by (auto simp: find_None_iff deb_rows_def)
    then obtain g where g: "List.find (\<lambda>g. f_ext g = ''deb'' \<and> f_filename g = f_filename f) debs = Some g" by blast
    then have "g \<in> set (deb_rows debs)" "f_filename g = f_filename f"
      by (auto simp: find_Some_iff deb_rows_def)
    have "g = f"
    proof (rule ccontr)
      assume "g \<noteq> f"
      with \<open>g \<in> set (deb_rows debs)\<close> \<open>f_filename g = f_filename f\<close>
      have "f_filename f \<in> f_filename ` (set (deb_rows debs) - {f})" by (metis Diff_iff empty_iff image_eqI insert_iff)
      with assms(3) show False by blast
    qed
    with g show ?thesis by simp
  qed
  then have "servePool cf env (d1 @ CHR ''/'' # f_filename f) = StreamFile env f"
    by (simp add: servePool_def assms(1) b)
  moreover obtain m z where "t = (m, z)" by (cases t)
  ultimately show ?thesis
    using trim_prefix_append [of "''pool/''" "d1 @ CHR ''/'' # f_filename f"]
    by (simp add: apt_Serve_def package_entry_def d StreamFile_def assms(6, 7))
qed

theorem apt_pool_serves_witness:
  "body_of (snd (apt_Serve demo_conf demo_env ''pool/main/libf/libfoo/libfoo_1.2.deb'' NewAptHandler)) = write_ar demo_deb"
proof -
  have "pe_Filename (package_entry demo_row demo_info) = ''pool/main/libf/libfoo/libfoo_1.2.deb''"
    by (simp add: package_entry_def poolPathFor_def demo_info_def demo_row_def)
  moreover have "f_filename demo_row \<noteq> []" "CHR ''/'' \<notin> set (f_filename demo_row)"
    "en_open demo_env (f_local_path demo_row) = Some (write_ar demo_deb, None)"
    "en_stat demo_env (f_local_path demo_row) = Some (7, 100)" by (simp_all add: demo_row_def demo_env_def)
  ultimately show ?thesis
    using apt_pool_serves [OF demo_listed(1), where f = demo_row and r = "(write_ar demo_deb, None)" and t = "(7, 100)"
        and info = demo_info and cf = demo_conf and s = NewAptHandler] demo_listed(2) by simp
qed

end
