(* ===== verification/Pypi_Handler.thy ===== *)
theory Pypi_Handler
  imports Apt_Handler "HOL-Library.Multiset"
begin

text \<open>
  The Python package index of PEP 503, src/internal/supply/pypi.go, and the generic file index and
  download, src/internal/supply/handler.go. The JSON encoder and sort.Slice are parameters. Names are
  treated as bytes, which agrees with the loop over runes on well-formed UTF-8.

  Shown: names are normalised to the form of PEP 503, the pages list exactly the distributions that
  are stored, with an index that is never older than thirty seconds, and text is escaped.
\<close>

section \<open>Names\<close>

definition is_sep :: "char \<Rightarrow> bool" where
  "is_sep c \<longleftrightarrow> c = CHR ''-'' \<or> c = CHR ''_'' \<or> c = CHR ''.''"

fun collapse :: "bool \<Rightarrow> string \<Rightarrow> string" where
  "collapse prevSep [] = []"
| "collapse prevSep (c # s) =
     (if is_sep c then (if prevSep then collapse prevSep s else CHR ''-'' # collapse True s)
      else c # collapse False s)"

definition normalizePyPIProject :: "string \<Rightarrow> string" where
  "normalizePyPIProject name = trim_char CHR ''-'' (collapse False (to_lower name))"

definition isPyPIDist :: "string \<Rightarrow> bool" where
  "isPyPIDist filename = (let low = to_lower filename in
     if has_suffix low ''.whl'' then True
     else if has_suffix low ''.tar.gz'' \<or> has_suffix low ''.zip'' then True
     else if has_suffix low ''.tar.bz2'' \<or> has_suffix low ''.tar.xz'' then True
     else False)"

section \<open>Numbers and markup\<close>

fun itoa_digits :: "nat \<Rightarrow> string \<Rightarrow> string" where
  "itoa_digits n buf = (if n = 0 then buf else itoa_digits (n div 10) (digit_char (n mod 10) # buf))"

declare itoa_digits.simps [simp del]

text \<open>The loop runs while the number is positive; negating the least integer leaves it negative.\<close>

definition itoa :: "64 word \<Rightarrow> string" where
  "itoa n =
     (if n = 0 then ''0''
      else let neg = sint n < 0; m = (if neg then - n else n);
               buf = (if sint m > 0 then itoa_digits (nat (sint m)) [] else [])
        in if neg then CHR ''-'' # buf else buf)"

fun html_text :: "char \<Rightarrow> string" where
  "html_text c = (if c = CHR ''&'' then ''&amp;'' else if c = CHR ''<'' then ''&lt;''
     else if c = CHR ''>'' then ''&gt;'' else if c = CHR 0x27 then ''&#39;'' else [c])"

definition escapeHTMLText :: "string \<Rightarrow> string" where
  "escapeHTMLText s = concat (map html_text s)"

definition escapeHTMLAttr :: "string \<Rightarrow> string" where
  "escapeHTMLAttr s = path_clean (concat (map (\<lambda>c. if c = CHR 0x22 then ''&#34;'' else html_text c) s))"

section \<open>The pages\<close>

record pypiFile =
  py_fileID :: "64 word"
  py_filename :: string
  py_sha :: string
  py_project :: string

record pypiIndexCache =
  px_html :: string
  px_byProject :: "int \<rightharpoonup> string"
  px_packages :: "string list"
  px_built :: int

definition lines_of :: "string list \<Rightarrow> string" where
  "lines_of ls = concat (map (\<lambda>l. l @ [nl]) ls)"

definition root_link :: "string \<Rightarrow> string" where
  "root_link n = ''    <a href='' @ [CHR 0x22] @ escapeHTMLAttr n @ ''/'' @ [CHR 0x22] @ ''>'' @ escapeHTMLText n @ ''</a>'' @ [nl]"

definition renderRootIndex :: "string list \<Rightarrow> string" where
  "renderRootIndex packages =
     lines_of [''<!DOCTYPE html>'', ''<html>'', ''  <head>'', ''    <title>Simple Index</title>'', ''  </head>'', ''  <body>''] @
     concat (map root_link (sort packages)) @ lines_of [''  </body>'', ''</html>'']"

definition file_url :: "string \<Rightarrow> pypiFile \<Rightarrow> string" where
  "file_url basePublicURL d = basePublicURL @ ''/'' @ itoa (py_fileID d) @ ''/'' @ escapeHTMLAttr (py_filename d)"

definition file_link :: "string \<Rightarrow> pypiFile \<Rightarrow> string" where
  "file_link basePublicURL d = ''    <a href='' @ [CHR 0x22] @ file_url basePublicURL d @
     (if py_sha d \<noteq> [] then ''#sha256='' @ py_sha d else []) @ [CHR 0x22] @ ''>'' @ escapeHTMLText (py_filename d) @ ''</a><br/>'' @ [nl]"

definition renderProjectIndex :: "string \<Rightarrow> pypiFile list \<Rightarrow> string \<Rightarrow> string" where
  "renderProjectIndex project dists basePublicURL =
     lines_of [''<!DOCTYPE html>'', ''<html>'', ''  <head>''] @ ''    <title>Links for '' @ escapeHTMLText project @
     lines_of [''</title>'', ''  </head>'', ''  <body>''] @ ''    <h1>Links for '' @ escapeHTMLText project @ ''</h1>'' @ [nl] @
     concat (map (file_link basePublicURL) dists) @ lines_of [''  </body>'', ''</html>'']"

section \<open>The index\<close>

definition is_pypi :: "project \<Rightarrow> bool" where
  "is_pypi p \<longleftrightarrow> p_source_type p = ''pypi''"

definition by_project :: "project list \<Rightarrow> (int \<rightharpoonup> string)" where
  "by_project ps = fold (\<lambda>p m. m(p_id p \<mapsto> normalizePyPIProject (p_name p))) (filter is_pypi ps) Map.empty"

definition served_projects :: "file_row list \<Rightarrow> int list" where
  "served_projects files = map f_project_id (filter (\<lambda>f. isPyPIDist (f_filename f)) files)"

text \<open>The names of projects with a stored distribution; the set packages as a list.\<close>

definition packages_of :: "project list \<Rightarrow> file_row list \<Rightarrow> string list" where
  "packages_of ps files = remdups (map (\<lambda>p. the (by_project ps (p_id p)))
     (filter (\<lambda>p. is_pypi p \<and> p_id p \<in> set (served_projects files)) ps))"

record pypi_conf =
  pf_subdir :: "string \<Rightarrow> string option"
  pf_sort :: "pypiFile list \<Rightarrow> pypiFile list"
  pf_json :: "string \<Rightarrow> string \<Rightarrow> string"
  pf_base :: string

definition indexTTL :: int where
  "indexTTL = 30 * 10 ^ 9"

definition build_index :: "pypi_conf \<Rightarrow> apt_env \<Rightarrow> sql_err + pypiIndexCache" where
  "build_index cf env =
     (let projects = project_List (pf_subdir cf) (en_db env) in
      case file_ListComplete 0 (en_db env) of
        Inl e \<Rightarrow> Inl e
      | Inr files \<Rightarrow>
          Inr \<lparr>px_html = renderRootIndex (packages_of projects files), px_byProject = by_project projects,
               px_packages = packages_of projects files, px_built = en_now env\<rparr>)"

text \<open>The state of the handler is its index, if it has one.\<close>

definition buildOrGetIndex ::
  "pypi_conf \<Rightarrow> apt_env \<Rightarrow> pypiIndexCache option \<Rightarrow> pypiIndexCache option \<times> (sql_err + pypiIndexCache)" where
  "buildOrGetIndex cf env s =
     (case s of
        Some idx \<Rightarrow>
          if en_now env - px_built idx < indexTTL then (s, Inr idx)
          else (case build_index cf env of Inl e \<Rightarrow> (s, Inl e) | Inr i \<Rightarrow> (Some i, Inr i))
      | None \<Rightarrow> (case build_index cf env of Inl e \<Rightarrow> (s, Inl e) | Inr i \<Rightarrow> (Some i, Inr i)))"

definition html_page :: "string \<Rightarrow> rw_call list" where
  "html_page b = [SetHeader ''Content-Type'' ''text/html; charset=utf-8'', Write b]"

definition serveRootIndex :: "pypi_conf \<Rightarrow> apt_env \<Rightarrow> pypiIndexCache option \<Rightarrow> pypiIndexCache option \<times> rw_call list" where
  "serveRootIndex cf env s =
     (case buildOrGetIndex cf env s of
        (s1, Inl e) \<Rightarrow> (s1, WriteError (pf_json cf) 500 ''INTERNAL_ERROR'' ''build pypi index'')
      | (s1, Inr idx) \<Rightarrow> (s1, html_page (px_html idx)))"

definition pypi_dist :: "string \<Rightarrow> file_row \<Rightarrow> pypiFile" where
  "pypi_dist norm f = \<lparr>py_fileID = of_int (f_id f), py_filename = f_filename f, py_sha = f_checksum f, py_project = norm\<rparr>"

definition project_dists :: "pypiIndexCache \<Rightarrow> string \<Rightarrow> file_row list \<Rightarrow> pypiFile list" where
  "project_dists idx norm files =
     map (pypi_dist norm) (filter (\<lambda>f. isPyPIDist (f_filename f) \<and> px_byProject idx (f_project_id f) = Some norm) files)"

definition serveProjectIndex ::
  "pypi_conf \<Rightarrow> apt_env \<Rightarrow> string \<Rightarrow> pypiIndexCache option \<Rightarrow> pypiIndexCache option \<times> rw_call list" where
  "serveProjectIndex cf env requested s =
     (case buildOrGetIndex cf env s of
        (s1, Inl e) \<Rightarrow> (s1, WriteError (pf_json cf) 500 ''INTERNAL_ERROR'' ''build pypi index'')
      | (s1, Inr idx) \<Rightarrow>
          (let norm = normalizePyPIProject requested in
           if norm \<notin> set (px_packages idx) then (s1, http_NotFound)
           else (case file_ListComplete 0 (en_db env) of
               Inl e \<Rightarrow> (s1, WriteError (pf_json cf) 500 ''INTERNAL_ERROR'' ''list pypi files'')
             | Inr files \<Rightarrow> (s1, html_page (renderProjectIndex norm (pf_sort cf (project_dists idx norm files)) (pf_base cf))))))"

definition pypi_Serve ::
  "pypi_conf \<Rightarrow> apt_env \<Rightarrow> string \<Rightarrow> string \<Rightarrow> pypiIndexCache option \<Rightarrow> pypiIndexCache option \<times> rw_call list" where
  "pypi_Serve cf env capture urlPath s =
     (let rest0 = (if capture = [] \<and> has_prefix urlPath ''/simple/'' then trim_prefix urlPath ''/simple/'' else capture);
          rest = trim_char CHR ''/'' rest0
      in if rest = [] then serveRootIndex cf env s else serveProjectIndex cf env rest s)"

section \<open>Names: PEP 503\<close>

definition dashes :: "string \<Rightarrow> string" where
  "dashes s = map (\<lambda>c. if is_sep c then CHR ''-'' else c) s"

definition name_words :: "string \<Rightarrow> string list" where
  "name_words s = filter (\<lambda>w. w \<noteq> []) (split_char CHR ''-'' (dashes (to_lower s)))"

lemma collapse_dashes: "collapse b (dashes s) = collapse b s"
  by (induction b s rule: collapse.induct) (auto simp: dashes_def is_sep_def)

lemma collapse_word:
  "(\<forall>c \<in> set w. \<not> is_sep c) \<Longrightarrow> w \<noteq> [] \<Longrightarrow> collapse b (w @ r) = w @ collapse False r"
proof (induction w arbitrary: b)
  case (Cons c w)
  then show ?case by (cases w) auto
qed simp

lemma is_sep_dash [simp]: "is_sep CHR ''-''"
  by (simp add: is_sep_def)

lemma collapse_join:
  assumes "\<forall>w \<in> set ws. \<forall>c \<in> set w. \<not> is_sep c"
  shows "\<exists>t. (t = [] \<or> t = ''-'' \<and> filter (\<lambda>w. w \<noteq> []) ws \<noteq> []) \<and>
    collapse True (join_char CHR ''-'' ws) = join_char CHR ''-'' (filter (\<lambda>w. w \<noteq> []) ws) @ t"
  using assms
proof (induction ws)
  case (Cons w ws)
  then obtain t where t: "t = [] \<or> t = ''-'' \<and> filter (\<lambda>w. w \<noteq> []) ws \<noteq> []"
    "collapse True (join_char CHR ''-'' ws) = join_char CHR ''-'' (filter (\<lambda>w. w \<noteq> []) ws) @ t" by auto
  show ?case
  proof (cases "ws = []")
    case True
    with Cons.prems collapse_word [of w True "[]"] show ?thesis by (cases "w = []") auto
  next
    case ws: False
    then have j: "join_char CHR ''-'' (w # ws) = w @ CHR ''-'' # join_char CHR ''-'' ws" by (simp add: join_char_Cons)
    show ?thesis
    proof (cases "w = []")
      case True
      with t j show ?thesis by auto
    next
      case False
      with j Cons.prems collapse_word [of w True "CHR ''-'' # join_char CHR ''-'' ws"]
      have c: "collapse True (join_char CHR ''-'' (w # ws)) = w @ CHR ''-'' # join_char CHR ''-'' (filter (\<lambda>w. w \<noteq> []) ws) @ t"
        using t(2) by simp
      show ?thesis
      proof (cases "filter (\<lambda>w. w \<noteq> []) ws = []")
        case True
        with t c False show ?thesis by (intro exI [of _ "''-''"]) simp
      next
        case ne: False
        with t c False show ?thesis by (intro exI [of _ t]) (auto simp: join_char_Cons)
      qed
    qed
  qed
qed simp

lemma join_ends:
  assumes "\<forall>w \<in> set ws. w \<noteq> [] \<and> (c :: char) \<notin> set w"
  shows "ws \<noteq> [] \<Longrightarrow> join_char d ws \<noteq> [] \<and> hd (join_char d ws) \<noteq> c \<and> last (join_char d ws) \<noteq> c"
  using assms
proof (induction ws)
  case (Cons w ws)
  then show ?case
    by (cases "ws = []") (auto simp: join_char_Cons hd_append last_append dest: hd_in_set last_in_set)
qed simp

lemma normalize_words: "normalizePyPIProject s = join_char CHR ''-'' (name_words s)"
proof -
  define t where "t = dashes (to_lower s)"
  define ws where "ws = split_char CHR ''-'' t"
  have only: "\<forall>c \<in> set t. is_sep c \<longrightarrow> c = CHR ''-''" by (auto simp: t_def dashes_def)
  have j: "join_char CHR ''-'' ws = t" by (simp add: ws_def)
  have in_t: "set w \<subseteq> set t" if "w \<in> set ws" for w
    using that set_split unfolding ws_def by blast
  have nosep: "\<forall>w \<in> set ws. \<forall>c \<in> set w. \<not> is_sep c"
    using only in_t split_char_no_sep_elem unfolding ws_def by blast
  from collapse_join [OF nosep] obtain b where
    b: "b = [] \<or> b = ''-'' \<and> filter (\<lambda>w. w \<noteq> []) ws \<noteq> []" "collapse True t = join_char CHR ''-'' (filter (\<lambda>w. w \<noteq> []) ws) @ b"
    by (auto simp: j)
  have "\<exists>a. (a = [] \<or> a = ''-'') \<and> collapse False t = a @ collapse True t"
    by (cases t) auto
  then obtain a where a: "a = [] \<or> a = ''-''" "collapse False t = a @ collapse True t" by blast
  define r where "r = join_char CHR ''-'' (filter (\<lambda>w. w \<noteq> []) ws)"
  have "r = [] \<or> hd r \<noteq> CHR ''-'' \<and> last r \<noteq> CHR ''-''"
    using join_ends [of "filter (\<lambda>w. w \<noteq> []) ws" "CHR ''-''" "CHR ''-''"] nosep unfolding r_def
    by (cases "filter (\<lambda>w. w \<noteq> []) ws = []") (auto simp: is_sep_def)
  moreover have "r = [] \<longrightarrow> b = []"
    using b join_ends [of "filter (\<lambda>w. w \<noteq> []) ws" "CHR ''-''" "CHR ''-''"] nosep unfolding r_def by (auto simp: is_sep_def)
  ultimately have "trim_char CHR ''-'' (a @ r @ b) = r" using a(1) b(1) by (intro trim_char_ends) auto
  moreover have "collapse False (to_lower s) = a @ r @ b"
    using a(2) b(2) collapse_dashes [of False "to_lower s"] by (simp add: t_def r_def)
  ultimately show ?thesis by (simp add: normalizePyPIProject_def r_def name_words_def ws_def t_def)
qed

lemma words_of_join:
  assumes "list_all (\<lambda>w. w \<noteq> [] \<and> (\<forall>c \<in> set w. \<not> is_sep c \<and> lower_char c = c)) ws"
  shows "name_words (join_char CHR ''-'' ws) = ws"
proof -
  have "dashes (to_lower (join_char CHR ''-'' ws)) = join_char CHR ''-'' ws"
  proof -
    have "set (join_char CHR ''-'' ws) \<subseteq> insert CHR ''-'' (\<Union> (set ` set ws))" by (rule set_join_char)
    then have "\<forall>c \<in> set (join_char CHR ''-'' ws). lower_char c = c \<and> (is_sep c \<longrightarrow> c = CHR ''-'')"
      using assms by (auto simp: list_all_iff lower_char_def [of "CHR ''-''"])
    then have "to_lower (join_char CHR ''-'' ws) = join_char CHR ''-'' ws" "dashes (join_char CHR ''-'' ws) = join_char CHR ''-'' ws"
      unfolding dashes_def to_lower_def by (auto intro!: map_idI)
    then show ?thesis by simp
  qed
  moreover have "split_char CHR ''-'' (join_char CHR ''-'' ws) = (if ws = [] then [[]] else ws)"
    using assms by (auto simp: list_all_iff is_sep_def intro!: split_join_char)
  ultimately show ?thesis using assms by (auto simp: name_words_def list_all_iff filter_id_conv)
qed

lemma lower_idem: "lower_char (lower_char c) = lower_char c"
  by (simp add: lower_char_def Let_def)

lemma words_ok: "list_all (\<lambda>w. w \<noteq> [] \<and> (\<forall>c \<in> set w. \<not> is_sep c \<and> lower_char c = c)) (name_words s)"
proof -
  define t where "t = dashes (to_lower s)"
  have l: "\<forall>c \<in> set t. (is_sep c \<longrightarrow> c = CHR ''-'') \<and> lower_char c = c"
    by (auto simp: t_def dashes_def to_lower_def lower_idem lower_char_def [of "CHR ''-''"])
  have "w \<noteq> [] \<and> (\<forall>c \<in> set w. \<not> is_sep c \<and> lower_char c = c)" if "w \<in> set (name_words s)" for w
  proof -
    from that have w: "w \<noteq> []" "w \<in> set (split_char CHR ''-'' t)" by (auto simp: name_words_def t_def)
    with l set_split [OF w(2)] split_char_no_sep_elem [OF w(2)] show ?thesis by blast
  qed
  then show ?thesis by (simp add: list_all_iff)
qed

section \<open>Numbers\<close>

lemma itoa_digits_format: "0 < n \<Longrightarrow> itoa_digits n buf = format_nat n @ buf"
proof (induction n buf rule: itoa_digits.induct)
  case (1 n buf)
  show ?case
  proof (cases "n < 10")
    case True
    with "1.prems" show ?thesis
      by (subst itoa_digits.simps) (simp add: itoa_digits.simps [of 0] format_nat.simps [of n])
  next
    case False
    with 1 show ?thesis by (subst itoa_digits.simps, subst format_nat.simps) simp
  qed
qed

lemma sint_minus: "sint (n :: 64 word) < 0 \<Longrightarrow> sint n \<noteq> - (2 ^ 63) \<Longrightarrow> sint (- n) = - sint n"
proof -
  assume n: "sint n < 0" "sint n \<noteq> - (2 ^ 63)"
  have "- (2 ^ 63) \<le> sint n" using sint_ge [of n] by simp
  with n have "signed_take_bit 63 (- sint n) = - sint n"
    by (intro signed_take_bit_int_eq_self) simp_all
  moreover have "sint (- n) = signed_take_bit 63 (- sint n)"
    using sint_word_minus [of n] by simp
  ultimately show ?thesis by simp
qed

section \<open>Answers kept for a while\<close>

text \<open>The contract the two indexes share: an answer is kept for \<open>ttl\<close> and built anew after that.\<close>

locale ttl_answers =
  fixes answer :: "'e \<Rightarrow> 's \<Rightarrow> 's \<times> ('x + 'v)" and build :: "'e \<Rightarrow> 'x + 'v" and clock :: "'e \<Rightarrow> int"
    and held :: "'s \<Rightarrow> ('v \<times> int) option" and ttl :: int
  assumes ttl_pos: "0 < ttl"
    and hit: "held s = Some (v, t) \<Longrightarrow> clock e - t < ttl \<Longrightarrow> answer e s = (s, Inr v)"
    and miss: "\<forall>v t. held s = Some (v, t) \<longrightarrow> \<not> clock e - t < ttl \<Longrightarrow>
      (case build e of Inl x \<Rightarrow> answer e s = (s, Inl x)
       | Inr v \<Rightarrow> \<exists>s1. answer e s = (s1, Inr v) \<and> held s1 = Some (v, clock e))"
begin

lemma held_step:
  assumes "\<And>v t. held s = Some (v, t) \<Longrightarrow> \<exists>d \<in> set es. build d = Inr v \<and> t = clock d"
    and "held (fst (answer e s)) = Some (v, t)"
  shows "\<exists>d \<in> set (es @ [e]). build d = Inr v \<and> t = clock d"
proof (cases "\<exists>w u. held s = Some (w, u) \<and> clock e - u < ttl")
  case True
  then obtain w u where "held s = Some (w, u)" "clock e - u < ttl" by blast
  from hit [OF this] assms show ?thesis by auto
next
  case False
  then have "\<forall>v t. held s = Some (v, t) \<longrightarrow> \<not> clock e - t < ttl" by blast
  from miss [OF this] assms show ?thesis by (cases "build e") auto
qed

lemma held_run:
  "(\<And>v t. held s = Some (v, t) \<Longrightarrow> \<exists>d \<in> set es. build d = Inr v \<and> t = clock d) \<Longrightarrow>
   held (fold (\<lambda>e s. fst (answer e s)) ds s) = Some (v, t) \<Longrightarrow> \<exists>d \<in> set (es @ ds). build d = Inr v \<and> t = clock d"
proof (induction ds arbitrary: s es)
  case (Cons e ds)
  have "\<exists>d \<in> set (es @ [e]). build d = Inr w \<and> u = clock d" if "held (fst (answer e s)) = Some (w, u)" for w u
    using held_step [OF Cons.prems(1) that] .
  from Cons.IH [OF this] Cons.prems(2) show ?case by simp
qed simp

lemma recent_answer:
  assumes "held s0 = None" "answer e (fold (\<lambda>e s. fst (answer e s)) ds s0) = (s1, Inr v)"
  shows "\<exists>d \<in> set (ds @ [e]). build d = Inr v \<and> clock e - clock d < ttl"
proof -
  define s where "s = fold (\<lambda>e s. fst (answer e s)) ds s0"
  show ?thesis
  proof (cases "\<exists>w u. held s = Some (w, u) \<and> clock e - u < ttl")
    case True
    then obtain w u where w: "held s = Some (w, u)" "clock e - u < ttl" by blast
    from hit [OF w] assms(2) have "w = v" by (simp add: s_def)
    with held_run [of s0 "[]" ds w u] assms(1) w show ?thesis by (auto simp: s_def)
  next
    case False
    then have "\<forall>v t. held s = Some (v, t) \<longrightarrow> \<not> clock e - t < ttl" by blast
    from miss [OF this] assms(2) ttl_pos show ?thesis by (cases "build e") (auto simp: s_def)
  qed
qed

lemma always_answers:
  assumes "build e = Inr w"
  shows "\<exists>s1 v. answer e s = (s1, Inr v)"
proof (cases "\<exists>w u. held s = Some (w, u) \<and> clock e - u < ttl")
  case True
  then obtain w u where "held s = Some (w, u)" "clock e - u < ttl" by blast
  from hit [OF this] show ?thesis by blast
next
  case False
  then have "\<forall>v t. held s = Some (v, t) \<longrightarrow> \<not> clock e - t < ttl" by blast
  from miss [OF this] assms show ?thesis by auto
qed

end

lemma build_index_time: "build_index cf env = Inr idx \<Longrightarrow> px_built idx = en_now env"
  by (auto simp: build_index_def Let_def split: sum.splits)

interpretation pypi_ttl: ttl_answers "buildOrGetIndex cf" "build_index cf" en_now "map_option (\<lambda>i. (i, px_built i))" indexTTL for cf
proof unfold_locales
  show "0 < indexTTL" by (simp add: indexTTL_def)
qed (auto simp: buildOrGetIndex_def dest: build_index_time split: option.splits sum.splits)

section \<open>The generic index and download\<close>

record ListedFile =
  lf_ID :: int
  lf_ProjectID :: int
  lf_Version :: string
  lf_Filename :: string
  lf_OS :: string
  lf_Arch :: string
  lf_Ext :: string
  lf_SizeBytes :: int
  lf_Checksum :: string
  lf_DownloadURL :: string

definition listed :: "file_row \<Rightarrow> ListedFile" where
  "listed f = \<lparr>lf_ID = f_id f, lf_ProjectID = f_project_id f, lf_Version = f_version f, lf_Filename = f_filename f,
     lf_OS = f_os f, lf_Arch = f_arch f, lf_Ext = f_ext f, lf_SizeBytes = f_size_bytes f, lf_Checksum = f_checksum f,
     lf_DownloadURL = ''/repo/files/'' @ format_int (f_id f)\<rparr>"

text \<open>The cached payload with its time; \<open>enc\<close> encodes the index as JSON.\<close>

type_synonym index_state = "(string \<times> int) option"

definition index_payload :: "(ListedFile list \<Rightarrow> string) \<Rightarrow> apt_env \<Rightarrow> sql_err + string" where
  "index_payload enc env =
     (case file_ListComplete 0 (en_db env) of Inl e \<Rightarrow> Inl e | Inr files \<Rightarrow> Inr (enc (map listed files)))"

definition index_answer :: "(ListedFile list \<Rightarrow> string) \<Rightarrow> apt_env \<Rightarrow> index_state \<Rightarrow> index_state \<times> (sql_err + string)" where
  "index_answer enc env s =
     (case s of
        Some (cached, cachedAt) \<Rightarrow>
          if en_now env - cachedAt < 30 * 10 ^ 9 then (s, Inr cached)
          else (case index_payload enc env of Inl e \<Rightarrow> (s, Inl e) | Inr p \<Rightarrow> (Some (p, en_now env), Inr p))
      | None \<Rightarrow> (case index_payload enc env of Inl e \<Rightarrow> (s, Inl e) | Inr p \<Rightarrow> (Some (p, en_now env), Inr p)))"

definition ServeIndex ::
  "(ListedFile list \<Rightarrow> string) \<Rightarrow> (string \<Rightarrow> string \<Rightarrow> string) \<Rightarrow> apt_env \<Rightarrow> index_state \<Rightarrow> index_state \<times> rw_call list" where
  "ServeIndex enc json env s =
     (case index_answer enc env s of
        (s1, Inl e) \<Rightarrow> (s1, WriteError json 500 ''INTERNAL_ERROR'' ''list servable files'')
      | (s1, Inr p) \<Rightarrow> (s1, [SetHeader ''Content-Type'' ''application/json'', SetHeader ''Cache-Control'' ''public, max-age=30'', Write p]))"

definition ServeFile :: "(string \<Rightarrow> string \<Rightarrow> string) \<Rightarrow> apt_env \<Rightarrow> string \<Rightarrow> rw_call list" where
  "ServeFile json env pathID =
     (case ParseInt64 pathID of
        None \<Rightarrow> WriteError json 400 ''VALIDATION'' ''invalid file id''
      | Some i \<Rightarrow>
          if i \<le> 0 then WriteError json 400 ''VALIDATION'' ''invalid file id''
          else (case file_GetByID i (en_db env) of
              Inl e \<Rightarrow> WriteError json 404 ''NOT_FOUND'' ''file not found''
            | Inr None \<Rightarrow> WriteError json 404 ''NOT_FOUND'' ''file not found''
            | Inr (Some f) \<Rightarrow> StreamFile env f))"

interpretation index_ttl: ttl_answers "index_answer enc" "index_payload enc" en_now "\<lambda>s. s" "30 * 10 ^ 9" for enc
  by unfold_locales (auto simp: index_answer_def split: option.splits sum.splits)

section \<open>What the pages list\<close>

lemma by_project_iff:
  assumes "distinct (map p_id ps)"
  shows "by_project ps i = Some n \<longleftrightarrow> (\<exists>p \<in> set ps. is_pypi p \<and> p_id p = i \<and> normalizePyPIProject (p_name p) = n)"
proof -
  have "fold (\<lambda>p m. m(p_id p \<mapsto> normalizePyPIProject (p_name p))) qs m i = Some n \<longleftrightarrow>
      (\<exists>p \<in> set qs. p_id p = i \<and> normalizePyPIProject (p_name p) = n) \<or> i \<notin> p_id ` set qs \<and> m i = Some n"
    if "distinct (map p_id qs)" for qs m
    using that by (induction qs arbitrary: m) (auto 0 3)
  from this [of "filter is_pypi ps" Map.empty] assms show ?thesis
    by (auto simp: by_project_def distinct_map_filter)
qed

definition has_dists :: "database \<Rightarrow> string \<Rightarrow> bool" where
  "has_dists d n \<longleftrightarrow> (\<exists>p \<in> set (t_projects d). is_pypi p \<and> normalizePyPIProject (p_name p) = n \<and>
     (\<exists>f \<in> set (t_files d). f_status f = ''complete'' \<and> isPyPIDist (f_filename f) \<and> f_project_id f = p_id p))"

definition in_project :: "database \<Rightarrow> string \<Rightarrow> int \<Rightarrow> bool" where
  "in_project d n i \<longleftrightarrow> (\<exists>p \<in> set (t_projects d). is_pypi p \<and> p_id p = i \<and> normalizePyPIProject (p_name p) = n)"

lemma scan_project_keeps [simp]: "p_id (scanProject sd p) = p_id p" "p_name (scanProject sd p) = p_name p"
  "is_pypi (scanProject sd p) = is_pypi p"
  by (simp_all add: scanProject_def is_pypi_def)

lemma listed_set: "file_ListComplete 0 d = Inr fs \<Longrightarrow> set fs = {f \<in> set (t_files d). f_status f = ''complete''}"
  using scan_files_InrD by (fastforce simp: file_ListComplete_def)

lemma index_exact:
  assumes "build_index cf e = Inr idx" "distinct (map p_id (t_projects (en_db e)))"
  shows "(n \<in> set (px_packages idx)) = has_dists (en_db e) n" "(px_byProject idx i = Some n) = in_project (en_db e) n i"
proof -
  define ps where "ps = project_List (pf_subdir cf) (en_db e)"
  have sp: "set ps = scanProject (pf_subdir cf) ` set (t_projects (en_db e))" by (simp add: ps_def project_List_def)
  have "mset (map p_id ps) = mset (map p_id (t_projects (en_db e)))"
    by (simp add: ps_def project_List_def comp_def flip: mset_map) (metis mset_map mset_sort)
  then have d: "distinct (map p_id ps)" using assms(2) by (metis mset_eq_imp_distinct_iff)
  from assms(1) obtain fs where fs: "file_ListComplete 0 (en_db e) = Inr fs"
    and idx: "px_packages idx = packages_of ps fs" "px_byProject idx = by_project ps"
    by (auto simp: build_index_def ps_def Let_def split: sum.splits)
  show "(px_byProject idx i = Some n) = in_project (en_db e) n i"
    unfolding idx by_project_iff [OF d] sp in_project_def by auto
  have nm: "the (by_project ps (p_id p)) = normalizePyPIProject (p_name p)" if "p \<in> set ps" "is_pypi p" for p
    using by_project_iff [OF d, of "p_id p" "normalizePyPIProject (p_name p)"] that by auto
  have "n \<in> set (packages_of ps fs) \<longleftrightarrow>
      (\<exists>p \<in> set ps. is_pypi p \<and> p_id p \<in> set (served_projects fs) \<and> normalizePyPIProject (p_name p) = n)"
    using nm by (auto simp: packages_of_def)
  moreover have "i \<in> set (served_projects fs) \<longleftrightarrow> (\<exists>f \<in> set (t_files (en_db e)). f_status f = ''complete'' \<and> isPyPIDist (f_filename f) \<and> f_project_id f = i)" for i
    using listed_set [OF fs] by (auto simp: served_projects_def image_iff)
  ultimately show "(n \<in> set (px_packages idx)) = has_dists (en_db e) n"
    unfolding idx sp has_dists_def by auto
qed

definition sorts_files :: "(pypiFile list \<Rightarrow> pypiFile list) \<Rightarrow> bool" where
  "sorts_files f \<longleftrightarrow> (\<forall>ds. mset (f ds) = mset ds \<and> sorted (map py_filename (f ds)))"

lemma pypi_Serve_state: "fst (pypi_Serve cf env c u s) = fst (buildOrGetIndex cf env s)"
  by (auto simp: pypi_Serve_def serveRootIndex_def serveProjectIndex_def Let_def split: prod.splits sum.splits if_splits)

text \<open>A chain of requests to the package index.\<close>

definition pypi_run :: "pypi_conf \<Rightarrow> (apt_env \<times> string) list \<Rightarrow> pypiIndexCache option" where
  "pypi_run cf cs = fold (\<lambda>c s. fst (pypi_Serve cf (fst c) (snd c) (''/simple/'' @ snd c) s)) cs None"

lemma pypi_run_eq: "pypi_run cf cs = fold (\<lambda>e s. fst (buildOrGetIndex cf e s)) (map fst cs) None"
  unfolding pypi_run_def pypi_Serve_state fold_map comp_def ..

text \<open>The links of a project page against the route \<^verbatim>\<open>GET /repo/files/{id}\<close> of cmd/mibeehive/init.go, whose
  wildcard matches one segment.\<close>

definition files_route :: "string \<Rightarrow> bool" where
  "files_route p \<longleftrightarrow> has_prefix p ''/repo/files/'' \<and> CHR ''/'' \<notin> set (drop 12 p)"

lemma file_url_unrouted: "\<not> files_route (file_url ''/repo/files'' d)"
  by (simp add: files_route_def file_url_def)

lemma listed_url_routed: "files_route (lf_DownloadURL (listed f))"
  by (simp add: files_route_def listed_def)

lemma escape_safe:
  "set (escapeHTMLText s) \<inter> {CHR ''<'', CHR ''>'', CHR 0x27} = {}"
  by (auto simp: escapeHTMLText_def split: if_splits)

section \<open>Properties\<close>

text \<open>normalizePyPIProject gives the form of PEP 503: the lower-case words of the name, which any of
  the separators set off, joined by single hyphens. Normalising twice changes nothing, and two names
  have the same form exactly when they have the same words.\<close>

theorem normalizePyPIProject_words:
  "normalizePyPIProject s = join_char CHR ''-'' (name_words s) \<and>
   normalizePyPIProject (normalizePyPIProject s) = normalizePyPIProject s \<and>
   (normalizePyPIProject s = normalizePyPIProject t \<longleftrightarrow> name_words s = name_words t)"
  using words_of_join [OF words_ok] normalize_words by metis

text \<open>itoa prints every 64-bit integer in decimal but the least one, of which only the sign is left.\<close>

theorem itoa_exact: "itoa n = (if sint n = - (2 ^ 63) then ''-'' else format_int (sint n))"
proof -
  consider "sint n = - (2 ^ 63)" | "n = 0" | "sint n < 0" "sint n \<noteq> - (2 ^ 63)" | "0 < sint n"
    by (metis linorder_neqE_linordered_idom signed_0 signed_eq_0_iff)
  then show ?thesis
  proof cases
    case 1
    have "word_of_int (sint n) = n" by simp
    then have "word_of_int (- (2 ^ 63)) = n" unfolding 1 .
    then have "n = 0x8000000000000000" by auto
    then show ?thesis by (simp add: itoa_def)
  next
    case 2
    moreover have "format_int 0 = ''0''" by code_simp
    ultimately show ?thesis by (simp add: itoa_def)
  next
    case 3
    then have "n \<noteq> 0" by auto
    with 3 sint_minus [OF 3] show ?thesis by (simp add: itoa_def Let_def itoa_digits_format format_int_def)
  next
    case 4
    then have "n \<noteq> 0" "sint n \<noteq> - (2 ^ 63)" by auto
    with 4 show ?thesis by (simp add: itoa_def Let_def itoa_digits_format format_int_def)
  qed
qed

text \<open>C27: Whatever requests came before, a project page is made from an index built less than thirty
  seconds ago: it is found exactly when a Python project of that normalised name then had a stored
  distribution, and lists, sorted by name, exactly the stored distributions of such projects, each
  once.\<close>

theorem pypi_project_page:
  assumes "sorts_files (pf_sort cf)" "file_ListComplete 0 (en_db env) = Inr files" "trim_char CHR ''/'' rest \<noteq> []"
    and "list_all (\<lambda>e. distinct (map p_id (t_projects (en_db e)))) (map fst cs @ [env])"
    and "norm = normalizePyPIProject (trim_char CHR ''/'' rest)"
    and "ans = snd (pypi_Serve cf env rest u (pypi_run cf cs))"
  shows "\<exists>e \<in> set (map fst cs @ [env]). en_now env - en_now e < indexTTL \<and>
    (if has_dists (en_db e) norm then
       \<exists>ds. mset ds = mset (map (pypi_dist norm) (filter (\<lambda>f. isPyPIDist (f_filename f) \<and> in_project (en_db e) norm (f_project_id f)) files)) \<and>
         sorted (map py_filename ds) \<and> ans = html_page (renderProjectIndex norm ds (pf_base cf))
     else ans = http_NotFound)"
proof -
  obtain w where "build_index cf env = Inr w" by (simp add: build_index_def assms(2) Let_def)
  from pypi_ttl.always_answers [OF this, of "pypi_run cf cs"] obtain s1 idx where
    b: "buildOrGetIndex cf env (pypi_run cf cs) = (s1, Inr idx)" by blast
  have "\<exists>e \<in> set (map fst cs @ [env]). build_index cf e = Inr idx \<and> en_now env - en_now e < indexTTL"
    by (rule pypi_ttl.recent_answer [OF _ b [unfolded pypi_run_eq]]) simp
  then obtain e where
    e: "e \<in> set (map fst cs @ [env])" "build_index cf e = Inr idx" "en_now env - en_now e < indexTTL" by blast
  then have k: "distinct (map p_id (t_projects (en_db e)))" using assms(4) by (auto simp: list_all_iff)
  note x = index_exact [OF e(2) k]
  have "rest \<noteq> []" using assms(3) by (auto simp: trim_char_def trim_right_char_def)
  then have "ans = snd (serveProjectIndex cf env (trim_char CHR ''/'' rest) (pypi_run cf cs))"
    using assms(3, 6) by (simp add: pypi_Serve_def Let_def)
  then have "ans = (if norm \<notin> set (px_packages idx) then http_NotFound
      else html_page (renderProjectIndex norm (pf_sort cf (project_dists idx norm files)) (pf_base cf)))"
    by (simp add: serveProjectIndex_def b assms(2, 5) Let_def)
  moreover have "mset (pf_sort cf (project_dists idx norm files)) = mset (project_dists idx norm files)"
    "sorted (map py_filename (pf_sort cf (project_dists idx norm files)))"
    using assms(1) unfolding sorts_files_def by blast+
  ultimately show ?thesis
    using e(1, 3) unfolding x(1) by (intro bexI [of _ e]) (auto simp: project_dists_def x(2))
qed

text \<open>Whatever requests came before, the generic index lists the complete files as they were less
  than thirty seconds ago, and following the link of a stored file streams that file.\<close>

theorem repo_index_serves:
  assumes "index_answer enc env (fold (\<lambda>e s. fst (index_answer enc e s)) es None) = (s, Inr p)"
    and "f \<in> set (t_files (en_db env))" "distinct (map f_id (t_files (en_db env)))" "f_source_type f \<noteq> None"
    and "0 < f_id f" "f_id f < 2 ^ 63"
  shows "(\<exists>e \<in> set (es @ [env]). en_now env - en_now e < 30 * 10 ^ 9 \<and>
      (\<exists>files. file_ListComplete 0 (en_db e) = Inr files \<and> p = enc (map listed files))) \<and>
    (\<exists>seg. lf_DownloadURL (listed f) = ''/repo/files/'' @ seg \<and> CHR ''/'' \<notin> set seg \<and> ServeFile json env seg = StreamFile env f)"
proof (intro conjI)
  have "\<exists>e \<in> set (es @ [env]). index_payload enc e = Inr p \<and> en_now env - en_now e < 30 * 10 ^ 9"
    by (rule index_ttl.recent_answer [OF _ assms(1)]) simp
  then obtain e where
    "e \<in> set (es @ [env])" "index_payload enc e = Inr p" "en_now env - en_now e < 30 * 10 ^ 9" by blast
  then show "\<exists>e \<in> set (es @ [env]). en_now env - en_now e < 30 * 10 ^ 9 \<and> (\<exists>files. file_ListComplete 0 (en_db e) = Inr files \<and> p = enc (map listed files))"
    by (intro bexI [of _ e]) (auto simp: index_payload_def split: sum.splits)
  have "row_by f_id (t_files (en_db env)) (f_id f) = Some f"
    using assms(2) by (simp add: row_by_eq_Some_iff [OF assms(3)])
  then have "file_GetByID (f_id f) (en_db env) = Inr (Some f)"
    using assms(4) by (auto simp: file_GetByID_def scan_opt_def scanFile_def)
  then have "ServeFile json env (format_int (f_id f)) = StreamFile env f"
    using assms(5, 6) by (simp add: ServeFile_def ParseInt64_format)
  then show "\<exists>seg. lf_DownloadURL (listed f) = ''/repo/files/'' @ seg \<and> CHR ''/'' \<notin> set seg \<and> ServeFile json env seg = StreamFile env f"
    by (intro exI [of _ "format_int (f_id f)"]) (simp add: listed_def)
qed

definition demo_dist :: file_row where
  "demo_dist = demo_row\<lparr>f_filename := ''My_Pkg-1.0.whl'', f_ext := ''whl''\<rparr>"

definition demo_pypi_env :: apt_env where
  "demo_pypi_env = demo_env\<lparr>en_db := (empty_db 3)\<lparr>t_files := [demo_dist],
     t_projects := [new_project ''My_Pkg'' ''P'' ''pypi'' [] ''{}'' \<lparr>p_id := 1\<rparr>]\<rparr>\<rparr>"

definition demo_pypi_conf :: pypi_conf where
  "demo_pypi_conf = \<lparr>pf_subdir = (\<lambda>c. None), pf_sort = sort_key py_filename, pf_json = (\<lambda>c m. c), pf_base = ''/repo/files''\<rparr>"

lemma demo_pypi:
  "sorts_files (pf_sort demo_pypi_conf)" "file_ListComplete 0 (en_db demo_pypi_env) = Inr [demo_dist]"
  "normalizePyPIProject (trim_char CHR ''/'' ''my.pkg/'') = ''my-pkg''" "trim_char CHR ''/'' ''my.pkg/'' \<noteq> []"
  "has_dists (en_db demo_pypi_env) ''my-pkg''" "isPyPIDist (f_filename demo_dist)"
  "in_project (en_db demo_pypi_env) ''my-pkg'' (f_project_id demo_dist)"
proof -
  show "sorts_files (pf_sort demo_pypi_conf)" by (simp add: sorts_files_def demo_pypi_conf_def)
  show "file_ListComplete 0 (en_db demo_pypi_env) = Inr [demo_dist]"
    by (simp add: file_ListComplete_def demo_pypi_env_def scanFile_def demo_dist_def demo_row_def)
qed code_simp+

theorem pypi_project_page_witness:
  "snd (pypi_Serve demo_pypi_conf demo_pypi_env ''my.pkg/'' [] (pypi_run demo_pypi_conf [(demo_pypi_env, [])])) =
   html_page (renderProjectIndex ''my-pkg'' [pypi_dist ''my-pkg'' demo_dist] ''/repo/files'')"
proof -
  have "list_all (\<lambda>e. distinct (map p_id (t_projects (en_db e)))) (map fst [(demo_pypi_env, [])] @ [demo_pypi_env])"
    by (simp add: demo_pypi_env_def)
  from pypi_project_page [OF demo_pypi(1, 2, 4) this refl refl, of "[]"] show ?thesis
    by (auto simp: demo_pypi demo_pypi_conf_def mset_single_iff)
qed

theorem repo_index_serves_witness:
  "\<exists>seg. lf_DownloadURL (listed demo_row) = ''/repo/files/'' @ seg \<and> ServeFile (\<lambda>c m. c) demo_env seg = StreamFile demo_env demo_row"
proof -
  define enc where "enc = (\<lambda>l :: ListedFile list. ''x'')"
  have "index_answer enc demo_env (fold (\<lambda>e s. fst (index_answer enc e s)) [] None) = (Some (''x'', 3), Inr ''x'')"
    by (simp add: index_answer_def index_payload_def demo_listed enc_def) (simp add: demo_env_def)
  moreover have "demo_row \<in> set (t_files (en_db demo_env))" "distinct (map f_id (t_files (en_db demo_env)))"
    "f_source_type demo_row \<noteq> None" "0 < f_id demo_row" "f_id demo_row < 2 ^ 63"
    by (simp_all add: demo_env_def demo_row_def)
  ultimately show ?thesis using repo_index_serves [where env = demo_env and f = demo_row and json = "\<lambda>c m. c"] by metis
qed

end
