(* ===== verification/Registry_Client.thy ===== *)
theory Registry_Client
  imports Go_Text
begin

text \<open>
  The client of container registries, src/internal/registry: auth.go, client.go, errors.go, tags.go,
  refs.go and catalog.go. The network is a parameter: \<open>re_do\<close> answers a request in a world and gives
  the world after it, \<open>re_now\<close> is the clock in a world. JSON decoders, \<^verbatim>\<open>url.Parse\<close> of a realm and
  \<^verbatim>\<open>url.QueryUnescape\<close> are parameters as well. A request keeps its path and its query apart, so a URL
  that was built is never parsed again.

  Following the pages of a tag list may never end, since the server decides; \<open>tags_loop\<close> is therefore a
  partial function and \<^const>\<open>None\<close> is a call that does not return.
\<close>

section \<open>Requests, answers, errors\<close>

record reg_request =
  rr_method :: string
  rr_host :: string
  rr_path :: string
  rr_query :: "(string \<times> string) list"
  rr_header :: "(string \<times> string) list"
  rr_body :: "string option"

text \<open>The body is all bytes, or an error of the connection.\<close>

record reg_response =
  rs_status :: int
  rs_text :: string
  rs_header :: "string \<Rightarrow> string"
  rs_body :: "string + string"

datatype reg_err =
    AuthError int string
  | NotFoundError int string
  | RateLimitError int string int
  | RegistryError int string string
  | Transport string
  | Decode string
  | Failure string
  | Wrapped string reg_err

definition set_key :: "string \<Rightarrow> string \<Rightarrow> (string \<times> string) list \<Rightarrow> (string \<times> string) list" where
  "set_key k v hs = filter (\<lambda>(j, w). j \<noteq> k) hs @ [(k, v)]"

section \<open>errors.go\<close>

definition registry_text :: "int \<Rightarrow> string \<Rightarrow> string \<Rightarrow> string" where
  "registry_text code msg detail =
     (if detail \<noteq> [] then ''registry error '' @ format_int code @ '': '' @ msg @ '': '' @ detail
      else ''registry error '' @ format_int code @ '': '' @ msg)"

text \<open>The text of an error; a wrapped one has the outer text first, as with the verb \<^verbatim>\<open>%w\<close>.\<close>

fun Error :: "reg_err \<Rightarrow> string" where
  "Error (AuthError code msg) = registry_text code msg []"
| "Error (NotFoundError code msg) = registry_text code msg []"
| "Error (RateLimitError code msg d) = registry_text code msg []"
| "Error (RegistryError code msg detail) = registry_text code msg detail"
| "Error (Transport t) = t"
| "Error (Decode t) = t"
| "Error (Failure t) = t"
| "Error (Wrapped t e) = t @ '': '' @ Error e"

definition second :: int where
  "second = 10 ^ 9"

definition parseRetryAfter :: "string \<Rightarrow> int" where
  "parseRetryAfter v = (case ParseInt64 v of Some d \<Rightarrow> wrap64 (d * second) | None \<Rightarrow> 60 * second)"

definition statusCodeError :: "reg_response \<Rightarrow> reg_err" where
  "statusCodeError resp =
     (let msg = rs_text resp;
          detail = (case rs_body resp of Inl e \<Rightarrow> [] | Inr b \<Rightarrow> take 512 b) in
      if rs_status resp = 401 then AuthError (rs_status resp) msg
      else if rs_status resp = 404 then NotFoundError (rs_status resp) msg
      else if rs_status resp = 429 then RateLimitError (rs_status resp) msg (parseRetryAfter (rs_header resp ''Retry-After''))
      else RegistryError (rs_status resp) msg detail)"

section \<open>auth.go: tokens\<close>

record cachedToken =
  ct_token :: string
  ct_expires :: int

type_synonym tokenCache = "string \<rightharpoonup> cachedToken"

definition tokens_Get :: "int \<Rightarrow> tokenCache \<Rightarrow> string \<Rightarrow> string option" where
  "tokens_Get now c scope =
     (case c scope of
        None \<Rightarrow> None
      | Some ct \<Rightarrow> if now > ct_expires ct then None else Some (ct_token ct))"

definition tokens_Set :: "int \<Rightarrow> string \<Rightarrow> string \<Rightarrow> int \<Rightarrow> tokenCache \<Rightarrow> tokenCache" where
  "tokens_Set now scope token expiresIn c =
     (let buffer = (if expiresIn < 5 * 60 * second then (if expiresIn < 0 then - (- expiresIn div 2) else expiresIn div 2) else 5 * 60 * second) in
      c(scope \<mapsto> \<lparr>ct_token = token, ct_expires = now + (expiresIn - buffer)\<rparr>))"

section \<open>auth.go: challenges\<close>

record authChallenge =
  ch_Scheme :: string
  ch_Realm :: string
  ch_Service :: string
  ch_Scope :: string

text \<open>One part of a challenge, between commas.\<close>

definition parse_part :: "string \<Rightarrow> (string \<times> string) option" where
  "parse_part part0 =
     (let part = trim_space part0 in
      case index_char CHR ''='' part of
        None \<Rightarrow> None
      | Some eqIdx \<Rightarrow> Some (take eqIdx part, trim_char CHR 0x22 (drop (eqIdx + 1) part)))"

definition parseKV :: "string \<Rightarrow> (string \<times> string) list" where
  "parseKV s = List.map_filter parse_part (split_char CHR '','' s)"

fun set_param :: "string \<times> string \<Rightarrow> authChallenge \<Rightarrow> authChallenge" where
  "set_param (k, v) c =
     (if k = ''realm'' then c\<lparr>ch_Realm := v\<rparr>
      else if k = ''service'' then c\<lparr>ch_Service := v\<rparr>
      else if k = ''scope'' then c\<lparr>ch_Scope := v\<rparr>
      else c)"

definition parseWWWAuthenticate :: "string \<Rightarrow> reg_err + authChallenge" where
  "parseWWWAuthenticate header0 =
     (let header = trim_space header0 in
      case index_char CHR '' '' header of
        None \<Rightarrow> Inr \<lparr>ch_Scheme = header, ch_Realm = [], ch_Service = [], ch_Scope = []\<rparr>
      | Some spaceIdx \<Rightarrow>
          let challenge = fold set_param (parseKV (drop (spaceIdx + 1) header))
                \<lparr>ch_Scheme = take spaceIdx header, ch_Realm = [], ch_Service = [], ch_Scope = []\<rparr> in
          if ch_Scheme challenge \<noteq> ''Basic'' \<and> ch_Scheme challenge \<noteq> ''Bearer''
          then Inl (Failure (''unsupported auth scheme: '' @ ch_Scheme challenge))
          else Inr challenge)"

section \<open>The client\<close>

record credentials =
  cr_Username :: string
  cr_Password :: string

record tokenResponse =
  tr_Token :: string
  tr_ExpiresIn :: int
  tr_AccessToken :: string

record 'w registry_env =
  re_do :: "reg_request \<Rightarrow> 'w \<Rightarrow> 'w \<times> (string + reg_response)"
  re_now :: "'w \<Rightarrow> int"
  re_base64 :: "string \<Rightarrow> string"
  re_realm :: "string \<Rightarrow> (string + string \<times> string \<times> (string \<times> string) list)"
  re_unescape :: "string \<Rightarrow> string"
  re_token_json :: "string \<Rightarrow> string + tokenResponse"
  re_tags_json :: "string \<Rightarrow> string + string list"
  re_catalog_json :: "string \<Rightarrow> string + string list"

record client =
  cl_host :: string
  cl_basePath :: string
  cl_credentials :: "credentials option"
  cl_tokens :: tokenCache

definition authenticateBasic :: "'w registry_env \<Rightarrow> credentials \<Rightarrow> string" where
  "authenticateBasic env creds = ''Basic '' @ re_base64 env (cr_Username creds @ '':'' @ cr_Password creds)"

text \<open>The request to the token endpoint.\<close>

definition token_request :: "'w registry_env \<Rightarrow> authChallenge \<Rightarrow> credentials option \<Rightarrow> string \<times> string \<times> (string \<times> string) list \<Rightarrow> reg_request" where
  "token_request env ch creds u = (case u of (host, path, q0) \<Rightarrow>
     let q1 = (if ch_Service ch \<noteq> [] then set_key ''service'' (ch_Service ch) q0 else q0);
         q2 = (if ch_Scope ch \<noteq> [] then set_key ''scope'' (ch_Scope ch) q1 else q1);
         hs = (case creds of
                 Some c \<Rightarrow> if cr_Username c \<noteq> [] then [(''Authorization'', authenticateBasic env c)] else []
               | None \<Rightarrow> [])
     in \<lparr>rr_method = ''GET'', rr_host = host, rr_path = path, rr_query = q2, rr_header = hs, rr_body = None\<rparr>)"

definition authenticateBearer ::
  "'w registry_env \<Rightarrow> authChallenge \<Rightarrow> credentials option \<Rightarrow> 'w \<Rightarrow> 'w \<times> (reg_err + string \<times> int)" where
  "authenticateBearer env ch creds w =
     (case re_realm env (ch_Realm ch) of
        Inl e \<Rightarrow> (w, Inl (Wrapped ''parse auth realm URL'' (Failure e)))
      | Inr u \<Rightarrow>
          (case re_do env (token_request env ch creds u) w of
             (w1, Inl e) \<Rightarrow> (w1, Inl (Wrapped ''token request failed'' (Transport e)))
           | (w1, Inr resp) \<Rightarrow>
               if rs_status resp \<noteq> 200
               then (w1, Inl (Failure (''token endpoint returned '' @ format_int (rs_status resp) @ '': '' @
                      (case rs_body resp of Inl e \<Rightarrow> [] | Inr b \<Rightarrow> take 512 b))))
               else (case (case rs_body resp of Inl e \<Rightarrow> Inl e | Inr b \<Rightarrow> re_token_json env (take (64 * 1024) b)) of
                   Inl e \<Rightarrow> (w1, Inl (Wrapped ''decode token response'' (Decode e)))
                 | Inr t \<Rightarrow>
                     let token = (if tr_Token t = [] then tr_AccessToken t else tr_Token t) in
                     if token = [] then (w1, Inl (Failure ''token response contained no token''))
                     else let e0 = wrap64 (tr_ExpiresIn t * second) in
                       (w1, Inr (token, if e0 \<le> 0 then 60 * 60 * second else e0)))))"

definition resolveAuth :: "'w registry_env \<Rightarrow> string \<Rightarrow> client \<Rightarrow> 'w \<Rightarrow> 'w \<times> client \<times> (reg_err + string)" where
  "resolveAuth env wwwAuth cl w =
     (case parseWWWAuthenticate wwwAuth of
        Inl e \<Rightarrow> (w, cl, Inl (Wrapped ''parse www-authenticate'' e))
      | Inr ch \<Rightarrow>
          if ch_Scheme ch = ''Basic'' then
            (case cl_credentials cl of
               None \<Rightarrow> (w, cl, Inl (AuthError 401 ''basic auth required but no credentials provided''))
             | Some c \<Rightarrow> (w, cl, Inr (authenticateBasic env c)))
          else if ch_Scheme ch = ''Bearer'' then
            (case tokens_Get (re_now env w) (cl_tokens cl) (ch_Scope ch) of
               Some cached \<Rightarrow> (w, cl, Inr (''Bearer '' @ cached))
             | None \<Rightarrow>
                 (case authenticateBearer env ch (cl_credentials cl) w of
                    (w1, Inl e) \<Rightarrow> (w1, cl, Inl (Wrapped ''bearer auth'' e))
                  | (w1, Inr (token, expiresIn)) \<Rightarrow>
                      (w1, cl\<lparr>cl_tokens := tokens_Set (re_now env w1) (ch_Scope ch) token expiresIn (cl_tokens cl)\<rparr>,
                       Inr (''Bearer '' @ token))))
          else (w, cl, Inl (Failure (''unsupported auth scheme: '' @ ch_Scheme ch))))"

definition scopeFromPath :: "string \<Rightarrow> string" where
  "scopeFromPath path = (if path = ''/v2/'' \<or> path = ''/v2'' then [] else path)"

definition newRequest :: "client \<Rightarrow> string \<Rightarrow> string \<Rightarrow> reg_request" where
  "newRequest cl mth path = \<lparr>rr_method = mth, rr_host = cl_host cl, rr_path = cl_basePath cl @ path, rr_query = [],
     rr_header = [], rr_body = None\<rparr>"

text \<open>The request that is sent first, and the one that is sent again with an answer to the challenge.\<close>

definition first_try :: "int \<Rightarrow> client \<Rightarrow> reg_request \<Rightarrow> reg_request" where
  "first_try now cl req =
     (case tokens_Get now (cl_tokens cl) (scopeFromPath (rr_path req)) of
        Some cached \<Rightarrow> req\<lparr>rr_header := set_key ''Authorization'' (''Bearer '' @ cached) (rr_header req)\<rparr>
      | None \<Rightarrow> req)"

definition second_try :: "reg_request \<Rightarrow> string \<Rightarrow> reg_request" where
  "second_try req authHeader = req\<lparr>rr_header := set_key ''Authorization'' authHeader (rr_header req), rr_body := None\<rparr>"

definition doRequest :: "'w registry_env \<Rightarrow> reg_request \<Rightarrow> client \<Rightarrow> 'w \<Rightarrow> 'w \<times> client \<times> (reg_err + reg_response)" where
  "doRequest env req0 cl w =
     (let req = first_try (re_now env w) cl req0 in
      case re_do env req w of
        (w1, Inl e) \<Rightarrow> (w1, cl, Inl (Wrapped ''request failed'' (Transport e)))
      | (w1, Inr resp) \<Rightarrow>
          if rs_status resp = 401 then
            (let wwwAuth = rs_header resp ''WWW-Authenticate'' in
             if wwwAuth = [] then (w1, cl, Inl (AuthError (rs_status resp) ''401 with no WWW-Authenticate header''))
             else (case resolveAuth env wwwAuth cl w1 of
                 (w2, cl2, Inl e) \<Rightarrow> (w2, cl2, Inl (Wrapped ''auth refresh'' e))
               | (w2, cl2, Inr authHeader) \<Rightarrow>
                   (case re_do env (second_try req authHeader) w2 of
                      (w3, Inl e) \<Rightarrow> (w3, cl2, Inl (Wrapped ''retry request'' (Transport e)))
                    | (w3, Inr resp2) \<Rightarrow> (w3, cl2, Inr resp2))))
          else (w1, cl, Inr resp))"

definition Ping :: "'w registry_env \<Rightarrow> client \<Rightarrow> 'w \<Rightarrow> 'w \<times> client \<times> (reg_err + unit)" where
  "Ping env cl w =
     (case re_do env (newRequest cl ''GET'' ''/v2/'') w of
        (w1, Inl e) \<Rightarrow> (w1, cl, Inl (Wrapped ''ping request'' (Transport e)))
      | (w1, Inr resp) \<Rightarrow>
          if rs_status resp = 200 then (w1, cl, Inr ())
          else if rs_status resp = 401 then
            (let wwwAuth = rs_header resp ''WWW-Authenticate'' in
             if wwwAuth = [] then (w1, cl, Inl (AuthError (rs_status resp) ''401 with no WWW-Authenticate header''))
             else (case resolveAuth env wwwAuth cl w1 of
                 (w2, cl2, Inl e) \<Rightarrow> (w2, cl2, Inl (Wrapped ''auth negotiation'' e))
               | (w2, cl2, Inr authHeader) \<Rightarrow>
                   (case re_do env ((newRequest cl ''GET'' ''/v2/'')\<lparr>rr_header := [(''Authorization'', authHeader)]\<rparr>) w2 of
                      (w3, Inl e) \<Rightarrow> (w3, cl2, Inl (Wrapped ''retry ping request'' (Transport e)))
                    | (w3, Inr r2) \<Rightarrow> (w3, cl2, if rs_status r2 \<noteq> 200 then Inl (statusCodeError r2) else Inr ()))))
          else (w1, cl, Inl (statusCodeError resp)))"

section \<open>tags.go and catalog.go\<close>

record tagsPage =
  tp_tags :: "string list"
  tp_hasMore :: bool
  tp_nextLast :: string

definition parseLinkNext :: "string \<Rightarrow> string option" where
  "parseLinkNext link =
     (case (index_char CHR ''<'' link, index_char CHR ''>'' link) of
        (Some start, Some end) \<Rightarrow>
          if end \<le> start then None
          else if contains_sub (drop (end + 1) link) (''rel='' @ [CHR 0x22] @ ''next'' @ [CHR 0x22])
            then Some (drop (start + 1) (take end link)) else None
      | _ \<Rightarrow> None)"

definition upto_char :: "char \<Rightarrow> string \<Rightarrow> string" where
  "upto_char c s = (case index_char c s of None \<Rightarrow> s | Some i \<Rightarrow> take i s)"

definition link_last :: "'w registry_env \<Rightarrow> string \<Rightarrow> string" where
  "link_last env nextURL =
     (case index_sub nextURL ''last='' of
        None \<Rightarrow> []
      | Some idx \<Rightarrow> re_unescape env (upto_char CHR ''>'' (upto_char CHR ''&'' (drop (idx + 5) nextURL))))"

definition tags_page :: "'w registry_env \<Rightarrow> string \<Rightarrow> string list \<Rightarrow> tagsPage" where
  "tags_page env link tags =
     (case (if link \<noteq> [] then parseLinkNext link else None) of
        None \<Rightarrow> \<lparr>tp_tags = tags, tp_hasMore = False, tp_nextLast = []\<rparr>
      | Some nextURL \<Rightarrow> \<lparr>tp_tags = tags, tp_hasMore = True, tp_nextLast = link_last env nextURL\<rparr>)"

definition page_query :: "int \<Rightarrow> string \<Rightarrow> (string \<times> string) list" where
  "page_query n lst = (if n > 0 then [(''n'', format_int n)] else []) @ (if lst \<noteq> [] then [(''last'', lst)] else [])"

definition tags_request :: "client \<Rightarrow> string \<Rightarrow> int \<Rightarrow> string \<Rightarrow> reg_request" where
  "tags_request cl repo n lst = (newRequest cl ''GET'' (''/v2/'' @ repo @ ''/tags/list''))\<lparr>rr_query := page_query n lst\<rparr>"

definition fetchTagsPage ::
  "'w registry_env \<Rightarrow> string \<Rightarrow> int \<Rightarrow> string \<Rightarrow> client \<Rightarrow> 'w \<Rightarrow> 'w \<times> client \<times> (reg_err + tagsPage)" where
  "fetchTagsPage env repo n lst cl w =
     (case doRequest env (tags_request cl repo n lst) cl w of
        (w1, cl1, Inl e) \<Rightarrow> (w1, cl1, Inl (Wrapped ''tags request'' e))
      | (w1, cl1, Inr resp) \<Rightarrow>
          if rs_status resp \<noteq> 200 then (w1, cl1, Inl (statusCodeError resp))
          else (case (case rs_body resp of Inl e \<Rightarrow> Inl e | Inr b \<Rightarrow> re_tags_json env (take (1024 * 1024) b)) of
              Inl e \<Rightarrow> (w1, cl1, Inl (Wrapped ''decode tags response'' (Decode e)))
            | Inr tags \<Rightarrow> (w1, cl1, Inr (tags_page env (rs_header resp ''Link'') tags))))"

definition Tags :: "'w registry_env \<Rightarrow> string \<Rightarrow> int \<Rightarrow> string \<Rightarrow> client \<Rightarrow> 'w \<Rightarrow> 'w \<times> client \<times> (reg_err + string list)" where
  "Tags env repo n lst cl w =
     (case fetchTagsPage env repo n lst cl w of
        (w1, cl1, Inl e) \<Rightarrow> (w1, cl1, Inl e)
      | (w1, cl1, Inr p) \<Rightarrow> (w1, cl1, Inr (tp_tags p)))"

partial_function (option) tags_loop ::
  "'w registry_env \<Rightarrow> string \<Rightarrow> string list \<Rightarrow> string \<Rightarrow> client \<Rightarrow> 'w \<Rightarrow> ('w \<times> client \<times> (reg_err + string list)) option" where
  "tags_loop env repo allTags lst cl w =
     (case fetchTagsPage env repo 100 lst cl w of
        (w1, cl1, res) \<Rightarrow>
          (case res of
             Inl e \<Rightarrow> Some (w1, cl1, Inl e)
           | Inr p \<Rightarrow>
               if \<not> tp_hasMore p \<or> tp_tags p = [] then Some (w1, cl1, Inr (allTags @ tp_tags p))
               else tags_loop env repo (allTags @ tp_tags p)
                      (if tp_nextLast p \<noteq> [] then tp_nextLast p else last (tp_tags p)) cl1 w1))"

definition TagsWithPagination :: "'w registry_env \<Rightarrow> string \<Rightarrow> client \<Rightarrow> 'w \<Rightarrow> ('w \<times> client \<times> (reg_err + string list)) option" where
  "TagsWithPagination env repo cl w = tags_loop env repo [] [] cl w"

definition Catalog :: "'w registry_env \<Rightarrow> int \<Rightarrow> string \<Rightarrow> client \<Rightarrow> 'w \<Rightarrow> 'w \<times> client \<times> (reg_err + string list)" where
  "Catalog env n lst cl w =
     (case doRequest env ((newRequest cl ''GET'' ''/v2/_catalog'')\<lparr>rr_query := page_query n lst\<rparr>) cl w of
        (w1, cl1, Inl e) \<Rightarrow> (w1, cl1, Inl (Wrapped ''catalog request'' e))
      | (w1, cl1, Inr resp) \<Rightarrow>
          if rs_status resp = 404 \<or> rs_status resp = 403
          then (w1, cl1, Inl (Failure (''catalog: registry does not support /v2/_catalog endpoint (status '' @ format_int (rs_status resp) @
                ''); Docker Hub and some hosted registries do not expose this endpoint'')))
          else if rs_status resp \<noteq> 200 then (w1, cl1, Inl (statusCodeError resp))
          else (case (case rs_body resp of Inl e \<Rightarrow> Inl e | Inr b \<Rightarrow> re_catalog_json env (take (1024 * 1024) b)) of
              Inl e \<Rightarrow> (w1, cl1, Inl (Wrapped ''decode catalog response'' (Decode e)))
            | Inr rs \<Rightarrow> (w1, cl1, Inr rs)))"

section \<open>refs.go\<close>

definition ParseImageRef :: "string \<Rightarrow> string \<times> string" where
  "ParseImageRef ref =
     (case index_char CHR ''@'' ref of
        Some i \<Rightarrow> (take i ref, drop (i + 1) ref)
      | None \<Rightarrow>
          (case last_index_char CHR '':'' ref of
             Some c \<Rightarrow>
               (case last_index_char CHR ''/'' ref of
                  None \<Rightarrow> (take c ref, drop (c + 1) ref)
                | Some s \<Rightarrow> if c > s then (take c ref, drop (c + 1) ref) else (ref, ''latest''))
           | None \<Rightarrow> (ref, ''latest'')))"

section \<open>Challenges\<close>

definition quote :: char where
  "quote = CHR 0x22"

definition quoted :: "string \<Rightarrow> string \<Rightarrow> string" where
  "quoted k v = k @ CHR ''='' # quote # v @ [quote]"

definition value_plain :: "string \<Rightarrow> bool" where
  "value_plain v \<longleftrightarrow> list_all (\<lambda>c. plain_char c \<and> c \<noteq> quote \<and> c \<noteq> CHR '','') v"

lemma trim_value:
  assumes "value_plain v"
  shows "trim_char quote (quote # v @ [quote]) = v" "trim_char quote (quote # v) = v"
proof -
  have v: "v = [] \<or> hd v \<noteq> quote \<and> last v \<noteq> quote"
    using assms by (cases "v = []") (auto simp: value_plain_def list_all_iff)
  show "trim_char quote (quote # v) = v" using trim_char_ends [OF v, of "[quote]" "[]"] by simp
  show "trim_char quote (quote # v @ [quote]) = v"
  proof (cases "v = []")
    case True
    then show ?thesis by (simp add: trim_char_def trim_right_char_def)
  next
    case False
    then show ?thesis using trim_char_ends [OF v, of "[quote]" "[quote]"] by simp
  qed
qed

lemma quote_plain [simp]: "plain_char quote"
  by (simp add: quote_def plain_char_def)

lemma part_quoted:
  assumes "value_plain v" "k \<noteq> []" "list_all (\<lambda>c. plain_char c \<and> c \<noteq> CHR ''='') k"
  shows "parse_part (quoted k v) = Some (k, v)" "parse_part (k @ CHR ''='' # quote # v) = Some (k, v)"
proof -
  have kh: "plain_char (hd k)" "CHR ''='' \<notin> set k" using assms(2, 3) by (auto simp: list_all_iff)
  have i: "index_char CHR ''='' (k @ CHR ''='' # r) = Some (length k)" for r using kh(2) by (rule index_char_append)
  have "trim_space (quoted k v) = quoted k v"
    using kh assms(2) by (intro trim_space_plain) (simp add: quoted_def)
  then show "parse_part (quoted k v) = Some (k, v)"
    using trim_value(1) [OF assms(1)] i by (simp add: parse_part_def quoted_def quote_def [symmetric])
  have "plain_char (last (k @ CHR ''='' # quote # v))"
    using assms(1) by (cases "v = []") (auto simp: value_plain_def list_all_iff)
  then have "trim_space (k @ CHR ''='' # quote # v) = k @ CHR ''='' # quote # v"
    using kh assms(2) by (intro trim_space_plain) simp
  then show "parse_part (k @ CHR ''='' # quote # v) = Some (k, v)"
    using trim_value(2) [OF assms(1)] i by (simp add: parse_part_def quote_def [symmetric])
qed

lemma part_no_eq: "CHR ''='' \<notin> set s \<Longrightarrow> parse_part s = None"
  using trim_space_set [of s] by (auto simp: parse_part_def Let_def split: option.splits)

text \<open>A bearer challenge as servers write it, with the actions of its scope as a list.\<close>

definition scope_text :: "string \<Rightarrow> string list \<Rightarrow> string" where
  "scope_text resource actions = resource @ CHR '':'' # join_char CHR '','' actions"

definition challenge_text :: "string \<Rightarrow> string \<Rightarrow> string \<Rightarrow> string" where
  "challenge_text realm service scope =
     ''Bearer '' @ join_char CHR '','' [quoted ''realm'' realm, quoted ''service'' service, quoted ''scope'' scope]"

lemma parseKV_challenge:
  assumes "value_plain realm" "value_plain service" "value_plain resource" "actions \<noteq> []"
    "list_all (\<lambda>a. value_plain a \<and> CHR ''='' \<notin> set a) actions"
  shows "parseKV (join_char CHR '','' [quoted ''realm'' realm, quoted ''service'' service, quoted ''scope'' (scope_text resource actions)]) =
    [(''realm'', realm), (''service'', service), (''scope'', resource @ CHR '':'' # hd actions)]"
proof -
  obtain a as where ac: "actions = a # as" using assms(4) by (cases actions) auto
  define k where "k = ''scope'' @ CHR ''='' # quote # resource @ CHR '':'' # a"
  have q: "quote \<noteq> CHR '',''" by (simp add: quote_def)
  have nc: "CHR '','' \<notin> set v" if "value_plain v" for v using that by (auto simp: value_plain_def list_all_iff)
  have r: "value_plain (resource @ CHR '':'' # a)"
    using assms(3, 5) by (simp add: ac value_plain_def plain_char_def [of "CHR '':''"] quote_def)
  have parts: "split_char CHR '','' (join_char CHR '','' [quoted ''realm'' realm, quoted ''service'' service, quoted ''scope'' (scope_text resource actions)]) =
      [quoted ''realm'' realm, quoted ''service'' service] @
      (if as = [] then [quoted ''scope'' (resource @ CHR '':'' # a)] else k # butlast as @ [last as @ [quote]])"
  proof -
    have s1: "CHR '','' \<notin> set (quoted ''realm'' realm)" "CHR '','' \<notin> set (quoted ''service'' service)"
      using nc [OF assms(1)] nc [OF assms(2)] q by (simp_all add: quoted_def)
    have "split_char CHR '','' (quoted ''scope'' (scope_text resource actions)) =
      (if as = [] then [quoted ''scope'' (resource @ CHR '':'' # a)] else k # butlast as @ [last as @ [quote]])"
    proof (cases "as = []")
      case True
      then show ?thesis using nc [OF r] q
        by (intro trans [OF split_char_no_sep]) (auto simp: quoted_def scope_text_def ac)
    next
      case False
      have "quoted ''scope'' (scope_text resource actions) = join_char CHR '','' (k # butlast as @ [last as @ [quote]])"
      proof -
        have j: "join_char c (xs @ [x]) @ y = join_char c (xs @ [x @ y])" for c x y and xs :: "string list"
          by (induction xs) (simp_all add: join_char_Cons)
        have "join_char CHR '','' as @ [quote] = join_char CHR '','' (butlast as @ [last as @ [quote]])"
          using j [of "CHR '',''" "butlast as" "last as" "[quote]"] False by simp
        then show ?thesis using False by (simp add: quoted_def scope_text_def ac k_def join_char_Cons)
      qed
      moreover have "\<forall>w \<in> set (k # butlast as @ [last as @ [quote]]). CHR '','' \<notin> set w"
        using nc [OF r] q assms(5) False nc
        by (auto simp: ac k_def list_all_iff dest: in_set_butlastD last_in_set)
      ultimately show ?thesis using False by (simp add: split_join_char)
    qed
    then show ?thesis using s1 by (simp add: split_char_append_sep)
  qed
  have keys: "list_all (\<lambda>c. plain_char c \<and> c \<noteq> CHR ''='') ''realm''" "list_all (\<lambda>c. plain_char c \<and> c \<noteq> CHR ''='') ''service''"
    "list_all (\<lambda>c. plain_char c \<and> c \<noteq> CHR ''='') ''scope''" by (simp_all add: plain_char_def)
  note p = part_quoted(1) [OF assms(1) _ keys(1)] part_quoted(1) [OF assms(2) _ keys(2)]
    part_quoted(1) [OF r _ keys(3)] part_quoted(2) [OF r _ keys(3)]
  have none: "List.map_filter parse_part (butlast as @ [last as @ [quote]]) = []" if "as \<noteq> []"
  proof -
    have "CHR ''='' \<notin> set w" if "w \<in> set (butlast as @ [last as @ [quote]])" for w
      using that assms(5) \<open>as \<noteq> []\<close> by (auto simp: ac list_all_iff quote_def dest: in_set_butlastD last_in_set)
    then have "\<forall>w \<in> set (butlast as @ [last as @ [quote]]). parse_part w = None" using part_no_eq by blast
    then show ?thesis by (simp add: List.map_filter_def filter_empty_conv)
  qed
  show ?thesis
    unfolding parseKV_def parts using p none by (simp add: map_filter_simps k_def ac)
qed

lemma parse_challenge:
  assumes "value_plain realm" "value_plain service" "value_plain resource" "actions \<noteq> []"
    "list_all (\<lambda>a. value_plain a \<and> CHR ''='' \<notin> set a) actions"
  shows "parseWWWAuthenticate (challenge_text realm service (scope_text resource actions)) =
    Inr \<lparr>ch_Scheme = ''Bearer'', ch_Realm = realm, ch_Service = service, ch_Scope = resource @ CHR '':'' # hd actions\<rparr>"
proof -
  define rest where "rest = join_char CHR '','' [quoted ''realm'' realm, quoted ''service'' service, quoted ''scope'' (scope_text resource actions)]"
  have c: "challenge_text realm service (scope_text resource actions) = ''Bearer'' @ CHR '' '' # rest"
    by (simp add: challenge_text_def rest_def)
  have "last rest = quote" "rest \<noteq> []" by (simp_all add: rest_def quoted_def)
  then have t: "trim_space (''Bearer'' @ CHR '' '' # rest) = ''Bearer'' @ CHR '' '' # rest"
    by (intro trim_space_plain) (simp add: plain_char_def [of "CHR ''B''"])
  have i: "index_char CHR '' '' (''Bearer'' @ CHR '' '' # rest) = Some (length ''Bearer'')" by (rule index_char_append) simp
  have kv: "parseKV rest = [(''realm'', realm), (''service'', service), (''scope'', resource @ CHR '':'' # hd actions)]"
    unfolding rest_def by (rule parseKV_challenge [OF assms])
  show ?thesis
    unfolding c parseWWWAuthenticate_def t Let_def i using kv by simp
qed

section \<open>Paging\<close>

lemma index_sub_last:
  assumes "CHR ''='' \<notin> set a"
  shows "index_sub (a @ ''last='' @ b) ''last='' = Some (length a)"
  using assms
proof (induction a)
  case (Cons c a)
  have "\<not> has_prefix ((c # a) @ ''last='' @ b) ''last=''"
  proof
    assume "has_prefix ((c # a) @ ''last='' @ b) ''last=''"
    then obtain r where e: "(c # a) @ ''last='' @ b = ''last='' @ r" by (auto simp: has_prefix_iff)
    then have n: "((c # a) @ ''last='' @ b) ! 4 = CHR ''=''" by simp
    show False
    proof (cases "length a \<ge> 4")
      case True
      then have "((c # a) @ ''last='' @ b) ! 4 = (c # a) ! 4" by (simp add: nth_append)
      with n Cons.prems True show False by (metis length_Cons less_Suc_eq_le nth_mem)
    next
      case False
      then consider "length a = 0" | "length a = 1" | "length a = 2" | "length a = 3" by linarith
      then show False using n by cases (simp_all add: nth_append nth_Cons')
    qed
  qed
  with Cons show ?case by simp
qed simp

definition link_header :: "(string \<Rightarrow> string) \<Rightarrow> string \<Rightarrow> string \<Rightarrow> string" where
  "link_header esc repo lst = ''</v2/'' @ repo @ ''/tags/list?last='' @ esc lst @ ''&n=100>; rel='' @ [quote] @ ''next'' @ [quote]"

definition repo_ok :: "string \<Rightarrow> bool" where
  "repo_ok repo \<longleftrightarrow> CHR ''<'' \<notin> set repo \<and> CHR ''>'' \<notin> set repo \<and> CHR ''='' \<notin> set repo"

definition esc_ok :: "'w registry_env \<Rightarrow> (string \<Rightarrow> string) \<Rightarrow> string \<Rightarrow> bool" where
  "esc_ok env esc t \<longleftrightarrow> re_unescape env (esc t) = t \<and> CHR ''<'' \<notin> set (esc t) \<and> CHR ''>'' \<notin> set (esc t) \<and> CHR ''&'' \<notin> set (esc t)"

lemma parse_link:
  assumes "repo_ok repo" "esc_ok env esc l"
  shows "tags_page env (link_header esc repo l) tags = \<lparr>tp_tags = tags, tp_hasMore = True, tp_nextLast = l\<rparr>"
proof -
  define url where "url = ''/v2/'' @ repo @ ''/tags/list?last='' @ esc l @ ''&n=100''"
  define tail where "tail = ''; rel='' @ [quote] @ ''next'' @ [quote]"
  have lh: "link_header esc repo l = CHR ''<'' # url @ CHR ''>'' # tail" by (simp add: link_header_def url_def tail_def)
  have u: "CHR ''>'' \<notin> set url" "CHR ''<'' \<notin> set url" using assms by (simp_all add: url_def repo_ok_def esc_ok_def)
  have "index_char CHR ''>'' ((CHR ''<'' # url) @ CHR ''>'' # tail) = Some (length (CHR ''<'' # url))"
    by (rule index_char_append) (simp add: u)
  moreover have "contains_sub tail (''rel='' @ [CHR 0x22] @ ''next'' @ [CHR 0x22])"
    unfolding contains_sub_iff by (rule exI [of _ "''; ''"], rule exI [of _ "[]"]) (simp add: tail_def quote_def)
  ultimately have p: "parseLinkNext (link_header esc repo l) = Some url"
    by (simp add: parseLinkNext_def lh)
  define pre where "pre = ''/v2/'' @ repo @ ''/tags/list?''"
  have up: "url = pre @ ''last='' @ esc l @ ''&n=100''" by (simp add: url_def pre_def)
  have "CHR ''='' \<notin> set pre" using assms(1) by (simp add: repo_ok_def pre_def)
  then have i: "index_sub url ''last='' = Some (length pre)" unfolding up by (rule index_sub_last)
  have "drop (length pre + 5) url = esc l @ CHR ''&'' # ''n=100''" by (simp add: up)
  moreover have "upto_char CHR ''&'' (esc l @ CHR ''&'' # ''n=100'') = esc l"
    using assms(2) by (simp add: upto_char_def esc_ok_def index_char_append)
  moreover have "upto_char CHR ''>'' (esc l) = esc l"
    using assms(2) by (simp add: upto_char_def esc_ok_def flip: index_char_None_iff)
  ultimately have "link_last env url = l" using assms(2) i by (simp add: link_last_def esc_ok_def)
  moreover have "link_header esc repo l \<noteq> []" by (simp add: lh)
  ultimately show ?thesis by (simp add: tags_page_def p)
qed

text \<open>A registry that lists the tags of a repository in pages and links to the next page while there is one.\<close>

definition after_tag :: "string list \<Rightarrow> string \<Rightarrow> string list" where
  "after_tag tags lst = (if lst = [] then tags else tl (dropWhile (\<lambda>t. t \<noteq> lst) tags))"

definition query_last :: "reg_request \<Rightarrow> string" where
  "query_last req = (case map_of (rr_query req) ''last'' of None \<Rightarrow> [] | Some l \<Rightarrow> l)"

definition page_of :: "string list \<Rightarrow> string \<Rightarrow> string list" where
  "page_of tags lst = take 100 (after_tag tags lst)"

definition link_of :: "(string \<Rightarrow> string) \<Rightarrow> string \<Rightarrow> string list \<Rightarrow> string \<Rightarrow> string" where
  "link_of esc repo tags lst =
     (if length (after_tag tags lst) > 100 then link_header esc repo (last (page_of tags lst)) else [])"

definition lists_tags :: "'w registry_env \<Rightarrow> client \<Rightarrow> (string \<Rightarrow> string) \<Rightarrow> string \<Rightarrow> string list \<Rightarrow> bool" where
  "lists_tags env cl esc repo tags \<longleftrightarrow>
     (\<forall>req w. rr_host req = cl_host cl \<and> rr_path req = cl_basePath cl @ ''/v2/'' @ repo @ ''/tags/list'' \<and>
          query_last req \<in> insert [] (set tags) \<longrightarrow>
        (\<exists>resp b. re_do env req w = (w, Inr resp) \<and> rs_status resp = 200 \<and> rs_body resp = Inr b \<and>
           re_tags_json env (take (1024 * 1024) b) = Inr (page_of tags (query_last req)) \<and>
           rs_header resp ''Link'' = link_of esc repo tags (query_last req)))"

lemma fetch_page:
  assumes "lists_tags env cl esc repo tags" "lst \<in> insert [] (set tags)"
  shows "fetchTagsPage env repo 100 lst cl w = (w, cl, Inr (tags_page env (link_of esc repo tags lst) (page_of tags lst)))"
proof -
  define req where "req = first_try (re_now env w) cl (tags_request cl repo 100 lst)"
  have q: "rr_host req = cl_host cl" "rr_path req = cl_basePath cl @ ''/v2/'' @ repo @ ''/tags/list''" "query_last req = lst"
    by (auto simp: req_def first_try_def tags_request_def newRequest_def query_last_def page_query_def split: option.splits)
  with assms(2) have "query_last req \<in> insert [] (set tags)" by simp
  with assms(1) q obtain resp b where "re_do env req w = (w, Inr resp)" "rs_status resp = 200" "rs_body resp = Inr b"
    "re_tags_json env (take (1024 * 1024) b) = Inr (page_of tags lst)" "rs_header resp ''Link'' = link_of esc repo tags lst"
    unfolding lists_tags_def by metis
  then show ?thesis by (simp add: fetchTagsPage_def doRequest_def Let_def flip: req_def)
qed

lemma after_tag_split:
  assumes "distinct (old @ rest)" "[] \<notin> set (old @ rest)"
  shows "after_tag (old @ rest) (if old = [] then [] else last old) = rest"
proof (cases old rule: rev_cases)
  case (snoc d t)
  with assms have "t \<notin> set d" "t \<noteq> []" by auto
  then show ?thesis using snoc by (simp add: after_tag_def dropWhile_append)
qed (simp add: after_tag_def)

lemma tags_loop_all:
  assumes s: "lists_tags env cl esc repo tags" and r: "repo_ok repo" "list_all (esc_ok env esc) tags"
    and d: "distinct tags" "[] \<notin> set tags"
  shows "tags = old @ rest \<Longrightarrow>
    tags_loop env repo old (if old = [] then [] else last old) cl w = Some (w, cl, Inr tags)"
proof (induction "length rest" arbitrary: old rest rule: less_induct)
  case less
  define lst where "lst = (if old = [] then [] else last old)"
  have a: "after_tag tags lst = rest" using after_tag_split d less.prems unfolding lst_def by metis
  have l: "lst \<in> insert [] (set tags)" using less.prems by (auto simp: lst_def)
  define page where "page = take 100 rest"
  have pg: "page_of tags lst = page" by (simp add: page_of_def a page_def)
  show ?case
  proof (cases "length rest > 100")
    case False
    then have "page = rest" "link_of esc repo tags lst = []" by (simp_all add: page_def link_of_def a)
    then show ?thesis
      using less.prems fetch_page [OF s l, of w] pg
      by (subst tags_loop.simps) (simp add: tags_page_def flip: lst_def)
  next
    case True
    then have "page \<noteq> []" "set page \<subseteq> set tags"
      using less.prems set_take_subset [of 100 rest] by (auto simp: page_def)
    then have ne: "page \<noteq> []" "last page \<in> set tags" "last page \<noteq> []"
      using d(2) last_in_set [of page] by (auto simp del: last_in_set)
    have e: "esc_ok env esc (last page)" using r(2) ne(2) by (simp add: list_all_iff)
    have f: "fetchTagsPage env repo 100 lst cl w = (w, cl, Inr \<lparr>tp_tags = page, tp_hasMore = True, tp_nextLast = last page\<rparr>)"
      using fetch_page [OF s l, of w] parse_link [OF r(1) e] True by (simp add: link_of_def a pg)
    have "tags_loop env repo old lst cl w = tags_loop env repo (old @ page) (last page) cl w"
      using f ne by (subst tags_loop.simps) simp
    moreover have "tags = (old @ page) @ drop 100 rest" using less.prems by (simp add: page_def)
    moreover have "length (drop 100 rest) < length rest" using True by simp
    ultimately show ?thesis using less.hyps [of "drop 100 rest" "old @ page"] ne(1) by (simp add: lst_def)
  qed
qed

text \<open>A registry whose link never advances: the loop does not return.\<close>

definition stuck :: "'w registry_env \<Rightarrow> string \<Rightarrow> string \<Rightarrow> bool" where
  "stuck env repo t \<longleftrightarrow> (\<forall>l v c. fetchTagsPage env repo 100 l c v = (v, c, Inr \<lparr>tp_tags = [t], tp_hasMore = True, tp_nextLast = t\<rparr>))"

lemma tags_loop_endless:
  assumes "stuck env repo t"
  shows "TagsWithPagination env repo cl w = None"
proof -
  have "\<not> stuck env repo t" if "tags_loop env repo acc lst cl w = Some r" for acc lst r
  proof (rule tags_loop.raw_induct [OF _ that])
    fix rec env repo acc lst cl w r
    assume IH: "\<And>env repo acc lst cl w r. rec env repo acc lst cl w = Some r \<Longrightarrow> \<not> stuck env repo t"
      and body: "(case fetchTagsPage env repo 100 lst cl w of
        (w1, cl1, res) \<Rightarrow>
          (case res of
             Inl e \<Rightarrow> Some (w1, cl1, Inl e)
           | Inr p \<Rightarrow>
               if \<not> tp_hasMore p \<or> tp_tags p = [] then Some (w1, cl1, Inr (acc @ tp_tags p))
               else rec env repo (acc @ tp_tags p)
                      (if tp_nextLast p \<noteq> [] then tp_nextLast p else last (tp_tags p)) cl1 w1)) = Some r"
    show "\<not> stuck env repo t"
    proof
      assume st: "stuck env repo t"
      then have "rec env repo (acc @ [t]) t cl w = Some r" using body by (auto simp: stuck_def split: if_splits)
      with IH st show False by blast
    qed
  qed
  with assms show ?thesis unfolding TagsWithPagination_def by (metis option.exhaust)
qed

section \<open>Properties\<close>

text \<open>C28: TagsWithPagination returns with every registry that lists the tags of a repository in pages of
  a hundred and links to the next page as the distribution protocol says: the result is the list of
  all tags, in order, each once, whatever token the client holds.\<close>

theorem TagsWithPagination_complete:
  assumes "lists_tags env cl esc repo tags" "repo_ok repo" "list_all (esc_ok env esc) tags"
    and "distinct tags" "[] \<notin> set tags"
  shows "TagsWithPagination env repo cl w = Some (w, cl, Inr tags)"
  using tags_loop_all [OF assms, of "[]" tags w] by (simp add: TagsWithPagination_def)

definition demo_tags :: "string list" where
  "demo_tags = map (\<lambda>i. replicate i CHR ''v'') [1..<151]"

definition demo_registry_env :: "unit registry_env" where
  "demo_registry_env = \<lparr>re_do = (\<lambda>req w. (w, Inr \<lparr>rs_status = 200, rs_text = ''200 OK'',
       rs_header = (\<lambda>k. if k = ''Link'' then link_of id ''r'' demo_tags (query_last req) else []),
       rs_body = Inr (CHR ''x'' # query_last req)\<rparr>)),
     re_now = (\<lambda>w. 0), re_base64 = id, re_realm = (\<lambda>s. Inl s), re_unescape = id, re_token_json = (\<lambda>s. Inl s),
     re_tags_json = (\<lambda>b. Inr (page_of demo_tags (tl b))), re_catalog_json = (\<lambda>s. Inl s)\<rparr>"

definition demo_client :: client where
  "demo_client = \<lparr>cl_host = ''h'', cl_basePath = [], cl_credentials = None, cl_tokens = Map.empty\<rparr>"

theorem TagsWithPagination_complete_witness:
  "TagsWithPagination demo_registry_env ''r'' demo_client () = Some ((), demo_client, Inr demo_tags)"
proof -
  have d: "distinct demo_tags" by (auto simp: demo_tags_def distinct_map intro!: inj_onI dest!: arg_cong [of _ _ length])
  have l: "length t \<le> 150" "t \<noteq> []" "set t \<subseteq> {CHR ''v''}" if "t \<in> set demo_tags" for t
    using that by (auto simp: demo_tags_def)
  have "take (1024 * 1024) (CHR ''x'' # t) = CHR ''x'' # t" if "t \<in> insert [] (set demo_tags)" for t
  proof (rule take_all)
    show "length (CHR ''x'' # t) \<le> 1024 * 1024" using that l(1) [of t] by auto
  qed
  then have s: "lists_tags demo_registry_env demo_client id ''r'' demo_tags"
    unfolding lists_tags_def by (simp add: demo_registry_env_def del: insert_iff)
  have e: "list_all (esc_ok demo_registry_env id) demo_tags"
    using l(3) by (fastforce simp: list_all_iff esc_ok_def demo_registry_env_def)
  have rr: "repo_ok ''r''" by (simp add: repo_ok_def)
  have n: "[] \<notin> set demo_tags" using l(2) by blast
  show ?thesis by (rule TagsWithPagination_complete [OF s rr e d n])
qed

text \<open>A bearer challenge is read back with its realm, service and resource, but of the actions of its
  scope only the first is kept: the parameters are split at every comma, those inside quotes included.\<close>

theorem challenge_roundtrip:
  assumes "value_plain realm" "value_plain service" "value_plain resource" "actions \<noteq> []"
    "list_all (\<lambda>a. value_plain a \<and> CHR ''='' \<notin> set a) actions"
  shows "parseWWWAuthenticate (challenge_text realm service (scope_text resource actions)) =
    Inr \<lparr>ch_Scheme = ''Bearer'', ch_Realm = realm, ch_Service = service, ch_Scope = scope_text resource [hd actions]\<rparr>"
  using parse_challenge [OF assms] by (simp add: scope_text_def)

theorem challenge_roundtrip_witness:
  "parseWWWAuthenticate (challenge_text ''https://a/t'' ''reg'' (scope_text ''repository:x'' [''pull'', ''push''])) =
    Inr \<lparr>ch_Scheme = ''Bearer'', ch_Realm = ''https://a/t'', ch_Service = ''reg'', ch_Scope = ''repository:x:pull''\<rparr>"
  using challenge_roundtrip [of "''https://a/t''" "''reg''" "''repository:x''" "[''pull'', ''push'']"]
  by (simp add: value_plain_def plain_char_def quote_def scope_text_def)

definition margin :: "int \<Rightarrow> int" where
  "margin d = (if d < 5 * 60 * second then d div 2 else 5 * 60 * second)"

text \<open>A token stored for a scope is handed out until a margin before its expiry, never after it, and
  for no other scope; the margin is five minutes, or half of a shorter lifetime, so a token that lives
  exactly five minutes is never handed out again.\<close>

theorem token_lifetime:
  assumes "0 < d"
  shows "tokens_Get t (tokens_Set now scope token d c) s =
    (if s \<noteq> scope then tokens_Get t c s
     else if t \<le> now + d - margin d then Some token else None) \<and>
    0 \<le> margin d \<and> margin d \<le> d \<and> (margin d = d \<longleftrightarrow> d = 5 * 60 * second)"
  using assms by (auto simp: tokens_Get_def tokens_Set_def margin_def second_def Let_def)

theorem token_lifetime_witness:
  "tokens_Get 0 (tokens_Set 0 ''s'' ''t'' (300 * second) Map.empty) ''s'' = Some ''t'' \<and>
   tokens_Get 1 (tokens_Set 0 ''s'' ''t'' (300 * second) Map.empty) ''s'' = None"
  using token_lifetime [of "300 * second" 0 0 "''s''" "''t''" Map.empty "''s''"]
    token_lifetime [of "300 * second" 1 0 "''s''" "''t''" Map.empty "''s''"]
  by (simp add: second_def margin_def)

text \<open>Tokens are stored by the scope of the challenge and looked up by the path of a request, so a stored
  token is not used by the next request; and a request that is repeated after a challenge has lost its
  body.\<close>

lemma stored_token_unused:
  assumes "ch \<noteq> []" "hd ch \<noteq> CHR ''/''" "rr_path req = CHR ''/'' # p"
  shows "first_try t (cl\<lparr>cl_tokens := tokens_Set now ch token d (cl_tokens cl)\<rparr>) req = first_try t cl req"
  using assms by (auto simp: first_try_def scopeFromPath_def tokens_Set_def tokens_Get_def Let_def)

lemma retry_without_body: "rr_body (second_try req h) = None"
  by (simp add: second_try_def)

text \<open>Image references are read back: a tag may follow a host with a port, a digest wins over a tag.\<close>

theorem image_ref_roundtrip:
  assumes "CHR ''@'' \<notin> set repo" "CHR ''@'' \<notin> set tag" "CHR '':'' \<notin> set tag" "CHR ''/'' \<notin> set tag"
  shows "ParseImageRef (repo @ CHR '':'' # tag) = (repo, tag)" "ParseImageRef (repo @ CHR ''@'' # dig) = (repo, dig)"
proof -
  have i: "index_char CHR ''@'' (repo @ CHR '':'' # tag) = None" using assms by simp
  have lia: "last_index_char c (a @ c # b) = Some (length a)" if "c \<notin> set b" for c a and b :: string
  proof -
    have "last_index_char c b = None" using that by (induction b) auto
    then show ?thesis by (induction a) simp_all
  qed
  have sl: "s < length repo" if "last_index_char CHR ''/'' (repo @ CHR '':'' # tag) = Some s" for s
  proof -
    have n: "last_index_char CHR ''/'' (CHR '':'' # tag) = None"
    proof -
      have "last_index_char CHR ''/'' u = None" if "CHR ''/'' \<notin> set u" for u using that by (induction u) auto
      then show ?thesis using assms(4) by simp
    qed
    have "last_index_char CHR ''/'' (a @ CHR '':'' # tag) = Some s \<Longrightarrow> s < length a" for a s
      by (induction a arbitrary: s) (use n in \<open>auto split: option.splits if_splits\<close>)
    with that show ?thesis by blast
  qed
  show "ParseImageRef (repo @ CHR '':'' # tag) = (repo, tag)"
    using sl by (auto simp: ParseImageRef_def i lia [OF assms(3)] split: option.splits)
  show "ParseImageRef (repo @ CHR ''@'' # dig) = (repo, dig)"
    using assms(1) by (simp add: ParseImageRef_def index_char_append)
qed

end
