(* ===== verification/Registry_Images.thy ===== *)
theory Registry_Images
  imports Registry_Client
begin

text \<open>
  Manifests and blobs of the registry client, src/internal/registry: manifests.go, blobs.go, sync.go and
  the constructor of client.go. The JSON decoders, \<^verbatim>\<open>url.Parse\<close> and \<^verbatim>\<open>time.Parse\<close> are the parameter record
  \<open>image_json\<close>; a blob is what a request carries or an answer holds, so streaming a blob to a writer is the
  bytes the writer gets.

  The last section is the contract of the operations that copying images relies on: whatever the network
  does, no operation changes which registry a client talks to and with which credentials.
\<close>

section \<open>The client's address\<close>

definition stringsContainsScheme :: "string \<Rightarrow> bool" where
  "stringsContainsScheme s = contains_sub s ''://''"

definition stripTrailingSlash :: "string \<Rightarrow> string" where
  "stripTrailingSlash path = (if length path > 1 \<and> last path = CHR ''/'' then butlast path else path)"

record parsed_url =
  pu_scheme :: string
  pu_host :: string
  pu_path :: string
  pu_query :: "(string \<times> string) list"

record list_entry =
  le_digest :: string
  le_platform :: "(string \<times> string) option"

record descriptor =
  de_mediaType :: string
  de_digest :: string
  de_size :: int

record manifestResponse =
  mf_schemaVersion :: int
  mf_mediaType :: string
  mf_config :: descriptor
  mf_layers :: "descriptor list"

record historyEntry =
  he_CreatedBy :: string
  he_EmptyLayer :: bool

record imageConfig =
  ic_Created :: string
  ic_History :: "historyEntry list"

text \<open>\<open>ij_time\<close> gives the zero time for a text that is no time, as \<^verbatim>\<open>time.Parse\<close> does.\<close>

record image_json =
  ij_url :: "string \<Rightarrow> string + parsed_url"
  ij_list :: "string \<Rightarrow> string + list_entry list"
  ij_manifest :: "string \<Rightarrow> string + manifestResponse"
  ij_config :: "string \<Rightarrow> string + imageConfig"
  ij_time :: "string \<Rightarrow> int"
  ij_zero :: int

definition parseRegistryURL :: "image_json \<Rightarrow> string \<Rightarrow> string + parsed_url" where
  "parseRegistryURL js raw0 =
     (let raw = (if \<not> stringsContainsScheme raw0 then ''https://'' @ raw0 else raw0) in
      case ij_url js raw of
        Inl e \<Rightarrow> Inl (''invalid URL: '' @ e)
      | Inr u \<Rightarrow>
          if pu_scheme u \<noteq> ''http'' \<and> pu_scheme u \<noteq> ''https'' then Inl (''unsupported scheme: '' @ pu_scheme u)
          else Inr (u\<lparr>pu_path := stripTrailingSlash (pu_path u)\<rparr>))"

definition NewClient :: "image_json \<Rightarrow> string \<Rightarrow> credentials option \<Rightarrow> string + client" where
  "NewClient js baseURL creds =
     (case parseRegistryURL js baseURL of
        Inl e \<Rightarrow> Inl (''parse registry URL: '' @ e)
      | Inr u \<Rightarrow> Inr \<lparr>cl_host = pu_scheme u @ ''://'' @ pu_host u, cl_basePath = pu_path u,
                      cl_credentials = creds, cl_tokens = Map.empty\<rparr>)"

section \<open>manifests.go\<close>

record layerInfo =
  li_Digest :: string
  li_MediaType :: string
  li_Size :: int
  li_Command :: string

record manifestDetail =
  md_SchemaVersion :: int
  md_MediaType :: string
  md_Layers :: "layerInfo list"
  md_Config :: string
  md_OS :: string
  md_Architecture :: string

record manifestResult =
  mr_detail :: manifestDetail
  mr_digest :: string
  mr_rawBody :: string
  mr_contentType :: string

record registryTag =
  rt_Name :: string
  rt_Digest :: string
  rt_Size :: int
  rt_CreatedAt :: int
  rt_MediaType :: string
  rt_Platform :: string
  rt_SchemaVersion :: int

definition manifestAcceptHeader :: string where
  "manifestAcceptHeader = ''application/vnd.docker.distribution.manifest.v2+json, '' @
     ''application/vnd.oci.image.manifest.v1+json, '' @
     ''application/vnd.docker.distribution.manifest.list.v2+json, '' @
     ''application/vnd.oci.image.index.v1+json''"

definition maxManifestRecursion :: nat where
  "maxManifestRecursion = 2"

definition targetOS :: string where
  "targetOS = ''linux''"

definition targetArch :: string where
  "targetArch = ''arm64''"

definition isManifestListContentType :: "string \<Rightarrow> bool" where
  "isManifestListContentType ct \<longleftrightarrow> contains_sub ct ''manifest.list'' \<or> contains_sub ct ''image.index''"

definition layer_of :: "descriptor \<Rightarrow> layerInfo" where
  "layer_of d = \<lparr>li_Digest = de_digest d, li_MediaType = de_mediaType d, li_Size = de_size d, li_Command = []\<rparr>"

definition parseSingleManifest :: "image_json \<Rightarrow> string \<Rightarrow> string \<Rightarrow> string \<Rightarrow> reg_err + manifestResult" where
  "parseSingleManifest js body dig contentType =
     (case ij_manifest js body of
        Inl e \<Rightarrow> Inl (Wrapped ''parse manifest'' (Decode e))
      | Inr m \<Rightarrow> Inr \<lparr>mr_detail = \<lparr>md_SchemaVersion = mf_schemaVersion m, md_MediaType = mf_mediaType m,
            md_Layers = map layer_of (mf_layers m), md_Config = de_digest (mf_config m), md_OS = [], md_Architecture = []\<rparr>,
          mr_digest = dig, mr_rawBody = body, mr_contentType = contentType\<rparr>)"

text \<open>The loop over the list is the first entry for the target platform; \<open>fetch\<close> is the nested call of
  \<open>fetchManifest\<close>.\<close>

definition for_target :: "list_entry \<Rightarrow> bool" where
  "for_target d \<longleftrightarrow> le_platform d = Some (targetOS, targetArch)"

definition resolveManifestList ::
  "(string \<Rightarrow> client \<Rightarrow> 'w \<Rightarrow> 'w \<times> client \<times> (reg_err + manifestResult)) \<Rightarrow> image_json \<Rightarrow> string \<Rightarrow> string \<Rightarrow>
   client \<Rightarrow> 'w \<Rightarrow> 'w \<times> client \<times> (reg_err + manifestResult)" where
  "resolveManifestList fetch js body topDigest cl w =
     (case ij_list js body of
        Inl e \<Rightarrow> (w, cl, Inl (Wrapped ''parse manifest list'' (Decode e)))
      | Inr ms \<Rightarrow>
          (case find for_target ms of
             None \<Rightarrow> (w, cl, Inl (Failure (''manifest list: no manifest found for '' @ targetOS @ ''/'' @ targetArch)))
           | Some d \<Rightarrow>
               (case fetch (le_digest d) cl w of
                  (w1, cl1, Inl e) \<Rightarrow> (w1, cl1, Inl (Wrapped (''resolve '' @ targetOS @ ''/'' @ targetArch @ '' manifest'') e))
                | (w1, cl1, Inr r) \<Rightarrow> (w1, cl1, Inr (r\<lparr>mr_digest := topDigest\<rparr>)))))"

definition manifest_request :: "client \<Rightarrow> string \<Rightarrow> string \<Rightarrow> reg_request" where
  "manifest_request cl repo ref =
     (newRequest cl ''GET'' (''/v2/'' @ repo @ ''/manifests/'' @ ref))\<lparr>rr_header := [(''Accept'', manifestAcceptHeader)]\<rparr>"

function fetchManifest ::
  "'w registry_env \<Rightarrow> image_json \<Rightarrow> string \<Rightarrow> string \<Rightarrow> nat \<Rightarrow> client \<Rightarrow> 'w \<Rightarrow> 'w \<times> client \<times> (reg_err + manifestResult)" where
  "fetchManifest env js repo ref depth cl w =
     (if depth \<ge> maxManifestRecursion
      then (w, cl, Inl (Failure (''manifest resolution: max recursion depth ('' @ format_nat maxManifestRecursion @ '') exceeded'')))
      else case doRequest env (manifest_request cl repo ref) cl w of
        (w1, cl1, Inl e) \<Rightarrow> (w1, cl1, Inl (Wrapped ''manifest request'' e))
      | (w1, cl1, Inr resp) \<Rightarrow>
          if rs_status resp \<noteq> 200 then (w1, cl1, Inl (statusCodeError resp))
          else (case rs_body resp of
              Inl e \<Rightarrow> (w1, cl1, Inl (Wrapped ''read manifest body'' (Transport e)))
            | Inr b \<Rightarrow>
                let body = LimitReader (4 * 1024 * 1024) b;
                    dig = rs_header resp ''Docker-Content-Digest'';
                    contentType = rs_header resp ''Content-Type'' in
                if isManifestListContentType contentType
                then resolveManifestList (\<lambda>d c v. fetchManifest env js repo d (depth + 1) c v) js body dig cl1 w1
                else (w1, cl1, parseSingleManifest js body dig contentType)))"
  by pat_completeness auto
termination
  by (relation "measure (\<lambda>(env, js, repo, ref, depth, cl, w). maxManifestRecursion - depth)") auto

declare fetchManifest.simps [simp del]

definition Manifest ::
  "'w registry_env \<Rightarrow> image_json \<Rightarrow> string \<Rightarrow> string \<Rightarrow> client \<Rightarrow> 'w \<Rightarrow> 'w \<times> client \<times> (reg_err + manifestDetail)" where
  "Manifest env js repo ref cl w =
     (case fetchManifest env js repo ref 0 cl w of
        (w1, cl1, Inl e) \<Rightarrow> (w1, cl1, Inl e)
      | (w1, cl1, Inr r) \<Rightarrow> (w1, cl1, Inr (mr_detail r)))"

definition fetchImageConfig ::
  "'w registry_env \<Rightarrow> image_json \<Rightarrow> string \<Rightarrow> string \<Rightarrow> client \<Rightarrow> 'w \<Rightarrow> 'w \<times> client \<times> (reg_err + imageConfig)" where
  "fetchImageConfig env js repo dig cl w =
     (case doRequest env (newRequest cl ''GET'' (''/v2/'' @ repo @ ''/blobs/'' @ dig)) cl w of
        (w1, cl1, Inl e) \<Rightarrow> (w1, cl1, Inl (Wrapped ''config request'' e))
      | (w1, cl1, Inr resp) \<Rightarrow>
          if rs_status resp \<noteq> 200 then (w1, cl1, Inl (statusCodeError resp))
          else (case (case rs_body resp of Inl e \<Rightarrow> Inl e | Inr b \<Rightarrow> ij_config js (LimitReader (1024 * 1024) b)) of
              Inl e \<Rightarrow> (w1, cl1, Inl (Wrapped ''decode config'' (Decode e)))
            | Inr cfg \<Rightarrow> (w1, cl1, Inr cfg)))"

definition sum_sizes :: "layerInfo list \<Rightarrow> int" where
  "sum_sizes ls = fold (\<lambda>l acc. wrap64 (acc + li_Size l)) ls 0"

definition created_at ::
  "'w registry_env \<Rightarrow> image_json \<Rightarrow> string \<Rightarrow> string \<Rightarrow> client \<Rightarrow> 'w \<Rightarrow> 'w \<times> client \<times> int" where
  "created_at env js repo dig cl w =
     (if dig = [] then (w, cl, ij_zero js)
      else case fetchImageConfig env js repo dig cl w of
        (w1, cl1, Inl e) \<Rightarrow> (w1, cl1, ij_zero js)
      | (w1, cl1, Inr cfg) \<Rightarrow> (w1, cl1, if ic_Created cfg \<noteq> [] then ij_time js (ic_Created cfg) else ij_zero js))"

definition TagDetail ::
  "'w registry_env \<Rightarrow> image_json \<Rightarrow> string \<Rightarrow> string \<Rightarrow> client \<Rightarrow> 'w \<Rightarrow> 'w \<times> client \<times> (reg_err + registryTag \<times> manifestDetail)" where
  "TagDetail env js repo tag cl w =
     (case fetchManifest env js repo tag 0 cl w of
        (w1, cl1, Inl e) \<Rightarrow> (w1, cl1, Inl (Wrapped (''fetch manifest for tag '' @ [CHR 0x22] @ tag @ [CHR 0x22]) e))
      | (w1, cl1, Inr result) \<Rightarrow>
          let detail = mr_detail result; totalSize = sum_sizes (md_Layers detail) in
          case created_at env js repo (md_Config detail) cl1 w1 of
            (w2, cl2, createdAt) \<Rightarrow>
              (w2, cl2, Inr (\<lparr>rt_Name = tag, rt_Digest = mr_digest result, rt_Size = totalSize, rt_CreatedAt = createdAt,
                 rt_MediaType = md_MediaType detail, rt_Platform = md_OS detail @ ''/'' @ md_Architecture detail,
                 rt_SchemaVersion = md_SchemaVersion detail\<rparr>, detail)))"

definition DeleteManifest ::
  "'w registry_env \<Rightarrow> string \<Rightarrow> string \<Rightarrow> client \<Rightarrow> 'w \<Rightarrow> 'w \<times> client \<times> (reg_err + unit)" where
  "DeleteManifest env repo dig cl w =
     (if \<not> contains_sub dig '':'' then (w, cl, Inl (Failure ''delete manifest: must use a digest (e.g. sha256:abc...), not a tag name''))
      else case doRequest env (newRequest cl ''DELETE'' (''/v2/'' @ repo @ ''/manifests/'' @ dig)) cl w of
        (w1, cl1, Inl e) \<Rightarrow> (w1, cl1, Inl (Wrapped ''delete manifest request'' e))
      | (w1, cl1, Inr resp) \<Rightarrow> (w1, cl1, if rs_status resp \<noteq> 202 then Inl (statusCodeError resp) else Inr ()))"

fun assign_commands :: "string list \<Rightarrow> layerInfo list \<Rightarrow> layerInfo list" where
  "assign_commands (c # cs) (l # ls) = l\<lparr>li_Command := c\<rparr> # assign_commands cs ls"
| "assign_commands _ ls = ls"

definition populateLayerCommands :: "manifestDetail \<Rightarrow> imageConfig option \<Rightarrow> manifestDetail" where
  "populateLayerCommands detail cfg =
     (case cfg of
        None \<Rightarrow> detail
      | Some c \<Rightarrow>
          if ic_History c = [] then detail
          else detail\<lparr>md_Layers := assign_commands (map he_CreatedBy (filter (\<lambda>h. \<not> he_EmptyLayer h) (ic_History c))) (md_Layers detail)\<rparr>)"

section \<open>blobs.go\<close>

definition BlobExists :: "'w registry_env \<Rightarrow> string \<Rightarrow> string \<Rightarrow> client \<Rightarrow> 'w \<Rightarrow> 'w \<times> client \<times> (reg_err + bool)" where
  "BlobExists env repo dig cl w =
     (case doRequest env (newRequest cl ''HEAD'' (''/v2/'' @ repo @ ''/blobs/'' @ dig)) cl w of
        (w1, cl1, Inl e) \<Rightarrow> (w1, cl1, Inl (Wrapped ''blob head request'' e))
      | (w1, cl1, Inr resp) \<Rightarrow>
          (w1, cl1, if rs_status resp = 200 then Inr True
                    else if rs_status resp = 404 then Inr False else Inl (statusCodeError resp)))"

definition PullBlob :: "'w registry_env \<Rightarrow> string \<Rightarrow> string \<Rightarrow> client \<Rightarrow> 'w \<Rightarrow> 'w \<times> client \<times> (reg_err + string)" where
  "PullBlob env repo dig cl w =
     (case doRequest env (newRequest cl ''GET'' (''/v2/'' @ repo @ ''/blobs/'' @ dig)) cl w of
        (w1, cl1, Inl e) \<Rightarrow> (w1, cl1, Inl (Wrapped ''pull blob request'' e))
      | (w1, cl1, Inr resp) \<Rightarrow>
          if rs_status resp \<noteq> 200 then (w1, cl1, Inl (statusCodeError resp))
          else (case rs_body resp of
              Inl e \<Rightarrow> (w1, cl1, Inl (Wrapped ''copy blob data'' (Transport e)))
            | Inr b \<Rightarrow> (w1, cl1, Inr b)))"

definition attachAuth :: "'w registry_env \<Rightarrow> int \<Rightarrow> string \<Rightarrow> client \<Rightarrow> reg_request \<Rightarrow> reg_request" where
  "attachAuth env now repo cl req =
     (case tokens_Get now (cl_tokens cl) (scopeFromPath (''/v2/'' @ repo)) of
        Some cached \<Rightarrow> req\<lparr>rr_header := set_key ''Authorization'' (''Bearer '' @ cached) (rr_header req)\<rparr>
      | None \<Rightarrow>
          (case cl_credentials cl of
             Some c \<Rightarrow> req\<lparr>rr_header := set_key ''Authorization'' (authenticateBasic env c) (rr_header req)\<rparr>
           | None \<Rightarrow> req))"

definition upload_request :: "string \<Rightarrow> string \<Rightarrow> parsed_url \<Rightarrow> reg_request" where
  "upload_request blob dig u =
     \<lparr>rr_method = ''PUT'', rr_host = (if pu_scheme u = [] then [] else pu_scheme u @ '':'') @ (if pu_host u = [] then [] else ''//'' @ pu_host u),
      rr_path = pu_path u, rr_query = set_key ''digest'' dig (pu_query u),
      rr_header = [(''Content-Type'', ''application/octet-stream'')], rr_body = Some blob\<rparr>"

definition PushBlob ::
  "'w registry_env \<Rightarrow> image_json \<Rightarrow> string \<Rightarrow> string \<Rightarrow> string \<Rightarrow> client \<Rightarrow> 'w \<Rightarrow> 'w \<times> client \<times> (reg_err + unit)" where
  "PushBlob env js repo blob dig cl w =
     (case doRequest env (newRequest cl ''POST'' (''/v2/'' @ repo @ ''/blobs/uploads/'')) cl w of
        (w1, cl1, Inl e) \<Rightarrow> (w1, cl1, Inl (Wrapped ''upload init request'' e))
      | (w1, cl1, Inr resp) \<Rightarrow>
          if rs_status resp \<noteq> 202 then (w1, cl1, Inl (statusCodeError resp))
          else if rs_header resp ''Location'' = [] then (w1, cl1, Inl (Failure ''upload init: no Location header in response''))
          else (case ij_url js (rs_header resp ''Location'') of
              Inl e \<Rightarrow> (w1, cl1, Inl (Wrapped ''parse upload URL'' (Failure e)))
            | Inr u \<Rightarrow>
                (case re_do env (attachAuth env (re_now env w1) repo cl1 (upload_request blob dig u)) w1 of
                   (w2, Inl e) \<Rightarrow> (w2, cl1, Inl (Wrapped ''upload put request'' (Transport e)))
                 | (w2, Inr r2) \<Rightarrow> (w2, cl1, if rs_status r2 \<noteq> 201 then Inl (statusCodeError r2) else Inr ()))))"

definition isValidDigest :: "string \<Rightarrow> bool" where
  "isValidDigest s \<longleftrightarrow> contains_sub s '':'' \<and> has_prefix s ''sha''"

section \<open>sync.go\<close>

definition RawManifest ::
  "'w registry_env \<Rightarrow> image_json \<Rightarrow> string \<Rightarrow> string \<Rightarrow> client \<Rightarrow> 'w \<Rightarrow> 'w \<times> client \<times> (reg_err + string \<times> string \<times> string)" where
  "RawManifest env js repo ref cl w =
     (case fetchManifest env js repo ref 0 cl w of
        (w1, cl1, Inl e) \<Rightarrow> (w1, cl1, Inl e)
      | (w1, cl1, Inr r) \<Rightarrow> (w1, cl1, Inr (mr_rawBody r, mr_digest r, mr_contentType r)))"

definition manifest_put :: "client \<Rightarrow> string \<Rightarrow> string \<Rightarrow> string \<Rightarrow> string \<Rightarrow> reg_request" where
  "manifest_put cl repo tag body mediaType =
     (newRequest cl ''PUT'' (''/v2/'' @ repo @ ''/manifests/'' @ tag))\<lparr>rr_header := [(''Content-Type'', mediaType)], rr_body := Some body\<rparr>"

definition PushManifest ::
  "'w registry_env \<Rightarrow> string \<Rightarrow> string \<Rightarrow> string \<Rightarrow> string \<Rightarrow> client \<Rightarrow> 'w \<Rightarrow> 'w \<times> client \<times> (reg_err + unit)" where
  "PushManifest env repo tag body mediaType cl w =
     (case doRequest env (manifest_put cl repo tag body mediaType) cl w of
        (w1, cl1, Inl e) \<Rightarrow> (w1, cl1, Inl (Wrapped ''push manifest request'' e))
      | (w1, cl1, Inr resp) \<Rightarrow> (w1, cl1, if rs_status resp \<noteq> 201 then Inl (statusCodeError resp) else Inr ()))"

section \<open>What the operations keep of a client\<close>

definition client_ident :: "client \<Rightarrow> string \<times> string \<times> credentials option" where
  "client_ident cl = (cl_host cl, cl_basePath cl, cl_credentials cl)"

definition keeps_ident :: "'w \<times> client \<times> 'r \<Rightarrow> client \<Rightarrow> bool" where
  "keeps_ident r cl \<longleftrightarrow> client_ident (fst (snd r)) = client_ident cl"

lemma keeps_ident_pair [simp]: "keeps_ident (w, c, r) cl \<longleftrightarrow> client_ident c = client_ident cl"
  by (simp add: keeps_ident_def)

lemma ident_tokens [simp]: "client_ident (cl\<lparr>cl_tokens := t\<rparr>) = client_ident cl"
  by (simp add: client_ident_def)

lemma resolveAuth_ident: "keeps_ident (resolveAuth env h cl w) cl"
  by (auto simp: resolveAuth_def Let_def split: sum.splits option.splits prod.splits)

lemma resolveAuth_identD: "resolveAuth env h cl w = (w1, cl1, r) \<Longrightarrow> client_ident cl1 = client_ident cl"
  using resolveAuth_ident [of env h cl w] by simp

lemma doRequest_identD: "doRequest env req cl w = (w1, cl1, r) \<Longrightarrow> client_ident cl1 = client_ident cl"
  by (auto simp: doRequest_def Let_def dest: resolveAuth_identD split: sum.splits prod.splits if_splits)

lemma resolveManifestList_ident:
  assumes "\<And>d w2 c2 r2. fetch d cl w = (w2, c2, r2) \<Longrightarrow> client_ident c2 = client_ident cl"
  shows "keeps_ident (resolveManifestList fetch js body tp cl w) cl"
  using assms by (auto simp: resolveManifestList_def split: sum.splits option.splits prod.splits)

lemma fetchManifest_ident: "keeps_ident (fetchManifest env js repo ref depth cl w) cl"
proof (induction env js repo ref depth cl w rule: fetchManifest.induct)
  case (1 env js repo ref depth cl w)
  show ?case
  proof (cases "depth \<ge> maxManifestRecursion")
    case True then show ?thesis by (simp add: fetchManifest.simps)
  next
    case False
    obtain w1 cl1 r where q: "doRequest env (manifest_request cl repo ref) cl w = (w1, cl1, r)" by (cases "doRequest env (manifest_request cl repo ref) cl w")
    have i: "client_ident cl1 = client_ident cl" by (rule doRequest_identD [OF q])
    have n: "keeps_ident (fetchManifest env js repo d (depth + 1) c v) c" if "r = Inr resp" "rs_status resp = 200"
      "rs_body resp = Inr b" "isManifestListContentType (rs_header resp ''Content-Type'')" for resp b d c v
      using 1 [OF False q [symmetric]] that by simp
    have l: "keeps_ident (resolveManifestList (\<lambda>d c v. fetchManifest env js repo d (depth + 1) c v) js b tp cl1 w1) cl"
      if "r = Inr resp" "rs_status resp = 200" "rs_body resp = Inr b0" "isManifestListContentType (rs_header resp ''Content-Type'')"
      for resp b0 b tp
      using resolveManifestList_ident [of "\<lambda>d c v. fetchManifest env js repo d (depth + 1) c v" cl1 w1 js b tp] n [OF that] i
      by (metis keeps_ident_def keeps_ident_pair)
    show ?thesis
    proof (cases r)
      case (Inl e) then show ?thesis using False q i by (simp add: fetchManifest.simps [of env js repo ref depth])
    next
      case (Inr resp)
      show ?thesis
        using False q i Inr l [OF Inr]
        by (cases "rs_body resp") (auto simp: fetchManifest.simps [of env js repo ref depth] Let_def)
    qed
  qed
qed

lemma fetchManifest_identD:
  "fetchManifest env js repo ref depth cl w = (w1, cl1, r) \<Longrightarrow> client_ident cl1 = client_ident cl"
  using fetchManifest_ident [of env js repo ref depth cl w] by simp

lemmas ident_dests = doRequest_identD fetchManifest_identD

lemma client_ops_ident:
  "keeps_ident (Manifest env js repo ref cl w) cl"
  "keeps_ident (RawManifest env js repo ref cl w) cl"
  "keeps_ident (BlobExists env repo dig cl w) cl"
  "keeps_ident (PullBlob env repo dig cl w) cl"
  "keeps_ident (PushBlob env js repo blob dig cl w) cl"
  "keeps_ident (PushManifest env repo tag body mt cl w) cl"
  by (auto simp: Manifest_def RawManifest_def BlobExists_def PullBlob_def PushBlob_def PushManifest_def
      dest: ident_dests split: sum.splits prod.splits)

section \<open>Images for several platforms\<close>

text \<open>A registry that answers manifest requests, whatever was asked before and whatever tokens the client holds.\<close>

definition serves_manifest :: "'w registry_env \<Rightarrow> client \<Rightarrow> string \<Rightarrow> string \<Rightarrow> string \<Rightarrow> string \<Rightarrow> string \<Rightarrow> bool" where
  "serves_manifest env cl repo ref body dig ct \<longleftrightarrow>
     length body \<le> 4 * 1024 * 1024 \<and>
     (\<forall>w. \<exists>resp. doRequest env (manifest_request cl repo ref) cl w = (w, cl, Inr resp) \<and> rs_status resp = 200 \<and>
        rs_body resp = Inr body \<and> rs_header resp ''Docker-Content-Digest'' = dig \<and> rs_header resp ''Content-Type'' = ct)"

lemma fetch_served:
  assumes "serves_manifest env cl repo ref body dig ct" "depth < maxManifestRecursion"
  shows "fetchManifest env js repo ref depth cl w =
    (if isManifestListContentType ct
     then resolveManifestList (\<lambda>d c v. fetchManifest env js repo d (depth + 1) c v) js body dig cl w
     else (w, cl, parseSingleManifest js body dig ct))"
proof -
  obtain resp where "doRequest env (manifest_request cl repo ref) cl w = (w, cl, Inr resp)" "rs_status resp = 200"
    "rs_body resp = Inr body" "rs_header resp ''Docker-Content-Digest'' = dig" "rs_header resp ''Content-Type'' = ct"
    using assms(1) unfolding serves_manifest_def by metis
  with assms show ?thesis
    by (subst fetchManifest.simps) (simp add: serves_manifest_def LimitReader_def Let_def)
qed

theorem index_resolution:
  assumes top: "serves_manifest env cl repo tag index topDigest ct" "isManifestListContentType ct"
    and ms: "ij_list js index = Inr ms" "find for_target ms = Some d"
    and inner: "serves_manifest env cl repo (le_digest d) body dig ct'"
  shows "\<not> isManifestListContentType ct' \<Longrightarrow> ij_manifest js body = Inr m \<Longrightarrow>
      RawManifest env js repo tag cl w = (w, cl, Inr (body, topDigest, ct'))"
    and "isManifestListContentType ct' \<Longrightarrow> ij_list js body = Inr ms' \<Longrightarrow> \<exists>e. RawManifest env js repo tag cl w = (w, cl, Inl e)"
proof -
  have r: "fetchManifest env js repo tag 0 cl w =
    resolveManifestList (\<lambda>d c v. fetchManifest env js repo d 1 c v) js index topDigest cl w"
    using fetch_served [OF top(1), of 0] top(2) by (simp add: maxManifestRecursion_def)
  have i: "fetchManifest env js repo (le_digest d) 1 cl w =
    (if isManifestListContentType ct'
     then resolveManifestList (\<lambda>d c v. fetchManifest env js repo d 2 c v) js body dig cl w
     else (w, cl, parseSingleManifest js body dig ct'))"
    using fetch_served [OF inner, of 1] by (simp add: maxManifestRecursion_def numeral_2_eq_2)
  have deep: "fetchManifest env js repo x 2 c v = (v, c, Inl (Failure (''manifest resolution: max recursion depth ('' @
      format_nat maxManifestRecursion @ '') exceeded'')))" for x c v
    by (simp add: fetchManifest.simps maxManifestRecursion_def)
  show "RawManifest env js repo tag cl w = (w, cl, Inr (body, topDigest, ct'))"
    if "\<not> isManifestListContentType ct'" "ij_manifest js body = Inr m"
    using that r i ms by (simp add: RawManifest_def resolveManifestList_def parseSingleManifest_def)
  show "\<exists>e. RawManifest env js repo tag cl w = (w, cl, Inl e)"
    if "isManifestListContentType ct'" "ij_list js body = Inr ms'"
    using that r i ms deep
    by (cases "find for_target ms'") (simp_all add: RawManifest_def resolveManifestList_def)
qed

text \<open>The platform of a tag is never filled in.\<close>

lemma fetched_platform:
  "fetchManifest env js repo ref depth cl w = (w1, cl1, Inr r) \<Longrightarrow> md_OS (mr_detail r) = [] \<and> md_Architecture (mr_detail r) = []"
proof (induction env js repo ref depth cl w arbitrary: w1 cl1 r rule: fetchManifest.induct)
  case (1 env js repo ref depth cl w)
  then show ?case
    by (subst (asm) (2) fetchManifest.simps)
      (fastforce simp: resolveManifestList_def parseSingleManifest_def Let_def split: if_splits sum.splits option.splits prod.splits)
qed

theorem tag_platform_unknown:
  "TagDetail env js repo tag cl w = (w1, cl1, Inr (t, d)) \<Longrightarrow> rt_Platform t = ''/''"
  by (auto simp: TagDetail_def Let_def split: prod.splits sum.splits dest!: fetched_platform)

section \<open>The last request and the world\<close>

lemma doRequest_last:
  assumes "doRequest env req cl w = (w1, cl1, Inr resp)"
  obtains req' w0 where "re_do env req' w0 = (w1, Inr resp)" "rr_method req' = rr_method req" "rr_host req' = rr_host req"
    "rr_path req' = rr_path req" "rr_query req' = rr_query req" "rr_body req' = rr_body req \<or> rr_body req' = None"
proof -
  let ?q = "first_try (re_now env w) cl req"
  have f: "rr_method ?q = rr_method req" "rr_host ?q = rr_host req" "rr_path ?q = rr_path req" "rr_query ?q = rr_query req"
    "rr_body ?q = rr_body req"
    by (simp_all add: first_try_def split: option.splits)
  have "re_do env ?q w = (w1, Inr resp) \<or> (\<exists>h w2. re_do env (second_try ?q h) w2 = (w1, Inr resp))"
    using assms by (auto simp: doRequest_def Let_def split: prod.splits sum.splits if_splits)
  then show thesis using that f by (auto simp: second_try_def)
qed

text \<open>What every request other than DELETE keeps of the world, the operations of the client keep.\<close>

definition request_keeps :: "'w registry_env \<Rightarrow> ('w \<Rightarrow> bool) \<Rightarrow> bool" where
  "request_keeps env P \<longleftrightarrow> (\<forall>q v v' r. rr_method q \<noteq> ''DELETE'' \<longrightarrow> P v \<longrightarrow> re_do env q v = (v', r) \<longrightarrow> P v')"

lemma request_keepsD: "request_keeps env P \<Longrightarrow> re_do env q v = (v', r) \<Longrightarrow> rr_method q \<noteq> ''DELETE'' \<Longrightarrow> P v \<Longrightarrow> P v'"
  by (auto simp: request_keeps_def)

lemma bearer_keeps: "request_keeps env P \<Longrightarrow> authenticateBearer env ch cr w = (w1, r) \<Longrightarrow> P w \<Longrightarrow> P w1"
  by (auto simp: authenticateBearer_def token_request_def Let_def split: sum.splits prod.splits if_splits elim!: request_keepsD)

lemma resolveAuth_keeps: "request_keeps env P \<Longrightarrow> resolveAuth env h cl w = (w1, cl1, r) \<Longrightarrow> P w \<Longrightarrow> P w1"
  by (auto simp: resolveAuth_def split: sum.splits option.splits prod.splits if_splits dest: bearer_keeps)

lemma doRequest_keeps:
  assumes k: "request_keeps env P" and m: "rr_method req \<noteq> ''DELETE''" and d: "doRequest env req cl w = (w1, cl1, r)" and P: "P w"
  shows "P w1"
proof -
  have f: "rr_method (first_try (re_now env w) cl req) \<noteq> ''DELETE''" using m by (simp add: first_try_def split: option.splits)
  then have s: "rr_method (second_try (first_try (re_now env w) cl req) h) \<noteq> ''DELETE''" for h by (simp add: second_try_def)
  show ?thesis
    using d P f s request_keepsD [OF k] resolveAuth_keeps [OF k, of _ cl]
    by (simp add: doRequest_def Let_def split: prod.splits sum.splits if_splits; metis)
qed

lemma request_methods [simp]: "rr_method (newRequest cl m p) = m" "rr_method (manifest_put cl repo tag body mt) = ''PUT''"
  by (simp_all add: newRequest_def manifest_put_def)

lemma client_ops_keep:
  assumes "request_keeps env P" "P w"
  shows "BlobExists env repo dig cl w = (w1, cl1, b) \<Longrightarrow> P w1"
    and "PullBlob env repo dig cl w = (w1, cl1, s) \<Longrightarrow> P w1"
    and "PushBlob env js repo blob dig cl w = (w1, cl1, u) \<Longrightarrow> P w1"
    and "PushManifest env repo tag body mt cl w = (w1, cl1, u) \<Longrightarrow> P w1"
proof -
  note k = doRequest_keeps [OF assms(1) _ _ assms(2)]
  show "BlobExists env repo dig cl w = (w1, cl1, b) \<Longrightarrow> P w1" and "PullBlob env repo dig cl w = (w1, cl1, s) \<Longrightarrow> P w1"
    and "PushManifest env repo tag body mt cl w = (w1, cl1, u) \<Longrightarrow> P w1"
    by (auto simp: BlobExists_def PullBlob_def PushManifest_def split: prod.splits sum.splits if_splits dest!: k [rotated])
  show "P w1" if "PushBlob env js repo blob dig cl w = (w1, cl1, u)"
  proof -
    obtain v c r where d: "doRequest env (newRequest cl ''POST'' (''/v2/'' @ repo @ ''/blobs/uploads/'')) cl w = (v, c, r)"
      by (cases "doRequest env (newRequest cl ''POST'' (''/v2/'' @ repo @ ''/blobs/uploads/'')) cl w")
    have v: "P v" by (rule k [OF _ d]) simp
    have m: "rr_method (attachAuth env n repo c (upload_request blob dig x)) \<noteq> ''DELETE''" for n x
      by (simp add: attachAuth_def upload_request_def split: option.splits)
    show ?thesis
      using that d v request_keepsD [OF assms(1) _ m]
      by (auto simp: PushBlob_def split: sum.splits if_splits prod.splits)
  qed
qed

section \<open>Properties\<close>

text \<open>PushManifest cannot succeed with a registry that asks for authentication: the first request has no
  token, since none is stored under its path, and the request that answers the challenge has no body, which
  no registry accepts as a manifest.\<close>

theorem PushManifest_needs_anonymous:
  assumes guarded: "\<And>q v v' resp. re_do env q v = (v', Inr resp) \<Longrightarrow> ''Authorization'' \<notin> fst ` set (rr_header q) \<Longrightarrow> rs_status resp = 401"
    and bodies: "\<And>q v v' resp. re_do env q v = (v', Inr resp) \<Longrightarrow> rr_method q = ''PUT'' \<Longrightarrow> rr_body q = None \<Longrightarrow> rs_status resp \<noteq> 201"
    and tok: "cl_tokens cl (scopeFromPath (cl_basePath cl @ ''/v2/'' @ repo @ ''/manifests/'' @ tag)) = None"
  shows "\<exists>e. snd (snd (PushManifest env repo tag body mediaType cl w)) = Inl e"
proof -
  let ?q = "manifest_put cl repo tag body mediaType"
  have q: "rr_method ?q = ''PUT''" "rr_path ?q = cl_basePath cl @ ''/v2/'' @ repo @ ''/manifests/'' @ tag"
    "rr_header ?q = [(''Content-Type'', mediaType)]"
    by (simp_all add: manifest_put_def newRequest_def)
  have f: "first_try t cl ?q = ?q" for t using tok by (simp add: first_try_def q tokens_Get_def)
  obtain w1 c1 r where d: "doRequest env ?q cl w = (w1, c1, r)" by (cases "doRequest env ?q cl w")
  have n: "rs_status resp \<noteq> 201" if "r = Inr resp" for resp
  proof -
    have "''Authorization'' \<notin> fst ` set (rr_header ?q)" unfolding q by simp
    then have "\<not> re_do env ?q w = (w1, Inr resp) \<or> rs_status resp = 401" using guarded by blast
    moreover have "re_do env ?q w = (w1, Inr resp) \<or> (\<exists>h w2. re_do env (second_try ?q h) w2 = (w1, Inr resp))"
      using d that f by (auto simp: doRequest_def Let_def split: prod.splits sum.splits if_splits)
    moreover have "rr_method (second_try ?q h) = ''PUT''" "rr_body (second_try ?q h) = None" for h
      using q(1) by (simp_all add: second_try_def)
    ultimately show ?thesis using bodies by force
  qed
  show ?thesis using d n by (cases r) (simp_all add: PushManifest_def)
qed

definition demo_guarded :: "unit registry_env" where
  "demo_guarded = \<lparr>re_do = (\<lambda>q w. (w, Inr \<lparr>rs_status = (if ''Authorization'' \<notin> fst ` set (rr_header q) then 401 else if rr_body q = None then 400 else 201),
       rs_text = ''?'', rs_header = (\<lambda>k. if k = ''WWW-Authenticate'' then ''Basic realm=x'' else []), rs_body = Inr []\<rparr>)),
     re_now = (\<lambda>w. 0), re_base64 = id, re_realm = (\<lambda>s. Inl s), re_unescape = id, re_token_json = (\<lambda>s. Inl s),
     re_tags_json = (\<lambda>b. Inr []), re_catalog_json = (\<lambda>s. Inl s)\<rparr>"

definition demo_user :: client where
  "demo_user = \<lparr>cl_host = ''https://h'', cl_basePath = [], cl_credentials = Some \<lparr>cr_Username = ''u'', cr_Password = ''p''\<rparr>, cl_tokens = Map.empty\<rparr>"

theorem PushManifest_needs_anonymous_witness:
  "\<exists>e. snd (snd (PushManifest demo_guarded ''r'' ''t'' ''m'' ''j'' demo_user ())) = Inl e"
  by (rule PushManifest_needs_anonymous) (auto simp: demo_guarded_def demo_user_def split: if_splits)

end
