(* ===== verification/Registry_Store.thy ===== *)
theory Registry_Store
  imports Registry_Images Database
begin

text \<open>
  Registries and synchronisation tasks in the database, src/internal/db/repo_registry.go and
  src/internal/db/repo_sync_task.go, and the registry service, src/internal/service/registry_service.go.
  The tables are those of src/internal/db/migrations/017\_consolidated.sql with their CHECK and FOREIGN KEY
  constraints; the retention policies that a deleted registry takes with it are in the theory Retention.

  The cipher is a parameter (\<open>vault\<close>): sealing and opening with a key and a nonce. The nonce of a call is an
  argument, or the error of the random source. A call that uses the clock gets the time as an argument.
\<close>

section \<open>Rows and errors\<close>

record registry =
  rg_id :: int
  rg_name :: string
  rg_url :: string
  rg_type :: string
  rg_username :: string
  rg_password :: string
  rg_enabled :: bool
  rg_created :: int
  rg_updated :: int

record sync_task =
  st_id :: int
  st_source_registry :: int
  st_target_registry :: int
  st_source_repo :: string
  st_source_tag :: string
  st_target_repo :: string
  st_target_tag :: string
  st_status :: string
  st_progress :: int
  st_total :: int
  st_error :: string
  st_created :: int
  st_updated :: int

record reg_db =
  rd_registries :: "registry list"
  rd_reg_seq :: int
  rd_tasks :: "sync_task list"
  rd_task_seq :: int

text \<open>\<open>Text\<close> is a message, \<open>Constraint\<close> a statement that the database refuses, \<open>Ctx\<close> an error that wraps another.\<close>

datatype store_err = Text string | Constraint string | Ctx string store_err

fun err_text :: "store_err \<Rightarrow> string" where
  "err_text (Text t) = t"
| "err_text (Constraint t) = t"
| "err_text (Ctx t e) = t @ '': '' @ err_text e"

definition quoted_text :: "string \<Rightarrow> string" where
  "quoted_text s = [CHR 0x22] @ s @ [CHR 0x22]"

section \<open>Passwords\<close>

record vault =
  va_key :: string
  va_seal :: "string \<Rightarrow> string \<Rightarrow> string \<Rightarrow> string"
  va_open :: "string \<Rightarrow> string \<Rightarrow> string \<Rightarrow> string + string"
  va_byte_text :: "char \<Rightarrow> string"

text \<open>The key is padded with blanks to a width of 32 and cut to 32 bytes. Padding counts characters, of which
  there are at most as many as bytes, so there are always enough blanks.\<close>

definition registry_key :: "string \<Rightarrow> string" where
  "registry_key encryptionKey = take 32 (encryptionKey @ replicate 32 CHR '' '')"

definition nonceSize :: nat where
  "nonceSize = 12"

definition hex_digit :: "nat \<Rightarrow> char" where
  "hex_digit n = ''0123456789abcdef'' ! n"

definition hex_encode :: "string \<Rightarrow> string" where
  "hex_encode s = concat (map (\<lambda>c. [hex_digit (of_char c div 16), hex_digit (of_char c mod 16)]) s)"

definition hex_value :: "char \<Rightarrow> nat option" where
  "hex_value c = (let n = of_char c :: nat in
     if 48 \<le> n \<and> n \<le> 57 then Some (n - 48)
     else if 97 \<le> n \<and> n \<le> 102 then Some (n - 87)
     else if 65 \<le> n \<and> n \<le> 70 then Some (n - 55) else None)"

fun hex_decode :: "(char \<Rightarrow> string) \<Rightarrow> string \<Rightarrow> store_err + string" where
  "hex_decode bt [] = Inr []"
| "hex_decode bt [c] =
     (case hex_value c of None \<Rightarrow> Inl (Text (''encoding/hex: invalid byte: '' @ bt c))
      | Some n \<Rightarrow> Inl (Text ''encoding/hex: odd length hex string''))"
| "hex_decode bt (c # d # s) =
     (case hex_value c of None \<Rightarrow> Inl (Text (''encoding/hex: invalid byte: '' @ bt c))
      | Some n \<Rightarrow>
          (case hex_value d of None \<Rightarrow> Inl (Text (''encoding/hex: invalid byte: '' @ bt d))
           | Some m \<Rightarrow>
               (case hex_decode bt s of Inl e \<Rightarrow> Inl e | Inr r \<Rightarrow> Inr (char_of (16 * n + m) # r))))"

definition encryptPassword :: "vault \<Rightarrow> string + string \<Rightarrow> string \<Rightarrow> store_err + string" where
  "encryptPassword va rnd plaintext =
     (if plaintext = [] then Inr []
      else case rnd of
        Inl e \<Rightarrow> Inl (Ctx ''generating nonce'' (Text e))
      | Inr nonce \<Rightarrow> Inr (hex_encode (nonce @ va_seal va (va_key va) nonce plaintext)))"

definition decryptPassword :: "vault \<Rightarrow> string \<Rightarrow> store_err + string" where
  "decryptPassword va encoded =
     (if encoded = [] then Inr []
      else case hex_decode (va_byte_text va) encoded of
        Inl e \<Rightarrow> Inl (Ctx ''decoding hex'' e)
      | Inr data \<Rightarrow>
          if length data < nonceSize then Inl (Text ''ciphertext too short'')
          else (case va_open va (va_key va) (take nonceSize data) (drop nonceSize data) of
              Inl e \<Rightarrow> Inl (Ctx ''decrypting password'' (Text e))
            | Inr p \<Rightarrow> Inr p))"

section \<open>repo\_registry.go\<close>

definition registry_types :: "string list" where
  "registry_types = [''dockerhub'', ''ghcr'', ''acr'', ''tcr'', ''quay'']"

definition reg_List :: "reg_db \<Rightarrow> registry list" where
  "reg_List d = sort_key rg_name (rd_registries d)"

definition reg_GetByID :: "int \<Rightarrow> reg_db \<Rightarrow> registry option" where
  "reg_GetByID i d = row_by rg_id (rd_registries d) i"

definition reg_GetByURL :: "string \<Rightarrow> reg_db \<Rightarrow> registry option" where
  "reg_GetByURL url d = row_by rg_url (rd_registries d) url"

definition reg_Create :: "vault \<Rightarrow> string + string \<Rightarrow> int \<Rightarrow> registry \<Rightarrow> reg_db \<Rightarrow> reg_db \<times> (store_err + int)" where
  "reg_Create va rnd now reg d =
     (case encryptPassword va rnd (rg_password reg) of
        Inl e \<Rightarrow> (d, Inl (Ctx (''encrypting password for registry '' @ quoted_text (rg_name reg)) e))
      | Inr encPass \<Rightarrow>
          if rg_type reg \<notin> set registry_types
          then (d, Inl (Ctx (''inserting registry '' @ quoted_text (rg_name reg)) (Constraint ''CHECK'')))
          else let i = rd_reg_seq d + 1 in
            (d\<lparr>rd_registries := rd_registries d @ [reg\<lparr>rg_id := i, rg_password := encPass, rg_created := now, rg_updated := now\<rparr>],
               rd_reg_seq := i\<rparr>, Inr i))"

definition update_columns :: "int \<Rightarrow> string \<Rightarrow> registry \<Rightarrow> registry \<Rightarrow> registry" where
  "update_columns now encPass reg r =
     r\<lparr>rg_name := rg_name reg, rg_url := rg_url reg, rg_type := rg_type reg, rg_username := rg_username reg,
       rg_password := encPass, rg_enabled := rg_enabled reg, rg_updated := now\<rparr>"

definition reg_Update :: "vault \<Rightarrow> string + string \<Rightarrow> int \<Rightarrow> registry \<Rightarrow> reg_db \<Rightarrow> reg_db \<times> (store_err + unit)" where
  "reg_Update va rnd now reg d =
     (case (if rg_password reg \<noteq> [] then
              (case encryptPassword va rnd (rg_password reg) of
                 Inl e \<Rightarrow> Inl (Ctx (''encrypting password for registry '' @ format_int (rg_id reg)) e)
               | Inr p \<Rightarrow> Inr p)
            else
              (case row_by rg_id (rd_registries d) (rg_id reg) of
                 None \<Rightarrow> Inl (Ctx (''fetching current password for registry '' @ format_int (rg_id reg)) (Text ''sql: no rows in result set''))
               | Some r \<Rightarrow> Inr (rg_password r))) of
        Inl e \<Rightarrow> (d, Inl e)
      | Inr encPass \<Rightarrow>
          if has_row rg_id (rd_registries d) (rg_id reg) \<and> rg_type reg \<notin> set registry_types
          then (d, Inl (Ctx (''updating registry '' @ format_int (rg_id reg)) (Constraint ''CHECK'')))
          else (d\<lparr>rd_registries := upd_row rg_id (rg_id reg) (update_columns now encPass reg) (rd_registries d)\<rparr>, Inr ()))"

definition references :: "int \<Rightarrow> sync_task \<Rightarrow> bool" where
  "references i t \<longleftrightarrow> st_source_registry t = i \<or> st_target_registry t = i"

definition reg_Delete :: "int \<Rightarrow> reg_db \<Rightarrow> reg_db \<times> (store_err + unit)" where
  "reg_Delete i d =
     (if has_row rg_id (rd_registries d) i \<and> list_ex (references i) (rd_tasks d)
      then (d, Inl (Ctx (''deleting registry '' @ format_int i) (Constraint ''FOREIGN KEY'')))
      else (d\<lparr>rd_registries := filter (\<lambda>r. rg_id r \<noteq> i) (rd_registries d)\<rparr>, Inr ()))"

definition DecryptPassword :: "vault \<Rightarrow> int \<Rightarrow> reg_db \<Rightarrow> store_err + string" where
  "DecryptPassword va i d =
     (case row_by rg_id (rd_registries d) i of
        None \<Rightarrow> Inr []
      | Some r \<Rightarrow> if rg_password r = [] then Inr [] else decryptPassword va (rg_password r))"

section \<open>repo\_sync\_task.go\<close>

definition statuses :: "string list" where
  "statuses = [''pending'', ''running'', ''completed'', ''failed'']"

definition task_Create :: "int \<Rightarrow> sync_task \<Rightarrow> reg_db \<Rightarrow> reg_db \<times> (store_err + int)" where
  "task_Create now task d =
     (if \<not> has_row rg_id (rd_registries d) (st_source_registry task) \<or> \<not> has_row rg_id (rd_registries d) (st_target_registry task)
      then (d, Inl (Ctx ''inserting sync task'' (Constraint ''FOREIGN KEY'')))
      else let i = rd_task_seq d + 1 in
        (d\<lparr>rd_tasks := rd_tasks d @ [task\<lparr>st_id := i, st_status := ''pending'', st_progress := 0, st_total := 0,
             st_error := [], st_created := now, st_updated := now\<rparr>], rd_task_seq := i\<rparr>, Inr i))"

definition task_GetByID :: "int \<Rightarrow> reg_db \<Rightarrow> sync_task option" where
  "task_GetByID i d = row_by st_id (rd_tasks d) i"

definition task_ListByStatus :: "string \<Rightarrow> reg_db \<Rightarrow> sync_task list" where
  "task_ListByStatus status d = sort_key st_created (filter (\<lambda>t. st_status t = status) (rd_tasks d))"

definition active :: "sync_task \<Rightarrow> bool" where
  "active t \<longleftrightarrow> st_status t = ''pending'' \<or> st_status t = ''running''"

definition task_target :: "sync_task \<Rightarrow> int \<times> string \<times> string" where
  "task_target t = (st_target_registry t, st_target_repo t, st_target_tag t)"

definition GetActiveByTarget :: "int \<Rightarrow> string \<Rightarrow> string \<Rightarrow> reg_db \<Rightarrow> sync_task option" where
  "GetActiveByTarget registryID repo tag d =
     find (\<lambda>t. task_target t = (registryID, repo, tag) \<and> active t) (rd_tasks d)"

definition set_status :: "int \<Rightarrow> string \<Rightarrow> string \<Rightarrow> sync_task \<Rightarrow> sync_task" where
  "set_status now to errMsg t = t\<lparr>st_status := to, st_error := errMsg, st_updated := now\<rparr>"

definition transitionStatus ::
  "int \<Rightarrow> int \<Rightarrow> string \<Rightarrow> string \<Rightarrow> string \<Rightarrow> reg_db \<Rightarrow> reg_db \<times> (store_err + unit)" where
  "transitionStatus now i from to errMsg d =
     (if list_ex (\<lambda>t. st_id t = i \<and> st_status t = from) (rd_tasks d)
      then (d\<lparr>rd_tasks := map (\<lambda>t. if st_id t = i \<and> st_status t = from then set_status now to errMsg t else t) (rd_tasks d)\<rparr>, Inr ())
      else (d, Inl (Text (''sync task '' @ format_int i @ '' not in expected status '' @ quoted_text from @
              '' for transition to '' @ quoted_text to))))"

definition task_Start :: "int \<Rightarrow> int \<Rightarrow> reg_db \<Rightarrow> reg_db \<times> (store_err + unit)" where
  "task_Start now i d = transitionStatus now i ''pending'' ''running'' [] d"

definition UpdateProgress :: "int \<Rightarrow> int \<Rightarrow> int \<Rightarrow> int \<Rightarrow> reg_db \<Rightarrow> reg_db" where
  "UpdateProgress now i progressBytes totalBytes d =
     d\<lparr>rd_tasks := upd_row st_id i (\<lambda>t. t\<lparr>st_progress := progressBytes, st_total := totalBytes, st_updated := now\<rparr>) (rd_tasks d)\<rparr>"

definition task_Complete :: "int \<Rightarrow> int \<Rightarrow> reg_db \<Rightarrow> reg_db \<times> (store_err + unit)" where
  "task_Complete now i d = transitionStatus now i ''running'' ''completed'' [] d"

definition task_Fail :: "int \<Rightarrow> int \<Rightarrow> string \<Rightarrow> reg_db \<Rightarrow> reg_db \<times> (store_err + unit)" where
  "task_Fail now i errMsg d =
     (case row_by st_id (rd_tasks d) i of
        None \<Rightarrow> (d, Inl (Text (''sync task '' @ format_int i @ '' not found'')))
      | Some t \<Rightarrow>
          if st_status t \<noteq> ''running'' \<and> st_status t \<noteq> ''pending''
          then (d, Inl (Text (''cannot fail task '' @ format_int i @ '' in status '' @ quoted_text (st_status t) @ '' (must be pending or running)'')))
          else (d\<lparr>rd_tasks := upd_row st_id i (set_status now ''failed'' errMsg) (rd_tasks d)\<rparr>, Inr ()))"

definition task_Cancel :: "int \<Rightarrow> int \<Rightarrow> reg_db \<Rightarrow> reg_db \<times> (store_err + unit)" where
  "task_Cancel now i d = task_Fail now i ''cancelled'' d"

section \<open>registry\_service.go\<close>

record registry_request =
  rq_Name :: string
  rq_URL :: string
  rq_Type :: string
  rq_Username :: string
  rq_Password :: string

definition not_found :: "int \<Rightarrow> store_err" where
  "not_found i = Text (''registry '' @ format_int i @ '' not found'')"

text \<open>The record that is returned still holds the password as it was sent, and no times.\<close>

definition CreateRegistry ::
  "vault \<Rightarrow> string + string \<Rightarrow> int \<Rightarrow> registry_request \<Rightarrow> reg_db \<Rightarrow> reg_db \<times> (store_err + registry)" where
  "CreateRegistry va rnd now req d =
     (let reg = \<lparr>rg_id = 0, rg_name = rq_Name req, rg_url = rq_URL req, rg_type = rq_Type req,
            rg_username = rq_Username req, rg_password = rq_Password req, rg_enabled = True, rg_created = 0, rg_updated = 0\<rparr> in
      case reg_Create va rnd now reg d of
        (d1, Inl e) \<Rightarrow> (d1, Inl (Ctx ''creating registry'' e))
      | (d1, Inr i) \<Rightarrow> (d1, Inr (reg\<lparr>rg_id := i\<rparr>)))"

definition changed :: "registry_request \<Rightarrow> registry \<Rightarrow> registry" where
  "changed req r = r\<lparr>rg_name := rq_Name req, rg_url := rq_URL req, rg_type := rq_Type req, rg_username := rq_Username req,
     rg_password := (if rq_Password req \<noteq> [] then rq_Password req else rg_password r)\<rparr>"

definition UpdateRegistry ::
  "vault \<Rightarrow> string + string \<Rightarrow> int \<Rightarrow> int \<Rightarrow> registry_request \<Rightarrow> reg_db \<Rightarrow> reg_db \<times> (store_err + registry)" where
  "UpdateRegistry va rnd now i req d =
     (case reg_GetByID i d of
        None \<Rightarrow> (d, Inl (not_found i))
      | Some r0 \<Rightarrow>
          (case reg_Update va rnd now (changed req r0) d of
             (d1, Inl e) \<Rightarrow> (d1, Inl (Ctx (''updating registry '' @ format_int i) e))
           | (d1, Inr _) \<Rightarrow> (d1, Inr (changed req r0))))"

definition DeleteRegistry :: "int \<Rightarrow> reg_db \<Rightarrow> reg_db \<times> (store_err + unit)" where
  "DeleteRegistry i d = reg_Delete i d"

definition credentials_of :: "registry \<Rightarrow> string \<Rightarrow> credentials option" where
  "credentials_of reg password =
     (if rg_username reg \<noteq> [] then Some \<lparr>cr_Username = rg_username reg, cr_Password = password\<rparr> else None)"

definition getClient :: "image_json \<Rightarrow> vault \<Rightarrow> int \<Rightarrow> reg_db \<Rightarrow> store_err + client" where
  "getClient js va i d =
     (case reg_GetByID i d of
        None \<Rightarrow> Inl (not_found i)
      | Some reg \<Rightarrow>
          (case DecryptPassword va i d of
             Inl e \<Rightarrow> Inl (Ctx ''decrypting password'' e)
           | Inr password \<Rightarrow>
               (case NewClient js (rg_url reg) (credentials_of reg password) of
                  Inl e \<Rightarrow> Inl (Text e)
                | Inr cl \<Rightarrow> Inr cl)))"

record test_response =
  tc_Success :: bool
  tc_Version :: string
  tc_ErrorMessage :: string

definition TestConnection ::
  "'w registry_env \<Rightarrow> image_json \<Rightarrow> vault \<Rightarrow> int \<Rightarrow> reg_db \<Rightarrow> 'w \<Rightarrow> 'w \<times> (store_err + test_response)" where
  "TestConnection env js va i d w =
     (case reg_GetByID i d of
        None \<Rightarrow> (w, Inl (not_found i))
      | Some reg \<Rightarrow>
          (case DecryptPassword va i d of
             Inl e \<Rightarrow> (w, Inl (Ctx ''decrypting password'' e))
           | Inr password \<Rightarrow>
               (case NewClient js (rg_url reg) (credentials_of reg password) of
                  Inl e \<Rightarrow> (w, Inr \<lparr>tc_Success = False, tc_Version = [], tc_ErrorMessage = ''creating registry client: '' @ e\<rparr>)
                | Inr cl \<Rightarrow>
                    (case Ping env cl w of
                       (w1, _, Inl e) \<Rightarrow> (w1, Inr \<lparr>tc_Success = False, tc_Version = [], tc_ErrorMessage = Error e\<rparr>)
                     | (w1, _, Inr _) \<Rightarrow> (w1, Inr \<lparr>tc_Success = True, tc_Version = ''unknown'', tc_ErrorMessage = []\<rparr>)))))"

text \<open>A call on a client made for one registry.\<close>

definition with_client ::
  "image_json \<Rightarrow> vault \<Rightarrow> int \<Rightarrow> reg_db \<Rightarrow> (client \<Rightarrow> 'w \<Rightarrow> 'w \<times> client \<times> (reg_err + 'r)) \<Rightarrow> 'w \<Rightarrow> 'w \<times> (store_err + 'r)" where
  "with_client js va i d f w =
     (case getClient js va i d of
        Inl e \<Rightarrow> (w, Inl e)
      | Inr cl \<Rightarrow> (case f cl w of (w1, _, Inl e) \<Rightarrow> (w1, Inl (Text (Error e))) | (w1, _, Inr r) \<Rightarrow> (w1, Inr r)))"

definition BrowseCatalog ::
  "'w registry_env \<Rightarrow> image_json \<Rightarrow> vault \<Rightarrow> int \<Rightarrow> int \<Rightarrow> string \<Rightarrow> reg_db \<Rightarrow> 'w \<Rightarrow> 'w \<times> (store_err + string list)" where
  "BrowseCatalog env js va i n lst d w = with_client js va i d (Catalog env n lst) w"

definition BrowseTags ::
  "'w registry_env \<Rightarrow> image_json \<Rightarrow> vault \<Rightarrow> int \<Rightarrow> string \<Rightarrow> int \<Rightarrow> string \<Rightarrow> reg_db \<Rightarrow> 'w \<Rightarrow> 'w \<times> (store_err + string list)" where
  "BrowseTags env js va i repo n lst d w = with_client js va i d (Tags env repo n lst) w"

definition GetTagDetail ::
  "'w registry_env \<Rightarrow> image_json \<Rightarrow> vault \<Rightarrow> int \<Rightarrow> string \<Rightarrow> string \<Rightarrow> reg_db \<Rightarrow> 'w \<Rightarrow> 'w \<times> (store_err + registryTag \<times> manifestDetail)" where
  "GetTagDetail env js va i repo tag d w = with_client js va i d (TagDetail env js repo tag) w"

definition DeleteTag ::
  "'w registry_env \<Rightarrow> image_json \<Rightarrow> vault \<Rightarrow> int \<Rightarrow> string \<Rightarrow> string \<Rightarrow> reg_db \<Rightarrow> 'w \<Rightarrow> 'w \<times> (store_err + unit)" where
  "DeleteTag env js va i repo tag d w =
     with_client js va i d (\<lambda>cl v.
       case TagDetail env js repo tag cl v of
         (v1, cl1, Inl e) \<Rightarrow> (v1, cl1, Inl (Wrapped (''resolving tag '' @ quoted_text tag) e))
       | (v1, cl1, Inr (t, _)) \<Rightarrow> DeleteManifest env repo (rt_Digest t) cl1 v1) w"

section \<open>Hexadecimal text\<close>

lemma hex_digit_value: "n < 16 \<Longrightarrow> hex_value (hex_digit n) = Some n"
proof -
  have "list_all (\<lambda>n. hex_value (hex_digit n) = Some n) [0..<16]" by code_simp
  then show "n < 16 \<Longrightarrow> hex_value (hex_digit n) = Some n" by (simp add: list_all_iff)
qed

lemma hex_roundtrip: "hex_decode bt (hex_encode s) = Inr s"
proof (induction s)
  case Nil then show ?case by (simp add: hex_encode_def)
next
  case (Cons c s)
  have b: "of_char c < (256 :: nat)" by simp
  then have "of_char c div 16 < (16 :: nat)" by linarith
  moreover have "char_of (16 * (of_char c div 16) + of_char c mod 16 :: nat) = c" by simp
  ultimately show ?case using Cons.IH by (simp add: hex_encode_def hex_digit_value)
qed

lemma length_hex: "length (hex_encode s) = 2 * length s"
  by (induction s) (simp_all add: hex_encode_def)

lemma hex_Nil_iff [simp]: "hex_encode s = [] \<longleftrightarrow> s = []"
  using length_hex [of s] by auto

section \<open>Passwords, round trips\<close>

text \<open>What the development uses of the cipher: opening gives back what was sealed, and a sealed text is
  not shorter than the text.\<close>

definition vault_ok :: "vault \<Rightarrow> bool" where
  "vault_ok va \<longleftrightarrow> (\<forall>n p. va_open va (va_key va) n (va_seal va (va_key va) n p) = Inr p \<and> length p \<le> length (va_seal va (va_key va) n p))"

definition stored :: "vault \<Rightarrow> string \<Rightarrow> string \<Rightarrow> string" where
  "stored va nonce p = (if p = [] then [] else hex_encode (nonce @ va_seal va (va_key va) nonce p))"

lemma encrypt_stored: "encryptPassword va (Inr nonce) p = Inr (stored va nonce p)"
  by (simp add: encryptPassword_def stored_def)

lemma decrypt_stored:
  assumes "vault_ok va" "length nonce = nonceSize"
  shows "decryptPassword va (stored va nonce p) = Inr p"
  using assms by (auto simp: decryptPassword_def stored_def hex_roundtrip vault_ok_def nonceSize_def)

lemma stored_Nil_iff: "length nonce = nonceSize \<Longrightarrow> stored va nonce p = [] \<longleftrightarrow> p = []"
  by (auto simp: stored_def nonceSize_def)

lemma stored_longer:
  assumes "vault_ok va" "length nonce = nonceSize" "p \<noteq> []"
  shows "length p < length (stored va nonce p)"
proof -
  have "length p \<le> length (va_seal va (va_key va) nonce p)" using assms(1) by (simp add: vault_ok_def)
  with assms show ?thesis by (simp add: stored_def length_hex nonceSize_def)
qed

lemma decrypt_row:
  assumes "vault_ok va" "length nonce = nonceSize" "row_by rg_id (rd_registries d) i = Some r" "rg_password r = stored va nonce p"
  shows "DecryptPassword va i d = Inr p"
  using assms decrypt_stored [of va nonce p] stored_Nil_iff [of nonce va p] by (simp add: DecryptPassword_def)

section \<open>Invariant of the tables\<close>

definition tasks_ok :: "reg_db \<Rightarrow> bool" where
  "tasks_ok d \<longleftrightarrow> keyed rg_id (rd_registries d) (rd_reg_seq d) \<and> 0 \<le> rd_reg_seq d \<and>
     keyed st_id (rd_tasks d) (rd_task_seq d) \<and> 0 \<le> rd_task_seq d \<and>
     (\<forall>t \<in> set (rd_tasks d). st_status t \<in> set statuses \<and>
        has_row rg_id (rd_registries d) (st_source_registry t) \<and> has_row rg_id (rd_registries d) (st_target_registry t)) \<and>
     distinct (map task_target (filter active (rd_tasks d)))"

text \<open>A change of a task that keeps its columns and does not revive it.\<close>

definition harmless :: "(sync_task \<Rightarrow> sync_task) \<Rightarrow> bool" where
  "harmless f \<longleftrightarrow> (\<forall>t. st_id (f t) = st_id t \<and> st_source_registry (f t) = st_source_registry t \<and> task_target (f t) = task_target t \<and>
     (active (f t) \<longrightarrow> active t) \<and> (st_status t \<in> set statuses \<longrightarrow> st_status (f t) \<in> set statuses))"

lemma active_map_targets:
  assumes "harmless f"
  shows "set (map task_target (filter active (map f ts))) \<subseteq> set (map task_target (filter active ts)) \<and>
    (distinct (map task_target (filter active ts)) \<longrightarrow> distinct (map task_target (filter active (map f ts))))"
proof (induction ts)
  case (Cons t ts)
  have "task_target (f t) = task_target t" "active (f t) \<Longrightarrow> active t" using assms by (auto simp: harmless_def)
  with Cons show ?case by auto
qed simp

lemma tasks_ok_map:
  assumes ok: "tasks_ok d" and f: "harmless f"
  shows "tasks_ok (d\<lparr>rd_tasks := map f (rd_tasks d)\<rparr>)"
proof -
  have k: "map st_id (map f (rd_tasks d)) = map st_id (rd_tasks d)" using f by (simp add: harmless_def)
  have "keyed st_id (map f (rd_tasks d)) (rd_task_seq d)"
    using ok k unfolding tasks_ok_def keyed_def by (metis list.set_map)
  moreover have "st_target_registry (f t) = st_target_registry t" for t
    using f by (auto simp: harmless_def task_target_def)
  ultimately show ?thesis
    using ok f active_map_targets [OF f, of "rd_tasks d"] unfolding tasks_ok_def by (auto simp: harmless_def)
qed

lemma harmless_if: "harmless f \<Longrightarrow> harmless (\<lambda>t. if P t then f t else t)"
  by (auto simp: harmless_def)

lemma harmless_progress: "harmless (\<lambda>t. t\<lparr>st_progress := a, st_total := b, st_updated := c\<rparr>)"
  by (simp add: harmless_def task_target_def active_def)

lemma harmless_end: "to \<in> {''completed'', ''failed''} \<Longrightarrow> harmless (set_status now to msg)"
  by (auto simp: harmless_def task_target_def active_def set_status_def statuses_def)

lemma harmless_start: "harmless (\<lambda>t. if st_id t = i \<and> st_status t = ''pending'' then set_status now ''running'' msg t else t)"
  by (auto simp: harmless_def task_target_def active_def set_status_def statuses_def)

lemma UpdateProgress_ok: "tasks_ok d \<Longrightarrow> tasks_ok (UpdateProgress now i a b d)"
  unfolding UpdateProgress_def upd_row_def by (intro tasks_ok_map harmless_if harmless_progress)

lemma task_Start_ok: "tasks_ok d \<Longrightarrow> tasks_ok (fst (task_Start now i d))"
  by (simp add: task_Start_def transitionStatus_def tasks_ok_map [OF _ harmless_start])

lemma task_Complete_ok: "tasks_ok d \<Longrightarrow> tasks_ok (fst (task_Complete now i d))"
  by (simp add: task_Complete_def transitionStatus_def tasks_ok_map [OF _ harmless_if [OF harmless_end]])

lemma task_Fail_ok: "tasks_ok d \<Longrightarrow> tasks_ok (fst (task_Fail now i msg d))"
  by (simp add: task_Fail_def upd_row_def tasks_ok_map [OF _ harmless_if [OF harmless_end]] split: option.splits)

lemma task_Create_ok:
  assumes ok: "tasks_ok d" and free: "GetActiveByTarget (st_target_registry t) (st_target_repo t) (st_target_tag t) d = None"
  shows "tasks_ok (fst (task_Create now t d))"
proof -
  have "task_target t \<notin> task_target ` set (filter active (rd_tasks d))"
    using free by (auto simp: GetActiveByTarget_def find_None_iff task_target_def)
  with ok show ?thesis
    unfolding tasks_ok_def task_Create_def
    by (auto simp: Let_def statuses_def active_def task_target_def intro!: keyed_append)
qed

lemma reg_Update_ok: "tasks_ok d \<Longrightarrow> tasks_ok (fst (reg_Update va rnd now reg d))"
  unfolding reg_Update_def tasks_ok_def by (auto simp: update_columns_def split: sum.splits)

lemma reg_Create_ok: "tasks_ok d \<Longrightarrow> tasks_ok (fst (reg_Create va rnd now reg d))"
  unfolding reg_Create_def tasks_ok_def by (auto simp: Let_def intro!: keyed_append split: sum.splits)

lemma reg_Delete_ok: "tasks_ok d \<Longrightarrow> tasks_ok (fst (reg_Delete i d))"
  unfolding reg_Delete_def tasks_ok_def
  by (auto simp: list_ex_iff references_def intro: keyed_filter)

section \<open>Properties\<close>

text \<open>C29: The password given when a registry is created is the one its clients use, and so is a new
  password of a later change. A change that gives no password, however, seals the sealed text once more:
  the clients then use the sealed text instead of the password.\<close>

theorem registry_password:
  assumes va: "vault_ok va" and n: "length nonce = nonceSize" "length nonce' = nonceSize" and ok: "tasks_ok d"
    and cr: "CreateRegistry va (Inr nonce) now req d = (d1, Inr r)"
    and up: "UpdateRegistry va (Inr nonce') now' (rg_id r) req' d1 = (d2, Inr r')"
  shows "DecryptPassword va (rg_id r) d1 = Inr (rq_Password req) \<and>
    DecryptPassword va (rg_id r) d2 =
      Inr (if rq_Password req' \<noteq> [] then rq_Password req' else stored va nonce (rq_Password req)) \<and>
    (rq_Password req' = [] \<and> rq_Password req \<noteq> [] \<longrightarrow> DecryptPassword va (rg_id r) d2 \<noteq> DecryptPassword va (rg_id r) d1)"
proof -
  have i: "rg_id r = rd_reg_seq d + 1"
    using cr by (auto simp: CreateRegistry_def reg_Create_def Let_def split: sum.splits if_splits)
  obtain r0 where r0: "row_by rg_id (rd_registries d1) (rg_id r) = Some r0" "rg_password r0 = stored va nonce (rq_Password req)"
    using cr keyed_fresh [of rg_id "rd_registries d" "rd_reg_seq d"] ok
    by (auto simp: CreateRegistry_def reg_Create_def Let_def encrypt_stored tasks_ok_def split: if_splits)
  have i0: "rg_id r0 = rg_id r" using row_by_SomeD [OF r0(1)] by simp
  let ?p = "if rq_Password req' \<noteq> [] then rq_Password req' else stored va nonce (rq_Password req)"
  have p: "rg_password (changed req' r0) = ?p" using r0(2) by (simp add: changed_def)
  have "d2 = d1\<lparr>rd_registries := upd_row rg_id (rg_id r) (update_columns now' (stored va nonce' ?p) (changed req' r0)) (rd_registries d1)\<rparr>"
    using up r0 p i0 by (auto simp: UpdateRegistry_def reg_Update_def reg_GetByID_def encrypt_stored changed_def stored_def split: if_splits)
  then have r2: "row_by rg_id (rd_registries d2) (rg_id r) = Some (update_columns now' (stored va nonce' ?p) (changed req' r0) r0)"
    using r0(1) i0 by (simp add: row_by_upd_row update_columns_def)
  have one: "DecryptPassword va (rg_id r) d1 = Inr (rq_Password req)" by (rule decrypt_row [OF va n(1) r0])
  have two: "DecryptPassword va (rg_id r) d2 = Inr ?p"
    by (rule decrypt_row [OF va n(2) r2]) (simp add: update_columns_def)
  have "stored va nonce (rq_Password req) \<noteq> rq_Password req" if "rq_Password req \<noteq> []"
    using stored_longer [OF va n(1) that] by force
  with one two show ?thesis by simp
qed

definition demo_vault :: vault where
  "demo_vault = \<lparr>va_key = registry_key ''secret'', va_seal = (\<lambda>k n p. rev p), va_open = (\<lambda>k n c. Inr (rev c)), va_byte_text = (\<lambda>c. [c])\<rparr>"

definition demo_reg_db :: reg_db where
  "demo_reg_db = \<lparr>rd_registries = [], rd_reg_seq = 0, rd_tasks = [], rd_task_seq = 0\<rparr>"

definition demo_request :: "string \<Rightarrow> registry_request" where
  "demo_request p = \<lparr>rq_Name = ''hub'', rq_URL = ''https://hub'', rq_Type = ''ghcr'', rq_Username = ''u'', rq_Password = p\<rparr>"

theorem registry_password_witness:
  "let d1 = fst (CreateRegistry demo_vault (Inr ''abcdefghijkl'') 1 (demo_request ''pw'') demo_reg_db);
       d2 = fst (UpdateRegistry demo_vault (Inr ''abcdefghijkl'') 2 1 (demo_request []) d1)
   in DecryptPassword demo_vault 1 d1 = Inr ''pw'' \<and> DecryptPassword demo_vault 1 d2 \<noteq> Inr ''pw''"
proof -
  define d1 where "d1 = fst (CreateRegistry demo_vault (Inr ''abcdefghijkl'') 1 (demo_request ''pw'') demo_reg_db)"
  define r where "r = projr (snd (CreateRegistry demo_vault (Inr ''abcdefghijkl'') 1 (demo_request ''pw'') demo_reg_db))"
  define d2 where "d2 = fst (UpdateRegistry demo_vault (Inr ''abcdefghijkl'') 2 1 (demo_request []) d1)"
  define r' where "r' = projr (snd (UpdateRegistry demo_vault (Inr ''abcdefghijkl'') 2 1 (demo_request []) d1))"
  have v: "vault_ok demo_vault" by (simp add: vault_ok_def demo_vault_def)
  have o: "tasks_ok demo_reg_db" by (simp add: tasks_ok_def demo_reg_db_def keyed_def)
  have r: "rg_id r = 1" unfolding r_def by code_simp
  have c: "CreateRegistry demo_vault (Inr ''abcdefghijkl'') 1 (demo_request ''pw'') demo_reg_db = (d1, Inr r)"
    unfolding d1_def r_def by code_simp
  have u: "UpdateRegistry demo_vault (Inr ''abcdefghijkl'') 2 (rg_id r) (demo_request []) d1 = (d2, Inr r')"
    unfolding r d2_def r'_def d1_def by code_simp
  have p: "rq_Password (demo_request ''pw'') = ''pw''" "rq_Password (demo_request []) = []" by (simp_all add: demo_request_def)
  have "length ''abcdefghijkl'' = nonceSize" by (simp add: nonceSize_def)
  then have "DecryptPassword demo_vault (rg_id r) d1 = Inr ''pw''" "DecryptPassword demo_vault (rg_id r) d2 \<noteq> DecryptPassword demo_vault (rg_id r) d1"
    using registry_password [OF v _ _ o c u] p by auto
  then show ?thesis unfolding Let_def r d1_def [symmetric] d2_def [symmetric] by simp
qed

end
