(* ===== verification/Registry_Sync.thy ===== *)
theory Registry_Sync
  imports Registry_Store
begin

text \<open>
  Copying images between registries, src/internal/service/sync_service.go. The service works on the
  interface RegistrySyncClient; \<open>sync_ops\<close> is that interface, a record of operations on a client and the
  world, with the client factory, the clock and the errors of temporary files and of the database. The world
  has the context of a call too: \<open>so_db\<close> is the error of a statement, named by what it is for, when the
  context of the call is cancelled or its deadline is over, or when the database fails. \<open>registry_ops\<close> are the
  operations of the registry client of the theory Registry_Images, which the service uses.

  The locale \<open>sync_client\<close> is what the service relies on: no operation changes which registry a client
  talks to. It is interpreted on \<open>registry_ops\<close>.
\<close>

section \<open>The interface\<close>

record ('c, 'w) sync_ops =
  so_Manifest :: "string \<Rightarrow> string \<Rightarrow> 'c \<Rightarrow> 'w \<Rightarrow> 'w \<times> 'c \<times> (string + manifestDetail)"
  so_RawManifest :: "string \<Rightarrow> string \<Rightarrow> 'c \<Rightarrow> 'w \<Rightarrow> 'w \<times> 'c \<times> (string + string \<times> string \<times> string)"
  so_PullBlob :: "string \<Rightarrow> string \<Rightarrow> 'c \<Rightarrow> 'w \<Rightarrow> 'w \<times> 'c \<times> (string + string)"
  so_PushBlob :: "string \<Rightarrow> string \<Rightarrow> string \<Rightarrow> 'c \<Rightarrow> 'w \<Rightarrow> 'w \<times> 'c \<times> (string + unit)"
  so_BlobExists :: "string \<Rightarrow> string \<Rightarrow> 'c \<Rightarrow> 'w \<Rightarrow> 'w \<times> 'c \<times> (string + bool)"
  so_PushManifest :: "string \<Rightarrow> string \<Rightarrow> string \<Rightarrow> string \<Rightarrow> 'c \<Rightarrow> 'w \<Rightarrow> 'w \<times> 'c \<times> (string + unit)"
  so_factory :: "string \<Rightarrow> credentials option \<Rightarrow> string + 'c"
  so_now :: "'w \<Rightarrow> int"
  so_temp :: "'w \<Rightarrow> string option"
  so_seek :: "'w \<Rightarrow> string option"
  so_stat :: "'w \<Rightarrow> string option"
  so_db :: "string \<Rightarrow> 'w \<Rightarrow> string option"

definition text_result :: "'w \<times> client \<times> (reg_err + 'r) \<Rightarrow> 'w \<times> client \<times> (string + 'r)" where
  "text_result x = (case x of (w, c, r) \<Rightarrow> (w, c, case r of Inl e \<Rightarrow> Inl (Error e) | Inr v \<Rightarrow> Inr v))"

definition registry_ops ::
  "'w registry_env \<Rightarrow> image_json \<Rightarrow> ('w \<Rightarrow> string option) \<Rightarrow> ('w \<Rightarrow> string option) \<Rightarrow> ('w \<Rightarrow> string option) \<Rightarrow>
   (string \<Rightarrow> 'w \<Rightarrow> string option) \<Rightarrow> (client, 'w) sync_ops" where
  "registry_ops env js tmp seek stat dbf =
     \<lparr>so_Manifest = (\<lambda>repo ref c w. text_result (Manifest env js repo ref c w)),
      so_RawManifest = (\<lambda>repo ref c w. text_result (RawManifest env js repo ref c w)),
      so_PullBlob = (\<lambda>repo dig c w. text_result (PullBlob env repo dig c w)),
      so_PushBlob = (\<lambda>repo blob dig c w. text_result (PushBlob env js repo blob dig c w)),
      so_BlobExists = (\<lambda>repo dig c w. text_result (BlobExists env repo dig c w)),
      so_PushManifest = (\<lambda>repo tag body mt c w. text_result (PushManifest env repo tag body mt c w)),
      so_factory = NewClient js, so_now = re_now env, so_temp = tmp, so_seek = seek, so_stat = stat, so_db = dbf\<rparr>"

section \<open>The service\<close>

record sync_request =
  sr_source_registry :: int
  sr_target_registry :: int
  sr_source_repo :: string
  sr_source_tag :: string
  sr_target_repo :: string
  sr_target_tag :: string

definition new_task :: "sync_request \<Rightarrow> sync_task" where
  "new_task req = \<lparr>st_id = 0, st_source_registry = sr_source_registry req, st_target_registry = sr_target_registry req,
     st_source_repo = sr_source_repo req, st_source_tag = sr_source_tag req, st_target_repo = sr_target_repo req,
     st_target_tag = sr_target_tag req, st_status = [], st_progress = 0, st_total = 0, st_error = [], st_created = 0, st_updated = 0\<rparr>"

definition CreateSync :: "int \<Rightarrow> sync_request \<Rightarrow> reg_db \<Rightarrow> reg_db \<times> (store_err + sync_task option)" where
  "CreateSync now req d =
     (case reg_GetByID (sr_source_registry req) d of
        None \<Rightarrow> (d, Inl (Text (''source registry '' @ format_int (sr_source_registry req) @ '' not found'')))
      | Some _ \<Rightarrow>
     (case reg_GetByID (sr_target_registry req) d of
        None \<Rightarrow> (d, Inl (Text (''target registry '' @ format_int (sr_target_registry req) @ '' not found'')))
      | Some _ \<Rightarrow>
     (case GetActiveByTarget (sr_target_registry req) (sr_target_repo req) (sr_target_tag req) d of
        Some a \<Rightarrow> (d, Inl (Text (''active sync already exists for '' @ sr_target_repo req @ '':'' @ sr_target_tag req @
                    '' (task '' @ format_int (st_id a) @ '')'')))
      | None \<Rightarrow>
     (case task_Create now (new_task req) d of
        (d1, Inl e) \<Rightarrow> (d1, Inl (Ctx ''creating sync task'' e))
      | (d1, Inr i) \<Rightarrow> (d1, Inr (task_GetByID i d1))))))"

text \<open>The client of the registry \<open>i\<close>; \<open>side\<close> tells the statements of the two clients apart.\<close>

definition createClient :: "('c, 'w) sync_ops \<Rightarrow> vault \<Rightarrow> string \<Rightarrow> int \<Rightarrow> reg_db \<Rightarrow> 'w \<Rightarrow> store_err + 'c" where
  "createClient ops va side i d w =
     (case so_db ops (side @ '' registry'') w of
        Some e \<Rightarrow> Inl (Ctx (''getting registry '' @ format_int i) (Ctx ''scanning registry'' (Text e)))
      | None \<Rightarrow>
     (case reg_GetByID i d of
        None \<Rightarrow> Inl (not_found i)
      | Some reg \<Rightarrow>
          (case so_db ops (side @ '' password'') w of
             Some e \<Rightarrow> Inl (Ctx (''decrypting password for registry '' @ format_int i)
               (Ctx (''fetching password for registry '' @ format_int i) (Text e)))
           | None \<Rightarrow>
          (case DecryptPassword va i d of
             Inl e \<Rightarrow> Inl (Ctx (''decrypting password for registry '' @ format_int i) e)
           | Inr password \<Rightarrow>
               (case so_factory ops (rg_url reg) (credentials_of reg password) of
                  Inl e \<Rightarrow> Inl (Ctx (''creating client for '' @ rg_url reg) (Text e))
                | Inr c \<Rightarrow> Inr c)))))"

definition transferBlob ::
  "('c, 'w) sync_ops \<Rightarrow> string \<Rightarrow> string \<Rightarrow> string \<Rightarrow> 'c \<Rightarrow> 'c \<Rightarrow> 'w \<Rightarrow> 'w \<times> 'c \<times> 'c \<times> (store_err + int)" where
  "transferBlob ops sourceRepo targetRepo dig src tgt w =
     (case so_temp ops w of
        Some e \<Rightarrow> (w, src, tgt, Inl (Ctx ''creating temp file'' (Text e)))
      | None \<Rightarrow>
     (case so_PullBlob ops sourceRepo dig src w of
        (w1, src1, Inl e) \<Rightarrow> (w1, src1, tgt, Inl (Ctx (''pulling blob '' @ dig) (Text e)))
      | (w1, src1, Inr blob) \<Rightarrow>
     (case so_seek ops w1 of
        Some e \<Rightarrow> (w1, src1, tgt, Inl (Ctx ''seeking temp file'' (Text e)))
      | None \<Rightarrow>
     (case so_stat ops w1 of
        Some e \<Rightarrow> (w1, src1, tgt, Inl (Ctx ''stat temp file'' (Text e)))
      | None \<Rightarrow>
     (case so_PushBlob ops targetRepo blob dig tgt w1 of
        (w2, tgt2, Inl e) \<Rightarrow> (w2, src1, tgt2, Inl (Ctx (''pushing blob '' @ dig) (Text e)))
      | (w2, tgt2, Inr _) \<Rightarrow> (w2, src1, tgt2, Inr (int (length blob))))))))"

text \<open>A failure that cannot be written is logged only: the task stays as it is. So with the progress.\<close>

definition failTask :: "('c, 'w) sync_ops \<Rightarrow> 'w \<Rightarrow> int \<Rightarrow> string \<Rightarrow> reg_db \<Rightarrow> reg_db" where
  "failTask ops w taskID msg d = (if so_db ops ''fail'' w \<noteq> None then d else fst (task_Fail (so_now ops w) taskID msg d))"

definition set_progress :: "('c, 'w) sync_ops \<Rightarrow> 'w \<Rightarrow> int \<Rightarrow> int \<Rightarrow> int \<Rightarrow> reg_db \<Rightarrow> reg_db" where
  "set_progress ops w taskID bytesDone totalBytes d =
     (if so_db ops ''progress'' w \<noteq> None then d else UpdateProgress (so_now ops w) taskID bytesDone totalBytes d)"

text \<open>The loop over the layers. It returns the database, the world and the clients; an error has been
  recorded in the task already.\<close>

fun sync_layers ::
  "('c, 'w) sync_ops \<Rightarrow> sync_task \<Rightarrow> int \<Rightarrow> int \<Rightarrow> layerInfo list \<Rightarrow> reg_db \<Rightarrow> 'w \<Rightarrow> 'c \<Rightarrow> 'c \<Rightarrow>
   reg_db \<times> 'w \<times> 'c \<times> 'c \<times> (store_err + unit)" where
  "sync_layers ops task totalBytes bd [] d w src tgt = (d, w, src, tgt, Inr ())"
| "sync_layers ops task totalBytes bd (l # ls) d w src tgt =
     (let taskID = st_id task in
      case so_BlobExists ops (st_target_repo task) (li_Digest l) tgt w of
        (w1, tgt1, Inl e) \<Rightarrow>
          (failTask ops w1 taskID (''checking blob '' @ li_Digest l @ '': '' @ e) d, w1, src, tgt1,
           Inl (Ctx ''checking blob existence'' (Text e)))
      | (w1, tgt1, Inr True) \<Rightarrow>
          (let bd' = wrap64 (bd + li_Size l) in
           sync_layers ops task totalBytes bd' ls (set_progress ops w1 taskID bd' totalBytes d) w1 src tgt1)
      | (w1, tgt1, Inr False) \<Rightarrow>
          (case transferBlob ops (st_source_repo task) (st_target_repo task) (li_Digest l) src tgt1 w1 of
             (w2, src2, tgt2, Inl e) \<Rightarrow> (failTask ops w2 taskID (err_text e) d, w2, src2, tgt2, Inl e)
           | (w2, src2, tgt2, Inr _) \<Rightarrow>
               (let bd' = wrap64 (bd + li_Size l) in
                sync_layers ops task totalBytes bd' ls (set_progress ops w2 taskID bd' totalBytes d) w2 src2 tgt2)))"

definition sync_config ::
  "('c, 'w) sync_ops \<Rightarrow> sync_task \<Rightarrow> string \<Rightarrow> reg_db \<Rightarrow> 'w \<Rightarrow> 'c \<Rightarrow> 'c \<Rightarrow> reg_db \<times> 'w \<times> 'c \<times> 'c \<times> (store_err + unit)" where
  "sync_config ops task dig d w src tgt =
     (if dig = [] then (d, w, src, tgt, Inr ())
      else case so_BlobExists ops (st_target_repo task) dig tgt w of
        (w1, tgt1, Inl e) \<Rightarrow> (d, w1, src, tgt1, Inr ())
      | (w1, tgt1, Inr True) \<Rightarrow> (d, w1, src, tgt1, Inr ())
      | (w1, tgt1, Inr False) \<Rightarrow>
          (case transferBlob ops (st_source_repo task) (st_target_repo task) dig src tgt1 w1 of
             (w2, src2, tgt2, Inl e) \<Rightarrow> (failTask ops w2 (st_id task) (err_text e) d, w2, src2, tgt2, Inl e)
           | (w2, src2, tgt2, Inr _) \<Rightarrow> (d, w2, src2, tgt2, Inr ())))"

definition finish :: "('c, 'w) sync_ops \<Rightarrow> int \<Rightarrow> string \<Rightarrow> reg_db \<Rightarrow> 'w \<Rightarrow> reg_db \<times> 'w \<times> (store_err + unit)" where
  "finish ops taskID ctx d w =
     (case so_db ops ''complete'' w of
        Some e \<Rightarrow> (d, w, Inl (Ctx ctx (Ctx (''transitioning sync task '' @ format_int taskID @ '' from running to completed'') (Text e))))
      | None \<Rightarrow>
     (case task_Complete (so_now ops w) taskID d of
        (d1, Inl e) \<Rightarrow> (d1, w, Inl (Ctx ctx e))
      | (d1, Inr _) \<Rightarrow> (d1, w, Inr ())))"

text \<open>From the parsed manifest on: layers, configuration, manifest.\<close>

definition copy_image ::
  "('c, 'w) sync_ops \<Rightarrow> sync_task \<Rightarrow> string \<Rightarrow> string \<Rightarrow> manifestDetail \<Rightarrow> reg_db \<Rightarrow> 'w \<Rightarrow> 'c \<Rightarrow> 'c \<Rightarrow> reg_db \<times> 'w \<times> (store_err + unit)" where
  "copy_image ops task rawBody mediaType m d w src tgt =
     (let taskID = st_id task; totalBytes = sum_sizes (md_Layers m) in
      case sync_layers ops task totalBytes 0 (md_Layers m) (set_progress ops w taskID 0 totalBytes d) w src tgt of
        (d1, w1, src1, tgt1, Inl e) \<Rightarrow> (d1, w1, Inl e)
      | (d1, w1, src1, tgt1, Inr _) \<Rightarrow>
     (case sync_config ops task (md_Config m) d1 w1 src1 tgt1 of
        (d2, w2, src2, tgt2, Inl e) \<Rightarrow> (d2, w2, Inl e)
      | (d2, w2, src2, tgt2, Inr _) \<Rightarrow>
     (case so_PushManifest ops (st_target_repo task) (st_target_tag task) rawBody mediaType tgt2 w2 of
        (w3, tgt3, Inl e) \<Rightarrow> (failTask ops w3 taskID (''pushing manifest: '' @ e) d2, w3, Inl (Ctx ''pushing manifest'' (Text e)))
      | (w3, tgt3, Inr _) \<Rightarrow> finish ops taskID ''completing sync task'' d2 w3)))"

text \<open>From the two clients on: the manifests.\<close>

definition run_sync ::
  "('c, 'w) sync_ops \<Rightarrow> sync_task \<Rightarrow> reg_db \<Rightarrow> 'w \<Rightarrow> 'c \<Rightarrow> 'c \<Rightarrow> reg_db \<times> 'w \<times> (store_err + unit)" where
  "run_sync ops task d w src tgt =
     (let taskID = st_id task in
      case so_RawManifest ops (st_source_repo task) (st_source_tag task) src w of
        (w1, src1, Inl e) \<Rightarrow> (failTask ops w1 taskID e d, w1, Inl (Ctx ''fetching raw manifest'' (Text e)))
      | (w1, src1, Inr (rawBody, _, mediaType)) \<Rightarrow>
     (case so_RawManifest ops (st_target_repo task) (st_target_tag task) tgt w1 of
        (w2, tgt2, targetRes) \<Rightarrow>
          if (case targetRes of Inl e \<Rightarrow> False | Inr (targetRaw, _, _) \<Rightarrow> targetRaw = rawBody)
          then finish ops taskID ''completing idempotent sync'' d w2
          else (case so_Manifest ops (st_source_repo task) (st_source_tag task) src1 w2 of
              (w3, src3, Inl e) \<Rightarrow> (failTask ops w3 taskID e d, w3, Inl (Ctx ''fetching source manifest'' (Text e)))
            | (w3, src3, Inr m) \<Rightarrow> copy_image ops task rawBody mediaType m d w3 src3 tgt2)))"

definition ExecuteSync :: "('c, 'w) sync_ops \<Rightarrow> vault \<Rightarrow> int \<Rightarrow> reg_db \<Rightarrow> 'w \<Rightarrow> reg_db \<times> 'w \<times> (store_err + unit)" where
  "ExecuteSync ops va taskID d w =
     (case so_db ops ''get'' w of
        Some e \<Rightarrow> (d, w, Inl (Ctx ''getting sync task'' (Ctx ''scanning sync task'' (Text e))))
      | None \<Rightarrow>
     (case task_GetByID taskID d of
        None \<Rightarrow> (d, w, Inl (Text (''sync task '' @ format_int taskID @ '' not found'')))
      | Some task \<Rightarrow>
     (case so_db ops ''start'' w of
        Some e \<Rightarrow> (d, w, Inl (Ctx ''starting sync task''
          (Ctx (''transitioning sync task '' @ format_int taskID @ '' from pending to running'') (Text e))))
      | None \<Rightarrow>
     (case task_Start (so_now ops w) taskID d of
        (d1, Inl e) \<Rightarrow> (d1, w, Inl (Ctx ''starting sync task'' e))
      | (d1, Inr _) \<Rightarrow>
     (case createClient ops va ''source'' (st_source_registry task) d1 w of
        Inl e \<Rightarrow> (failTask ops w taskID (err_text e) d1, w, Inl (Ctx ''creating source client'' e))
      | Inr src \<Rightarrow>
     (case createClient ops va ''target'' (st_target_registry task) d1 w of
        Inl e \<Rightarrow> (failTask ops w taskID (err_text e) d1, w, Inl (Ctx ''creating target client'' e))
      | Inr tgt \<Rightarrow> run_sync ops task d1 w src tgt))))))"

definition ListSyncTasks :: "string \<Rightarrow> reg_db \<Rightarrow> sync_task list" where
  "ListSyncTasks status d = task_ListByStatus status d"

definition GetSyncTask :: "int \<Rightarrow> reg_db \<Rightarrow> sync_task option" where
  "GetSyncTask i d = task_GetByID i d"

definition CancelSync :: "int \<Rightarrow> int \<Rightarrow> reg_db \<Rightarrow> reg_db \<times> (store_err + unit)" where
  "CancelSync now i d =
     (case task_Cancel now i d of
        (d1, Inl e) \<Rightarrow> (d1, Inl (Ctx ''cancelling sync task'' e))
      | (d1, Inr _) \<Rightarrow> (d1, Inr ()))"

section \<open>What a run does to the tables\<close>

definition task_state :: "int \<Rightarrow> string \<Rightarrow> reg_db \<Rightarrow> bool" where
  "task_state i s d \<longleftrightarrow> (case row_by st_id (rd_tasks d) i of None \<Rightarrow> False | Some t \<Rightarrow> st_status t = s)"

definition only_task :: "int \<Rightarrow> reg_db \<Rightarrow> reg_db \<Rightarrow> bool" where
  "only_task i d d' \<longleftrightarrow> rd_registries d' = rd_registries d \<and> rd_reg_seq d' = rd_reg_seq d \<and> rd_task_seq d' = rd_task_seq d \<and>
     (\<forall>j. j \<noteq> i \<longrightarrow> row_by st_id (rd_tasks d') j = row_by st_id (rd_tasks d) j) \<and>
     map_option task_target (row_by st_id (rd_tasks d') i) = map_option task_target (row_by st_id (rd_tasks d) i)"

lemma only_task_refl [simp]: "only_task i d d"
  by (simp add: only_task_def)

lemma only_task_trans [trans]: "only_task i d d' \<Longrightarrow> only_task i d' d'' \<Longrightarrow> only_task i d d''"
  by (simp add: only_task_def)

text \<open>Where a run that ends in the world \<open>w\<close> leaves a running task: in the state \<open>s\<close>, or failed, or still running
  when the statement that would have ended it failed.\<close>

definition runs_to :: "(string \<Rightarrow> 'w \<Rightarrow> string option) \<Rightarrow> 'w \<Rightarrow> int \<Rightarrow> string \<Rightarrow> reg_db \<Rightarrow> reg_db \<times> (store_err + unit) \<Rightarrow> bool" where
  "runs_to dbf w i s d x \<longleftrightarrow> tasks_ok (fst x) \<and> only_task i d (fst x) \<and>
     (if isl (snd x)
      then task_state i ''failed'' (fst x) \<or> task_state i ''running'' (fst x) \<and> (dbf ''fail'' w \<noteq> None \<or> dbf ''complete'' w \<noteq> None)
      else task_state i s (fst x))"

lemma upd_task_only:
  assumes "\<And>t. st_id (f t) = st_id t" "\<And>t. task_target (f t) = task_target t"
  shows "only_task i d (d\<lparr>rd_tasks := upd_row st_id i f (rd_tasks d)\<rparr>)"
proof -
  have "row_by st_id (upd_row st_id i f (rd_tasks d)) j = row_by st_id (rd_tasks d) j" if "j \<noteq> i" for j
    using assms(1) that by (cases "row_by st_id (rd_tasks d) j") (auto simp: row_by_upd_row dest: row_by_SomeD)
  moreover have "map_option task_target (row_by st_id (upd_row st_id i f (rd_tasks d)) i) = map_option task_target (row_by st_id (rd_tasks d) i)"
    using assms by (cases "row_by st_id (rd_tasks d) i") (auto simp: row_by_upd_row)
  ultimately show ?thesis by (simp add: only_task_def)
qed

lemma failTask_runs:
  assumes "tasks_ok d" "task_state i ''running'' d"
  shows "runs_to (so_db ops) w i s d (failTask ops w i msg d, Inl e)"
proof (cases "so_db ops ''fail'' w")
  case None
  obtain t where t: "row_by st_id (rd_tasks d) i = Some t" "st_status t = ''running''"
    using assms(2) by (auto simp: task_state_def split: option.splits)
  then have f: "failTask ops w i msg d = d\<lparr>rd_tasks := upd_row st_id i (set_status (so_now ops w) ''failed'' msg) (rd_tasks d)\<rparr>"
    using None by (simp add: failTask_def task_Fail_def)
  have o: "only_task i d (failTask ops w i msg d)"
    unfolding f by (rule upd_task_only) (simp_all add: set_status_def task_target_def)
  have "tasks_ok (failTask ops w i msg d)" using assms(1) by (simp add: failTask_def task_Fail_ok)
  moreover have "task_state i ''failed'' (failTask ops w i msg d)"
    using t row_by_SomeD [OF t(1)] by (simp add: f task_state_def row_by_upd_row set_status_def)
  ultimately show ?thesis using o by (simp add: runs_to_def)
next
  case (Some e)
  then show ?thesis using assms by (simp add: failTask_def runs_to_def)
qed

lemma progress_runs:
  assumes "tasks_ok d" "task_state i ''running'' d"
  shows "runs_to dbf v i ''running'' d (set_progress ops w i a b d, Inr ())"
proof -
  have "only_task i d (UpdateProgress (so_now ops w) i a b d)"
    unfolding UpdateProgress_def by (rule upd_task_only) (simp_all add: task_target_def)
  moreover have "task_state i ''running'' (UpdateProgress (so_now ops w) i a b d)"
    using assms(2) by (auto simp: task_state_def UpdateProgress_def row_by_upd_row split: option.splits)
  ultimately show ?thesis using assms by (simp add: runs_to_def UpdateProgress_ok set_progress_def)
qed

lemma transition_row:
  assumes "keyed st_id (rd_tasks d) n" "row_by st_id (rd_tasks d) i = Some t" "st_status t = from"
  shows "transitionStatus now i from to msg d = (d\<lparr>rd_tasks := upd_row st_id i (set_status now to msg) (rd_tasks d)\<rparr>, Inr ())"
proof -
  have d: "distinct (map st_id (rd_tasks d))" using assms(1) by (simp add: keyed_def)
  have t: "t \<in> set (rd_tasks d)" "st_id t = i" using row_by_SomeD [OF assms(2)] by auto
  have "t' = t" if "t' \<in> set (rd_tasks d)" "st_id t' = i" for t'
    using d t that by (metis row_by_eq_Some_iff option.inject)
  then have "map (\<lambda>t. if st_id t = i \<and> st_status t = from then set_status now to msg t else t) (rd_tasks d) =
      upd_row st_id i (set_status now to msg) (rd_tasks d)"
    unfolding upd_row_def using assms(3) by (intro map_cong) auto
  moreover have "list_ex (\<lambda>t. st_id t = i \<and> st_status t = from) (rd_tasks d)"
    using t assms(3) by (auto simp: list_ex_iff)
  ultimately show ?thesis by (simp add: transitionStatus_def)
qed

lemma transition_runs:
  assumes "keyed st_id (rd_tasks d) n" "task_state i from d"
  shows "\<exists>d'. transitionStatus now i from to msg d = (d', Inr ()) \<and> only_task i d d' \<and> task_state i to d'"
proof -
  obtain t where t: "row_by st_id (rd_tasks d) i = Some t" "st_status t = from"
    using assms(2) by (auto simp: task_state_def split: option.splits)
  have "task_state i to (d\<lparr>rd_tasks := upd_row st_id i (set_status now to msg) (rd_tasks d)\<rparr>)"
    using t row_by_SomeD [OF t(1)] by (simp add: task_state_def row_by_upd_row set_status_def)
  moreover have "only_task i d (d\<lparr>rd_tasks := upd_row st_id i (set_status now to msg) (rd_tasks d)\<rparr>)"
    by (rule upd_task_only) (simp_all add: set_status_def task_target_def)
  ultimately show ?thesis using transition_row [OF assms(1) t] by simp
qed

lemma transition_refused:
  assumes "\<not> task_state i from d" "keyed st_id (rd_tasks d) n"
  shows "\<exists>e. transitionStatus now i from to msg d = (d, Inl e)"
proof -
  have "row_by st_id (rd_tasks d) i = Some t" if "t \<in> set (rd_tasks d)" "st_id t = i" for t
    using assms(2) that by (simp add: keyed_def row_by_eq_Some_iff)
  with assms(1) have "\<not> list_ex (\<lambda>t. st_id t = i \<and> st_status t = from) (rd_tasks d)"
    by (auto simp: list_ex_iff task_state_def)
  then show ?thesis by (simp add: transitionStatus_def)
qed

lemma runs_refl: "tasks_ok d \<Longrightarrow> task_state i s d \<Longrightarrow> runs_to dbf w i s d (d, Inr ())"
  by (simp add: runs_to_def)

lemma tasks_ok_keyed: "tasks_ok d \<Longrightarrow> keyed st_id (rd_tasks d) (rd_task_seq d)"
  by (simp add: tasks_ok_def)

lemma runs_to_trans:
  assumes "runs_to dbf v i s d (d1, Inr u)" "tasks_ok d1 \<Longrightarrow> task_state i s d1 \<Longrightarrow> runs_to dbf w i s' d1 x"
  shows "runs_to dbf w i s' d x"
  using assms by (auto simp: runs_to_def intro: only_task_trans)

lemma finish_runs:
  assumes "tasks_ok d" "task_state i ''running'' d" "finish ops i ctx d w = (d', w', r)"
  shows "runs_to (so_db ops) w' i ''completed'' d (d', r)"
proof (cases "so_db ops ''complete'' w")
  case None
  then show ?thesis
    using assms transition_runs [OF tasks_ok_keyed, of d i "''running''" "so_now ops w" "''completed''" "[]"]
      task_Complete_ok [of d "so_now ops w" i]
    by (auto simp: finish_def task_Complete_def runs_to_def)
next
  case (Some e)
  then show ?thesis using assms by (auto simp: finish_def runs_to_def)
qed

lemma sync_layers_runs:
  assumes "tasks_ok d" "task_state i ''running'' d" "st_id task = i"
    "sync_layers ops task totalBytes bd ls d w src tgt = (d', w', src', tgt', r)"
  shows "runs_to (so_db ops) w' i ''running'' d (d', r)"
  using assms
proof (induction ls arbitrary: bd d w src tgt)
  case Nil then show ?case by (auto simp: runs_to_def)
next
  case (Cons l ls)
  have step: "runs_to (so_db ops) w' i ''running'' d (d', r)"
    if "sync_layers ops task totalBytes bd' ls (set_progress ops v i bd' totalBytes d) w2 s2 t2 = (d', w', src', tgt', r)" for bd' v w2 s2 t2
    using runs_to_trans [OF progress_runs [where dbf = "so_db ops" and ops = ops, OF Cons.prems(1,2)]] Cons.IH Cons.prems(3) that by blast
  obtain w1 tgt1 ex where b: "so_BlobExists ops (st_target_repo task) (li_Digest l) tgt w = (w1, tgt1, ex)"
    by (cases "so_BlobExists ops (st_target_repo task) (li_Digest l) tgt w")
  obtain w2 src2 tgt2 tr where t: "transferBlob ops (st_source_repo task) (st_target_repo task) (li_Digest l) src tgt1 w1 = (w2, src2, tgt2, tr)"
    by (cases "transferBlob ops (st_source_repo task) (st_target_repo task) (li_Digest l) src tgt1 w1")
  show ?case
    using Cons.prems b t step failTask_runs [OF Cons.prems(1,2)]
    by (cases ex; cases tr) (auto simp: Let_def split: bool.splits if_splits)
qed

lemma sync_config_runs:
  assumes "tasks_ok d" "task_state i ''running'' d" "st_id task = i"
    "sync_config ops task dig d w src tgt = (d', w', src', tgt', r)"
  shows "runs_to (so_db ops) w' i ''running'' d (d', r)"
  using assms failTask_runs [OF assms(1,2)] runs_refl [OF assms(1,2)]
  by (auto simp: sync_config_def split: if_splits prod.splits sum.splits bool.splits)

lemma runs_fail: "runs_to dbf w i s d (d', Inl e) \<Longrightarrow> runs_to dbf w i s' d (d', Inl e)"
  by (simp add: runs_to_def)

lemma copy_image_runs:
  assumes "tasks_ok d" "task_state i ''running'' d" "st_id task = i"
    "copy_image ops task raw mt m d w src tgt = (d', w', r)"
  shows "runs_to (so_db ops) w' i ''completed'' d (d', r)"
proof -
  let ?n = "sum_sizes (md_Layers m)" and ?d0 = "set_progress ops w i 0 (sum_sizes (md_Layers m)) d"
  have p: "runs_to (so_db ops) w i ''running'' d (?d0, Inr ())" by (rule progress_runs [OF assms(1,2)])
  obtain d1 w1 src1 tgt1 r1 where l: "sync_layers ops task ?n 0 (md_Layers m) ?d0 w src tgt = (d1, w1, src1, tgt1, r1)"
    by (cases "sync_layers ops task ?n 0 (md_Layers m) ?d0 w src tgt")
  have l': "runs_to (so_db ops) w1 i ''running'' d (d1, r1)"
    using runs_to_trans [OF p] sync_layers_runs [OF _ _ assms(3) l] by blast
  show ?thesis
  proof (cases r1)
    case (Inl e)
    then show ?thesis using assms(3,4) l l' by (auto simp: copy_image_def Let_def intro: runs_fail)
  next
    case (Inr u)
    note l1 = l' [unfolded Inr]
    obtain d2 w2 src2 tgt2 r2 where c: "sync_config ops task (md_Config m) d1 w1 src1 tgt1 = (d2, w2, src2, tgt2, r2)"
      by (cases "sync_config ops task (md_Config m) d1 w1 src1 tgt1")
    have c': "runs_to (so_db ops) w2 i ''running'' d (d2, r2)"
      using runs_to_trans [OF l1] sync_config_runs [OF _ _ assms(3) c] by blast
    show ?thesis
    proof (cases r2)
      case (Inl e)
      then show ?thesis using assms(3,4) l c c' \<open>r1 = Inr u\<close> by (auto simp: copy_image_def Let_def intro: runs_fail)
    next
      case (Inr u')
      note c2 = c' [unfolded Inr]
      have "runs_to (so_db ops) w' i ''completed'' d2 (d', r)" if "tasks_ok d2" "task_state i ''running'' d2"
        using assms(3,4) l c \<open>r1 = Inr u\<close> Inr failTask_runs [OF that] finish_runs [OF that]
        by (auto simp: copy_image_def Let_def split: prod.splits sum.splits)
      then show ?thesis by (rule runs_to_trans [OF c2])
    qed
  qed
qed

lemma run_sync_runs:
  assumes "tasks_ok d" "task_state i ''running'' d" "st_id task = i"
    "run_sync ops task d w src tgt = (d', w', r)"
  shows "runs_to (so_db ops) w' i ''completed'' d (d', r)"
  using assms(3,4) failTask_runs [OF assms(1,2)] finish_runs [OF assms(1,2)] copy_image_runs [OF assms(1,2,3), of ops]
  by (auto simp: run_sync_def Let_def split: prod.splits sum.splits if_splits)

lemma ExecuteSync_pending:
  assumes ok: "tasks_ok d" and p: "task_state i ''pending'' d" and ex: "ExecuteSync ops va i d w = (d', w', r)"
    and n: "so_db ops ''get'' w = None" "so_db ops ''start'' w = None"
  shows "runs_to (so_db ops) w' i ''completed'' d (d', r)"
proof -
  obtain t where t: "row_by st_id (rd_tasks d) i = Some t" using p by (auto simp: task_state_def split: option.splits)
  then have ti: "st_id t = i" using row_by_SomeD by fast
  obtain d1 where s: "task_Start (so_now ops w) i d = (d1, Inr ())" "only_task i d d1" "task_state i ''running'' d1"
    using transition_runs [OF tasks_ok_keyed [OF ok] p] by (metis task_Start_def)
  have k1: "tasks_ok d1" using task_Start_ok [OF ok, of "so_now ops w" i] s(1) by simp
  have "runs_to (so_db ops) w' i ''completed'' d1 (d', r)"
    using ex t s(1) n failTask_runs [OF k1 s(3)] run_sync_runs [OF k1 s(3) ti]
    by (auto simp: ExecuteSync_def task_GetByID_def split: sum.splits)
  then show ?thesis using s(2) unfolding runs_to_def by (auto intro: only_task_trans)
qed

lemma ExecuteSync_not_started:
  assumes "so_db ops ''get'' w \<noteq> None \<or> so_db ops ''start'' w \<noteq> None"
  shows "\<exists>e. ExecuteSync ops va i d w = (d, w, Inl e)"
  using assms by (auto simp: ExecuteSync_def split: option.splits)

lemma ExecuteSync_refused:
  assumes ok: "tasks_ok d" and p: "\<not> task_state i ''pending'' d"
  shows "\<exists>e. ExecuteSync ops va i d w = (d, w, Inl e)"
proof -
  obtain e where "task_Start (so_now ops w) i d = (d, Inl e)"
    using transition_refused [OF p tasks_ok_keyed [OF ok]] by (metis task_Start_def)
  then show ?thesis by (auto simp: ExecuteSync_def split: option.splits)
qed

section \<open>What a run copies\<close>

locale sync_client =
  fixes ops :: "('c, 'w) sync_ops" and ident :: "'c \<Rightarrow> 'i"
  assumes ident_Manifest: "so_Manifest ops repo ref c w = (w1, c1, r1) \<Longrightarrow> ident c1 = ident c"
    and ident_RawManifest: "so_RawManifest ops repo ref c w = (w1, c1, r2) \<Longrightarrow> ident c1 = ident c"
    and ident_PullBlob: "so_PullBlob ops repo dig c w = (w1, c1, r3) \<Longrightarrow> ident c1 = ident c"
    and ident_PushBlob: "so_PushBlob ops repo blob dig c w = (w1, c1, r4) \<Longrightarrow> ident c1 = ident c"
    and ident_BlobExists: "so_BlobExists ops repo dig c w = (w1, c1, r5) \<Longrightarrow> ident c1 = ident c"
    and ident_PushManifest: "so_PushManifest ops repo tag body mt c w = (w1, c1, r6) \<Longrightarrow> ident c1 = ident c"

text \<open>\<open>holds w i repo dig\<close>: in the world \<open>w\<close> the registry \<open>i\<close> has a blob; \<open>tagged w i repo tag body\<close>: a tag is
  the manifest. A successful push puts them there, and no operation of a copy removes a blob.\<close>

definition remote_laws ::
  "('c, 'w) sync_ops \<Rightarrow> ('c \<Rightarrow> 'i) \<Rightarrow> ('w \<Rightarrow> 'i \<Rightarrow> string \<Rightarrow> string \<Rightarrow> bool) \<Rightarrow> ('w \<Rightarrow> 'i \<Rightarrow> string \<Rightarrow> string \<Rightarrow> string \<Rightarrow> bool) \<Rightarrow> bool" where
  "remote_laws ops ident holds tagged \<longleftrightarrow>
     (\<forall>repo dig c w w1 c1. so_BlobExists ops repo dig c w = (w1, c1, Inr True) \<longrightarrow> holds w1 (ident c) repo dig) \<and>
     (\<forall>repo blob dig c w w1 c1 u. so_PushBlob ops repo blob dig c w = (w1, c1, Inr u) \<longrightarrow> holds w1 (ident c) repo dig) \<and>
     (\<forall>repo tag body mt c w w1 c1 u. so_PushManifest ops repo tag body mt c w = (w1, c1, Inr u) \<longrightarrow> tagged w1 (ident c) repo tag body) \<and>
     (\<forall>i r g w. holds w i r g \<longrightarrow>
        (\<forall>repo dig c. holds (fst (so_BlobExists ops repo dig c w)) i r g) \<and>
        (\<forall>repo dig c. holds (fst (so_PullBlob ops repo dig c w)) i r g) \<and>
        (\<forall>repo blob dig c. holds (fst (so_PushBlob ops repo blob dig c w)) i r g) \<and>
        (\<forall>repo tag body mt c. holds (fst (so_PushManifest ops repo tag body mt c w)) i r g))"

definition kept :: "('w \<Rightarrow> 'i \<Rightarrow> string \<Rightarrow> string \<Rightarrow> bool) \<Rightarrow> 'w \<Rightarrow> 'w \<Rightarrow> bool" where
  "kept holds w w1 \<longleftrightarrow> (\<forall>i r g. holds w i r g \<longrightarrow> holds w1 i r g)"

lemma kept_refl [simp]: "kept holds w w"
  by (simp add: kept_def)

lemma kept_trans: "kept holds w w1 \<Longrightarrow> kept holds w1 w2 \<Longrightarrow> kept holds w w2"
  by (auto simp: kept_def)

lemma remote_kept:
  assumes "remote_laws ops ident holds tagged"
  shows "so_BlobExists ops repo dig c w = (w1, c1, b) \<Longrightarrow> kept holds w w1"
    and "so_PullBlob ops repo dig c w = (w1, c1, s) \<Longrightarrow> kept holds w w1"
    and "so_PushBlob ops repo blob dig c w = (w1, c1, u) \<Longrightarrow> kept holds w w1"
    and "so_PushManifest ops repo tag body mt c w = (w1, c1, u) \<Longrightarrow> kept holds w w1"
  using assms unfolding remote_laws_def kept_def by (metis fst_conv)+

lemma remote_there:
  assumes "remote_laws ops ident holds tagged"
  shows "so_BlobExists ops repo dig c w = (w1, c1, Inr True) \<Longrightarrow> holds w1 (ident c) repo dig"
    and "so_PushBlob ops repo blob dig c w = (w1, c1, Inr u) \<Longrightarrow> holds w1 (ident c) repo dig"
    and "so_PushManifest ops repo tag body mt c w = (w1, c1, Inr u) \<Longrightarrow> tagged w1 (ident c) repo tag body"
  using assms unfolding remote_laws_def by metis+

context sync_client
begin

lemma transfer_copies:
  assumes "remote_laws ops ident holds tagged" "transferBlob ops sr tr dig src tgt w = (w1, src1, tgt1, Inr n)"
  shows "ident tgt1 = ident tgt \<and> holds w1 (ident tgt) tr dig \<and> kept holds w w1"
proof -
  obtain v src' blob where p: "so_PullBlob ops sr dig src w = (v, src', Inr blob)"
    and q: "so_PushBlob ops tr blob dig tgt v = (w1, tgt1, Inr ())"
    using assms(2) by (auto simp: transferBlob_def split: option.splits prod.splits sum.splits)
  show ?thesis
    using ident_PushBlob [OF q] remote_there(2) [OF assms(1) q] kept_trans [OF remote_kept(2) [OF assms(1) p] remote_kept(3) [OF assms(1) q]]
    by simp
qed

lemma layers_copied:
  assumes R: "remote_laws ops ident holds tagged"
    and "sync_layers ops task totalBytes bd ls d w src tgt = (d1, w1, src1, tgt1, Inr u)"
  shows "ident tgt1 = ident tgt \<and> kept holds w w1 \<and> (\<forall>l \<in> set ls. holds w1 (ident tgt) (st_target_repo task) (li_Digest l))"
  using assms(2)
proof (induction ls arbitrary: bd d w src tgt)
  case (Cons l ls)
  obtain v tgt' ex where b: "so_BlobExists ops (st_target_repo task) (li_Digest l) tgt w = (v, tgt', ex)"
    by (cases "so_BlobExists ops (st_target_repo task) (li_Digest l) tgt w")
  have bi: "ident tgt' = ident tgt" "kept holds w v" by (rule ident_BlobExists [OF b], rule remote_kept(1) [OF R b])
  obtain ex' where ex: "ex = Inr ex'" using Cons.prems b by (cases ex) auto
  obtain v2 src2 tgt2 d2 bd2 where s: "sync_layers ops task totalBytes bd2 ls d2 v2 src2 tgt2 = (d1, w1, src1, tgt1, Inr u)"
    and h: "ident tgt2 = ident tgt" "kept holds w v2" "holds v2 (ident tgt) (st_target_repo task) (li_Digest l)"
  proof (cases ex')
    case True
    then show thesis using that Cons.prems b ex bi remote_there(1) [OF R] by (auto simp: Let_def)
  next
    case False
    obtain v2 src2 tgt2 tr where t: "transferBlob ops (st_source_repo task) (st_target_repo task) (li_Digest l) src tgt' v = (v2, src2, tgt2, tr)"
      by (cases "transferBlob ops (st_source_repo task) (st_target_repo task) (li_Digest l) src tgt' v")
    obtain n where n: "tr = Inr n" using Cons.prems b ex False t by (cases tr) (auto simp: Let_def)
    have "ident tgt2 = ident tgt" "holds v2 (ident tgt) (st_target_repo task) (li_Digest l)" "kept holds v v2"
      using transfer_copies [OF R t [unfolded n]] bi by auto
    then show thesis using that Cons.prems b ex False t n kept_trans [OF bi(2)] by (auto simp: Let_def)
  qed
  have "ident tgt1 = ident tgt \<and> kept holds v2 w1 \<and> (\<forall>l \<in> set ls. holds w1 (ident tgt) (st_target_repo task) (li_Digest l))"
    using Cons.IH [OF s] h(1) by simp
  then show ?case using h(2,3) by (auto simp: kept_def)
qed simp

lemma config_copied:
  assumes R: "remote_laws ops ident holds tagged" and "sync_config ops task dig d w src tgt = (d1, w1, src1, tgt1, Inr u)"
  shows "ident tgt1 = ident tgt \<and> kept holds w w1"
  using assms(2) remote_kept(1) [OF R] transfer_copies [OF R] ident_BlobExists
  by (auto simp: sync_config_def split: if_splits prod.splits sum.splits bool.splits) (metis kept_trans)

lemma image_copied:
  assumes R: "remote_laws ops ident holds tagged"
    and c: "copy_image ops task raw mt m d w src tgt = (d', w', Inr ())"
  shows "tagged w' (ident tgt) (st_target_repo task) (st_target_tag task) raw \<and>
    (\<forall>l \<in> set (md_Layers m). holds w' (ident tgt) (st_target_repo task) (li_Digest l))"
proof -
  let ?n = "sum_sizes (md_Layers m)" and ?d0 = "set_progress ops w (st_id task) 0 (sum_sizes (md_Layers m)) d"
  obtain d1 w1 src1 tgt1 u1 where l: "sync_layers ops task ?n 0 (md_Layers m) ?d0 w src tgt = (d1, w1, src1, tgt1, Inr u1)"
    using c by (auto simp: copy_image_def Let_def split: prod.splits sum.splits)
  obtain d2 w2 src2 tgt2 u2 where k: "sync_config ops task (md_Config m) d1 w1 src1 tgt1 = (d2, w2, src2, tgt2, Inr u2)"
    using c l by (auto simp: copy_image_def Let_def split: prod.splits sum.splits)
  obtain w3 tgt3 u3 where p: "so_PushManifest ops (st_target_repo task) (st_target_tag task) raw mt tgt2 w2 = (w3, tgt3, Inr u3)"
    and f: "finish ops (st_id task) ''completing sync task'' d2 w3 = (d', w', Inr ())"
    using c l k by (auto simp: copy_image_def Let_def split: prod.splits sum.splits)
  have "w' = w3" using f by (auto simp: finish_def split: prod.splits sum.splits option.splits)
  then show ?thesis
    using layers_copied [OF R l] config_copied [OF R k] remote_there(3) [OF R p] remote_kept(4) [OF R p] by (auto simp: kept_def)
qed

lemma sync_copies:
  assumes R: "remote_laws ops ident holds tagged"
    and x: "ExecuteSync ops va i d w = (d', w', Inr ())"
  obtains t tgt src raw dig mt w1 src1 where "task_GetByID i d = Some t"
    "createClient ops va ''source'' (st_source_registry t) (fst (task_Start (so_now ops w) i d)) w = Inr src"
    "createClient ops va ''target'' (st_target_registry t) (fst (task_Start (so_now ops w) i d)) w = Inr tgt"
    "so_RawManifest ops (st_source_repo t) (st_source_tag t) src w = (w1, src1, Inr (raw, dig, mt))"
    "(\<exists>tgt1 dig1 mt1. so_RawManifest ops (st_target_repo t) (st_target_tag t) tgt w1 = (w', tgt1, Inr (raw, dig1, mt1))) \<or>
     tagged w' (ident tgt) (st_target_repo t) (st_target_tag t) raw \<and>
     (\<exists>w2 w3 src3 m. so_Manifest ops (st_source_repo t) (st_source_tag t) src1 w2 = (w3, src3, Inr m) \<and>
        (\<forall>l \<in> set (md_Layers m). holds w' (ident tgt) (st_target_repo t) (li_Digest l)))"
proof -
  obtain t where t: "task_GetByID i d = Some t" using x by (auto simp: ExecuteSync_def split: option.splits)
  have n: "so_db ops ''get'' w = None" "so_db ops ''start'' w = None" using x by (auto simp: ExecuteSync_def split: option.splits)
  obtain d1 u1 where s: "task_Start (so_now ops w) i d = (d1, Inr u1)"
    using x t n by (auto simp: ExecuteSync_def split: prod.splits sum.splits)
  obtain src where src: "createClient ops va ''source'' (st_source_registry t) d1 w = Inr src"
    using x t n s by (auto simp: ExecuteSync_def split: sum.splits)
  obtain tgt where tgt: "createClient ops va ''target'' (st_target_registry t) d1 w = Inr tgt"
    using x t n s src by (auto simp: ExecuteSync_def split: sum.splits)
  have r: "run_sync ops t d1 w src tgt = (d', w', Inr ())" using x t n s src tgt by (simp add: ExecuteSync_def)
  obtain w1 src1 raw dig mt where rm: "so_RawManifest ops (st_source_repo t) (st_source_tag t) src w = (w1, src1, Inr (raw, dig, mt))"
    using r by (auto simp: run_sync_def Let_def split: prod.splits sum.splits)
  obtain w2 tgt2 tr where tm: "so_RawManifest ops (st_target_repo t) (st_target_tag t) tgt w1 = (w2, tgt2, tr)"
    by (cases "so_RawManifest ops (st_target_repo t) (st_target_tag t) tgt w1")
  have i2: "ident tgt2 = ident tgt" by (rule ident_RawManifest [OF tm])
  show thesis
  proof (cases "case tr of Inl e \<Rightarrow> False | Inr (b, _, _) \<Rightarrow> b = raw")
    case True
    then have "w' = w2" using r rm tm by (auto simp: run_sync_def Let_def finish_def split: prod.splits sum.splits option.splits)
    then show thesis using that [OF t _ _ rm] s src tgt tm True by (auto split: sum.splits)
  next
    case False
    obtain w3 src3 m where m: "so_Manifest ops (st_source_repo t) (st_source_tag t) src1 w2 = (w3, src3, Inr m)"
      and ci: "copy_image ops t raw mt m d1 w3 src3 tgt2 = (d', w', Inr ())"
      using r rm tm False by (auto simp: run_sync_def Let_def split: prod.splits sum.splits)
    have "\<exists>w2 w3 src3 m. so_Manifest ops (st_source_repo t) (st_source_tag t) src1 w2 = (w3, src3, Inr m) \<and>
        (\<forall>l \<in> set (md_Layers m). holds w' (ident tgt) (st_target_repo t) (li_Digest l))"
      using m image_copied [OF R ci] i2 by metis
    then show thesis using that [OF t _ _ rm] s src tgt image_copied [OF R ci] i2 by simp
  qed
qed

end

lemma text_result_ident: "text_result x = (w1, c1, r) \<Longrightarrow> keeps_ident x c \<Longrightarrow> client_ident c1 = client_ident c"
  by (auto simp: text_result_def keeps_ident_def split: prod.splits)

interpretation registry_client: sync_client "registry_ops env js tmp seek stat dbf" client_ident
  by (unfold_locales; simp add: registry_ops_def; erule text_result_ident; rule client_ops_ident)

section \<open>Registries as servers\<close>

text \<open>What the copy relies on in a registry, law by law of its HTTP interface. \<open>holds w h p\<close>: the server \<open>h\<close> has a blob at
  the path \<open>p\<close>; \<open>tagged w h p b\<close>: the tag at \<open>p\<close> is the manifest \<open>b\<close>; \<open>opened w h p loc\<close>: an upload is open, asked for
  at the path \<open>p\<close>, to be sent to the location \<open>loc\<close>. A blob that is there stays, until something is deleted.
  HEAD answers 200 only for a blob that is there. A PUT of a manifest that is answered 201 had a body, and the
  tag is that manifest. A POST that is answered 202 opens an upload at the location it names. A PUT to that
  location, with a body and a digest added to the query, that is answered 201 puts the blob at its digest next
  to the path of the uploads.\<close>

definition v2_server ::
  "'w registry_env \<Rightarrow> image_json \<Rightarrow> ('w \<Rightarrow> string \<Rightarrow> string \<Rightarrow> string \<Rightarrow> bool) \<Rightarrow> ('w \<Rightarrow> string \<Rightarrow> string \<Rightarrow> bool) \<Rightarrow>
   ('w \<Rightarrow> string \<Rightarrow> string \<Rightarrow> string \<Rightarrow> bool) \<Rightarrow> bool" where
  "v2_server env js opened holds tagged \<longleftrightarrow>
     (\<forall>h p. request_keeps env (\<lambda>w. holds w h p)) \<and>
     (\<forall>q w w1 resp. re_do env q w = (w1, Inr resp) \<longrightarrow> rr_method q = ''HEAD'' \<longrightarrow> rs_status resp = 200 \<longrightarrow> holds w1 (rr_host q) (rr_path q)) \<and>
     (\<forall>q w w1 resp. re_do env q w = (w1, Inr resp) \<longrightarrow> rr_method q = ''PUT'' \<longrightarrow> rr_query q = [] \<longrightarrow> rs_status resp = 201 \<longrightarrow>
        (\<exists>b. rr_body q = Some b \<and> tagged w1 (rr_host q) (rr_path q) b)) \<and>
     (\<forall>q w w1 resp. re_do env q w = (w1, Inr resp) \<longrightarrow> rr_method q = ''POST'' \<longrightarrow> rs_status resp = 202 \<longrightarrow>
        opened w1 (rr_host q) (rr_path q) (rs_header resp ''Location'')) \<and>
     (\<forall>q w w1 resp h p loc u dig b. opened w h (p @ ''uploads/'') loc \<longrightarrow> ij_url js loc = Inr u \<longrightarrow>
        re_do env q w = (w1, Inr resp) \<longrightarrow> rr_method q = ''PUT'' \<longrightarrow>
        rr_host q = (if pu_scheme u = [] then [] else pu_scheme u @ '':'') @ (if pu_host u = [] then [] else ''//'' @ pu_host u) \<longrightarrow>
        rr_path q = pu_path u \<longrightarrow> rr_query q = filter (\<lambda>(k, v). k \<noteq> ''digest'') (pu_query u) @ [(''digest'', dig)] \<longrightarrow>
        rr_body q = Some b \<longrightarrow> rs_status resp = 201 \<longrightarrow> holds w1 h (p @ dig))"

lemma v2D:
  assumes "v2_server env js opened holds tagged"
  shows "request_keeps env (\<lambda>w. holds w h p)"
    "re_do env q w = (w1, Inr resp) \<Longrightarrow> rr_method q = ''HEAD'' \<Longrightarrow> rs_status resp = 200 \<Longrightarrow> holds w1 (rr_host q) (rr_path q)"
    "re_do env q w = (w1, Inr resp) \<Longrightarrow> rr_method q = ''PUT'' \<Longrightarrow> rr_query q = [] \<Longrightarrow> rs_status resp = 201 \<Longrightarrow>
      \<exists>b. rr_body q = Some b \<and> tagged w1 (rr_host q) (rr_path q) b"
    "re_do env q w = (w1, Inr resp) \<Longrightarrow> rr_method q = ''POST'' \<Longrightarrow> rs_status resp = 202 \<Longrightarrow>
      opened w1 (rr_host q) (rr_path q) (rs_header resp ''Location'')"
    "opened w h (p @ ''uploads/'') loc \<Longrightarrow> ij_url js loc = Inr u \<Longrightarrow> re_do env q w = (w1, Inr resp) \<Longrightarrow> rr_method q = ''PUT'' \<Longrightarrow>
      rr_host q = (if pu_scheme u = [] then [] else pu_scheme u @ '':'') @ (if pu_host u = [] then [] else ''//'' @ pu_host u) \<Longrightarrow>
      rr_path q = pu_path u \<Longrightarrow> rr_query q = filter (\<lambda>(k, v). k \<noteq> ''digest'') (pu_query u) @ [(''digest'', dig)] \<Longrightarrow>
      rr_body q = Some b \<Longrightarrow> rs_status resp = 201 \<Longrightarrow> holds w1 h (p @ dig)"
proof -
  note s = assms [unfolded v2_server_def]
  show "request_keeps env (\<lambda>w. holds w h p)" using s by (elim conjE) blast
  show "re_do env q w = (w1, Inr resp) \<Longrightarrow> rr_method q = ''HEAD'' \<Longrightarrow> rs_status resp = 200 \<Longrightarrow> holds w1 (rr_host q) (rr_path q)"
    using s by (elim conjE) blast
  show "re_do env q w = (w1, Inr resp) \<Longrightarrow> rr_method q = ''PUT'' \<Longrightarrow> rr_query q = [] \<Longrightarrow> rs_status resp = 201 \<Longrightarrow>
      \<exists>b. rr_body q = Some b \<and> tagged w1 (rr_host q) (rr_path q) b" using s by (elim conjE) blast
  show "re_do env q w = (w1, Inr resp) \<Longrightarrow> rr_method q = ''POST'' \<Longrightarrow> rs_status resp = 202 \<Longrightarrow>
      opened w1 (rr_host q) (rr_path q) (rs_header resp ''Location'')" using s by (elim conjE) blast
  assume "opened w h (p @ ''uploads/'') loc" "ij_url js loc = Inr u" "re_do env q w = (w1, Inr resp)" "rr_method q = ''PUT''"
    "rr_host q = (if pu_scheme u = [] then [] else pu_scheme u @ '':'') @ (if pu_host u = [] then [] else ''//'' @ pu_host u)"
    "rr_path q = pu_path u" "rr_query q = filter (\<lambda>(k, v). k \<noteq> ''digest'') (pu_query u) @ [(''digest'', dig)]"
    "rr_body q = Some b" "rs_status resp = 201"
  then show "holds w1 h (p @ dig)" using s [THEN conjunct2, THEN conjunct2, THEN conjunct2, THEN conjunct2, rule_format] by blast
qed

definition blob_at :: "('w \<Rightarrow> string \<Rightarrow> string \<Rightarrow> bool) \<Rightarrow> 'w \<Rightarrow> string \<times> string \<times> credentials option \<Rightarrow> string \<Rightarrow> string \<Rightarrow> bool" where
  "blob_at holds w i repo dig = (case i of (h, bp, _) \<Rightarrow> holds w h (bp @ ''/v2/'' @ repo @ ''/blobs/'' @ dig))"

definition tag_at :: "('w \<Rightarrow> string \<Rightarrow> string \<Rightarrow> string \<Rightarrow> bool) \<Rightarrow> 'w \<Rightarrow> string \<times> string \<times> credentials option \<Rightarrow> string \<Rightarrow> string \<Rightarrow> string \<Rightarrow> bool" where
  "tag_at tagged w i repo tag body = (case i of (h, bp, _) \<Rightarrow> tagged w h (bp @ ''/v2/'' @ repo @ ''/manifests/'' @ tag) body)"

lemma text_result_Inr: "text_result x = (w1, c1, Inr v) \<longleftrightarrow> x = (w1, c1, Inr v)"
  by (auto simp: text_result_def split: prod.splits sum.splits)

lemma fst_text_result [simp]: "fst (text_result x) = fst x"
  by (simp add: text_result_def split: prod.splits)

lemma exists_there:
  assumes "v2_server env js opened holds tagged" "BlobExists env repo dig c w = (w1, c1, Inr True)"
  shows "blob_at holds w1 (client_ident c) repo dig"
proof -
  let ?q = "newRequest c ''HEAD'' (''/v2/'' @ repo @ ''/blobs/'' @ dig)"
  obtain resp where d: "doRequest env ?q c w = (w1, c1, Inr resp)" and s: "rs_status resp = 200"
    using assms(2) by (auto simp: BlobExists_def split: prod.splits sum.splits if_splits)
  obtain q' w0 where q: "re_do env q' w0 = (w1, Inr resp)" "rr_method q' = rr_method ?q" "rr_host q' = rr_host ?q" "rr_path q' = rr_path ?q"
    by (rule doRequest_last [OF d])
  have "rr_method q' = ''HEAD''" "rr_host q' = cl_host c" "rr_path q' = cl_basePath c @ ''/v2/'' @ repo @ ''/blobs/'' @ dig"
    unfolding q by (simp_all add: newRequest_def)
  then show ?thesis
    using v2D(2) [OF assms(1) q(1)] s unfolding blob_at_def client_ident_def by simp
qed

lemma pushed_there:
  assumes "v2_server env js opened holds tagged" "PushManifest env repo tag body mt c w = (w1, c1, Inr u)"
  shows "tag_at tagged w1 (client_ident c) repo tag body"
proof -
  obtain resp where d: "doRequest env (manifest_put c repo tag body mt) c w = (w1, c1, Inr resp)" and s: "rs_status resp = 201"
    using assms(2) by (auto simp: PushManifest_def split: prod.splits sum.splits if_splits)
  let ?q = "manifest_put c repo tag body mt"
  obtain q' w0 where q': "re_do env q' w0 = (w1, Inr resp)" "rr_method q' = rr_method ?q" "rr_host q' = rr_host ?q" "rr_path q' = rr_path ?q"
    "rr_query q' = rr_query ?q" "rr_body q' = rr_body ?q \<or> rr_body q' = None"
    by (rule doRequest_last [OF d])
  have q: "rr_method q' = ''PUT''" "rr_host q' = cl_host c" "rr_query q' = []"
    "rr_path q' = cl_basePath c @ ''/v2/'' @ repo @ ''/manifests/'' @ tag" "rr_body q' = Some body \<or> rr_body q' = None"
    using q' by (simp_all add: newRequest_def manifest_put_def)
  then obtain b where "rr_body q' = Some b" "tagged w1 (cl_host c) (cl_basePath c @ ''/v2/'' @ repo @ ''/manifests/'' @ tag) b"
    using v2D(3) [OF assms(1) q'(1)] s by auto
  then show ?thesis using q(5) by (auto simp: tag_at_def client_ident_def)
qed

lemma v2_uploaded:
  assumes S: "v2_server env js opened holds tagged" and p: "PushBlob env js repo blob dig cl w = (w2, cl1, Inr u)"
  shows "holds w2 (cl_host cl) (cl_basePath cl @ ''/v2/'' @ repo @ ''/blobs/'' @ dig)"
proof -
  let ?q = "newRequest cl ''POST'' (''/v2/'' @ repo @ ''/blobs/uploads/'')"
  obtain w1 resp x r2 where d: "doRequest env ?q cl w = (w1, cl1, Inr resp)" "rs_status resp = 202"
    and x: "ij_url js (rs_header resp ''Location'') = Inr x"
    and r: "re_do env (attachAuth env (re_now env w1) repo cl1 (upload_request blob dig x)) w1 = (w2, Inr r2)" "rs_status r2 = 201"
    using p by (auto simp: PushBlob_def split: prod.splits sum.splits if_splits)
  obtain q' w0 where q: "re_do env q' w0 = (w1, Inr resp)" "rr_method q' = rr_method ?q" "rr_host q' = rr_host ?q" "rr_path q' = rr_path ?q"
    by (rule doRequest_last [OF d(1)])
  have o: "opened w1 (cl_host cl) ((cl_basePath cl @ ''/v2/'' @ repo @ ''/blobs/'') @ ''uploads/'') (rs_header resp ''Location'')"
    using v2D(4) [OF S q(1)] d(2) q(2-4) by (simp add: newRequest_def)
  let ?p = "attachAuth env (re_now env w1) repo cl1 (upload_request blob dig x)"
  have u: "rr_method ?p = ''PUT''" "rr_path ?p = pu_path x" "rr_body ?p = Some blob"
    "rr_host ?p = (if pu_scheme x = [] then [] else pu_scheme x @ '':'') @ (if pu_host x = [] then [] else ''//'' @ pu_host x)"
    "rr_query ?p = filter (\<lambda>(k, v). k \<noteq> ''digest'') (pu_query x) @ [(''digest'', dig)]"
    by (simp_all add: attachAuth_def upload_request_def set_key_def split: option.splits)
  show ?thesis using v2D(5) [OF S o x r(1) u(1,4,2,5,3) r(2)] by simp
qed

lemma v2_laws:
  assumes S: "v2_server env js opened holds tagged"
  shows "remote_laws (registry_ops env js tmp seek stat dbf) client_ident (blob_at holds) (tag_at tagged)"
proof -
  have k: "request_keeps env (\<lambda>w. blob_at holds w i r g)" for i r g
    using v2D(1) [OF S] by (cases i) (simp add: blob_at_def)
  have "blob_at holds w1 (client_ident c) repo dig" if "PushBlob env js repo blob dig c w = (w1, c1, Inr u)" for repo blob dig c w w1 c1 u
    using v2_uploaded [OF S that] by (simp add: blob_at_def client_ident_def)
  moreover have "blob_at holds (fst (BlobExists env repo dig c w)) i r g" "blob_at holds (fst (PullBlob env repo dig c w)) i r g"
    "blob_at holds (fst (PushBlob env js repo blob dig c w)) i r g" "blob_at holds (fst (PushManifest env repo tag body mt c w)) i r g"
    if "blob_at holds w i r g" for w i r g repo blob dig c tag body mt
    using client_ops_keep [OF k that] by (metis prod.collapse)+
  ultimately show ?thesis
    using exists_there [OF S] pushed_there [OF S] unfolding remote_laws_def registry_ops_def by (simp add: text_result_Inr)
qed

section \<open>Runs\<close>

datatype sync_call =
    CallCreateRegistry "string + string" int registry_request
  | CallUpdateRegistry "string + string" int int registry_request
  | CallDeleteRegistry int
  | CallCreateSync int sync_request
  | CallExecuteSync int
  | CallCancelSync int int

fun sync_step :: "('c, 'w) sync_ops \<Rightarrow> vault \<Rightarrow> sync_call \<Rightarrow> reg_db \<times> 'w \<Rightarrow> reg_db \<times> 'w" where
  "sync_step ops va (CallCreateRegistry rnd now req) (d, w) = (fst (CreateRegistry va rnd now req d), w)"
| "sync_step ops va (CallUpdateRegistry rnd now i req) (d, w) = (fst (UpdateRegistry va rnd now i req d), w)"
| "sync_step ops va (CallDeleteRegistry i) (d, w) = (fst (DeleteRegistry i d), w)"
| "sync_step ops va (CallCreateSync now req) (d, w) = (fst (CreateSync now req d), w)"
| "sync_step ops va (CallExecuteSync i) (d, w) = (case ExecuteSync ops va i d w of (d1, w1, _) \<Rightarrow> (d1, w1))"
| "sync_step ops va (CallCancelSync now i) (d, w) = (fst (CancelSync now i d), w)"

lemma CreateSync_ok: "tasks_ok d \<Longrightarrow> tasks_ok (fst (CreateSync now req d))"
  using task_Create_ok [of d "new_task req" now]
  by (auto simp: CreateSync_def new_task_def split: option.splits prod.splits sum.splits)

lemma CreateRegistry_ok: "tasks_ok d \<Longrightarrow> tasks_ok (fst (CreateRegistry va rnd now req d))"
  using reg_Create_ok [of d va rnd now] by (auto simp: CreateRegistry_def Let_def split: prod.splits sum.splits) (metis fst_conv)+

lemma UpdateRegistry_ok: "tasks_ok d \<Longrightarrow> tasks_ok (fst (UpdateRegistry va rnd now i req d))"
  using reg_Update_ok [of d va rnd now] by (auto simp: UpdateRegistry_def split: option.splits prod.splits sum.splits) (metis fst_conv)+

lemma ExecuteSync_ok: "tasks_ok d \<Longrightarrow> tasks_ok (fst (ExecuteSync ops va i d w))"
  using ExecuteSync_pending [of d i ops va w] ExecuteSync_refused [of d i ops va w] ExecuteSync_not_started [of ops w va i d]
  by (cases "task_state i ''pending'' d"; cases "ExecuteSync ops va i d w"; cases "so_db ops ''get'' w"; cases "so_db ops ''start'' w")
    (auto simp: runs_to_def)

lemma sync_step_ok: "tasks_ok (fst x) \<Longrightarrow> tasks_ok (fst (sync_step ops va c x))"
proof (cases x; cases c)
  fix d w i assume x: "x = (d, w)" "c = CallExecuteSync i" and "tasks_ok (fst x)"
  then show "tasks_ok (fst (sync_step ops va c x))"
    using ExecuteSync_ok [of d ops va i w] by (cases "ExecuteSync ops va i d w") simp
next
  fix d w now i assume x: "x = (d, w)" "c = CallCancelSync now i" and "tasks_ok (fst x)"
  then show "tasks_ok (fst (sync_step ops va c x))"
    using task_Fail_ok [of d now i "''cancelled''"] by (auto simp: CancelSync_def task_Cancel_def split: prod.splits sum.splits)
qed (auto simp: CreateSync_ok CreateRegistry_ok UpdateRegistry_ok DeleteRegistry_def reg_Delete_ok)

section \<open>Properties\<close>

definition empty_reg_db :: reg_db where
  "empty_reg_db = \<lparr>rd_registries = [], rd_reg_seq = 0, rd_tasks = [], rd_task_seq = 0\<rparr>"

text \<open>C30: After any calls of the registry and synchronisation services, whatever the network answers, no two
  active tasks have the same target, every task has one of the four states and its two registries exist, and
  keys are unique.\<close>

theorem sync_runs_ok: "tasks_ok (fst (fold (sync_step ops va) calls (empty_reg_db, w)))"
proof -
  have "tasks_ok (fst (fold (sync_step ops va) calls x))" if "tasks_ok (fst x)" for x
    using that by (induction calls arbitrary: x) (simp_all add: sync_step_ok)
  moreover have "tasks_ok empty_reg_db" by (simp add: tasks_ok_def empty_reg_db_def keyed_def)
  ultimately show ?thesis by simp
qed


text \<open>A registry in memory: the paths of its blobs, and the manifests by path.\<close>

type_synonym demo_world = "string list \<times> (string \<times> string) list"

definition demo_answer :: "int \<Rightarrow> string \<Rightarrow> string \<Rightarrow> string + reg_response" where
  "demo_answer code loc body = Inr \<lparr>rs_status = code, rs_text = [], rs_header = (\<lambda>k. if k = ''Location'' then loc else []), rs_body = Inr body\<rparr>"

definition demo_do :: "reg_request \<Rightarrow> demo_world \<Rightarrow> demo_world \<times> (string + reg_response)" where
  "demo_do q w = (case w of (bl, ms) \<Rightarrow>
     if rr_method q = ''HEAD'' then (w, demo_answer (if rr_path q \<in> set bl then 200 else 404) [] [])
     else if rr_method q = ''POST'' then (w, demo_answer 202 (rr_path q) [])
     else if rr_method q = ''PUT'' then
       (case (rr_query q, rr_body q) of
          ([], Some b) \<Rightarrow> ((bl, (rr_path q, b) # ms), demo_answer 201 [] [])
        | ((k, dig) # _, Some b) \<Rightarrow> (((take (length (rr_path q) - 8) (rr_path q) @ dig) # bl, ms), demo_answer 201 [] [])
        | _ \<Rightarrow> (w, demo_answer 400 [] []))
     else (case map_of ms (rr_path q) of
         Some b \<Rightarrow> (w, demo_answer 200 [] b)
       | None \<Rightarrow> (w, demo_answer (if rr_path q \<in> set bl then 200 else 404) [] ''data'')))"

definition demo_v2 :: "demo_world registry_env" where
  "demo_v2 = \<lparr>re_do = demo_do, re_now = (\<lambda>w. 0), re_base64 = id, re_realm = (\<lambda>s. Inl s), re_unescape = id,
     re_token_json = (\<lambda>s. Inl s), re_tags_json = (\<lambda>s. Inl s), re_catalog_json = (\<lambda>s. Inl s)\<rparr>"

definition demo_json :: image_json where
  "demo_json = \<lparr>ij_url = (\<lambda>s. Inr \<lparr>pu_scheme = ''http'', pu_host = ''h'',
       pu_path = (if s \<noteq> [] \<and> last s = CHR ''/'' then s else []), pu_query = []\<rparr>),
     ij_list = (\<lambda>s. Inl s),
     ij_manifest = (\<lambda>s. Inr \<lparr>mf_schemaVersion = 2, mf_mediaType = [], mf_config = \<lparr>de_mediaType = [], de_digest = ''sha256:c'', de_size = 1\<rparr>,
       mf_layers = [\<lparr>de_mediaType = [], de_digest = ''sha256:l'', de_size = 4\<rparr>]\<rparr>),
     ij_config = (\<lambda>s. Inl s), ij_time = (\<lambda>s. 0), ij_zero = 0\<rparr>"

definition demo_holds :: "demo_world \<Rightarrow> string \<Rightarrow> string \<Rightarrow> bool" where
  "demo_holds w h p \<longleftrightarrow> p \<in> set (fst w)"

definition demo_tagged :: "demo_world \<Rightarrow> string \<Rightarrow> string \<Rightarrow> string \<Rightarrow> bool" where
  "demo_tagged w h p b \<longleftrightarrow> (p, b) \<in> set (snd w)"

definition demo_opened :: "demo_world \<Rightarrow> string \<Rightarrow> string \<Rightarrow> string \<Rightarrow> bool" where
  "demo_opened w h p loc \<longleftrightarrow> loc = p"

lemma demo_server: "v2_server demo_v2 demo_json demo_opened demo_holds demo_tagged"
  unfolding v2_server_def
proof (intro conjI allI impI)
  show "request_keeps demo_v2 (\<lambda>w. demo_holds w h p)" for h p
    by (auto simp: request_keeps_def demo_v2_def demo_do_def demo_holds_def split: prod.splits if_splits list.splits option.splits)
  show "demo_holds w1 (rr_host q) (rr_path q)"
    if "re_do demo_v2 q w = (w1, Inr resp)" "rr_method q = ''HEAD''" "rs_status resp = 200" for q w w1 resp
    using that by (auto simp: demo_v2_def demo_do_def demo_holds_def demo_answer_def split: prod.splits if_splits)
  show "\<exists>b. rr_body q = Some b \<and> demo_tagged w1 (rr_host q) (rr_path q) b"
    if "re_do demo_v2 q w = (w1, Inr resp)" "rr_method q = ''PUT''" "rr_query q = []" "rs_status resp = 201" for q w w1 resp
    using that by (auto simp: demo_v2_def demo_do_def demo_tagged_def demo_answer_def split: prod.splits option.splits)
  show "demo_opened w1 (rr_host q) (rr_path q) (rs_header resp ''Location'')"
    if "re_do demo_v2 q w = (w1, Inr resp)" "rr_method q = ''POST''" for q w w1 resp
    using that by (auto simp: demo_v2_def demo_do_def demo_opened_def demo_answer_def split: prod.splits)
  show "demo_holds w1 h (p @ dig)"
    if "demo_opened w h (p @ ''uploads/'') loc" "ij_url demo_json loc = Inr u" "re_do demo_v2 q w = (w1, Inr resp)" "rr_method q = ''PUT''"
      "rr_path q = pu_path u" "rr_query q = filter (\<lambda>(k, v). k \<noteq> ''digest'') (pu_query u) @ [(''digest'', dig)]" "rr_body q = Some b"
    for q w w1 resp h p loc u dig b
  proof -
    have u: "pu_path u = p @ ''uploads/''" "pu_query u = []"
      using that(1,2) by (auto simp: demo_opened_def demo_json_def)
    have "take (length (pu_path u) - 8) (pu_path u) = p" by (simp add: u)
    then show ?thesis using that(3-7) u by (cases w) (auto simp: demo_v2_def demo_do_def demo_holds_def)
  qed
qed

text \<open>C32: When ExecuteSync returns no error, the registries it talked to keeping the laws of the distribution
  protocol, the target tag is the source's manifest as it was read at the start. Either the target had that
  manifest already, or the manifest was pushed and the target holds every layer of the image that the
  source gave out when it was asked for the parsed manifest, in a second request: it is the same
  manifest only if the source did not change its tag in between.\<close>

theorem ExecuteSync_copies:
  assumes "v2_server env js opened holds tagged" "ExecuteSync (registry_ops env js tmp seek stat dbf) va i d w = (d', w', Inr ())"
  shows "\<exists>t src tgt w1 src1 raw dig mt. task_GetByID i d = Some t \<and>
    RawManifest env js (st_source_repo t) (st_source_tag t) src w = (w1, src1, Inr (raw, dig, mt)) \<and>
    createClient (registry_ops env js tmp seek stat dbf) va ''source'' (st_source_registry t) (fst (task_Start (re_now env w) i d)) w = Inr src \<and>
    createClient (registry_ops env js tmp seek stat dbf) va ''target'' (st_target_registry t) (fst (task_Start (re_now env w) i d)) w = Inr tgt \<and>
    ((\<exists>tgt1 dig1 mt1. RawManifest env js (st_target_repo t) (st_target_tag t) tgt w1 = (w', tgt1, Inr (raw, dig1, mt1))) \<or>
     tagged w' (cl_host tgt) (cl_basePath tgt @ ''/v2/'' @ st_target_repo t @ ''/manifests/'' @ st_target_tag t) raw \<and>
     (\<exists>w2 w3 src3 m. Manifest env js (st_source_repo t) (st_source_tag t) src1 w2 = (w3, src3, Inr m) \<and>
        (\<forall>l \<in> set (md_Layers m). holds w' (cl_host tgt) (cl_basePath tgt @ ''/v2/'' @ st_target_repo t @ ''/blobs/'' @ li_Digest l))))"
proof (rule registry_client.sync_copies [OF v2_laws [OF assms(1)] assms(2)], goal_cases)
  case (1 t tgt src raw dig mt w1 src1)
  have n: "so_now (registry_ops env js tmp seek stat dbf) = re_now env"
    "so_RawManifest (registry_ops env js tmp seek stat dbf) repo ref c v = text_result (RawManifest env js repo ref c v)"
    "so_Manifest (registry_ops env js tmp seek stat dbf) repo ref c v = text_result (Manifest env js repo ref c v)" for repo ref c v
    by (simp_all add: registry_ops_def)
  show ?case
    using 1 unfolding n text_result_Inr blob_at_def tag_at_def client_ident_def prod.case by metis
qed

definition demo_task :: sync_task where
  "demo_task = \<lparr>st_id = 1, st_source_registry = 1, st_target_registry = 1, st_source_repo = ''a'', st_source_tag = ''x'',
     st_target_repo = ''b'', st_target_tag = ''y'', st_status = ''pending'', st_progress = 0, st_total = 0, st_error = [], st_created = 0, st_updated = 0\<rparr>"

definition demo_registry :: registry where
  "demo_registry = \<lparr>rg_id = 1, rg_name = ''r'', rg_url = ''http://h'', rg_type = ''ghcr'', rg_username = [], rg_password = [],
     rg_enabled = True, rg_created = 0, rg_updated = 0\<rparr>"

definition demo_sync_db :: reg_db where
  "demo_sync_db = \<lparr>rd_registries = [demo_registry], rd_reg_seq = 1, rd_tasks = [demo_task], rd_task_seq = 1\<rparr>"

definition demo_sync_ops :: "(client, demo_world) sync_ops" where
  "demo_sync_ops = registry_ops demo_v2 demo_json (\<lambda>w. None) (\<lambda>w. None) (\<lambda>w. None) (\<lambda>k w. None)"

definition demo_start :: demo_world where
  "demo_start = ([''/v2/a/blobs/sha256:l'', ''/v2/a/blobs/sha256:c''], [(''/v2/a/manifests/x'', ''m'')])"


text \<open>A context that is cancelled before the clients are made: the call fails, and the task stays running.\<close>

lemma cancelled_stays_running:
  "(let ops = demo_sync_ops\<lparr>so_db := (\<lambda>k w. if k = ''get'' \<or> k = ''start'' then None else Some ''context canceled'')\<rparr>;
        x = ExecuteSync ops demo_vault 1 demo_sync_db demo_start in
    isl (snd (snd x)) \<and> task_state 1 ''running'' (fst x))"
  by code_simp

theorem ExecuteSync_copies_witness:
  "\<exists>tgt w1 raw. (\<exists>tgt1 dig1 mt1. RawManifest demo_v2 demo_json ''b'' ''y'' tgt w1 =
       (fst (snd (ExecuteSync demo_sync_ops demo_vault 1 demo_sync_db demo_start)), tgt1, Inr (raw, dig1, mt1))) \<or>
     demo_tagged (fst (snd (ExecuteSync demo_sync_ops demo_vault 1 demo_sync_db demo_start))) (cl_host tgt) (cl_basePath tgt @ ''/v2/b/manifests/y'') raw"
proof -
  obtain d' w' r where x: "ExecuteSync demo_sync_ops demo_vault 1 demo_sync_db demo_start = (d', w', r)"
    by (cases "ExecuteSync demo_sync_ops demo_vault 1 demo_sync_db demo_start")
  have "snd (snd (ExecuteSync demo_sync_ops demo_vault 1 demo_sync_db demo_start)) = Inr ()" by code_simp
  then have x': "ExecuteSync (registry_ops demo_v2 demo_json (\<lambda>w. None) (\<lambda>w. None) (\<lambda>w. None) (\<lambda>k w. None)) demo_vault 1 demo_sync_db demo_start = (d', w', Inr ())"
    using x by (simp add: demo_sync_ops_def)
  have t: "task_GetByID 1 demo_sync_db = Some demo_task" by (simp add: task_GetByID_def demo_sync_db_def demo_task_def)
  have "st_target_repo demo_task = ''b''" "st_target_tag demo_task = ''y''" by (simp_all add: demo_task_def)
  then show ?thesis using ExecuteSync_copies [OF demo_server x'] unfolding x fst_conv snd_conv t by auto blast
qed

end
