(* ===== verification/Iso_Download.thy ===== *)
theory Iso_Download
  imports Path_Guard Go_Text
begin

text \<open>
  Downloads of installation images, src/internal/service/iso\_downloader.go: a download writes to a
  temporary file beside the target, continues a temporary file that an earlier run has left, and renames it
  at the end.

  The disk is the map of regular files to their bytes. The network, the other failures of the operating
  system, the digest, the free space and the floating-point product of checkDiskSpace are parameters
  (\<open>iso_env\<close>); one environment stands for one call. Waiting for the semaphore, metrics and progress
  reports are left out.
\<close>

section \<open>Parameters\<close>

datatype ctx_err = Canceled | DeadlineExceeded | OtherErr string

datatype iso_err =
    IsoMsg string
  | IsoWrap string ctx_err
  | InsufficientStorage int int

fun is_canceled :: "iso_err \<Rightarrow> bool" where
  "is_canceled (IsoWrap _ e) = (e = Canceled)"
| "is_canceled _ = False"

text \<open>An answer: its body arrives up to \<open>ia_body\<close>, then it ends or fails.\<close>

record iso_answer =
  ia_status :: int
  ia_length :: int
  ia_body :: string
  ia_fail :: "ctx_err option"

datatype iso_op = OpMkdir | OpAppend | OpCreate | OpSeek | OpClose | OpRename | OpOpen | OpRead

record iso_env =
  ie_dir :: string
  ie_scheme :: "string \<Rightarrow> string + string"
  ie_get :: "string \<Rightarrow> int option \<Rightarrow> ctx_err + iso_answer"
  ie_fault :: "iso_op \<Rightarrow> string option"
  ie_avail :: "string + int"
  ie_times :: "int \<Rightarrow> int"
  ie_sha256 :: "string \<Rightarrow> string"

type_synonym iso_disk = "string \<rightharpoonup> string"

section \<open>iso\_downloader.go\<close>

definition isCorruptionError :: "ctx_err \<Rightarrow> bool" where
  "isCorruptionError e \<longleftrightarrow> e \<noteq> Canceled \<and> e \<noteq> DeadlineExceeded"

definition calcNeededBytes :: "int \<Rightarrow> int \<Rightarrow> int" where
  "calcNeededBytes totalBytes resumeOffset =
     (let fallback = 2 * 1024 * 1024 * 1024 in
      if totalBytes \<le> 0 then fallback
      else let remaining = wrap64 (totalBytes - resumeOffset) in
        if remaining < 0 then fallback else remaining)"

definition checkDiskSpace :: "iso_env \<Rightarrow> int \<Rightarrow> iso_err option" where
  "checkDiskSpace env neededBytes =
     (case ie_avail env of
        Inl e \<Rightarrow> Some (IsoMsg (''checking disk space: statfs failed: '' @ e))
      | Inr avail \<Rightarrow>
          let needed = ie_times env neededBytes in
          if avail < needed then Some (InsufficientStorage avail needed) else None)"

definition verifyChecksum :: "iso_env \<Rightarrow> string \<Rightarrow> string \<Rightarrow> iso_disk \<Rightarrow> string option" where
  "verifyChecksum env filePath expectedSHA256 fs =
     (case (ie_fault env OpOpen, fs filePath) of
        (Some e, _) \<Rightarrow> Some (''opening file for checksum: '' @ e)
      | (None, None) \<Rightarrow> Some ''opening file for checksum: no such file''
      | (None, Some data) \<Rightarrow>
          (case ie_fault env OpRead of
             Some e \<Rightarrow> Some (''hashing file: '' @ e)
           | None \<Rightarrow>
               let actual = ie_sha256 env data in
               if actual \<noteq> expectedSHA256
               then Some (''checksum mismatch: expected '' @ expectedSHA256 @ '', got '' @ actual) else None))"

definition finalPath :: "iso_env \<Rightarrow> string \<Rightarrow> string" where
  "finalPath env filename = path_join [ie_dir env, filename]"

definition tempPath :: "iso_env \<Rightarrow> string \<Rightarrow> string" where
  "tempPath env filename = finalPath env filename @ ''.tmp''"

text \<open>From the complete temporary file on: closing, renaming, the checksum.\<close>

definition finish_iso :: "iso_env \<Rightarrow> string \<Rightarrow> string \<Rightarrow> iso_disk \<Rightarrow> iso_disk \<times> (iso_err + unit)" where
  "finish_iso env filename expectedSHA256 fs =
     (case ie_fault env OpClose of
        Some e \<Rightarrow> (fs(tempPath env filename := None), Inl (IsoMsg (''closing temp file: '' @ e)))
      | None \<Rightarrow>
     (case ie_fault env OpRename of
        Some e \<Rightarrow> (fs(tempPath env filename := None), Inl (IsoMsg (''renaming temp file: '' @ e)))
      | None \<Rightarrow>
          let fs1 = fs(finalPath env filename := fs (tempPath env filename), tempPath env filename := None) in
          if expectedSHA256 \<noteq> [] then
            (case verifyChecksum env (finalPath env filename) expectedSHA256 fs1 of
               Some e \<Rightarrow> (fs1(finalPath env filename := None), Inl (IsoMsg (''checksum verification failed: '' @ e)))
             | None \<Rightarrow> (fs1, Inr ()))
          else (fs1, Inr ())))"

text \<open>From the open temporary file on: \<open>base\<close> is what it holds.\<close>

definition copy_iso :: "iso_env \<Rightarrow> string \<Rightarrow> string \<Rightarrow> iso_answer \<Rightarrow> int \<Rightarrow> string \<Rightarrow> iso_disk \<Rightarrow> iso_disk \<times> (iso_err + unit)" where
  "copy_iso env filename expectedSHA256 resp resumeOffset base fs =
     (let tp = tempPath env filename; fs1 = fs(tp \<mapsto> base @ ia_body resp) in
      case ia_fail resp of
        Some e \<Rightarrow> (if isCorruptionError e then fs1(tp := None) else fs1, Inl (IsoWrap ''writing ISO to disk'' e))
      | None \<Rightarrow>
          if length (ia_body resp) = 0 \<and> resumeOffset = 0
          then (fs1(tp := None), Inl (IsoMsg ''downloaded file is empty (0 bytes)''))
          else finish_iso env filename expectedSHA256 fs1)"

text \<open>The answer to a resumed and to a fresh download.\<close>

definition resume_iso :: "iso_env \<Rightarrow> string \<Rightarrow> string \<Rightarrow> iso_answer \<Rightarrow> int \<Rightarrow> iso_disk \<Rightarrow> iso_disk \<times> (iso_err + unit)" where
  "resume_iso env filename expectedSHA256 resp existingSize fs =
     (let tp = tempPath env filename;
          totalBytes = (if ia_length resp > 0 then wrap64 (existingSize + ia_length resp) else - 1) in
      case checkDiskSpace env (calcNeededBytes totalBytes existingSize) of
        Some e \<Rightarrow> (fs, Inl e)
      | None \<Rightarrow>
     (case (ie_fault env OpAppend, fs tp) of
        (Some e, _) \<Rightarrow> (fs, Inl (IsoMsg (''opening temp file for append: '' @ e)))
      | (None, None) \<Rightarrow> (fs, Inl (IsoMsg ''opening temp file for append: no such file''))
      | (None, Some base) \<Rightarrow>
     (case ie_fault env OpSeek of
        Some e \<Rightarrow> (fs(tp := None), Inl (IsoMsg (''seeking temp file: '' @ e)))
      | None \<Rightarrow>
          if int (length base) \<noteq> existingSize
          then (fs(tp := None), Inl (IsoMsg (''temp file size mismatch: expected '' @ format_int existingSize @ '', got '' @ format_int (int (length base)))))
          else copy_iso env filename expectedSHA256 resp existingSize base fs)))"

definition fresh_iso :: "iso_env \<Rightarrow> string \<Rightarrow> string \<Rightarrow> iso_answer \<Rightarrow> int \<Rightarrow> iso_disk \<Rightarrow> iso_disk \<times> (iso_err + unit)" where
  "fresh_iso env filename expectedSHA256 resp existingSize fs =
     (let tp = tempPath env filename;
          fs0 = (if existingSize > 0 then fs(tp := None) else fs) in
      case checkDiskSpace env (calcNeededBytes (ia_length resp) 0) of
        Some e \<Rightarrow> (fs0, Inl e)
      | None \<Rightarrow>
     (case ie_fault env OpCreate of
        Some e \<Rightarrow> (fs0, Inl (IsoMsg (''creating temp file: '' @ e)))
      | None \<Rightarrow> copy_iso env filename expectedSHA256 resp 0 [] fs0))"

definition DownloadISO :: "iso_env \<Rightarrow> string \<Rightarrow> string \<Rightarrow> string \<Rightarrow> iso_disk \<Rightarrow> iso_disk \<times> (iso_err + unit)" where
  "DownloadISO env filename rawURL expectedSHA256 fs =
     (case validateFilename filename of
        Inl _ \<Rightarrow> (fs, Inl (IsoMsg ''invalid filename''))
      | Inr _ \<Rightarrow>
     (case ie_scheme env rawURL of
        Inl e \<Rightarrow> (fs, Inl (IsoMsg (''invalid URL: '' @ e)))
      | Inr sch \<Rightarrow>
          if sch \<noteq> ''http'' \<and> sch \<noteq> ''https'' then (fs, Inl (IsoMsg (''unsupported URL scheme '' @ [CHR 0x22] @ sch @ [CHR 0x22])))
          else
     (case ie_fault env OpMkdir of
        Some e \<Rightarrow> (fs, Inl (IsoMsg (''creating os-install directory: '' @ e)))
      | None \<Rightarrow>
          let existingSize = (case fs (tempPath env filename) of None \<Rightarrow> 0 | Some b \<Rightarrow> int (length b)) in
          (case ie_get env rawURL (if existingSize > 0 then Some existingSize else None) of
             Inl e \<Rightarrow> (fs, Inl (IsoWrap ''download request failed'' e))
           | Inr resp \<Rightarrow>
               if ia_status resp = 206 then resume_iso env filename expectedSHA256 resp existingSize fs
               else if ia_status resp = 200 then fresh_iso env filename expectedSHA256 resp existingSize fs
               else (fs, Inl (IsoMsg (''HTTP '' @ format_int (ia_status resp) @ '' from '' @ rawURL)))))))"

definition DeleteISO :: "iso_env \<Rightarrow> string \<Rightarrow> iso_disk \<Rightarrow> iso_disk \<times> (iso_err + unit)" where
  "DeleteISO env filename fs =
     (case validateFilename filename of
        Inl _ \<Rightarrow> (fs, Inl (IsoMsg ''invalid filename''))
      | Inr _ \<Rightarrow>
          (case fs (finalPath env filename) of
             None \<Rightarrow> (fs, Inl (IsoMsg (''ISO file '' @ [CHR 0x22] @ filename @ [CHR 0x22] @ '' not found'')))
           | Some _ \<Rightarrow> (fs(finalPath env filename := None), Inr ())))"

record stream_answer =
  sa_header :: "(string \<times> string) list"
  sa_body :: string

definition StreamISO :: "iso_env \<Rightarrow> string \<Rightarrow> iso_disk \<Rightarrow> iso_err + stream_answer" where
  "StreamISO env filename fs =
     (case validateFilename filename of
        Inl _ \<Rightarrow> Inl (IsoMsg ''invalid filename'')
      | Inr _ \<Rightarrow>
          (case fs (finalPath env filename) of
             None \<Rightarrow> Inl (IsoMsg ''opening ISO file: no such file'')
           | Some b \<Rightarrow> Inr \<lparr>sa_header = [(''Content-Type'', ''application/octet-stream''), (''Content-Length'', format_int (int (length b))),
                (''Content-Disposition'', ''attachment; filename='' @ [CHR 0x22] @ filename @ [CHR 0x22])], sa_body = b\<rparr>))"

record dir_entry =
  dr_name :: string
  dr_isDir :: bool
  dr_info :: "(int \<times> string) option"

definition ListISOs :: "(bool \<times> string) + dir_entry list \<Rightarrow> iso_err + (string \<times> int \<times> string) list" where
  "ListISOs entries =
     (case entries of
        Inl (notExist, e) \<Rightarrow> if notExist then Inr [] else Inl (IsoMsg (''reading os-install directory: '' @ e))
      | Inr es \<Rightarrow> Inr (List.map_filter (\<lambda>e. if dr_isDir e \<or> has_suffix (dr_name e) ''.tmp'' then None
           else map_option (\<lambda>(sz, t). (dr_name e, sz, t)) (dr_info e)) es))"

record stale_check =
  sc_ID :: int
  sc_Filename :: string
  sc_Status :: string

text \<open>The callback changes a state of the caller, here \<open>'s\<close>; the result is the number of entries that were reset.\<close>

fun ResetStaleDownloads ::
  "iso_env \<Rightarrow> (int \<Rightarrow> string \<Rightarrow> 's \<Rightarrow> 's \<times> (string + unit)) \<Rightarrow> stale_check list \<Rightarrow> nat \<Rightarrow> iso_disk \<Rightarrow> 's \<Rightarrow> iso_disk \<times> 's \<times> nat \<times> string option" where
  "ResetStaleDownloads env resetFn [] reset fs s = (fs, s, reset, None)"
| "ResetStaleDownloads env resetFn (e # es) reset fs s =
     (if sc_Status e \<noteq> ''downloading'' then ResetStaleDownloads env resetFn es reset fs s
      else let fp = finalPath env (sc_Filename e); tp = tempPath env (sc_Filename e) in
        if (case fs fp of Some b \<Rightarrow> length b > 0 | None \<Rightarrow> False) then
          (let fs1 = fs(tp := None) in
           case resetFn (sc_ID e) ''downloaded'' s of
             (s1, Inl er) \<Rightarrow> (fs1, s1, reset, Some er)
           | (s1, Inr _) \<Rightarrow> ResetStaleDownloads env resetFn es (reset + 1) fs1 s1)
        else if fs tp = None then
          (case resetFn (sc_ID e) ''pending'' s of
             (s1, Inl er) \<Rightarrow> (fs, s1, reset, Some er)
           | (s1, Inr _) \<Rightarrow> ResetStaleDownloads env resetFn es (reset + 1) fs s1)
        else ResetStaleDownloads env resetFn es reset fs s)"

section \<open>What a download touches\<close>

lemma temp_neq_final [simp]: "tempPath env f \<noteq> finalPath env f" "finalPath env f \<noteq> tempPath env f"
  by (simp_all add: tempPath_def)

definition only_iso :: "iso_env \<Rightarrow> string \<Rightarrow> iso_disk \<Rightarrow> iso_disk \<Rightarrow> bool" where
  "only_iso env f fs fs' \<longleftrightarrow> (\<forall>p. p \<noteq> finalPath env f \<longrightarrow> p \<noteq> tempPath env f \<longrightarrow> fs' p = fs p)"

lemma only_iso_refl [simp]: "only_iso env f fs fs"
  by (simp add: only_iso_def)

lemma only_iso_upd [simp]:
  "only_iso env f fs (fs'(tempPath env f := v)) = only_iso env f fs fs'"
  "only_iso env f fs (fs'(finalPath env f := v)) = only_iso env f fs fs'"
  "only_iso env f (fs(tempPath env f := v)) fs' = only_iso env f fs fs'"
  by (auto simp: only_iso_def)

lemma finish_only_iso: "only_iso env f fs (fst (finish_iso env f sha fs))"
  by (simp add: finish_iso_def Let_def split: option.splits)

lemma only_iso_trans: "only_iso env f fs fs1 \<Longrightarrow> only_iso env f fs1 fs2 \<Longrightarrow> only_iso env f fs fs2"
  by (simp add: only_iso_def)

lemma copy_only_iso: "only_iso env f fs (fst (copy_iso env f sha resp off base fs))"
  using finish_only_iso [of env f "fs(tempPath env f \<mapsto> base @ ia_body resp)" sha]
  by (auto simp: copy_iso_def Let_def intro: only_iso_trans split: option.splits)

lemma resume_only_iso: "only_iso env f fs (fst (resume_iso env f sha resp n fs))"
  by (simp add: resume_iso_def Let_def copy_only_iso split: option.splits)

lemma fresh_only_iso: "only_iso env f fs (fst (fresh_iso env f sha resp n fs))"
  using copy_only_iso [of env f fs sha resp 0 "[]"] copy_only_iso [of env f "fs(tempPath env f := None)" sha resp 0 "[]"]
  by (auto simp: fresh_iso_def Let_def intro: only_iso_trans split: option.splits)

section \<open>What a download leaves\<close>

text \<open>A server that has one file: a full answer is the file, a partial one the file from the offset on; an
  answer that fails has delivered a beginning of it.\<close>

definition honest :: "iso_env \<Rightarrow> string \<Rightarrow> string \<Rightarrow> bool" where
  "honest env url X \<longleftrightarrow> (\<forall>r a. ie_get env url r = Inr a \<longrightarrow>
     (ia_status a = 200 \<longrightarrow> prefix (ia_body a) X \<and> (ia_fail a = None \<longrightarrow> ia_body a = X)) \<and>
     (ia_status a = 206 \<longrightarrow> r \<noteq> None \<and> prefix (ia_body a) (drop (nat (the r)) X) \<and>
        (ia_fail a = None \<longrightarrow> ia_body a = drop (nat (the r)) X)))"

lemma honestD:
  "honest env url X \<Longrightarrow> ie_get env url r = Inr a \<Longrightarrow>
     (ia_status a = 200 \<longrightarrow> prefix (ia_body a) X \<and> (ia_fail a = None \<longrightarrow> ia_body a = X)) \<and>
     (ia_status a = 206 \<longrightarrow> r \<noteq> None \<and> prefix (ia_body a) (drop (nat (the r)) X) \<and>
        (ia_fail a = None \<longrightarrow> ia_body a = drop (nat (the r)) X))"
  by (simp add: honest_def)

definition partial_of :: "string \<Rightarrow> string option \<Rightarrow> bool" where
  "partial_of X b \<longleftrightarrow> (case b of None \<Rightarrow> True | Some c \<Rightarrow> prefix c X)"

text \<open>The outcome of a run: the whole file at its place, or an error, the temporary file being a beginning of
  the file and the target as before or, after a failed checksum, gone.\<close>

definition outcome :: "iso_env \<Rightarrow> string \<Rightarrow> string \<Rightarrow> string \<Rightarrow> iso_disk \<Rightarrow> iso_disk \<times> (iso_err + unit) \<Rightarrow> bool" where
  "outcome env f sha X fs x \<longleftrightarrow>
     (case x of (fs', r) \<Rightarrow>
        (r = Inr () \<and> fs' (finalPath env f) = Some X \<and> fs' (tempPath env f) = None \<and> (sha = [] \<or> ie_sha256 env X = sha)) \<or>
        (isl r \<and> partial_of X (fs' (tempPath env f)) \<and>
          (fs' (finalPath env f) = fs (finalPath env f) \<or> sha \<noteq> [] \<and> fs' (finalPath env f) = None)))"

lemma outcome_kept [simp]: "partial_of X (fs (tempPath env f)) \<Longrightarrow> outcome env f sha X fs (fs, Inl e)"
  by (simp add: outcome_def)

lemma outcome_dropped [simp]: "outcome env f sha X fs (fs(tempPath env f := None), Inl e)"
  by (simp add: outcome_def partial_of_def)

lemma outcome_same_final:
  "fs1 (finalPath env f) = fs (finalPath env f) \<Longrightarrow> outcome env f sha X fs1 x \<Longrightarrow> outcome env f sha X fs x"
  by (simp add: outcome_def split: prod.splits)

lemma finish_outcome:
  assumes "fs (tempPath env f) = Some X"
  shows "outcome env f sha X fs (finish_iso env f sha fs)"
  using assms
  by (auto simp: finish_iso_def verifyChecksum_def outcome_def partial_of_def Let_def split: option.splits)

lemma copy_outcome:
  assumes b: "prefix (base @ ia_body resp) X" "ia_fail resp = None \<Longrightarrow> base @ ia_body resp = X"
  shows "outcome env f sha X fs (copy_iso env f sha resp off base fs)"
proof (cases "ia_fail resp")
  case (Some e)
  then show ?thesis using b by (auto simp: copy_iso_def Let_def outcome_def partial_of_def)
next
  case None
  let ?fs = "fs(tempPath env f \<mapsto> base @ ia_body resp)"
  have "outcome env f sha X ?fs (finish_iso env f sha ?fs)" using b(2) None by (intro finish_outcome) simp
  then have "outcome env f sha X fs (finish_iso env f sha ?fs)" by (rule outcome_same_final [rotated]) simp
  then show ?thesis using None by (simp add: copy_iso_def Let_def outcome_def partial_of_def)
qed

lemma resume_outcome:
  assumes t: "fs (tempPath env f) = Some base" "prefix base X" and r: "prefix (ia_body resp) (drop (length base) X)"
    "ia_fail resp = None \<Longrightarrow> ia_body resp = drop (length base) X"
  shows "outcome env f sha X fs (resume_iso env f sha resp (int (length base)) fs)"
proof -
  obtain rest where x: "X = base @ rest" using t(2) by (auto simp: prefix_def)
  have "outcome env f sha X fs (copy_iso env f sha resp n base fs)" for n
    using r x by (intro copy_outcome) auto
  then show ?thesis using t by (simp add: resume_iso_def Let_def partial_of_def split: option.splits)
qed

lemma fresh_outcome:
  assumes t: "partial_of X (fs (tempPath env f))" and r: "prefix (ia_body resp) X" "ia_fail resp = None \<Longrightarrow> ia_body resp = X"
  shows "outcome env f sha X fs (fresh_iso env f sha resp n fs)"
proof -
  have "outcome env f sha X fs (copy_iso env f sha resp 0 [] fs')" if "fs' (finalPath env f) = fs (finalPath env f)" for fs'
    by (rule outcome_same_final [where ?fs1.0 = fs']) (use r that in \<open>simp_all add: copy_outcome\<close>)
  then show ?thesis using t by (simp add: fresh_iso_def Let_def split: option.splits)
qed

section \<open>A server that is interrupted\<close>

text \<open>It answers ranges, and the connection breaks off after \<open>stop\<close> bytes with the error \<open>e\<close> when more are left.\<close>

definition iso_server :: "string \<Rightarrow> nat \<Rightarrow> ctx_err \<Rightarrow> int option \<Rightarrow> ctx_err + iso_answer" where
  "iso_server X stop e r =
     (let k = (case r of None \<Rightarrow> 0 | Some k \<Rightarrow> nat k); rest = drop k X in
      if r \<noteq> None \<and> length X \<le> k then Inr \<lparr>ia_status = 416, ia_length = 0, ia_body = [], ia_fail = None\<rparr>
      else Inr \<lparr>ia_status = (if r = None then 200 else 206), ia_length = int (length rest), ia_body = take stop rest,
             ia_fail = (if stop < length rest then Some e else None)\<rparr>)"

lemma server_honest: "honest (env\<lparr>ie_get := \<lambda>u. iso_server X stop e\<rparr>) url X"
  by (auto simp: honest_def iso_server_def Let_def take_is_prefix split: if_splits option.splits)

text \<open>An environment in which nothing else fails.\<close>

definition ready :: "iso_env \<Rightarrow> string \<Rightarrow> bool" where
  "ready env url \<longleftrightarrow> ie_scheme env url = Inr ''https'' \<and> (\<forall>op. ie_fault env op = None) \<and> (\<forall>n. checkDiskSpace env n = None)"

definition run_iso :: "iso_env \<Rightarrow> string \<Rightarrow> string \<Rightarrow> string \<Rightarrow> string \<Rightarrow> nat \<times> ctx_err \<Rightarrow> iso_disk \<Rightarrow> iso_disk \<times> (iso_err + unit)" where
  "run_iso env f url sha X brk fs = DownloadISO (env\<lparr>ie_get := \<lambda>u. iso_server X (fst brk) (snd brk)\<rparr>) f url sha fs"

lemma get_irrelevant [simp]:
  "finalPath (env\<lparr>ie_get := g\<rparr>) f = finalPath env f" "tempPath (env\<lparr>ie_get := g\<rparr>) f = tempPath env f"
  "finish_iso (env\<lparr>ie_get := g\<rparr>) f sha fs = finish_iso env f sha fs"
  "checkDiskSpace (env\<lparr>ie_get := g\<rparr>) n = checkDiskSpace env n"
  by (simp_all add: finalPath_def tempPath_def finish_iso_def checkDiskSpace_def verifyChecksum_def Let_def cong: option.case_cong sum.case_cong)

lemma copy_get [simp]: "copy_iso (env\<lparr>ie_get := g\<rparr>) f sha resp off base fs = copy_iso env f sha resp off base fs"
  by (simp add: copy_iso_def Let_def cong: option.case_cong)

text \<open>A temporary file with the first \<open>n\<close> bytes; none, or an empty one, when there are none.\<close>

definition holds_part :: "iso_env \<Rightarrow> string \<Rightarrow> string \<Rightarrow> nat \<Rightarrow> iso_disk \<Rightarrow> bool" where
  "holds_part env f X n fs \<longleftrightarrow> n < length X \<and> (case fs (tempPath env f) of None \<Rightarrow> n = 0 | Some b \<Rightarrow> b = take n X)"

lemma run_iso_eq:
  assumes "ready env url" "validateFilename f = Inr ()" "holds_part env f X n fs"
  shows "run_iso env f url sha X (stop, e) fs =
    copy_iso env f sha \<lparr>ia_status = (if n = 0 then 200 else 206), ia_length = int (length X - n),
       ia_body = take stop (drop n X), ia_fail = (if stop < length X - n then Some e else None)\<rparr>
      (int n) (take n X) fs"
proof -
  have env: "ie_scheme env url = Inr ''https''" "\<And>op. ie_fault env op = None" "\<And>n. checkDiskSpace env n = None"
    using assms(1) by (auto simp: ready_def)
  have n: "n < length X" using assms(3) by (simp add: holds_part_def)
  have sz: "(case fs (tempPath env f) of None \<Rightarrow> 0 | Some b \<Rightarrow> int (length b)) = int n"
    using assms(3) by (auto simp: holds_part_def split: option.splits)
  show ?thesis
  proof (cases "n = 0")
    case True
    with sz show ?thesis
      using env assms(2) by (simp add: run_iso_def DownloadISO_def iso_server_def fresh_iso_def Let_def)
  next
    case False
    then have "fs (tempPath env f) = Some (take n X)" using assms(3) by (auto simp: holds_part_def split: option.splits)
    with False n show ?thesis
      using env assms(2) by (simp add: run_iso_def DownloadISO_def iso_server_def resume_iso_def Let_def not_le)
  qed
qed

text \<open>How much of a file of \<open>len\<close> bytes is kept of \<open>n\<close> bytes after a run that got the next \<open>k\<close>: nothing when the file was
  complete and has moved to its place; all of it when the context ended the run; nothing after any other
  error, since isCorruptionError has the file removed.\<close>

fun part_after :: "nat \<Rightarrow> nat \<times> ctx_err \<Rightarrow> nat \<Rightarrow> nat" where
  "part_after len (k, e) n = (if len \<le> n + k then 0 else if e = Canceled \<or> e = DeadlineExceeded then n + k else 0)"

lemma run_iso_step:
  assumes "ready env url" "validateFilename f = Inr ()" "sha = [] \<or> sha = ie_sha256 env X" "holds_part env f X n fs"
  shows "case run_iso env f url sha X (k, e) fs of (fs', r) \<Rightarrow>
    holds_part env f X (part_after (length X) (k, e) n) fs' \<and>
    (if length X \<le> n + k then r = Inr () \<and> fs' (finalPath env f) = Some X \<and> fs' (tempPath env f) = None
     else r = Inl (IsoWrap ''writing ISO to disk'' e) \<and> fs' (finalPath env f) = fs (finalPath env f))"
proof -
  have n: "n < length X" using assms(4) by (simp add: holds_part_def)
  have env: "\<And>op. ie_fault env op = None" using assms(1) by (simp add: ready_def)
  note q = run_iso_eq [OF assms(1,2,4), of sha k e]
  show ?thesis
  proof (cases "k < length X - n")
    case True
    then have l: "\<not> length X \<le> n + k" by linarith
    have t: "take n X @ take k (drop n X) = take (n + k) X" by (simp add: take_add)
    show ?thesis unfolding q using True l n
      by (cases e) (auto simp: copy_iso_def Let_def isCorruptionError_def holds_part_def t)
  next
    case False
    then have l: "length X \<le> n + k" and t: "take n X @ take k (drop n X) = X" by (auto simp: take_all)
    have ne: "\<not> (length (take k (drop n X)) = 0 \<and> int n = 0)" using False n by auto
    have c: "copy_iso env f sha \<lparr>ia_status = st, ia_length = m, ia_body = take k (drop n X), ia_fail = None\<rparr> (int n) (take n X) fs =
        finish_iso env f sha (fs(tempPath env f \<mapsto> X))" for st m
      unfolding copy_iso_def Let_def iso_answer.simps option.case t if_not_P [OF ne] ..
    have d: "finish_iso env f sha (fs(tempPath env f \<mapsto> X)) =
        ((fs(tempPath env f \<mapsto> X))(finalPath env f := Some X, tempPath env f := None), Inr ())"
      using env assms(3) by (auto simp: finish_iso_def verifyChecksum_def Let_def)
    have "X \<noteq> []" using n by auto
    then show ?thesis unfolding q using False l c d by (simp add: holds_part_def)
  qed
qed

section \<open>Properties\<close>

text \<open>C34: A download of a file that its server always serves alike ends with the whole file in place, nothing
  of the temporary file left and the checksum, if one is known, right; or it returns an error, and then the
  temporary file is a beginning of the file, so the next run can continue it, and the target is as before,
  except that a failed checksum has removed it. Only these two paths change, the target being inside the
  directory of the images.\<close>

theorem DownloadISO_exact:
  assumes "honest env url X" "partial_of X (fs (tempPath env f))"
  shows "outcome env f sha X fs (DownloadISO env f url sha fs) \<and>
    (\<forall>p. p \<noteq> finalPath env f \<longrightarrow> p \<noteq> tempPath env f \<longrightarrow> fst (DownloadISO env f url sha fs) p = fs p) \<and>
    (fst (DownloadISO env f url sha fs) = fs \<or> path_within (ie_dir env) (finalPath env f))"
proof (intro conjI)
  let ?n = "case fs (tempPath env f) of None \<Rightarrow> 0 | Some b \<Rightarrow> int (length b)"
  let ?r = "if ?n > 0 then Some ?n else None"
  have h: "ia_status a = 200 \<Longrightarrow> prefix (ia_body a) X" "ia_status a = 200 \<Longrightarrow> ia_fail a = None \<Longrightarrow> ia_body a = X"
    "ia_status a = 206 \<Longrightarrow> ?n > 0" "ia_status a = 206 \<Longrightarrow> prefix (ia_body a) (drop (nat ?n) X)"
    "ia_status a = 206 \<Longrightarrow> ia_fail a = None \<Longrightarrow> ia_body a = drop (nat ?n) X" if "ie_get env url ?r = Inr a" for a
    using honestD [OF assms(1) that] by (auto split: if_splits)
  have fr: "outcome env f sha X fs (fresh_iso env f sha a ?n fs)" if "ie_get env url ?r = Inr a" "ia_status a = 200" for a
    by (rule fresh_outcome [where fs = fs, OF assms(2)]) (use h(1,2) [OF that(1)] that(2) in simp_all)
  have re: "outcome env f sha X fs (resume_iso env f sha a ?n fs)" if a: "ie_get env url ?r = Inr a" "ia_status a = 206" for a
  proof -
    obtain b where b: "fs (tempPath env f) = Some b" using h(3) [OF a] by (cases "fs (tempPath env f)") auto
    then show ?thesis using resume_outcome [of fs env f b X a sha] assms(2) h(4,5) [OF a(1)] a(2) by (simp add: partial_of_def)
  qed
  show "outcome env f sha X fs (DownloadISO env f url sha fs)"
    using assms(2) fr re by (auto simp: DownloadISO_def Let_def split: sum.splits option.splits)
  have "only_iso env f fs (fst (DownloadISO env f url sha fs))"
    by (simp add: DownloadISO_def Let_def resume_only_iso fresh_only_iso split: sum.splits option.splits)
  then show "\<forall>p. p \<noteq> finalPath env f \<longrightarrow> p \<noteq> tempPath env f \<longrightarrow> fst (DownloadISO env f url sha fs) p = fs p"
    by (simp add: only_iso_def)
  show "fst (DownloadISO env f url sha fs) = fs \<or> path_within (ie_dir env) (finalPath env f)"
  proof (cases "validateFilename f")
    case (Inl e)
    then show ?thesis by (simp add: DownloadISO_def)
  next
    case (Inr u)
    then have "path_within (ie_dir env) (path_join [ie_dir env, f])" by (intro iso.sound) simp_all
    then show ?thesis by (simp add: finalPath_def)
  qed
qed

text \<open>C33: Downloads that break off are continued. After any runs, each of which gets some next bytes of the file
  and then ends by its context (cancelled, or over its deadline) or by another error, the temporary file is
  exactly the bytes received since it was last removed: what ends by the context keeps them, another
  error removes them. The next run asks only for the bytes that are missing: when it gets as many of them as
  are missing it succeeds, the whole file is in place and the temporary file is gone.\<close>

theorem interrupted_downloads_complete:
  assumes "ready env url" "validateFilename f = Inr ()" "sha = [] \<or> sha = ie_sha256 env X" "holds_part env f X n0 fs"
  shows "let n = fold (part_after (length X)) brks n0;
      fs1 = fold (\<lambda>b fs. fst (run_iso env f url sha X b fs)) brks fs in
    n < length X \<and> (case fs1 (tempPath env f) of None \<Rightarrow> n = 0 | Some b \<Rightarrow> b = take n X) \<and>
    (length X - n \<le> k \<longrightarrow> (case run_iso env f url sha X (k, e) fs1 of
      (fs2, r) \<Rightarrow> r = Inr () \<and> fs2 (finalPath env f) = Some X \<and> fs2 (tempPath env f) = None))"
proof -
  have "holds_part env f X (fold (part_after (length X)) brks n0) (fold (\<lambda>b fs. fst (run_iso env f url sha X b fs)) brks fs)"
    using assms(4)
  proof (induction brks arbitrary: n0 fs)
    case (Cons b brks)
    obtain j er where b: "b = (j, er)" by (cases b)
    have "holds_part env f X (part_after (length X) b n0) (fst (run_iso env f url sha X b fs))"
      using run_iso_step [OF assms(1-3) Cons.prems, of j er] unfolding b by (simp add: split_beta)
    then show ?case using Cons.IH by simp
  qed simp
  then show ?thesis
    using run_iso_step [OF assms(1-3), of _ _ k e] unfolding holds_part_def Let_def by (fastforce simp: split_beta)
qed

definition demo_env :: iso_env where
  "demo_env = \<lparr>ie_dir = ''/iso'', ie_scheme = (\<lambda>u. Inr ''https''), ie_get = (\<lambda>u. iso_server ''image'' 9 Canceled), ie_fault = (\<lambda>op. None),
     ie_avail = Inr 0, ie_times = (\<lambda>n. 0), ie_sha256 = rev\<rparr>"

lemma demo_env_ready: "ready demo_env url" "honest demo_env url ''image''" "validateFilename ''a.iso'' = Inr ()"
proof -
  show "ready demo_env url" by (simp add: ready_def demo_env_def checkDiskSpace_def)
  have "demo_env\<lparr>ie_get := \<lambda>u. iso_server ''image'' 9 Canceled\<rparr> = demo_env" by (simp add: demo_env_def)
  then show "honest demo_env url ''image''" using server_honest [where env = demo_env and X = "''image''" and stop = 9 and e = Canceled] by simp
  show "validateFilename ''a.iso'' = Inr ()" by code_simp
qed

theorem DownloadISO_exact_witness:
  "outcome demo_env ''a.iso'' [] ''image'' [tempPath demo_env ''a.iso'' \<mapsto> ''im'']
     (DownloadISO demo_env ''a.iso'' ''u'' [] [tempPath demo_env ''a.iso'' \<mapsto> ''im''])"
  using DownloadISO_exact [OF demo_env_ready(2), where fs = "[tempPath demo_env ''a.iso'' \<mapsto> ''im'']" and f = "''a.iso''" and sha = "[]"]
  by (simp add: partial_of_def prefix_def)

theorem interrupted_downloads_complete_witness:
  "fst (run_iso demo_env ''a.iso'' ''u'' ''egami'' ''image'' (3, Canceled)
     (fold (\<lambda>b fs. fst (run_iso demo_env ''a.iso'' ''u'' ''egami'' ''image'' b fs)) [(4, OtherErr ''reset''), (1, Canceled), (1, DeadlineExceeded)] Map.empty))
     (finalPath demo_env ''a.iso'') = Some ''image''"
proof -
  have h: "''egami'' = [] \<or> ''egami'' = ie_sha256 demo_env ''image''" by (simp add: demo_env_def)
  have p: "holds_part demo_env ''a.iso'' ''image'' 0 Map.empty" by (simp add: holds_part_def)
  have n: "fold (part_after (length ''image'')) [(4, OtherErr ''reset''), (1, Canceled), (1, DeadlineExceeded)] 0 = 2" by simp
  show ?thesis
    using interrupted_downloads_complete [OF demo_env_ready(1,3) h p, where brks = "[(4, OtherErr ''reset''), (1, Canceled), (1, DeadlineExceeded)]"
      and k = 3 and e = Canceled] unfolding n Let_def by (simp add: split_beta)
qed

section \<open>What can go wrong\<close>

text \<open>A temporary file that is complete, because a run ended between the last byte and the renaming, can
  never be finished: the server refuses the range behind its end, and the file stays as it is.\<close>

theorem complete_temp_is_stuck:
  assumes "ready env url" "validateFilename f = Inr ()" "X \<noteq> []" "fs (tempPath env f) = Some X"
  shows "\<exists>e. run_iso env f url sha X brk fs = (fs, Inl (IsoMsg e))"
  using assms by (simp add: run_iso_def ready_def DownloadISO_def iso_server_def Let_def)

text \<open>The new file takes the place of the old one before its checksum is known: when that is wrong, both are
  gone.\<close>

theorem bad_checksum_loses_old_file:
  assumes r: "ready env url" "validateFilename f = Inr ()" "X \<noteq> []" and t: "fs (tempPath env f) = None"
    and sha: "sha \<noteq> []" "sha \<noteq> ie_sha256 env X" and stop: "length X \<le> stop"
  shows "\<exists>e. run_iso env f url sha X (stop, er) fs = (fs(finalPath env f := None, tempPath env f := None), Inl (IsoMsg e))"
proof -
  have f: "\<And>op. ie_fault env op = None" using r(1) by (simp add: ready_def)
  have "holds_part env f X 0 fs" using r(3) t by (simp add: holds_part_def)
  note q = run_iso_eq [OF r(1,2) this, of sha stop er]
  show ?thesis
    using q t f sha stop r(3)
    by (auto simp: copy_iso_def finish_iso_def verifyChecksum_def Let_def fun_upd_twist)
qed

end
