(* ===== verification/Iso_Scrape.thy ===== *)
theory Iso_Scrape
  imports Go_Text "HOL-Library.Char_ord" "HOL-Library.List_Lexorder" "HOL-Library.Product_Lexorder" "HOL-Library.Multiset"
begin

text \<open>
  Finding the newest image on a mirror: src/internal/service/version.go (version numbers and their order),
  src/internal/service/iso\_scraper.go and MirrorArch of src/internal/service/distro\_profiles.go.

  Pages, regular expressions, the links of a page, the URLs of \<^verbatim>\<open>net/url\<close> and \<^verbatim>\<open>sort.Slice\<close> are parameters
  (\<open>scraper\<close>, with the type \<open>'u\<close> of parsed URLs).
\<close>

section \<open>version.go\<close>

text \<open>The maximal runs of digits; a run too large for an int gives the largest int, as \<^verbatim>\<open>strconv.Atoi\<close> does.\<close>

fun digit_runs :: "string \<Rightarrow> string \<Rightarrow> string list" where
  "digit_runs acc [] = (if acc = [] then [] else [rev acc])"
| "digit_runs acc (c # s) =
     (if is_digit c then digit_runs (c # acc) s
      else if acc = [] then digit_runs [] s else rev acc # digit_runs [] s)"

definition maxInt :: int where
  "maxInt = 2 ^ 63 - 1"

definition atoi_digits :: "string \<Rightarrow> int" where
  "atoi_digits m = min (int (digits_val 0 m)) maxInt"

definition ParseVersion :: "string \<Rightarrow> int list" where
  "ParseVersion s = map atoi_digits (digit_runs [] s)"

fun compare_loop :: "int list \<Rightarrow> int list \<Rightarrow> int" where
  "compare_loop (x # xs) (y # ys) = (if x < y then - 1 else if x > y then 1 else compare_loop xs ys)"
| "compare_loop _ _ = 0"

definition CompareVersion :: "int list \<Rightarrow> int list \<Rightarrow> int" where
  "CompareVersion a b =
     (if a = [] \<and> b = [] then 0
      else if a = [] then - 1
      else if b = [] then 1
      else let c = compare_loop a b in
        if c \<noteq> 0 then c
        else if length a < length b then - 1
        else if length a > length b then 1 else 0)"

section \<open>Parameters\<close>

datatype fetch_try = TryErr string | TryStatus int | TryRead string | TryBody string

record 'u scraper =
  sp_try :: "string \<Rightarrow> nat \<Rightarrow> fetch_try"
  sp_done :: "nat \<Rightarrow> string option"
  sp_links :: "string \<Rightarrow> string list"
  sp_compile :: "string \<Rightarrow> string + (string \<Rightarrow> bool)"
  sp_parse :: "string \<Rightarrow> string + 'u"
  sp_resolve :: "'u \<Rightarrow> 'u \<Rightarrow> 'u"
  sp_base :: "'u \<Rightarrow> string"
  sp_string :: "'u \<Rightarrow> string"
  sp_sort :: "((string \<times> int list) \<Rightarrow> (string \<times> int list) \<Rightarrow> bool) \<Rightarrow> (string \<times> int list) list \<Rightarrow> (string \<times> int list) list"

section \<open>iso\_scraper.go\<close>

definition MirrorArch :: "string \<Rightarrow> string" where
  "MirrorArch dbArch = (if dbArch = ''amd64'' then ''x86_64'' else if dbArch = ''arm64'' then ''aarch64'' else dbArch)"

definition replacePlaceholders :: "string \<Rightarrow> string \<Rightarrow> string \<Rightarrow> string" where
  "replacePlaceholders template version arch =
     (let s = (if version \<noteq> [] then ReplaceAll template ''{version}'' version else template) in
      ReplaceAll s ''{arch}'' arch)"

definition joinURL :: "'u scraper \<Rightarrow> string \<Rightarrow> string \<Rightarrow> string" where
  "joinURL sp base rel =
     (if rel = [] then base
      else case (sp_parse sp base, sp_parse sp rel) of
        (Inr b, Inr r) \<Rightarrow> sp_string sp (sp_resolve sp b r)
      | _ \<Rightarrow> base @ rel)"

text \<open>At most three tries; a body that cannot be read is not tried again.\<close>

fun fetch_tries :: "'u scraper \<Rightarrow> string \<Rightarrow> nat \<Rightarrow> nat \<Rightarrow> string \<Rightarrow> string + string" where
  "fetch_tries sp pageURL attempt 0 lastErr = Inl lastErr"
| "fetch_tries sp pageURL attempt (Suc n) lastErr =
     (case (if attempt > 0 then sp_done sp attempt else None) of
        Some e \<Rightarrow> Inl e
      | None \<Rightarrow>
          (case sp_try sp pageURL attempt of
             TryErr e \<Rightarrow> fetch_tries sp pageURL (attempt + 1) n (''fetching '' @ pageURL @ '': '' @ e)
           | TryStatus c \<Rightarrow> fetch_tries sp pageURL (attempt + 1) n (''fetching '' @ pageURL @ '': HTTP '' @ format_int c)
           | TryRead e \<Rightarrow> Inl (''reading response body: '' @ e)
           | TryBody b \<Rightarrow> Inr b))"

definition maxFetchRetries :: nat where
  "maxFetchRetries = 3"

definition fetchPage :: "'u scraper \<Rightarrow> string \<Rightarrow> string + string" where
  "fetchPage sp pageURL = fetch_tries sp pageURL 0 maxFetchRetries []"

record fileMatch =
  fm_filename :: string
  fm_version :: "int list"
  fm_fullURL :: string

definition file_less :: "fileMatch \<Rightarrow> fileMatch \<Rightarrow> bool" where
  "file_less vj vjPrev =
     (if fm_version vj \<noteq> [] \<and> fm_version vjPrev \<noteq> [] then CompareVersion (fm_version vj) (fm_version vjPrev) < 0
      else if fm_version vj \<noteq> [] then False
      else if fm_version vjPrev \<noteq> [] then True
      else fm_filename vj < fm_filename vjPrev)"

text \<open>The two loops of the insertion sort.\<close>

fun sink :: "('a \<Rightarrow> 'a \<Rightarrow> bool) \<Rightarrow> 'a list \<Rightarrow> nat \<Rightarrow> 'a list" where
  "sink lt files 0 = files"
| "sink lt files (Suc j) =
     (if \<not> lt (files ! Suc j) (files ! j) then files
      else sink lt (files[Suc j := files ! j, j := files ! Suc j]) j)"

definition insertion_sort :: "('a \<Rightarrow> 'a \<Rightarrow> bool) \<Rightarrow> 'a list \<Rightarrow> 'a list" where
  "insertion_sort lt files = fold (\<lambda>i fs. sink lt fs i) [1..<length files] files"

definition file_match :: "'u scraper \<Rightarrow> 'u \<Rightarrow> (string \<Rightarrow> bool) \<Rightarrow> string \<Rightarrow> fileMatch option" where
  "file_match sp base fileRe href =
     (if \<not> fileRe href then None
      else case sp_parse sp href of
        Inl _ \<Rightarrow> None
      | Inr linkURL \<Rightarrow>
          let resolved = sp_resolve sp base linkURL; fn = sp_base sp resolved in
          Some \<lparr>fm_filename = fn, fm_version = ParseVersion fn, fm_fullURL = sp_string sp resolved\<rparr>)"

definition scrapeISOFiles :: "'u scraper \<Rightarrow> string \<Rightarrow> (string \<Rightarrow> bool) \<Rightarrow> string + string" where
  "scrapeISOFiles sp listingURL fileRe =
     (case fetchPage sp listingURL of
        Inl e \<Rightarrow> Inl (''fetching ISO listing: '' @ e)
      | Inr body \<Rightarrow>
          (case sp_parse sp listingURL of
             Inl e \<Rightarrow> Inl (''parsing listing URL: '' @ e)
           | Inr base \<Rightarrow>
               let files = List.map_filter (file_match sp base fileRe) (sp_links sp body) in
               if files = [] then Inr [] else Inr (fm_fullURL (last (insertion_sort file_less files)))))"

definition scrapeSingleLevel :: "'u scraper \<Rightarrow> string \<Rightarrow> string \<Rightarrow> (string \<Rightarrow> bool) \<Rightarrow> string \<Rightarrow> string + string" where
  "scrapeSingleLevel sp baseURL isoPathTemplate fileRe mirrorArch =
     scrapeISOFiles sp (joinURL sp baseURL (replacePlaceholders isoPathTemplate [] mirrorArch)) fileRe"

definition version_dir :: "(string \<Rightarrow> bool) \<Rightarrow> string \<Rightarrow> (string \<times> int list) option" where
  "version_dir dirRe href =
     (if \<not> dirRe href then None
      else let clean = trim_suffix href ''/''; v = ParseVersion clean in if v = [] then None else Some (clean, v))"

fun try_dirs :: "'u scraper \<Rightarrow> string \<Rightarrow> string \<Rightarrow> (string \<Rightarrow> bool) \<Rightarrow> string \<Rightarrow> (string \<times> int list) list \<Rightarrow> string" where
  "try_dirs sp baseURL isoPathTemplate fileRe mirrorArch [] = []"
| "try_dirs sp baseURL isoPathTemplate fileRe mirrorArch (d # ds) =
     (case scrapeISOFiles sp (joinURL sp baseURL (replacePlaceholders isoPathTemplate (fst d) mirrorArch)) fileRe of
        Inl e \<Rightarrow> try_dirs sp baseURL isoPathTemplate fileRe mirrorArch ds
      | Inr result \<Rightarrow> if result \<noteq> [] then result else try_dirs sp baseURL isoPathTemplate fileRe mirrorArch ds)"

definition newer_dir :: "string \<times> int list \<Rightarrow> string \<times> int list \<Rightarrow> bool" where
  "newer_dir a b \<longleftrightarrow> CompareVersion (snd a) (snd b) > 0"

definition scrapeTwoLevel :: "'u scraper \<Rightarrow> string \<Rightarrow> string \<Rightarrow> string \<Rightarrow> (string \<Rightarrow> bool) \<Rightarrow> string \<Rightarrow> string + string" where
  "scrapeTwoLevel sp baseURL versionDirPattern isoPathTemplate fileRe mirrorArch =
     (case sp_compile sp versionDirPattern of
        Inl e \<Rightarrow> Inl (''invalid version directory pattern: '' @ e)
      | Inr dirRe \<Rightarrow>
          (case fetchPage sp baseURL of
             Inl e \<Rightarrow> Inl (''fetching version directory listing: '' @ e)
           | Inr body \<Rightarrow>
               let dirs = List.map_filter (version_dir dirRe) (sp_links sp body) in
               if dirs = [] then Inr []
               else Inr (try_dirs sp baseURL isoPathTemplate fileRe mirrorArch (sp_sort sp newer_dir dirs))))"

definition ScrapeLatestISO ::
  "'u scraper \<Rightarrow> string \<Rightarrow> string \<Rightarrow> string \<Rightarrow> string \<Rightarrow> string \<Rightarrow> string + string" where
  "ScrapeLatestISO sp baseURL versionDirPattern isoPathTemplate filenamePattern arch =
     (case sp_compile sp filenamePattern of
        Inl e \<Rightarrow> Inl (''invalid filename pattern: '' @ e)
      | Inr fileRe \<Rightarrow>
          if versionDirPattern \<noteq> []
          then scrapeTwoLevel sp baseURL versionDirPattern isoPathTemplate fileRe (MirrorArch arch)
          else scrapeSingleLevel sp baseURL isoPathTemplate fileRe (MirrorArch arch))"

section \<open>The order of versions\<close>

lemma compare_loop_zero: "compare_loop a b = 0 \<longleftrightarrow> take (min (length a) (length b)) a = take (min (length a) (length b)) b"
  by (induction a b rule: compare_loop.induct) auto

lemma CompareVersion_Cons:
  "CompareVersion (x # xs) (y # ys) = (if x < y then - 1 else if x > y then 1 else CompareVersion xs ys)"
  by (cases xs; cases ys) (auto simp: CompareVersion_def Let_def)

lemma CompareVersion_lex: "CompareVersion a b = (if a < b then - 1 else if b < a then 1 else 0)"
proof (induction a arbitrary: b)
  case Nil then show ?case by (cases b) (auto simp: CompareVersion_def)
next
  case (Cons x xs) then show ?case by (cases b) (auto simp: CompareVersion_Cons, simp_all add: CompareVersion_def)
qed

section \<open>The insertion sort\<close>

text \<open>Inserting from the right.\<close>

fun insert_rev :: "('a \<Rightarrow> 'a \<Rightarrow> bool) \<Rightarrow> 'a list \<Rightarrow> 'a \<Rightarrow> 'a list" where
  "insert_rev lt [] x = [x]"
| "insert_rev lt (y # ys) x = (if lt x y then y # insert_rev lt ys x else x # y # ys)"

lemma sink_insert: "sink lt (rev ys @ x # zs) (length ys) = rev (insert_rev lt ys x) @ zs"
proof (induction ys arbitrary: zs)
  case (Cons y ys)
  have "(rev ys @ [y, x] @ zs)[Suc (length ys) := y, length ys := x] = rev ys @ x # (y # zs)"
    by (simp add: list_update_append)
  then show ?case using Cons by (simp add: nth_append)
qed simp

lemma insert_rev_props:
  fixes key :: "'a \<Rightarrow> 'k :: linorder"
  assumes "\<And>a b. lt a b \<longleftrightarrow> key a < key b"
  shows "mset (insert_rev lt ys x) = add_mset x (mset ys)"
    and "sorted (map key (rev ys)) \<Longrightarrow> sorted (map key (rev (insert_rev lt ys x)))"
    and "filter (\<lambda>a. key a = k) (rev (insert_rev lt ys x)) = filter (\<lambda>a. key a = k) (rev ys @ [x])"
proof -
  show m: "mset (insert_rev lt ys x) = add_mset x (mset ys)" for ys by (induction ys) auto
  have s: "set (insert_rev lt ys x) = insert x (set ys)" for ys
    using m [of ys] by (metis set_mset_add_mset_insert set_mset_mset)
  show "sorted (map key (rev (insert_rev lt ys x)))" if "sorted (map key (rev ys))"
    using that by (induction ys) (auto simp: sorted_append assms s)
  show "filter (\<lambda>a. key a = k) (rev (insert_rev lt ys x)) = filter (\<lambda>a. key a = k) (rev ys @ [x])"
    by (induction ys) (auto simp: assms)
qed

lemma insertion_sort_prefix:
  fixes key :: "'a \<Rightarrow> 'k :: linorder"
  assumes lt: "\<And>a b. lt a b \<longleftrightarrow> key a < key b" and "1 \<le> n" "n \<le> length files"
  shows "fold (\<lambda>i fs. sink lt fs i) [1..<n] files = sort_key key (take n files) @ drop n files"
  using assms(2,3)
proof (induction n rule: dec_induct)
  case base then show ?case by (cases files) auto
next
  case (step n)
  let ?ys = "rev (sort_key key (take n files))"
  have n: "n < length files" using step by simp
  have d: "drop n files = files ! n # drop (Suc n) files" by (simp add: Cons_nth_drop_Suc n)
  have l: "length ?ys = n" using n by simp
  have "sink lt (sort_key key (take n files) @ files ! n # drop (Suc n) files) n = rev (insert_rev lt ?ys (files ! n)) @ drop (Suc n) files"
    using sink_insert [of lt ?ys "files ! n" "drop (Suc n) files"] l by simp
  moreover have "sort_key key (take (Suc n) files) = rev (insert_rev lt ?ys (files ! n))"
  proof (rule properties_for_sort_key)
    show "mset (rev (insert_rev lt ?ys (files ! n))) = mset (take (Suc n) files)"
      using insert_rev_props(1) [OF lt, where ys = ?ys and x = "files ! n"] n by (simp add: take_Suc_conv_app_nth)
    show "filter (\<lambda>x. key k = key x) (rev (insert_rev lt ?ys (files ! n))) = filter (\<lambda>x. key k = key x) (take (Suc n) files)" for k
      using insert_rev_props(3) [OF lt, where ys = ?ys and x = "files ! n" and k = "key k"] n
      by (simp add: take_Suc_conv_app_nth sort_key_stable eq_commute [of "key k"])
    show "sorted (map key (rev (insert_rev lt ?ys (files ! n))))"
      by (rule insert_rev_props(2) [OF lt]) simp
  qed
  ultimately show ?case using step d by simp
qed

lemma insertion_sort_eq:
  fixes key :: "'a \<Rightarrow> 'k :: linorder"
  assumes "\<And>a b. lt a b \<longleftrightarrow> key a < key b"
  shows "insertion_sort lt files = sort_key key files"
  using insertion_sort_prefix [OF assms, where n = "length files" and files = files]
  by (cases "files = []") (auto simp: insertion_sort_def Suc_le_eq)

section \<open>The newest file and the newest directory\<close>

definition file_key :: "fileMatch \<Rightarrow> bool \<times> int list \<times> string" where
  "file_key f = (fm_version f \<noteq> [], fm_version f, if fm_version f = [] then fm_filename f else [])"

lemma file_less_key: "file_less a b \<longleftrightarrow> file_key a < file_key b"
  by (auto simp: file_less_def file_key_def CompareVersion_lex less_prod_def' split: if_splits)

definition page_files :: "'u scraper \<Rightarrow> string \<Rightarrow> 'u \<Rightarrow> (string \<Rightarrow> bool) \<Rightarrow> fileMatch list" where
  "page_files sp body base fileRe = List.map_filter (file_match sp base fileRe) (sp_links sp body)"

lemma last_sort_max:
  fixes key :: "'a \<Rightarrow> 'k :: linorder"
  assumes "xs \<noteq> []"
  shows "last (sort_key key xs) \<in> set xs" "y \<in> set xs \<Longrightarrow> key y \<le> key (last (sort_key key xs))"
proof -
  have ne: "sort_key key xs \<noteq> []" using assms by (metis length_0_conv length_sort)
  then show "last (sort_key key xs) \<in> set xs" using last_in_set set_sort by metis
  have "sorted (map key (butlast (sort_key key xs) @ [last (sort_key key xs)]))" using ne by simp
  then have "\<forall>z \<in> set (butlast (sort_key key xs)). key z \<le> key (last (sort_key key xs))" by (simp add: sorted_append)
  moreover have "set xs = set (butlast (sort_key key xs) @ [last (sort_key key xs)])" using ne by simp
  ultimately show "y \<in> set xs \<Longrightarrow> key y \<le> key (last (sort_key key xs))" by auto
qed

text \<open>What \<^verbatim>\<open>sort.Slice\<close> promises: the same elements, none before a newer one.\<close>

definition sorts_newest_first :: "'u scraper \<Rightarrow> bool" where
  "sorts_newest_first sp \<longleftrightarrow> (\<forall>ds. mset (sp_sort sp newer_dir ds) = mset ds \<and> sorted_wrt (\<lambda>a b. \<not> newer_dir b a) (sp_sort sp newer_dir ds))"

definition dir_result :: "'u scraper \<Rightarrow> string \<Rightarrow> string \<Rightarrow> (string \<Rightarrow> bool) \<Rightarrow> string \<Rightarrow> string \<times> int list \<Rightarrow> string + string" where
  "dir_result sp baseURL tmpl fileRe arch d = scrapeISOFiles sp (joinURL sp baseURL (replacePlaceholders tmpl (fst d) arch)) fileRe"

definition useful :: "string + string \<Rightarrow> bool" where
  "useful r \<longleftrightarrow> (case r of Inl _ \<Rightarrow> False | Inr u \<Rightarrow> u \<noteq> [])"

lemma try_dirs_first:
  "try_dirs sp b t re a ds = (case find (\<lambda>d. useful (dir_result sp b t re a d)) ds of
     None \<Rightarrow> [] | Some d \<Rightarrow> projr (dir_result sp b t re a d))"
  by (induction ds) (auto simp: dir_result_def useful_def split: sum.splits)

lemma find_sorted_newest:
  assumes "sorted_wrt (\<lambda>a b. \<not> newer_dir b a) ds" "find P ds = Some d" "e \<in> set ds" "newer_dir e d"
  shows "\<not> P e"
proof -
  obtain i where i: "i < length ds" "d = ds ! i" "\<forall>j < i. \<not> P (ds ! j)"
    using assms(2) by (auto simp: find_Some_iff)
  obtain j where j: "j < length ds" "e = ds ! j" using assms(3) by (auto simp: in_set_conv_nth)
  have "j < i"
  proof (rule ccontr)
    assume "\<not> j < i"
    moreover have "j \<noteq> i" using assms(4) i(2) j(2) by (auto simp: newer_dir_def CompareVersion_lex)
    ultimately have "\<not> newer_dir e d" using assms(1) i(2) j by (auto simp: sorted_wrt_iff_nth_less)
    with assms(4) show False by simp
  qed
  with i(3) j(2) show ?thesis by simp
qed

section \<open>Properties\<close>

text \<open>C35: The hand-written insertion sort is a stable sort, so of the matching links of a page the one with
  the greatest version is chosen: versions are compared number by number, links without a number come
  before all others and among themselves by name.\<close>

theorem scrapeISOFiles_newest:
  assumes "fetchPage sp url = Inr body" "sp_parse sp url = Inr base" "page_files sp body base fileRe \<noteq> []"
  shows "scrapeISOFiles sp url fileRe = Inr (fm_fullURL (last (sort_key file_key (page_files sp body base fileRe)))) \<and>
    (\<forall>g \<in> set (page_files sp body base fileRe).
       CompareVersion (fm_version g) (fm_version (last (sort_key file_key (page_files sp body base fileRe)))) \<le> 0)"
proof -
  let ?fs = "page_files sp body base fileRe"
  have "file_key g \<le> file_key (last (sort_key file_key ?fs))" if "g \<in> set ?fs" for g
    by (rule last_sort_max(2) [OF assms(3) that])
  then have "CompareVersion (fm_version g) (fm_version (last (sort_key file_key ?fs))) \<le> 0" if "g \<in> set ?fs" for g
    using that by (fastforce simp: file_key_def CompareVersion_lex less_eq_prod_def split: if_splits)
  moreover have "scrapeISOFiles sp url fileRe = Inr (fm_fullURL (last (sort_key file_key ?fs)))"
    using assms insertion_sort_eq [OF file_less_key, where files = ?fs]
    by (simp add: scrapeISOFiles_def page_files_def Let_def)
  ultimately show ?thesis by simp
qed

text \<open>C2: On a mirror with a directory for each version, the image of the newest directory that has one is
  found: no newer directory has an image, and when nothing is found no directory has.\<close>

theorem scrapeTwoLevel_newest:
  assumes "sorts_newest_first sp" "sp_compile sp pat = Inr dirRe" "fetchPage sp baseURL = Inr body"
  shows "\<exists>r. scrapeTwoLevel sp baseURL pat tmpl fileRe arch = Inr r \<and>
    (let dirs = List.map_filter (version_dir dirRe) (sp_links sp body); res = dir_result sp baseURL tmpl fileRe arch in
     if \<exists>d \<in> set dirs. useful (res d)
     then \<exists>d \<in> set dirs. res d = Inr r \<and> useful (res d) \<and> (\<forall>e \<in> set dirs. newer_dir e d \<longrightarrow> \<not> useful (res e))
     else r = [])"
proof -
  let ?dirs = "List.map_filter (version_dir dirRe) (sp_links sp body)" and ?res = "dir_result sp baseURL tmpl fileRe arch"
  let ?sorted = "sp_sort sp newer_dir ?dirs" and ?r = "try_dirs sp baseURL tmpl fileRe arch (sp_sort sp newer_dir ?dirs)"
  have m: "mset ?sorted = mset ?dirs" and s: "sorted_wrt (\<lambda>a b. \<not> newer_dir b a) ?sorted"
    using assms(1) by (auto simp: sorts_newest_first_def)
  have set: "set ?sorted = set ?dirs" using m by (metis set_mset_mset)
  have "?dirs = [] \<Longrightarrow> ?r = []" using m by simp
  then have two: "scrapeTwoLevel sp baseURL pat tmpl fileRe arch = Inr ?r"
    using assms(2,3) by (simp add: scrapeTwoLevel_def Let_def)
  show ?thesis
  proof (cases "find (\<lambda>d. useful (?res d)) ?sorted")
    case None
    then have "\<forall>d \<in> set ?dirs. \<not> useful (?res d)" using set by (auto simp: find_None_iff)
    moreover have "?r = []" using None by (simp add: try_dirs_first)
    ultimately show ?thesis using two by (auto simp: Let_def)
  next
    case (Some d)
    then have d: "d \<in> set ?dirs" "useful (?res d)" using set by (auto simp: find_Some_iff)
    then have "?res d = Inr ?r" using Some by (auto simp: try_dirs_first useful_def split: sum.splits)
    moreover have "\<forall>e \<in> set ?dirs. newer_dir e d \<longrightarrow> \<not> useful (?res e)" using find_sorted_newest [OF s Some] set by blast
    ultimately show ?thesis using two d by (auto simp: Let_def)
  qed
qed

definition demo_scraper :: "string scraper" where
  "demo_scraper = \<lparr>sp_try = (\<lambda>u n. TryBody u), sp_done = (\<lambda>n. None),
     sp_links = (\<lambda>b. if b = ''m/'' then [''9/'', ''10/'', ''11/''] else if b = ''m/11/'' then [] else [''os-9.2.iso'', ''os-9.10.iso'']),
     sp_compile = (\<lambda>p. Inr (\<lambda>s. True)), sp_parse = Inr, sp_resolve = (\<lambda>b r. b @ r), sp_base = id, sp_string = id,
     sp_sort = (\<lambda>lt ds. rev (sort_key snd ds))\<rparr>"

lemma demo_links_sorts: "sorts_newest_first demo_scraper"
proof -
  have "sorted_wrt (\<lambda>a b. \<not> newer_dir b a) (rev (sort_key snd ds))" for ds
  proof -
    have "sorted_wrt (\<lambda>a b. snd a \<le> snd b) (sort_key snd ds)" using sorted_sort_key [of snd ds] by (simp add: sorted_map)
    then have "sorted_wrt (\<lambda>a b. \<not> newer_dir a b) (sort_key snd ds)"
      by (rule sorted_wrt_mono_rel [rotated]) (auto simp: newer_dir_def CompareVersion_lex)
    then show ?thesis by (simp add: sorted_wrt_rev)
  qed
  then show ?thesis by (simp add: sorts_newest_first_def demo_scraper_def)
qed

theorem scrapeISOFiles_newest_witness:
  "scrapeISOFiles demo_scraper ''m/10/'' (\<lambda>s. True) = Inr ''m/10/os-9.10.iso''"
proof -
  have f: "fetchPage demo_scraper ''m/10/'' = Inr ''m/10/''" "sp_parse demo_scraper ''m/10/'' = Inr ''m/10/''"
    "page_files demo_scraper ''m/10/'' ''m/10/'' (\<lambda>s. True) \<noteq> []"
    "last (sort_key file_key (page_files demo_scraper ''m/10/'' ''m/10/'' (\<lambda>s. True))) =
      \<lparr>fm_filename = ''m/10/os-9.10.iso'', fm_version = [10, 9, 10], fm_fullURL = ''m/10/os-9.10.iso''\<rparr>"
    by code_simp+
  then show ?thesis using scrapeISOFiles_newest [OF f(1-3)] by simp
qed

theorem scrapeTwoLevel_newest_witness:
  "\<exists>r. scrapeTwoLevel demo_scraper ''m/'' ''p'' ''{version}/'' (\<lambda>s. True) ''x'' = Inr r \<and> r = ''m/10/os-9.10.iso''"
proof -
  have f: "sp_compile demo_scraper ''p'' = Inr (\<lambda>s. True)" "fetchPage demo_scraper ''m/'' = Inr ''m/''"
    by (simp add: demo_scraper_def, code_simp)
  obtain r where "scrapeTwoLevel demo_scraper ''m/'' ''p'' ''{version}/'' (\<lambda>s. True) ''x'' = Inr r"
    using scrapeTwoLevel_newest [OF demo_links_sorts f] by blast
  moreover have "scrapeTwoLevel demo_scraper ''m/'' ''p'' ''{version}/'' (\<lambda>s. True) ''x'' = Inr ''m/10/os-9.10.iso''"
    by code_simp
  ultimately show ?thesis by simp
qed

end
