(* ===== verification/Iso_Catalog.thy ===== *)
theory Iso_Catalog
  imports Iso_Download Iso_Scrape Database
begin

text \<open>
  The catalogue of installation images and its download queue: src/internal/db/repo\_iso\_catalog.go and
  src/internal/service/iso\_catalog\_service.go, on the downloads of the theory Iso_Download and the scraper
  of the theory Iso_Scrape.

  One call runs at a time, but for CancelDownload, which may come while a download runs (\<open>ce_cancel\<close>).
  \<open>is_cancel\<close> are the entries with a download in progress (\<^verbatim>\<open>cancelFuncs\<close>); it is empty between calls, and so it
  is after a restart. A download whose context was cancelled, by CancelDownload or with the whole run, is one
  whose environment answers with \<open>Canceled\<close>; one that CancelDownload met too late may still end otherwise. The
  tickers and metrics are left out.
\<close>

section \<open>repo\_iso\_catalog.go\<close>

record iso_row =
  ic_id :: int
  ic_name :: string
  ic_distro :: string
  ic_variant :: string
  ic_arch :: string
  ic_check_url :: string
  ic_filename_pattern :: string
  ic_base_url :: string
  ic_version_dir_pattern :: string
  ic_iso_path_template :: string
  ic_current_url :: string
  ic_auto_update :: bool
  ic_interval :: int
  ic_last_checked :: "int option"
  ic_last_error :: string
  ic_status :: string
  ic_download_status :: string
  ic_sha256 :: string
  ic_created :: int
  ic_updated :: int

record iso_db =
  id_rows :: "iso_row list"
  id_seq :: int

definition iso_List :: "iso_db \<Rightarrow> iso_row list" where
  "iso_List d = sort_key (\<lambda>e. (ic_distro e, ic_arch e)) (id_rows d)"

definition iso_GetByID :: "int \<Rightarrow> iso_db \<Rightarrow> iso_row option" where
  "iso_GetByID i d = row_by ic_id (id_rows d) i"

definition iso_Create :: "int \<Rightarrow> iso_row \<Rightarrow> iso_db \<Rightarrow> iso_db \<times> int" where
  "iso_Create now e d =
     (let i = id_seq d + 1 in
      (d\<lparr>id_rows := id_rows d @ [e\<lparr>ic_id := i, ic_current_url := [], ic_last_checked := None, ic_last_error := [],
           ic_download_status := [], ic_created := now, ic_updated := now\<rparr>], id_seq := i\<rparr>, i))"

definition iso_Update :: "int \<Rightarrow> int \<Rightarrow> iso_row \<Rightarrow> iso_db \<Rightarrow> iso_db" where
  "iso_Update now i e d =
     d\<lparr>id_rows := upd_row ic_id i (\<lambda>r. r\<lparr>ic_name := ic_name e, ic_distro := ic_distro e, ic_variant := ic_variant e,
       ic_arch := ic_arch e, ic_check_url := ic_check_url e, ic_filename_pattern := ic_filename_pattern e,
       ic_base_url := ic_base_url e, ic_version_dir_pattern := ic_version_dir_pattern e,
       ic_iso_path_template := ic_iso_path_template e, ic_auto_update := ic_auto_update e, ic_interval := ic_interval e,
       ic_sha256 := ic_sha256 e, ic_updated := now\<rparr>) (id_rows d)\<rparr>"

definition iso_Delete :: "int \<Rightarrow> iso_db \<Rightarrow> iso_db" where
  "iso_Delete i d = d\<lparr>id_rows := filter (\<lambda>r. ic_id r \<noteq> i) (id_rows d)\<rparr>"

definition ListAutoUpdate :: "iso_db \<Rightarrow> iso_row list" where
  "ListAutoUpdate d = filter ic_auto_update (id_rows d)"

definition UpdateAfterCheck :: "int \<Rightarrow> int \<Rightarrow> string \<Rightarrow> string \<Rightarrow> string \<Rightarrow> iso_db \<Rightarrow> iso_db" where
  "UpdateAfterCheck now i currentURL status lastError d =
     d\<lparr>id_rows := upd_row ic_id i (\<lambda>r. r\<lparr>ic_current_url := currentURL, ic_status := status, ic_last_error := lastError,
       ic_last_checked := Some now, ic_updated := now\<rparr>) (id_rows d)\<rparr>"

definition queued :: "iso_row \<Rightarrow> bool" where
  "queued r \<longleftrightarrow> ic_download_status r = ''pending'' \<or> ic_download_status r = ''downloading''"

definition ListDownloadQueue :: "iso_db \<Rightarrow> iso_row list" where
  "ListDownloadQueue d = sort_key ic_id (filter queued (id_rows d))"

definition UpdateDownloadStatus :: "int \<Rightarrow> int \<Rightarrow> string \<Rightarrow> iso_db \<Rightarrow> iso_db" where
  "UpdateDownloadStatus now i status d =
     d\<lparr>id_rows := upd_row ic_id i (\<lambda>r. r\<lparr>ic_download_status := status, ic_updated := now\<rparr>) (id_rows d)\<rparr>"

definition ListByDownloadStatuses :: "string list \<Rightarrow> iso_db \<Rightarrow> iso_row list" where
  "ListByDownloadStatuses ss d = (if ss = [] then [] else sort_key ic_id (filter (\<lambda>r. ic_download_status r \<in> set ss) (id_rows d)))"

section \<open>The service\<close>

record iso_svc =
  is_db :: iso_db
  is_disk :: iso_disk
  is_cancel :: "int list"

record 'u catalog_env =
  ce_iso :: iso_env
  ce_scraper :: "'u scraper"
  ce_now :: int
  ce_cancel :: "int \<Rightarrow> bool"

fun ctx_text :: "ctx_err \<Rightarrow> string" where
  "ctx_text Canceled = ''context canceled''"
| "ctx_text DeadlineExceeded = ''context deadline exceeded''"
| "ctx_text (OtherErr e) = e"

fun iso_text :: "iso_err \<Rightarrow> string" where
  "iso_text (IsoMsg t) = t"
| "iso_text (IsoWrap t e) = t @ '': '' @ ctx_text e"
| "iso_text (InsufficientStorage avail needed) =
     ''insufficient disk space: '' @ format_int avail @ '' bytes available, need '' @ format_int needed @ '' bytes (with 10% margin)''"

datatype catalog_err = CatMsg string | CatIso iso_err

definition entry_not_found :: "int \<Rightarrow> catalog_err" where
  "entry_not_found i = CatMsg (''catalog entry '' @ format_int i @ '' not found'')"

definition with_db :: "(iso_db \<Rightarrow> iso_db) \<Rightarrow> iso_svc \<Rightarrow> iso_svc" where
  "with_db f s = s\<lparr>is_db := f (is_db s)\<rparr>"

definition ListCatalog :: "iso_svc \<Rightarrow> iso_row list" where
  "ListCatalog s = iso_List (is_db s)"

definition GetCatalogEntry :: "int \<Rightarrow> iso_svc \<Rightarrow> iso_row option" where
  "GetCatalogEntry i s = iso_GetByID i (is_db s)"

record create_request =
  cq_Name :: string
  cq_Distro :: string
  cq_Variant :: string
  cq_Arch :: string
  cq_CheckURL :: string
  cq_FilenamePattern :: string
  cq_BaseURL :: string
  cq_VersionDirPattern :: string
  cq_ISOPathTemplate :: string
  cq_AutoUpdate :: bool
  cq_CheckIntervalHours :: int
  cq_SHA256 :: string

definition CreateCatalogEntry :: "int \<Rightarrow> create_request \<Rightarrow> iso_svc \<Rightarrow> iso_svc \<times> (catalog_err + int)" where
  "CreateCatalogEntry now req s =
     (if cq_Name req = [] \<or> cq_FilenamePattern req = [] then (s, Inl (CatMsg ''name and filename_pattern are required''))
      else if cq_CheckURL req = [] \<and> cq_BaseURL req = [] then (s, Inl (CatMsg ''either check_url or base_url is required''))
      else case iso_Create now
          \<lparr>ic_id = 0, ic_name = cq_Name req, ic_distro = cq_Distro req, ic_variant = cq_Variant req,
           ic_arch = (if cq_Arch req = [] then ''amd64'' else cq_Arch req), ic_check_url = cq_CheckURL req,
           ic_filename_pattern = cq_FilenamePattern req, ic_base_url = cq_BaseURL req,
           ic_version_dir_pattern = cq_VersionDirPattern req, ic_iso_path_template = cq_ISOPathTemplate req, ic_current_url = [],
           ic_auto_update = cq_AutoUpdate req, ic_interval = (if cq_CheckIntervalHours req = 0 then 24 else cq_CheckIntervalHours req),
           ic_last_checked = None, ic_last_error = [], ic_status = ''available'', ic_download_status = [], ic_sha256 = cq_SHA256 req,
           ic_created = 0, ic_updated = 0\<rparr> (is_db s) of
        (d, i) \<Rightarrow> (s\<lparr>is_db := d\<rparr>, Inr i))"

record update_request =
  uq_Name :: "string option"
  uq_Distro :: "string option"
  uq_Variant :: "string option"
  uq_Arch :: "string option"
  uq_CheckURL :: "string option"
  uq_FilenamePattern :: "string option"
  uq_BaseURL :: "string option"
  uq_VersionDirPattern :: "string option"
  uq_ISOPathTemplate :: "string option"
  uq_AutoUpdate :: "bool option"
  uq_CheckIntervalHours :: "int option"
  uq_SHA256 :: "string option"

definition given :: "'a option \<Rightarrow> 'a \<Rightarrow> 'a" where
  "given v old = (case v of None \<Rightarrow> old | Some x \<Rightarrow> x)"

definition UpdateCatalogEntry :: "int \<Rightarrow> int \<Rightarrow> update_request \<Rightarrow> iso_svc \<Rightarrow> iso_svc \<times> (catalog_err + unit)" where
  "UpdateCatalogEntry now i req s =
     (case iso_GetByID i (is_db s) of
        None \<Rightarrow> (s, Inl (entry_not_found i))
      | Some e \<Rightarrow> (with_db (iso_Update now i (e\<lparr>ic_name := given (uq_Name req) (ic_name e),
           ic_distro := given (uq_Distro req) (ic_distro e), ic_variant := given (uq_Variant req) (ic_variant e),
           ic_arch := given (uq_Arch req) (ic_arch e), ic_check_url := given (uq_CheckURL req) (ic_check_url e),
           ic_filename_pattern := given (uq_FilenamePattern req) (ic_filename_pattern e),
           ic_base_url := given (uq_BaseURL req) (ic_base_url e),
           ic_version_dir_pattern := given (uq_VersionDirPattern req) (ic_version_dir_pattern e),
           ic_iso_path_template := given (uq_ISOPathTemplate req) (ic_iso_path_template e),
           ic_auto_update := given (uq_AutoUpdate req) (ic_auto_update e),
           ic_interval := given (uq_CheckIntervalHours req) (ic_interval e),
           ic_sha256 := given (uq_SHA256 req) (ic_sha256 e)\<rparr>)) s, Inr ()))"

definition DeleteCatalogEntry :: "int \<Rightarrow> iso_svc \<Rightarrow> iso_svc" where
  "DeleteCatalogEntry i s = with_db (iso_Delete i) s"

text \<open>The result is the URL that was found and the status.\<close>

definition CheckVersion :: "'u catalog_env \<Rightarrow> int \<Rightarrow> iso_svc \<Rightarrow> iso_svc \<times> (catalog_err + string \<times> string)" where
  "CheckVersion env i s =
     (case iso_GetByID i (is_db s) of
        None \<Rightarrow> (s, Inl (entry_not_found i))
      | Some e \<Rightarrow>
          let baseURL = (if ic_base_url e = [] then ic_check_url e else ic_base_url e) in
          case ScrapeLatestISO (ce_scraper env) baseURL (ic_version_dir_pattern e) (ic_iso_path_template e) (ic_filename_pattern e) (ic_arch e) of
            Inl er \<Rightarrow> (with_db (UpdateAfterCheck (ce_now env) i [] ''error'' er) s, Inl (CatMsg er))
          | Inr foundURL \<Rightarrow>
              if foundURL = [] then
                (with_db (UpdateAfterCheck (ce_now env) i (ic_current_url e) ''no_match'' []) s, Inr ([], ''no_match''))
              else let status = (if foundURL \<noteq> ic_current_url e then ''new_version'' else ''up_to_date'') in
                (with_db (UpdateAfterCheck (ce_now env) i foundURL status []) s, Inr (foundURL, status)))"

definition iso_filename :: "iso_row \<Rightarrow> string" where
  "iso_filename e = path_base (ic_current_url e)"

definition CancelDownload :: "int \<Rightarrow> int \<Rightarrow> iso_svc \<Rightarrow> iso_svc \<times> (catalog_err + unit)" where
  "CancelDownload now i s =
     (case iso_GetByID i (is_db s) of
        None \<Rightarrow> (s, Inl (entry_not_found i))
      | Some e \<Rightarrow>
          if ic_download_status e \<noteq> ''downloading''
          then (s, Inl (CatMsg (''catalog entry '' @ format_int i @ '' is not currently downloading (status: '' @ ic_download_status e @ '')'')))
          else if i \<notin> set (is_cancel s)
          then (s, Inl (CatMsg (''no active download found for catalog entry '' @ format_int i)))
          else (with_db (UpdateDownloadStatus now i ''pending'') (s\<lparr>is_cancel := removeAll i (is_cancel s)\<rparr>), Inr ()))"

text \<open>A download with its cancel function registered. While it runs, CancelDownload may be called for its entry, as
  \<open>ce_cancel\<close> says.\<close>

definition run_download :: "'u catalog_env \<Rightarrow> iso_row \<Rightarrow> iso_svc \<Rightarrow> iso_svc \<times> (iso_err + unit)" where
  "run_download env e s =
     (let s0 = s\<lparr>is_cancel := List.insert (ic_id e) (is_cancel s)\<rparr>;
          s1 = (if ce_cancel env (ic_id e) then fst (CancelDownload (ce_now env) (ic_id e) s0) else s0) in
      case DownloadISO (ce_iso env) (iso_filename e) (ic_current_url e) (ic_sha256 e) (is_disk s1) of
        (fs, r) \<Rightarrow> (s1\<lparr>is_disk := fs, is_cancel := removeAll (ic_id e) (is_cancel s1)\<rparr>, r))"

definition DownloadFromCatalog :: "'u catalog_env \<Rightarrow> int \<Rightarrow> iso_svc \<Rightarrow> iso_svc \<times> (catalog_err + unit)" where
  "DownloadFromCatalog env i s =
     (case iso_GetByID i (is_db s) of
        None \<Rightarrow> (s, Inl (entry_not_found i))
      | Some e \<Rightarrow>
          if ic_current_url e = []
          then (s, Inl (CatMsg (''no ISO URL available for entry '' @ format_int i @ '', run version check first'')))
          else (case run_download env e s of
              (s1, Inl er) \<Rightarrow> (with_db (UpdateAfterCheck (ce_now env) i (ic_current_url e) ''error'' (iso_text er)) s1, Inl (CatIso er))
            | (s1, Inr _) \<Rightarrow> (with_db (UpdateAfterCheck (ce_now env) i (ic_current_url e) ''downloaded'' []) s1, Inr ())))"

definition RetryCatalogDownload :: "int \<Rightarrow> int \<Rightarrow> iso_svc \<Rightarrow> iso_svc \<times> (catalog_err + unit)" where
  "RetryCatalogDownload now i s =
     (case iso_GetByID i (is_db s) of
        None \<Rightarrow> (s, Inl (entry_not_found i))
      | Some e \<Rightarrow>
          if ic_download_status e \<noteq> ''error''
          then (s, Inl (CatMsg (''catalog entry '' @ format_int i @ '' has status '' @ [CHR 0x22] @ ic_download_status e @ [CHR 0x22] @
                  '', expected '' @ [CHR 0x27] @ ''error'' @ [CHR 0x27])))
          else (with_db (UpdateDownloadStatus now i ''pending'') s, Inr ()))"

text \<open>One entry of the automatic check. The status of the download is the one read at the start.\<close>

definition auto_entry :: "'u catalog_env \<Rightarrow> iso_row \<Rightarrow> iso_svc \<Rightarrow> iso_svc" where
  "auto_entry env e s =
     (case CheckVersion env (ic_id e) s of
        (s1, Inl _) \<Rightarrow> s1
      | (s1, Inr (foundURL, status)) \<Rightarrow>
          if foundURL \<noteq> [] \<and> (status = ''new_version'' \<or> (status = ''up_to_date'' \<and> ic_download_status e \<noteq> ''downloaded''))
          then fst (DownloadFromCatalog env (ic_id e) s1) else s1)"

definition CheckAllAutoUpdate :: "'u catalog_env \<Rightarrow> iso_svc \<Rightarrow> iso_svc" where
  "CheckAllAutoUpdate env s = fold (auto_entry env) (ListAutoUpdate (is_db s)) s"

definition QueueDownloadAll :: "int \<Rightarrow> iso_svc \<Rightarrow> iso_svc" where
  "QueueDownloadAll now s =
     fold (\<lambda>e s. if ic_current_url e = [] \<or> ic_download_status e = ''downloading'' \<or> ic_download_status e = ''downloaded'' then s
                 else with_db (UpdateDownloadStatus now (ic_id e) ''pending'') s) (iso_List (is_db s)) s"

definition stale_checks :: "iso_row list \<Rightarrow> stale_check list" where
  "stale_checks es = map (\<lambda>e. \<lparr>sc_ID = ic_id e, sc_Filename = iso_filename e, sc_Status = ic_download_status e\<rparr>)
     (filter (\<lambda>e. ic_download_status e = ''downloading'' \<and> ic_current_url e \<noteq> []) es)"

text \<open>The entries that are left in the queue after stale ones were reset.\<close>

definition reset_stale :: "'u catalog_env \<Rightarrow> iso_svc \<Rightarrow> iso_svc \<times> iso_row list" where
  "reset_stale env s =
     (let entries = ListDownloadQueue (is_db s) in
      if stale_checks entries = [] then (s, entries)
      else case ResetStaleDownloads (ce_iso env) (\<lambda>i st d. (UpdateDownloadStatus (ce_now env) i st d, Inr ()))
               (stale_checks entries) 0 (is_disk s) (is_db s) of
        (fs, d, reset, err) \<Rightarrow>
          (s\<lparr>is_disk := fs, is_db := d\<rparr>, if reset > 0 then ListDownloadQueue d else entries))"

definition process_entry :: "'u catalog_env \<Rightarrow> iso_row \<Rightarrow> iso_svc \<Rightarrow> iso_svc" where
  "process_entry env e s =
     (if ic_download_status e \<noteq> ''pending'' then s
      else let s1 = with_db (UpdateDownloadStatus (ce_now env) (ic_id e) ''downloading'') s in
        case run_download env e s1 of
          (s2, Inl er) \<Rightarrow>
            if is_canceled er then s2
            else with_db (UpdateAfterCheck (ce_now env) (ic_id e) (ic_current_url e) ''error'' (iso_text er) \<circ>
                   UpdateDownloadStatus (ce_now env) (ic_id e) ''error'') s2
        | (s2, Inr _) \<Rightarrow>
            with_db (UpdateAfterCheck (ce_now env) (ic_id e) (ic_current_url e) ''downloaded'' [] \<circ>
              UpdateDownloadStatus (ce_now env) (ic_id e) ''downloaded'') s2)"

definition ProcessQueue :: "'u catalog_env \<Rightarrow> iso_svc \<Rightarrow> iso_svc" where
  "ProcessQueue env s = (case reset_stale env s of (s1, entries) \<Rightarrow> fold (process_entry env) entries s1)"

definition shown_status :: "iso_row \<Rightarrow> string" where
  "shown_status e = (if ic_download_status e = [] then if ic_current_url e \<noteq> [] then ''available'' else ''pending'' else ic_download_status e)"

record iso_queue_stats =
  qs_Pending :: nat
  qs_Downloading :: nat
  qs_Downloaded :: nat
  qs_Available :: nat
  qs_Error :: nat
  qs_Total :: nat

definition GetQueueStats :: "iso_svc \<Rightarrow> iso_queue_stats" where
  "GetQueueStats s =
     (let n = (\<lambda>st. length (filter (\<lambda>e. shown_status e = st) (iso_List (is_db s)))) in
      \<lparr>qs_Pending = n ''pending'', qs_Downloading = n ''downloading'', qs_Downloaded = n ''downloaded'',
       qs_Available = n ''available'', qs_Error = n ''error'',
       qs_Total = n ''pending'' + n ''downloading'' + n ''downloaded'' + n ''available'' + n ''error''\<rparr>)"

record queue_item =
  qi_ID :: int
  qi_Name :: string
  qi_Distro :: string
  qi_Arch :: string
  qi_CurrentURL :: string
  qi_DownloadStatus :: string
  qi_Status :: string

definition GetQueueList :: "iso_svc \<Rightarrow> queue_item list" where
  "GetQueueList s = map (\<lambda>e. \<lparr>qi_ID = ic_id e, qi_Name = ic_name e, qi_Distro = ic_distro e, qi_Arch = ic_arch e,
     qi_CurrentURL = ic_current_url e, qi_DownloadStatus = shown_status e, qi_Status = ic_status e\<rparr>) (iso_List (is_db s))"

section \<open>Addresses of the entries\<close>

text \<open>What a step of the queue never changes: the ids and the URLs of the entries.\<close>

definition addresses :: "iso_row list \<Rightarrow> (int \<times> string) list" where
  "addresses rows = map (\<lambda>r. (ic_id r, ic_current_url r)) rows"

definition iso_paths :: "string \<Rightarrow> string \<Rightarrow> string set" where
  "iso_paths dir url = {path_join [dir, path_base url], path_join [dir, path_base url] @ ''.tmp''}"

text \<open>Ids are keys, and no two entries write to the same files.\<close>

definition apart :: "string \<Rightarrow> iso_row list \<Rightarrow> bool" where
  "apart dir rows \<longleftrightarrow> distinct (map ic_id rows) \<and>
     (\<forall>r\<in>set rows. \<forall>q\<in>set rows. ic_id r \<noteq> ic_id q \<longrightarrow> iso_paths dir (ic_current_url r) \<inter> iso_paths dir (ic_current_url q) = {})"

lemma ids_addresses: "map ic_id rows = map fst (addresses rows)"
  by (simp add: addresses_def)

lemma in_addresses: "r \<in> set rows \<Longrightarrow> (ic_id r, ic_current_url r) \<in> set (addresses rows)"
  by (auto simp: addresses_def)

lemma addresses_in: "(i, u) \<in> set (addresses rows) \<Longrightarrow> \<exists>r\<in>set rows. ic_id r = i \<and> ic_current_url r = u"
  by (auto simp: addresses_def)

lemma apart_addresses:
  "apart dir rows \<longleftrightarrow> distinct (map fst (addresses rows)) \<and>
     (\<forall>a\<in>set (addresses rows). \<forall>b\<in>set (addresses rows). fst a \<noteq> fst b \<longrightarrow> iso_paths dir (snd a) \<inter> iso_paths dir (snd b) = {})"
  by (simp add: apart_def addresses_def comp_def)

lemma apart_cong: "addresses rows' = addresses rows \<Longrightarrow> apart dir rows' = apart dir rows"
  by (simp add: apart_addresses)

lemma same_url:
  assumes "apart dir rows" "addresses rows' = addresses rows" "r \<in> set rows" "q \<in> set rows'" "ic_id r = ic_id q"
  shows "ic_current_url r = ic_current_url q"
proof -
  have "(ic_id q, ic_current_url q) \<in> set (addresses rows)" using in_addresses [OF assms(4)] assms(2) by simp
  with assms(1,3,5) in_addresses [OF assms(3)] show ?thesis by (metis apart_addresses eq_key_imp_eq_value)
qed


lemma paths_iso: "finalPath env (iso_filename e) \<in> iso_paths (ie_dir env) (ic_current_url e)"
  "tempPath env (iso_filename e) \<in> iso_paths (ie_dir env) (ic_current_url e)"
  by (simp_all add: iso_paths_def finalPath_def tempPath_def iso_filename_def)

lemma addresses_UpdateDownloadStatus [simp]: "addresses (id_rows (UpdateDownloadStatus now i st d)) = addresses (id_rows d)"
  by (simp add: UpdateDownloadStatus_def addresses_def)

lemma addresses_UpdateAfterCheck:
  assumes "\<And>r. r \<in> set (id_rows d) \<Longrightarrow> ic_id r = i \<Longrightarrow> ic_current_url r = url"
  shows "addresses (id_rows (UpdateAfterCheck now i url st er d)) = addresses (id_rows d)"
  using assms by (auto simp: UpdateAfterCheck_def addresses_def upd_row_def)

section \<open>One entry of the queue\<close>

lemma DownloadISO_only_iso: "only_iso env f fs (fst (DownloadISO env f url sha fs))"
  by (simp add: DownloadISO_def Let_def resume_only_iso fresh_only_iso split: sum.splits option.splits)

lemma only_iso_apart:
  assumes "only_iso env (iso_filename e) fs fs'" "iso_paths (ie_dir env) (ic_current_url r) \<inter> iso_paths (ie_dir env) (ic_current_url e) = {}"
    "p \<in> iso_paths (ie_dir env) (ic_current_url r)"
  shows "fs' p = fs p"
proof -
  have "p \<noteq> finalPath env (iso_filename e)" "p \<noteq> tempPath env (iso_filename e)"
    using assms(2,3) paths_iso [of env e] by (metis disjoint_iff)+
  with assms(1) show ?thesis by (simp add: only_iso_def)
qed

lemma copy_ok_final:
  assumes "copy_iso env f sha resp n base fs = (fs', Inr ())"
  shows "fs' (finalPath env f) \<noteq> None"
  using assms by (auto simp: copy_iso_def finish_iso_def Let_def split: option.splits if_splits)

lemma DownloadISO_ok_final:
  assumes "DownloadISO env f url sha fs = (fs', Inr ())"
  shows "fs' (finalPath env f) \<noteq> None"
  using assms copy_ok_final [of env f sha]
  by (simp add: DownloadISO_def resume_iso_def fresh_iso_def Let_def split: sum.splits option.splits if_splits)

lemma CancelDownload_facts:
  "is_db (fst (CancelDownload now i s)) = is_db s \<or> is_db (fst (CancelDownload now i s)) = UpdateDownloadStatus now i ''pending'' (is_db s)"
  "is_cancel (fst (CancelDownload now i s)) = is_cancel s \<or> is_cancel (fst (CancelDownload now i s)) = removeAll i (is_cancel s)"
  "is_disk (fst (CancelDownload now i s)) = is_disk s"
  by (auto simp: CancelDownload_def with_db_def split: option.split)

lemma run_download_facts:
  assumes "run_download env e s = (s', r)"
  shows "is_db s' = is_db s \<or> ce_cancel env (ic_id e) \<and> is_db s' = UpdateDownloadStatus (ce_now env) (ic_id e) ''pending'' (is_db s)"
    "is_cancel s' = removeAll (ic_id e) (is_cancel s)" "only_iso (ce_iso env) (iso_filename e) (is_disk s) (is_disk s')"
    "r = Inr () \<Longrightarrow> is_disk s' (finalPath (ce_iso env) (iso_filename e)) \<noteq> None"
proof -
  let ?s0 = "s\<lparr>is_cancel := List.insert (ic_id e) (is_cancel s)\<rparr>"
  let ?s1 = "if ce_cancel env (ic_id e) then fst (CancelDownload (ce_now env) (ic_id e) ?s0) else ?s0"
  note c = CancelDownload_facts [where now = "ce_now env" and i = "ic_id e" and s = ?s0]
  have disk: "is_disk ?s1 = is_disk s" using c(3) by simp
  obtain fs q where d: "DownloadISO (ce_iso env) (iso_filename e) (ic_current_url e) (ic_sha256 e) (is_disk s) = (fs, q)"
    by (cases "DownloadISO (ce_iso env) (iso_filename e) (ic_current_url e) (ic_sha256 e) (is_disk s)")
  have s: "s' = ?s1\<lparr>is_disk := fs, is_cancel := removeAll (ic_id e) (is_cancel ?s1)\<rparr>" "r = q"
    using assms unfolding run_download_def Let_def disk d by auto
  show "is_db s' = is_db s \<or> ce_cancel env (ic_id e) \<and> is_db s' = UpdateDownloadStatus (ce_now env) (ic_id e) ''pending'' (is_db s)"
    using s(1) c(1) by (auto split: if_splits)
  show "is_cancel s' = removeAll (ic_id e) (is_cancel s)"
    using s(1) c(2) by (auto simp: List.insert_def split: if_splits)
  have "is_disk s' = fs" using s(1) by simp
  then show "only_iso (ce_iso env) (iso_filename e) (is_disk s) (is_disk s')"
    using DownloadISO_only_iso [of "ce_iso env" "iso_filename e" "is_disk s" "ic_current_url e" "ic_sha256 e"] d by simp
  show "r = Inr () \<Longrightarrow> is_disk s' (finalPath (ce_iso env) (iso_filename e)) \<noteq> None"
    using DownloadISO_ok_final [of "ce_iso env" "iso_filename e" "ic_current_url e" "ic_sha256 e" "is_disk s" fs] d s(2) \<open>is_disk s' = fs\<close> by simp
qed

text \<open>What the step does to a row: rows of other entries stay, the one of a pending entry leaves that state unless
  CancelDownload put it back.\<close>

lemma process_entry_rows:
  assumes p: "ic_download_status e = ''pending''" and u: "\<forall>r\<in>set (id_rows (is_db s)). ic_id r = ic_id e \<longrightarrow> ic_current_url r = ic_current_url e"
  shows "addresses (id_rows (is_db (process_entry env e s))) = addresses (id_rows (is_db s))"
    "is_cancel (process_entry env e s) = removeAll (ic_id e) (is_cancel s)"
    "only_iso (ce_iso env) (iso_filename e) (is_disk s) (is_disk (process_entry env e s))"
    "r \<in> set (id_rows (is_db (process_entry env e s))) \<Longrightarrow> ic_id r \<noteq> ic_id e \<Longrightarrow> r \<in> set (id_rows (is_db s))"
    "r \<in> set (id_rows (is_db (process_entry env e s))) \<Longrightarrow> ic_id r = ic_id e \<Longrightarrow> (ic_download_status r = ''pending'' \<longrightarrow> ce_cancel env (ic_id e)) \<and>
       (ic_download_status r = ''downloaded'' \<longrightarrow> is_disk (process_entry env e s) (finalPath (ce_iso env) (iso_filename e)) \<noteq> None)"
proof -
  let ?s1 = "with_db (UpdateDownloadStatus (ce_now env) (ic_id e) ''downloading'') s"
  obtain s2 q where d: "run_download env e ?s1 = (s2, q)" by (cases "run_download env e ?s1")
  note f = run_download_facts [OF d]
  define w where "w = (if is_db s2 = is_db ?s1 then ''downloading'' else ''pending'')"
  have w: "is_db s2 = UpdateDownloadStatus (ce_now env) (ic_id e) w (is_db s)" "w = ''pending'' \<longrightarrow> ce_cancel env (ic_id e)"
    "w = ''downloading'' \<or> w = ''pending''"
    using f(1) by (auto simp: w_def with_db_def UpdateDownloadStatus_def upd_row_def)
  define st where "st = (case q of Inl er \<Rightarrow> if is_canceled er then w else ''error'' | Inr _ \<Rightarrow> ''downloaded'')"
  define g :: "iso_row \<Rightarrow> iso_row" where "g r = (if ic_id r = ic_id e then
      (case q of Inl er \<Rightarrow> if is_canceled er then r\<lparr>ic_download_status := w, ic_updated := ce_now env\<rparr>
         else r\<lparr>ic_download_status := ''error'', ic_current_url := ic_current_url e, ic_status := ''error'', ic_last_error := iso_text er,
           ic_last_checked := Some (ce_now env), ic_updated := ce_now env\<rparr>
       | Inr _ \<Rightarrow> r\<lparr>ic_download_status := ''downloaded'', ic_current_url := ic_current_url e, ic_status := ''downloaded'', ic_last_error := [],
           ic_last_checked := Some (ce_now env), ic_updated := ce_now env\<rparr>) else r)" for r
  have e: "process_entry env e s = (case q of Inl er \<Rightarrow> if is_canceled er then s2
            else with_db (UpdateAfterCheck (ce_now env) (ic_id e) (ic_current_url e) ''error'' (iso_text er) \<circ>
                   UpdateDownloadStatus (ce_now env) (ic_id e) ''error'') s2
        | Inr _ \<Rightarrow> with_db (UpdateAfterCheck (ce_now env) (ic_id e) (ic_current_url e) ''downloaded'' [] \<circ>
              UpdateDownloadStatus (ce_now env) (ic_id e) ''downloaded'') s2)"
    using p d by (simp add: process_entry_def split: sum.split)
  have rows: "id_rows (is_db (process_entry env e s)) = map g (id_rows (is_db s))"
    using w(1) unfolding e
    by (auto simp: with_db_def UpdateAfterCheck_def UpdateDownloadStatus_def upd_row_def g_def split: sum.splits)
  have rest: "is_cancel (process_entry env e s) = is_cancel s2" "is_disk (process_entry env e s) = is_disk s2"
    unfolding e by (simp_all add: with_db_def split: sum.splits)
  have g: "ic_id (g r) = ic_id r" "ic_id r \<noteq> ic_id e \<Longrightarrow> g r = r" "ic_id r = ic_id e \<Longrightarrow> ic_download_status (g r) = st" for r
    by (simp_all add: g_def st_def split: sum.split)
  have url: "ic_current_url (g r) = ic_current_url r" if "r \<in> set (id_rows (is_db s))" for r
    using bspec [OF u that] by (simp add: g_def split: sum.split)
  show "addresses (id_rows (is_db (process_entry env e s))) = addresses (id_rows (is_db s))"
    by (simp add: rows addresses_def g(1) url)
  show "is_cancel (process_entry env e s) = removeAll (ic_id e) (is_cancel s)"
    using f(2) by (simp add: rest with_db_def)
  show "only_iso (ce_iso env) (iso_filename e) (is_disk s) (is_disk (process_entry env e s))"
    using f(3) by (simp add: rest with_db_def)
  show "r \<in> set (id_rows (is_db (process_entry env e s))) \<Longrightarrow> ic_id r \<noteq> ic_id e \<Longrightarrow> r \<in> set (id_rows (is_db s))"
    using g(1,2) by (auto simp: rows)
  assume "r \<in> set (id_rows (is_db (process_entry env e s)))" "ic_id r = ic_id e"
  then have "ic_download_status r = st" using g(1,3) by (auto simp: rows)
  then show "(ic_download_status r = ''pending'' \<longrightarrow> ce_cancel env (ic_id e)) \<and>
       (ic_download_status r = ''downloaded'' \<longrightarrow> is_disk (process_entry env e s) (finalPath (ce_iso env) (iso_filename e)) \<noteq> None)"
    using f(4) w(2,3) by (cases q) (auto simp: st_def rest split: if_splits)
qed

section \<open>The queue\<close>

text \<open>What holds between the steps: the rows that count as downloaded have their file, every pending row has an
  entry to come or was cancelled in this run, and the addresses are those the run has begun with.\<close>

definition downloads_there :: "string \<Rightarrow> iso_svc \<Rightarrow> bool" where
  "downloads_there dir s \<longleftrightarrow> (\<forall>r\<in>set (id_rows (is_db s)). ic_download_status r = ''downloaded'' \<longrightarrow>
     is_disk s (path_join [dir, iso_filename r]) \<noteq> None)"




text \<open>The reset of stale downloads.\<close>

definition mark :: "int \<Rightarrow> int \<Rightarrow> string \<Rightarrow> iso_db \<Rightarrow> iso_db \<times> (string + unit)" where
  "mark now i st d = (UpdateDownloadStatus now i st d, Inr ())"

definition check_of :: "iso_row \<Rightarrow> stale_check" where
  "check_of e = \<lparr>sc_ID = ic_id e, sc_Filename = iso_filename e, sc_Status = ic_download_status e\<rparr>"

lemma UpdateDownloadStatus_rows:
  "r \<in> set (id_rows (UpdateDownloadStatus now i st d)) \<Longrightarrow>
     if ic_id r = i then ic_download_status r = st else r \<in> set (id_rows d)"
  by (auto simp: UpdateDownloadStatus_def upd_row_def split: if_splits)

definition present :: "iso_disk \<Rightarrow> string \<Rightarrow> bool" where
  "present fs p \<longleftrightarrow> (case fs p of Some b \<Rightarrow> length b > 0 | None \<Rightarrow> False)"

lemma reset_cases:
  "ResetStaleDownloads env (mark now) (check_of e # cs) n fs d =
    (if ic_download_status e \<noteq> ''downloading'' then ResetStaleDownloads env (mark now) cs n fs d
     else if present fs (finalPath env (iso_filename e)) then
       ResetStaleDownloads env (mark now) cs (Suc n) (fs(tempPath env (iso_filename e) := None)) (UpdateDownloadStatus now (ic_id e) ''downloaded'' d)
     else if fs (tempPath env (iso_filename e)) = None then
       ResetStaleDownloads env (mark now) cs (Suc n) fs (UpdateDownloadStatus now (ic_id e) ''pending'' d)
     else ResetStaleDownloads env (mark now) cs n fs d)"
  by (simp add: check_of_def mark_def present_def Let_def)


lemma stale_checks_eq: "stale_checks es = map check_of (filter (\<lambda>e. ic_download_status e = ''downloading'' \<and> ic_current_url e \<noteq> []) es)"
  by (simp add: stale_checks_def check_of_def)


section \<open>Properties\<close>


text \<open>The steps of the queue: a run of the processor, everything queued, a retry, a cancellation.\<close>

datatype 'u queue_op = RunQueue "'u catalog_env" | QueueAll int | Retry int int | Cancel int int

fun queue_step :: "'u queue_op \<Rightarrow> iso_svc \<Rightarrow> iso_svc" where
  "queue_step (RunQueue env) s = ProcessQueue env s"
| "queue_step (QueueAll now) s = QueueDownloadAll now s"
| "queue_step (Retry now i) s = fst (RetryCatalogDownload now i s)"
| "queue_step (Cancel now i) s = fst (CancelDownload now i s)"

fun in_dir :: "string \<Rightarrow> 'u queue_op \<Rightarrow> bool" where
  "in_dir dir (RunQueue env) \<longleftrightarrow> ie_dir (ce_iso env) = dir"
| "in_dir dir _ \<longleftrightarrow> True"

text \<open>An entry that was being downloaded when the program ended: no download is registered for it, its target
  is not there and its temporary file is.\<close>

definition interrupted :: "string \<Rightarrow> iso_row \<Rightarrow> iso_svc \<Rightarrow> bool" where
  "interrupted dir e s \<longleftrightarrow>
     (\<forall>r\<in>set (id_rows (is_db s)). ic_id r = ic_id e \<longrightarrow> ic_download_status r = ''downloading'') \<and> ic_id e \<notin> set (is_cancel s) \<and>
     \<not> present (is_disk s) (path_join [dir, iso_filename e]) \<and> is_disk s (path_join [dir, iso_filename e] @ ''.tmp'') \<noteq> None"

lemma present_cong: "fs' p = fs p \<Longrightarrow> present fs' p = present fs p"
  by (simp add: present_def)

lemma interrupted_process:
  assumes a: "apart (ie_dir (ce_iso env)) rows" "addresses (id_rows (is_db s)) = addresses rows" "e \<in> set rows" "q \<in> set rows"
    and i: "interrupted (ie_dir (ce_iso env)) e s" and q: "ic_id q = ic_id e \<Longrightarrow> ic_download_status q = ''downloading''"
  shows "interrupted (ie_dir (ce_iso env)) e (process_entry env q s) \<and> addresses (id_rows (is_db (process_entry env q s))) = addresses rows"
proof (cases "ic_download_status q = ''pending''")
  case False
  then show ?thesis using a(2) i by (simp add: process_entry_def)
next
  case True
  let ?dir = "ie_dir (ce_iso env)" and ?s' = "process_entry env q s"
  have ne: "ic_id e \<noteq> ic_id q" using True q by auto
  have u: "\<forall>r\<in>set (id_rows (is_db s)). ic_id r = ic_id q \<longrightarrow> ic_current_url r = ic_current_url q"
    using same_url [OF a(1,2,4)] by metis
  note p = process_entry_rows [where env = env, OF True u]
  have k: "is_disk ?s' x = is_disk s x" if "x \<in> iso_paths ?dir (ic_current_url e)" for x
    by (rule only_iso_apart [OF p(3) _ that]) (use a(1,3,4) ne in \<open>simp add: apart_def\<close>)
  have m: "path_join [?dir, iso_filename e] \<in> iso_paths ?dir (ic_current_url e)"
    "path_join [?dir, iso_filename e] @ ''.tmp'' \<in> iso_paths ?dir (ic_current_url e)"
    by (simp_all add: iso_paths_def iso_filename_def)
  have "\<forall>r\<in>set (id_rows (is_db ?s')). ic_id r = ic_id e \<longrightarrow> ic_download_status r = ''downloading''"
    using p(4) ne i unfolding interrupted_def by metis
  moreover have "ic_id e \<notin> set (is_cancel ?s')" using i p(2) by (simp add: interrupted_def)
  ultimately show ?thesis
    using i p(1) a(2) k [OF m(1)] k [OF m(2)] present_cong [of "is_disk ?s'" _ "is_disk s", OF k [OF m(1)]] by (simp add: interrupted_def)
qed

lemma interrupted_fold:
  assumes "apart (ie_dir (ce_iso env)) rows" "e \<in> set rows" "\<And>q. q \<in> set es \<Longrightarrow> ic_id q = ic_id e \<Longrightarrow> ic_download_status q = ''downloading''"
    "addresses (id_rows (is_db s)) = addresses rows" "set es \<subseteq> set rows" "interrupted (ie_dir (ce_iso env)) e s"
  shows "interrupted (ie_dir (ce_iso env)) e (fold (process_entry env) es s) \<and>
    addresses (id_rows (is_db (fold (process_entry env) es s))) = addresses rows"
  using assms(3-6)
proof (induction es arbitrary: s)
  case (Cons q es)
  have "interrupted (ie_dir (ce_iso env)) e (process_entry env q s) \<and> addresses (id_rows (is_db (process_entry env q s))) = addresses rows"
    by (rule interrupted_process [OF assms(1) Cons.prems(2) assms(2) _ Cons.prems(4)]) (use Cons.prems(1,3) in auto)
  then show ?case using Cons.IH [of "process_entry env q s"] Cons.prems(1,3) by simp
qed simp

lemma interrupted_reset:
  assumes a: "apart (ie_dir env) rows" "e \<in> set rows" "addresses (id_rows d) = addresses rows" "set es \<subseteq> set rows"
    and i: "interrupted (ie_dir env) e \<lparr>is_db = d, is_disk = fs, is_cancel = c\<rparr>"
    and r: "ResetStaleDownloads env (mark now) (map check_of es) n fs d = (fs', d', m, er)"
  shows "interrupted (ie_dir env) e \<lparr>is_db = d', is_disk = fs', is_cancel = c\<rparr> \<and> addresses (id_rows d') = addresses rows \<and>
    n \<le> m \<and> (m = n \<longrightarrow> d' = d)"
  using assms(3-6)
proof (induction es arbitrary: d fs n)
  case (Cons q es)
  let ?st = "\<lambda>d fs. \<lparr>is_db = d, is_disk = fs, is_cancel = c\<rparr> :: iso_svc"
  let ?fp = "finalPath env (iso_filename q)" and ?tp = "tempPath env (iso_filename q)"
  have q: "q \<in> set rows" and sub: "set es \<subseteq> set rows" using Cons.prems(2) by simp_all
  note r = Cons.prems(4) [unfolded list.map reset_cases]
  have ad: "addresses (id_rows (UpdateDownloadStatus now (ic_id q) st d)) = addresses rows" for st using Cons.prems(1) by simp
  consider (skip) "ResetStaleDownloads env (mark now) (map check_of es) n fs d = (fs', d', m, er)"
    | (reset) st fs1 where "present fs ?fp \<or> fs ?tp = None" "only_iso env (iso_filename q) fs fs1"
        "ResetStaleDownloads env (mark now) (map check_of es) (Suc n) fs1 (UpdateDownloadStatus now (ic_id q) st d) = (fs', d', m, er)"
    using r by (metis (full_types) only_iso_refl only_iso_upd(1))
  then show ?case
  proof cases
    case skip
    then show ?thesis using Cons.IH [OF Cons.prems(1) sub Cons.prems(3)] by blast
  next
    case reset
    have ne: "ic_id q \<noteq> ic_id e"
    proof
      assume "ic_id q = ic_id e"
      then have "iso_filename q = iso_filename e" using same_url [OF a(1) refl q a(2)] by (simp add: iso_filename_def)
      with reset(1) Cons.prems(3) show False by (simp add: interrupted_def finalPath_def tempPath_def)
    qed
    have k: "fs1 x = fs x" if "x \<in> iso_paths (ie_dir env) (ic_current_url e)" for x
      by (rule only_iso_apart [OF reset(2) _ that]) (use a(1,2) q ne in \<open>simp add: apart_def\<close>)
    have m: "path_join [ie_dir env, iso_filename e] \<in> iso_paths (ie_dir env) (ic_current_url e)"
      "path_join [ie_dir env, iso_filename e] @ ''.tmp'' \<in> iso_paths (ie_dir env) (ic_current_url e)"
      by (simp_all add: iso_paths_def iso_filename_def)
    have "\<forall>r\<in>set (id_rows (UpdateDownloadStatus now (ic_id q) st d)). ic_id r = ic_id e \<longrightarrow> ic_download_status r = ''downloading''"
      using UpdateDownloadStatus_rows [of _ now "ic_id q" st d] ne Cons.prems(3) by (auto simp: interrupted_def)
    then have "interrupted (ie_dir env) e (?st (UpdateDownloadStatus now (ic_id q) st d) fs1)"
      using Cons.prems(3) k [OF m(1)] k [OF m(2)] by (simp add: interrupted_def present_def)
    from Cons.IH [OF ad sub this reset(3)] show ?thesis by simp
  qed
qed simp

lemma interrupted_reset_stale:
  assumes a: "apart (ie_dir (ce_iso env)) (id_rows (is_db s))" "e \<in> set (id_rows (is_db s))"
    and i: "interrupted (ie_dir (ce_iso env)) e s" and r: "reset_stale env s = (s1, es)"
  shows "interrupted (ie_dir (ce_iso env)) e s1 \<and> addresses (id_rows (is_db s1)) = addresses (id_rows (is_db s)) \<and>
    es = ListDownloadQueue (is_db s1)"
proof -
  let ?es = "ListDownloadQueue (is_db s)"
  let ?l = "filter (\<lambda>e. ic_download_status e = ''downloading'' \<and> ic_current_url e \<noteq> []) ?es"
  have m: "(\<lambda>i st d. (UpdateDownloadStatus (ce_now env) i st d, Inr ())) = mark (ce_now env)" by (simp add: mark_def fun_eq_iff)
  show ?thesis
  proof (cases "stale_checks ?es = []")
    case True
    then show ?thesis using r i by (auto simp: reset_stale_def)
  next
    case False
    obtain fs d n er where q: "ResetStaleDownloads (ce_iso env) (mark (ce_now env)) (map check_of ?l) 0 (is_disk s) (is_db s) = (fs, d, n, er)"
      by (cases "ResetStaleDownloads (ce_iso env) (mark (ce_now env)) (map check_of ?l) 0 (is_disk s) (is_db s)")
    have "set ?l \<subseteq> set (id_rows (is_db s))" by (auto simp: ListDownloadQueue_def)
    moreover have "interrupted (ie_dir (ce_iso env)) e \<lparr>is_db = is_db s, is_disk = is_disk s, is_cancel = is_cancel s\<rparr>"
      using i by (simp add: interrupted_def)
    ultimately have "interrupted (ie_dir (ce_iso env)) e \<lparr>is_db = d, is_disk = fs, is_cancel = is_cancel s\<rparr> \<and>
        addresses (id_rows d) = addresses (id_rows (is_db s)) \<and> (n = 0 \<longrightarrow> d = is_db s)"
      using interrupted_reset [OF a refl _ _ q] by blast
    moreover have "s1 = s\<lparr>is_disk := fs, is_db := d\<rparr>" "es = (if n > 0 then ListDownloadQueue d else ?es)"
      using r False q by (auto simp: reset_stale_def m stale_checks_eq)
    ultimately show ?thesis by (auto simp: interrupted_def)
  qed
qed

text \<open>The other steps change download states only, and none of a download in progress.\<close>

lemma interrupted_mark:
  assumes "interrupted dir e s" "i \<noteq> ic_id e"
  shows "interrupted dir e (with_db (UpdateDownloadStatus now i st) s) \<and>
    addresses (id_rows (is_db (with_db (UpdateDownloadStatus now i st) s))) = addresses (id_rows (is_db s))"
proof -
  have "\<forall>r\<in>set (id_rows (UpdateDownloadStatus now i st (is_db s))). ic_id r = ic_id e \<longrightarrow> ic_download_status r = ''downloading''"
    using UpdateDownloadStatus_rows [of _ now i st "is_db s"] assms by (auto simp: interrupted_def)
  then show ?thesis using assms(1) by (simp add: interrupted_def with_db_def)
qed

lemma interrupted_queue_all:
  assumes "interrupted dir e s" "\<And>q. q \<in> set es \<Longrightarrow> ic_id q = ic_id e \<Longrightarrow> ic_download_status q = ''downloading''"
  shows "interrupted dir e (fold (\<lambda>e s. if ic_current_url e = [] \<or> ic_download_status e = ''downloading'' \<or> ic_download_status e = ''downloaded'' then s
      else with_db (UpdateDownloadStatus now (ic_id e) ''pending'') s) es s) \<and>
    addresses (id_rows (is_db (fold (\<lambda>e s. if ic_current_url e = [] \<or> ic_download_status e = ''downloading'' \<or> ic_download_status e = ''downloaded'' then s
      else with_db (UpdateDownloadStatus now (ic_id e) ''pending'') s) es s))) = addresses (id_rows (is_db s))"
  using assms
proof (induction es arbitrary: s)
  case (Cons q es)
  show ?case
  proof (cases "ic_current_url q = [] \<or> ic_download_status q = ''downloading'' \<or> ic_download_status q = ''downloaded''")
    case True
    then show ?thesis using Cons.IH [OF Cons.prems(1)] Cons.prems(2) by simp
  next
    case False
    then have "ic_id q \<noteq> ic_id e" using Cons.prems(2) [of q] by auto
    note m = interrupted_mark [OF Cons.prems(1) this, of now "''pending''"]
    show ?thesis using False m Cons.IH [of "with_db (UpdateDownloadStatus now (ic_id q) ''pending'') s"] Cons.prems(2) by simp
  qed
qed simp

lemma interrupted_step:
  assumes a: "apart dir (id_rows (is_db s))" "e \<in> set rows" "addresses (id_rows (is_db s)) = addresses rows"
    and i: "interrupted dir e s" "in_dir dir op"
  shows "interrupted dir e (queue_step op s) \<and> addresses (id_rows (is_db (queue_step op s))) = addresses rows"
proof -
  obtain e' where e': "e' \<in> set (id_rows (is_db s))" "ic_id e' = ic_id e" "ic_current_url e' = ic_current_url e"
    using addresses_in [of "ic_id e" "ic_current_url e"] in_addresses [OF a(2)] a(3) by metis
  have d: "ic_download_status q = ''downloading''" if "q \<in> set (id_rows (is_db s))" "ic_id q = ic_id e" for q
    using i(1) that by (simp add: interrupted_def)
  show ?thesis
  proof (cases op)
    case (RunQueue env)
    have dir: "ie_dir (ce_iso env) = dir" using i(2) RunQueue by simp
    obtain s1 es where r: "reset_stale env s = (s1, es)" by (cases "reset_stale env s")
    have i': "interrupted dir e' s" using i(1) e' by (simp add: interrupted_def iso_filename_def)
    note q = interrupted_reset_stale [OF a(1) [folded dir] e'(1) i' [folded dir] r]
    have ap: "apart (ie_dir (ce_iso env)) (id_rows (is_db s1))" using apart_cong [of _ "id_rows (is_db s)"] q a(1) dir by metis
    obtain e2 where e2: "e2 \<in> set (id_rows (is_db s1))" "ic_id e2 = ic_id e'" "ic_current_url e2 = ic_current_url e'"
      using addresses_in [of "ic_id e'" "ic_current_url e'"] in_addresses [OF e'(1)] q by metis
    have i2: "interrupted (ie_dir (ce_iso env)) e2 s1" using q e2 by (simp add: interrupted_def iso_filename_def)
    have "set es \<subseteq> set (id_rows (is_db s1))" using q by (auto simp: ListDownloadQueue_def)
    moreover from this have "\<And>x. x \<in> set es \<Longrightarrow> ic_id x = ic_id e2 \<Longrightarrow> ic_download_status x = ''downloading''"
      using i2 by (auto simp: interrupted_def)
    ultimately have "interrupted (ie_dir (ce_iso env)) e2 (fold (process_entry env) es s1) \<and>
        addresses (id_rows (is_db (fold (process_entry env) es s1))) = addresses (id_rows (is_db s1))"
      by (intro interrupted_fold [OF ap e2(1)]) (use i2 in auto)
    then show ?thesis using RunQueue r q a(3) dir e2 e' by (simp add: ProcessQueue_def interrupted_def iso_filename_def)
  next
    case (QueueAll now)
    have "interrupted dir e (QueueDownloadAll now s) \<and> addresses (id_rows (is_db (QueueDownloadAll now s))) = addresses (id_rows (is_db s))"
      unfolding QueueDownloadAll_def by (rule interrupted_queue_all [OF i(1)]) (use d in \<open>auto simp: iso_List_def\<close>)
    then show ?thesis using QueueAll a(3) by simp
  next
    case (Retry now j)
    show ?thesis
    proof (cases "iso_GetByID j (is_db s)")
      case None
      then show ?thesis using Retry i a(3) by (simp add: RetryCatalogDownload_def)
    next
      case (Some r)
      then have "r \<in> set (id_rows (is_db s))" "ic_id r = j" by (auto simp: iso_GetByID_def dest: row_by_SomeD)
      then have "j \<noteq> ic_id e" if "ic_download_status r = ''error''" using d [of r] that by auto
      then show ?thesis using Retry Some i a(3) interrupted_mark [OF i(1), of j now "''pending''"]
        by (cases "ic_download_status r = ''error''") (simp_all add: RetryCatalogDownload_def)
    qed
  next
    case (Cancel now j)
    show ?thesis
    proof (cases "j = ic_id e")
      case True
      then have "fst (CancelDownload now j s) = s" using i(1) by (simp add: CancelDownload_def interrupted_def split: option.split)
      then show ?thesis using Cancel i a(3) by simp
    next
      case False
      have "interrupted dir e (s\<lparr>is_cancel := removeAll j (is_cancel s)\<rparr>)" using i(1) by (simp add: interrupted_def)
      note m = interrupted_mark [OF this False, of now "''pending''"]
      show ?thesis using Cancel i a(3) m by (simp add: CancelDownload_def with_db_def split: option.split)
    qed
  qed
qed

text \<open>An entry whose download was broken off by the end of the program is never downloaded: while its
  temporary file lies there it stays in the state downloading through every run of the queue, every
  queueing of all entries, every retry and every cancellation.\<close>

theorem interrupted_download_stuck:
  assumes "apart dir (id_rows (is_db s))" "e \<in> set (id_rows (is_db s))" "interrupted dir e s" "list_all (in_dir dir) ops"
  shows "\<exists>r\<in>set (id_rows (is_db (fold queue_step ops s))). ic_id r = ic_id e \<and> ic_current_url r = ic_current_url e \<and>
    ic_download_status r = ''downloading'' \<and> \<not> present (is_disk (fold queue_step ops s)) (path_join [dir, iso_filename e])"
proof -
  have "interrupted dir e (fold queue_step ops s) \<and> addresses (id_rows (is_db (fold queue_step ops s))) = addresses (id_rows (is_db s))"
    using assms(4)
  proof (induction ops rule: rev_induct)
    case (snoc op ops)
    then have ih: "interrupted dir e (fold queue_step ops s)" "addresses (id_rows (is_db (fold queue_step ops s))) = addresses (id_rows (is_db s))"
      by simp_all
    then show ?case using interrupted_step [OF _ assms(2) ih(2) ih(1), of op] apart_cong [OF ih(2)] assms(1) snoc.prems by simp
  qed (simp add: assms(3))
  then show ?thesis using addresses_in [of "ic_id e" "ic_current_url e"] in_addresses [OF assms(2)] by (metis interrupted_def)
qed

definition demo_row :: iso_row where
  "demo_row = \<lparr>ic_id = 1, ic_name = ''a'', ic_distro = ''a'', ic_variant = [], ic_arch = ''amd64'', ic_check_url = [],
     ic_filename_pattern = ''*.iso'', ic_base_url = ''http://a'', ic_version_dir_pattern = [], ic_iso_path_template = [],
     ic_current_url = ''http://a/a.iso'', ic_auto_update = True, ic_interval = 24, ic_last_checked = None, ic_last_error = [],
     ic_status = [], ic_download_status = ''downloading'', ic_sha256 = [], ic_created = 0, ic_updated = 0\<rparr>"

definition demo_svc :: "string \<Rightarrow> iso_disk \<Rightarrow> iso_svc" where
  "demo_svc st fs = \<lparr>is_db = \<lparr>id_rows = [demo_row\<lparr>ic_download_status := st\<rparr>], id_seq = 1\<rparr>, is_disk = fs, is_cancel = []\<rparr>"

definition demo_catalog :: "unit catalog_env" where
  "demo_catalog = \<lparr>ce_iso = demo_env, ce_scraper = \<lparr>sp_try = (\<lambda>u n. TryBody []), sp_done = (\<lambda>n. None), sp_links = (\<lambda>p. []),
     sp_compile = (\<lambda>p. Inr (\<lambda>t. False)), sp_parse = (\<lambda>u. Inr ()), sp_resolve = (\<lambda>a b. ()), sp_base = (\<lambda>u. []), sp_string = (\<lambda>u. []),
     sp_sort = (\<lambda>lt xs. xs)\<rparr>, ce_now = 7, ce_cancel = (\<lambda>i. False)\<rparr>"

lemma demo_svc_ok: "apart dir (id_rows (is_db (demo_svc st fs)))"
  "st \<noteq> ''downloaded'' \<Longrightarrow> downloads_there dir (demo_svc st fs)"
  by (simp_all add: apart_def demo_svc_def downloads_there_def)


text \<open>An entry whose download is cancelled waits again after the run.\<close>

lemma cancelled_waits:
  "map ic_download_status (id_rows (is_db (ProcessQueue
     (demo_catalog\<lparr>ce_iso := demo_env\<lparr>ie_get := \<lambda>u. iso_server ''image'' 2 Canceled\<rparr>, ce_cancel := \<lambda>i. True\<rparr>) (demo_svc ''pending'' Map.empty)))) =
   [''pending'']"
  by code_simp

theorem interrupted_download_stuck_witness:
  "\<not> present (is_disk (fold queue_step [RunQueue demo_catalog, QueueAll 8, Retry 9 1, RunQueue demo_catalog]
      (demo_svc ''downloading'' [''/iso/a.iso.tmp'' \<mapsto> ''x'']))) ''/iso/a.iso''"
proof -
  have p: "path_join [''/iso'', iso_filename demo_row] = ''/iso/a.iso''" by code_simp
  have i: "interrupted ''/iso'' (demo_row\<lparr>ic_download_status := ''downloading''\<rparr>) (demo_svc ''downloading'' [''/iso/a.iso.tmp'' \<mapsto> ''x''])"
    using p by (simp add: interrupted_def demo_svc_def present_def iso_filename_def)
  have r: "demo_row\<lparr>ic_download_status := ''downloading''\<rparr> \<in> set (id_rows (is_db (demo_svc ''downloading'' [''/iso/a.iso.tmp'' \<mapsto> ''x''])))"
    by (simp add: demo_svc_def)
  have l: "list_all (in_dir ''/iso'') [RunQueue demo_catalog, QueueAll 8, Retry 9 1, RunQueue demo_catalog]"
    by (simp add: demo_catalog_def demo_env_def)
  have f: "iso_filename (demo_row\<lparr>ic_download_status := ''downloading''\<rparr>) = iso_filename demo_row" by (simp add: iso_filename_def)
  show ?thesis using interrupted_download_stuck [OF demo_svc_ok(1) r i l] unfolding f p by blast
qed

end
