(* ===== verification/Secret_Store.thy ===== *)
theory Secret_Store
  imports Database
begin

text \<open>
  The named secrets, src/internal/service/secret\_service.go: names and encrypted values in a table, handed
  to every script as environment variables.

  The cipher (AES-GCM with the key of the service) and the draws of the random number generator are
  parameters; \<^verbatim>\<open>cipher.NewGCM\<close> on an AES cipher does not fail. The key file is the map of one path.
\<close>

section \<open>Parameters and data\<close>

record gcm =
  gc_nonce :: nat
  gc_seal :: "string \<Rightarrow> string \<Rightarrow> string \<Rightarrow> string"
  gc_open :: "string \<Rightarrow> string \<Rightarrow> string \<Rightarrow> string + string"

text \<open>What the code relies on: a text opens under the key and the nonce it was sealed with.\<close>

definition gcm_ok :: "gcm \<Rightarrow> bool" where
  "gcm_ok g \<longleftrightarrow> (\<forall>key nonce p. gc_open g key nonce (gc_seal g key nonce p) = Inr p)"

record secret_row =
  sk_id :: int
  sk_name :: string
  sk_blob :: string
  sk_created :: int
  sk_updated :: int

record secret_db =
  sd_rows :: "secret_row list"
  sd_seq :: int

record secret_service =
  sv_gcm :: gcm
  sv_key :: string

text \<open>\<open>NotFound\<close> is ErrScriptNotFound, \<open>SecretInvalid\<close> wraps ErrSecretValidation.\<close>

datatype secret_err = SecretNotFound | SecretInvalid string | SecretFailed string

section \<open>secret\_service.go\<close>

definition upper_char :: "char \<Rightarrow> bool" where
  "upper_char c \<longleftrightarrow> of_char c \<ge> (65::nat) \<and> of_char c \<le> (90::nat)"

text \<open>The pattern \<^verbatim>\<open>^[A-Z][A-Z0-9_]*$\<close>.\<close>

definition secretNameRE :: "string \<Rightarrow> bool" where
  "secretNameRE s = (case s of [] \<Rightarrow> False
     | c # cs \<Rightarrow> upper_char c \<and> list_all (\<lambda>x. upper_char x \<or> is_digit x \<or> x = CHR ''_'') cs)"

definition reservedSecretNames :: "string list" where
  "reservedSecretNames = [''PATH'', ''HOME'', ''SHELL'', ''USER'', ''LOGNAME'', ''PWD'', ''TMPDIR'', ''IFS'', ''SHLVL'', ''LANG'',
     ''LD_PRELOAD'', ''LD_LIBRARY_PATH'', ''MIBEEHIVE_URL'']"

definition ValidateSecretName :: "string \<Rightarrow> secret_err option" where
  "ValidateSecretName name =
     (if \<not> secretNameRE name
      then Some (SecretInvalid ''secret name must match ^[A-Z][A-Z0-9_]*$ (uppercase env-style, e.g. GITEE_TOKEN)'')
      else if name \<in> set reservedSecretNames
      then Some (SecretInvalid (''secret name '' @ name @ '' is reserved (would break script execution)''))
      else if length name > 64 then Some (SecretInvalid ''secret name too long (max 64)'') else None)"

text \<open>The key: \<open>file\<close> is what reading its path gives, a content or an error with the note whether the file is
  missing. The result has the content of the path afterwards.\<close>

definition loadOrCreateKey ::
  "string \<Rightarrow> (bool \<times> string) + string \<Rightarrow> string + string \<Rightarrow> string option \<Rightarrow> string option \<Rightarrow> string option \<times> (string + string)" where
  "loadOrCreateKey path file draw mkdir write =
     (case file of
        Inr key \<Rightarrow> (Some key, if length key = 32 then Inr key
           else Inl (''secret key '' @ path @ '' has wrong size '' @ format_int (int (length key)) @ '' (want 32)''))
      | Inl (missing, e) \<Rightarrow>
          if \<not> missing then (None, Inl (''reading secret key: '' @ e))
          else (case draw of
              Inl e \<Rightarrow> (None, Inl (''generating secret key: '' @ e))
            | Inr key \<Rightarrow>
                (case mkdir of
                   Some e \<Rightarrow> (None, Inl (''creating key dir: '' @ e))
                 | None \<Rightarrow>
                     (case write of
                        Some e \<Rightarrow> (None, Inl (''writing secret key: '' @ e))
                      | None \<Rightarrow> (Some key, Inr key)))))"

definition secret_encrypt :: "secret_service \<Rightarrow> string + string \<Rightarrow> string \<Rightarrow> string + string" where
  "secret_encrypt sv draw plain =
     (case draw of Inl e \<Rightarrow> Inl e | Inr nonce \<Rightarrow> Inr (nonce @ gc_seal (sv_gcm sv) (sv_key sv) nonce plain))"

definition secret_decrypt :: "secret_service \<Rightarrow> string \<Rightarrow> string + string" where
  "secret_decrypt sv blob =
     (let n = gc_nonce (sv_gcm sv) in
      if length blob < n then Inl ''ciphertext too short''
      else case gc_open (sv_gcm sv) (sv_key sv) (take n blob) (drop n blob) of
        Inl e \<Rightarrow> Inl (''decrypting: '' @ e) | Inr p \<Rightarrow> Inr p)"

definition GetSecretMeta :: "string \<Rightarrow> secret_db \<Rightarrow> secret_err + string \<times> int" where
  "GetSecretMeta name d =
     (case row_by sk_name (sd_rows d) name of None \<Rightarrow> Inl SecretNotFound | Some r \<Rightarrow> Inr (sk_name r, sk_updated r))"

text \<open>The INSERT with its ON CONFLICT clause.\<close>

definition upsert_secret :: "int \<Rightarrow> string \<Rightarrow> string \<Rightarrow> secret_db \<Rightarrow> secret_db" where
  "upsert_secret now name blob d =
     (if has_row sk_name (sd_rows d) name
      then d\<lparr>sd_rows := upd_row sk_name name (\<lambda>r. r\<lparr>sk_blob := blob, sk_updated := now\<rparr>) (sd_rows d)\<rparr>
      else d\<lparr>sd_rows := sd_rows d @ [\<lparr>sk_id = sd_seq d + 1, sk_name = name, sk_blob = blob, sk_created = now, sk_updated = now\<rparr>],
             sd_seq := sd_seq d + 1\<rparr>)"

definition SetSecret ::
  "secret_service \<Rightarrow> int \<Rightarrow> string + string \<Rightarrow> string \<Rightarrow> string \<Rightarrow> secret_db \<Rightarrow> secret_db \<times> (secret_err + string \<times> int)" where
  "SetSecret sv now draw name value d =
     (case ValidateSecretName name of
        Some e \<Rightarrow> (d, Inl e)
      | None \<Rightarrow>
          if value = [] then (d, Inl (SecretInvalid ''secret value must not be empty''))
          else if length value > 8192 then (d, Inl (SecretInvalid ''secret value too long (max 8192)''))
          else (case secret_encrypt sv draw value of
              Inl e \<Rightarrow> (d, Inl (SecretFailed (''encrypting secret: '' @ e)))
            | Inr blob \<Rightarrow> let d1 = upsert_secret now name blob d in (d1, GetSecretMeta name d1)))"

definition ListSecrets :: "secret_db \<Rightarrow> (string \<times> int) list" where
  "ListSecrets d = map (\<lambda>r. (sk_name r, sk_updated r)) (sort_key sk_name (sd_rows d))"

definition DeleteSecret :: "string \<Rightarrow> secret_db \<Rightarrow> secret_db \<times> (secret_err + unit)" where
  "DeleteSecret name d =
     (if has_row sk_name (sd_rows d) name then (d\<lparr>sd_rows := filter (\<lambda>r. sk_name r \<noteq> name) (sd_rows d)\<rparr>, Inr ())
      else (d, Inl SecretNotFound))"

text \<open>The loop over the rows: the pairs and the names that were skipped.\<close>

fun env_loop :: "secret_service \<Rightarrow> secret_row list \<Rightarrow> string list \<Rightarrow> string \<Rightarrow> string list \<times> string" where
  "env_loop sv [] out skipped = (out, skipped)"
| "env_loop sv (r # rs) out skipped =
     (case secret_decrypt sv (sk_blob r) of
        Inl e \<Rightarrow> env_loop sv rs out (skipped @ '' '' @ sk_name r)
      | Inr value \<Rightarrow> env_loop sv rs (out @ [sk_name r @ ''='' @ value]) skipped)"

definition EnvPairs :: "secret_service \<Rightarrow> secret_db \<Rightarrow> string list \<times> string option" where
  "EnvPairs sv d =
     (case env_loop sv (sort_key sk_name (sd_rows d)) [] [] of
        (out, skipped) \<Rightarrow> (out, if skipped \<noteq> [] then Some (''undecryptable secrets skipped:'' @ skipped) else None))"

section \<open>The table as a map\<close>

lemma env_loop_eq:
  "env_loop sv rs out skipped =
     (out @ map (\<lambda>r. sk_name r @ ''='' @ projr (secret_decrypt sv (sk_blob r))) (filter (\<lambda>r. \<not> isl (secret_decrypt sv (sk_blob r))) rs),
      skipped @ concat (map (\<lambda>r. '' '' @ sk_name r) (filter (\<lambda>r. isl (secret_decrypt sv (sk_blob r))) rs)))"
  by (induction rs arbitrary: out skipped) (auto split: sum.split)

lemma decrypt_encrypt:
  assumes "gcm_ok (sv_gcm sv)" "length nonce = gc_nonce (sv_gcm sv)"
  shows "secret_decrypt sv (nonce @ gc_seal (sv_gcm sv) (sv_key sv) nonce p) = Inr p"
  using assms by (simp add: secret_decrypt_def gcm_ok_def)

datatype secret_call = SetCall int "string + string" string string | DelCall string

fun secret_exec :: "secret_service \<Rightarrow> secret_call \<Rightarrow> secret_db \<Rightarrow> secret_db" where
  "secret_exec sv (SetCall now draw name value) d = fst (SetSecret sv now draw name value d)"
| "secret_exec sv (DelCall name) d = fst (DeleteSecret name d)"

text \<open>The specification: a map from names to values.\<close>

fun secret_spec :: "secret_call \<Rightarrow> (string \<rightharpoonup> string) \<Rightarrow> (string \<rightharpoonup> string)" where
  "secret_spec (SetCall now draw name value) m =
     (if ValidateSecretName name = None \<and> value \<noteq> [] \<and> length value \<le> 8192 \<and> \<not> isl draw then m(name \<mapsto> value) else m)"
| "secret_spec (DelCall name) m = m(name := None)"

fun draw_ok :: "secret_service \<Rightarrow> secret_call \<Rightarrow> bool" where
  "draw_ok sv (SetCall now (Inr nonce) name value) \<longleftrightarrow> length nonce = gc_nonce (sv_gcm sv)"
| "draw_ok sv _ \<longleftrightarrow> True"

text \<open>The rows stand for the map.\<close>

definition holds_secrets :: "secret_service \<Rightarrow> (string \<rightharpoonup> string) \<Rightarrow> secret_db \<Rightarrow> bool" where
  "holds_secrets sv m d \<longleftrightarrow> distinct (map sk_name (sd_rows d)) \<and> sk_name ` set (sd_rows d) = dom m \<and>
     (\<forall>r\<in>set (sd_rows d). ValidateSecretName (sk_name r) = None \<and>
        (\<exists>v. m (sk_name r) = Some v \<and> secret_decrypt sv (sk_blob r) = Inr v))"

lemma holds_upsert:
  assumes h: "holds_secrets sv m d" and v: "ValidateSecretName name = None" "secret_decrypt sv blob = Inr value"
  shows "holds_secrets sv (m(name \<mapsto> value)) (upsert_secret now name blob d)"
proof (cases "has_row sk_name (sd_rows d) name")
  case True
  have n: "name \<in> sk_name ` set (sd_rows d)" using True by (simp add: has_row_iff)
  have m: "map sk_name (sd_rows (upsert_secret now name blob d)) = map sk_name (sd_rows d)"
    using True by (simp add: upsert_secret_def)
  then have i: "sk_name ` set (sd_rows (upsert_secret now name blob d)) = sk_name ` set (sd_rows d)" by (metis set_map)
  have "ValidateSecretName (sk_name r) = None \<and> (\<exists>x. (m(name \<mapsto> value)) (sk_name r) = Some x \<and> secret_decrypt sv (sk_blob r) = Inr x)"
    if "r \<in> set (sd_rows (upsert_secret now name blob d))" for r
    using that True h v by (auto simp: upsert_secret_def upd_row_def holds_secrets_def)
  then show ?thesis using h n m i by (auto simp: holds_secrets_def)
next
  case False
  then have n: "name \<notin> sk_name ` set (sd_rows d)" by (simp add: has_row_iff)
  have "sk_name r \<noteq> name" if "r \<in> set (sd_rows d)" for r using n that by auto
  then show ?thesis using False h v n by (auto simp: upsert_secret_def holds_secrets_def)
qed

lemma holds_delete:
  assumes "holds_secrets sv m d"
  shows "holds_secrets sv (m(name := None)) (fst (DeleteSecret name d))"
proof -
  have "fst (DeleteSecret name d) = d\<lparr>sd_rows := filter (\<lambda>r. sk_name r \<noteq> name) (sd_rows d)\<rparr>"
    by (cases d) (force simp: DeleteSecret_def has_row_iff intro!: filter_True [symmetric])
  then show ?thesis using assms by (auto simp: holds_secrets_def distinct_map_filter)
qed

lemma holds_exec:
  assumes g: "gcm_ok (sv_gcm sv)" and h: "holds_secrets sv m d" and c: "draw_ok sv c"
  shows "holds_secrets sv (secret_spec c m) (secret_exec sv c d)"
proof (cases c)
  case (SetCall now draw name v)
  show ?thesis
  proof (cases "ValidateSecretName name = None \<and> v \<noteq> [] \<and> length v \<le> 8192 \<and> \<not> isl draw")
    case True
    then obtain nonce where n: "draw = Inr nonce" by (cases draw) auto
    have "secret_decrypt sv (nonce @ gc_seal (sv_gcm sv) (sv_key sv) nonce v) = Inr v"
      by (rule decrypt_encrypt [OF g]) (use c SetCall n in simp)
    from holds_upsert [OF h _ this] True show ?thesis
      using SetCall n by (simp add: SetSecret_def secret_encrypt_def Let_def)
  next
    case False
    then have "fst (SetSecret sv now draw name v d) = d"
      by (auto simp: SetSecret_def secret_encrypt_def split: option.split sum.split)
    then show ?thesis using SetCall False h by auto
  qed
next
  case (DelCall name)
  then show ?thesis using holds_delete [OF h] by simp
qed

lemma holds_run:
  assumes "gcm_ok (sv_gcm sv)" "list_all (draw_ok sv) cs" "holds_secrets sv m d"
  shows "holds_secrets sv (fold secret_spec cs m) (fold (secret_exec sv) cs d)"
  using assms(2,3)
proof (induction cs arbitrary: m d)
  case (Cons c cs)
  then show ?case using holds_exec [OF assms(1), of m d c] by simp
qed simp

lemma holds_env:
  assumes "holds_secrets sv m d"
  shows "EnvPairs sv d = (map (\<lambda>n. n @ ''='' @ the (m n)) (sorted_list_of_set (dom m)), None)"
proof -
  let ?rs = "sort_key sk_name (sd_rows d)"
  have d: "secret_decrypt sv (sk_blob r) = Inr (the (m (sk_name r)))" if "r \<in> set ?rs" for r
    using assms that by (auto simp: holds_secrets_def)
  then have f: "filter (\<lambda>r. isl (secret_decrypt sv (sk_blob r))) ?rs = []"
    "filter (\<lambda>r. \<not> isl (secret_decrypt sv (sk_blob r))) ?rs = ?rs"
    by (auto simp: filter_empty_conv intro!: filter_True)
  have "map sk_name ?rs = sorted_list_of_set (dom m)"
  proof (rule sorted_distinct_set_unique)
    show "distinct (map sk_name ?rs)" using assms by (auto simp: holds_secrets_def distinct_map)
    have "finite (dom m)" using assms by (metis finite_imageI List.finite_set holds_secrets_def)
    then show "set (map sk_name ?rs) = set (sorted_list_of_set (dom m))" using assms by (simp add: holds_secrets_def)
  qed simp_all
  moreover have "map (\<lambda>r. sk_name r @ ''='' @ projr (secret_decrypt sv (sk_blob r))) ?rs = map (\<lambda>n. n @ ''='' @ the (m n)) (map sk_name ?rs)"
    using d by simp
  ultimately show ?thesis by (simp add: EnvPairs_def env_loop_eq f)
qed

lemma holds_valid:
  assumes h: "holds_secrets sv m d"
  shows "\<forall>n\<in>dom m. ValidateSecretName n = None"
proof
  fix n assume "n \<in> dom m"
  moreover have "dom m = sk_name ` set (sd_rows d)" using h by (simp add: holds_secrets_def)
  ultimately obtain r where "r \<in> set (sd_rows d)" "n = sk_name r" by auto
  then show "ValidateSecretName n = None" using h by (simp add: holds_secrets_def)
qed

lemma holds_empty: "holds_secrets sv Map.empty \<lparr>sd_rows = [], sd_seq = n\<rparr>"
  by (simp add: holds_secrets_def)

lemma valid_name:
  assumes "ValidateSecretName n = None"
  shows "n \<noteq> []" "CHR ''='' \<notin> set n" "n \<notin> set reservedSecretNames"
proof -
  have r: "secretNameRE n" "n \<notin> set reservedSecretNames" using assms by (auto simp: ValidateSecretName_def split: if_splits)
  have e: "\<not> upper_char (CHR ''='')" "\<not> is_digit (CHR ''='')" by code_simp+
  show "n \<noteq> []" using r(1) by (auto simp: secretNameRE_def)
  show "CHR ''='' \<notin> set n" using r(1) e by (auto simp: secretNameRE_def list_all_iff split: list.splits)
  show "n \<notin> set reservedSecretNames" by (rule r(2))
qed

section \<open>Properties\<close>

text \<open>C37: The secret store implements a map from names to values: after any calls of SetSecret and DeleteSecret
  EnvPairs gives exactly the stored names in order, each with the value it was set to last, and no error;
  names that are not valid are never stored.\<close>

theorem secrets_refine_map:
  assumes "gcm_ok (sv_gcm sv)" "list_all (draw_ok sv) cs"
  shows "EnvPairs sv (fold (secret_exec sv) cs \<lparr>sd_rows = [], sd_seq = 0\<rparr>) =
    (map (\<lambda>n. n @ ''='' @ the (fold secret_spec cs Map.empty n)) (sorted_list_of_set (dom (fold secret_spec cs Map.empty))), None) \<and>
    (\<forall>n\<in>dom (fold secret_spec cs Map.empty). ValidateSecretName n = None)"
proof -
  note h = holds_run [OF assms holds_empty, of 0]
  show ?thesis using holds_env [OF h] holds_valid [OF h] by simp
qed

definition demo_gcm :: gcm where
  "demo_gcm = \<lparr>gc_nonce = 2, gc_seal = (\<lambda>k n p. k @ p), gc_open = (\<lambda>k n c. if has_prefix c k then Inr (drop (length k) c) else Inl ''bad'')\<rparr>"

definition demo_secrets :: secret_service where
  "demo_secrets = \<lparr>sv_gcm = demo_gcm, sv_key = ''k''\<rparr>"

lemma demo_gcm_ok: "gcm_ok (sv_gcm demo_secrets)"
  by (simp add: gcm_ok_def demo_secrets_def demo_gcm_def)

theorem secrets_refine_map_witness:
  "EnvPairs demo_secrets (fold (secret_exec demo_secrets)
      [SetCall 1 (Inr ''ab'') ''GH_TOKEN'' ''x'', SetCall 2 (Inr ''cd'') ''PATH'' ''y'', SetCall 3 (Inr ''ef'') ''GH_TOKEN'' ''z'']
      \<lparr>sd_rows = [], sd_seq = 0\<rparr>) = ([''GH_TOKEN=z''], None)"
proof -
  have v: "ValidateSecretName ''GH_TOKEN'' = None" "ValidateSecretName ''PATH'' \<noteq> None" by code_simp+
  have "list_all (draw_ok demo_secrets)
      [SetCall 1 (Inr ''ab'') ''GH_TOKEN'' ''x'', SetCall 2 (Inr ''cd'') ''PATH'' ''y'', SetCall 3 (Inr ''ef'') ''GH_TOKEN'' ''z'']"
    by (simp add: demo_secrets_def demo_gcm_def)
  from secrets_refine_map [OF demo_gcm_ok this] show ?thesis using v by simp
qed

text \<open>A key that was created is the key that later starts load.\<close>

lemma key_reloaded:
  assumes "loadOrCreateKey path (Inl (True, e)) draw mk wr = (file, Inr key)" "length key = 32"
  shows "file = Some key \<and> loadOrCreateKey path (Inr key) draw' mk' wr' = (Some key, Inr key)"
  using assms by (auto simp: loadOrCreateKey_def split: sum.splits option.splits)

end
