(* ===== verification/Script_Service.thy ===== *)
theory Script_Service
  imports Secret_Store Path_Guard Go_Text
begin

text \<open>
  Scheduled scripts: src/internal/service/script\_service.go with its scheduler, and the handlers of
  src/internal/handler/scripts.go.

  Parameters are the cron parser and the table of the cron library, the processes, and the failures of the
  disk. A run that was started is an entry of \<open>ss_active\<close> until its goroutine has executed it; the state
  between the check and the entry of StartRun is that of \<open>start_check\<close> and \<open>start_run\<close>, which other
  requests may interleave. Times are seconds.
\<close>

section \<open>Data\<close>

record script_row =
  sc_id :: int
  sc_name :: string
  sc_schedule :: string
  sc_path :: string
  sc_enabled :: bool
  sc_timeout :: int
  sc_last_run :: "int option"
  sc_last_status :: "string option"
  sc_next_run :: "int option"
  sc_created :: int
  sc_updated :: int

record run_row =
  sr_id :: int
  sr_script :: int
  sr_started :: int
  sr_finished :: "int option"
  sr_exit :: "int option"
  sr_trigger :: string
  sr_stdout :: string
  sr_stderr :: string
  sr_error :: string

record script_db =
  sb_scripts :: "script_row list"
  sb_script_seq :: int
  sb_runs :: "run_row list"
  sb_run_seq :: int

record script_input =
  si_Name :: string
  si_Schedule :: string
  si_ScriptPath :: string
  si_Enabled :: "bool option"
  si_TimeoutSeconds :: int

text \<open>The constructors between \<open>ScriptNotFound\<close> and \<open>ScriptFailed\<close> wrap ErrValidation.\<close>

datatype script_err =
    ScriptNotFound
  | ScriptInvalid string
  | BadSchedule string string
  | NameTaken string
  | ScriptFailed string

datatype script_file = ScriptFile string | ScriptDir

type_synonym script_disk = "string \<rightharpoonup> script_file"

record 'p script_env =
  se_dir :: string
  se_base_url :: string
  se_parse :: "string \<Rightarrow> string + 'p"
  se_next :: "'p \<Rightarrow> int \<Rightarrow> int"
  se_environ :: "string list"
  se_secrets :: "secret_service option"

record script_svc =
  ss_db :: script_db
  ss_disk :: script_disk
  ss_running :: "int set"
  ss_active :: "run_row list"

section \<open>Validation\<close>

definition maxOutputBytes :: nat where "maxOutputBytes = 64 * 1024"

definition defaultScriptTimeout :: int where "defaultScriptTimeout = 300"

definition ValidateSchedule :: "'p script_env \<Rightarrow> string \<Rightarrow> script_err option" where
  "ValidateSchedule env spec =
     (if trim_space spec = [] then Some (ScriptInvalid ''schedule is required'')
      else case se_parse env spec of Inl e \<Rightarrow> Some (BadSchedule spec e) | Inr _ \<Rightarrow> None)"

definition NextRun :: "'p script_env \<Rightarrow> string \<Rightarrow> int \<Rightarrow> string + int" where
  "NextRun env spec t = (case se_parse env spec of Inl e \<Rightarrow> Inl e | Inr sched \<Rightarrow> Inr (se_next env sched t))"

definition decorate :: "'p script_env \<Rightarrow> int \<Rightarrow> script_row \<Rightarrow> script_row" where
  "decorate env now sc =
     (if \<not> sc_enabled sc then sc
      else case NextRun env (sc_schedule sc) now of Inl _ \<Rightarrow> sc | Inr t \<Rightarrow> sc\<lparr>sc_next_run := Some t\<rparr>)"

definition script_validate :: "'p script_env \<Rightarrow> script_input \<Rightarrow> script_err option" where
  "script_validate env inp =
     (let name = trim_space (si_Name inp) in
      if name = [] then Some (ScriptInvalid ''name is required'')
      else if length name > 64 then Some (ScriptInvalid ''name must be at most 64 characters'')
      else case ValidateSchedule env (si_Schedule inp) of
        Some e \<Rightarrow> Some e
      | None \<Rightarrow>
          (case validateScriptPath (si_ScriptPath inp) of
             Inl (ValidationError m) \<Rightarrow> Some (ScriptInvalid m)
           | Inl _ \<Rightarrow> Some (ScriptInvalid [])
           | Inr _ \<Rightarrow>
               if si_TimeoutSeconds inp < 0 \<or> si_TimeoutSeconds inp > 86400
               then Some (ScriptInvalid ''timeout_seconds must be between 0 and 86400'') else None))"

section \<open>The scripts\<close>

definition ListScripts :: "'p script_env \<Rightarrow> int \<Rightarrow> script_svc \<Rightarrow> script_row list" where
  "ListScripts env now s = map (decorate env now) (sort_key sc_name (sb_scripts (ss_db s)))"

definition GetScript :: "int \<Rightarrow> script_svc \<Rightarrow> script_err + script_row" where
  "GetScript i s = (case row_by sc_id (sb_scripts (ss_db s)) i of None \<Rightarrow> Inl ScriptNotFound | Some sc \<Rightarrow> Inr sc)"

definition on_db :: "(script_db \<Rightarrow> script_db) \<Rightarrow> script_svc \<Rightarrow> script_svc" where
  "on_db f s = s\<lparr>ss_db := f (ss_db s)\<rparr>"

definition insert_script :: "int \<Rightarrow> string \<Rightarrow> string \<Rightarrow> string \<Rightarrow> bool \<Rightarrow> int \<Rightarrow> script_db \<Rightarrow> script_db" where
  "insert_script now name schedule path enabled timeout d =
     d\<lparr>sb_scripts := sb_scripts d @ [\<lparr>sc_id = sb_script_seq d + 1, sc_name = name, sc_schedule = schedule, sc_path = path,
         sc_enabled = enabled, sc_timeout = timeout, sc_last_run = None, sc_last_status = None, sc_next_run = None,
         sc_created = now, sc_updated = now\<rparr>], sb_script_seq := sb_script_seq d + 1\<rparr>"

definition CreateScript :: "'p script_env \<Rightarrow> int \<Rightarrow> script_input \<Rightarrow> script_svc \<Rightarrow> script_svc \<times> (script_err + script_row)" where
  "CreateScript env now inp0 s =
     (let inp = inp0\<lparr>si_Name := trim_space (si_Name inp0)\<rparr> in
      case script_validate env inp of
        Some e \<Rightarrow> (s, Inl e)
      | None \<Rightarrow>
          let enabled = (si_Enabled inp \<noteq> Some False);
              timeout = (if si_TimeoutSeconds inp \<le> 0 then defaultScriptTimeout else si_TimeoutSeconds inp) in
          if has_row sc_name (sb_scripts (ss_db s)) (si_Name inp) then (s, Inl (NameTaken (si_Name inp)))
          else let s1 = on_db (insert_script now (si_Name inp) (si_Schedule inp) (si_ScriptPath inp) enabled timeout) s in
            (s1, GetScript (sb_script_seq (ss_db s1)) s1))"

definition merge_input :: "script_row \<Rightarrow> script_input \<Rightarrow> script_input" where
  "merge_input cur inp =
     \<lparr>si_Name = trim_space (if si_Name inp \<noteq> [] then si_Name inp else sc_name cur),
      si_Schedule = (if si_Schedule inp \<noteq> [] then si_Schedule inp else sc_schedule cur),
      si_ScriptPath = (if si_ScriptPath inp \<noteq> [] then si_ScriptPath inp else sc_path cur),
      si_Enabled = (if si_Enabled inp \<noteq> None then si_Enabled inp else Some (sc_enabled cur)),
      si_TimeoutSeconds = (if si_TimeoutSeconds inp \<noteq> 0 then si_TimeoutSeconds inp else sc_timeout cur)\<rparr>"

definition UpdateScript :: "'p script_env \<Rightarrow> int \<Rightarrow> int \<Rightarrow> script_input \<Rightarrow> script_svc \<Rightarrow> script_svc \<times> (script_err + script_row)" where
  "UpdateScript env now i inp s =
     (case GetScript i s of
        Inl e \<Rightarrow> (s, Inl e)
      | Inr cur \<Rightarrow>
          let merged = merge_input cur inp in
          (case script_validate env merged of
             Some e \<Rightarrow> (s, Inl e)
           | None \<Rightarrow>
               if \<exists>r\<in>set (sb_scripts (ss_db s)). sc_id r \<noteq> i \<and> sc_name r = si_Name merged then (s, Inl (NameTaken (si_Name merged)))
               else let s1 = on_db (\<lambda>d. d\<lparr>sb_scripts := upd_row sc_id i (\<lambda>r. r\<lparr>sc_name := si_Name merged, sc_schedule := si_Schedule merged,
                        sc_path := si_ScriptPath merged, sc_enabled := (si_Enabled merged = Some True),
                        sc_timeout := si_TimeoutSeconds merged, sc_updated := now\<rparr>) (sb_scripts d)\<rparr>) s in
                 (s1, GetScript i s1)))"

definition DeleteScript :: "int \<Rightarrow> script_svc \<Rightarrow> script_svc \<times> (script_err + unit)" where
  "DeleteScript i s =
     (if has_row sc_id (sb_scripts (ss_db s)) i
      then (on_db (\<lambda>d. d\<lparr>sb_scripts := filter (\<lambda>r. sc_id r \<noteq> i) (sb_scripts d), sb_runs := filter (\<lambda>r. sr_script r \<noteq> i) (sb_runs d)\<rparr>) s, Inr ())
      else (s, Inl ScriptNotFound))"

section \<open>Output of a process\<close>

record capped =
  cw_buf :: string
  cw_limit :: nat
  cw_trunc :: bool

text \<open>Write returns how much it claims to have written.\<close>

definition capped_Write :: "string \<Rightarrow> capped \<Rightarrow> capped \<times> nat" where
  "capped_Write p w =
     (if length (cw_buf w) < cw_limit w then
        let room = cw_limit w - length (cw_buf w) in
        if length p > room then (w\<lparr>cw_buf := cw_buf w @ take room p, cw_trunc := True\<rparr>, length p)
        else (w\<lparr>cw_buf := cw_buf w @ p\<rparr>, length p)
      else (w\<lparr>cw_trunc := True\<rparr>, length p))"

definition capped_String :: "capped \<Rightarrow> string" where
  "capped_String w = (if cw_trunc w then cw_buf w @ [CHR 0x0A] @ ''...[output truncated]'' else cw_buf w)"

definition captured :: "string list \<Rightarrow> string" where
  "captured chunks = capped_String (fold (\<lambda>p w. fst (capped_Write p w)) chunks \<lparr>cw_buf = [], cw_limit = maxOutputBytes, cw_trunc = False\<rparr>)"

section \<open>Runs\<close>

datatype run_ctx = DeadlineExceeded | Canceled

datatype proc_end = ProcOk | ProcExit int | ProcErr string

record proc_result =
  pr_stdout :: "string list"
  pr_stderr :: "string list"
  pr_ctx :: "run_ctx option"
  pr_end :: proc_end

definition isRunning :: "int \<Rightarrow> script_svc \<Rightarrow> bool" where
  "isRunning i s \<longleftrightarrow> i \<in> ss_running s"

definition setRunning :: "int \<Rightarrow> bool \<Rightarrow> script_svc \<Rightarrow> script_svc" where
  "setRunning i on s = s\<lparr>ss_running := (if on then insert i (ss_running s) else ss_running s - {i})\<rparr>"

definition GetRun :: "int \<Rightarrow> script_svc \<Rightarrow> run_row option" where
  "GetRun i s = row_by sr_id (sb_runs (ss_db s)) i"

text \<open>The two parts of StartRun: the checks, and the new run with its goroutine.\<close>

definition start_check :: "int \<Rightarrow> script_svc \<Rightarrow> script_err option" where
  "start_check i s =
     (case GetScript i s of Inl e \<Rightarrow> Some e
      | Inr _ \<Rightarrow> if isRunning i s then Some (ScriptInvalid ''script is already running'') else None)"

definition start_run :: "int \<Rightarrow> int \<Rightarrow> string \<Rightarrow> script_svc \<Rightarrow> script_svc \<times> (script_err + run_row)" where
  "start_run now i trigger s =
     (if \<not> has_row sc_id (sb_scripts (ss_db s)) i then (s, Inl (ScriptFailed ''inserting run: FOREIGN KEY constraint failed''))
      else let runID = sb_run_seq (ss_db s) + 1;
               s1 = on_db (\<lambda>d. d\<lparr>sb_runs := sb_runs d @ [\<lparr>sr_id = runID, sr_script = i, sr_started = now, sr_finished = None,
                 sr_exit = None, sr_trigger = trigger, sr_stdout = [], sr_stderr = [], sr_error = []\<rparr>], sb_run_seq := runID\<rparr>) s in
        (case GetRun runID s1 of
           None \<Rightarrow> (s1, Inl (ScriptFailed ''sql: no rows in result set''))
         | Some r \<Rightarrow> let s2 = setRunning i True s1 in (s2\<lparr>ss_active := ss_active s2 @ [r]\<rparr>, Inr r)))"

definition StartRun :: "int \<Rightarrow> int \<Rightarrow> string \<Rightarrow> script_svc \<Rightarrow> script_svc \<times> (script_err + run_row)" where
  "StartRun now i trigger s = (case start_check i s of Some e \<Rightarrow> (s, Inl e) | None \<Rightarrow> start_run now i trigger s)"

definition finishRun ::
  "int \<Rightarrow> int \<Rightarrow> int option \<Rightarrow> string \<Rightarrow> string \<Rightarrow> string \<Rightarrow> script_row option \<Rightarrow> script_svc \<Rightarrow> script_svc" where
  "finishRun now runID exitCode stdout stderr errMsg sc s =
     (let s1 = on_db (\<lambda>d. d\<lparr>sb_runs := upd_row sr_id runID (\<lambda>r. r\<lparr>sr_finished := Some now, sr_exit := exitCode, sr_stdout := stdout,
            sr_stderr := stderr, sr_error := errMsg\<rparr>) (sb_runs d)\<rparr>) s in
      case sc of
        None \<Rightarrow> s1
      | Some r \<Rightarrow>
          let status = (if exitCode = None \<or> exitCode \<noteq> Some 0 then ''failed'' else ''success'') in
          on_db (\<lambda>d. d\<lparr>sb_scripts := upd_row sc_id (sc_id r) (\<lambda>x. x\<lparr>sc_last_run := Some now, sc_last_status := Some status\<rparr>) (sb_scripts d)\<rparr>) s1)"

definition finishRunNotFound :: "int \<Rightarrow> int \<Rightarrow> script_row \<Rightarrow> string \<Rightarrow> script_svc \<Rightarrow> script_svc" where
  "finishRunNotFound now runID sc errMsg = finishRun now runID (Some (- 1)) [] [] errMsg (Some sc)"

text \<open>\<^verbatim>\<open>Duration.String\<close> of whole seconds.\<close>

definition duration_text :: "int \<Rightarrow> string" where
  "duration_text n =
     (if n < 60 then format_int n @ ''s''
      else if n < 3600 then format_int (n div 60) @ ''m'' @ format_int (n mod 60) @ ''s''
      else format_int (n div 3600) @ ''h'' @ format_int (n div 60 mod 60) @ ''m'' @ format_int (n mod 60) @ ''s'')"

definition run_environ :: "'p script_env \<Rightarrow> secret_db \<Rightarrow> string list" where
  "run_environ env sdb =
     (let base = se_environ env @ [''MIBEEHIVE_URL='' @ se_base_url env] in
      case se_secrets env of
        None \<Rightarrow> base
      | Some sv \<Rightarrow> (case EnvPairs sv sdb of (pairs, Some _) \<Rightarrow> base | (pairs, None) \<Rightarrow> base @ pairs))"

text \<open>The exit code and the message of a finished process.\<close>

definition run_outcome :: "int \<Rightarrow> proc_result \<Rightarrow> int \<times> string" where
  "run_outcome timeout p =
     (case pr_ctx p of
        Some DeadlineExceeded \<Rightarrow> (- 1, ''timed out after '' @ duration_text timeout)
      | Some Canceled \<Rightarrow> (- 1, ''canceled'')
      | None \<Rightarrow> (case pr_end p of ProcOk \<Rightarrow> (0, []) | ProcExit c \<Rightarrow> (c, []) | ProcErr e \<Rightarrow> (- 1, e)))"

text \<open>\<open>proc\<close> is the process, a function of the path and the environment it is given.\<close>

definition execute ::
  "'p script_env \<Rightarrow> secret_db \<Rightarrow> (string \<Rightarrow> string list \<Rightarrow> proc_result) \<Rightarrow> int \<Rightarrow> run_row \<Rightarrow> script_svc \<Rightarrow> script_svc" where
  "execute env sdb proc now run s =
     (case GetScript (sr_script run) s of
        Inl _ \<Rightarrow> finishRun now (sr_id run) None [] [] ''script vanished: script not found'' None s
      | Inr sc \<Rightarrow>
          let timeout = (if sc_timeout sc \<le> 0 then defaultScriptTimeout else sc_timeout sc);
              abs = resolvePath (se_dir env) (sc_path sc) in
          case ss_disk s abs of
            None \<Rightarrow> finishRunNotFound now (sr_id run) sc
              (''script file not found: '' @ sc_path sc @ '' (upload it via the script content endpoint)'') s
          | Some ScriptDir \<Rightarrow> finishRunNotFound now (sr_id run) sc ''script path is a directory'' s
          | Some (ScriptFile _) \<Rightarrow>
              let p = proc abs (run_environ env sdb) in
              case run_outcome timeout p of
                (exitCode, errMsg) \<Rightarrow>
                  finishRun now (sr_id run) (Some exitCode) (captured (pr_stdout p)) (captured (pr_stderr p)) errMsg (Some sc) s)"

text \<open>The goroutine of the \<open>k\<close>th active run.\<close>

definition run_active ::
  "'p script_env \<Rightarrow> secret_db \<Rightarrow> (string \<Rightarrow> string list \<Rightarrow> proc_result) \<Rightarrow> int \<Rightarrow> nat \<Rightarrow> script_svc \<Rightarrow> script_svc" where
  "run_active env sdb proc now k s =
     (if k < length (ss_active s) then
        let run = ss_active s ! k; s1 = execute env sdb proc now run s in
        setRunning (sr_script run) False (s1\<lparr>ss_active := take k (ss_active s1) @ drop (Suc k) (ss_active s1)\<rparr>)
      else s)"

definition ListRuns :: "int \<Rightarrow> int \<Rightarrow> int \<Rightarrow> script_svc \<Rightarrow> run_row list" where
  "ListRuns scriptID limit0 offset0 s =
     (let lim = (if limit0 \<le> 0 \<or> limit0 > 200 then 50 else limit0); offset = (if offset0 < 0 then 0 else offset0) in
      take (nat lim) (drop (nat offset) (rev (sort_key sr_id (filter (\<lambda>r. sr_script r = scriptID) (sb_runs (ss_db s)))))))"

section \<open>Contents\<close>

definition GetScriptContent :: "'p script_env \<Rightarrow> int \<Rightarrow> script_svc \<Rightarrow> script_err + string" where
  "GetScriptContent env i s =
     (case GetScript i s of
        Inl e \<Rightarrow> Inl e
      | Inr sc \<Rightarrow>
          (case ss_disk s (resolvePath (se_dir env) (sc_path sc)) of
             None \<Rightarrow> Inl ScriptNotFound
           | Some ScriptDir \<Rightarrow> Inl (ScriptFailed ''reading script: is a directory'')
           | Some (ScriptFile c) \<Rightarrow> Inr c))"

definition maxContentBytes :: int where "maxContentBytes = 256 * 1024"

text \<open>\<open>body\<close> is what reading the request gives, \<open>mkdir\<close> the failure of \<^verbatim>\<open>os.MkdirAll\<close>, if any.\<close>

definition PutScriptContent ::
  "'p script_env \<Rightarrow> int \<Rightarrow> string + string \<Rightarrow> string option \<Rightarrow> script_svc \<Rightarrow> script_svc \<times> (script_err + unit)" where
  "PutScriptContent env i body mkdir s =
     (case GetScript i s of
        Inl e \<Rightarrow> (s, Inl e)
      | Inr sc \<Rightarrow>
     (case body of
        Inl e \<Rightarrow> (s, Inl (ScriptFailed (''reading body: '' @ e)))
      | Inr all \<Rightarrow>
          let data = LimitReader (maxContentBytes + 1) all in
          if int (length data) > maxContentBytes
          then (s, Inl (ScriptInvalid (''script content exceeds '' @ format_int maxContentBytes @ '' bytes'')))
          else let content = ReplaceAll data [CHR 0x0D, CHR 0x0A] [CHR 0x0A]; abs = resolvePath (se_dir env) (sc_path sc) in
            (case mkdir of
               Some e \<Rightarrow> (s, Inl (ScriptFailed (''creating script dir: '' @ e)))
             | None \<Rightarrow>
                 if ss_disk s abs = Some ScriptDir then (s, Inl (ScriptFailed ''writing script: is a directory''))
                 else (s\<lparr>ss_disk := (ss_disk s)(abs \<mapsto> ScriptFile content)\<rparr>, Inr ()))))"

section \<open>The scheduler\<close>

text \<open>The cron library: a new entry gets an id; \<open>cr_entries\<close> lists the entries with schedule and script.\<close>

record ('c, 'p) cron_ops =
  cr_Schedule :: "'p \<Rightarrow> int \<Rightarrow> 'c \<Rightarrow> 'c \<times> int"
  cr_Remove :: "int \<Rightarrow> 'c \<Rightarrow> 'c"
  cr_entries :: "'c \<Rightarrow> (int \<times> 'p \<times> int) list"

definition cron_ok :: "('c, 'p) cron_ops \<Rightarrow> bool" where
  "cron_ok cr \<longleftrightarrow>
     (\<forall>p j c. case cr_Schedule cr p j c of (c', i) \<Rightarrow>
        i \<notin> fst ` set (cr_entries cr c) \<and> set (cr_entries cr c') = insert (i, p, j) (set (cr_entries cr c))) \<and>
     (\<forall>i c. set (cr_entries cr (cr_Remove cr i c)) = {e \<in> set (cr_entries cr c). fst e \<noteq> i})"

record 'c script_sched =
  sx_cron :: 'c
  sx_entries :: "int \<rightharpoonup> int"
  sx_started :: bool

definition addLocked :: "'p script_env \<Rightarrow> ('c, 'p) cron_ops \<Rightarrow> script_row \<Rightarrow> 'c script_sched \<Rightarrow> 'c script_sched \<times> string option" where
  "addLocked env cr sc x =
     (case se_parse env (sc_schedule sc) of
        Inl e \<Rightarrow> (x, Some e)
      | Inr sched \<Rightarrow>
          (case cr_Schedule cr sched (sc_id sc) (sx_cron x) of
             (c, i) \<Rightarrow> (x\<lparr>sx_cron := c, sx_entries := (sx_entries x)(sc_id sc \<mapsto> i)\<rparr>, None)))"

definition sched_Start :: "'p script_env \<Rightarrow> ('c, 'p) cron_ops \<Rightarrow> script_row list \<Rightarrow> 'c script_sched \<Rightarrow> 'c script_sched" where
  "sched_Start env cr scripts x =
     (if sx_started x then x
      else (fold (\<lambda>sc x. if sc_enabled sc then fst (addLocked env cr sc x) else x) scripts x)\<lparr>sx_started := True\<rparr>)"

definition sched_Remove :: "('c, 'p) cron_ops \<Rightarrow> int \<Rightarrow> 'c script_sched \<Rightarrow> 'c script_sched" where
  "sched_Remove cr i x =
     (case sx_entries x i of
        None \<Rightarrow> x
      | Some old \<Rightarrow> x\<lparr>sx_cron := cr_Remove cr old (sx_cron x), sx_entries := (sx_entries x)(i := None)\<rparr>)"

definition Reschedule :: "'p script_env \<Rightarrow> ('c, 'p) cron_ops \<Rightarrow> script_row \<Rightarrow> 'c script_sched \<Rightarrow> 'c script_sched" where
  "Reschedule env cr sc x =
     (let x1 = sched_Remove cr (sc_id sc) x in
      if \<not> sx_started x1 \<or> \<not> sc_enabled sc then x1 else fst (addLocked env cr sc x1))"

definition sched_Stop :: "'c script_sched \<Rightarrow> 'c script_sched" where
  "sched_Stop x = x\<lparr>sx_started := False\<rparr>"

section \<open>Output and environment of a run\<close>

lemma capped_fold:
  assumes "list_all (\<lambda>p. p \<noteq> []) chunks" "length (cw_buf w) \<le> cw_limit w"
  shows "fold (\<lambda>p w. fst (capped_Write p w)) chunks w =
    w\<lparr>cw_buf := take (cw_limit w) (cw_buf w @ concat chunks),
      cw_trunc := (cw_trunc w \<or> cw_limit w < length (cw_buf w) + length (concat chunks))\<rparr>"
  using assms
proof (induction chunks arbitrary: w)
  case Nil
  then show ?case by (cases w) simp
next
  case (Cons p chunks)
  let ?w = "fst (capped_Write p w)"
  have l: "length (cw_buf ?w) \<le> cw_limit ?w" "cw_limit ?w = cw_limit w"
    using Cons.prems by (auto simp: capped_Write_def Let_def)
  have b: "cw_buf ?w = take (cw_limit w) (cw_buf w @ p)" "cw_trunc ?w = (cw_trunc w \<or> cw_limit w < length (cw_buf w) + length p)"
    using Cons.prems by (auto simp: capped_Write_def Let_def)
  have t: "take (cw_limit w) (take (cw_limit w) (cw_buf w @ p) @ concat chunks) = take (cw_limit w) (cw_buf w @ p @ concat chunks)"
    by (cases "cw_limit w \<le> length (cw_buf w @ p)") (simp_all add: min_def)
  have m: "capped.more ?w = capped.more w" by (simp add: capped_Write_def Let_def)
  show ?case using Cons.IH [OF _ l(1)] Cons.prems b l(2) t m
    by (auto intro!: capped.equality)
qed

text \<open>The whole output up to the limit, and a mark when there was more; the pipe never blocks because Write
  claims everything.\<close>

lemma captured_eq:
  assumes "list_all (\<lambda>p. p \<noteq> []) chunks"
  shows "captured chunks = take maxOutputBytes (concat chunks) @
    (if length (concat chunks) > maxOutputBytes then [CHR 0x0A] @ ''...[output truncated]'' else [])"
  using capped_fold [OF assms, of "\<lparr>cw_buf = [], cw_limit = maxOutputBytes, cw_trunc = False\<rparr>"]
  by (simp add: captured_def capped_String_def)

lemma Write_claims_all: "snd (capped_Write p w) = length p"
  by (simp add: capped_Write_def Let_def)

text \<open>What a process finds under a name: the last entry counts.\<close>

definition env_value :: "string list \<Rightarrow> string \<Rightarrow> string option" where
  "env_value env n = map_option (drop (length n + 1)) (List.find (\<lambda>kv. has_prefix kv (n @ ''='')) (rev env))"

lemma find_append: "List.find P (xs @ ys) = (case List.find P xs of None \<Rightarrow> List.find P ys | Some x \<Rightarrow> Some x)"
  by (induction xs) auto

lemma env_value_append: "env_value (xs @ ys) n = (case env_value ys n of None \<Rightarrow> env_value xs n | Some v \<Rightarrow> Some v)"
  by (simp add: env_value_def find_append split: option.split)

lemma pair_prefix:
  assumes "CHR ''='' \<notin> set n" "CHR ''='' \<notin> set m"
  shows "has_prefix (m @ ''='' @ v) (n @ ''='') \<longleftrightarrow> n = m"
proof
  assume "has_prefix (m @ ''='' @ v) (n @ ''='')"
  then obtain r where "m @ CHR ''='' # v = n @ CHR ''='' # r" by (auto simp: has_prefix_iff prefix_def)
  then have "takeWhile (\<lambda>c. c \<noteq> CHR ''='') (m @ CHR ''='' # v) = takeWhile (\<lambda>c. c \<noteq> CHR ''='') (n @ CHR ''='' # r)" by simp
  moreover have "takeWhile (\<lambda>c. c \<noteq> CHR ''='') (x @ CHR ''='' # y) = x" if "CHR ''='' \<notin> set x" for x y
    using that by (induction x) auto
  ultimately show "n = m" using assms by simp
qed (simp add: has_prefix_iff)

lemma env_value_single:
  assumes "CHR ''='' \<notin> set n" "CHR ''='' \<notin> set m"
  shows "env_value [m @ ''='' @ v] n = (if n = m then Some v else None)"
  using pair_prefix [OF assms, of v] by (simp add: env_value_def)

lemma env_value_pairs:
  assumes "CHR ''='' \<notin> set n" "\<And>x. x \<in> set ns \<Longrightarrow> CHR ''='' \<notin> set x"
  shows "env_value (map (\<lambda>x. x @ ''='' @ f x) ns) n = (if n \<in> set ns then Some (f n) else None)"
  using assms(2)
proof (induction ns rule: rev_induct)
  case Nil
  then show ?case by (simp add: env_value_def)
next
  case (snoc x ns)
  then show ?case using env_value_single [OF assms(1), of x "f x"] by (auto simp: env_value_append)
qed

text \<open>C40: A script finds every stored secret under its name with the value set last, MIBEEHIVE\_URL with the
  address of the service, and everything else as the program itself has it; after any calls of SetSecret and
  DeleteSecret. No call changes one of the reserved names PATH, HOME, SHELL, USER, LOGNAME, PWD, TMPDIR, IFS,
  SHLVL, LANG, LD\_PRELOAD and LD\_LIBRARY\_PATH: the script has them from the program.\<close>

theorem script_environment:
  assumes "gcm_ok (sv_gcm sv)" "list_all (draw_ok sv) cs" "se_secrets env = Some sv" "CHR ''='' \<notin> set n"
  shows "env_value (run_environ env (fold (secret_exec sv) cs \<lparr>sd_rows = [], sd_seq = 0\<rparr>)) n =
    (if n = ''MIBEEHIVE_URL'' then Some (se_base_url env)
     else if n \<in> {''PATH'', ''HOME'', ''SHELL'', ''USER'', ''LOGNAME'', ''PWD'', ''TMPDIR'', ''IFS'', ''SHLVL'', ''LANG'',
       ''LD_PRELOAD'', ''LD_LIBRARY_PATH''} then env_value (se_environ env) n
     else case fold secret_spec cs Map.empty n of Some v \<Rightarrow> Some v | None \<Rightarrow> env_value (se_environ env) n)"
proof -
  let ?m = "fold secret_spec cs Map.empty"
  note h = holds_run [OF assms(1,2) holds_empty, of 0]
  have fin: "finite (dom ?m)" using h by (metis finite_imageI List.finite_set holds_secrets_def)
  have v: "CHR ''='' \<notin> set x \<and> x \<notin> set reservedSecretNames" if "x \<in> dom ?m" for x
    using holds_valid [OF h] that valid_name by blast
  have u: "''MIBEEHIVE_URL'' \<in> set reservedSecretNames" "CHR ''='' \<notin> set ''MIBEEHIVE_URL''"
    by (simp_all add: reservedSecretNames_def)
  have p: "env_value (map (\<lambda>x. x @ ''='' @ the (?m x)) (sorted_list_of_set (dom ?m))) n = ?m n"
    using env_value_pairs [OF assms(4), of "sorted_list_of_set (dom ?m)" "\<lambda>x. the (?m x)"] v fin by (auto simp: domIff)
  have k: "?m n = None" if "n \<in> {''PATH'', ''HOME'', ''SHELL'', ''USER'', ''LOGNAME'', ''PWD'', ''TMPDIR'', ''IFS'', ''SHLVL'',
      ''LANG'', ''LD_PRELOAD'', ''LD_LIBRARY_PATH''}"
  proof -
    have "n \<in> set reservedSecretNames" using that unfolding reservedSecretNames_def by auto
    then have "n \<notin> dom ?m" using v [of n] by blast
    then show ?thesis by (simp add: domIff)
  qed
  define U where "U = ''MIBEEHIVE_URL='' @ se_base_url env"
  have e: "run_environ env (fold (secret_exec sv) cs \<lparr>sd_rows = [], sd_seq = 0\<rparr>) =
      se_environ env @ [U] @ map (\<lambda>x. x @ ''='' @ the (?m x)) (sorted_list_of_set (dom ?m))"
    using holds_env [OF h] assms(3) by (simp add: run_environ_def U_def Let_def)
  have b: "env_value [U] n = (if n = ''MIBEEHIVE_URL'' then Some (se_base_url env) else None)"
    using env_value_single [OF assms(4) u(2), of "se_base_url env"] by (simp add: U_def)
  show ?thesis
  proof (cases "n = ''MIBEEHIVE_URL''")
    case True
    then have "n \<notin> dom ?m" using v [of n] u(1) by blast
    then have "?m n = None" by (simp add: domIff)
    with p have q: "env_value (map (\<lambda>x. x @ ''='' @ the (?m x)) (sorted_list_of_set (dom ?m))) n = None" by simp
    show ?thesis unfolding e env_value_append q b using True by simp
  next
    case False
    then have l: "env_value (se_environ env @ [U] @ map (\<lambda>x. x @ ''='' @ the (?m x)) (sorted_list_of_set (dom ?m))) n =
        (case ?m n of Some v \<Rightarrow> Some v | None \<Rightarrow> env_value (se_environ env) n)"
      unfolding env_value_append p b by (simp split: option.split)
    show ?thesis unfolding e l using False k by (auto split: option.split)
  qed
qed

text \<open>Replacing the line ends once may leave a carriage return before one.\<close>

lemma crlf_left: "ReplaceAll [CHR 0x0D, CHR 0x0D, CHR 0x0A] [CHR 0x0D, CHR 0x0A] [CHR 0x0A] = [CHR 0x0D, CHR 0x0A]"
  by code_simp

text \<open>When one stored value cannot be decrypted no script gets any secret, although EnvPairs returns the
  others.\<close>

theorem one_bad_secret_hides_all:
  assumes "se_secrets env = Some sv" "r \<in> set (sd_rows sdb)" "isl (secret_decrypt sv (sk_blob r))"
  shows "run_environ env sdb = se_environ env @ [''MIBEEHIVE_URL='' @ se_base_url env]"
proof -
  have "filter (\<lambda>r. isl (secret_decrypt sv (sk_blob r))) (sort_key sk_name (sd_rows sdb)) \<noteq> []"
    using assms(2,3) by (auto simp: filter_empty_conv)
  then obtain x xs where "filter (\<lambda>r. isl (secret_decrypt sv (sk_blob r))) (sort_key sk_name (sd_rows sdb)) = x # xs"
    by (metis list.exhaust)
  then have "concat (map (\<lambda>r. '' '' @ sk_name r) (filter (\<lambda>r. isl (secret_decrypt sv (sk_blob r))) (sort_key sk_name (sd_rows sdb)))) \<noteq> []"
    by simp
  then show ?thesis using assms(1) by (simp add: run_environ_def EnvPairs_def env_loop_eq Let_def)
qed

definition demo_script_env :: "string script_env" where
  "demo_script_env = \<lparr>se_dir = ''/s'', se_base_url = ''http://h'', se_parse = (\<lambda>p. Inr p), se_next = (\<lambda>p t. t + 60),
     se_environ = [''PATH=/bin''], se_secrets = Some demo_secrets\<rparr>"

theorem script_environment_witness:
  "env_value (run_environ demo_script_env (fold (secret_exec demo_secrets)
      [SetCall 1 (Inr ''ab'') ''GH_TOKEN'' ''x'', SetCall 2 (Inr ''cd'') ''PATH'' ''y''] \<lparr>sd_rows = [], sd_seq = 0\<rparr>)) ''PATH'' = Some ''/bin''"
proof -
  have v: "ValidateSecretName ''GH_TOKEN'' = None" "ValidateSecretName ''PATH'' \<noteq> None" by code_simp+
  have d: "list_all (draw_ok demo_secrets) [SetCall 1 (Inr ''ab'') ''GH_TOKEN'' ''x'', SetCall 2 (Inr ''cd'') ''PATH'' ''y'']"
    by (simp add: demo_secrets_def demo_gcm_def)
  have s: "se_secrets demo_script_env = Some demo_secrets" by (simp add: demo_script_env_def)
  have n: "CHR ''='' \<notin> set ''PATH''" by simp
  have p: "env_value (se_environ demo_script_env) ''PATH'' = Some ''/bin''" by (simp add: demo_script_env_def env_value_def has_prefix_iff)
  show ?thesis using script_environment [OF demo_gcm_ok d s n] v p by simp
qed

end
