(* ===== verification/Script_Admin.thy ===== *)
theory Script_Admin
  imports Script_Service
begin

text \<open>
  The requests of the administration pages for scripts and secrets, src/internal/handler/scripts.go and
  src/internal/handler/secrets.go, together with the ticks of the cron library and the goroutines of the
  runs: what holds after any sequence of them.

  An answer is its status, its message and its data; a request body that is no JSON is \<open>None\<close>. StartRun
  is two steps here: the check, which leaves an entry in \<open>sa_starts\<close>, and the insertion of the run with the
  start of its goroutine, \<open>StepEnter\<close>; other steps may come between the two, as in the program, which
  holds no lock from one to the other.
\<close>

section \<open>Answers\<close>

datatype reply_msg = NoMessage | Plain string | OfScript script_err | OfSecret secret_err

datatype reply_data =
    NoData
  | ScriptData script_row
  | ScriptsData "script_row list" string
  | DetailData script_row "run_row list"
  | RunData run_row
  | RunsData "run_row list"
  | ContentData string
  | MetaData "string \<times> int"
  | MetasData "(string \<times> int) list"

record reply =
  rp_status :: int
  rp_message :: reply_msg
  rp_data :: reply_data

definition ok_reply :: "reply_data \<Rightarrow> reply" where
  "ok_reply d = \<lparr>rp_status = 200, rp_message = NoMessage, rp_data = d\<rparr>"

definition bad_reply :: "int \<Rightarrow> string \<Rightarrow> reply" where
  "bad_reply st t = \<lparr>rp_status = st, rp_message = Plain t, rp_data = NoData\<rparr>"

section \<open>secrets.go\<close>

fun secretError :: "secret_err \<Rightarrow> string \<Rightarrow> reply" where
  "secretError SecretNotFound act = bad_reply 404 ''secret not found''"
| "secretError (SecretInvalid m) act = \<lparr>rp_status = 400, rp_message = OfSecret (SecretInvalid m), rp_data = NoData\<rparr>"
| "secretError (SecretFailed m) act = bad_reply 500 (''internal error: '' @ act)"

definition secret_handler_List :: "secret_db \<Rightarrow> reply" where
  "secret_handler_List d = ok_reply (MetasData (ListSecrets d))"

definition secret_handler_Put ::
  "secret_service \<Rightarrow> int \<Rightarrow> string + string \<Rightarrow> string \<Rightarrow> string option \<Rightarrow> secret_db \<Rightarrow> secret_db \<times> reply" where
  "secret_handler_Put sv now draw name body d =
     (case body of
        None \<Rightarrow> (d, bad_reply 400 ''invalid request body'')
      | Some v \<Rightarrow> (case SetSecret sv now draw name v d of
          (d1, Inl e) \<Rightarrow> (d1, secretError e ''set'') | (d1, Inr m) \<Rightarrow> (d1, ok_reply (MetaData m))))"

definition secret_handler_Delete :: "string \<Rightarrow> secret_db \<Rightarrow> secret_db \<times> reply" where
  "secret_handler_Delete name d =
     (case DeleteSecret name d of (d1, Inl e) \<Rightarrow> (d1, secretError e ''delete'') | (d1, Inr _) \<Rightarrow> (d1, ok_reply NoData))"

section \<open>scripts.go\<close>

record 'c script_app =
  sa_svc :: script_svc
  sa_secrets :: secret_db
  sa_sched :: "'c script_sched"
  sa_starts :: "(int \<times> string) list"

fun scriptError :: "script_err \<Rightarrow> string \<Rightarrow> reply" where
  "scriptError ScriptNotFound act = bad_reply 404 ''script not found''"
| "scriptError (ScriptFailed m) act = bad_reply 500 (''internal error: '' @ act)"
| "scriptError e act = \<lparr>rp_status = 400, rp_message = OfScript e, rp_data = NoData\<rparr>"

definition pathID :: "string \<Rightarrow> int option" where
  "pathID v = ParseInt64 v"

definition invalid_id :: reply where
  "invalid_id = bad_reply 400 ''invalid id''"

definition script_handler_List :: "'p script_env \<Rightarrow> int \<Rightarrow> 'c script_app \<Rightarrow> reply" where
  "script_handler_List env now a = ok_reply (ScriptsData (ListScripts env now (sa_svc a)) (se_dir env))"

definition script_handler_Create ::
  "'p script_env \<Rightarrow> ('c, 'p) cron_ops \<Rightarrow> int \<Rightarrow> script_input option \<Rightarrow> 'c script_app \<Rightarrow> 'c script_app \<times> reply" where
  "script_handler_Create env cr now body a =
     (case body of
        None \<Rightarrow> (a, bad_reply 400 ''invalid request body'')
      | Some inp \<Rightarrow> (case CreateScript env now inp (sa_svc a) of
          (s, Inl e) \<Rightarrow> (a\<lparr>sa_svc := s\<rparr>, scriptError e ''create'')
        | (s, Inr sc) \<Rightarrow> (a\<lparr>sa_svc := s, sa_sched := Reschedule env cr sc (sa_sched a)\<rparr>, ok_reply (ScriptData sc))))"

definition script_handler_Get :: "string \<Rightarrow> 'c script_app \<Rightarrow> reply" where
  "script_handler_Get v a =
     (case pathID v of
        None \<Rightarrow> invalid_id
      | Some i \<Rightarrow> (case GetScript i (sa_svc a) of
          Inl e \<Rightarrow> scriptError e ''get'' | Inr sc \<Rightarrow> ok_reply (DetailData sc (ListRuns i 10 0 (sa_svc a)))))"

definition script_handler_Update ::
  "'p script_env \<Rightarrow> ('c, 'p) cron_ops \<Rightarrow> int \<Rightarrow> string \<Rightarrow> script_input option \<Rightarrow> 'c script_app \<Rightarrow> 'c script_app \<times> reply" where
  "script_handler_Update env cr now v body a =
     (case pathID v of
        None \<Rightarrow> (a, invalid_id)
      | Some i \<Rightarrow>
     (case body of
        None \<Rightarrow> (a, bad_reply 400 ''invalid request body'')
      | Some inp \<Rightarrow> (case UpdateScript env now i inp (sa_svc a) of
          (s, Inl e) \<Rightarrow> (a\<lparr>sa_svc := s\<rparr>, scriptError e ''update'')
        | (s, Inr sc) \<Rightarrow> (a\<lparr>sa_svc := s, sa_sched := Reschedule env cr sc (sa_sched a)\<rparr>, ok_reply (ScriptData sc)))))"

definition script_handler_Delete :: "('c, 'p) cron_ops \<Rightarrow> string \<Rightarrow> 'c script_app \<Rightarrow> 'c script_app \<times> reply" where
  "script_handler_Delete cr v a =
     (case pathID v of
        None \<Rightarrow> (a, invalid_id)
      | Some i \<Rightarrow> (case DeleteScript i (sa_svc a) of
          (s, Inl e) \<Rightarrow> (a\<lparr>sa_svc := s\<rparr>, scriptError e ''delete'')
        | (s, Inr _) \<Rightarrow> (a\<lparr>sa_svc := s, sa_sched := sched_Remove cr i (sa_sched a)\<rparr>, ok_reply NoData)))"

definition script_handler_Run :: "int \<Rightarrow> string \<Rightarrow> 'c script_app \<Rightarrow> 'c script_app \<times> reply" where
  "script_handler_Run now v a =
     (case pathID v of
        None \<Rightarrow> (a, invalid_id)
      | Some i \<Rightarrow> (case StartRun now i ''manual'' (sa_svc a) of
          (s, Inl e) \<Rightarrow> (a\<lparr>sa_svc := s\<rparr>, scriptError e ''run'') | (s, Inr r) \<Rightarrow> (a\<lparr>sa_svc := s\<rparr>, ok_reply (RunData r))))"

text \<open>\<open>lim\<close> and \<open>off\<close> are what Atoi makes of the query.\<close>

definition script_handler_Runs :: "string \<Rightarrow> int \<Rightarrow> int \<Rightarrow> 'c script_app \<Rightarrow> reply" where
  "script_handler_Runs v lim off a =
     (case pathID v of None \<Rightarrow> invalid_id | Some i \<Rightarrow> ok_reply (RunsData (ListRuns i lim off (sa_svc a))))"

definition script_handler_GetContent :: "'p script_env \<Rightarrow> string \<Rightarrow> 'c script_app \<Rightarrow> reply" where
  "script_handler_GetContent env v a =
     (case pathID v of
        None \<Rightarrow> invalid_id
      | Some i \<Rightarrow> (case GetScriptContent env i (sa_svc a) of
          Inl e \<Rightarrow> if e = ScriptNotFound then bad_reply 404 ''script file not uploaded yet'' else scriptError e ''get content''
        | Inr c \<Rightarrow> ok_reply (ContentData c)))"

definition script_handler_PutContent ::
  "'p script_env \<Rightarrow> string \<Rightarrow> string + string \<Rightarrow> string option \<Rightarrow> 'c script_app \<Rightarrow> 'c script_app \<times> reply" where
  "script_handler_PutContent env v body mkdir a =
     (case pathID v of
        None \<Rightarrow> (a, invalid_id)
      | Some i \<Rightarrow> (case PutScriptContent env i body mkdir (sa_svc a) of
          (s, Inl e) \<Rightarrow> (a\<lparr>sa_svc := s\<rparr>, scriptError e ''put content'') | (s, Inr _) \<Rightarrow> (a\<lparr>sa_svc := s\<rparr>, ok_reply NoData)))"

section \<open>The steps of the program\<close>

datatype script_step =
    StepCreate int "script_input option"
  | StepUpdate int string "script_input option"
  | StepDelete string
  | StepRun string
  | StepPut string "string + string" "string option"
  | StepTick int
  | StepEnter int nat
  | StepGoroutine "string \<Rightarrow> string list \<Rightarrow> proc_result" int nat
  | StepSetSecret int "string + string" string "string option"
  | StepDelSecret string

text \<open>The two parts of StartRun: a request or a tick that passes the checks waits in \<open>sa_starts\<close> until it enters
  its run.\<close>

definition begin_start :: "int \<Rightarrow> string \<Rightarrow> 'c script_app \<Rightarrow> 'c script_app" where
  "begin_start i trigger a =
     (case start_check i (sa_svc a) of Some e \<Rightarrow> a | None \<Rightarrow> a\<lparr>sa_starts := sa_starts a @ [(i, trigger)]\<rparr>)"

definition end_start :: "int \<Rightarrow> nat \<Rightarrow> 'c script_app \<Rightarrow> 'c script_app" where
  "end_start now k a =
     (if k < length (sa_starts a) then
        (case sa_starts a ! k of (i, trigger) \<Rightarrow>
           a\<lparr>sa_svc := fst (start_run now i trigger (sa_svc a)), sa_starts := take k (sa_starts a) @ drop (Suc k) (sa_starts a)\<rparr>)
      else a)"

text \<open>The job of a cron entry.\<close>

definition cron_tick :: "('c, 'p) cron_ops \<Rightarrow> int \<Rightarrow> 'c script_app \<Rightarrow> 'c script_app" where
  "cron_tick cr entry a =
     (if \<not> sx_started (sa_sched a) then a
      else case List.find (\<lambda>(e, p, i). e = entry) (cr_entries cr (sx_cron (sa_sched a))) of
        None \<Rightarrow> a | Some (e, p, i) \<Rightarrow> begin_start i ''cron'' a)"

fun app_step :: "'p script_env \<Rightarrow> ('c, 'p) cron_ops \<Rightarrow> script_step \<Rightarrow> 'c script_app \<Rightarrow> 'c script_app" where
  "app_step env cr (StepCreate now body) a = fst (script_handler_Create env cr now body a)"
| "app_step env cr (StepUpdate now v body) a = fst (script_handler_Update env cr now v body a)"
| "app_step env cr (StepDelete v) a = fst (script_handler_Delete cr v a)"
| "app_step env cr (StepRun v) a = (case pathID v of None \<Rightarrow> a | Some i \<Rightarrow> begin_start i ''manual'' a)"
| "app_step env cr (StepPut v body mkdir) a = fst (script_handler_PutContent env v body mkdir a)"
| "app_step env cr (StepTick entry) a = cron_tick cr entry a"
| "app_step env cr (StepEnter now k) a = end_start now k a"
| "app_step env cr (StepGoroutine proc now k) a = a\<lparr>sa_svc := run_active env (sa_secrets a) proc now k (sa_svc a)\<rparr>"
| "app_step env cr (StepSetSecret now draw name body) a =
     (case se_secrets env of None \<Rightarrow> a | Some sv \<Rightarrow> a\<lparr>sa_secrets := fst (secret_handler_Put sv now draw name body (sa_secrets a))\<rparr>)"
| "app_step env cr (StepDelSecret name) a = a\<lparr>sa_secrets := fst (secret_handler_Delete name (sa_secrets a))\<rparr>"

text \<open>The program at its start: the tables as they are, no run in progress, the scheduler started.\<close>

definition app_start :: "'p script_env \<Rightarrow> ('c, 'p) cron_ops \<Rightarrow> int \<Rightarrow> script_db \<Rightarrow> script_disk \<Rightarrow> secret_db \<Rightarrow> 'c \<Rightarrow> 'c script_app" where
  "app_start env cr now db disk sdb c =
     (let s = \<lparr>ss_db = db, ss_disk = disk, ss_running = {}, ss_active = []\<rparr> in
      \<lparr>sa_svc = s, sa_secrets = sdb,
       sa_sched = sched_Start env cr (ListScripts env now s) \<lparr>sx_cron = c, sx_entries = Map.empty, sx_started = False\<rparr>, sa_starts = []\<rparr>)"

text \<open>A request to run a script is its two steps when nothing comes between them.\<close>

lemma script_handler_Run_steps:
  assumes "sa_starts a = []"
  shows "fst (script_handler_Run now v a) = app_step env cr (StepEnter now 0) (app_step env cr (StepRun v) a)"
proof -
  have t: "sa_starts (a\<lparr>sa_svc := s\<rparr>) = []" for s using assms by simp
  have u: "a\<lparr>sa_svc := s, sa_starts := []\<rparr> = a\<lparr>sa_svc := s\<rparr>" for s using assms by simp
  have w: "a\<lparr>sa_svc := sa_svc a\<rparr> = a" by simp
  show ?thesis
  proof (cases "pathID v")
    case None
    then show ?thesis using assms by (simp add: script_handler_Run_def end_start_def)
  next
    case (Some i)
    have f: "fst (script_handler_Run now v a) = a\<lparr>sa_svc := fst (StartRun now i ''manual'' (sa_svc a))\<rparr>"
      using Some by (simp add: script_handler_Run_def split: prod.split sum.split)
    show ?thesis unfolding f using Some assms
      by (cases "start_check i (sa_svc a)") (simp_all add: StartRun_def begin_start_def end_start_def)
  qed
qed

section \<open>The tables\<close>

definition input_of :: "script_row \<Rightarrow> script_input" where
  "input_of r = \<lparr>si_Name = sc_name r, si_Schedule = sc_schedule r, si_ScriptPath = sc_path r, si_Enabled = Some (sc_enabled r),
     si_TimeoutSeconds = sc_timeout r\<rparr>"

definition valid_script :: "'p script_env \<Rightarrow> script_row \<Rightarrow> bool" where
  "valid_script env r \<longleftrightarrow> script_validate env (input_of r) = None \<and> 1 \<le> sc_timeout r"

definition tables_ok :: "'p script_env \<Rightarrow> script_db \<Rightarrow> bool" where
  "tables_ok env d \<longleftrightarrow>
     keyed sc_id (sb_scripts d) (sb_script_seq d) \<and> 0 \<le> sb_script_seq d \<and> distinct (map sc_name (sb_scripts d)) \<and>
     (\<forall>r\<in>set (sb_scripts d). valid_script env r) \<and>
     keyed sr_id (sb_runs d) (sb_run_seq d) \<and> 0 \<le> sb_run_seq d \<and> (\<forall>r\<in>set (sb_runs d). sr_script r \<in> sc_id ` set (sb_scripts d))"

text \<open>The runs in progress: each is an unfinished row, unless its script was deleted, and every unfinished row is
  one of them or one of \<open>old\<close>, those a former process left.\<close>

definition active_ok :: "script_db \<Rightarrow> run_row \<Rightarrow> bool" where
  "active_ok d a \<longleftrightarrow> sr_finished a = None \<and> sr_script a \<le> sb_script_seq d \<and> sr_id a \<le> sb_run_seq d \<and>
     (sr_script a \<in> sc_id ` set (sb_scripts d) \<longrightarrow> a \<in> set (sb_runs d))"

definition runs_ok :: "run_row set \<Rightarrow> script_svc \<Rightarrow> bool" where
  "runs_ok old s \<longleftrightarrow>
     distinct (map sr_id (ss_active s)) \<and> ss_running s \<subseteq> sr_script ` set (ss_active s) \<and>
     (\<forall>a\<in>set (ss_active s). active_ok (ss_db s) a) \<and>
     (\<forall>r\<in>set (sb_runs (ss_db s)). sr_finished r = None \<longrightarrow> r \<in> set (ss_active s) \<or> r \<in> old)"

text \<open>No script has two runs in progress or about to start.\<close>

definition single_runs :: "'c script_app \<Rightarrow> bool" where
  "single_runs a \<longleftrightarrow> distinct (map sr_script (ss_active (sa_svc a))) \<and>
     ss_running (sa_svc a) = sr_script ` set (ss_active (sa_svc a)) \<and>
     fst ` set (sa_starts a) \<inter> ss_running (sa_svc a) = {}"

lemma validate_cong:
  "script_validate env (inp\<lparr>si_Enabled := b\<rparr>) = script_validate env inp"
  by (simp add: script_validate_def Let_def cong: option.case_cong)

lemma validate_timeout:
  assumes "script_validate env inp = None"
  shows "0 \<le> si_TimeoutSeconds inp \<and> si_TimeoutSeconds inp \<le> 86400"
  using assms by (auto simp: script_validate_def Let_def split: if_splits option.splits sum.splits guard_error.splits)

lemma validate_parses:
  assumes "script_validate env inp = None"
  shows "\<exists>p. se_parse env (si_Schedule inp) = Inr p"
  using assms by (auto simp: script_validate_def ValidateSchedule_def Let_def split: if_splits option.splits sum.splits guard_error.splits)

lemma validate_set_timeout:
  assumes "script_validate env inp = None" "0 \<le> t" "t \<le> 86400"
  shows "script_validate env (inp\<lparr>si_TimeoutSeconds := t\<rparr>) = None"
  using assms by (auto simp: script_validate_def Let_def split: if_splits option.splits sum.splits guard_error.splits)

section \<open>The scheduler and the table\<close>

text \<open>The schedules the cron library should have: those of the enabled scripts.\<close>

definition wanted :: "'p script_env \<Rightarrow> script_row list \<Rightarrow> int \<rightharpoonup> 'p" where
  "wanted env rows i =
     (case row_by sc_id rows i of
        None \<Rightarrow> None
      | Some r \<Rightarrow> if sc_enabled r then (case se_parse env (sc_schedule r) of Inl _ \<Rightarrow> None | Inr p \<Rightarrow> Some p) else None)"

definition tracks :: "('c, 'p) cron_ops \<Rightarrow> (int \<rightharpoonup> 'p) \<Rightarrow> 'c script_sched \<Rightarrow> bool" where
  "tracks cr T x \<longleftrightarrow> dom (sx_entries x) = dom T \<and> inj_on (sx_entries x) (dom T) \<and>
     set (cr_entries cr (sx_cron x)) = {(e, p, i). sx_entries x i = Some e \<and> T i = Some p}"

lemma cron_okD:
  assumes "cron_ok cr"
  shows "cr_Schedule cr p j c = (c', i) \<Longrightarrow> i \<notin> fst ` set (cr_entries cr c) \<and> set (cr_entries cr c') = insert (i, p, j) (set (cr_entries cr c))"
    "set (cr_entries cr (cr_Remove cr i c)) = {e \<in> set (cr_entries cr c). fst e \<noteq> i}"
proof -
  have a: "\<forall>p j c. case cr_Schedule cr p j c of (c', i) \<Rightarrow>
      i \<notin> fst ` set (cr_entries cr c) \<and> set (cr_entries cr c') = insert (i, p, j) (set (cr_entries cr c))"
    by (rule assms [unfolded cron_ok_def, THEN conjunct1])
  have b: "\<forall>i c. set (cr_entries cr (cr_Remove cr i c)) = {e \<in> set (cr_entries cr c). fst e \<noteq> i}"
    by (rule assms [unfolded cron_ok_def, THEN conjunct2])
  have "case cr_Schedule cr p j c of (c', i) \<Rightarrow>
      i \<notin> fst ` set (cr_entries cr c) \<and> set (cr_entries cr c') = insert (i, p, j) (set (cr_entries cr c))"
    by (rule a [THEN spec, THEN spec, THEN spec])
  then show "cr_Schedule cr p j c = (c', i) \<Longrightarrow> i \<notin> fst ` set (cr_entries cr c) \<and> set (cr_entries cr c') = insert (i, p, j) (set (cr_entries cr c))"
    by simp
  show "set (cr_entries cr (cr_Remove cr i c)) = {e \<in> set (cr_entries cr c). fst e \<noteq> i}"
    by (rule b [THEN spec, THEN spec])
qed

lemma tracks_remove:
  assumes "cron_ok cr" "tracks cr T x"
  shows "tracks cr (T(i := None)) (sched_Remove cr i x)"
proof (cases "sx_entries x i")
  case None
  then have "i \<notin> dom T" using assms(2) by (metis domIff tracks_def)
  then have "T(i := None) = T" by auto
  with None show ?thesis using assms(2) by (simp add: sched_Remove_def)
next
  case (Some old)
  have d: "dom (sx_entries x) = dom T" and j: "inj_on (sx_entries x) (dom T)"
    and e: "set (cr_entries cr (sx_cron x)) = {(e, p, i). sx_entries x i = Some e \<and> T i = Some p}"
    using assms(2) by (simp_all add: tracks_def)
  have k: "k = i" if "sx_entries x k = Some old" for k
  proof (rule inj_onD [OF j])
    show "sx_entries x k = sx_entries x i" using that Some by simp
    show "k \<in> dom T" "i \<in> dom T" using d that Some by auto
  qed
  have s: "{q \<in> {(e, p, i). sx_entries x i = Some e \<and> T i = Some p}. fst q \<noteq> old} =
      {(e, p, k). ((sx_entries x)(i := None)) k = Some e \<and> (T(i := None)) k = Some p}"
  proof (intro set_eqI)
    fix q :: "int \<times> 'b \<times> int"
    obtain e r m where q: "q = (e, r, m)" by (cases q)
    show "q \<in> {q \<in> {(e, p, i). sx_entries x i = Some e \<and> T i = Some p}. fst q \<noteq> old} \<longleftrightarrow>
        q \<in> {(e, p, k). ((sx_entries x)(i := None)) k = Some e \<and> (T(i := None)) k = Some p}"
      using k [of m] Some q by (cases "m = i") auto
  qed
  have "inj_on ((sx_entries x)(i := None)) (dom T - {i})"
    using j by (auto simp: inj_on_def)
  then show ?thesis using Some d s by (simp add: sched_Remove_def tracks_def cron_okD(2) [OF assms(1)] e)
qed

lemma tracks_add:
  assumes "cron_ok cr" "tracks cr T x" "T (sc_id sc) = None" "se_parse env (sc_schedule sc) = Inr p"
  shows "tracks cr (T(sc_id sc \<mapsto> p)) (fst (addLocked env cr sc x)) \<and> sx_started (fst (addLocked env cr sc x)) = sx_started x"
proof -
  obtain c n where q: "cr_Schedule cr p (sc_id sc) (sx_cron x) = (c, n)" by (cases "cr_Schedule cr p (sc_id sc) (sx_cron x)")
  note o = cron_okD(1) [OF assms(1) q]
  have d: "dom (sx_entries x) = dom T" and j: "inj_on (sx_entries x) (dom T)"
    and e: "set (cr_entries cr (sx_cron x)) = {(e, p, i). sx_entries x i = Some e \<and> T i = Some p}"
    using assms(2) by (simp_all add: tracks_def)
  have fresh: "sx_entries x k \<noteq> Some n" for k
  proof
    assume k: "sx_entries x k = Some n"
    then obtain r where "T k = Some r" using d by (metis domD domI)
    with k have "(n, r, k) \<in> set (cr_entries cr (sx_cron x))" using e by simp
    then show False using o by force
  qed
  have none: "sx_entries x (sc_id sc) = None" using d assms(3) by (metis domIff)
  have s: "insert (n, p, sc_id sc) {(e, p, i). sx_entries x i = Some e \<and> T i = Some p} =
      {(e, r, k). ((sx_entries x)(sc_id sc \<mapsto> n)) k = Some e \<and> (T(sc_id sc \<mapsto> p)) k = Some r}"
    using none assms(3) by (auto split: if_splits)
  have "inj_on ((sx_entries x)(sc_id sc \<mapsto> n)) (insert (sc_id sc) (dom T))"
    using j fresh by (auto simp: inj_on_def) (metis fresh)+
  then show ?thesis using o q d s by (simp add: addLocked_def assms(4) tracks_def e)
qed

lemma Remove_started [simp]: "sx_started (sched_Remove cr i x) = sx_started x"
  by (simp add: sched_Remove_def split: option.split)

lemma tracks_Reschedule:
  assumes "cron_ok cr" "tracks cr T x" "sx_started x" "se_parse env (sc_schedule sc) = Inr p"
  shows "tracks cr (T(sc_id sc := (if sc_enabled sc then Some p else None))) (Reschedule env cr sc x) \<and> sx_started (Reschedule env cr sc x)"
proof -
  note r = tracks_remove [OF assms(1,2), of "sc_id sc"]
  show ?thesis
  proof (cases "sc_enabled sc")
    case True
    have "(T(sc_id sc := None)) (sc_id sc) = None" by simp
    note a = tracks_add [where env = env and p = p, OF assms(1) r this assms(4), unfolded fun_upd_upd]
    have "Reschedule env cr sc x = fst (addLocked env cr sc (sched_Remove cr (sc_id sc) x))"
      using True assms(3) by (simp add: Reschedule_def Let_def)
    then show ?thesis using a True assms(3) by (simp only: if_True Remove_started)
  next
    case False
    then show ?thesis using r assms(3) by (simp add: Reschedule_def Let_def)
  qed
qed

lemma tracks_Start:
  assumes "cron_ok cr" "tracks cr T x" "distinct (map sc_id rows)" "\<And>r. r \<in> set rows \<Longrightarrow> T (sc_id r) = None"
    "\<And>r. r \<in> set rows \<Longrightarrow> \<exists>p. se_parse env (sc_schedule r) = Inr p"
  shows "tracks cr (\<lambda>i. case wanted env rows i of None \<Rightarrow> T i | Some p \<Rightarrow> Some p)
    (fold (\<lambda>sc x. if sc_enabled sc then fst (addLocked env cr sc x) else x) rows x)"
  using assms(2-5)
proof (induction rows arbitrary: T x)
  case Nil
  have "(\<lambda>i. case wanted env [] i of None \<Rightarrow> T i | Some p \<Rightarrow> Some p) = T" by (simp add: wanted_def fun_eq_iff)
  then show ?case using Nil.prems(1) by simp
next
  case (Cons r rows)
  obtain p where p: "se_parse env (sc_schedule r) = Inr p" using Cons.prems(4) by force
  have nr: "row_by sc_id rows (sc_id r) = None" using Cons.prems(2) by (simp add: row_by_None_iff)
  show ?case
  proof (cases "sc_enabled r")
    case True
    have t: "tracks cr (T(sc_id r \<mapsto> p)) (fst (addLocked env cr r x))"
      using tracks_add [where env = env and sc = r, OF assms(1) Cons.prems(1) _ p] Cons.prems(3) by simp
    have "(\<lambda>i. case wanted env (r # rows) i of None \<Rightarrow> T i | Some q \<Rightarrow> Some q) =
        (\<lambda>i. case wanted env rows i of None \<Rightarrow> (T(sc_id r \<mapsto> p)) i | Some q \<Rightarrow> Some q)"
      using True p nr by (auto simp: wanted_def fun_eq_iff split: option.splits)
    moreover have "tracks cr (\<lambda>i. case wanted env rows i of None \<Rightarrow> (T(sc_id r \<mapsto> p)) i | Some q \<Rightarrow> Some q)
        (fold (\<lambda>sc x. if sc_enabled sc then fst (addLocked env cr sc x) else x) rows (fst (addLocked env cr r x)))"
      by (rule Cons.IH [OF t]) (use Cons.prems in \<open>auto simp: image_iff\<close>)
    ultimately show ?thesis using True by simp
  next
    case False
    have "(\<lambda>i. case wanted env (r # rows) i of None \<Rightarrow> T i | Some q \<Rightarrow> Some q) =
        (\<lambda>i. case wanted env rows i of None \<Rightarrow> T i | Some q \<Rightarrow> Some q)"
      using False nr Cons.prems(3) [of r] by (auto simp: wanted_def fun_eq_iff split: option.splits)
    then show ?thesis using Cons.IH [OF Cons.prems(1)] Cons.prems False by simp
  qed
qed

section \<open>The operations keep the tables\<close>

lemma wanted_append:
  assumes "row_by sc_id rows (sc_id r) = None" "se_parse env (sc_schedule r) = Inr p"
  shows "wanted env (rows @ [r]) = (wanted env rows)(sc_id r := (if sc_enabled r then Some p else None))"
  using assms by (auto simp: wanted_def fun_eq_iff split: option.splits)

lemma wanted_upd:
  assumes f: "\<And>r. sc_id (f r) = sc_id r" and r: "row_by sc_id rows i = Some r" "se_parse env (sc_schedule (f r)) = Inr p"
  shows "wanted env (upd_row sc_id i f rows) = (wanted env rows)(i := (if sc_enabled (f r) then Some p else None))"
proof
  fix k
  have "sc_id r = i" using row_by_SomeD [OF r(1)] by simp
  moreover have "sc_id x = k" if "row_by sc_id rows k = Some x" for x using row_by_SomeD [OF that] by simp
  ultimately show "wanted env (upd_row sc_id i f rows) k = ((wanted env rows)(i := (if sc_enabled (f r) then Some p else None))) k"
    using r by (auto simp: wanted_def row_by_upd_row f split: option.splits)
qed

lemma wanted_same:
  assumes "\<And>r. sc_id (f r) = sc_id r \<and> sc_enabled (f r) = sc_enabled r \<and> sc_schedule (f r) = sc_schedule r"
  shows "wanted env (upd_row sc_id i f rows) = wanted env rows"
proof -
  have "\<And>r. sc_id (f r) = sc_id r" using assms by blast
  then show ?thesis using assms by (auto simp: wanted_def fun_eq_iff row_by_upd_row split: option.splits)
qed

lemma row_by_filter: "row_by sc_id (filter (\<lambda>r. sc_id r \<noteq> i) rows) k = (if k = i then None else row_by sc_id rows k)"
  by (induction rows) auto

lemma wanted_delete: "wanted env (filter (\<lambda>r. sc_id r \<noteq> i) rows) = (wanted env rows)(i := None)"
  by (auto simp: wanted_def fun_eq_iff row_by_filter)

lemma CreateScript_ok:
  assumes t: "tables_ok env (ss_db s)" and c: "CreateScript env now inp0 s = (s', res)"
  shows "(\<exists>e. res = Inl e) \<and> s' = s \<or>
    (\<exists>sc p. res = Inr sc \<and> se_parse env (sc_schedule sc) = Inr p \<and> tables_ok env (ss_db s') \<and>
       sb_scripts (ss_db s') = sb_scripts (ss_db s) @ [sc] \<and> sc_id sc = sb_script_seq (ss_db s) + 1 \<and>
       sb_script_seq (ss_db s') = sb_script_seq (ss_db s) + 1 \<and> sb_runs (ss_db s') = sb_runs (ss_db s) \<and>
       sb_run_seq (ss_db s') = sb_run_seq (ss_db s) \<and> ss_active s' = ss_active s \<and> ss_running s' = ss_running s)"
proof -
  define inp where "inp = inp0\<lparr>si_Name := trim_space (si_Name inp0)\<rparr>"
  define timeout where "timeout = (if si_TimeoutSeconds inp \<le> 0 then defaultScriptTimeout else si_TimeoutSeconds inp)"
  define r :: script_row where "r = \<lparr>sc_id = sb_script_seq (ss_db s) + 1, sc_name = si_Name inp, sc_schedule = si_Schedule inp,
    sc_path = si_ScriptPath inp, sc_enabled = (si_Enabled inp \<noteq> Some False), sc_timeout = timeout, sc_last_run = None,
    sc_last_status = None, sc_next_run = None, sc_created = now, sc_updated = now\<rparr>"
  show ?thesis
  proof (cases "script_validate env inp")
    case (Some e)
    then show ?thesis using c by (auto simp: CreateScript_def inp_def Let_def)
  next
    case None
    show ?thesis
    proof (cases "si_Name inp \<in> sc_name ` set (sb_scripts (ss_db s))")
      case True
      then show ?thesis using c None by (auto simp: CreateScript_def inp_def Let_def)
    next
      case new: False
      let ?d = "(ss_db s)\<lparr>sb_scripts := sb_scripts (ss_db s) @ [r], sb_script_seq := sb_script_seq (ss_db s) + 1\<rparr>"
      have id: "sc_id r = sb_script_seq (ss_db s) + 1" by (simp add: r_def)
      have fresh: "row_by sc_id (sb_scripts (ss_db s)) (sb_script_seq (ss_db s) + 1) = None"
        using t keyed_fresh by (auto simp: tables_ok_def)
      have s': "s' = s\<lparr>ss_db := ?d\<rparr>" and res: "res = Inr r"
        using c None new fresh id
        by (auto simp: CreateScript_def inp_def [symmetric] insert_script_def on_db_def GetScript_def r_def timeout_def Let_def)
      have "valid_script env r"
      proof -
        have "input_of r = (inp\<lparr>si_TimeoutSeconds := timeout\<rparr>)\<lparr>si_Enabled := Some (sc_enabled r)\<rparr>"
          by (simp add: input_of_def r_def)
        moreover have "1 \<le> timeout" "timeout \<le> 86400"
          using validate_timeout [OF None] by (auto simp: timeout_def defaultScriptTimeout_def)
        ultimately show ?thesis using validate_set_timeout [OF None, of timeout] by (simp add: valid_script_def validate_cong r_def)
      qed
      moreover have "keyed sc_id (sb_scripts (ss_db s) @ [r]) (sb_script_seq (ss_db s) + 1)"
        using t id by (intro keyed_append) (simp_all add: tables_ok_def)
      ultimately have "tables_ok env ?d" using t new by (auto simp: tables_ok_def r_def)
      moreover obtain p where "se_parse env (sc_schedule r) = Inr p" using validate_parses [OF None] by (auto simp: r_def)
      ultimately show ?thesis using s' res id by simp
    qed
  qed
qed

lemma UpdateScript_ok:
  assumes t: "tables_ok env (ss_db s)" and c: "UpdateScript env now i inp s = (s', res)"
  shows "(\<exists>e. res = Inl e) \<and> s' = s \<or>
    (\<exists>f r p. res = Inr (f r) \<and> row_by sc_id (sb_scripts (ss_db s)) i = Some r \<and> (\<forall>x. sc_id (f x) = sc_id x) \<and>
       se_parse env (sc_schedule (f r)) = Inr p \<and> s' = on_db (\<lambda>d. d\<lparr>sb_scripts := upd_row sc_id i f (sb_scripts d)\<rparr>) s \<and>
       tables_ok env (ss_db s'))"
proof (cases "row_by sc_id (sb_scripts (ss_db s)) i")
  case None
  then show ?thesis using c by (auto simp: UpdateScript_def GetScript_def)
next
  case (Some r)
  define m where "m = merge_input r inp"
  define f :: "script_row \<Rightarrow> script_row" where "f = (\<lambda>x. x\<lparr>sc_name := si_Name m, sc_schedule := si_Schedule m, sc_path := si_ScriptPath m,
    sc_enabled := (si_Enabled m = Some True), sc_timeout := si_TimeoutSeconds m, sc_updated := now\<rparr>)"
  have ri: "r \<in> set (sb_scripts (ss_db s))" "sc_id r = i" using row_by_SomeD [OF Some] by simp_all
  have fid: "\<And>x. sc_id (f x) = sc_id x" by (simp add: f_def)
  show ?thesis
  proof (cases "script_validate env m \<noteq> None \<or> (\<exists>x\<in>set (sb_scripts (ss_db s)). sc_id x \<noteq> i \<and> sc_name x = si_Name m)")
    case True
    then show ?thesis using c Some
      by (auto simp: UpdateScript_def GetScript_def m_def [symmetric] Let_def split: option.splits if_splits)
  next
    case False
    then have v: "script_validate env m = None" and u: "\<forall>x\<in>set (sb_scripts (ss_db s)). sc_id x \<noteq> i \<longrightarrow> sc_name x \<noteq> si_Name m" by auto
    let ?s1 = "on_db (\<lambda>d. d\<lparr>sb_scripts := upd_row sc_id i f (sb_scripts d)\<rparr>) s"
    have q: "s' = ?s1" "res = GetScript i ?s1"
      using c Some False v by (auto simp: UpdateScript_def GetScript_def m_def [symmetric] f_def Let_def split: if_splits)
    have g: "GetScript i ?s1 = Inr (f r)" using Some ri(2) by (simp add: GetScript_def on_db_def row_by_upd_row fid)
    obtain p where p: "se_parse env (sc_schedule (f r)) = Inr p" using validate_parses [OF v] by (auto simp: f_def)
    have old: "1 \<le> sc_timeout r" using t ri(1) by (auto simp: tables_ok_def valid_script_def)
    have "valid_script env (f x)" for x
    proof -
      have "input_of (f x) = m\<lparr>si_Enabled := Some (sc_enabled (f x))\<rparr>" by (simp add: input_of_def f_def)
      moreover have "1 \<le> si_TimeoutSeconds m" using validate_timeout [OF v] old by (auto simp: m_def merge_input_def split: if_splits)
      ultimately show ?thesis using v by (simp add: valid_script_def validate_cong f_def)
    qed
    then have "\<forall>x\<in>set (upd_row sc_id i f (sb_scripts (ss_db s))). valid_script env x"
      using t by (auto simp: set_upd_row tables_ok_def)
    moreover have "distinct (map sc_name (upd_row sc_id i f (sb_scripts (ss_db s))))"
      by (rule distinct_upd_unique [where x = "si_Name m"]) (use t u in \<open>auto simp: tables_ok_def keyed_def f_def\<close>)
    ultimately have "tables_ok env (ss_db ?s1)" using t fid by (simp add: tables_ok_def on_db_def)
    then show ?thesis using q g p Some fid by blast
  qed
qed

lemma active_ok_db:
  assumes "active_ok d a" "sb_runs d' = sb_runs d" "sb_run_seq d' = sb_run_seq d" "sb_script_seq d \<le> sb_script_seq d'"
    "\<And>i. i \<in> sc_id ` set (sb_scripts d') \<Longrightarrow> i \<le> sb_script_seq d \<Longrightarrow> i \<in> sc_id ` set (sb_scripts d)"
  shows "active_ok d' a"
proof -
  have "a \<in> set (sb_runs d)" if "sr_script a \<in> sc_id ` set (sb_scripts d')"
  proof -
    have "sr_script a \<le> sb_script_seq d" using assms(1) unfolding active_ok_def by (elim conjE)
    from assms(5) [OF that this] show ?thesis using assms(1) unfolding active_ok_def by (elim conjE) (erule mp)
  qed
  with assms(1-4) show ?thesis unfolding active_ok_def by (elim conjE) (intro conjI impI; simp)
qed

lemma runs_ok_db:
  assumes "runs_ok old s" "sb_runs d = sb_runs (ss_db s)" "sb_run_seq d = sb_run_seq (ss_db s)" "sb_script_seq (ss_db s) \<le> sb_script_seq d"
    "\<And>i. i \<in> sc_id ` set (sb_scripts d) \<Longrightarrow> i \<le> sb_script_seq (ss_db s) \<Longrightarrow> i \<in> sc_id ` set (sb_scripts (ss_db s))"
    and same: "ss_db s' = d" "ss_running s' = ss_running s" "ss_active s' = ss_active s"
  shows "runs_ok old s'"
  using assms(1) active_ok_db [OF _ assms(2-5)] unfolding runs_ok_def same assms(2) by blast

lemma runs_okD:
  assumes "runs_ok old s"
  shows "distinct (map sr_id (ss_active s))" "ss_running s \<subseteq> sr_script ` set (ss_active s)"
    "a \<in> set (ss_active s) \<Longrightarrow> active_ok (ss_db s) a"
    "r \<in> set (sb_runs (ss_db s)) \<Longrightarrow> sr_finished r = None \<Longrightarrow> r \<in> set (ss_active s) \<or> r \<in> old"
  using assms unfolding runs_ok_def by blast+

lemma runs_okI:
  assumes "distinct (map sr_id (ss_active s))" "ss_running s \<subseteq> sr_script ` set (ss_active s)"
    "\<And>a. a \<in> set (ss_active s) \<Longrightarrow> active_ok (ss_db s) a"
    "\<And>r. r \<in> set (sb_runs (ss_db s)) \<Longrightarrow> sr_finished r = None \<Longrightarrow> r \<in> set (ss_active s) \<or> r \<in> old"
  shows "runs_ok old s"
  using assms unfolding runs_ok_def by blast

lemma tables_okD:
  assumes "tables_ok env d"
  shows "keyed sc_id (sb_scripts d) (sb_script_seq d)" "0 \<le> sb_script_seq d" "distinct (map sc_name (sb_scripts d))"
    "r \<in> set (sb_scripts d) \<Longrightarrow> valid_script env r" "keyed sr_id (sb_runs d) (sb_run_seq d)" "0 \<le> sb_run_seq d"
    "q \<in> set (sb_runs d) \<Longrightarrow> sr_script q \<in> sc_id ` set (sb_scripts d)"
  using assms unfolding tables_ok_def by blast+

lemma DeleteScript_ok:
  assumes t: "tables_ok env (ss_db s)" and r: "runs_ok old s" and c: "DeleteScript i s = (s', res)"
  shows "(\<exists>e. res = Inl e) \<and> s' = s \<or>
    res = Inr () \<and> tables_ok env (ss_db s') \<and> runs_ok old s' \<and> ss_active s' = ss_active s \<and> ss_running s' = ss_running s \<and>
      sb_scripts (ss_db s') = filter (\<lambda>r. sc_id r \<noteq> i) (sb_scripts (ss_db s))"
proof (cases "i \<in> sc_id ` set (sb_scripts (ss_db s))")
  case False
  then show ?thesis using c by (auto simp: DeleteScript_def)
next
  case True
  let ?d = "(ss_db s)\<lparr>sb_scripts := filter (\<lambda>r. sc_id r \<noteq> i) (sb_scripts (ss_db s)), sb_runs := filter (\<lambda>r. sr_script r \<noteq> i) (sb_runs (ss_db s))\<rparr>"
  have q: "s' = s\<lparr>ss_db := ?d\<rparr>" "res = Inr ()" using c True by (auto simp: DeleteScript_def on_db_def)
  have "tables_ok env ?d"
    using tables_okD [OF t] by (auto simp: tables_ok_def keyed_filter distinct_map_filter image_iff)
  moreover have "runs_ok old (s\<lparr>ss_db := ?d\<rparr>)"
  proof (rule runs_okI)
    fix a assume "a \<in> set (ss_active (s\<lparr>ss_db := ?d\<rparr>))"
    then have "active_ok (ss_db s) a" using runs_okD(3) [OF r] by simp
    then show "active_ok (ss_db (s\<lparr>ss_db := ?d\<rparr>)) a" by (auto simp: active_ok_def)
  qed (use runs_okD [OF r] in simp_all)
  ultimately show ?thesis using q by simp
qed

lemma start_run_ok:
  assumes t: "tables_ok env (ss_db s)" and r: "runs_ok old s"
  shows "tables_ok env (ss_db (fst (start_run now i trig s))) \<and> runs_ok old (fst (start_run now i trig s)) \<and>
    sb_scripts (ss_db (fst (start_run now i trig s))) = sb_scripts (ss_db s) \<and>
    (fst (start_run now i trig s) = s \<or>
     (\<exists>x. sr_script x = i \<and> ss_active (fst (start_run now i trig s)) = ss_active s @ [x] \<and>
        ss_running (fst (start_run now i trig s)) = insert i (ss_running s)))"
proof (cases "i \<in> sc_id ` set (sb_scripts (ss_db s))")
  case False
  then show ?thesis using t r by (simp add: start_run_def)
next
  case there: True
  let ?n = "sb_run_seq (ss_db s) + 1"
  define x where "x = \<lparr>sr_id = ?n, sr_script = i, sr_started = now, sr_finished = None, sr_exit = None, sr_trigger = trig,
    sr_stdout = [], sr_stderr = [], sr_error = []\<rparr>"
  let ?d = "(ss_db s)\<lparr>sb_runs := sb_runs (ss_db s) @ [x], sb_run_seq := ?n\<rparr>"
  let ?s = "s\<lparr>ss_db := ?d, ss_running := insert i (ss_running s), ss_active := ss_active s @ [x]\<rparr>"
  have "row_by sr_id (sb_runs (ss_db s)) ?n = None" using keyed_fresh [OF tables_okD(5) [OF t]] .
  then have q: "fst (start_run now i trig s) = ?s"
    using there by (simp add: start_run_def GetRun_def on_db_def setRunning_def x_def Let_def)
  have "keyed sr_id (sb_runs (ss_db s) @ [x]) ?n"
    using tables_okD(5,6) [OF t] by (intro keyed_append) (simp_all add: x_def)
  then have "tables_ok env ?d" using tables_okD [OF t] there by (auto simp: tables_ok_def x_def)
  moreover have "runs_ok old ?s"
  proof (rule runs_okI)
    have bound: "sr_id a \<le> sb_run_seq (ss_db s)" if "a \<in> set (ss_active s)" for a
      using runs_okD(3) [OF r that] by (simp add: active_ok_def)
    have "?n \<notin> sr_id ` set (ss_active s)" using bound by force
    then show "distinct (map sr_id (ss_active ?s))" using runs_okD(1) [OF r] by (simp add: x_def)
    show "ss_running ?s \<subseteq> sr_script ` set (ss_active ?s)" using runs_okD(2) [OF r] by (auto simp: x_def)
    have ids: "i \<le> sb_script_seq (ss_db s)" using there tables_okD(1) [OF t] by (auto simp: keyed_def)
    show "active_ok (ss_db ?s) a" if "a \<in> set (ss_active ?s)" for a
    proof (cases "a = x")
      case True
      then show ?thesis using ids by (simp add: active_ok_def x_def)
    next
      case False
      then have "active_ok (ss_db s) a" using that runs_okD(3) [OF r] by simp
      then show ?thesis by (auto simp: active_ok_def)
    qed
    show "q \<in> set (ss_active ?s) \<or> q \<in> old" if "q \<in> set (sb_runs (ss_db ?s))" "sr_finished q = None" for q
      using that runs_okD(4) [OF r, of q] by auto
  qed
  moreover have "sr_script x = i" by (simp add: x_def)
  ultimately show ?thesis using q by auto
qed

text \<open>What the end of a run writes.\<close>

definition closes :: "(run_row \<Rightarrow> run_row) \<Rightarrow> bool" where
  "closes g \<longleftrightarrow> (\<forall>r. sr_id (g r) = sr_id r \<and> sr_script (g r) = sr_script r \<and> sr_finished (g r) \<noteq> None)"

definition reports :: "(script_row \<Rightarrow> script_row) \<Rightarrow> bool" where
  "reports h \<longleftrightarrow> (\<forall>r. sc_id (h r) = sc_id r \<and> input_of (h r) = input_of r)"

lemma reportsD:
  assumes "reports h"
  shows "sc_id (h r) = sc_id r" "sc_name (h r) = sc_name r" "sc_schedule (h r) = sc_schedule r" "sc_enabled (h r) = sc_enabled r"
    "valid_script env (h r) = valid_script env r"
proof -
  have h: "sc_id (h r) = sc_id r" "input_of (h r) = input_of r" using assms by (simp_all add: reports_def)
  show "sc_id (h r) = sc_id r" by (rule h(1))
  show "sc_name (h r) = sc_name r" "sc_schedule (h r) = sc_schedule r" "sc_enabled (h r) = sc_enabled r"
    using h(2) by (simp_all add: input_of_def)
  have "sc_timeout (h r) = sc_timeout r" using h(2) by (simp add: input_of_def)
  then show "valid_script env (h r) = valid_script env r" by (simp add: valid_script_def h(2))
qed

lemma finishRun_form:
  "\<exists>g h. closes g \<and> reports h \<and> finishRun now n code out err msg (map_option (\<lambda>_. sc) so) s =
     on_db (\<lambda>d. d\<lparr>sb_scripts := upd_row sc_id (sc_id sc) h (sb_scripts d), sb_runs := upd_row sr_id n g (sb_runs d)\<rparr>) s"
proof -
  let ?g = "\<lambda>r. r\<lparr>sr_finished := Some now, sr_exit := code, sr_stdout := out, sr_stderr := err, sr_error := msg\<rparr>"
  let ?st = "if code = None \<or> code \<noteq> Some 0 then ''failed'' else ''success''"
  let ?h = "case so of None \<Rightarrow> (\<lambda>x. x) | Some _ \<Rightarrow> (\<lambda>x. x\<lparr>sc_last_run := Some now, sc_last_status := Some ?st\<rparr>)"
  have "closes ?g" by (simp add: closes_def)
  moreover have "reports ?h" by (simp add: reports_def input_of_def split: option.split)
  moreover have "finishRun now n code out err msg (map_option (\<lambda>_. sc) so) s =
     on_db (\<lambda>d. d\<lparr>sb_scripts := upd_row sc_id (sc_id sc) ?h (sb_scripts d), sb_runs := upd_row sr_id n ?g (sb_runs d)\<rparr>) s"
    by (cases so) (simp_all add: finishRun_def on_db_def upd_row_def Let_def)
  ultimately show ?thesis by blast
qed

lemma execute_form:
  "\<exists>g h. closes g \<and> reports h \<and> execute env sdb proc now run s =
     on_db (\<lambda>d. d\<lparr>sb_scripts := upd_row sc_id (sr_script run) h (sb_scripts d), sb_runs := upd_row sr_id (sr_id run) g (sb_runs d)\<rparr>) s"
proof (cases "row_by sc_id (sb_scripts (ss_db s)) (sr_script run)")
  case None
  let ?g = "\<lambda>r. r\<lparr>sr_finished := Some now, sr_exit := None, sr_stdout := [], sr_stderr := [], sr_error := ''script vanished: script not found''\<rparr>"
  have "execute env sdb proc now run s =
     on_db (\<lambda>d. d\<lparr>sb_scripts := upd_row sc_id (sr_script run) (\<lambda>x. x) (sb_scripts d), sb_runs := upd_row sr_id (sr_id run) ?g (sb_runs d)\<rparr>) s"
    using None by (simp add: execute_def GetScript_def finishRun_def on_db_def upd_row_def)
  moreover have "closes ?g" "reports (\<lambda>x. x)" by (simp_all add: closes_def reports_def)
  ultimately show ?thesis by blast
next
  case (Some sc)
  have i: "sc_id sc = sr_script run" using row_by_SomeD [OF Some] by simp
  have "\<exists>code out err msg. execute env sdb proc now run s = finishRun now (sr_id run) code out err msg (Some sc) s"
  proof (cases "ss_disk s (resolvePath (se_dir env) (sc_path sc))")
    case None
    then show ?thesis using Some unfolding execute_def GetScript_def finishRunNotFound_def Let_def by (simp, blast)
  next
    case F: (Some f)
    then show ?thesis using Some unfolding execute_def GetScript_def finishRunNotFound_def Let_def
      by (cases f) (simp add: split_beta, blast)+
  qed
  then obtain code out err msg where e: "execute env sdb proc now run s = finishRun now (sr_id run) code out err msg (Some sc) s" by blast
  then show ?thesis using finishRun_form [where so = "Some sc" and sc = sc and s = s and now = now and n = "sr_id run"] i by simp
qed

lemma row_by_changed:
  "(\<And>r. key (f r) = key r) \<Longrightarrow>
   row_by key (upd_row key k f rows) l = (if l = k then map_option f (row_by key rows k) else row_by key rows l)"
  by (induction rows) auto

lemma remove_nth:
  assumes "k < length xs"
  shows "set (take k xs @ drop (Suc k) xs) \<subseteq> set xs"
    "distinct (map f xs) \<Longrightarrow> distinct (map f (take k xs @ drop (Suc k) xs))"
    "distinct (map f xs) \<Longrightarrow> set (take k xs @ drop (Suc k) xs) = {x \<in> set xs. f x \<noteq> f (xs ! k)}"
proof -
  obtain ys zs where x: "xs = ys @ xs ! k # zs" "take k xs = ys" "drop (Suc k) xs = zs"
    using id_take_nth_drop [OF assms] by auto
  have e: "take k xs @ drop (Suc k) xs = ys @ zs" using x by simp
  show "set (take k xs @ drop (Suc k) xs) \<subseteq> set xs" unfolding e using x(1) by (metis Un_mono set_append set_subset_Cons subset_refl)
  have d: "distinct (map f ys @ f (xs ! k) # map f zs)" if "distinct (map f xs)"
    using that x(1) by (metis list.map(2) map_append)
  show "distinct (map f (take k xs @ drop (Suc k) xs))" if "distinct (map f xs)"
    unfolding e using d [OF that] by auto
  show "set (take k xs @ drop (Suc k) xs) = {x \<in> set xs. f x \<noteq> f (xs ! k)}" if "distinct (map f xs)"
  proof -
    have "f y \<noteq> f (xs ! k)" if "y \<in> set ys \<union> set zs" for y using d [OF \<open>distinct (map f xs)\<close>] that by (auto simp: image_iff)
    moreover have "set xs = insert (xs ! k) (set ys \<union> set zs)" using x(1) by (metis Un_insert_right list.simps(15) set_append)
    ultimately show ?thesis unfolding e by auto
  qed
qed

lemma run_active_form:
  assumes "k < length (ss_active s)"
  shows "\<exists>g h. closes g \<and> reports h \<and> run_active env sdb proc now k s =
    s\<lparr>ss_db := (ss_db s)\<lparr>sb_scripts := upd_row sc_id (sr_script (ss_active s ! k)) h (sb_scripts (ss_db s)),
        sb_runs := upd_row sr_id (sr_id (ss_active s ! k)) g (sb_runs (ss_db s))\<rparr>,
      ss_active := take k (ss_active s) @ drop (Suc k) (ss_active s), ss_running := ss_running s - {sr_script (ss_active s ! k)}\<rparr>"
proof -
  obtain g h where "closes g" "reports h"
    and e: "execute env sdb proc now (ss_active s ! k) s = on_db (\<lambda>d. d\<lparr>sb_scripts := upd_row sc_id (sr_script (ss_active s ! k)) h (sb_scripts d),
        sb_runs := upd_row sr_id (sr_id (ss_active s ! k)) g (sb_runs d)\<rparr>) s"
    using execute_form [of env sdb proc now "ss_active s ! k" s] by blast
  moreover have "run_active env sdb proc now k s =
    s\<lparr>ss_db := (ss_db s)\<lparr>sb_scripts := upd_row sc_id (sr_script (ss_active s ! k)) h (sb_scripts (ss_db s)),
        sb_runs := upd_row sr_id (sr_id (ss_active s ! k)) g (sb_runs (ss_db s))\<rparr>,
      ss_active := take k (ss_active s) @ drop (Suc k) (ss_active s), ss_running := ss_running s - {sr_script (ss_active s ! k)}\<rparr>"
    using assms by (simp add: run_active_def e setRunning_def on_db_def Let_def)
  ultimately show ?thesis by blast
qed

lemma run_active_ok:
  assumes t: "tables_ok env (ss_db s)" and r: "runs_ok old s"
  shows "tables_ok env (ss_db (run_active env' sdb proc now k s)) \<and> runs_ok old (run_active env' sdb proc now k s) \<and>
    wanted env (sb_scripts (ss_db (run_active env' sdb proc now k s))) = wanted env (sb_scripts (ss_db s))"
proof (cases "k < length (ss_active s)")
  case False
  then show ?thesis using t r by (simp add: run_active_def)
next
  case k: True
  let ?run = "ss_active s ! k"
  let ?rest = "take k (ss_active s) @ drop (Suc k) (ss_active s)"
  obtain g h where g: "closes g" and h: "reports h"
    and q: "run_active env' sdb proc now k s = s\<lparr>ss_db := (ss_db s)\<lparr>sb_scripts := upd_row sc_id (sr_script ?run) h (sb_scripts (ss_db s)),
        sb_runs := upd_row sr_id (sr_id ?run) g (sb_runs (ss_db s))\<rparr>,
      ss_active := ?rest, ss_running := ss_running s - {sr_script ?run}\<rparr>"
    using run_active_form [OF k, of env' sdb proc now] by blast
  let ?d = "(ss_db s)\<lparr>sb_scripts := upd_row sc_id (sr_script ?run) h (sb_scripts (ss_db s)), sb_runs := upd_row sr_id (sr_id ?run) g (sb_runs (ss_db s))\<rparr>"
  have gid: "\<And>x. sr_id (g x) = sr_id x" "\<And>x. sr_script (g x) = sr_script x" "\<And>x. sr_finished (g x) \<noteq> None"
    using g by (simp_all add: closes_def)
  have "\<forall>x\<in>set (upd_row sc_id (sr_script ?run) h (sb_scripts (ss_db s))). valid_script env x"
    using tables_okD(4) [OF t] reportsD(5) [OF h, of env] by (auto simp: set_upd_row)
  moreover have "\<forall>x\<in>set (upd_row sr_id (sr_id ?run) g (sb_runs (ss_db s))). sr_script x \<in> sc_id ` set (sb_scripts (ss_db s))"
    using tables_okD(7) [OF t] gid(2) by (auto simp: set_upd_row)
  ultimately have t': "tables_ok env ?d"
    using tables_okD(1-3,5,6) [OF t] gid(1) reportsD(1,2) [OF h] by (simp add: tables_ok_def)
  have "runs_ok old (s\<lparr>ss_db := ?d, ss_active := ?rest, ss_running := ss_running s - {sr_script ?run}\<rparr>)" (is "runs_ok old ?s")
  proof (rule runs_okI)
    note n = remove_nth(3) [OF k runs_okD(1) [OF r]]
    show "distinct (map sr_id (ss_active ?s))" using remove_nth(2) [OF k runs_okD(1) [OF r]] by simp
    have "ss_running s - {sr_script ?run} \<subseteq> sr_script ` {x \<in> set (ss_active s). sr_id x \<noteq> sr_id ?run}"
    proof
      fix i assume i: "i \<in> ss_running s - {sr_script ?run}"
      then obtain x where x: "x \<in> set (ss_active s)" "i = sr_script x" using runs_okD(2) [OF r] by blast
      have "sr_id x \<noteq> sr_id ?run"
      proof
        assume e: "sr_id x = sr_id ?run"
        have "x = ?run" by (rule inj_onD [where f = sr_id and A = "set (ss_active s)"])
          (use runs_okD(1) [OF r] e x(1) k in \<open>simp_all add: distinct_map\<close>)
        then show False using i x(2) by simp
      qed
      then show "i \<in> sr_script ` {x \<in> set (ss_active s). sr_id x \<noteq> sr_id ?run}" using x by blast
    qed
    then show "ss_running ?s \<subseteq> sr_script ` set (ss_active ?s)" using n by simp
    show "active_ok (ss_db ?s) a" if "a \<in> set (ss_active ?s)" for a
    proof -
      have "ss_active ?s = ?rest" by simp
      with that n have "a \<in> {x \<in> set (ss_active s). sr_id x \<noteq> sr_id ?run}" by (simp only:)
      then have a: "a \<in> set (ss_active s)" "sr_id a \<noteq> sr_id ?run" by simp_all
      have "a \<in> set (upd_row sr_id (sr_id ?run) g (sb_runs (ss_db s)))" if "a \<in> set (sb_runs (ss_db s))"
        using that a(2) by (auto simp: set_upd_row)
      then show ?thesis using runs_okD(3) [OF r a(1)] reportsD(1) [OF h] by (simp add: active_ok_def)
    qed
    show "x \<in> set (ss_active ?s) \<or> x \<in> old" if x: "x \<in> set (sb_runs (ss_db ?s))" "sr_finished x = None" for x
    proof -
      have "x \<in> set (upd_row sr_id (sr_id ?run) g (sb_runs (ss_db s)))" using x(1) by simp
      then obtain y where y: "y \<in> set (sb_runs (ss_db s))" "x = (if sr_id y = sr_id ?run then g y else y)" by (auto simp: upd_row_def)
      then have "sr_id y \<noteq> sr_id ?run" using x(2) gid(3) [of y] by (cases "sr_id y = sr_id ?run") simp_all
      with y have "x \<in> set (sb_runs (ss_db s)) \<and> sr_id x \<noteq> sr_id ?run" by simp
      then show ?thesis using runs_okD(4) [OF r] x(2) n by simp
    qed
  qed
  moreover have "wanted env (upd_row sc_id (sr_script ?run) h (sb_scripts (ss_db s))) = wanted env (sb_scripts (ss_db s))"
    by (rule wanted_same) (use reportsD [OF h] in blast)
  ultimately show ?thesis using q t' by simp
qed

lemma PutScriptContent_db:
  "ss_db (fst (PutScriptContent env i body mkdir s)) = ss_db s" "ss_active (fst (PutScriptContent env i body mkdir s)) = ss_active s"
  "ss_running (fst (PutScriptContent env i body mkdir s)) = ss_running s"
  by (simp_all add: PutScriptContent_def Let_def split: sum.split option.split)

section \<open>The program\<close>

text \<open>The tables are well formed, every unfinished run is in progress or was left by a former process, and the cron
  library has exactly the enabled scripts, each once and with its present schedule.\<close>

definition app_ok :: "'p script_env \<Rightarrow> ('c, 'p) cron_ops \<Rightarrow> run_row set \<Rightarrow> 'c script_app \<Rightarrow> bool" where
  "app_ok env cr old a \<longleftrightarrow> tables_ok env (ss_db (sa_svc a)) \<and> runs_ok old (sa_svc a) \<and> sx_started (sa_sched a) \<and>
     tracks cr (wanted env (sb_scripts (ss_db (sa_svc a)))) (sa_sched a)"

lemma app_ok_svc:
  assumes "app_ok env cr old a" "tables_ok env (ss_db s)" "runs_ok old s" "wanted env (sb_scripts (ss_db s)) = wanted env (sb_scripts (ss_db (sa_svc a)))"
  shows "app_ok env cr old (a\<lparr>sa_svc := s\<rparr>)"
  using assms by (simp add: app_ok_def)

lemma app_ok_svc_same: "app_ok env cr old a \<Longrightarrow> app_ok env cr old (a\<lparr>sa_svc := sa_svc a\<rparr>)"
  by simp

lemma Create_step:
  assumes o: "cron_ok cr" and a: "app_ok env cr old a"
  shows "app_ok env cr old (fst (script_handler_Create env cr now body a))"
proof (cases body)
  case None
  then show ?thesis using a by (simp add: script_handler_Create_def)
next
  case (Some inp)
  have t: "tables_ok env (ss_db (sa_svc a))" and r: "runs_ok old (sa_svc a)" and s: "sx_started (sa_sched a)"
    and k: "tracks cr (wanted env (sb_scripts (ss_db (sa_svc a)))) (sa_sched a)" using a by (simp_all add: app_ok_def)
  obtain s' res where c: "CreateScript env now inp (sa_svc a) = (s', res)" by (cases "CreateScript env now inp (sa_svc a)")
  from CreateScript_ok [OF t c] show ?thesis
  proof (elim disjE exE conjE)
    fix e assume "s' = sa_svc a" "res = Inl e"
    then show ?thesis using Some c a by (simp add: script_handler_Create_def)
  next
    fix sc p assume q: "res = Inr sc" "se_parse env (sc_schedule sc) = Inr p" "tables_ok env (ss_db s')"
      "sb_scripts (ss_db s') = sb_scripts (ss_db (sa_svc a)) @ [sc]" "sc_id sc = sb_script_seq (ss_db (sa_svc a)) + 1"
      "sb_script_seq (ss_db s') = sb_script_seq (ss_db (sa_svc a)) + 1" "sb_runs (ss_db s') = sb_runs (ss_db (sa_svc a))"
      "sb_run_seq (ss_db s') = sb_run_seq (ss_db (sa_svc a))" "ss_active s' = ss_active (sa_svc a)" "ss_running s' = ss_running (sa_svc a)"
    have "row_by sc_id (sb_scripts (ss_db (sa_svc a))) (sc_id sc) = None"
      using keyed_fresh [OF tables_okD(1) [OF t]] q(5) by simp
    note w = wanted_append [where env = env, OF this q(2), folded q(4)]
    have "runs_ok old s'"
      by (rule runs_ok_db [OF r q(7,8), where s' = s']) (use q(4-6,9,10) in auto)
    then show ?thesis using Some c q(1,3) w tracks_Reschedule [OF o k s q(2)] by (simp add: script_handler_Create_def app_ok_def)
  qed
qed

lemma Update_step:
  assumes o: "cron_ok cr" and a: "app_ok env cr old a"
  shows "app_ok env cr old (fst (script_handler_Update env cr now v body a))"
proof (cases "pathID v = None \<or> body = None")
  case True
  then show ?thesis using a by (auto simp: script_handler_Update_def split: option.split)
next
  case False
  then obtain i inp where v: "pathID v = Some i" "body = Some inp" by auto
  have t: "tables_ok env (ss_db (sa_svc a))" and r: "runs_ok old (sa_svc a)" and s: "sx_started (sa_sched a)"
    and k: "tracks cr (wanted env (sb_scripts (ss_db (sa_svc a)))) (sa_sched a)" using a by (simp_all add: app_ok_def)
  obtain s' res where c: "UpdateScript env now i inp (sa_svc a) = (s', res)" by (cases "UpdateScript env now i inp (sa_svc a)")
  from UpdateScript_ok [OF t c] show ?thesis
  proof (elim disjE exE conjE)
    fix e assume "s' = sa_svc a" "res = Inl e"
    then show ?thesis using v c a by (simp add: script_handler_Update_def)
  next
    fix f x p assume q: "res = Inr (f x)" "row_by sc_id (sb_scripts (ss_db (sa_svc a))) i = Some x" "\<forall>x. sc_id (f x) = sc_id x"
      "se_parse env (sc_schedule (f x)) = Inr p" "s' = on_db (\<lambda>d. d\<lparr>sb_scripts := upd_row sc_id i f (sb_scripts d)\<rparr>) (sa_svc a)"
      "tables_ok env (ss_db s')"
    have fid: "\<And>x. sc_id (f x) = sc_id x" using q(3) by blast
    have i: "sc_id (f x) = i" using row_by_SomeD [OF q(2)] fid by simp
    have w: "wanted env (sb_scripts (ss_db s')) = (wanted env (sb_scripts (ss_db (sa_svc a))))(sc_id (f x) := (if sc_enabled (f x) then Some p else None))"
      using wanted_upd [where f = f and env = env, OF fid q(2,4)] i by (simp add: q(5) on_db_def)
    have "runs_ok old s'"
      by (rule runs_ok_db [OF r, where s' = s' and d = "ss_db s'"]) (use q(5) fid in \<open>auto simp: on_db_def\<close>)
    then show ?thesis using v c q(1,6) w tracks_Reschedule [OF o k s q(4)] by (simp add: script_handler_Update_def app_ok_def)
  qed
qed

lemma Delete_step:
  assumes o: "cron_ok cr" and a: "app_ok env cr old a"
  shows "app_ok env cr old (fst (script_handler_Delete cr v a))"
proof (cases "pathID v")
  case None
  then show ?thesis using a by (simp add: script_handler_Delete_def)
next
  case (Some i)
  have t: "tables_ok env (ss_db (sa_svc a))" and r: "runs_ok old (sa_svc a)" and s: "sx_started (sa_sched a)"
    and k: "tracks cr (wanted env (sb_scripts (ss_db (sa_svc a)))) (sa_sched a)" using a by (simp_all add: app_ok_def)
  obtain s' res where c: "DeleteScript i (sa_svc a) = (s', res)" by (cases "DeleteScript i (sa_svc a)")
  from DeleteScript_ok [OF t r c] show ?thesis
  proof (elim disjE exE conjE)
    fix e assume "s' = sa_svc a" "res = Inl e"
    then show ?thesis using Some c a by (simp add: script_handler_Delete_def)
  next
    assume q: "res = Inr ()" "tables_ok env (ss_db s')" "runs_ok old s'"
      "sb_scripts (ss_db s') = filter (\<lambda>r. sc_id r \<noteq> i) (sb_scripts (ss_db (sa_svc a)))"
    then show ?thesis using Some c s tracks_remove [OF o k, of i] by (simp add: script_handler_Delete_def app_ok_def wanted_delete)
  qed
qed

lemma app_step_ok:
  assumes o: "cron_ok cr" and a: "app_ok env cr old a"
  shows "app_ok env cr old (app_step env cr st a)"
proof -
  have t: "tables_ok env (ss_db (sa_svc a))" and r: "runs_ok old (sa_svc a)" using a by (simp_all add: app_ok_def)
  have enter: "app_ok env cr old (a\<lparr>sa_svc := fst (start_run now i trig (sa_svc a)), sa_starts := ps\<rparr>)" for now i trig ps
    using start_run_ok [OF t r, of now i trig] a by (simp add: app_ok_def)
  have wait: "app_ok env cr old (begin_start i trig a)" for i trig
    using a by (simp add: begin_start_def app_ok_def split: option.split)
  show ?thesis
  proof (cases st)
    case (StepCreate now body) then show ?thesis using Create_step [OF assms] by simp
  next
    case (StepUpdate now v body) then show ?thesis using Update_step [OF assms] by simp
  next
    case (StepDelete v) then show ?thesis using Delete_step [OF assms] by simp
  next
    case (StepRun v) then show ?thesis using wait a by (simp split: option.split)
  next
    case (StepPut v body mkdir)
    show ?thesis
    proof (cases "pathID v")
      case None then show ?thesis using a StepPut by (simp add: script_handler_PutContent_def)
    next
      case (Some i)
      let ?s = "fst (PutScriptContent env i body mkdir (sa_svc a))"
      have "runs_ok old ?s" by (rule runs_ok_db [OF r, where d = "ss_db (sa_svc a)"]) (simp_all add: PutScriptContent_db)
      then have "app_ok env cr old (a\<lparr>sa_svc := ?s\<rparr>)" using t by (intro app_ok_svc [OF a]) (simp_all add: PutScriptContent_db)
      then show ?thesis using Some StepPut by (simp add: script_handler_PutContent_def split_beta split: sum.split)
    qed
  next
    case (StepTick entry)
    then show ?thesis using wait a by (simp add: cron_tick_def split: option.split)
  next
    case (StepEnter now k)
    then show ?thesis using enter a by (simp add: end_start_def split: prod.split)
  next
    case (StepGoroutine proc now k)
    have "app_ok env cr old (a\<lparr>sa_svc := run_active env (sa_secrets a) proc now k (sa_svc a)\<rparr>)"
      by (rule app_ok_svc [OF a]) (use run_active_ok [OF t r, where env' = env and sdb = "sa_secrets a" and proc = proc and now = now and k = k] in simp_all)
    then show ?thesis using StepGoroutine by simp
  next
    case (StepSetSecret now draw nm body)
    then show ?thesis using a by (simp add: app_ok_def split: option.split)
  next
    case (StepDelSecret nm) then show ?thesis using a by (simp add: app_ok_def)
  qed
qed

lemma app_start_ok:
  assumes o: "cron_ok cr" and t: "tables_ok env db" and c: "cr_entries cr c = []"
  shows "app_ok env cr {r \<in> set (sb_runs db). sr_finished r = None} (app_start env cr now db disk sdb c)"
proof -
  let ?s = "\<lparr>ss_db = db, ss_disk = disk, ss_running = {}, ss_active = []\<rparr>"
  let ?x = "\<lparr>sx_cron = c, sx_entries = Map.empty, sx_started = False\<rparr>"
  let ?l = "ListScripts env now ?s"
  have dec: "sc_id (decorate env now r) = sc_id r" "sc_enabled (decorate env now r) = sc_enabled r"
    "sc_schedule (decorate env now r) = sc_schedule r" for r
    by (simp_all add: decorate_def split: sum.split)
  have k: "tracks cr Map.empty ?x" by (simp add: tracks_def c)
  have d: "distinct (map sc_id ?l)"
    using tables_okD(1) [OF t] by (simp add: ListScripts_def comp_def dec keyed_def distinct_map)
  have p: "\<exists>p. se_parse env (sc_schedule r) = Inr p" if r: "r \<in> set ?l" for r
  proof -
    obtain x where x: "x \<in> set (sb_scripts db)" "r = decorate env now x" using r by (auto simp: ListScripts_def)
    then have "script_validate env (input_of x) = None" using tables_okD(4) [OF t] by (simp add: valid_script_def)
    from validate_parses [OF this] show ?thesis using x(2) dec(3) by (simp add: input_of_def)
  qed
  have w: "wanted env ?l = wanted env (sb_scripts db)"
  proof
    fix i
    have ds: "distinct (map sc_id (sb_scripts db))" using tables_okD(1) [OF t] by (simp add: keyed_def)
    show "wanted env ?l i = wanted env (sb_scripts db) i"
    proof (cases "row_by sc_id (sb_scripts db) i")
      case None
      then have "row_by sc_id ?l i = None" by (auto simp: row_by_None_iff ListScripts_def dec)
      with None show ?thesis by (simp add: wanted_def)
    next
      case (Some r)
      have r: "r \<in> set (sb_scripts db)" "sc_id r = i" using row_by_SomeD [OF Some] by simp_all
      have "decorate env now r \<in> set ?l" using r(1) by (simp add: ListScripts_def)
      then have "row_by sc_id ?l i = Some (decorate env now r)" using row_by_eq_Some_iff [OF d] r(2) dec(1) by simp
      with Some show ?thesis by (simp add: wanted_def dec)
    qed
  qed
  have "(\<lambda>i. case wanted env ?l i of None \<Rightarrow> Map.empty i | Some q \<Rightarrow> Some q) = wanted env (sb_scripts db)"
    by (auto simp: w fun_eq_iff split: option.split)
  with tracks_Start [where env = env, OF o k d _ p]
  have "tracks cr (wanted env (sb_scripts db)) (fold (\<lambda>sc x. if sc_enabled sc then fst (addLocked env cr sc x) else x) ?l ?x)" by simp
  then have "tracks cr (wanted env (sb_scripts db)) (sched_Start env cr ?l ?x)" by (simp add: sched_Start_def tracks_def)
  moreover have "runs_ok {r \<in> set (sb_runs db). sr_finished r = None} ?s" by (simp add: runs_ok_def)
  ultimately show ?thesis using t by (simp add: app_ok_def app_start_def sched_Start_def Let_def)
qed

section \<open>Runs of one script\<close>

lemma CreateScript_active: "CreateScript env now inp s = (s', r) \<Longrightarrow> ss_active s' = ss_active s \<and> ss_running s' = ss_running s"
  by (auto simp: CreateScript_def on_db_def Let_def split: option.splits if_splits)

lemma UpdateScript_active: "UpdateScript env now i inp s = (s', r) \<Longrightarrow> ss_active s' = ss_active s \<and> ss_running s' = ss_running s"
  by (auto simp: UpdateScript_def on_db_def Let_def split: option.splits sum.splits if_splits)

lemma DeleteScript_active: "DeleteScript i s = (s', r) \<Longrightarrow> ss_active s' = ss_active s \<and> ss_running s' = ss_running s"
  by (auto simp: DeleteScript_def on_db_def split: if_splits)

lemma single_runs_svc:
  assumes "single_runs a" "ss_active (sa_svc b) = ss_active (sa_svc a)" "ss_running (sa_svc b) = ss_running (sa_svc a)" "sa_starts b = sa_starts a"
  shows "single_runs b"
  using assms(1) unfolding single_runs_def assms(2-4) .

lemma begin_start_single: "single_runs a \<Longrightarrow> single_runs (begin_start i trig a)"
  by (auto simp: single_runs_def begin_start_def start_check_def isRunning_def split: option.split sum.splits if_splits)

lemma end_start_single:
  assumes "single_runs a" "distinct (map fst (sa_starts a))" "app_ok env cr old a"
  shows "single_runs (end_start now k a)"
proof (cases "k < length (sa_starts a)")
  case k: True
  obtain i trig where e: "sa_starts a ! k = (i, trig)" by (cases "sa_starts a ! k")
  have i: "i \<in> fst ` set (sa_starts a)" using k e by (metis fst_conv image_eqI nth_mem)
  have rest: "i \<notin> fst ` set (take k (sa_starts a) @ drop (Suc k) (sa_starts a))"
    unfolding remove_nth(3) [OF k assms(2)] using e by auto
  have sub: "fst ` set (take k (sa_starts a) @ drop (Suc k) (sa_starts a)) \<subseteq> fst ` set (sa_starts a)"
    using remove_nth(1) [OF k] by blast
  have t: "tables_ok env (ss_db (sa_svc a))" "runs_ok old (sa_svc a)" using assms(3) by (simp_all add: app_ok_def)
  from start_run_ok [OF t, of now i trig] consider (same) "fst (start_run now i trig (sa_svc a)) = sa_svc a"
    | (new) x where "sr_script x = i" "ss_active (fst (start_run now i trig (sa_svc a))) = ss_active (sa_svc a) @ [x]"
      "ss_running (fst (start_run now i trig (sa_svc a))) = insert i (ss_running (sa_svc a))" by blast
  then show ?thesis
  proof cases
    case same
    then show ?thesis using assms(1) sub k e by (auto simp: single_runs_def end_start_def)
  next
    case new
    have old: "i \<notin> ss_running (sa_svc a)" "fst ` set (sa_starts a) \<inter> ss_running (sa_svc a) = {}"
      "ss_running (sa_svc a) = sr_script ` set (ss_active (sa_svc a))" "distinct (map sr_script (ss_active (sa_svc a)))"
      using assms(1) i unfolding single_runs_def by blast+
    have "fst ` set (take k (sa_starts a) @ drop (Suc k) (sa_starts a)) \<inter> insert i (ss_running (sa_svc a)) = {}"
      using old(2) sub rest by blast
    moreover have "i \<notin> sr_script ` set (ss_active (sa_svc a))" using old(1,3) by simp
    ultimately show ?thesis using new old(3,4) k e by (simp add: single_runs_def end_start_def)
  qed
qed (use assms(1) in \<open>simp add: end_start_def\<close>)

lemma run_active_single:
  assumes "single_runs a"
  shows "single_runs (a\<lparr>sa_svc := run_active env sdb proc now k (sa_svc a)\<rparr>)"
proof (cases "k < length (ss_active (sa_svc a))")
  case k: True
  have d: "distinct (map sr_script (ss_active (sa_svc a)))" using assms by (simp add: single_runs_def)
  from run_active_form [OF k, of env sdb proc now] remove_nth(2,3) [OF k d] assms
  show ?thesis by (auto simp: single_runs_def)
qed (use assms in \<open>simp add: run_active_def\<close>)

lemma app_step_single:
  assumes s: "single_runs a" "distinct (map fst (sa_starts a))" "app_ok env cr old a"
  shows "single_runs (app_step env cr st a)"
proof (cases st)
  case (StepCreate now body)
  have "ss_active (sa_svc (fst (script_handler_Create env cr now body a))) = ss_active (sa_svc a) \<and>
      ss_running (sa_svc (fst (script_handler_Create env cr now body a))) = ss_running (sa_svc a) \<and>
      sa_starts (fst (script_handler_Create env cr now body a)) = sa_starts a"
    by (auto simp: script_handler_Create_def dest: CreateScript_active split: option.split prod.split sum.split)
  then show ?thesis unfolding StepCreate app_step.simps by (elim conjE) (rule single_runs_svc [OF s(1)])
next
  case (StepUpdate now v body)
  have "ss_active (sa_svc (fst (script_handler_Update env cr now v body a))) = ss_active (sa_svc a) \<and>
      ss_running (sa_svc (fst (script_handler_Update env cr now v body a))) = ss_running (sa_svc a) \<and>
      sa_starts (fst (script_handler_Update env cr now v body a)) = sa_starts a"
    by (auto simp: script_handler_Update_def dest: UpdateScript_active split: option.split prod.split sum.split)
  then show ?thesis unfolding StepUpdate app_step.simps by (elim conjE) (rule single_runs_svc [OF s(1)])
next
  case (StepDelete v)
  have "ss_active (sa_svc (fst (script_handler_Delete cr v a))) = ss_active (sa_svc a) \<and>
      ss_running (sa_svc (fst (script_handler_Delete cr v a))) = ss_running (sa_svc a) \<and>
      sa_starts (fst (script_handler_Delete cr v a)) = sa_starts a"
    by (auto simp: script_handler_Delete_def dest: DeleteScript_active split: option.split prod.split sum.split)
  then show ?thesis unfolding StepDelete app_step.simps by (elim conjE) (rule single_runs_svc [OF s(1)])
next
  case (StepPut v body mkdir)
  have "ss_active (sa_svc (fst (script_handler_PutContent env v body mkdir a))) = ss_active (sa_svc a) \<and>
      ss_running (sa_svc (fst (script_handler_PutContent env v body mkdir a))) = ss_running (sa_svc a) \<and>
      sa_starts (fst (script_handler_PutContent env v body mkdir a)) = sa_starts a"
    by (simp add: script_handler_PutContent_def split_beta PutScriptContent_db split: option.split sum.split)
  then show ?thesis unfolding StepPut app_step.simps by (elim conjE) (rule single_runs_svc [OF s(1)])
next
  case (StepRun v)
  then show ?thesis using s(1) by (simp add: begin_start_single split: option.split)
next
  case (StepTick entry)
  then show ?thesis using s(1) by (simp add: cron_tick_def begin_start_single split: option.split)
next
  case (StepEnter now k)
  then show ?thesis using end_start_single [OF s] by simp
next
  case (StepGoroutine proc now k)
  then show ?thesis using run_active_single [OF s(1)] by simp
next
  case (StepSetSecret now draw nm body)
  have "ss_active (sa_svc (app_step env cr (StepSetSecret now draw nm body) a)) = ss_active (sa_svc a) \<and>
      ss_running (sa_svc (app_step env cr (StepSetSecret now draw nm body) a)) = ss_running (sa_svc a) \<and>
      sa_starts (app_step env cr (StepSetSecret now draw nm body) a) = sa_starts a" by (simp split: option.split)
  then show ?thesis unfolding StepSetSecret by (elim conjE) (rule single_runs_svc [OF s(1)])
next
  case (StepDelSecret nm)
  have "ss_active (sa_svc (app_step env cr (StepDelSecret nm) a)) = ss_active (sa_svc a) \<and>
      ss_running (sa_svc (app_step env cr (StepDelSecret nm) a)) = ss_running (sa_svc a) \<and>
      sa_starts (app_step env cr (StepDelSecret nm) a) = sa_starts a" by simp
  then show ?thesis unfolding StepDelSecret by (elim conjE) (rule single_runs_svc [OF s(1)])
qed

section \<open>Properties\<close>

text \<open>C38: From the start of the program on, whatever requests, ticks and ends of runs follow, in any order and
  with anything between the check of a start and its entry, the scripts stay valid with names and ids of
  their own, every run in progress is an unfinished row of its script unless that was deleted, every
  unfinished row is in progress or was left unfinished by a former process, and the cron library has exactly
  one entry for each enabled script, with its present schedule, and no other. A script has two runs in
  progress only when two starts of it were between check and entry at once: while that never
  happens, no two runs in progress are of one script and exactly their scripts are marked as running.\<close>

theorem scripts_in_step:
  assumes "cron_ok cr" "tables_ok env db" "cr_entries cr c = []"
  shows "let run = (\<lambda>steps. fold (app_step env cr) steps (app_start env cr now db disk sdb c)) in
    app_ok env cr {r \<in> set (sb_runs db). sr_finished r = None} (run steps) \<and>
    ((\<forall>n. distinct (map fst (sa_starts (run (take n steps))))) \<longrightarrow>
      distinct (map sr_script (ss_active (sa_svc (run steps)))) \<and>
      ss_running (sa_svc (run steps)) = sr_script ` set (ss_active (sa_svc (run steps))))"
proof -
  define run where "run = (\<lambda>steps. fold (app_step env cr) steps (app_start env cr now db disk sdb c))"
  let ?old = "{r \<in> set (sb_runs db). sr_finished r = None}"
  have ok: "app_ok env cr ?old (run steps)" for steps
  proof (induction steps rule: rev_induct)
    case Nil
    then show ?case using app_start_ok [OF assms] by (simp add: run_def)
  next
    case (snoc st steps)
    then show ?case using app_step_ok [OF assms(1)] by (simp add: run_def)
  qed
  have "single_runs (run steps)" if "\<forall>n. distinct (map fst (sa_starts (run (take n steps))))" for steps
    using that
  proof (induction steps rule: rev_induct)
    case Nil
    then show ?case by (simp add: run_def app_start_def single_runs_def Let_def)
  next
    case (snoc st steps)
    have "distinct (map fst (sa_starts (run (take n steps))))" for n
      using snoc.prems [rule_format, of "min n (length steps)"] by (cases "n \<le> length steps") simp_all
    then have "single_runs (run steps)" "distinct (map fst (sa_starts (run steps)))"
      using snoc.IH by (blast, metis take_all order_refl)
    then have "single_runs (app_step env cr st (run steps))" by (rule app_step_single) (rule ok)
    then show ?case by (simp add: run_def)
  qed
  with ok show ?thesis unfolding run_def [symmetric] Let_def single_runs_def by blast
qed

text \<open>C39: The goroutine of a run closes its row, and only that one, with the end of the process: exit code and
  message, the first 64 KiB of either output and a mark when there was more; the script gets the status, it
  can run again, and no other script changes.\<close>

theorem run_recorded:
  assumes t: "tables_ok env (ss_db s)" "runs_ok old s" and k: "k < length (ss_active s)" "run = ss_active s ! k"
    and sc: "GetScript (sr_script run) s = Inr sc" "ss_disk s (resolvePath (se_dir env) (sc_path sc)) = Some (ScriptFile c)"
    and p: "p = proc (resolvePath (se_dir env) (sc_path sc)) (run_environ env sdb)" "run_outcome (sc_timeout sc) p = (code, msg)"
    and o: "list_all (\<lambda>x. x \<noteq> []) (pr_stdout p)" "list_all (\<lambda>x. x \<noteq> []) (pr_stderr p)"
  shows "let s' = run_active env sdb proc now k s;
      cut = (\<lambda>chunks. take maxOutputBytes (concat chunks) @
        (if length (concat chunks) > maxOutputBytes then [CHR 0x0A] @ ''...[output truncated]'' else [])) in
    GetRun (sr_id run) s' = Some (run\<lparr>sr_finished := Some now, sr_exit := Some code, sr_stdout := cut (pr_stdout p),
      sr_stderr := cut (pr_stderr p), sr_error := msg\<rparr>) \<and>
    (\<forall>i. i \<noteq> sr_id run \<longrightarrow> GetRun i s' = GetRun i s) \<and>
    GetScript (sr_script run) s' = Inr (sc\<lparr>sc_last_run := Some now, sc_last_status := Some (if code = 0 then ''success'' else ''failed'')\<rparr>) \<and>
    (\<forall>i. i \<noteq> sr_script run \<longrightarrow> GetScript i s' = GetScript i s) \<and> \<not> isRunning (sr_script run) s'"
proof -
  have r: "row_by sc_id (sb_scripts (ss_db s)) (sr_script run) = Some sc" using sc(1) by (simp add: GetScript_def split: option.splits)
  have sc': "sc \<in> set (sb_scripts (ss_db s))" "sc_id sc = sr_script run" using row_by_SomeD [OF r] by simp_all
  have "sr_script run \<in> sc_id ` set (sb_scripts (ss_db s))" using sc' by force
  then have "run \<in> set (sb_runs (ss_db s))" using runs_okD(3) [OF t(2), of run] k by (simp add: active_ok_def)
  then have row: "row_by sr_id (sb_runs (ss_db s)) (sr_id run) = Some run"
    using tables_okD(5) [OF t(1)] by (simp add: row_by_eq_Some_iff keyed_def)
  have tm: "1 \<le> sc_timeout sc" using tables_okD(4) [OF t(1) sc'(1)] by (simp add: valid_script_def)
  let ?g = "\<lambda>r. r\<lparr>sr_finished := Some now, sr_exit := Some code, sr_stdout := captured (pr_stdout p), sr_stderr := captured (pr_stderr p), sr_error := msg\<rparr>"
  let ?h = "\<lambda>x. x\<lparr>sc_last_run := Some now, sc_last_status := Some (if code = 0 then ''success'' else ''failed'')\<rparr>"
  have e: "execute env sdb proc now run s =
      on_db (\<lambda>d. d\<lparr>sb_scripts := upd_row sc_id (sr_script run) ?h (sb_scripts d), sb_runs := upd_row sr_id (sr_id run) ?g (sb_runs d)\<rparr>) s"
    using sc p tm sc'(2) by (simp add: execute_def finishRun_def on_db_def Let_def)
  have q: "ss_db (run_active env sdb proc now k s) = (ss_db s)\<lparr>sb_scripts := upd_row sc_id (sr_script run) ?h (sb_scripts (ss_db s)),
      sb_runs := upd_row sr_id (sr_id run) ?g (sb_runs (ss_db s))\<rparr>"
    "sr_script run \<notin> ss_running (run_active env sdb proc now k s)"
    using k e by (simp_all add: run_active_def setRunning_def on_db_def Let_def)
  have rr: "row_by sr_id (upd_row sr_id (sr_id run) ?g (sb_runs (ss_db s))) i =
      (if i = sr_id run then Some (?g run) else row_by sr_id (sb_runs (ss_db s)) i)" for i
    using row by (simp add: row_by_changed)
  have ss: "row_by sc_id (upd_row sc_id (sr_script run) ?h (sb_scripts (ss_db s))) i =
      (if i = sr_script run then Some (?h sc) else row_by sc_id (sb_scripts (ss_db s)) i)" for i
    using r by (simp add: row_by_changed)
  show ?thesis
    using rr ss q(2) captured_eq [OF o(1)] captured_eq [OF o(2)] by (simp add: GetRun_def GetScript_def isRunning_def q(1))
qed

definition run_entry :: "int \<Rightarrow> int \<Rightarrow> int \<Rightarrow> string \<Rightarrow> run_row" where
  "run_entry n i now t = \<lparr>sr_id = n, sr_script = i, sr_started = now, sr_finished = None, sr_exit = None, sr_trigger = t,
     sr_stdout = [], sr_stderr = [], sr_error = []\<rparr>"

lemma start_run_eq:
  assumes "i \<in> sc_id ` set (sb_scripts (ss_db s))" "row_by sr_id (sb_runs (ss_db s)) (sb_run_seq (ss_db s) + 1) = None"
  shows "fst (start_run now i t s) = s\<lparr>ss_db := (ss_db s)\<lparr>sb_runs := sb_runs (ss_db s) @ [run_entry (sb_run_seq (ss_db s) + 1) i now t],
      sb_run_seq := sb_run_seq (ss_db s) + 1\<rparr>, ss_running := insert i (ss_running s),
      ss_active := ss_active s @ [run_entry (sb_run_seq (ss_db s) + 1) i now t]\<rparr>"
  using assms by (simp add: start_run_def GetRun_def on_db_def setRunning_def run_entry_def Let_def)

text \<open>StartRun checks and enters in two steps. When two requests have both passed the check, both enter: the
  script runs twice at once, and when one of the two ends a third may start beside the other.\<close>

theorem concurrent_starts_overlap:
  assumes "start_check i s = None" "keyed sr_id (sb_runs (ss_db s)) (sb_run_seq (ss_db s))" "0 \<le> sb_run_seq (ss_db s)" "ss_active s = []"
  shows "\<exists>a b. ss_active (fst (start_run now2 i t2 (fst (start_run now1 i t1 s)))) = [a, b] \<and> sr_script a = i \<and> sr_script b = i \<and>
    sr_id a \<noteq> sr_id b \<and>
    start_check i (run_active env sdb proc now 0 (fst (start_run now2 i t2 (fst (start_run now1 i t1 s))))) = None"
proof -
  have there: "i \<in> sc_id ` set (sb_scripts (ss_db s))"
    using assms(1) by (auto simp: start_check_def GetScript_def split: option.splits dest: row_by_SomeD)
  let ?n = "sb_run_seq (ss_db s)"
  let ?s = "fst (start_run now2 i t2 (fst (start_run now1 i t1 s)))"
  let ?x = "run_entry (?n + 1) i now1 t1" and ?y = "run_entry (?n + 1 + 1) i now2 t2"
  have f2: "row_by sr_id (sb_runs (ss_db s)) (?n + 1 + 1) = None" using assms(2) by (auto simp: keyed_def row_by_None_iff)
  note s1 = start_run_eq [OF there keyed_fresh [OF assms(2)], of now1 t1]
  have "fst (start_run now2 i t2 (fst (start_run now1 i t1 s))) = (fst (start_run now1 i t1 s))\<lparr>
      ss_db := (ss_db (fst (start_run now1 i t1 s)))\<lparr>sb_runs := sb_runs (ss_db (fst (start_run now1 i t1 s))) @ [?y], sb_run_seq := ?n + 1 + 1\<rparr>,
      ss_running := insert i (ss_running (fst (start_run now1 i t1 s))), ss_active := ss_active (fst (start_run now1 i t1 s)) @ [?y]\<rparr>"
    using start_run_eq [where s = "fst (start_run now1 i t1 s)" and i = i and now = now2 and t = t2] there f2
    by (simp add: s1 run_entry_def)
  then have s: "?s = s\<lparr>ss_db := (ss_db s)\<lparr>sb_runs := sb_runs (ss_db s) @ [?x, ?y], sb_run_seq := ?n + 1 + 1\<rparr>,
      ss_running := insert i (ss_running s), ss_active := [?x, ?y]\<rparr>"
    using assms(4) by (simp add: s1)
  have act: "ss_active ?s = [?x, ?y]" "sb_scripts (ss_db ?s) = sb_scripts (ss_db s)" by (simp_all add: s)
  have scr: "sr_script (ss_active ?s ! 0) = i" by (simp add: act run_entry_def)
  have "0 < length (ss_active ?s)" by (simp add: act)
  from run_active_form [OF this, of env sdb proc now] obtain g h where h: "reports h"
    and e: "run_active env sdb proc now 0 ?s = ?s\<lparr>ss_db := (ss_db ?s)\<lparr>sb_scripts := upd_row sc_id i h (sb_scripts (ss_db ?s)),
        sb_runs := upd_row sr_id (sr_id (ss_active ?s ! 0)) g (sb_runs (ss_db ?s))\<rparr>,
      ss_active := take 0 (ss_active ?s) @ drop (Suc 0) (ss_active ?s), ss_running := ss_running ?s - {i}\<rparr>"
    unfolding scr by blast
  have "sb_scripts (ss_db (run_active env sdb proc now 0 ?s)) = upd_row sc_id i h (sb_scripts (ss_db s))"
    "i \<notin> ss_running (run_active env sdb proc now 0 ?s)"
    by (simp_all add: e act(2))
  moreover have "row_by sc_id (upd_row sc_id i h (sb_scripts (ss_db s))) i \<noteq> None"
    using there reportsD(1) [OF h] by (simp add: row_by_None_iff)
  ultimately have "start_check i (run_active env sdb proc now 0 ?s) = None"
    by (auto simp: start_check_def GetScript_def isRunning_def split: option.split)
  then show ?thesis by (intro exI [of _ ?x] exI [of _ ?y]) (simp add: act(1) run_entry_def)
qed

section \<open>Examples\<close>

text \<open>A cron library whose state is the list of its entries.\<close>

definition list_cron :: "((int \<times> 'p \<times> int) list, 'p) cron_ops" where
  "list_cron = \<lparr>cr_Schedule = (\<lambda>p j c. let n = fold max (map fst c) 0 + 1 in ((n, p, j) # c, n)),
     cr_Remove = (\<lambda>i c. filter (\<lambda>e. fst e \<noteq> i) c), cr_entries = (\<lambda>c. c)\<rparr>"

lemma fold_max_bound: "(m::int) \<le> fold max xs m \<and> (\<forall>x\<in>set xs. x \<le> fold max xs m)"
proof (induction xs arbitrary: m)
  case (Cons y ys)
  have "max y m \<le> fold max ys (max y m)" using Cons.IH by blast
  then show ?case using Cons.IH [of "max y m"] by simp
qed simp

lemma list_cron_ok: "cron_ok list_cron"
proof -
  have "fold max (map fst c) 0 + 1 \<notin> fst ` set c" for c :: "(int \<times> 'p \<times> int) list"
  proof
    assume "fold max (map fst c) 0 + 1 \<in> fst ` set c"
    then have "fold max (map fst c) 0 + 1 \<le> fold max (map fst c) 0"
      using fold_max_bound [of 0 "map fst c"] by (metis list.set_map)
    then show False by simp
  qed
  then show ?thesis by (auto simp: cron_ok_def list_cron_def Let_def)
qed

definition demo_script :: script_row where
  "demo_script = \<lparr>sc_id = 1, sc_name = ''a'', sc_schedule = ''* * * * *'', sc_path = ''a.sh'', sc_enabled = True, sc_timeout = 300,
     sc_last_run = None, sc_last_status = None, sc_next_run = None, sc_created = 0, sc_updated = 0\<rparr>"

definition demo_scripts :: "run_row list \<Rightarrow> script_db" where
  "demo_scripts rs = \<lparr>sb_scripts = [demo_script], sb_script_seq = 1, sb_runs = rs, sb_run_seq = int (length rs)\<rparr>"

lemma demo_tables: "tables_ok demo_script_env (demo_scripts [])" "tables_ok demo_script_env (demo_scripts [run_entry 1 1 5 ''cron''])"
proof -
  have "script_validate demo_script_env (input_of demo_script) = None"
  proof -
    have "trim_space ''a'' = ''a''" "trim_space ''* * * * *'' = ''* * * * *''" by (simp_all add: trim_space_plain plain_char_def)
    moreover have "validateScriptPath ''a.sh'' = Inr ()" by code_simp
    ultimately show ?thesis by (simp add: script_validate_def ValidateSchedule_def input_of_def demo_script_def demo_script_env_def)
  qed
  then have "valid_script demo_script_env demo_script" by (simp add: valid_script_def demo_script_def)
  then show "tables_ok demo_script_env (demo_scripts [])" "tables_ok demo_script_env (demo_scripts [run_entry 1 1 5 ''cron''])"
    by (simp_all add: tables_ok_def demo_scripts_def keyed_def demo_script_def run_entry_def)
qed

text \<open>Two requests for one script pass the check before either enters: the condition on the starts fails, and
  both run.\<close>

lemma overlap_reached:
  "map sr_script (ss_active (sa_svc (fold (app_step demo_script_env list_cron) [StepRun ''1'', StepTick 1, StepEnter 2 0, StepEnter 3 0]
     (app_start demo_script_env list_cron 1 (demo_scripts []) Map.empty \<lparr>sd_rows = [], sd_seq = 0\<rparr> [])))) = [1, 1]"
  by code_simp

theorem scripts_in_step_witness:
  "app_ok demo_script_env list_cron {run_entry 1 1 5 ''cron''} (fold (app_step demo_script_env list_cron)
      [StepRun ''1'', StepEnter 2 0, StepTick 1, StepUpdate 4 ''1'' (Some \<lparr>si_Name = [], si_Schedule = ''0 * * * *'', si_ScriptPath = [],
         si_Enabled = None, si_TimeoutSeconds = 0\<rparr>), StepDelete ''1'']
      (app_start demo_script_env list_cron 1 (demo_scripts [run_entry 1 1 5 ''cron'']) Map.empty \<lparr>sd_rows = [], sd_seq = 0\<rparr> []))"
proof -
  have f: "{r \<in> set (sb_runs (demo_scripts [run_entry 1 1 5 ''cron''])). sr_finished r = None} = {run_entry 1 1 5 ''cron''}"
    by (auto simp: demo_scripts_def run_entry_def)
  have c: "cr_entries list_cron [] = []" by (simp add: list_cron_def)
  show ?thesis using scripts_in_step [OF list_cron_ok demo_tables(2) c] unfolding f Let_def by blast
qed

definition demo_proc :: "string \<Rightarrow> string list \<Rightarrow> proc_result" where
  "demo_proc path env = \<lparr>pr_stdout = [''hi''], pr_stderr = [], pr_ctx = None, pr_end = ProcExit 3\<rparr>"

theorem run_recorded_witness:
  "GetRun 1 (run_active demo_script_env \<lparr>sd_rows = [], sd_seq = 0\<rparr> demo_proc 9 0
      \<lparr>ss_db = demo_scripts [run_entry 1 1 5 ''cron''], ss_disk = [resolvePath ''/s'' ''a.sh'' \<mapsto> ScriptFile ''x''], ss_running = {1},
        ss_active = [run_entry 1 1 5 ''cron'']\<rparr>) =
    Some ((run_entry 1 1 5 ''cron'')\<lparr>sr_finished := Some 9, sr_exit := Some 3, sr_stdout := ''hi''\<rparr>)"
proof -
  let ?s = "\<lparr>ss_db = demo_scripts [run_entry 1 1 5 ''cron''], ss_disk = [resolvePath ''/s'' ''a.sh'' \<mapsto> ScriptFile ''x''], ss_running = {1},
        ss_active = [run_entry 1 1 5 ''cron'']\<rparr>"
  have "runs_ok {} ?s" by (simp add: runs_ok_def active_ok_def demo_scripts_def demo_script_def run_entry_def)
  then show ?thesis
    using run_recorded [of demo_script_env ?s "{}" 0 "run_entry 1 1 5 ''cron''" demo_script "''x''"
        "\<lparr>pr_stdout = [''hi''], pr_stderr = [], pr_ctx = None, pr_end = ProcExit 3\<rparr>" demo_proc "\<lparr>sd_rows = [], sd_seq = 0\<rparr>" 3 "[]" 9] demo_tables(2)
    by (simp add: GetScript_def demo_scripts_def demo_script_def run_entry_def demo_proc_def run_outcome_def maxOutputBytes_def
        demo_script_env_def Let_def)
qed

end
