(* ===== verification/Spec2Isabelle.thy ===== *)
theory Spec2Isabelle
  imports VFS_Writes Webdav_Handler Rate_Limit Scheduler Retention Source_Crawlers VPath Rule_Worker Pypi_Handler Registry_Sync Iso_Catalog Script_Admin
begin

text \<open>
  A verification development for MiBeeHive, a self-hosted hub that collects release files, stores
  them and serves them over WebDAV, apt, pip and HTTP.

  \<^bold>\<open>The program.\<close> Crawlers and fingerprints fetch lists of releases (internal/crawler, internal/rulesrc,
  internal/source); the crawl manager registers and downloads their files in a SQLite database
  (internal/db). Administrators arrange the files in virtual trees: channels contain views, views
  contain nodes, a node is a folder, a reference to a file or a rule that selects files
  (internal/service/virtual\_index.go). Services publish events on a bus (internal/eventbus); workers
  keep the derived tables (node paths, rule entries) and the caches (internal/cache) up to date.
  Clients read and write the trees over WebDAV (internal/webdav), or through links with tokens
  (internal/service/share\_link.go, token.go), and read package indexes for apt and pip
  (internal/apt, internal/supply). Other services copy container images between registries and
  delete old tags (internal/registry, sync\_service.go, retention\_service.go), download installation
  images (iso\_downloader.go, iso\_scraper.go, iso\_catalog\_service.go) and run scripts with secrets on
  a schedule (script\_service.go, secret\_service.go). Middleware (internal/middleware) guards paths and
  limits the rate of logins.

  \<^bold>\<open>Prelude.\<close> \<open>Go_Base\<close> holds what the code uses of Go's strings, the collection \<open>go_simps\<close> and the
  contracts of services as locales: \<open>call_contract\<close> (calls keep an invariant and a relation between
  states, so every sequence of calls does) and \<open>total_contract\<close>, which extends it by calls that return.
  \<open>Go_Text\<close> adds trimming, replacing and reading of numbers, \<open>Go_Path\<close> models path and path/filepath,
  \<open>Go_Http\<close> what the handlers use of net/http: a response is the list of calls on its writer.
  \<open>Database\<close> has the row types, the tables and the constraints of the migrations for the files and
  the trees; a violated constraint is a value of \<open>sql_err\<close>. Tables that one service alone uses are in
  its theory.

  \<^bold>\<open>Components\<close> (theory, source under src/internal, what is shown; C1 to C40 are the claims):
  \<^item> \<open>Event_Bus\<close>, eventbus/eventbus.go. Delivery is exact, sequences of calls never panic, buffers stay
    bounded under every interleaving; Publish and Close race (C1, C2).
  \<^item> \<open>Path_Guard\<close>, middleware/pathguard.go and the guards of the script, ISO and WebDAV code. What each
    guard accepts; the locale \<open>path_guard\<close> states confinement once and is interpreted on all five.
  \<^item> \<open>Virtual_Repo\<close> and \<open>Virtual_Index\<close>, db/repo\_virtual.go, db/repo\_audit.go,
    service/virtual\_index.go. The forest of nodes as an invariant of all service calls, the cycle check
    with its bound of 50 steps, moves, cascading deletion, and the self-parent a caller can create
    (C3 to C5); \<open>parent_store\<close> is the interface of the cycle check.
  \<^item> \<open>Cache\<close>, cache/cache.go. Refinement of a map over any LRU that keeps its documented laws, with the
    value of each Get and the exact counters, expiry, invalidation by events (C6).
  \<^item> \<open>VPath\<close>, service/vpath.go. The path table equals the paths of the tree after a rebuild (C7), over
    the locale \<open>view_tree\<close>.
  \<^item> \<open>Token\<close>, service/token.go. base58 is exact and injective; generated tokens are fresh (C8).
  \<^item> \<open>File_Repo\<close> and \<open>File_Registry\<close>, db/repo\_file.go, db/repo\_project.go, service/file\_registry.go,
    service/share\_link.go. The constraints of files and projects after any writes and the exact reasons
    of a refusal, recovery after a crash, idempotent registration, download limits of links, the
    backfill of tokens (C9 to C12).
  \<^item> \<open>Rule_Worker\<close>, service/rule\_worker.go. What each event does to the entries of rule folders (C13).
  \<^item> \<open>Virtual_FS\<close>, \<open>VFS_Writes\<close>, \<open>Webdav_Handler\<close>, webdav/vfs.go, handler.go, composite.go. Resolution
    of paths refines chains in the forest, new uploads can be read back, what calls leave unchanged and
    which paths are refused (C14 to C16). \<open>call_contract\<close> is interpreted on the file system calls.
  \<^item> \<open>Rate_Limit\<close>, middleware/rate\_limit.go. Lockouts hold and the attempts of a window are bounded (C17).
  \<^item> \<open>Crawl_Retry\<close>, crawler/retry.go. Bounded retries, classes of errors, the deadline, the back-off at
    64 bits (C18).
  \<^item> \<open>Scheduler\<close>, crawler/scheduler.go. One active goroutine per project in every interleaving, waiting
    calls complete; duplicates after a stop (C19).
  \<^item> \<open>File_Service\<close> and \<open>Crawl_Manager\<close>, service/file\_service.go, crawler/manager.go, db/repo\_crawl\_log.go.
    A crawl from the resolution of its project to the closed log entry: its lock, its rows, what it
    collects and that a second crawl of the same releases adds nothing (C20, C21).
  \<^item> \<open>Rule_Source\<close> and \<open>Source_Crawlers\<close>, rulesrc, source with its two fingerprints, crawler/github.go,
    golang.go, grafana.go, hashicorp.go, npm.go, crates.go, pypi.go, version.go. The rule engine, the
    routing of a source type and the crawlers; the fingerprints of GitHub and Grafana give the files of
    the crawlers they replaced, and which versions of a package are kept.
  \<^item> \<open>Retention\<close>, db/repo\_retention.go, service/retention\_service.go. Exactly the tags the rules name are
    chosen, exactly their manifests are given to the registry for deletion, and no call panics (C22).
    \<open>total_contract\<close> is interpreted on the service calls.
  \<^item> \<open>Apt_Archive\<close>, \<open>Apt_Control\<close>, \<open>Apt_Repo\<close>, \<open>Apt_Handler\<close>, apt/ar.go, deb.go, repo.go,
    supply/apt.go. Archives and package indexes round trip, the reader is safe on any bytes, the index
    served is current under conditions that are stated, and a stale one without them (C23 to C26).
    \<open>call_contract\<close> is interpreted on the requests.
  \<^item> \<open>Pypi_Handler\<close>, supply/pypi.go, supply/handler.go. Pages list what is stored, at most thirty seconds
    old (C27). The locale \<open>ttl_answers\<close> is the contract of an answer that is kept for a time; it is
    interpreted on the page index and on the file index.
  \<^item> \<open>Registry_Client\<close> and \<open>Registry_Images\<close>, registry/auth.go, client.go, tags.go, catalog.go, refs.go,
    manifests.go, blobs.go, sync.go. Listing tags by pages returns all of them (C28); blobs are pushed
    and pulled over any network.
  \<^item> \<open>Registry_Store\<close> and \<open>Registry_Sync\<close>, db/repo\_registry.go, db/repo\_sync\_task.go,
    service/registry\_service.go, sync\_service.go. Passwords, the invariants of tasks, the outcome of a
    synchronisation when the network, the context or a statement fails, and what it has copied, from the
    HTTP laws of the distribution protocol alone (C29 to C32). The locale \<open>sync_client\<close> is the
    interface RegistrySyncClient, interpreted on the client.
  \<^item> \<open>Iso_Download\<close>, \<open>Iso_Scrape\<close>, \<open>Iso_Catalog\<close>, service/iso\_downloader.go, version.go, iso\_scraper.go,
    iso\_catalog\_service.go, db/repo\_iso\_catalog.go. Downloads that break off keep or lose their bytes as
    stated and are continued, the newest link is chosen, the queue is drained (C33 to C36).
  \<^item> \<open>Secret_Store\<close>, \<open>Script_Service\<close>, \<open>Script_Admin\<close>, service/secret\_service.go, script\_service.go,
    handler/scripts.go, handler/secrets.go. Secrets refine a map, scripts, runs and cron entries stay in
    step, what a run records and what environment it sees (C37 to C40).

  \<^bold>\<open>State, errors, loops.\<close> Services pass their state (database, bus, caches, disk) explicitly; the errors of a
  function are constructors of a datatype and its result is a sum; a panic is a value. Loops over
  slices are structural recursions. Loops that may not end return options: \<open>collect_bfs\<close> and
  \<open>tags_loop\<close> are \<open>partial_function\<close>s, and the theorems on deletion and on listing tags show when they
  return (on every forest, never on a self-parent; against every registry that pages through its
  tags). \<open>updateSubtree\<close> takes fuel for its depth, which UpdatePath sets above the number of
  nodes, enough for any forest; \<open>ReplaceAll\<close> takes the length of the text, of which every round uses a
  byte; the token loops consume a supply of random draws. Machine integers are kept at
  their width where the code depends on it (sizes, the back-off, the numbers of archives); elsewhere row
  numbers and times are unbounded. The order in which Go visits a map, random bytes, the clock, the
  disk, the network, ciphers, decoders, regular expressions and third-party packages are parameters;
  what is assumed of them is a hypothesis of the theorem that needs it.

  \<^bold>\<open>Concurrency.\<close> The bus, the scheduler and the starts of scripts are modelled with the interleavings
  of their steps, cancelling a download as a step during it. The other services are sequences of
  calls: what two simultaneous calls of CreateSync do, and requests that interleave in the apt and pip handlers,
  is not shown.

  \<^bold>\<open>Not modelled.\<close> The web interface (JavaScript); the JSON handlers and routing but those of scripts,
  secrets, apt and pip (internal/handler, cmd), which decode requests and call the services;
  authentication, TLS and headers (internal/middleware/auth.go, tls.go, security\_headers.go); Docker and
  container management; the adapters for single hosted registries; OS templates; the crawler of image
  pages (crawler/iso\_source.go), a loop over a third-party tokenizer; one-off migrations of old layouts;
  configuration, backups, metrics, monitoring, logs and search.
\<close>

end
